(* ===== verification/Prelude.thy ===== *)
theory Prelude
  imports Main "HOL-Library.Word" "HOL-Library.Monad_Syntax"
begin

unbundle bit_operations_syntax

text \<open>
  Shared vocabulary of the development.

  \<^item> Machine integers: \<open>byte\<close>, \<open>u16\<close>, \<open>u32\<close> are words of their width. A C \<open>int\<close> value is an
    \<open>int\<close> in the signed 32-bit range; \<open>s32\<close> is the wrap the 32-bit target performs where a
    computation can leave that range.
  \<^item> Memory: a C object (a \<open>malloc\<close> block, a stack array) reached through a pointer is the list of
    its bytes from that pointer on. \<open>rd\<close> and \<open>wr\<close> are one-byte accesses; an access outside the
    object is undefined behaviour in C and the value \<open>None\<close> here, never an unspecified byte.
    So a theorem that a function returns \<open>Some\<close> is a memory-safety theorem.
  \<^item> Strings: a C string is the list of its bytes without the terminating NUL; \<open>cstr\<close> turns a
    literal into bytes.
\<close>

named_theorems mem_simps \<open>one-byte and block accesses to a C object\<close>
named_theorems cint_simps \<open>C integer conversions\<close>

type_synonym byte = "8 word"
type_synonym u16 = "16 word"
type_synonym u32 = "32 word"
type_synonym mem = "byte list"

section \<open>C integers\<close>

definition s32 :: "int \<Rightarrow> int" where
  "s32 x = (x + 2147483648) mod 4294967296 - 2147483648"

definition is_s32 :: "int \<Rightarrow> bool" where
  "is_s32 x \<longleftrightarrow> - 2147483648 \<le> x \<and> x < 2147483648"

lemma s32_id [cint_simps]: "is_s32 x \<Longrightarrow> s32 x = x"
  by (simp add: s32_def is_s32_def)

lemma is_s32_s32 [simp]: "is_s32 (s32 x)"
  by (simp add: s32_def is_s32_def)

lemma s32_nonneg [cint_simps]: "0 \<le> x \<Longrightarrow> x < 2147483648 \<Longrightarrow> s32 x = x"
  by (simp add: s32_id is_s32_def)

lemma s32_lower: "- 2147483648 \<le> s32 x"
  by (simp add: s32_def)

lemma s32_upper: "s32 x < 2147483648"
  by (simp add: s32_def)

lemma sint_word_of_int_s32: "sint (word_of_int v :: u32) = s32 v"
  by (simp add: signed_of_int signed_take_bit_eq_take_bit_shift take_bit_eq_mod s32_def)

lemma uint_and_mask: "uint (w AND mask n :: 'a :: len word) = uint w mod 2 ^ n"
  unfolding take_bit_eq_mask [symmetric] by (rule trans [OF unsigned_take_bit_eq take_bit_eq_mod])

lemma uint_and_not_mask: "uint (w AND NOT (mask n) :: 'a :: len word) = uint w - uint w mod 2 ^ n"
proof -
  have u: "uint (take_bit n w) = uint w mod 2 ^ n"
    by (rule trans [OF unsigned_take_bit_eq take_bit_eq_mod])
  have "w AND NOT (mask n) = push_bit n (drop_bit n w)"
    by (rule bit_eqI) (auto simp: bit_simps possible_bit_word)
  also have "\<dots> = w - take_bit n w" by (metis add_diff_cancel_right' bits_ident)
  also have "uint (w - take_bit n w) = uint w - uint (take_bit n w)"
    by (rule uint_sub_lem [THEN iffD1]) (simp add: u zmod_le_nonneg_dividend)
  finally show ?thesis by (simp add: u)
qed

text \<open>Masks that round to a multiple of four.\<close>

lemma and_3_eq: "uint (w AND 3 :: u32) = uint w mod 4"
  using uint_and_mask [of w 2] by (simp add: mask_eq_exp_minus_1)

lemma and_not_3_eq: "uint (w AND - 4 :: u32) = uint w - uint w mod 4"
  using uint_and_not_mask [of w 2] by (simp add: mask_eq_exp_minus_1)

section \<open>Error numbers and flags of the C library\<close>

definition EPERM :: int where "EPERM = 1"
definition EIO :: int where "EIO = 5"
definition EBADF :: int where "EBADF = 9"
definition EWOULDBLOCK :: int where "EWOULDBLOCK = 11"
definition EAGAIN :: int where "EAGAIN = 11"
definition ENOMEM :: int where "ENOMEM = 12"
definition EACCES :: int where "EACCES = 13"
definition EBUSY :: int where "EBUSY = 16"
definition EEXIST :: int where "EEXIST = 17"
definition EINVAL :: int where "EINVAL = 22"
definition EMFILE :: int where "EMFILE = 24"
definition ERANGE :: int where "ERANGE = 34"
definition EDEADLK :: int where "EDEADLK = 45"
definition ENOSYS :: int where "ENOSYS = 88"
definition ENOTSUP :: int where "ENOTSUP = 134"
definition EOVERFLOW :: int where "EOVERFLOW = 139"

definition O_RDONLY :: int where "O_RDONLY = 0"
definition O_WRONLY :: int where "O_WRONLY = 1"
definition O_RDWR :: int where "O_RDWR = 2"
definition O_ACCMODE :: int where "O_ACCMODE = 3"
definition O_DIRECTORY :: int where "O_DIRECTORY = 0x200000"

section \<open>Bytes of an object\<close>

definition rd :: "mem \<Rightarrow> int \<Rightarrow> byte option" where
  "rd m i = (if 0 \<le> i \<and> i < int (length m) then Some (m ! nat i) else None)"

definition wr :: "mem \<Rightarrow> int \<Rightarrow> byte \<Rightarrow> mem option" where
  "wr m i b = (if 0 \<le> i \<and> i < int (length m) then Some (m[nat i := b]) else None)"

lemma rd_ok [mem_simps]: "0 \<le> i \<Longrightarrow> i < int (length m) \<Longrightarrow> rd m i = Some (m ! nat i)"
  by (simp add: rd_def)

lemma rd_Some_iff: "rd m i = Some b \<longleftrightarrow> 0 \<le> i \<and> i < int (length m) \<and> b = m ! nat i"
  by (auto simp: rd_def)

lemma rd_eq_None_iff: "rd m i = None \<longleftrightarrow> i < 0 \<or> int (length m) \<le> i"
  by (auto simp: rd_def)

lemma rd_append_left: "i < int (length xs) \<Longrightarrow> rd (xs @ ys) i = rd xs i"
  by (auto simp: rd_def nth_append)

lemma rd_append_right: "int (length xs) \<le> i \<Longrightarrow> rd (xs @ ys) i = rd ys (i - int (length xs))"
  by (auto simp: rd_def nth_append nat_diff_distrib nat_less_iff)

lemma rd_at: "i = int (length xs) \<Longrightarrow> rd (xs @ b # ys) i = Some b"
  by (simp add: rd_def nth_append)

lemma wr_ok [mem_simps]: "0 \<le> i \<Longrightarrow> i < int (length m) \<Longrightarrow> wr m i b = Some (m[nat i := b])"
  by (simp add: wr_def)

lemma wr_length: "wr m i b = Some m' \<Longrightarrow> length m' = length m"
  by (auto simp: wr_def split: if_splits)

text \<open>\<open>memcpy\<close> into and out of an object; \<open>n\<close> is the number of bytes.\<close>

definition wr_block :: "mem \<Rightarrow> int \<Rightarrow> byte list \<Rightarrow> mem option" where
  "wr_block m i bs =
     (if bs = [] then Some m
      else if 0 \<le> i \<and> i + int (length bs) \<le> int (length m)
      then Some (take (nat i) m @ bs @ drop (nat i + length bs) m)
      else None)"

definition rd_block :: "mem \<Rightarrow> int \<Rightarrow> int \<Rightarrow> byte list option" where
  "rd_block m i n =
     (if n = 0 then Some []
      else if 0 \<le> i \<and> 0 \<le> n \<and> i + n \<le> int (length m) then Some (take (nat n) (drop (nat i) m))
      else None)"

lemma wr_block_ok:
  "0 \<le> i \<Longrightarrow> i + int (length bs) \<le> int (length m) \<Longrightarrow>
   wr_block m i bs = Some (take (nat i) m @ bs @ drop (nat i + length bs) m)"
  by (auto simp: wr_block_def)

lemma wr_block_length: "wr_block m i bs = Some m' \<Longrightarrow> length m' = length m"
  by (auto simp: wr_block_def split: if_splits)

lemma rd_block_length: "rd_block m i n = Some bs \<Longrightarrow> int (length bs) = n"
  by (auto simp: rd_block_def split: if_splits)

lemma rd_block_int:
  "i + n \<le> length m \<Longrightarrow> rd_block m (int i) (int n) = Some (take n (drop i m))"
  by (auto simp: rd_block_def)

lemma wr_block_int:
  "i + length bs \<le> length m \<Longrightarrow>
   wr_block m (int i) bs = Some (take i m @ bs @ drop (i + length bs) m)"
  by (auto simp: wr_block_def)

text \<open>Accesses at a position that splits the object.\<close>

lemma rd_split [mem_simps]: "rd (xs @ b # ys) (int (length xs)) = Some b"
  by (simp add: rd_at)

lemma wr_split [mem_simps]: "wr (xs @ b # ys) (int (length xs)) c = Some (xs @ c # ys)"
  by (simp add: wr_def)

lemma wr_block_split:
  "length old = length new \<Longrightarrow> wr_block (xs @ old @ ys) (int (length xs)) new = Some (xs @ new @ ys)"
  by (cases "new = []") (auto simp: wr_block_def)

lemma rd_block_split: "rd_block (xs @ bs @ ys) (int (length xs)) (int (length bs)) = Some bs"
  by (cases "bs = []") (auto simp: rd_block_def)

lemma wr_at: "p = int (length xs) \<Longrightarrow> wr (xs @ b # ys) p c = Some (xs @ c # ys)"
  by (simp add: wr_split)

lemma wr_block_at:
  "p = int (length xs) \<Longrightarrow> length old = length new \<Longrightarrow>
   wr_block (xs @ old @ ys) p new = Some (xs @ new @ ys)"
  by (simp add: wr_block_split)

lemma rd_block_at:
  "p = int (length xs) \<Longrightarrow> n = int (length bs) \<Longrightarrow> rd_block (xs @ bs @ ys) p n = Some bs"
  by (simp add: rd_block_split)

section \<open>C strings\<close>

definition cstr :: "string \<Rightarrow> byte list" where
  "cstr s = map of_char s"

text \<open>\<open>strnlen(p, n)\<close>: at most \<open>n\<close> bytes are looked at.\<close>

fun c_strnlen :: "mem \<Rightarrow> int \<Rightarrow> nat \<Rightarrow> nat option" where
  "c_strnlen m p 0 = Some 0"
| "c_strnlen m p (Suc n) =
     do { b \<leftarrow> rd m p;
          if b = 0 then Some 0 else map_option Suc (c_strnlen m (p + 1) n) }"

lemma c_strnlen_numeral [mem_simps]:
  "c_strnlen m p (numeral k) =
     do { b \<leftarrow> rd m p;
          if b = 0 then Some 0 else map_option Suc (c_strnlen m (p + 1) (pred_numeral k)) }"
  by (simp add: numeral_eq_Suc)

text \<open>\<open>strcmp(key, p) == 0\<close> for a string constant \<open>key\<close>: bytes are read up to the first that
  differs, the NUL of \<open>key\<close> included.\<close>

fun c_streq :: "mem \<Rightarrow> int \<Rightarrow> byte list \<Rightarrow> bool option" where
  "c_streq m p [] = do { b \<leftarrow> rd m p; Some (b = 0) }"
| "c_streq m p (k # ks) =
     do { b \<leftarrow> rd m p; if b = k then c_streq m (p + 1) ks else Some False }"

text \<open>The bytes of the string at \<open>p\<close>, as \<open>strlen\<close> and the string functions see it.\<close>

definition c_string :: "mem \<Rightarrow> int \<Rightarrow> byte list option" where
  "c_string m p =
     (if 0 \<le> p \<and> (0::byte) \<in> set (drop (nat p) m)
      then Some (takeWhile (\<lambda>b. b \<noteq> 0) (drop (nat p) m)) else None)"

lemma c_strnlen_nul:
  "0 \<notin> set k \<Longrightarrow> p = int (length xs) \<Longrightarrow> length k < n \<Longrightarrow>
   c_strnlen (xs @ k @ 0 # ys) p n = Some (length k)"
proof (induction k arbitrary: xs p n)
  case Nil
  then show ?case by (cases n) (auto simp: rd_at)
next
  case (Cons b k)
  from Cons.prems obtain n' where n: "n = Suc n'" "length k < n'" by (cases n) auto
  have "c_strnlen ((xs @ [b]) @ k @ 0 # ys) (p + 1) n' = Some (length k)"
    by (rule Cons.IH) (use Cons.prems n in auto)
  with Cons.prems n show ?case by (simp add: rd_at)
qed

lemma c_streq_iff:
  "0 \<notin> set key \<Longrightarrow> 0 \<notin> set k \<Longrightarrow> p = int (length xs) \<Longrightarrow>
   c_streq (xs @ k @ 0 # ys) p key = Some (key = k)"
proof (induction key arbitrary: k xs p)
  case Nil
  then show ?case by (cases k) (auto simp: rd_at)
next
  case (Cons c key)
  show ?case
  proof (cases k)
    case Nil
    with Cons.prems show ?thesis by (auto simp: rd_at)
  next
    case (Cons b k')
    have "c_streq ((xs @ [b]) @ k' @ 0 # ys) (p + 1) key = Some (key = k')"
      by (rule Cons.IH) (use Cons.prems Cons in auto)
    with Cons.prems Cons show ?thesis by (auto simp: rd_at)
  qed
qed

lemma c_streq_defined:
  "0 \<notin> set key \<Longrightarrow> 0 \<le> p \<Longrightarrow> p \<le> q \<Longrightarrow> q < int (length m) \<Longrightarrow> rd m q = Some 0 \<Longrightarrow>
   \<exists>r. c_streq m p key = Some r"
proof (induction key arbitrary: p)
  case Nil
  then show ?case by (auto simp: mem_simps)
next
  case (Cons c key)
  show ?case
  proof (cases "p = q")
    case True
    with Cons.prems show ?thesis by (auto simp: mem_simps)
  next
    case False
    with Cons.prems obtain r where "c_streq m (p + 1) key = Some r"
      using Cons.IH [of "p + 1"] by auto
    with Cons.prems show ?thesis by (auto simp: mem_simps)
  qed
qed

lemma c_strnlen_le: "c_strnlen m p n = Some k \<Longrightarrow> k \<le> n"
  by (induction n arbitrary: p k)
     (auto simp: bind_eq_Some_conv split: if_splits option.splits)

lemma c_strnlen_defined: "0 \<le> p \<Longrightarrow> p + int n \<le> int (length m) \<Longrightarrow> \<exists>k. c_strnlen m p n = Some k"
proof (induction n arbitrary: p)
  case 0
  then show ?case by simp
next
  case (Suc n)
  then obtain k where "c_strnlen m (p + 1) n = Some k"
    by force
  with Suc.prems show ?case by (auto simp: mem_simps)
qed

end
