(* ===== verification/Bson.thy ===== *)
theory Bson
  imports Prelude
begin

text \<open>
  The BSON reader and writer of \<open>services/src/bson.c\<close>.

  A document is the object its pointer reaches (\<open>mem\<close>); offsets are those of the C code, counted
  from the document's first byte. A nullable document pointer is \<open>mem option\<close>. Every function
  returns \<open>None\<close> exactly when it touches a byte outside the objects it was given; the C result is
  inside the \<open>Some\<close>. The variable argument list of \<open>bson_get_props\<close> (name, pointer to offset) is a
  list of pairs. \<open>None\<close> as the result of a getter is the caller's \<open>default_value\<close>.
\<close>

section \<open>Integers in a document\<close>

definition bson_empty_document :: mem where
  "bson_empty_document = [5, 0, 0, 0, 0]"

definition bson_empty_size :: int where
  "bson_empty_size = int (length bson_empty_document)"

definition bson_first_offset :: int where
  "bson_first_offset = 4"

definition read_unaligned_int :: "mem \<Rightarrow> int \<Rightarrow> int option" where
  "read_unaligned_int m p =
     do { b0 \<leftarrow> rd m p; b1 \<leftarrow> rd m (p + 1); b2 \<leftarrow> rd m (p + 2); b3 \<leftarrow> rd m (p + 3);
          Some (sint ((ucast b0 :: u32) OR push_bit 8 (ucast b1) OR push_bit 16 (ucast b2)
                      OR push_bit 24 (ucast b3))) }"

definition write_unaligned_int :: "mem \<Rightarrow> int \<Rightarrow> int \<Rightarrow> mem option" where
  "write_unaligned_int m p len =
     (let w = word_of_int len :: u32 in
      do { m \<leftarrow> wr m p (ucast (drop_bit 0 w AND 0xff));
           m \<leftarrow> wr m (p + 1) (ucast (drop_bit 8 w AND 0xff));
           m \<leftarrow> wr m (p + 2) (ucast (drop_bit 16 w AND 0xff));
           wr m (p + 3) (ucast (drop_bit 24 w AND 0xff)) })"

section \<open>Reading\<close>

text \<open>The value's bytes: \<open>-1\<close> is the label \<open>not_valid_bson\<close>.\<close>

definition measured :: "int \<Rightarrow> int \<Rightarrow> int \<Rightarrow> int" where
  "measured len data start = (if len < 0 then -1 else s32 (len + (data - start)))"

definition skip_cstring :: "mem \<Rightarrow> int \<Rightarrow> int \<Rightarrow> int option option" where
  "skip_cstring m data end =
     do { n \<leftarrow> c_strnlen m data (nat (end - data));
          let data = data + int n + 1;
          if end \<le> data then Some None
          else do { z \<leftarrow> rd m (data - 1); Some (if z \<noteq> 0 then None else Some data) } }"

definition measure_value :: "mem \<Rightarrow> byte \<Rightarrow> int \<Rightarrow> int \<Rightarrow> int option" where
  "measure_value m ty data end =
     (if ty \<in> {0x01, 0x09, 0x11, 0x12} then Some (measured 8 data data)
      else if ty \<in> {0x02, 0x0d, 0x0e, 0x0f} then
        do { len \<leftarrow> read_unaligned_int m data; Some (measured len (data + 4) data) }
      else if ty \<in> {0x03, 0x04} then
        do { len \<leftarrow> read_unaligned_int m data; Some (measured len data data) }
      else if ty = 0x05 then
        do { len \<leftarrow> read_unaligned_int m data; Some (measured len (data + (4 + 1)) data) }
      else if ty \<in> {0x06, 0x0a} then Some (measured 0 data data)
      else if ty = 0x07 then Some (measured 12 data data)
      else if ty = 0x08 then Some (measured 1 data data)
      else if ty = 0x0b then
        do { r \<leftarrow> skip_cstring m data end;
             case r of
               None \<Rightarrow> Some (-1)
             | Some data' \<Rightarrow>
                 do { r \<leftarrow> skip_cstring m data' end;
                      case r of
                        None \<Rightarrow> Some (-1)
                      | Some data'' \<Rightarrow> Some (measured 0 data'' data) } }
      else if ty = 0x0c then
        do { len \<leftarrow> read_unaligned_int m data; Some (measured len (data + (4 + 12)) data) }
      else if ty = 0x10 then Some (measured 4 data data)
      else if ty = 0x13 then Some (measured 16 data data)
      else Some (-1))"

type_synonym props = "(byte list \<times> int) list"

text \<open>The inner \<open>for\<close>: the first key still at \<open>-1\<close> that equals the element's name takes its
  offset. The flag says whether one did.\<close>

fun note_key :: "mem \<Rightarrow> int \<Rightarrow> props \<Rightarrow> (props \<times> bool) option" where
  "note_key m name [] = Some ([], False)"
| "note_key m name ((key, off) # ps) =
     (if off < 0 then
        do { eq \<leftarrow> c_streq m name key;
             if eq then Some ((key, name - 1) # ps, True)
             else map_option (apfst (Cons (key, off))) (note_key m name ps) }
      else map_option (apfst (Cons (key, off))) (note_key m name ps))"

text \<open>The \<open>while (data < end)\<close> loop.\<close>

function bson_scan :: "mem \<Rightarrow> int \<Rightarrow> int \<Rightarrow> int \<Rightarrow> props \<Rightarrow> (int \<times> props) option" where
  "bson_scan m end data scanned ps =
     (if data < end then
        do { ty \<leftarrow> rd m data;
             if ty = 0 then Some (scanned, ps)
             else do {
               r \<leftarrow> skip_cstring m (data + 1) end;
               case r of
                 None \<Rightarrow> Some (-1, ps)
               | Some data' \<Rightarrow>
                   do { r \<leftarrow> note_key m (data + 1) ps;
                        case r of (ps', hit) \<Rightarrow>
                          (let scanned' = (if hit then scanned + 1 else scanned) in
                           if hit \<and> scanned' = int (length ps) then Some (scanned', ps')
                           else do { elmlen \<leftarrow> measure_value m ty data' end;
                                     if elmlen < 0 then Some (-1, ps')
                                     else bson_scan m end (data' + elmlen) scanned' ps' }) } } }
      else Some (scanned, ps))"
  by pat_completeness auto
termination
  by (relation "measure (\<lambda>(m, end, data, scanned, ps). nat (end - data))")
     (auto simp: skip_cstring_def Let_def bind_eq_Some_conv split: if_splits)

declare bson_scan.simps [simp del]

definition bson_get_props :: "mem option \<Rightarrow> props \<Rightarrow> (int \<times> props) option" where
  "bson_get_props doc keys =
     (case doc of
        None \<Rightarrow> None
      | Some m \<Rightarrow>
          do { end \<leftarrow> read_unaligned_int m 0;
               let data = 4;
               if end \<le> data then Some (-1, keys)
               else do { z \<leftarrow> rd m (end - 1);
                         if z \<noteq> 0 then Some (-1, keys)
                         else bson_scan m end data 0 (map (\<lambda>(k, off). (k, -1)) keys) } })"

text \<open>\<open>seek_data\<close>: \<open>Some None\<close> is the NULL result, otherwise the data and end offsets.\<close>

definition seek_data :: "mem option \<Rightarrow> int \<Rightarrow> u16 \<Rightarrow> (int \<times> int) option option" where
  "seek_data doc offset types =
     (case doc of
        None \<Rightarrow> Some None
      | Some m \<Rightarrow>
          if offset < 4 then Some None
          else do {
            end \<leftarrow> read_unaligned_int m 0;
            let data = offset;
            if end \<le> data then Some None
            else do {
              z \<leftarrow> rd m (end - 1);
              if z \<noteq> 0 then Some None
              else do {
                b \<leftarrow> rd m data;
                if sint b \<noteq> uint (types AND 0xff) \<and> sint b \<noteq> uint (drop_bit 8 types) then Some None
                else do {
                  r \<leftarrow> skip_cstring m (data + 1) end;
                  Some (map_option (\<lambda>data. (data, end)) r) } } } })"

definition bson_get_string :: "mem option \<Rightarrow> int \<Rightarrow> int option option" where
  "bson_get_string doc offset =
     do { r \<leftarrow> seek_data doc offset 0x0202;
          case r of
            None \<Rightarrow> Some None
          | Some (data, end) \<Rightarrow>
              do { len \<leftarrow> read_unaligned_int (the doc) data;
                   let data = data + 4;
                   if len \<le> 0 \<or> end - data < len then Some None
                   else do { z \<leftarrow> rd (the doc) (data + len - 1);
                             Some (if z \<noteq> 0 then None else Some data) } } }"

definition bson_get_subdocument :: "mem option \<Rightarrow> int \<Rightarrow> int option option" where
  "bson_get_subdocument doc offset =
     do { r \<leftarrow> seek_data doc offset 0x0304; Some (map_option fst r) }"

text \<open>The result is the data pointer and the length stored through \<open>lenptr\<close>.\<close>

definition bson_get_binary :: "mem option \<Rightarrow> int \<Rightarrow> (int \<times> int) option option" where
  "bson_get_binary doc offset =
     do { r \<leftarrow> seek_data doc offset 0x0505;
          case r of
            None \<Rightarrow> Some None
          | Some (data, end) \<Rightarrow>
              do { binlen \<leftarrow> read_unaligned_int (the doc) data;
                   let data = data + (4 + 1);
                   Some (if binlen \<le> 0 \<or> end - data < binlen then None
                         else Some (data, binlen)) } }"

definition bson_get_boolean :: "mem option \<Rightarrow> int \<Rightarrow> int \<Rightarrow> int option" where
  "bson_get_boolean doc offset default_value =
     do { r \<leftarrow> seek_data doc offset 0x0808;
          case r of
            None \<Rightarrow> Some default_value
          | Some (data, end) \<Rightarrow> do { b \<leftarrow> rd (the doc) data; Some (if b \<noteq> 0 then 1 else 0) } }"

definition bson_get_int32 :: "mem option \<Rightarrow> int \<Rightarrow> int \<Rightarrow> int option" where
  "bson_get_int32 doc offset default_value =
     do { r \<leftarrow> seek_data doc offset 0x1010;
          case r of
            None \<Rightarrow> Some default_value
          | Some (data, end) \<Rightarrow> read_unaligned_int (the doc) data }"

section \<open>Writing\<close>

definition bson_create_empty_document :: "mem \<Rightarrow> mem option" where
  "bson_create_empty_document m =
     do { m \<leftarrow> wr m 0 5; m \<leftarrow> wr m 1 0; m \<leftarrow> wr m 2 0; m \<leftarrow> wr m 3 0; wr m 4 0 }"

text \<open>The writers return the document after the call and the C result; with \<open>doc = NULL\<close> they only
  measure.\<close>

definition bson_set_string ::
    "mem option \<Rightarrow> byte list \<Rightarrow> byte list \<Rightarrow> (mem option \<times> int) option" where
  "bson_set_string doc key str =
     (let keylen = int (length key) + 1; datalen = int (length str) + 1;
          result = 1 + keylen + 4 + datalen in
      case doc of
        None \<Rightarrow> Some (None, result)
      | Some m \<Rightarrow>
          do { end \<leftarrow> read_unaligned_int m 0;
               m \<leftarrow> wr m (end - 1) 0x02;
               m \<leftarrow> wr_block m end (key @ [0]);
               let end = end + keylen;
               m \<leftarrow> write_unaligned_int m end datalen;
               let end = end + 4;
               m \<leftarrow> wr_block m end (str @ [0]);
               let end = end + datalen;
               m \<leftarrow> wr m end 0x00;
               let end = end + 1;
               m \<leftarrow> write_unaligned_int m 0 end;
               Some (Some m, result) })"

definition bson_measure_string :: "byte list \<Rightarrow> byte list \<Rightarrow> int option" where
  "bson_measure_string key str = map_option snd (bson_set_string None key str)"

text \<open>\<open>src\<close> and \<open>pos\<close> are the object and offset \<open>ptr\<close> points to; it is read only when there is a
  document to write to.\<close>

definition set_subelement ::
    "mem option \<Rightarrow> byte list \<Rightarrow> byte \<Rightarrow> mem \<Rightarrow> int \<Rightarrow> int \<Rightarrow> (mem option \<times> int) option" where
  "set_subelement doc key ty src pos len =
     (let keylen = int (length key) + 1; result = 1 + keylen + len in
      case doc of
        None \<Rightarrow> Some (None, result)
      | Some m \<Rightarrow>
          do { end \<leftarrow> read_unaligned_int m 0;
               m \<leftarrow> wr m (end - 1) ty;
               m \<leftarrow> wr_block m end (key @ [0]);
               let end = end + keylen;
               bs \<leftarrow> rd_block src pos len;
               m \<leftarrow> wr_block m end bs;
               let end = end + len;
               m \<leftarrow> wr m end 0x00;
               let end = end + 1;
               m \<leftarrow> write_unaligned_int m 0 end;
               Some (Some m, result) })"

definition set_subdocument ::
    "mem option \<Rightarrow> byte list \<Rightarrow> byte \<Rightarrow> mem \<Rightarrow> (mem option \<times> int) option" where
  "set_subdocument doc key ty sub_doc =
     do { len \<leftarrow> read_unaligned_int sub_doc 0; set_subelement doc key ty sub_doc 0 len }"

definition bson_set_subdocument ::
    "mem option \<Rightarrow> byte list \<Rightarrow> mem \<Rightarrow> (mem option \<times> int) option" where
  "bson_set_subdocument doc key sub_doc = set_subdocument doc key 0x03 sub_doc"

definition bson_measure_subdocument :: "byte list \<Rightarrow> mem \<Rightarrow> int option" where
  "bson_measure_subdocument key sub_doc = map_option snd (set_subdocument None key 0x03 sub_doc)"

definition bson_set_array :: "mem option \<Rightarrow> byte list \<Rightarrow> mem \<Rightarrow> (mem option \<times> int) option" where
  "bson_set_array doc key sub_doc = set_subdocument doc key 0x04 sub_doc"

definition bson_measure_array :: "byte list \<Rightarrow> mem \<Rightarrow> int option" where
  "bson_measure_array key sub_doc = map_option snd (set_subdocument None key 0x04 sub_doc)"

definition bson_set_boolean :: "mem option \<Rightarrow> byte list \<Rightarrow> int \<Rightarrow> (mem option \<times> int) option" where
  "bson_set_boolean doc key v = set_subelement doc key 0x08 [if v \<noteq> 0 then 1 else 0] 0 1"

definition bson_measure_boolean :: "byte list \<Rightarrow> int option" where
  "bson_measure_boolean key = map_option snd (bson_set_boolean None key 0)"

text \<open>The four bytes of an \<open>int\<close> object in memory: the target is little-endian.\<close>

definition int_object :: "int \<Rightarrow> byte list" where
  "int_object v = (let w = word_of_int v :: u32 in
     [ucast w, ucast (drop_bit 8 w), ucast (drop_bit 16 w), ucast (drop_bit 24 w)])"

definition bson_set_int32 :: "mem option \<Rightarrow> byte list \<Rightarrow> int \<Rightarrow> (mem option \<times> int) option" where
  "bson_set_int32 doc key v = set_subelement doc key 0x10 (int_object v) 0 4"

definition bson_measure_int32 :: "byte list \<Rightarrow> int option" where
  "bson_measure_int32 key = map_option snd (bson_set_int32 None key 0)"

definition bson_set_null :: "mem option \<Rightarrow> byte list \<Rightarrow> (mem option \<times> int) option" where
  "bson_set_null doc key = set_subelement doc key 0x0a [] 0 0"

definition bson_measure_null :: "byte list \<Rightarrow> int option" where
  "bson_measure_null key = map_option snd (bson_set_null None key)"

text \<open>The third component is the value stored through \<open>bufptr\<close>, when it was stored.\<close>

definition bson_set_binary ::
    "mem option \<Rightarrow> byte list \<Rightarrow> int \<Rightarrow> byte \<Rightarrow> (mem option \<times> int \<times> int option) option" where
  "bson_set_binary doc key binlen subtype =
     (let keylen = int (length key) + 1; result = 1 + keylen + 4 + 1 + binlen in
      if binlen < 0 then Some (doc, -1, None)
      else case doc of
        None \<Rightarrow> Some (None, result, None)
      | Some m \<Rightarrow>
          do { end \<leftarrow> read_unaligned_int m 0;
               m \<leftarrow> wr m (end - 1) 0x05;
               m \<leftarrow> wr_block m end (key @ [0]);
               let end = end + keylen;
               m \<leftarrow> write_unaligned_int m end binlen;
               let end = end + 4;
               m \<leftarrow> wr m end subtype;
               let end = end + 1;
               let buf = end;
               m \<leftarrow> wr_block m end (replicate (nat binlen) 0);
               let end = end + binlen;
               m \<leftarrow> wr m end 0x00;
               let end = end + 1;
               m \<leftarrow> write_unaligned_int m 0 end;
               Some (Some m, result, Some buf) })"

definition bson_set_binary_generic ::
    "mem option \<Rightarrow> byte list \<Rightarrow> int \<Rightarrow> (mem option \<times> int \<times> int option) option" where
  "bson_set_binary_generic doc key binlen = bson_set_binary doc key binlen 0x00"

definition bson_measure_binary :: "byte list \<Rightarrow> int \<Rightarrow> int option" where
  "bson_measure_binary key binlen =
     map_option (\<lambda>(_, r, _). r) (bson_set_binary_generic None key binlen)"

definition bson_shrink_binary :: "mem \<Rightarrow> int \<Rightarrow> int \<Rightarrow> (mem \<times> int) option" where
  "bson_shrink_binary m buf binlen =
     (let lenptr = buf - 5 in
      do { old_binlen \<leftarrow> read_unaligned_int m lenptr;
           z \<leftarrow> rd m (buf + old_binlen);
           if z \<noteq> 0 then Some (m, -1)
           else if old_binlen < binlen then Some (m, -1)
           else if old_binlen = binlen then Some (m, 0)
           else do {
             m \<leftarrow> wr m (buf + binlen) 0x00;
             m \<leftarrow> write_unaligned_int m lenptr binlen;
             old_doclen \<leftarrow> read_unaligned_int m 0;
             m \<leftarrow> write_unaligned_int m 0 (old_doclen - (old_binlen - binlen));
             Some (m, 0) } })"

definition bson_set_element ::
    "mem option \<Rightarrow> byte list \<Rightarrow> mem option \<Rightarrow> int \<Rightarrow> (mem option \<times> int) option" where
  "bson_set_element doc1 key doc2 offset =
     (case doc2 of
        None \<Rightarrow> Some (doc1, 0)
      | Some m2 \<Rightarrow>
          if offset < 4 then Some (doc1, 0)
          else do {
            end2 \<leftarrow> read_unaligned_int m2 0;
            let data2 = offset;
            if end2 \<le> data2 + 1 then Some (doc1, 0)
            else do {
              z \<leftarrow> rd m2 (end2 - 1);
              if z \<noteq> 0 then Some (doc1, 0)
              else do {
                ty \<leftarrow> rd m2 data2;
                r \<leftarrow> skip_cstring m2 (data2 + 1) end2;
                case r of
                  None \<Rightarrow> Some (doc1, 0)
                | Some data2 \<Rightarrow>
                    do { elmlen \<leftarrow> measure_value m2 ty data2 end2;
                         if elmlen < 0 then Some (doc1, 0)
                         else set_subelement doc1 key ty m2 data2 elmlen } } } })"

definition bson_measure_element :: "byte list \<Rightarrow> mem option \<Rightarrow> int \<Rightarrow> int option" where
  "bson_measure_element key doc offset = map_option snd (bson_set_element None key doc offset)"

definition bson_measure_document :: "mem \<Rightarrow> int option" where
  "bson_measure_document m = read_unaligned_int m 0"

end
