(* ===== verification/Bson_Doc.thy ===== *)
theory Bson_Doc
  imports Bson
begin

text \<open>
  What a document is, and the proof that \<open>bson.c\<close> reads and writes documents.

  An element is its type byte, its name and the bytes of its value. \<open>enc_doc\<close> is the wire format;
  \<open>is_doc m es\<close> says that the object \<open>m\<close> starts with a well-formed document of the elements \<open>es\<close>
  (anything may follow it, as in the buffers the program allocates).
\<close>

section \<open>Integers on the wire\<close>

lemma bytes_of_u32:
  "(ucast (ucast w :: byte) :: u32) OR push_bit 8 (ucast (ucast (drop_bit 8 w) :: byte))
     OR push_bit 16 (ucast (ucast (drop_bit 16 w) :: byte))
     OR push_bit 24 (ucast (ucast (drop_bit 24 w) :: byte)) = (w :: u32)"
proof (rule bit_word_eqI)
  fix n
  assume "n < LENGTH(32)"
  consider "n < 8" | "8 \<le> n" "n < 16" | "16 \<le> n" "n < 24" | "24 \<le> n" by linarith
  then show "bit ((ucast (ucast w :: byte) :: u32) OR push_bit 8 (ucast (ucast (drop_bit 8 w) :: byte))
     OR push_bit 16 (ucast (ucast (drop_bit 16 w) :: byte))
     OR push_bit 24 (ucast (ucast (drop_bit 24 w) :: byte))) n = bit w n"
    using \<open>n < LENGTH(32)\<close> by cases (auto simp: bit_simps)
qed

lemma bit_255_iff: "bit (255 :: int) n \<longleftrightarrow> n < 8"
proof -
  have "(255 :: int) = mask 8" by (simp add: mask_eq_exp_minus_1)
  then show ?thesis by (simp only: bit_mask_iff) auto
qed

lemma byte_low: "(ucast (u AND 0xff) :: byte) = ucast (u :: u32)"
  by (intro bit_word_eqI) (auto simp: bit_simps bit_255_iff)

lemma length_int_object [simp]: "length (int_object v) = 4"
  by (simp add: int_object_def Let_def)

lemma read_int_object:
  "p = int (length xs) \<Longrightarrow> read_unaligned_int (xs @ int_object v @ ys) p = Some (s32 v)"
proof -
  assume p: "p = int (length xs)"
  define w where "w = (word_of_int v :: u32)"
  have "rd (xs @ a # b # c # d # ys) p = Some a" "rd (xs @ a # b # c # d # ys) (p + 1) = Some b"
    "rd (xs @ a # b # c # d # ys) (p + 2) = Some c" "rd (xs @ a # b # c # d # ys) (p + 3) = Some d"
    for a b c d
    using p by (simp_all add: rd_def nth_append nat_add_distrib)
  moreover have "int_object v =
      [ucast w, ucast (drop_bit 8 w), ucast (drop_bit 16 w), ucast (drop_bit 24 w)]"
    by (simp add: int_object_def w_def Let_def)
  ultimately show ?thesis
    by (simp add: read_unaligned_int_def bytes_of_u32) (simp add: w_def sint_word_of_int_s32)
qed

lemma write_int_object:
  assumes p: "p = int (length xs)" and "length old = 4"
  shows "write_unaligned_int (xs @ old @ ys) p v = Some (xs @ int_object v @ ys)"
proof -
  define w where "w = (word_of_int v :: u32)"
  from assms(2) obtain a b c d where old: "old = [a, b, c, d]"
    by (auto simp: length_Suc_conv numeral_eq_Suc)
  have "wr (xs @ old @ ys) p (ucast w) = Some (xs @ ucast w # b # c # d # ys)"
    by (simp add: p old wr_at)
  moreover have "wr (xs @ e # b # c # d # ys) (p + 1) f = Some (xs @ e # f # c # d # ys)"
    "wr (xs @ e # f # c # d # ys) (p + 2) g = Some (xs @ e # f # g # d # ys)"
    "wr (xs @ e # f # g # d # ys) (p + 3) h = Some (xs @ e # f # g # h # ys)" for e f g h
    using p by (simp_all add: wr_def nat_add_distrib list_update_append)
  ultimately show ?thesis
    by (simp add: write_unaligned_int_def int_object_def byte_low w_def [symmetric] Let_def)
qed

lemma read_unaligned_int_defined:
  "0 \<le> p \<Longrightarrow> p + 4 \<le> int (length m) \<Longrightarrow> \<exists>v. read_unaligned_int m p = Some v \<and> is_s32 v"
proof -
  assume "0 \<le> p" "p + 4 \<le> int (length m)"
  then obtain a b c d where "rd m p = Some a" "rd m (p + 1) = Some b" "rd m (p + 2) = Some c"
    "rd m (p + 3) = Some d"
    by (simp add: rd_def)
  moreover have "is_s32 (sint (u :: u32))" for u
    using sint_range_size [of u] by (simp add: is_s32_def size_word_def)
  ultimately show ?thesis by (simp add: read_unaligned_int_def)
qed

lemma read_unaligned_int_s32: "read_unaligned_int m p = Some v \<Longrightarrow> is_s32 v"
proof -
  assume "read_unaligned_int m p = Some v"
  moreover have "is_s32 (sint (u :: u32))" for u
    using sint_range_size [of u] by (simp add: is_s32_def size_word_def)
  ultimately show ?thesis by (auto simp: read_unaligned_int_def bind_eq_Some_conv)
qed

section \<open>Elements and documents\<close>

type_synonym elem = "byte \<times> byte list \<times> byte list"

text \<open>A regular expression: two strings and nothing after them.\<close>

definition regex_ok :: "byte list \<Rightarrow> bool" where
  "regex_ok v =
     (case dropWhile (\<lambda>b. b \<noteq> 0) v of
        [] \<Rightarrow> False
      | _ # w \<Rightarrow> (case dropWhile (\<lambda>b. b \<noteq> 0) w of [z] \<Rightarrow> True | _ \<Rightarrow> False))"

lemma dropWhile_nul:
  "dropWhile (\<lambda>b. b \<noteq> 0) v = c # w \<Longrightarrow> \<exists>r. v = r @ 0 # w \<and> (0 :: byte) \<notin> set r"
proof -
  assume *: "dropWhile (\<lambda>b. b \<noteq> 0) v = c # w"
  then have "c = 0" using hd_dropWhile [of "\<lambda>b. b \<noteq> 0" v] by simp
  moreover have "v = takeWhile (\<lambda>b. b \<noteq> 0) v @ c # w"
    using * takeWhile_dropWhile_id [of "\<lambda>b. b \<noteq> 0" v] by simp
  moreover have "0 \<notin> set (takeWhile (\<lambda>b. b \<noteq> 0) v)" by (auto dest: set_takeWhileD)
  ultimately show ?thesis by metis
qed

lemma regex_okE:
  assumes "regex_ok v"
  obtains r s where "v = r @ 0 # s @ [0]" "0 \<notin> set r" "0 \<notin> set s"
proof -
  from assms obtain c w z where "dropWhile (\<lambda>b. b \<noteq> 0) v = c # w" "dropWhile (\<lambda>b. b \<noteq> 0) w = [z]"
    by (auto simp: regex_ok_def split: list.splits)
  from dropWhile_nul [OF this(1)] dropWhile_nul [OF this(2)] show ?thesis
    by (auto intro: that)
qed

definition value_ok :: "byte \<Rightarrow> byte list \<Rightarrow> bool" where
  "value_ok ty v \<longleftrightarrow>
     length v < 2147483632 \<and>
     (if ty \<in> {0x01, 0x09, 0x11, 0x12} then length v = 8
      else if ty \<in> {0x02, 0x0d, 0x0e, 0x0f} then
        4 \<le> length v \<and> read_unaligned_int v 0 = Some (int (length v) - 4)
      else if ty \<in> {0x03, 0x04} then read_unaligned_int v 0 = Some (int (length v))
      else if ty = 0x05 then
        5 \<le> length v \<and> read_unaligned_int v 0 = Some (int (length v) - 5)
      else if ty \<in> {0x06, 0x0a} then v = []
      else if ty = 0x07 then length v = 12
      else if ty = 0x08 then length v = 1
      else if ty = 0x0b then regex_ok v
      else if ty = 0x0c then
        16 \<le> length v \<and> read_unaligned_int v 0 = Some (int (length v) - 16)
      else if ty = 0x10 then length v = 4
      else if ty = 0x13 then length v = 16
      else False)"

definition name_ok :: "byte list \<Rightarrow> bool" where
  "name_ok k \<longleftrightarrow> 0 \<notin> set k"

fun elem_ok :: "elem \<Rightarrow> bool" where
  "elem_ok (ty, k, v) \<longleftrightarrow> name_ok k \<and> value_ok ty v"

fun enc_elem :: "elem \<Rightarrow> byte list" where
  "enc_elem (ty, k, v) = ty # k @ 0 # v"

definition enc_body :: "elem list \<Rightarrow> byte list" where
  "enc_body es = concat (map enc_elem es)"

definition doc_size :: "elem list \<Rightarrow> nat" where
  "doc_size es = 5 + length (enc_body es)"

definition enc_doc :: "elem list \<Rightarrow> byte list" where
  "enc_doc es = int_object (int (doc_size es)) @ enc_body es @ [0]"

definition doc_ok :: "elem list \<Rightarrow> bool" where
  "doc_ok es \<longleftrightarrow> list_all elem_ok es \<and> doc_size es < 2147483648"

definition is_doc :: "mem \<Rightarrow> elem list \<Rightarrow> bool" where
  "is_doc m es \<longleftrightarrow> doc_ok es \<and> take (doc_size es) m = enc_doc es"

lemma enc_body_simps [simp]:
  "enc_body [] = []" "enc_body (e # es) = enc_elem e @ enc_body es"
  "enc_body (es @ fs) = enc_body es @ enc_body fs"
  by (simp_all add: enc_body_def)

lemma length_enc_doc [simp]: "length (enc_doc es) = doc_size es"
  by (simp add: enc_doc_def doc_size_def)

lemma doc_size_simps:
  "doc_size [] = 5" "doc_size (es @ [(ty, k, v)]) = doc_size es + 2 + length k + length v"
  by (simp_all add: doc_size_def)

lemma is_doc_iff: "is_doc m es \<longleftrightarrow> doc_ok es \<and> (\<exists>rest. m = enc_doc es @ rest)"
proof
  assume "is_doc m es"
  then have "doc_ok es" "m = enc_doc es @ drop (doc_size es) m"
    by (auto simp: is_doc_def) (metis append_take_drop_id)
  then show "doc_ok es \<and> (\<exists>rest. m = enc_doc es @ rest)" by blast
qed (auto simp: is_doc_def)

lemma is_docE:
  assumes "is_doc m es"
  obtains rest where "doc_ok es" "m = int_object (int (doc_size es)) @ enc_body es @ 0 # rest"
  using assms by (auto simp: is_doc_iff enc_doc_def)

lemma is_doc_length: "is_doc m es \<Longrightarrow> doc_size es \<le> length m"
  by (auto simp: is_doc_iff)

lemma is_doc_read_size: "is_doc m es \<Longrightarrow> read_unaligned_int m 0 = Some (int (doc_size es))"
  by (erule is_docE) (use read_int_object [of 0 "[]"] in \<open>auto simp: doc_ok_def cint_simps\<close>)

lemma is_doc_end: "is_doc m es \<Longrightarrow> rd m (int (doc_size es) - 1) = Some 0"
  by (erule is_docE) (auto simp: doc_size_def rd_def nth_append nat_add_distrib nat_diff_distrib)

section \<open>Measuring a value\<close>

lemma rd_mid: "i < int (length v) \<Longrightarrow> 0 \<le> i \<Longrightarrow> p = int (length pre) \<Longrightarrow>
   rd (pre @ v @ post) (p + i) = rd v i"
  by (auto simp: rd_def nth_append nat_add_distrib)

lemma read_mid:
  "read_unaligned_int v 0 = Some n \<Longrightarrow> p = int (length pre) \<Longrightarrow>
   read_unaligned_int (pre @ v @ post) p = Some n"
  by (auto simp: read_unaligned_int_def bind_eq_Some_conv rd_Some_iff nth_append nat_add_distrib
      numeral_eq_Suc)

lemma skip_cstring_nul:
  assumes "0 \<notin> set k" "p = int (length pre)" "p + int (length k) + 1 < end"
  shows "skip_cstring (pre @ k @ 0 # post) p end = Some (Some (p + int (length k) + 1))"
proof -
  have "c_strnlen (pre @ k @ 0 # post) p (nat (end - p)) = Some (length k)"
    by (rule c_strnlen_nul) (use assms in auto)
  moreover have "rd ((pre @ k) @ 0 # post) (p + int (length k)) = Some 0"
    by (rule rd_at) (simp add: assms)
  ultimately show ?thesis using assms by (simp add: skip_cstring_def)
qed

lemma measure_value_regex:
  assumes "0 \<notin> set r" "0 \<notin> set s" "v = r @ 0 # s @ [0]" "length v < 2147483632"
    and p: "p = int (length pre)" and e: "p + int (length v) < end"
  shows "measure_value (pre @ v @ post) 0x0b p end = Some (int (length v))"
proof -
  have "skip_cstring (pre @ r @ 0 # (s @ 0 # post)) p end = Some (Some (p + int (length r) + 1))"
    by (rule skip_cstring_nul) (use assms in auto)
  moreover have "skip_cstring ((pre @ r @ [0]) @ s @ 0 # post) (p + int (length r) + 1) end =
      Some (Some (p + int (length r) + 1 + int (length s) + 1))"
    by (rule skip_cstring_nul) (use assms in auto)
  ultimately show ?thesis
    using assms by (simp add: measure_value_def measured_def cint_simps)
qed

lemma value_ok_types:
  "value_ok ty v \<Longrightarrow>
   ty \<in> {0x01, 0x09, 0x11, 0x12, 0x02, 0x0d, 0x0e, 0x0f, 0x03, 0x04, 0x05, 0x06, 0x0a, 0x07, 0x08,
     0x0b, 0x0c, 0x10, 0x13}"
  by (rule ccontr) (simp add: value_ok_def)

lemma measure_value_ok:
  assumes "value_ok ty v" "p = int (length pre)" "p + int (length v) < end"
  shows "measure_value (pre @ v @ post) ty p end = Some (int (length v))"
proof (cases "ty = 0x0b")
  case True
  with assms(1) have "regex_ok v" "length v < 2147483632" by (simp_all add: value_ok_def)
  from this(1) obtain r s where "v = r @ 0 # s @ [0]" "0 \<notin> set r" "0 \<notin> set s"
    by (rule regex_okE)
  with True \<open>length v < 2147483632\<close> assms(2,3) show ?thesis
    using measure_value_regex [of r s v p pre "end" post] by blast
next
  case False
  define x where "x = read_unaligned_int (pre @ v @ post) p"
  have x: "x = Some n" if "read_unaligned_int v 0 = Some n" for n
    using read_mid [OF that assms(2)] by (simp add: x_def)
  have len: "length v < 2147483632" using assms(1) by (simp add: value_ok_def)
  have s: "s32 (int (length v)) = int (length v)" using len by (simp add: cint_simps)
  have c: "s32 8 = 8" "s32 12 = 12" "s32 1 = 1" "s32 4 = 4" "s32 16 = 16" "s32 0 = 0"
    by (simp_all add: s32_def)
  have ok: "value_ok ty v" by fact
  from value_ok_types [OF assms(1)] False show ?thesis
    unfolding measure_value_def x_def [symmetric]
    by (elim insertE emptyE) (use ok len s c in \<open>simp_all add: value_ok_def measured_def x\<close>)
qed

lemma value_ok_type_nz: "value_ok ty v \<Longrightarrow> ty \<noteq> 0"
  by (drule value_ok_types) auto

section \<open>Finding elements\<close>

text \<open>The search without the bytes: keys against element names, offsets from \<open>d\<close> on.\<close>

fun note_name :: "byte list \<Rightarrow> int \<Rightarrow> props \<Rightarrow> props \<times> bool" where
  "note_name name d [] = ([], False)"
| "note_name name d ((key, off) # ps) =
     (if off < 0 \<and> key = name then ((key, d) # ps, True)
      else apfst (Cons (key, off)) (note_name name d ps))"

fun find_names :: "int \<Rightarrow> elem list \<Rightarrow> int \<Rightarrow> props \<Rightarrow> int \<times> props" where
  "find_names d [] scanned ps = (scanned, ps)"
| "find_names d (e # es) scanned ps =
     (let (ps', hit) = note_name (fst (snd e)) d ps;
          scanned' = (if hit then scanned + 1 else scanned)
      in if hit \<and> scanned' = int (length ps) then (scanned', ps')
         else find_names (d + int (length (enc_elem e))) es scanned' ps')"

fun first_off :: "int \<Rightarrow> elem list \<Rightarrow> byte list \<Rightarrow> int" where
  "first_off d [] key = -1"
| "first_off d (e # es) key =
     (if fst (snd e) = key then d else first_off (d + int (length (enc_elem e))) es key)"

definition keys_ok :: "props \<Rightarrow> bool" where
  "keys_ok ps \<longleftrightarrow> (\<forall>(k, off) \<in> set ps. name_ok k)"

lemma note_key_name:
  "keys_ok ps \<Longrightarrow> name_ok k \<Longrightarrow> d = int (length pre) \<Longrightarrow>
   note_key (pre @ k @ 0 # post) d ps = Some (note_name k (d - 1) ps)"
  by (induction ps) (auto simp: keys_ok_def name_ok_def c_streq_iff)

lemma note_name_keys: "map fst (fst (note_name k d ps)) = map fst ps"
  by (induction ps) auto

lemma keys_ok_note: "keys_ok ps \<Longrightarrow> note_name k d ps = (ps', hit) \<Longrightarrow> keys_ok ps'"
proof -
  assume "keys_ok ps" "note_name k d ps = (ps', hit)"
  then have "fst ` set ps' = fst ` set ps"
    using note_name_keys [of k d ps] by (metis fst_conv list.set_map)
  with \<open>keys_ok ps\<close> show ?thesis by (force simp: keys_ok_def)
qed

lemma bson_scan_doc:
  assumes "list_all elem_ok es" "keys_ok ps" "d = int (length pre)"
    "end = d + int (length (enc_body es)) + 1"
  shows "bson_scan (pre @ enc_body es @ 0 # post) end d scanned ps =
    Some (find_names d es scanned ps)"
  using assms
proof (induction es arbitrary: pre d scanned ps)
  case Nil
  then show ?case by (simp add: bson_scan.simps rd_at)
next
  case (Cons e es)
  obtain ty k v where e: "e = (ty, k, v)" by (cases e)
  with Cons.prems have ok: "name_ok k" "value_ok ty v" "list_all elem_ok es" by simp_all
  define rest where "rest = enc_body es @ 0 # post"
  define M where "M = pre @ enc_body (e # es) @ 0 # post"
  have m: "M = pre @ ty # (k @ 0 # v @ rest)" "M = (pre @ [ty]) @ k @ 0 # (v @ rest)"
    "M = (pre @ ty # k @ [0]) @ v @ rest"
    "M = (pre @ ty # k @ 0 # v) @ enc_body es @ 0 # post"
    by (simp_all add: M_def e rest_def)
  have en: "end = d + int (length (enc_elem e)) + int (length (enc_body es)) + 1"
    using Cons.prems(4) by simp
  define q where "q = d + 1 + int (length k) + 1"
  have rd: "rd M d = Some ty" unfolding m(1) using Cons.prems(3) by (rule rd_at)
  have skip: "skip_cstring M (d + 1) end = Some (Some q)"
    unfolding m(2) q_def by (rule skip_cstring_nul) (use ok Cons.prems en e in \<open>auto simp: name_ok_def\<close>)
  have nk: "note_key M (d + 1) ps = Some (note_name k d ps)"
    unfolding m(2) using note_key_name [of ps k "d + 1" "pre @ [ty]"] ok Cons.prems(2,3) by simp
  have meas: "measure_value M ty q end = Some (int (length v))"
    unfolding m(3) q_def by (rule measure_value_ok) (use ok Cons.prems en e in auto)
  obtain ps' hit where n: "note_name k d ps = (ps', hit)" by (cases "note_name k d ps")
  have n': "note_name (fst (snd e)) d ps = (ps', hit)" using n by (simp add: e)
  have next_pos: "q + int (length v) = d + int (length (enc_elem e))"
    by (simp add: e q_def)
  have IH: "bson_scan M end (d + int (length (enc_elem e))) s ps' =
      Some (find_names (d + int (length (enc_elem e))) es s ps')" for s
    unfolding m(4) by (rule Cons.IH) (use ok keys_ok_note [OF Cons.prems(2) n] Cons.prems en e in auto)
  have nz: "ty \<noteq> 0" using ok(2) by (rule value_ok_type_nz)
  have lt: "d < end" using en by simp
  have "bson_scan M end d scanned ps = Some (find_names d (e # es) scanned ps)"
    by (subst bson_scan.simps)
       (simp add: lt rd nz skip nk n n' meas next_pos IH Let_def)
  then show ?case by (simp add: M_def)
qed

text \<open>What the search computes: the offset of the first element of that name, or \<open>-1\<close>, and the
  number of names found.\<close>

definition found :: "props \<Rightarrow> int" where
  "found ps = int (length (filter (\<lambda>(k, off). 0 \<le> off) ps))"

definition resolve :: "int \<Rightarrow> elem list \<Rightarrow> props \<Rightarrow> props" where
  "resolve d es ps = map (\<lambda>(k, off). (k, if off < 0 then first_off d es k else off)) ps"

lemma note_name_found:
  "0 \<le> d \<Longrightarrow> note_name k d ps = (ps', hit) \<Longrightarrow> found ps' = found ps + (if hit then 1 else 0)"
  by (induction ps arbitrary: ps') (auto simp: found_def apfst_def map_prod_def split: if_splits prod.splits)

lemma note_name_distinct:
  "distinct (map fst ps) \<Longrightarrow>
   fst (note_name k d ps) = map (\<lambda>(k', off). (k', if off < 0 \<and> k' = k then d else off)) ps"
proof (induction ps)
  case (Cons p ps)
  obtain k' off where p: "p = (k', off)" by (cases p)
  show ?case
  proof (cases "off < 0 \<and> k' = k")
    case True
    with Cons.prems have "k \<notin> fst ` set ps" by (simp add: p)
    then have "map (\<lambda>(k', off). (k', if off < 0 \<and> k' = k then d else off)) ps = ps"
      by (intro map_idI) force
    with True show ?thesis by (simp add: p)
  qed (use Cons in \<open>auto simp: p apfst_def map_prod_def split: prod.splits\<close>)
qed simp

lemma found_all: "found ps = int (length ps) \<Longrightarrow> resolve d es ps = ps"
proof -
  assume *: "found ps = int (length ps)"
  have "0 \<le> off" if "(k, off) \<in> set ps" for k off
  proof (rule ccontr)
    assume "\<not> 0 \<le> off"
    with that have "length (filter (\<lambda>(k, off). 0 \<le> off) ps) < length ps"
      by (intro length_filter_less [of "(k, off)"]) auto
    with * show False by (simp add: found_def)
  qed
  then show ?thesis by (auto simp: resolve_def not_less [symmetric] intro!: map_idI)
qed

definition unset_ok :: "props \<Rightarrow> bool" where
  "unset_ok ps \<longleftrightarrow> (\<forall>(k, off) \<in> set ps. off < 0 \<longrightarrow> off = -1)"

lemma find_names_resolve:
  "0 \<le> d \<Longrightarrow> distinct (map fst ps) \<Longrightarrow> unset_ok ps \<Longrightarrow> scanned = found ps \<Longrightarrow>
   find_names d es scanned ps = (found (resolve d es ps), resolve d es ps)"
proof (induction es arbitrary: d scanned ps)
  case Nil
  then have "resolve d [] ps = ps" by (auto simp: resolve_def unset_ok_def intro!: map_idI)
  with Nil show ?case by simp
next
  case (Cons e es)
  obtain ps' hit where n: "note_name (fst (snd e)) d ps = (ps', hit)"
    by (cases "note_name (fst (snd e)) d ps")
  have ps': "ps' = map (\<lambda>(k', off). (k', if off < 0 \<and> k' = fst (snd e) then d else off)) ps"
    using note_name_distinct [OF Cons.prems(2), of "fst (snd e)" d] n by simp
  have fnd: "found ps' = found ps + (if hit then 1 else 0)"
    using note_name_found [OF Cons.prems(1) n] .
  have dist: "distinct (map fst ps')"
    using Cons.prems(2) note_name_keys [of "fst (snd e)" d ps] n by simp
  have unset: "unset_ok ps'"
    using Cons.prems(1,3) by (fastforce simp: unset_ok_def ps')
  define d' where "d' = d + int (length (enc_elem e))"
  have res: "resolve d (e # es) ps = resolve d' es ps'"
    using Cons.prems(1) by (auto simp: resolve_def ps' d'_def)
  have len: "length ps' = length ps" by (simp add: ps')
  have IH: "find_names d' es s ps' = (found (resolve d' es ps'), resolve d' es ps')"
    if "s = found ps'" for s
    by (rule Cons.IH) (use Cons.prems dist unset that in \<open>auto simp: d'_def\<close>)
  show ?case
  proof (cases "hit \<and> found ps' = int (length ps)")
    case True
    then have "resolve d' es ps' = ps'" by (intro found_all) (simp add: len)
    with True fnd Cons.prems(4) show ?thesis
      by (auto simp: n res Let_def)
  next
    case False
    with fnd Cons.prems(4) IH show ?thesis
      by (auto simp: n res d'_def [symmetric] Let_def)
  qed
qed

theorem get_props_finds:
  assumes "is_doc m es" "distinct (map fst ps)" "keys_ok ps"
  shows "bson_get_props (Some m) ps =
    Some (int (length (filter (\<lambda>k. 0 \<le> first_off 4 es k) (map fst ps))),
          map (\<lambda>k. (k, first_off 4 es k)) (map fst ps))"
proof -
  define qs where "qs = map (\<lambda>(k, off :: int). (k, -1 :: int)) ps"
  from assms(1) obtain rest where
    doc: "doc_ok es" "m = int_object (int (doc_size es)) @ enc_body es @ 0 # rest"
    by (rule is_docE)
  have fst_qs: "map fst qs = map fst ps" by (simp add: qs_def case_prod_beta comp_def)
  have "bson_scan m (int (doc_size es)) 4 0 qs = Some (find_names 4 es 0 qs)"
    unfolding doc(2)
    by (rule bson_scan_doc) (use doc(1) assms(3) in \<open>auto simp: doc_ok_def doc_size_def keys_ok_def qs_def\<close>)
  also have "find_names 4 es 0 qs = (found (resolve 4 es qs), resolve 4 es qs)"
    by (rule find_names_resolve)
       (use assms(2) in \<open>auto simp: unset_ok_def fst_qs found_def filter_empty_conv qs_def [symmetric]\<close>, 
        auto simp: qs_def)
  also have "resolve 4 es qs = map (\<lambda>k. (k, first_off 4 es k)) (map fst ps)"
    by (simp add: resolve_def qs_def case_prod_beta comp_def)
  also have "found \<dots> = int (length (filter (\<lambda>k. 0 \<le> first_off 4 es k) (map fst ps)))"
    by (simp add: found_def filter_map comp_def)
  finally show ?thesis
    using is_doc_read_size [OF assms(1)] is_doc_end [OF assms(1)]
    by (simp add: bson_get_props_def doc_size_def qs_def)
qed

section \<open>Reading a value at its offset\<close>

text \<open>\<open>elem_at m off ty v\<close>: \<open>m\<close> holds a document in which the element at \<open>off\<close> is of type \<open>ty\<close> with
  value \<open>v\<close>.\<close>

definition elem_at :: "mem \<Rightarrow> elem list \<Rightarrow> int \<Rightarrow> elem \<Rightarrow> bool" where
  "elem_at m es off e \<longleftrightarrow>
     is_doc m es \<and> (\<exists>es1 es2. es = es1 @ e # es2 \<and> off = 4 + int (length (enc_body es1)))"

lemma first_off_split:
  "first_off d es k \<noteq> -1 \<Longrightarrow> 0 \<le> d \<Longrightarrow>
   \<exists>es1 ty v es2. es = es1 @ (ty, k, v) # es2 \<and> k \<notin> (fst \<circ> snd) ` set es1 \<and>
     first_off d es k = d + int (length (enc_body es1))"
proof (induction es arbitrary: d)
  case (Cons e es)
  obtain ty k' v where e: "e = (ty, k', v)" by (cases e)
  show ?case
  proof (cases "k' = k")
    case True
    then show ?thesis by (intro exI [of _ "[]"]) (simp add: e)
  next
    case False
    with Cons.prems e have "first_off (d + int (length (enc_elem e))) es k \<noteq> -1" by simp
    from Cons.IH [OF this] Cons.prems(2) obtain es1 ty v es2 where
      *: "es = es1 @ (ty, k, v) # es2" "k \<notin> (fst \<circ> snd) ` set es1"
      "first_off (d + int (length (enc_elem e))) es k =
         d + int (length (enc_elem e)) + int (length (enc_body es1))" by auto
    with False e show ?thesis
      by (intro exI [of _ "e # es1"] exI [of _ ty] exI [of _ v] exI [of _ es2]) simp
  qed
qed simp

lemma first_off_elem_at:
  "is_doc m es \<Longrightarrow> first_off 4 es k \<noteq> -1 \<Longrightarrow> \<exists>ty v. elem_at m es (first_off 4 es k) (ty, k, v)"
  by (drule first_off_split) (auto simp: elem_at_def)

lemma elem_atE:
  assumes "elem_at m es off (ty, k, v)"
  obtains pre rest where "m = pre @ ty # k @ 0 # v @ rest" "off = int (length pre)" "4 \<le> off"
    "off + 2 + int (length k) + int (length v) < int (doc_size es)" "name_ok k" "value_ok ty v"
    "read_unaligned_int m 0 = Some (int (doc_size es))" "rd m (int (doc_size es) - 1) = Some 0"
proof -
  from assms obtain es1 es2 where *: "is_doc m es" "es = es1 @ (ty, k, v) # es2"
    "off = 4 + int (length (enc_body es1))" by (auto simp: elem_at_def)
  from *(1) obtain rest where doc: "doc_ok es"
    "m = int_object (int (doc_size es)) @ enc_body es @ 0 # rest" by (rule is_docE)
  have "m = (int_object (int (doc_size es)) @ enc_body es1) @ ty # k @ 0 # v @ enc_body es2 @ 0 # rest"
    by (simp add: doc(2) *(2))
  then show ?thesis
    by (rule that)
       (use * doc(1) is_doc_read_size [OF *(1)] is_doc_end [OF *(1)] in
         \<open>auto simp: doc_ok_def doc_size_def\<close>)
qed

lemma seek_data_elem:
  assumes "elem_at m es off (ty, k, v)"
    "sint ty = uint (types AND 0xff) \<or> sint ty = uint (drop_bit 8 types)"
  shows "\<exists>pre rest. seek_data (Some m) off types = Some (Some (int (length pre), int (doc_size es)))
    \<and> m = pre @ v @ rest \<and> int (length pre) + int (length v) < int (doc_size es)"
proof -
  from assms(1) obtain pre rest where *: "m = pre @ ty # k @ 0 # v @ rest" "off = int (length pre)"
    "4 \<le> off" "off + 2 + int (length k) + int (length v) < int (doc_size es)" "name_ok k"
    "read_unaligned_int m 0 = Some (int (doc_size es))" "rd m (int (doc_size es) - 1) = Some 0"
    by (rule elem_atE)
  have "rd m off = Some ty" unfolding *(1) using *(2) by (rule rd_at)
  moreover have "skip_cstring m (off + 1) (int (doc_size es)) =
      Some (Some (off + 1 + int (length k) + 1))"
    using skip_cstring_nul [of k "off + 1" "pre @ [ty]" _ "v @ rest"] * by (simp add: name_ok_def)
  ultimately have "seek_data (Some m) off types =
      Some (Some (off + 1 + int (length k) + 1, int (doc_size es)))"
    using * assms(2) by (auto simp: seek_data_def)
  then show ?thesis
    by (intro exI [of _ "pre @ ty # k @ [0]"] exI [of _ rest]) (use * in simp)
qed

end
