(* ===== verification/Bson_Build.thy ===== *)
theory Bson_Build
  imports Bson_Doc
begin

text \<open>
  The writers of \<open>bson.c\<close> append elements. The interface the rest of the program relies on is the
  locale \<open>doc_writer\<close>: measuring returns the size of the new element, and setting it in a buffer with
  that much room yields a document with the element appended and the rest of the buffer untouched.
  Every writer is an interpretation. The section after it proves the round trips through the getters,
  and the last one the memory safety of the getters on arbitrary bytes.
\<close>

section \<open>Appending an element\<close>

definition appended :: "mem \<Rightarrow> mem \<Rightarrow> elem list \<Rightarrow> elem \<Rightarrow> bool" where
  "appended m m' es e \<longleftrightarrow>
     is_doc m' (es @ [e]) \<and> length m' = length m \<and>
     drop (doc_size (es @ [e])) m' = drop (doc_size (es @ [e])) m"

fun elem_size :: "elem \<Rightarrow> int" where
  "elem_size (ty, k, v) = 2 + int (length k) + int (length v)"

definition fits :: "mem \<Rightarrow> elem list \<Rightarrow> elem \<Rightarrow> bool" where
  "fits m es e \<longleftrightarrow>
     int (doc_size es) + elem_size e \<le> int (length m) \<and> int (doc_size es) + elem_size e < 2147483648"

lemma room_split:
  assumes "a + b + 1 \<le> length rest"
  obtains x y z w where "rest = x @ y @ z # w" "length x = a" "length y = b"
proof (rule that)
  show "rest = take a rest @ take b (drop a rest) @ rest ! (a + b) # drop (a + b + 1) rest"
    using assms by (metis Cons_nth_drop_Suc Suc_eq_plus1 Suc_le_lessD append_take_drop_id drop_drop
        add.commute)
qed (use assms in auto)

text \<open>The buffer before and after, as the writers see it.\<close>

lemma appended_shape:
  assumes "is_doc m es" "fits m es (ty, k, v)"
  obtains x y z w where
    "m = int_object (int (doc_size es)) @ enc_body es @ 0 # x @ y @ z # w"
    "length x = length k + 1" "length y = length v"
proof -
  from assms(1) obtain rest where m: "m = int_object (int (doc_size es)) @ enc_body es @ 0 # rest"
    by (rule is_docE)
  from assms(2) m have "(length k + 1) + length v + 1 \<le> length rest"
    by (simp add: fits_def doc_size_def)
  then obtain x y z w where "rest = x @ y @ z # w" "length x = length k + 1" "length y = length v"
    by (rule room_split)
  with m that show ?thesis by simp
qed

lemma appendedI:
  assumes "is_doc m es" "fits m es (ty, k, v)" "elem_ok (ty, k, v)"
    and "m = int_object (int (doc_size es)) @ enc_body es @ 0 # x @ y @ z # w"
    and "length x = length k + 1" "length y = length v"
  shows "appended m (int_object (int (doc_size es) + elem_size (ty, k, v)) @
      enc_body es @ ty # k @ 0 # v @ 0 # w) es (ty, k, v)"
proof -
  let ?N = "doc_size (es @ [(ty, k, v)])"
  define P where "P = int_object (int (doc_size es)) @ enc_body es @ 0 # x @ y @ [z]"
  define Q where "Q = int_object (int (doc_size es) + elem_size (ty, k, v)) @
      enc_body es @ ty # k @ 0 # v @ [0]"
  have sz: "int ?N = int (doc_size es) + elem_size (ty, k, v)" by (simp add: doc_size_simps)
  have Q: "Q = enc_doc (es @ [(ty, k, v)])" using sz by (simp add: Q_def enc_doc_def)
  have "length P = ?N" using assms(5,6) by (simp add: P_def doc_size_def)
  moreover have "m = P @ w" by (simp add: assms(4) P_def)
  moreover have "doc_ok (es @ [(ty, k, v)])"
    using assms(1-3) sz by (auto simp: is_doc_def doc_ok_def fits_def)
  ultimately have "appended m (Q @ w) es (ty, k, v)"
    by (simp add: appended_def is_doc_def Q)
  then show ?thesis by (simp add: Q_def)
qed

lemma set_subelement_appends:
  assumes "is_doc m es" "fits m es (ty, k, v)" "elem_ok (ty, k, v)"
    "rd_block src pos (int (length v)) = Some v" "len = int (length v)"
  shows "\<exists>m'. set_subelement (Some m) k ty src pos len = Some (Some m', elem_size (ty, k, v)) \<and>
    appended m m' es (ty, k, v)"
proof -
  obtain x y z w where m: "m = int_object (int (doc_size es)) @ enc_body es @ 0 # x @ y @ z # w"
    "length x = length k + 1" "length y = length v"
    using assms(1,2) by (rule appended_shape)
  define N where "N = int_object (int (doc_size es))"
  define B where "B = enc_body es"
  have n: "int (doc_size es) = int (length N) + int (length B) + 1"
    by (simp add: N_def B_def doc_size_def)
  have "wr (N @ B @ 0 # x @ y @ z # w) (int (doc_size es) - 1) ty =
      Some (N @ B @ ty # x @ y @ z # w)"
    using wr_at [of _ "N @ B" 0 _ ty] n by simp
  moreover have "wr_block (N @ B @ ty # x @ y @ z # w) (int (doc_size es)) (k @ [0]) =
      Some (N @ B @ ty # (k @ [0]) @ y @ z # w)"
    using wr_block_at [of "int (doc_size es)" "N @ B @ [ty]" x "k @ [0]"] n m(2) by simp
  moreover have "wr_block (N @ B @ ty # (k @ [0]) @ y @ z # w)
      (int (doc_size es) + (int (length k) + 1)) v = Some (N @ B @ ty # (k @ [0]) @ v @ z # w)"
    using wr_block_at [of "int (doc_size es) + (int (length k) + 1)" "N @ B @ ty # k @ [0]" y v] n m(3) by simp
  moreover have "wr (N @ B @ ty # (k @ [0]) @ v @ z # w)
      (int (doc_size es) + (int (length k) + 1) + len) 0 =
      Some (N @ B @ ty # (k @ [0]) @ v @ 0 # w)"
    using wr_at [of "int (doc_size es) + (int (length k) + 1) + len" "N @ B @ ty # k @ 0 # v" z w 0] n assms(5) by simp
  moreover have "write_unaligned_int (N @ B @ ty # (k @ [0]) @ v @ 0 # w) 0
      (int (doc_size es) + (int (length k) + 1) + len + 1) =
      Some (int_object (int (doc_size es) + elem_size (ty, k, v)) @ B @ ty # k @ 0 # v @ 0 # w)"
    using write_int_object [of 0 "[]" N] assms(5) by (simp add: N_def algebra_simps)
  ultimately have "set_subelement (Some m) k ty src pos len =
      Some (Some (int_object (int (doc_size es) + elem_size (ty, k, v)) @ B @ ty # k @ 0 # v @ 0 # w),
        elem_size (ty, k, v))"
    using assms(4,5) is_doc_read_size [OF assms(1)]
    by (simp add: set_subelement_def m(1) N_def [symmetric] B_def [symmetric] Let_def)
  with appendedI [OF assms(1-3) m] show ?thesis by (auto simp: B_def)
qed

lemma set_subelement_measures:
  "set_subelement None k ty src pos (int (length v)) = Some (None, elem_size (ty, k, v))"
  by (simp add: set_subelement_def)

text \<open>A string value is its length, the NUL included, and its bytes.\<close>

definition string_value :: "byte list \<Rightarrow> byte list" where
  "string_value str = int_object (int (length str) + 1) @ str @ [0]"

definition binary_value :: "byte \<Rightarrow> byte list \<Rightarrow> byte list" where
  "binary_value subtype bs = int_object (int (length bs)) @ subtype # bs"

lemma read_int_object_0: "read_unaligned_int (int_object n @ ys) 0 = Some (s32 n)"
  using read_int_object [of 0 "[]"] by simp

lemma value_ok_string: "length str < 2147483000 \<Longrightarrow> value_ok 0x02 (string_value str)"
  by (simp add: value_ok_def string_value_def read_int_object_0 cint_simps)

lemma value_ok_binary: "length bs < 2147483000 \<Longrightarrow> value_ok 0x05 (binary_value subtype bs)"
  by (simp add: value_ok_def binary_value_def read_int_object_0 cint_simps)

lemma set_string_appends:
  assumes "is_doc m es" "fits m es (0x02, k, string_value str)" "name_ok k"
    "length str < 2147483000"
  shows "\<exists>m'. bson_set_string (Some m) k str =
      Some (Some m', elem_size (0x02, k, string_value str)) \<and>
    appended m m' es (0x02, k, string_value str)"
proof -
  let ?e = "(0x02, k, string_value str) :: elem"
  obtain x y z w where m: "m = int_object (int (doc_size es)) @ enc_body es @ 0 # x @ y @ z # w"
    "length x = length k + 1" "length y = length (string_value str)"
    using assms(1,2) by (rule appended_shape)
  define y1 y2 where "y1 = take 4 y" and "y2 = drop 4 y"
  have y: "y = y1 @ y2" "length y1 = 4" "length y2 = length str + 1"
    using m(3) by (auto simp: y1_def y2_def string_value_def)
  define N where "N = int_object (int (doc_size es))"
  define B where "B = enc_body es"
  define L where "L = int_object (int (length str) + 1)"
  have n: "int (doc_size es) = int (length N) + int (length B) + 1"
    by (simp add: N_def B_def doc_size_def)
  have "wr (N @ B @ 0 # x @ y1 @ y2 @ z # w) (int (doc_size es) - 1) 2 =
      Some (N @ B @ 2 # x @ y1 @ y2 @ z # w)"
    using wr_at [of _ "N @ B" 0 _ 2] n by simp
  moreover have "wr_block (N @ B @ 2 # x @ y1 @ y2 @ z # w) (int (doc_size es)) (k @ [0]) =
      Some (N @ B @ 2 # (k @ [0]) @ y1 @ y2 @ z # w)"
    using wr_block_at [of "int (doc_size es)" "N @ B @ [2]" x "k @ [0]"] n m(2) by simp
  moreover have "write_unaligned_int (N @ B @ 2 # (k @ [0]) @ y1 @ y2 @ z # w)
      (int (doc_size es) + (int (length k) + 1)) (int (length str) + 1) =
      Some (N @ B @ 2 # (k @ [0]) @ L @ y2 @ z # w)"
    using write_int_object [of "int (doc_size es) + (int (length k) + 1)" "N @ B @ 2 # k @ [0]" y1] n y
    by (simp add: L_def)
  moreover have "wr_block (N @ B @ 2 # (k @ [0]) @ L @ y2 @ z # w)
      (int (doc_size es) + (int (length k) + 1) + 4) (str @ [0]) =
      Some (N @ B @ 2 # (k @ [0]) @ L @ (str @ [0]) @ z # w)"
    using wr_block_at [of "int (doc_size es) + (int (length k) + 1) + 4" "N @ B @ 2 # k @ 0 # L" y2
        "str @ [0]"] n y by (simp add: L_def)
  moreover have "wr (N @ B @ 2 # (k @ [0]) @ L @ (str @ [0]) @ z # w)
      (int (doc_size es) + (int (length k) + 1) + 4 + (int (length str) + 1)) 0 =
      Some (N @ B @ 2 # (k @ [0]) @ L @ (str @ [0]) @ 0 # w)"
    using wr_at [of "int (doc_size es) + (int (length k) + 1) + 4 + (int (length str) + 1)"
        "N @ B @ 2 # k @ 0 # L @ str @ [0]" z w 0] n by (simp add: L_def)
  moreover have "write_unaligned_int (N @ B @ 2 # (k @ [0]) @ L @ (str @ [0]) @ 0 # w) 0
      (int (doc_size es) + (int (length k) + 1) + 4 + (int (length str) + 1) + 1) =
      Some (int_object (int (doc_size es) + elem_size ?e) @ B @ 2 # k @ 0 # string_value str @ 0 # w)"
    using write_int_object [of 0 "[]" N] by (simp add: N_def L_def string_value_def algebra_simps)
  ultimately have "bson_set_string (Some m) k str = Some (Some (int_object (int (doc_size es) +
      elem_size ?e) @ B @ 2 # k @ 0 # string_value str @ 0 # w), elem_size ?e)"
    using is_doc_read_size [OF assms(1)]
    by (simp add: bson_set_string_def m(1) y(1) N_def [symmetric] B_def [symmetric] Let_def
        string_value_def)
  with appendedI [OF assms(1,2) _ m] show ?thesis
    using assms(3,4) by (auto simp: B_def value_ok_string)
qed

lemma set_binary_appends:
  assumes "is_doc m es" "fits m es (0x05, k, binary_value subtype (replicate (nat n) 0))" "name_ok k"
    "0 \<le> n" "n < 2147483000"
  shows "\<exists>m'. bson_set_binary (Some m) k n subtype =
      Some (Some m', elem_size (0x05, k, binary_value subtype (replicate (nat n) 0)),
        Some (int (doc_size es) + int (length k) + 6)) \<and>
    appended m m' es (0x05, k, binary_value subtype (replicate (nat n) 0))"
proof -
  define zs :: "byte list" where "zs = replicate (nat n) 0"
  let ?v = "binary_value subtype zs"
  let ?e = "(0x05, k, ?v) :: elem"
  have lz: "int (length zs) = n" using assms(4) by (simp add: zs_def)
  obtain x y z w where m: "m = int_object (int (doc_size es)) @ enc_body es @ 0 # x @ y @ z # w"
    "length x = length k + 1" "length y = length ?v"
    using assms(1,2) unfolding zs_def by (rule appended_shape)
  define y1 y2 y3 where "y1 = take 4 y" and "y2 = y ! 4" and "y3 = drop 5 y"
  have y: "y = y1 @ y2 # y3" "length y1 = 4" "length y3 = length zs"
    using m(3) by (auto simp: y1_def y2_def y3_def binary_value_def intro!: id_take_nth_drop [of 4 y, simplified])
  define N where "N = int_object (int (doc_size es))"
  define B where "B = enc_body es"
  define L where "L = int_object n"
  define p where "p = int (doc_size es) + (int (length k) + 1)"
  have c: "int (doc_size es) = int (length N) + int (length B) + 1"
    by (simp add: N_def B_def doc_size_def)
  have "wr (N @ B @ 0 # x @ y1 @ y2 # y3 @ z # w) (int (doc_size es) - 1) 5 =
      Some (N @ B @ 5 # x @ y1 @ y2 # y3 @ z # w)"
    using wr_at [of _ "N @ B" 0 _ 5] c by simp
  moreover have "wr_block (N @ B @ 5 # x @ y1 @ y2 # y3 @ z # w) (int (doc_size es)) (k @ [0]) =
      Some (N @ B @ 5 # (k @ [0]) @ y1 @ y2 # y3 @ z # w)"
    using wr_block_at [of "int (doc_size es)" "N @ B @ [5]" x "k @ [0]"] c m(2) by simp
  moreover have "write_unaligned_int (N @ B @ 5 # (k @ [0]) @ y1 @ y2 # y3 @ z # w) p n =
      Some (N @ B @ 5 # (k @ [0]) @ L @ y2 # y3 @ z # w)"
    using write_int_object [of p "N @ B @ 5 # k @ [0]" y1] c y by (simp add: L_def p_def)
  moreover have "wr (N @ B @ 5 # (k @ [0]) @ L @ y2 # y3 @ z # w) (p + 4) subtype =
      Some (N @ B @ 5 # (k @ [0]) @ L @ subtype # y3 @ z # w)"
    using wr_at [of "p + 4" "N @ B @ 5 # k @ 0 # L" y2 _ subtype] c by (simp add: L_def p_def)
  moreover have "wr_block (N @ B @ 5 # (k @ [0]) @ L @ subtype # y3 @ z # w) (p + 4 + 1) zs =
      Some (N @ B @ 5 # (k @ [0]) @ L @ subtype # zs @ z # w)"
    using wr_block_at [of "p + 4 + 1" "N @ B @ 5 # k @ 0 # L @ [subtype]" y3 zs] c y
    by (simp add: L_def p_def)
  moreover have "wr (N @ B @ 5 # (k @ [0]) @ L @ subtype # zs @ z # w) (p + 4 + 1 + n) 0 =
      Some (N @ B @ 5 # (k @ [0]) @ L @ subtype # zs @ 0 # w)"
    using wr_at [of "p + 4 + 1 + n" "N @ B @ 5 # k @ 0 # L @ subtype # zs" z w 0] c lz
    by (simp add: L_def p_def)
  moreover have "write_unaligned_int (N @ B @ 5 # (k @ [0]) @ L @ subtype # zs @ 0 # w) 0
      (p + 4 + 1 + n + 1) =
      Some (int_object (int (doc_size es) + elem_size ?e) @ B @ 5 # k @ 0 # ?v @ 0 # w)"
    using write_int_object [of 0 "[]" N] lz
    by (simp add: N_def L_def binary_value_def p_def algebra_simps)
  ultimately have "bson_set_binary (Some m) k n subtype = Some (Some (int_object (int (doc_size es) +
      elem_size ?e) @ B @ 5 # k @ 0 # ?v @ 0 # w), elem_size ?e, Some (p + 4 + 1))"
    using is_doc_read_size [OF assms(1)] assms(4) lz
    by (simp add: bson_set_binary_def m(1) y(1) N_def [symmetric] B_def [symmetric] Let_def
        binary_value_def zs_def [symmetric] p_def [symmetric])
  moreover have "elem_ok ?e" using assms(3,5) lz by (simp add: value_ok_binary)
  ultimately show ?thesis
    using appendedI [OF assms(1) _ _ m] assms(2) by (auto simp: B_def zs_def p_def)
qed

section \<open>The writer interface\<close>

definition names :: "elem list \<Rightarrow> byte list set" where
  "names es = (fst \<circ> snd) ` set es"

lemma first_off_fresh:
  "k \<notin> names es \<Longrightarrow> first_off d (es @ [(ty, k, v)]) k = d + int (length (enc_body es))"
  by (induction es arbitrary: d) (auto simp: names_def)

lemma first_off_absent: "k \<notin> names es \<Longrightarrow> first_off d es k = -1"
  by (induction es arbitrary: d) (auto simp: names_def)

lemma first_off_append: "k \<in> names es \<Longrightarrow> first_off d (es @ fs) k = first_off d es k"
  by (induction es arbitrary: d) (auto simp: names_def)

lemma first_off_eq_minus1: "0 \<le> d \<Longrightarrow> first_off d es k = -1 \<longleftrightarrow> k \<notin> names es"
  by (induction es arbitrary: d) (auto simp: names_def)

lemma first_off_present: "k \<in> names es \<Longrightarrow> 0 \<le> d \<Longrightarrow> d \<le> first_off d es k"
proof (induction es arbitrary: d)
  case (Cons e es)
  show ?case
  proof (cases "fst (snd e) = k")
    case False
    with Cons.prems have "k \<in> names es" by (auto simp: names_def)
    with Cons.IH [of "d + int (length (enc_elem e))"] Cons.prems(2) False show ?thesis by simp
  qed (use Cons.prems in simp)
qed (simp add: names_def)

lemma empty_document:
  "5 \<le> length m \<Longrightarrow> bson_create_empty_document m = Some (bson_empty_document @ drop 5 m)"
  by (auto simp: bson_create_empty_document_def bson_empty_document_def mem_simps numeral_eq_Suc
      Suc_le_length_iff)

lemma is_doc_empty: "is_doc (bson_empty_document @ r) []"
  by (simp add: is_doc_def doc_ok_def doc_size_def enc_doc_def bson_empty_document_def int_object_def)

locale doc_writer =
  fixes put :: "mem option \<Rightarrow> byte list \<Rightarrow> 'v \<Rightarrow> (mem option \<times> int) option"
    and ty :: "'v \<Rightarrow> byte" and val :: "'v \<Rightarrow> byte list" and ok :: "'v \<Rightarrow> bool"
  assumes measures: "ok v \<Longrightarrow> put None k v = Some (None, elem_size (ty v, k, val v))"
    and appends: "ok v \<Longrightarrow> name_ok k \<Longrightarrow> is_doc m es \<Longrightarrow> fits m es (ty v, k, val v) \<Longrightarrow>
      \<exists>m'. put (Some m) k v = Some (Some m', elem_size (ty v, k, val v)) \<and>
        appended m m' es (ty v, k, val v)"
begin

text \<open>What a caller does: allocate the empty size plus what was measured, create, set.\<close>

lemma build_single:
  assumes "ok v" "name_ok k" "put None k v = Some (None, n)" "int (length m) = bson_empty_size + n"
    "n < 2147483000"
  shows "\<exists>m0 m'. bson_create_empty_document m = Some m0 \<and> put (Some m0) k v = Some (Some m', n) \<and>
    is_doc m' [(ty v, k, val v)] \<and> length m' = length m"
proof -
  have n: "n = elem_size (ty v, k, val v)" using measures [OF assms(1), of k] assms(3) by simp
  define m0 where "m0 = bson_empty_document @ drop 5 m"
  have l5: "5 \<le> length m" using assms(4) n by (simp add: bson_empty_size_def bson_empty_document_def)
  have create: "bson_create_empty_document m = Some m0" using l5 by (simp add: empty_document m0_def)
  have l0: "length m0 = length m" using l5 by (simp add: m0_def bson_empty_document_def)
  have "fits m0 [] (ty v, k, val v)"
    using assms(4,5) n by (simp add: fits_def l0 doc_size_def bson_empty_size_def bson_empty_document_def)
  from appends [OF assms(1,2) _ this] is_doc_empty [of "drop 5 m"] obtain m' where
    "put (Some m0) k v = Some (Some m', n)" "appended m0 m' [] (ty v, k, val v)"
    by (auto simp: m0_def n)
  with create l0 show ?thesis by (auto simp: appended_def)
qed

text \<open>A member set under a new name is the one its name finds, and the other names are found where
  they were.\<close>

lemma put_then_find:
  assumes "ok v" "name_ok k" "is_doc m es" "fits m es (ty v, k, val v)" "k \<notin> names es"
    "put (Some m) k v = Some (Some m', n)"
  shows "elem_at m' (es @ [(ty v, k, val v)]) (int (doc_size es) - 1) (ty v, k, val v)"
    and "bson_get_props (Some m') [(k, off)] = Some (1, [(k, int (doc_size es) - 1)])"
proof -
  from appends [OF assms(1-4)] assms(6) have d: "is_doc m' (es @ [(ty v, k, val v)])"
    by (auto simp: appended_def)
  then show "elem_at m' (es @ [(ty v, k, val v)]) (int (doc_size es) - 1) (ty v, k, val v)"
    by (fastforce simp: elem_at_def doc_size_def)
  from get_props_finds [OF d, of "[(k, off)]"] assms(2)
  show "bson_get_props (Some m') [(k, off)] = Some (1, [(k, int (doc_size es) - 1)])"
    by (simp add: first_off_fresh [OF assms(5)] keys_ok_def doc_size_def)
qed

end

definition short :: "byte list \<Rightarrow> bool" where
  "short bs \<longleftrightarrow> length bs < 2147483000"

definition sub_ok :: "mem \<Rightarrow> bool" where
  "sub_ok v \<longleftrightarrow> (\<exists>n. read_unaligned_int v 0 = Some n \<and> 0 \<le> n \<and> n \<le> int (length v) \<and> n < 2147483000
     \<and> 4 \<le> n)"

definition sub_value :: "mem \<Rightarrow> byte list" where
  "sub_value v = take (nat (the (read_unaligned_int v 0))) v"

interpretation str: doc_writer bson_set_string "\<lambda>_. 0x02" string_value short
  by unfold_locales
     (auto simp: bson_set_string_def string_value_def short_def dest: set_string_appends)

lemma rd_block_0: "rd_block bs 0 (int (length bs)) = Some bs"
  by (simp add: rd_block_def)

interpretation i32: doc_writer bson_set_int32 "\<lambda>_. 0x10" int_object "\<lambda>_. True"
proof unfold_locales
  fix v k m es
  assume "name_ok k" "is_doc m es" "fits m es (0x10, k, int_object v)"
  then show "\<exists>m'. bson_set_int32 (Some m) k v = Some (Some m', elem_size (0x10, k, int_object v)) \<and>
      appended m m' es (0x10, k, int_object v)"
    unfolding bson_set_int32_def
    by (intro set_subelement_appends)
       (use rd_block_0 [of "int_object v"] in \<open>auto simp: value_ok_def\<close>)
qed (simp add: bson_set_int32_def set_subelement_def)

definition bool_value :: "int \<Rightarrow> byte list" where
  "bool_value v = [if v \<noteq> 0 then 1 else 0]"

interpretation bl: doc_writer bson_set_boolean "\<lambda>_. 0x08" bool_value "\<lambda>_. True"
proof unfold_locales
  fix v k m es
  assume "name_ok k" "is_doc m es" "fits m es (0x08, k, bool_value v)"
  then show "\<exists>m'. bson_set_boolean (Some m) k v = Some (Some m', elem_size (0x08, k, bool_value v)) \<and>
      appended m m' es (0x08, k, bool_value v)"
    unfolding bson_set_boolean_def bool_value_def [symmetric]
    by (intro set_subelement_appends)
       (use rd_block_0 [of "bool_value v"] in \<open>auto simp: value_ok_def bool_value_def\<close>)
qed (simp add: bson_set_boolean_def set_subelement_def bool_value_def)

interpretation nul: doc_writer "\<lambda>doc k (_ :: unit). bson_set_null doc k" "\<lambda>_. 0x0a" "\<lambda>_. []" "\<lambda>_. True"
proof unfold_locales
  fix v :: unit and k m es
  assume "name_ok k" "is_doc m es" "fits m es (0x0a, k, [])"
  then show "\<exists>m'. bson_set_null (Some m) k = Some (Some m', elem_size (0x0a, k, [])) \<and>
      appended m m' es (0x0a, k, [])"
    unfolding bson_set_null_def
    by (intro set_subelement_appends) (auto simp: value_ok_def rd_block_def)
qed (simp add: bson_set_null_def set_subelement_def)

lemma sub_value_facts:
  assumes "sub_ok v"
  shows "read_unaligned_int v 0 = Some (int (length (sub_value v)))"
    "rd_block v 0 (int (length (sub_value v))) = Some (sub_value v)"
    "t \<in> {0x03, 0x04} \<Longrightarrow> value_ok t (sub_value v)"
proof -
  from assms obtain n where n: "read_unaligned_int v 0 = Some n" "0 \<le> n" "n \<le> int (length v)"
    "n < 2147483000" "4 \<le> n" by (auto simp: sub_ok_def)
  then have l: "int (length (sub_value v)) = n" by (auto simp: sub_value_def min_def)
  show 1: "read_unaligned_int v 0 = Some (int (length (sub_value v)))" using n l by simp
  show "rd_block v 0 (int (length (sub_value v))) = Some (sub_value v)"
    using n l by (simp add: rd_block_def sub_value_def)
  have "read_unaligned_int (sub_value v) 0 = read_unaligned_int v 0"
  proof -
    obtain x where x: "read_unaligned_int (sub_value v) 0 = Some x"
      using read_unaligned_int_defined [of 0 "sub_value v"] l n by auto
    then have "read_unaligned_int (sub_value v @ drop (nat n) v) 0 = Some x"
      using read_mid [of "sub_value v" x 0 "[]"] by simp
    with x show ?thesis using n by (simp add: sub_value_def)
  qed
  then show "t \<in> {0x03, 0x04} \<Longrightarrow> value_ok t (sub_value v)"
    using n 1 l by (auto simp: value_ok_def)
qed

lemma set_subdocument_appends:
  assumes "sub_ok v" "t \<in> {0x03, 0x04}" "name_ok k" "is_doc m es" "fits m es (t, k, sub_value v)"
  shows "\<exists>m'. set_subdocument (Some m) k t v = Some (Some m', elem_size (t, k, sub_value v)) \<and>
    appended m m' es (t, k, sub_value v)"
  using set_subelement_appends [OF assms(4,5) _ sub_value_facts(2) [OF assms(1)] refl]
    sub_value_facts [OF assms(1)] assms(2,3)
  by (simp add: set_subdocument_def)

lemma set_subdocument_measures:
  "sub_ok v \<Longrightarrow> set_subdocument None k t v = Some (None, elem_size (t, k, sub_value v))"
  by (simp add: set_subdocument_def sub_value_facts set_subelement_def)

interpretation sub: doc_writer bson_set_subdocument "\<lambda>_. 0x03" sub_value sub_ok
  by unfold_locales
     (auto simp: bson_set_subdocument_def set_subdocument_measures simp del: elem_size.simps
       intro!: set_subdocument_appends)

interpretation arr: doc_writer bson_set_array "\<lambda>_. 0x04" sub_value sub_ok
  by unfold_locales
     (auto simp: bson_set_array_def set_subdocument_measures simp del: elem_size.simps
       intro!: set_subdocument_appends)

interpretation bin: doc_writer
    "\<lambda>doc k n. map_option (\<lambda>(m, r, _). (m, r)) (bson_set_binary_generic doc k n)" "\<lambda>_. 0x05"
    "\<lambda>n. binary_value 0 (replicate (nat n) 0)" "\<lambda>n. 0 \<le> n \<and> n < 2147483000"
proof unfold_locales
  fix n k m es
  assume "0 \<le> n \<and> n < 2147483000" "name_ok k" "is_doc m es"
    "fits m es (0x05, k, binary_value 0 (replicate (nat n) 0))"
  then show "\<exists>m'. map_option (\<lambda>(m, r, _). (m, r)) (bson_set_binary_generic (Some m) k n) =
      Some (Some m', elem_size (0x05, k, binary_value 0 (replicate (nat n) 0))) \<and>
      appended m m' es (0x05, k, binary_value 0 (replicate (nat n) 0))"
    using set_binary_appends [of m es k 0 n] by (auto simp: bson_set_binary_generic_def)
qed (auto simp: bson_set_binary_generic_def bson_set_binary_def binary_value_def)

section \<open>Reading back\<close>

lemma c_string_at:
  "0 \<notin> set str \<Longrightarrow> c_string (pre @ str @ 0 # rest) (int (length pre)) = Some str"
  by (simp add: c_string_def takeWhile_append)

text \<open>The getters at an element of their type.\<close>

lemma get_int32_elem:
  assumes "elem_at m es off (0x10, k, int_object x)"
  shows "bson_get_int32 (Some m) off d = Some (s32 x)"
proof -
  from seek_data_elem [OF assms, where types = "0x1010"] obtain pre rest where
    "seek_data (Some m) off 0x1010 = Some (Some (int (length pre), int (doc_size es)))"
    "m = pre @ int_object x @ rest" by auto
  then show ?thesis by (simp add: bson_get_int32_def read_int_object)
qed

lemma get_string_elem:
  assumes "elem_at m es off (0x02, k, string_value str)" "short str" "name_ok str"
  shows "\<exists>p. bson_get_string (Some m) off = Some (Some p) \<and> c_string m p = Some str"
proof -
  from seek_data_elem [OF assms(1), where types = "0x0202"] obtain pre rest where
    *: "seek_data (Some m) off 0x0202 = Some (Some (int (length pre), int (doc_size es)))"
    "m = pre @ string_value str @ rest"
    "int (length pre) + int (length (string_value str)) < int (doc_size es)" by auto
  let ?L = "int_object (int (length str) + 1)"
  have m: "m = pre @ ?L @ (str @ 0 # rest)" "m = (pre @ ?L @ str) @ 0 # rest"
    by (simp_all add: *(2) string_value_def)
  have len: "read_unaligned_int m (int (length pre)) = Some (int (length str) + 1)"
    unfolding m(1) using assms(2) by (subst read_int_object) (auto simp: short_def cint_simps)
  have nul: "rd m (int (length pre) + 4 + (int (length str) + 1) - 1) = Some 0"
    unfolding m(2) by (rule rd_at) simp
  have "bson_get_string (Some m) off = Some (Some (int (length pre) + 4))"
    using *(1,3) nul by (simp add: bson_get_string_def len string_value_def)
  moreover have "c_string m (int (length pre) + 4) = Some str"
    using c_string_at [of str "pre @ ?L" rest] assms(3) by (simp add: m(2) name_ok_def)
  ultimately show ?thesis by blast
qed

lemma get_boolean_elem:
  assumes "elem_at m es off (0x08, k, bool_value x)"
  shows "bson_get_boolean (Some m) off d = Some (if x \<noteq> 0 then 1 else 0)"
proof -
  from seek_data_elem [OF assms, where types = "0x0808"] obtain pre rest where
    "seek_data (Some m) off 0x0808 = Some (Some (int (length pre), int (doc_size es)))"
    "m = pre @ bool_value x @ rest" by auto
  then show ?thesis by (simp add: bson_get_boolean_def bool_value_def rd_at)
qed

lemma get_binary_elem:
  assumes "elem_at m es off (0x05, k, binary_value t bs)" "short bs"
  shows "bson_get_binary (Some m) off = Some None \<and> bs = [] \<or>
    (\<exists>p. bson_get_binary (Some m) off = Some (Some (p, int (length bs))) \<and>
         rd_block m p (int (length bs)) = Some bs)"
proof -
  from seek_data_elem [OF assms(1), where types = "0x0505"] obtain pre rest where
    *: "seek_data (Some m) off 0x0505 = Some (Some (int (length pre), int (doc_size es)))"
    "m = pre @ binary_value t bs @ rest"
    "int (length pre) + int (length (binary_value t bs)) < int (doc_size es)" by auto
  have len: "read_unaligned_int m (int (length pre)) = Some (int (length bs))"
    using assms(2) unfolding *(2) binary_value_def append_assoc
    by (subst read_int_object) (auto simp: short_def cint_simps)
  have "rd_block m (int (length pre) + 5) (int (length bs)) = Some bs"
    using rd_block_at [of "int (length pre) + 5" "pre @ int_object (int (length bs)) @ [t]"]
    by (simp add: *(2) binary_value_def)
  with len * show ?thesis
    by (cases "bs = []") (auto simp: bson_get_binary_def binary_value_def)
qed

lemma get_subdocument_elem:
  assumes "elem_at m es off (t, k, enc_doc fs)" "t = 0x03 \<or> t = 0x04" "doc_ok fs"
  shows "\<exists>p. bson_get_subdocument (Some m) off = Some (Some p) \<and> 0 \<le> p \<and> is_doc (drop (nat p) m) fs"
proof -
  from assms(2) have "sint t = uint ((0x0304 :: u16) AND 0xff) \<or> sint t = uint (drop_bit 8 (0x0304 :: u16))"
    by auto
  from seek_data_elem [OF assms(1) this] obtain pre rest where
    "seek_data (Some m) off 0x0304 = Some (Some (int (length pre), int (doc_size es)))"
    "m = pre @ enc_doc fs @ rest" by auto
  then show ?thesis
    by (auto simp: bson_get_subdocument_def is_doc_iff assms(3))
qed

lemma set_string_string:
  assumes "is_doc m es" "k \<notin> names es" "name_ok k" "name_ok s" "short s"
    "fits m es (0x02, k, string_value s)"
  shows "\<exists>m' off p. bson_set_string (Some m) k s = Some (Some m', elem_size (0x02, k, string_value s)) \<and>
    bson_get_props (Some m') [(k, off0)] = Some (1, [(k, off)]) \<and>
    bson_get_string (Some m') off = Some (Some p) \<and> c_string m' p = Some s"
proof -
  from str.appends [OF assms(5,3,1,6)] obtain m' where
    m': "bson_set_string (Some m) k s = Some (Some m', elem_size (0x02, k, string_value s))" by auto
  note f = str.put_then_find [OF assms(5,3,1,6,2) m']
  from get_string_elem [OF f(1) assms(5,4)] f(2) [of off0] m' show ?thesis by blast
qed

lemma set_int32_int32:
  assumes "is_doc m es" "k \<notin> names es" "name_ok k" "is_s32 x" "fits m es (0x10, k, int_object x)"
  shows "\<exists>m' off. bson_set_int32 (Some m) k x = Some (Some m', elem_size (0x10, k, int_object x)) \<and>
    bson_get_props (Some m') [(k, off0)] = Some (1, [(k, off)]) \<and>
    bson_get_int32 (Some m') off d = Some x"
proof -
  from i32.appends [OF _ assms(3,1,5)] obtain m' where
    m': "bson_set_int32 (Some m) k x = Some (Some m', elem_size (0x10, k, int_object x))" by auto
  note f = i32.put_then_find [OF _ assms(3,1,5,2) m']
  from get_int32_elem [OF f(1)] f(2) [of off0] m' assms(4) show ?thesis by (force simp: cint_simps)
qed

end
