(* ===== verification/Bson_Safety.thy ===== *)
theory Bson_Safety
  imports Bson_Build
begin

text \<open>
  What the readers of \<open>bson.c\<close> do on bytes nobody checked: with three bytes behind the declared end
  they stay inside the object, whatever the bytes are; with fewer they can leave it, because
  \<open>measure_value\<close> and \<open>bson_get_int32\<close> read four bytes at a position they only know to be before the
  end, and \<open>bson_get_subdocument\<close> does not compare the length of the embedded document with its
  parent's.
\<close>

definition padded :: "mem \<Rightarrow> int \<Rightarrow> bool" where
  "padded m end \<longleftrightarrow> end + 3 \<le> int (length m)"

lemma skip_cstring_defined:
  assumes "padded m end" "0 \<le> p" "p \<le> end"
  obtains "skip_cstring m p end = Some None"
  | d where "skip_cstring m p end = Some (Some d)" "p < d" "d < end" "rd m (d - 1) = Some 0"
proof -
  from assms obtain n where n: "c_strnlen m p (nat (end - p)) = Some n"
    using c_strnlen_defined [of p "nat (end - p)" m] by (auto simp: padded_def)
  show ?thesis
  proof (cases "end \<le> p + int n + 1")
    case True
    with n show ?thesis using that(1) by (simp add: skip_cstring_def)
  next
    case False
    with assms obtain z where "rd m (p + int n) = Some z" by (auto simp: padded_def mem_simps)
    with n False show ?thesis
      using that(1) that(2) [of "p + int n + 1"] by (cases "z = 0") (auto simp: skip_cstring_def)
  qed
qed

lemma read_padded:
  "padded m end \<Longrightarrow> 0 \<le> p \<Longrightarrow> p < end \<Longrightarrow> \<exists>v. read_unaligned_int m p = Some v"
  using read_unaligned_int_defined [of p m] by (auto simp: padded_def)

lemma measure_value_defined:
  assumes "padded m end" "0 \<le> p" "p < end"
  shows "\<exists>l. measure_value m ty p end = Some l"
proof -
  from read_padded [OF assms] obtain v where v: "read_unaligned_int m p = Some v" by blast
  have r: "\<exists>l. measure_value m 0x0b p end = Some l"
  proof (rule skip_cstring_defined [OF assms(1,2)])
    show "p \<le> end" using assms(3) by simp
  next
    fix d assume *: "skip_cstring m p end = Some (Some d)" "p < d" "d < end"
    show ?thesis
      by (rule skip_cstring_defined [OF assms(1), of d])
         (use * assms(2) in \<open>auto simp: measure_value_def\<close>)
  qed (simp add: measure_value_def)
  show ?thesis
  proof (cases "ty = 0x0b")
    case False
    then show ?thesis by (simp add: measure_value_def v)
  qed (use r in simp)
qed

lemma note_key_defined:
  assumes "keys_ok ps" "0 \<le> p" "p \<le> q" "rd m q = Some 0"
  shows "\<exists>r. note_key m p ps = Some r"
  using assms(1)
proof (induction ps)
  case (Cons a ps)
  obtain key off where a: "a = (key, off)" by (cases a)
  with Cons obtain r where r: "note_key m p ps = Some r" by (auto simp: keys_ok_def)
  from assms(4) have "q < int (length m)" by (simp add: rd_Some_iff)
  with c_streq_defined [of key p q m] Cons.prems assms(2-4) obtain b where "c_streq m p key = Some b"
    by (auto simp: a keys_ok_def name_ok_def)
  with r show ?case by (auto simp: a)
next
  case Nil
  show ?case by (simp only: note_key.simps) blast
qed

lemma note_key_keys: "note_key m p ps = Some (ps', hit) \<Longrightarrow> map fst ps' = map fst ps"
  by (induction ps arbitrary: ps')
     (auto simp: bind_eq_Some_conv apfst_def map_prod_def split: if_splits)

lemma note_key_keys_ok: "note_key m p ps = Some (ps', hit) \<Longrightarrow> keys_ok ps \<Longrightarrow> keys_ok ps'"
proof -
  assume "note_key m p ps = Some (ps', hit)" "keys_ok ps"
  from note_key_keys [OF this(1)] have "fst ` set ps' = fst ` set ps" by (metis list.set_map)
  with \<open>keys_ok ps\<close> show ?thesis by (force simp: keys_ok_def)
qed

lemma bson_scan_defined:
  assumes "padded m end" "0 \<le> d" "keys_ok ps"
  shows "\<exists>r. bson_scan m end d scanned ps = Some r"
  using assms
proof (induction m "end" d scanned ps rule: bson_scan.induct)
  case (1 m "end" d scanned ps)
  show ?case
  proof (cases "d < end")
    case True
    with "1.prems" obtain ty where ty: "rd m d = Some ty" by (auto simp: padded_def mem_simps)
    show ?thesis
    proof (cases "ty = 0")
      case False
      have "d + 1 \<le> end" "0 \<le> d + 1" using True "1.prems" by simp_all
      from "1.prems"(1) this(2,1) show ?thesis
      proof (rule skip_cstring_defined)
        fix d' assume skip: "skip_cstring m (d + 1) end = Some (Some d')" "d + 1 < d'" "d' < end"
          "rd m (d' - 1) = Some 0"
        obtain ps' hit where nk: "note_key m (d + 1) ps = Some (ps', hit)"
          using note_key_defined [OF "1.prems"(3), of "d + 1" "d' - 1" m] "1.prems"(2) skip by auto
        obtain l where l: "measure_value m ty d' end = Some l"
          using measure_value_defined [OF "1.prems"(1), of d'] skip "1.prems"(2) by auto
        have k: "keys_ok ps'" using note_key_keys_ok [OF nk "1.prems"(3)] .
        define s' where "s' = (if hit then scanned + 1 else scanned)"
        have IH: "\<exists>r. bson_scan m end (d' + l) s' ps' = Some r"
          if "\<not> (hit \<and> s' = int (length ps))" "\<not> l < 0"
          by (rule "1.IH" [OF True ty False skip(1) refl nk refl s'_def that(1) l that(2) "1.prems"(1)])
             (use that skip "1.prems"(2) k in auto)
        show ?thesis
          using IH True ty False skip nk l
          by (subst bson_scan.simps) (auto simp: s'_def [symmetric] Let_def)
      qed (use True ty False in \<open>simp add: bson_scan.simps\<close>)
    qed (use True ty in \<open>simp add: bson_scan.simps\<close>)
  qed (simp add: bson_scan.simps)
qed

lemma get_props_defined:
  assumes "read_unaligned_int m 0 = Some end" "padded m end" "keys_ok ps"
  shows "\<exists>r. bson_get_props (Some m) ps = Some r"
proof (cases "end \<le> 4")
  case False
  with assms(2) obtain z where z: "rd m (end - 1) = Some z" by (auto simp: padded_def mem_simps)
  have "keys_ok (map (\<lambda>(k, off). (k, -1)) ps)" using assms(3) by (auto simp: keys_ok_def)
  from bson_scan_defined [OF assms(2) _ this, of 4 0] False assms(1) z show ?thesis
    by (auto simp: bson_get_props_def)
qed (use assms(1) in \<open>simp add: bson_get_props_def\<close>)

lemma seek_data_defined:
  assumes "read_unaligned_int m 0 = Some end" "padded m end"
  obtains "seek_data (Some m) off types = Some None"
  | d where "seek_data (Some m) off types = Some (Some (d, end))" "5 \<le> d" "d < end"
proof (cases "off < 4 \<or> end \<le> off")
  case True
  with assms(1) show ?thesis using that(1) by (auto simp: seek_data_def)
next
  case False
  with assms(2) obtain z b where z: "rd m (end - 1) = Some z" "rd m off = Some b"
    by (auto simp: padded_def mem_simps)
  from False have "0 \<le> off + 1" "off + 1 \<le> end" by auto
  with assms(2) show ?thesis
  proof (rule skip_cstring_defined)
    assume "skip_cstring m (off + 1) end = Some None"
    with False z assms(1) show ?thesis using that(1) by (auto simp: seek_data_def)
  next
    fix d assume *: "skip_cstring m (off + 1) end = Some (Some d)" "off + 1 < d" "d < end"
    show ?thesis
    proof (cases "z \<noteq> 0 \<or> (sint b \<noteq> uint (types AND 0xff) \<and> sint b \<noteq> uint (drop_bit 8 types))")
      case True
      then have "seek_data (Some m) off types = Some None"
        using * False z assms(1) by (auto simp: seek_data_def)
      then show ?thesis by (rule that(1))
    next
      case ok: False
      then have "seek_data (Some m) off types = Some (Some (d, end))"
        using * False z assms(1) by (auto simp: seek_data_def)
      then show ?thesis by (rule that(2)) (use * False in auto)
    qed
  qed
qed

lemma getters_defined:
  assumes "read_unaligned_int m 0 = Some end" "padded m end"
  shows "\<exists>r. bson_get_int32 (Some m) off d = Some r" "\<exists>r. bson_get_boolean (Some m) off d = Some r"
    "\<exists>r. bson_get_string (Some m) off = Some r" "\<exists>r. bson_get_binary (Some m) off = Some r"
    "\<exists>r. bson_get_subdocument (Some m) off = Some r"
proof -
  show "\<exists>r. bson_get_int32 (Some m) off d = Some r"
    by (rule seek_data_defined [OF assms, where off = off and types = "0x1010"])
       (use read_padded [OF assms(2)] in \<open>auto simp: bson_get_int32_def\<close>)
  show "\<exists>r. bson_get_boolean (Some m) off d = Some r"
    by (rule seek_data_defined [OF assms, where off = off and types = "0x0808"])
       (use assms(2) in \<open>auto simp: bson_get_boolean_def padded_def mem_simps\<close>)
  show "\<exists>r. bson_get_binary (Some m) off = Some r"
  proof (rule seek_data_defined [OF assms, where off = off and types = "0x0505"])
    fix p assume *: "seek_data (Some m) off 0x0505 = Some (Some (p, end))" "5 \<le> p" "p < end"
    with read_padded [OF assms(2), of p] obtain v where "read_unaligned_int m p = Some v" by auto
    with * show ?thesis by (simp add: bson_get_binary_def Let_def)
  qed (simp add: bson_get_binary_def)
  show "\<exists>r. bson_get_subdocument (Some m) off = Some r"
    by (rule seek_data_defined [OF assms, where off = off and types = "0x0304"]) (auto simp: bson_get_subdocument_def)
  show "\<exists>r. bson_get_string (Some m) off = Some r"
  proof (rule seek_data_defined [OF assms, where off = off and types = "0x0202"])
    fix p assume *: "seek_data (Some m) off 0x0202 = Some (Some (p, end))" "5 \<le> p" "p < end"
    with read_padded [OF assms(2), of p] obtain v where v: "read_unaligned_int m p = Some v" by auto
    show ?thesis
    proof (cases "v \<le> 0 \<or> end - (p + 4) < v")
      case False
      then have "0 \<le> p + 4 + v - 1 \<and> p + 4 + v - 1 < int (length m)"
        using assms(2) *(2) by (auto simp: padded_def)
      then obtain z where "rd m (p + 4 + v - 1) = Some z" by (auto simp: mem_simps)
      with False * v show ?thesis by (simp add: bson_get_string_def)
    qed (use * v in \<open>auto simp: bson_get_string_def\<close>)
  qed (simp add: bson_get_string_def)
qed

section \<open>Shrinking the last binary\<close>

lemma shrink_last_binary:
  assumes "is_doc m (es @ [(0x05, k, binary_value t bs)])" "short bs" "0 \<le> n" "n < int (length bs)"
  shows "\<exists>m'. bson_shrink_binary m (int (doc_size es) + int (length k) + 6) n = Some (m', 0) \<and>
    is_doc m' (es @ [(0x05, k, binary_value t (take (nat n) bs))]) \<and> length m' = length m"
proof -
  let ?S = "doc_size (es @ [(0x05, k, binary_value t bs)])"
  let ?v = "binary_value t (take (nat n) bs)"
  from assms(1) obtain rest where doc: "doc_ok (es @ [(0x05, k, binary_value t bs)])"
    "m = int_object (int ?S) @ enc_body (es @ [(0x05, k, binary_value t bs)]) @ 0 # rest"
    by (rule is_docE)
  define N where "N = int_object (int ?S)"
  define A where "A = enc_body es @ 5 # k @ [0]"
  define L where "L = int_object (int (length bs))"
  define bs1 z bs2 where "bs1 = take (nat n) bs" and "z = bs ! nat n" and "bs2 = drop (Suc (nat n)) bs"
  have bs: "bs = bs1 @ z # bs2" "int (length bs1) = n"
    using assms(3,4) by (auto simp: bs1_def z_def bs2_def intro: id_take_nth_drop)
  have m: "m = (N @ A) @ L @ (t # bs @ 0 # rest)" "m = (N @ A @ L @ t # bs) @ 0 # rest"
    "m = (N @ A @ L @ t # bs1) @ z # (bs2 @ 0 # rest)"
    unfolding doc(2) by (simp_all add: N_def A_def L_def binary_value_def bs(1))
  define p where "p = int (doc_size es) + int (length k) + 6"
  have p: "p - 5 = int (length (N @ A))" "p = int (length (N @ A @ L @ [t]))"
    by (simp_all add: p_def N_def A_def L_def doc_size_def)
  have old: "read_unaligned_int m (p - 5) = Some (int (length bs))"
    unfolding m(1) L_def p(1) using assms(2) by (subst read_int_object) (auto simp: short_def cint_simps)
  have nul: "rd m (p + int (length bs)) = Some 0" unfolding m(2) by (rule rd_at) (simp add: p(2))
  define m1 where "m1 = (N @ A @ L @ t # bs1) @ 0 # (bs2 @ 0 # rest)"
  define m2 where "m2 = (N @ A) @ int_object n @ (t # bs1 @ 0 # bs2 @ 0 # rest)"
  have w1: "wr m (p + n) 0 = Some m1" unfolding m(3) m1_def by (rule wr_at) (simp add: p(2) bs(2))
  have "m1 = (N @ A) @ L @ (t # bs1 @ 0 # bs2 @ 0 # rest)" by (simp add: m1_def)
  then have w2: "write_unaligned_int m1 (p - 5) n = Some m2"
    unfolding m2_def by (simp only:) (rule write_int_object, simp_all add: p(1) L_def)
  have S: "?S = doc_size es + 7 + length k + length bs" by (simp add: doc_size_simps binary_value_def)
  have r: "read_unaligned_int m2 0 = Some (int ?S)"
    using read_int_object [of 0 "[]" "int ?S"] doc(1)
    by (simp add: m2_def N_def doc_ok_def cint_simps)
  define m3 where "m3 = int_object (int (doc_size (es @ [(0x05, k, ?v)]))) @ A @ int_object n @
      t # bs1 @ 0 # bs2 @ 0 # rest"
  have "int (doc_size (es @ [(0x05, k, ?v)])) = int ?S - (int (length bs) - n)"
    using assms(3,4) by (simp add: doc_size_simps binary_value_def)
  then have w3: "write_unaligned_int m2 0 (int ?S - (int (length bs) - n)) = Some m3"
    using write_int_object [of 0 "[]" N] by (simp add: m2_def m3_def N_def)
  have "bson_shrink_binary m p n = Some (m3, 0)"
    using assms(4) by (simp add: bson_shrink_binary_def old nul w1 w2 r w3 Let_def)
  moreover have "is_doc m3 (es @ [(0x05, k, ?v)])"
    using doc(1) assms(2,3,4) value_ok_binary [of "take (nat n) bs" t]
    by (auto simp: is_doc_iff m3_def enc_doc_def A_def binary_value_def bs(2) bs1_def doc_ok_def
        doc_size_def short_def value_ok_binary [unfolded binary_value_def] min_def)
  moreover have "length m3 = length m" by (simp add: m3_def m(3) N_def L_def)
  ultimately show ?thesis by (auto simp: p_def)
qed

lemma shrink_not_last:
  assumes "is_doc m (es @ (0x05, k, binary_value t bs) # (ty, k', v) # fs)" "short bs"
  shows "bson_shrink_binary m (int (doc_size es) + int (length k) + 6) n = Some (m, -1)"
proof -
  let ?es = "es @ (0x05, k, binary_value t bs) # (ty, k', v) # fs"
  from assms(1) obtain rest where doc: "doc_ok ?es"
    "m = int_object (int (doc_size ?es)) @ enc_body ?es @ 0 # rest" by (rule is_docE)
  define P where "P = int_object (int (doc_size ?es)) @ enc_body es @ 5 # k @ [0]"
  define Q where "Q = k' @ 0 # v @ enc_body fs @ 0 # rest"
  define L where "L = int_object (int (length bs))"
  have m: "m = P @ L @ (t # bs @ ty # Q)" "m = (P @ L @ t # bs) @ ty # Q"
    unfolding doc(2) by (simp_all add: P_def Q_def L_def binary_value_def)
  define p where "p = int (doc_size es) + int (length k) + 6"
  have p: "p - 5 = int (length P)" by (simp add: p_def P_def doc_size_def)
  have old: "read_unaligned_int m (p - 5) = Some (int (length bs))"
    unfolding m(1) L_def p using assms(2) by (subst read_int_object) (auto simp: short_def cint_simps)
  have nx: "rd m (p + int (length bs)) = Some ty"
    unfolding m(2) by (rule rd_at) (use p in \<open>simp add: L_def\<close>)
  have "value_ok ty v" using doc(1) by (simp add: doc_ok_def)
  then have "ty \<noteq> 0" by (rule value_ok_type_nz)
  then show ?thesis by (simp add: bson_shrink_binary_def old nx p_def [symmetric] Let_def)
qed

end
