(* ===== verification/Bson_Props.thy ===== *)
theory Bson_Props
  imports Bson_Safety
begin

text \<open>
  The properties of \<open>bson.c\<close>, over the lemmas of the theories before this one.
\<close>

section \<open>Concrete documents\<close>

definition ex_doc :: mem where
  "ex_doc = [19, 0, 0, 0,  0x10, 0x61, 0, 7, 0, 0, 0,  0x02, 0x62, 0, 1, 0, 0, 0, 0] @ [0, 0, 0]"

text \<open>Nineteen bytes declared, one element \<open>a\<close> and a string \<open>b\<close>; the last byte of the string is the
  end of the document, so it is not a well-formed document.\<close>

definition ex_elems :: "elem list" where
  "ex_elems = [(0x10, [0x61], [7, 0, 0, 0]), (0x02, [0x62], [1, 0, 0, 0, 0])]"

definition ex_mem :: mem where
  "ex_mem = [20, 0, 0, 0,  0x10, 0x61, 0, 7, 0, 0, 0,  0x02, 0x62, 0, 1, 0, 0, 0, 0,  0] @
     replicate 20 0"

lemma ex_mem_is_doc: "is_doc ex_mem ex_elems"
  by (simp add: is_doc_def ex_mem_def ex_elems_def doc_ok_def doc_size_def enc_body_def enc_doc_def
      value_ok_def name_ok_def int_object_def read_unaligned_int_def rd_def)

section \<open>Reading\<close>

text \<open>C1: \<open>bson_get_props\<close> on a well-formed document, whatever follows it in the buffer, returns the
  number of names found and sets every name's offset to that of the first element of the name, or
  to -1.\<close>

theorem bson_get_props_correct:
  assumes "is_doc m es" "distinct (map fst ps)" "keys_ok ps"
  shows "bson_get_props (Some m) ps =
    Some (int (length (filter (\<lambda>k. k \<in> names es) (map fst ps))),
          map (\<lambda>k. (k, first_off 4 es k)) (map fst ps))"
proof -
  have "0 \<le> first_off 4 es k \<longleftrightarrow> k \<in> names es" for k
    using first_off_present [of k es 4] first_off_absent [of k es 4] by (cases "k \<in> names es") auto
  with get_props_finds [OF assms] show ?thesis by simp
qed

theorem bson_get_props_correct_witness:
  "bson_get_props (Some ex_mem) [([0x62], 0), ([0x63], 0)] = Some (1, [([0x62], 11), ([0x63], -1)])"
  using bson_get_props_correct [OF ex_mem_is_doc, of "[([0x62], 0), ([0x63], 0)]"]
  by (simp add: ex_elems_def names_def keys_ok_def name_ok_def)

text \<open>C2: The readers are memory-safe on bytes nobody checked, as long as three bytes of the object
  lie behind the declared end: none of them leaves the object, whatever the bytes say.\<close>

theorem bson_readers_safe:
  assumes "read_unaligned_int m 0 = Some end" "end + 3 \<le> int (length m)" "\<forall>(k, off) \<in> set ps. 0 \<notin> set k"
  shows "bson_get_props (Some m) ps \<noteq> None \<and> bson_get_int32 (Some m) off d \<noteq> None \<and>
    bson_get_boolean (Some m) off d \<noteq> None \<and> bson_get_string (Some m) off \<noteq> None \<and>
    bson_get_binary (Some m) off \<noteq> None \<and> bson_get_subdocument (Some m) off \<noteq> None"
proof -
  have p: "padded m end" using assms(2) by (simp add: padded_def)
  have k: "keys_ok ps" using assms(3) by (auto simp: keys_ok_def name_ok_def)
  from get_props_defined [OF assms(1) p k] getters_defined [OF assms(1) p] show ?thesis by auto
qed

theorem bson_readers_safe_witness:
  "bson_get_props (Some ex_doc) [([0x63], 0)] \<noteq> None \<and> bson_get_string (Some ex_doc) 11 \<noteq> None"
proof -
  have "read_unaligned_int ex_doc 0 = Some 19" "int (length ex_doc) = 22"
    by (simp_all add: ex_doc_def read_unaligned_int_def rd_def)
  then show ?thesis
    using bson_readers_safe [where m = ex_doc and ps = "[([0x63], 0)]" and off = 11] by simp
qed

text \<open>Without the slack the search can read past the object: \<open>measure_value\<close> reads the four
  length bytes of a string whose type and name end one byte before the document does.\<close>

theorem bson_get_props_over_read:
  "\<exists>m. read_unaligned_int m 0 = Some (int (length m)) \<and> rd m (int (length m) - 1) = Some 0 \<and>
    bson_get_props (Some m) [(cstr ''x'', 0)] = None"
  by (rule exI [of _ "[8, 0, 0, 0, 2, 0x61, 0, 0]"])
     (simp add: read_unaligned_int_def bson_get_props_def rd_def bson_scan.simps skip_cstring_def
       measure_value_def cstr_def c_strnlen_numeral Let_def)

section \<open>Writing\<close>

text \<open>C3: A string set under a new name of any document is found under that name and reads back
  byte for byte; the writer returns the size it measured, the result is a document with the element
  appended and the rest of the buffer is untouched.\<close>

theorem bson_string_round_trip:
  assumes "is_doc m es" "k \<notin> names es" "0 \<notin> set k" "0 \<notin> set s" "length s < 2147483000"
    "bson_measure_string k s = Some n" "int (doc_size es) + n \<le> int (length m)"
    "int (doc_size es) + n < 2147483648"
  shows "\<exists>m' off p. bson_set_string (Some m) k s = Some (Some m', n) \<and>
    is_doc m' (es @ [(0x02, k, string_value s)]) \<and>
    drop (doc_size es + nat n) m' = drop (doc_size es + nat n) m \<and>
    bson_get_props (Some m') [(k, 0)] = Some (1, [(k, off)]) \<and>
    bson_get_string (Some m') off = Some (Some p) \<and> c_string m' p = Some s"
proof -
  let ?e = "(0x02, k, string_value s) :: elem"
  have ok: "name_ok k" "name_ok s" "short s" using assms(3-5) by (simp_all add: name_ok_def short_def)
  have n: "n = elem_size ?e"
    using assms(6) str.measures [OF ok(3), of k] by (simp add: bson_measure_string_def)
  have f: "fits m es ?e" using assms(7,8) by (simp add: fits_def n)
  from set_string_string [OF assms(1,2) ok f, of 0] obtain m' off p where
    m': "bson_set_string (Some m) k s = Some (Some m', elem_size ?e)"
    "bson_get_props (Some m') [(k, 0)] = Some (1, [(k, off)])"
    "bson_get_string (Some m') off = Some (Some p)" "c_string m' p = Some s" by blast
  from str.appends [OF ok(3,1) assms(1) f] m'(1) have "appended m m' es ?e" by simp
  moreover have "doc_size (es @ [?e]) = doc_size es + nat n" by (simp add: doc_size_simps n nat_add_distrib)
  ultimately show ?thesis using m' by (auto simp: appended_def n)
qed

theorem bson_string_round_trip_witness:
  "\<exists>m' off p. bson_set_string (Some ex_mem) [0x63] [0x68, 0x69] = Some (Some m', 10) \<and>
    bson_get_string (Some m') off = Some (Some p) \<and> c_string m' p = Some [0x68, 0x69]"
proof -
  have "[0x63] \<notin> names ex_elems" "bson_measure_string [0x63] [0x68, 0x69] = Some 10"
    "int (doc_size ex_elems) + 10 \<le> int (length ex_mem)" "int (doc_size ex_elems) + 10 < 2147483648"
    by (simp_all add: ex_elems_def ex_mem_def names_def bson_measure_string_def bson_set_string_def
        doc_size_def)
  then show ?thesis
    using bson_string_round_trip [OF ex_mem_is_doc, of "[0x63]" "[0x68, 0x69]" 10] by auto
qed

text \<open>What \<open>bson_set_element\<close> passes on for an element at its offset.\<close>

lemma set_element_at:
  assumes "elem_at m2 es2 off (ty, k2, v)"
  shows "\<exists>q. (\<forall>doc k. bson_set_element doc k (Some m2) off = set_subelement doc k ty m2 q (int (length v))) \<and>
    rd_block m2 q (int (length v)) = Some v \<and> value_ok ty v"
proof -
  from assms obtain pre rest where *: "m2 = pre @ ty # k2 @ 0 # v @ rest" "off = int (length pre)"
    "4 \<le> off" "off + 2 + int (length k2) + int (length v) < int (doc_size es2)" "name_ok k2"
    "value_ok ty v"
    "read_unaligned_int m2 0 = Some (int (doc_size es2))" "rd m2 (int (doc_size es2) - 1) = Some 0"
    by (rule elem_atE)
  define q where "q = off + 1 + int (length k2) + 1"
  have ty: "rd m2 off = Some ty" unfolding *(1) using *(2) by (rule rd_at)
  have sk: "skip_cstring m2 (off + 1) (int (doc_size es2)) = Some (Some q)"
    using skip_cstring_nul [of k2 "off + 1" "pre @ [ty]" _ "v @ rest"] * by (simp add: name_ok_def q_def)
  have m2: "m2 = (pre @ ty # k2 @ [0]) @ v @ rest" using *(1) by simp
  have mv: "measure_value m2 ty q (int (doc_size es2)) = Some (int (length v))"
    unfolding m2 by (rule measure_value_ok) (use * in \<open>auto simp: q_def\<close>)
  have "rd_block m2 q (int (length v)) = Some v"
    unfolding m2 by (rule rd_block_at) (use * in \<open>auto simp: q_def\<close>)
  then show ?thesis
    using * ty sk mv by (intro exI [of _ q]) (simp add: bson_set_element_def)
qed

lemma set_element_copies:
  assumes "is_doc m es" "elem_at m2 es2 off (ty, k2, v)" "name_ok k" "fits m es (ty, k, v)"
  shows "\<exists>m'. bson_set_element (Some m) k (Some m2) off = Some (Some m', elem_size (ty, k, v)) \<and>
    appended m m' es (ty, k, v)"
proof -
  from set_element_at [OF assms(2)] obtain q where
    q: "bson_set_element (Some m) k (Some m2) off = set_subelement (Some m) k ty m2 q (int (length v))"
      "rd_block m2 q (int (length v)) = Some v" "value_ok ty v" by blast
  show ?thesis
    unfolding q(1) by (rule set_subelement_appends [OF assms(1,4) _ q(2) refl]) (use assms(3) q(3) in simp)
qed

lemma set_element_measures:
  "elem_at m2 es2 off (ty, k2, v) \<Longrightarrow>
   bson_set_element None k (Some m2) off = Some (None, elem_size (ty, k, v))"
  using set_element_at [of m2 es2 off ty k2 v] set_subelement_measures by auto

text \<open>\<open>bson_set_element\<close> copies an element of any type from one document to another under a new
  name, value bytes unchanged, and the target stays a document.\<close>

theorem bson_set_element_copies:
  assumes "is_doc m es" "is_doc m2 (fs @ (ty, k2, v) # gs)" "0 \<notin> set k"
    "int (doc_size es) + 2 + int (length k) + int (length v) \<le> int (length m)"
    "int (doc_size es) + 2 + int (length k) + int (length v) < 2147483648"
  shows "\<exists>m'. bson_set_element (Some m) k (Some m2) (int (doc_size fs) - 1) =
      Some (Some m', 2 + int (length k) + int (length v)) \<and>
    is_doc m' (es @ [(ty, k, v)]) \<and> length m' = length m"
proof -
  have "elem_at m2 (fs @ (ty, k2, v) # gs) (int (doc_size fs) - 1) (ty, k2, v)"
    using assms(2) by (fastforce simp: elem_at_def doc_size_def)
  from set_element_copies [OF assms(1) this, of k] assms(3-5) show ?thesis
    by (auto simp: name_ok_def fits_def appended_def)
qed

theorem bson_set_element_copies_witness:
  "\<exists>m'. bson_set_element (Some ex_mem) [0x63] (Some ex_mem) 4 = Some (Some m', 7) \<and>
    is_doc m' (ex_elems @ [(0x10, [0x63], [7, 0, 0, 0])])"
  using bson_set_element_copies [OF ex_mem_is_doc, of ex_mem "[]" "0x10" "[0x61]" "[7, 0, 0, 0]"
      "[(0x02, [0x62], [1, 0, 0, 0, 0])]" "[0x63]"] ex_mem_is_doc
  by (auto simp: ex_elems_def ex_mem_def doc_size_def)

text \<open>\<open>bson_shrink_binary\<close> on the last element of a document cuts the binary to its first \<open>n\<close>
  bytes and leaves a document; on any other element it changes nothing and returns -1.\<close>

theorem bson_shrink_binary_correct:
  assumes "is_doc m (es @ (0x05, k, binary_value t bs) # fs)" "length bs < 2147483000"
    "0 \<le> n" "n < int (length bs)"
  shows "if fs = [] then
      \<exists>m'. bson_shrink_binary m (int (doc_size es) + int (length k) + 6) n = Some (m', 0) \<and>
        is_doc m' (es @ [(0x05, k, binary_value t (take (nat n) bs))]) \<and> length m' = length m
    else bson_shrink_binary m (int (doc_size es) + int (length k) + 6) n = Some (m, -1)"
proof (cases fs)
  case Nil
  with assms show ?thesis using shrink_last_binary [of m es k t bs n] by (simp add: short_def)
next
  case (Cons f fs')
  obtain ty k' v where "f = (ty, k', v)" by (cases f)
  with Cons assms show ?thesis using shrink_not_last [of m es k t bs ty k' v fs' n] by (simp add: short_def)
qed

theorem bson_shrink_binary_correct_witness:
  "\<exists>m'. bson_shrink_binary ([16, 0, 0, 0, 5, 0x62, 0, 3, 0, 0, 0, 0, 9, 8, 7] @ [0]) 12 2 = Some (m', 0) \<and>
      is_doc m' [(0x05, [0x62], binary_value 0 [9, 8])]"
proof -
  have d: "is_doc ([16, 0, 0, 0, 5, 0x62, 0, 3, 0, 0, 0, 0, 9, 8, 7] @ [0])
      ([] @ (0x05, [0x62], binary_value 0 [9, 8, 7]) # [])"
    by (simp add: is_doc_def binary_value_def doc_ok_def doc_size_def enc_body_def enc_doc_def
        value_ok_def name_ok_def int_object_def read_unaligned_int_def rd_def)
  from bson_shrink_binary_correct [OF d, of 2] show ?thesis
    by (force simp: doc_size_def)
qed

end
