(* ===== verification/Crc32.thy ===== *)
theory Crc32
  imports Prelude
begin

text \<open>
  \<open>services/src/crc32.c\<close>: the table the file holds, the table \<open>digest_crc32_init\<close> computes when it is
  built without the static one, and the digest. The reference is the bit-serial division by the
  reflected polynomial.
\<close>

section \<open>The code\<close>

definition crc32_table :: "u32 list" where
  "crc32_table =
    [0x00000000, 0x77073096, 0xee0e612c, 0x990951ba, 0x076dc419, 0x706af48f, 0xe963a535, 0x9e6495a3,
     0x0edb8832, 0x79dcb8a4, 0xe0d5e91e, 0x97d2d988, 0x09b64c2b, 0x7eb17cbd, 0xe7b82d07, 0x90bf1d91,
     0x1db71064, 0x6ab020f2, 0xf3b97148, 0x84be41de, 0x1adad47d, 0x6ddde4eb, 0xf4d4b551, 0x83d385c7,
     0x136c9856, 0x646ba8c0, 0xfd62f97a, 0x8a65c9ec, 0x14015c4f, 0x63066cd9, 0xfa0f3d63, 0x8d080df5,
     0x3b6e20c8, 0x4c69105e, 0xd56041e4, 0xa2677172, 0x3c03e4d1, 0x4b04d447, 0xd20d85fd, 0xa50ab56b,
     0x35b5a8fa, 0x42b2986c, 0xdbbbc9d6, 0xacbcf940, 0x32d86ce3, 0x45df5c75, 0xdcd60dcf, 0xabd13d59,
     0x26d930ac, 0x51de003a, 0xc8d75180, 0xbfd06116, 0x21b4f4b5, 0x56b3c423, 0xcfba9599, 0xb8bda50f,
     0x2802b89e, 0x5f058808, 0xc60cd9b2, 0xb10be924, 0x2f6f7c87, 0x58684c11, 0xc1611dab, 0xb6662d3d,
     0x76dc4190, 0x01db7106, 0x98d220bc, 0xefd5102a, 0x71b18589, 0x06b6b51f, 0x9fbfe4a5, 0xe8b8d433,
     0x7807c9a2, 0x0f00f934, 0x9609a88e, 0xe10e9818, 0x7f6a0dbb, 0x086d3d2d, 0x91646c97, 0xe6635c01,
     0x6b6b51f4, 0x1c6c6162, 0x856530d8, 0xf262004e, 0x6c0695ed, 0x1b01a57b, 0x8208f4c1, 0xf50fc457,
     0x65b0d9c6, 0x12b7e950, 0x8bbeb8ea, 0xfcb9887c, 0x62dd1ddf, 0x15da2d49, 0x8cd37cf3, 0xfbd44c65,
     0x4db26158, 0x3ab551ce, 0xa3bc0074, 0xd4bb30e2, 0x4adfa541, 0x3dd895d7, 0xa4d1c46d, 0xd3d6f4fb,
     0x4369e96a, 0x346ed9fc, 0xad678846, 0xda60b8d0, 0x44042d73, 0x33031de5, 0xaa0a4c5f, 0xdd0d7cc9,
     0x5005713c, 0x270241aa, 0xbe0b1010, 0xc90c2086, 0x5768b525, 0x206f85b3, 0xb966d409, 0xce61e49f,
     0x5edef90e, 0x29d9c998, 0xb0d09822, 0xc7d7a8b4, 0x59b33d17, 0x2eb40d81, 0xb7bd5c3b, 0xc0ba6cad,
     0xedb88320, 0x9abfb3b6, 0x03b6e20c, 0x74b1d29a, 0xead54739, 0x9dd277af, 0x04db2615, 0x73dc1683,
     0xe3630b12, 0x94643b84, 0x0d6d6a3e, 0x7a6a5aa8, 0xe40ecf0b, 0x9309ff9d, 0x0a00ae27, 0x7d079eb1,
     0xf00f9344, 0x8708a3d2, 0x1e01f268, 0x6906c2fe, 0xf762575d, 0x806567cb, 0x196c3671, 0x6e6b06e7,
     0xfed41b76, 0x89d32be0, 0x10da7a5a, 0x67dd4acc, 0xf9b9df6f, 0x8ebeeff9, 0x17b7be43, 0x60b08ed5,
     0xd6d6a3e8, 0xa1d1937e, 0x38d8c2c4, 0x4fdff252, 0xd1bb67f1, 0xa6bc5767, 0x3fb506dd, 0x48b2364b,
     0xd80d2bda, 0xaf0a1b4c, 0x36034af6, 0x41047a60, 0xdf60efc3, 0xa867df55, 0x316e8eef, 0x4669be79,
     0xcb61b38c, 0xbc66831a, 0x256fd2a0, 0x5268e236, 0xcc0c7795, 0xbb0b4703, 0x220216b9, 0x5505262f,
     0xc5ba3bbe, 0xb2bd0b28, 0x2bb45a92, 0x5cb36a04, 0xc2d7ffa7, 0xb5d0cf31, 0x2cd99e8b, 0x5bdeae1d,
     0x9b64c2b0, 0xec63f226, 0x756aa39c, 0x026d930a, 0x9c0906a9, 0xeb0e363f, 0x72076785, 0x05005713,
     0x95bf4a82, 0xe2b87a14, 0x7bb12bae, 0x0cb61b38, 0x92d28e9b, 0xe5d5be0d, 0x7cdcefb7, 0x0bdbdf21,
     0x86d3d2d4, 0xf1d4e242, 0x68ddb3f8, 0x1fda836e, 0x81be16cd, 0xf6b9265b, 0x6fb077e1, 0x18b74777,
     0x88085ae6, 0xff0f6a70, 0x66063bca, 0x11010b5c, 0x8f659eff, 0xf862ae69, 0x616bffd3, 0x166ccf45,
     0xa00ae278, 0xd70dd2ee, 0x4e048354, 0x3903b3c2, 0xa7672661, 0xd06016f7, 0x4969474d, 0x3e6e77db,
     0xaed16a4a, 0xd9d65adc, 0x40df0b66, 0x37d83bf0, 0xa9bcae53, 0xdebb9ec5, 0x47b2cf7f, 0x30b5ffe9,
     0xbdbdf21c, 0xcabac28a, 0x53b39330, 0x24b4a3a6, 0xbad03605, 0xcdd70693, 0x54de5729, 0x23d967bf,
     0xb3667a2e, 0xc4614ab8, 0x5d681b02, 0x2a6f2b94, 0xb40bbe37, 0xc30c8ea1, 0x5a05df1b, 0x2d02ef8d]"

text \<open>One turn of the inner loop over \<open>j\<close>, the inner loop and the outer one.\<close>

definition crc32_shift :: "u32 \<Rightarrow> u32" where
  "crc32_shift c = (if c AND 1 \<noteq> 0 then 0xedb88320 XOR drop_bit 1 c else drop_bit 1 c)"

definition digest_crc32_init :: "u32 list" where
  "digest_crc32_init = map (\<lambda>i. (crc32_shift ^^ 8) (of_nat i)) [0..<256]"

text \<open>The loop over the message: \<open>n\<close> bytes are left and \<open>buf\<close> is at \<open>p\<close>.\<close>

fun crc32_loop :: "u32 list \<Rightarrow> mem \<Rightarrow> int \<Rightarrow> nat \<Rightarrow> u32 \<Rightarrow> u32 option" where
  "crc32_loop tbl m p 0 c = Some c"
| "crc32_loop tbl m p (Suc n) c =
     do { b \<leftarrow> rd m p;
          crc32_loop tbl m (p + 1) n
            (tbl ! unat ((c XOR ucast b) AND 0xff) XOR drop_bit 8 c) }"

definition digest_crc32_calc :: "u32 list \<Rightarrow> mem \<Rightarrow> int \<Rightarrow> u32 option" where
  "digest_crc32_calc tbl m len =
     map_option (\<lambda>c. c XOR 0xffffffff) (crc32_loop tbl m 0 (nat len) 0xffffffff)"

section \<open>The reference\<close>

definition crc32_byte :: "u32 \<Rightarrow> byte \<Rightarrow> u32" where
  "crc32_byte c b = (crc32_shift ^^ 8) (c XOR ucast b)"

definition crc32_spec :: "byte list \<Rightarrow> u32" where
  "crc32_spec bs = NOT (foldl crc32_byte (NOT 0) bs)"

section \<open>The shift is linear and injective\<close>

lemma crc32_shift_odd: "crc32_shift c = (if odd c then 0xedb88320 XOR drop_bit 1 c else drop_bit 1 c)"
  by (simp add: crc32_shift_def and_one_eq odd_iff_mod_2_eq_one)

lemma xor_eq_0_word: "a XOR b = 0 \<Longrightarrow> a = (b :: 'a::len word)"
proof (rule bit_word_eqI)
  fix n assume "a XOR b = 0"
  then have "\<not> bit (a XOR b) n" by simp
  then show "bit a n \<longleftrightarrow> bit b n" by (simp add: bit_xor_iff)
qed

lemma xor_cancel: "a XOR b = a XOR c \<Longrightarrow> b = (c :: 'a::len word)"
proof -
  assume "a XOR b = a XOR c"
  then have "a XOR (a XOR b) = a XOR (a XOR c)" by simp
  then show ?thesis by (simp add: xor.assoc [symmetric])
qed

lemma crc32_shift_xor: "crc32_shift (a XOR b) = crc32_shift a XOR crc32_shift b"
proof -
  have "odd (a XOR b) \<longleftrightarrow> odd a \<noteq> odd b" by (metis bit_0 bit_xor_iff)
  then show ?thesis by (auto simp: crc32_shift_odd drop_bit_xor ac_simps)
qed

lemma crc32_shifts_xor: "(crc32_shift ^^ n) (a XOR b) = (crc32_shift ^^ n) a XOR (crc32_shift ^^ n) b"
  by (induction n) (simp_all add: crc32_shift_xor)

lemma crc32_shift_push:
  assumes "\<forall>n \<ge> 31. \<not> bit c n"
  shows "crc32_shift (push_bit 1 c) = c"
proof -
  have "drop_bit 1 (push_bit 1 c) = c"
  proof (rule bit_word_eqI)
    fix n
    show "bit (drop_bit 1 (push_bit 1 c)) n = bit c n"
      unfolding bit_drop_bit_eq o_def bit_push_bit_iff using assms by (cases "n < 31") auto
  qed
  then show ?thesis by (simp add: crc32_shift_odd)
qed

lemma crc32_shifts_push:
  "\<forall>n \<ge> 32 - k. \<not> bit c n \<Longrightarrow> k \<le> 32 \<Longrightarrow> (crc32_shift ^^ k) (push_bit k c) = c"
proof (induction k)
  case (Suc k)
  have "(crc32_shift ^^ Suc k) (push_bit (Suc k) c) = (crc32_shift ^^ k) (crc32_shift (push_bit 1 (push_bit k c)))"
    by (simp add: funpow_swap1 push_bit_push_bit)
  also have "crc32_shift (push_bit 1 (push_bit k c)) = push_bit k c"
    by (rule crc32_shift_push) (use Suc.prems in \<open>auto simp: bit_push_bit_iff\<close>)
  finally have "(crc32_shift ^^ Suc k) (push_bit (Suc k) c) = (crc32_shift ^^ k) (push_bit k c)" .
  moreover have "(crc32_shift ^^ k) (push_bit k c) = c"
    by (rule Suc.IH) (use Suc.prems in auto)
  ultimately show ?case by simp
qed simp

lemma crc32_shift_zero:
  assumes "crc32_shift c = 0"
  shows "c = 0"
proof -
  have "even c"
  proof (rule ccontr)
    assume "odd c"
    then have "crc32_shift c = 0xedb88320 XOR drop_bit 1 c" by (simp add: crc32_shift_odd)
    moreover have "bit (0xedb88320 XOR drop_bit 1 c) 31" by (auto simp: bit_xor_iff bit_drop_bit_eq dest: bit_imp_le_length)
    ultimately show False using assms by simp
  qed
  with assms have "drop_bit 1 c = 0" by (simp add: crc32_shift_odd)
  moreover have "c = push_bit 1 (drop_bit 1 c)"
    using \<open>even c\<close> div_mult_mod_eq [of c 2]
    by (simp add: push_bit_eq_mult drop_bit_eq_div even_iff_mod_2_eq_zero)
  ultimately show ?thesis by simp
qed

lemma crc32_shift_inj: "crc32_shift a = crc32_shift b \<Longrightarrow> a = b"
  by (rule xor_eq_0_word, rule crc32_shift_zero) (simp add: crc32_shift_xor)

lemma crc32_shifts_inj: "(crc32_shift ^^ n) a = (crc32_shift ^^ n) b \<Longrightarrow> a = b"
  by (induction n) (auto dest: crc32_shift_inj)

section \<open>The digest is the reference\<close>

lemma crc32_init_nth: "i < 256 \<Longrightarrow> digest_crc32_init ! i = (crc32_shift ^^ 8) (of_nat i)"
  by (simp add: digest_crc32_init_def del: upt_conv_Cons)

lemma low_byte_split: "c = (c AND 0xff) XOR push_bit 8 (drop_bit 8 (c :: u32))"
proof (rule bit_word_eqI)
  fix n
  have "bit (0xff :: u32) n \<longleftrightarrow> n < 8"
  proof -
    have "(0xff :: u32) = mask 8" by (simp add: mask_eq_exp_minus_1)
    then show ?thesis by (simp only: bit_mask_iff) auto
  qed
  then show "bit c n = bit ((c AND 0xff) XOR push_bit 8 (drop_bit 8 c)) n"
    by (cases "n < 8") (auto simp: bit_simps dest: bit_imp_le_length)
qed

lemma low_byte_less: "unat ((c :: u32) AND 0xff) < 256"
proof -
  have "c AND 0xff \<le> 0xff" by (rule word_and_le1)
  then show ?thesis by (simp add: word_le_nat_alt)
qed

lemma drop8_byte: "drop_bit 8 ((c :: u32) XOR ucast (b :: byte)) = drop_bit 8 c"
  by (rule bit_word_eqI) (auto simp: bit_simps dest: bit_imp_le_length)

lemma crc32_table_step:
  "digest_crc32_init ! unat ((c XOR ucast b) AND 0xff) XOR drop_bit 8 c = crc32_byte c b"
proof -
  define x where "x = c XOR ucast b"
  have "crc32_byte c b = (crc32_shift ^^ 8) ((x AND 0xff) XOR push_bit 8 (drop_bit 8 x))"
    using low_byte_split [of x] by (simp add: crc32_byte_def x_def)
  also have "\<dots> = (crc32_shift ^^ 8) (x AND 0xff) XOR (crc32_shift ^^ 8) (push_bit 8 (drop_bit 8 x))"
    by (rule crc32_shifts_xor)
  also have "(crc32_shift ^^ 8) (push_bit 8 (drop_bit 8 x)) = drop_bit 8 x"
    by (rule crc32_shifts_push) (auto simp: bit_simps dest: bit_imp_le_length)
  also have "(crc32_shift ^^ 8) (x AND 0xff) = digest_crc32_init ! unat (x AND 0xff)"
    by (simp add: crc32_init_nth [OF low_byte_less] of_nat_unat del: funpow.simps)
  finally show ?thesis by (simp only: x_def drop8_byte)
qed

lemma crc32_loop_spec:
  "p = int (length pre) \<Longrightarrow>
   crc32_loop digest_crc32_init (pre @ bs @ post) p (length bs) c = Some (foldl crc32_byte c bs)"
proof (induction bs arbitrary: pre p c)
  case (Cons b bs)
  have "rd (pre @ (b # bs) @ post) p = Some b" using Cons.prems by (simp add: rd_at)
  moreover have "crc32_loop digest_crc32_init ((pre @ [b]) @ bs @ post) (p + 1) (length bs)
      (crc32_byte c b) = Some (foldl crc32_byte (crc32_byte c b) bs)"
    by (rule Cons.IH) (simp add: Cons.prems)
  ultimately show ?case by (simp add: crc32_table_step)
qed simp

lemma xor_all_ones: "(c :: u32) XOR 0xffffffff = NOT c" "(- 1 :: u32) = 0xffffffff"
proof -
  show *: "(- 1 :: u32) = 0xffffffff" by simp
  show "c XOR 0xffffffff = NOT c" unfolding * [symmetric] by simp
qed

lemma crc32_calc_spec:
  "digest_crc32_calc digest_crc32_init (bs @ post) (int (length bs)) = Some (crc32_spec bs)"
  using crc32_loop_spec [of 0 "[]" bs post "0xffffffff"]
  by (simp add: digest_crc32_calc_def crc32_spec_def xor_all_ones)

lemma crc32_fold_inj: "foldl crc32_byte c bs = foldl crc32_byte d bs \<Longrightarrow> c = d"
proof (induction bs arbitrary: c d)
  case (Cons b bs)
  then have "crc32_byte c b = crc32_byte d b" by simp
  then have "c XOR ucast b = d XOR ucast b" unfolding crc32_byte_def by (rule crc32_shifts_inj)
  then have "(c XOR ucast b) XOR ucast b = (d XOR ucast b) XOR ucast b" by simp
  then show ?case by (simp add: xor.assoc)
qed simp

text \<open>The table by doubling: each power of two adds its own row to all the rows before it.\<close>

definition crc32_double :: "u32 \<Rightarrow> u32 list \<Rightarrow> u32 list" where
  "crc32_double t ts = ts @ map (\<lambda>x. t XOR x) ts"

lemma funpow_numeral: "(f ^^ numeral k) x = f ((f ^^ pred_numeral k) x)"
  by (simp add: numeral_eq_Suc)

lemma crc32_rows:
  "(crc32_shift ^^ 8) 1 = 0x77073096" "(crc32_shift ^^ 8) 2 = 0xee0e612c"
  "(crc32_shift ^^ 8) 4 = 0x076dc419" "(crc32_shift ^^ 8) 8 = 0x0edb8832"
  "(crc32_shift ^^ 8) 16 = 0x1db71064" "(crc32_shift ^^ 8) 32 = 0x3b6e20c8"
  "(crc32_shift ^^ 8) 64 = 0x76dc4190" "(crc32_shift ^^ 8) 128 = 0xedb88320"
  by (simp_all add: crc32_shift_def funpow_numeral)

lemma crc32_double_upt:
  assumes "n = 2 ^ k" "k < 32"
  shows "map (\<lambda>i. (crc32_shift ^^ 8) (of_nat i)) [0..<n + n] =
    crc32_double ((crc32_shift ^^ 8) (of_nat n)) (map (\<lambda>i. (crc32_shift ^^ 8) (of_nat i)) [0..<n])"
proof -
  have "of_nat i + of_nat n = (of_nat n XOR of_nat i :: u32)" if "i < n" for i
  proof -
    have "bit i j \<Longrightarrow> j < k" for j
    proof -
      have "take_bit k i = i" using that assms(1) by (simp add: take_bit_nat_eq_self)
      then show "bit i j \<Longrightarrow> j < k" by (metis bit_take_bit_iff)
    qed
    then have "(2 ^ k AND of_nat i :: u32) = 0"
      by (intro bit_word_eqI) (auto simp: bit_simps)
    then show ?thesis
      using assms(1) by (simp add: disjunctive_add_eq_xor [symmetric])
  qed
  then show ?thesis
    by (simp add: crc32_double_def upt_add_eq_append [of 0 n n, simplified] map_add_upt [symmetric]
        crc32_shifts_xor comp_def del: funpow.simps)
qed

lemma crc32_init_doubled:
  "digest_crc32_init = crc32_double 0xedb88320 (crc32_double 0x76dc4190 (crc32_double 0x3b6e20c8
    (crc32_double 0x1db71064 (crc32_double 0x0edb8832 (crc32_double 0x076dc419
    (crc32_double 0xee0e612c (crc32_double 0x77073096 [0])))))))"
proof -
  define r where "r n = map (\<lambda>i. (crc32_shift ^^ 8) (of_nat i)) [0..<n]" for n
  have d: "r (n + n) = crc32_double ((crc32_shift ^^ 8) (of_nat n)) (r n)" if "n = 2 ^ k" "k < 32" for n k
    unfolding r_def using that by (rule crc32_double_upt)
  have "r 1 = [0]" by (simp add: r_def crc32_shift_def funpow_numeral)
  then have "r 2 = crc32_double 0x77073096 [0]" using d [of 1 0] crc32_rows by (simp add: numeral_2_eq_2)
  then have "r 4 = crc32_double 0xee0e612c (crc32_double 0x77073096 [0])"
    using d [of 2 1] crc32_rows by simp
  then show ?thesis
    using d [of 4 2] d [of 8 3] d [of 16 4] d [of 32 5] d [of 64 6] d [of 128 7] crc32_rows
    by (simp add: digest_crc32_init_def r_def [symmetric])
qed

lemma crc32_table_eq: "crc32_table = digest_crc32_init"
  unfolding crc32_init_doubled crc32_table_def crc32_double_def by simp

section \<open>Properties\<close>

text \<open>The static table is the one \<open>digest_crc32_init\<close> computes, so both builds of the file are the
  same function.\<close>

theorem crc32_tables_agree: "crc32_table = digest_crc32_init"
  by (rule crc32_table_eq)

text \<open>C4: \<open>digest_crc32_calc\<close> returns, without leaving the message, the remainder of bit-serial
  division, and it detects every change of a single byte: two messages of one length that differ in
  at most one byte have the same digest only if they are equal.\<close>

theorem crc32_calc_correct:
  "digest_crc32_calc crc32_table (bs @ post) (int (length bs)) = Some (crc32_spec bs) \<and>
   (digest_crc32_calc crc32_table (xs @ b # ys) (int (length (xs @ b # ys))) =
    digest_crc32_calc crc32_table (xs @ c # ys) (int (length (xs @ c # ys))) \<longleftrightarrow> b = c)"
proof -
  have "b = c" if "crc32_spec (xs @ b # ys) = crc32_spec (xs @ c # ys)"
  proof -
    from that have "NOT (crc32_spec (xs @ b # ys)) = NOT (crc32_spec (xs @ c # ys))" by simp
    then have "crc32_byte (foldl crc32_byte (NOT 0) xs) b = crc32_byte (foldl crc32_byte (NOT 0) xs) c"
      by (auto simp: crc32_spec_def simp del: bit.compl_zero intro: crc32_fold_inj)
    then have "foldl crc32_byte (NOT 0) xs XOR ucast b = foldl crc32_byte (NOT 0) xs XOR ucast c"
      unfolding crc32_byte_def by (rule crc32_shifts_inj)
    then have e: "(ucast b :: u32) = ucast c" by (rule xor_cancel)
    show "b = c"
    proof (rule bit_word_eqI)
      fix n assume "n < LENGTH(8)"
      from e have "bit (ucast b :: u32) n = bit (ucast c :: u32) n" by simp
      with \<open>n < LENGTH(8)\<close> show "bit b n = bit c n" by (simp add: bit_simps)
    qed
  qed
  then show ?thesis
    unfolding crc32_table_eq crc32_calc_spec [of _ "[]", simplified] crc32_calc_spec by auto
qed

end
