(* ===== verification/Md5.thy ===== *)
theory Md5
  imports Prelude
begin

text \<open>
  \<open>services/src/md5.c\<close> with the static table, against RFC 1321: the padding rule, the four rounds
  with the RFC's list of words and shifts, and the digest of every message below 268435456 bytes (the code
  keeps the length in bits in an \<open>int\<close>).
\<close>

section \<open>The code\<close>

type_synonym md5_state = "u32 \<times> u32 \<times> u32 \<times> u32"

definition md5_table1 :: "nat list" where
  "md5_table1 =
    [7, 12, 17, 22, 7, 12, 17, 22, 7, 12, 17, 22, 7, 12, 17, 22,
     5, 9, 14, 20, 5, 9, 14, 20, 5, 9, 14, 20, 5, 9, 14, 20,
     4, 11, 16, 23, 4, 11, 16, 23, 4, 11, 16, 23, 4, 11, 16, 23,
     6, 10, 15, 21, 6, 10, 15, 21, 6, 10, 15, 21, 6, 10, 15, 21]"

definition md5_table2 :: "u32 list" where
  "md5_table2 =
    [0xd76aa478, 0xe8c7b756, 0x242070db, 0xc1bdceee,
     0xf57c0faf, 0x4787c62a, 0xa8304613, 0xfd469501,
     0x698098d8, 0x8b44f7af, 0xffff5bb1, 0x895cd7be,
     0x6b901122, 0xfd987193, 0xa679438e, 0x49b40821,
     0xf61e2562, 0xc040b340, 0x265e5a51, 0xe9b6c7aa,
     0xd62f105d, 0x02441453, 0xd8a1e681, 0xe7d3fbc8,
     0x21e1cde6, 0xc33707d6, 0xf4d50d87, 0x455a14ed,
     0xa9e3e905, 0xfcefa3f8, 0x676f02d9, 0x8d2a4c8a,
     0xfffa3942, 0x8771f681, 0x6d9d6122, 0xfde5380c,
     0xa4beea44, 0x4bdecfa9, 0xf6bb4b60, 0xbebfbc70,
     0x289b7ec6, 0xeaa127fa, 0xd4ef3085, 0x04881d05,
     0xd9d4d039, 0xe6db99e5, 0x1fa27cf8, 0xc4ac5665,
     0xf4292244, 0x432aff97, 0xab9423a7, 0xfc93a039,
     0x655b59c3, 0x8f0ccc92, 0xffeff47d, 0x85845dd1,
     0x6fa87e4f, 0xfe2ce6e0, 0xa3014314, 0x4e0811a1,
     0xf7537e82, 0xbd3af235, 0x2ad7d2bb, 0xeb86d391]"

definition left_rotate :: "u32 \<Rightarrow> nat \<Rightarrow> u32" where
  "left_rotate value shift = push_bit shift value OR drop_bit (32 - shift) value"

text \<open>\<open>input_bytes\<close> is the object it points into and the offset there.\<close>

definition md5_input :: "mem \<Rightarrow> int \<Rightarrow> nat \<Rightarrow> u32 option" where
  "md5_input src p g =
     do { b0 \<leftarrow> rd src (p + int (g * 4)); b1 \<leftarrow> rd src (p + int (g * 4) + 1);
          b2 \<leftarrow> rd src (p + int (g * 4) + 2); b3 \<leftarrow> rd src (p + int (g * 4) + 3);
          Some (ucast b0 OR push_bit 8 (ucast b1) OR push_bit 16 (ucast b2) OR push_bit 24 (ucast b3)) }"

definition md5_select :: "nat \<Rightarrow> u32 \<Rightarrow> u32 \<Rightarrow> u32 \<Rightarrow> u32 \<times> nat" where
  "md5_select i B C D =
     (if i < 16 then ((B AND C) OR (NOT B AND D), i)
      else if i < 32 then ((D AND B) OR (NOT D AND C), (5 * i + 1) AND 15)
      else if i < 48 then (B XOR C XOR D, (3 * i + 5) AND 15)
      else (C XOR (B OR NOT D), (7 * i) AND 15))"

fun md5_op :: "mem \<Rightarrow> int \<Rightarrow> nat \<Rightarrow> md5_state \<Rightarrow> md5_state option" where
  "md5_op src p i (A, B, C, D) =
     (let (F, g) = md5_select i B C D in
      do { input \<leftarrow> md5_input src p g;
           Some (D, B + left_rotate (A + F + md5_table2 ! i + input) (md5_table1 ! i), B, C) })"

fun md5_ops :: "mem \<Rightarrow> int \<Rightarrow> nat list \<Rightarrow> md5_state \<Rightarrow> md5_state option" where
  "md5_ops src p [] st = Some st"
| "md5_ops src p (i # is) st = do { st \<leftarrow> md5_op src p i st; md5_ops src p is st }"

fun md5_add :: "md5_state \<Rightarrow> md5_state \<Rightarrow> md5_state" where
  "md5_add (a0, b0, c0, d0) (A, B, C, D) = (a0 + A, b0 + B, c0 + C, d0 + D)"

text \<open>The chunk that is not all message: \<open>temp\<close> after the \<open>else\<close> branch.\<close>

definition md5_temp :: "mem \<Rightarrow> int \<Rightarrow> int \<Rightarrow> int \<Rightarrow> mem option" where
  "md5_temp m buf len total_bits =
     do { temp \<leftarrow> Some (replicate 64 0);
          temp \<leftarrow> (if 0 \<le> len then do { bs \<leftarrow> rd_block m buf len; t \<leftarrow> wr_block temp 0 bs; wr t len 0x80 }
                   else Some temp);
          (if len < 56 then
             do { temp \<leftarrow> wr temp 56 (word_of_int (drop_bit 0 total_bits AND 0xff));
                  temp \<leftarrow> wr temp 57 (word_of_int (drop_bit 8 total_bits AND 0xff));
                  temp \<leftarrow> wr temp 58 (word_of_int (drop_bit 16 total_bits AND 0xff));
                  wr temp 59 (word_of_int (drop_bit 24 total_bits AND 0xff)) }
           else Some temp) }"

text \<open>The loop over the chunks; \<open>buf\<close> is the offset of the pointer in the message.\<close>

fun md5_chunks :: "mem \<Rightarrow> int \<Rightarrow> nat \<Rightarrow> int \<Rightarrow> int \<Rightarrow> md5_state \<Rightarrow> md5_state option" where
  "md5_chunks m total_bits 0 len buf st = Some st"
| "md5_chunks m total_bits (Suc chunks) len buf st =
     (if 64 \<le> len then
        do { st' \<leftarrow> md5_ops m buf [0..<64] st;
             md5_chunks m total_bits chunks (len - 64) (buf + 64) (md5_add st st') }
      else
        do { temp \<leftarrow> md5_temp m buf len total_bits;
             st' \<leftarrow> md5_ops temp 0 [0..<64] st;
             md5_chunks m total_bits chunks (len - 64) buf (md5_add st st') })"

definition md5_init :: md5_state where
  "md5_init = (0x67452301, 0xefcdab89, 0x98badcfe, 0x10325476)"

definition digest_md5_calc :: "mem \<Rightarrow> int \<Rightarrow> md5_state option" where
  "digest_md5_calc m len =
     (let chunks = drop_bit 6 (len + 8 + 64); total_bits = s32 (push_bit 3 len) in
      md5_chunks m total_bits (nat chunks) len 0 md5_init)"

section \<open>RFC 1321\<close>

text \<open>Section 3.1 and 3.2: a one bit, zero bits up to 56 bytes modulo 64, the length in bits.\<close>

definition rfc_length :: "nat \<Rightarrow> byte list" where
  "rfc_length n = map (\<lambda>k. word_of_nat (8 * n div 256 ^ k)) [0..<8]"

definition rfc_pad :: "byte list \<Rightarrow> byte list" where
  "rfc_pad msg = msg @ 0x80 # replicate ((119 - length msg mod 64) mod 64) 0 @ rfc_length (length msg)"

definition rfc_F :: "u32 \<Rightarrow> u32 \<Rightarrow> u32 \<Rightarrow> u32" where
  "rfc_F X Y Z = (X AND Y) OR (NOT X AND Z)"

definition rfc_G :: "u32 \<Rightarrow> u32 \<Rightarrow> u32 \<Rightarrow> u32" where
  "rfc_G X Y Z = (X AND Z) OR (Y AND NOT Z)"

definition rfc_H :: "u32 \<Rightarrow> u32 \<Rightarrow> u32 \<Rightarrow> u32" where
  "rfc_H X Y Z = X XOR Y XOR Z"

definition rfc_I :: "u32 \<Rightarrow> u32 \<Rightarrow> u32 \<Rightarrow> u32" where
  "rfc_I X Y Z = Y XOR (X OR NOT Z)"

text \<open>Section 3.4: the words and the shifts of the sixteen operations of each round, as the RFC lists
  them. The operation \<open>[abcd k s i]\<close> leaves the registers renamed for the next one.\<close>

definition rfc_round1 :: "nat list" where
  "rfc_round1 = [0, 1, 2, 3, 4, 5, 6, 7, 8, 9, 10, 11, 12, 13, 14, 15]"

definition rfc_round2 :: "nat list" where
  "rfc_round2 = [1, 6, 11, 0, 5, 10, 15, 4, 9, 14, 3, 8, 13, 2, 7, 12]"

definition rfc_round3 :: "nat list" where
  "rfc_round3 = [5, 8, 11, 14, 1, 4, 7, 10, 13, 0, 3, 6, 9, 12, 15, 2]"

definition rfc_round4 :: "nat list" where
  "rfc_round4 = [0, 7, 14, 5, 12, 3, 10, 1, 8, 15, 6, 13, 4, 11, 2, 9]"

definition rfc_shifts :: "nat list \<Rightarrow> nat list" where
  "rfc_shifts s = s @ s @ s @ s"

type_synonym rfc_step = "(u32 \<Rightarrow> u32 \<Rightarrow> u32 \<Rightarrow> u32) \<times> nat \<times> nat \<times> nat"

definition rfc_round :: "(u32 \<Rightarrow> u32 \<Rightarrow> u32 \<Rightarrow> u32) \<Rightarrow> nat list \<Rightarrow> nat list \<Rightarrow> nat \<Rightarrow> rfc_step list" where
  "rfc_round f ks ss i = map (\<lambda>(j, k, s). (f, k, s, i + j)) (zip [0..<16] (zip ks (rfc_shifts ss)))"

definition rfc_steps :: "rfc_step list" where
  "rfc_steps = rfc_round rfc_F rfc_round1 [7, 12, 17, 22] 0 @ rfc_round rfc_G rfc_round2 [5, 9, 14, 20] 16
     @ rfc_round rfc_H rfc_round3 [4, 11, 16, 23] 32 @ rfc_round rfc_I rfc_round4 [6, 10, 15, 21] 48"

fun rfc_op :: "u32 list \<Rightarrow> rfc_step \<Rightarrow> md5_state \<Rightarrow> md5_state" where
  "rfc_op X (f, k, s, i) (a, b, c, d) =
     (d, b + word_rotl s (a + f b c d + X ! k + md5_table2 ! i), b, c)"

fun rfc_words :: "byte list \<Rightarrow> u32 list" where
  "rfc_words (b0 # b1 # b2 # b3 # bs) =
     (ucast b0 OR push_bit 8 (ucast b1) OR push_bit 16 (ucast b2) OR push_bit 24 (ucast b3)) # rfc_words bs"
| "rfc_words _ = []"

definition rfc_compress :: "md5_state \<Rightarrow> byte list \<Rightarrow> md5_state" where
  "rfc_compress st block = md5_add st (fold (rfc_op (rfc_words block)) rfc_steps st)"

function rfc_blocks :: "byte list \<Rightarrow> byte list list" where
  "rfc_blocks bs = (if length bs < 64 then [] else take 64 bs # rfc_blocks (drop 64 bs))"
  by pat_completeness auto
termination by (relation "measure length") auto

declare rfc_blocks.simps [simp del]

definition rfc_md5 :: "byte list \<Rightarrow> md5_state" where
  "rfc_md5 msg = foldl rfc_compress (0x67452301, 0xefcdab89, 0x98badcfe, 0x10325476) (rfc_blocks (rfc_pad msg))"

section \<open>The operations\<close>

lemma left_rotate_rotl: "0 < s \<Longrightarrow> s < 32 \<Longrightarrow> left_rotate w s = word_rotl s w"
proof (rule bit_word_eqI)
  fix n assume *: "0 < s" "s < 32" "n < LENGTH(32)"
  have "(n + 32 - s) mod 32 = (if s \<le> n then n - s else 32 + n - s)"
    using * by (cases "s \<le> n") (auto simp: mod_if)
  then show "bit (left_rotate w s) n = bit (word_rotl s w) n"
    using * by (auto simp: left_rotate_def bit_simps bit_word_rotl_iff dest: bit_imp_le_length)
qed

lemma length_rfc_words: "length (rfc_words bs) = length bs div 4"
  by (induction bs rule: rfc_words.induct) auto

lemma md5_input_words:
  "g * 4 + 3 < length block \<Longrightarrow> p = int (length pre) \<Longrightarrow>
   md5_input (pre @ block @ post) p g = Some (rfc_words block ! g)"
proof (induction block arbitrary: pre p g rule: rfc_words.induct)
  case (1 b0 b1 b2 b3 bs)
  show ?case
  proof (cases g)
    case 0
    have m: "pre @ (b0 # b1 # b2 # b3 # bs) @ post = pre @ b0 # (b1 # b2 # b3 # bs @ post)"
      "pre @ (b0 # b1 # b2 # b3 # bs) @ post = (pre @ [b0]) @ b1 # (b2 # b3 # bs @ post)"
      "pre @ (b0 # b1 # b2 # b3 # bs) @ post = (pre @ [b0, b1]) @ b2 # (b3 # bs @ post)"
      "pre @ (b0 # b1 # b2 # b3 # bs) @ post = (pre @ [b0, b1, b2]) @ b3 # (bs @ post)" by simp_all
    have "rd (pre @ (b0 # b1 # b2 # b3 # bs) @ post) p = Some b0"
      "rd (pre @ (b0 # b1 # b2 # b3 # bs) @ post) (p + 1) = Some b1"
      "rd (pre @ (b0 # b1 # b2 # b3 # bs) @ post) (p + 2) = Some b2"
      "rd (pre @ (b0 # b1 # b2 # b3 # bs) @ post) (p + 3) = Some b3"
      by (subst m(1), rule rd_at, simp add: "1.prems", subst m(2), rule rd_at, simp add: "1.prems",
          subst m(3), rule rd_at, simp add: "1.prems", subst m(4), rule rd_at, simp add: "1.prems")
    with 0 show ?thesis by (simp add: md5_input_def)
  next
    case (Suc g')
    have "md5_input ((pre @ [b0, b1, b2, b3]) @ bs @ post) (p + 4) g' = Some (rfc_words bs ! g')"
      by (rule "1.IH") (use "1.prems" Suc in auto)
    then show ?thesis by (simp add: Suc md5_input_def algebra_simps)
  qed
qed auto

definition rfc_step_ok :: "nat \<Rightarrow> rfc_step \<Rightarrow> bool" where
  "rfc_step_ok i = (\<lambda>(f, k, s, j). j = i \<and> k < 16 \<and> s = md5_table1 ! i \<and> 0 < s \<and> s < 32 \<and>
     (\<forall>B C D. md5_select i B C D = (f B C D, k)))"

lemma rfc_steps_ok: "list_all2 rfc_step_ok [0..<64] rfc_steps"
  by (simp add: rfc_steps_def rfc_round_def rfc_shifts_def rfc_round1_def rfc_round2_def rfc_round3_def
      rfc_round4_def rfc_step_ok_def md5_table1_def md5_select_def rfc_F_def rfc_G_def rfc_H_def
      rfc_I_def upt_conv_Cons and.commute)

lemma md5_op_rfc:
  assumes "rfc_step_ok i step" "length block = 64" "p = int (length pre)"
  shows "md5_op (pre @ block @ post) p i st = Some (rfc_op (rfc_words block) step st)"
proof -
  obtain f k s j where step: "step = (f, k, s, j)" by (cases step)
  obtain A B C D where st: "st = (A, B, C, D)" by (cases st)
  have "md5_input (pre @ block @ post) p k = Some (rfc_words block ! k)"
    by (rule md5_input_words) (use assms step in \<open>auto simp: rfc_step_ok_def\<close>)
  with assms(1) show ?thesis by (simp add: rfc_step_ok_def step st left_rotate_rotl ac_simps)
qed

lemma md5_ops_rfc:
  "list_all2 rfc_step_ok is steps \<Longrightarrow> length block = 64 \<Longrightarrow> p = int (length pre) \<Longrightarrow>
   md5_ops (pre @ block @ post) p is st = Some (fold (rfc_op (rfc_words block)) steps st)"
  by (induction "is" steps arbitrary: st rule: list_all2_induct) (simp_all add: md5_op_rfc)

lemma md5_ops_block:
  assumes "length block = 64" "p = int (length pre)"
  shows "\<exists>st'. md5_ops (pre @ block @ post) p [0..<64] st = Some st' \<and>
    md5_add st st' = rfc_compress st block"
  using md5_ops_rfc [OF rfc_steps_ok assms] by (simp add: rfc_compress_def)

section \<open>The padding\<close>

definition low_length :: "nat \<Rightarrow> byte list" where
  "low_length n = map (\<lambda>k. word_of_nat (8 * n div 256 ^ k)) [0..<4]"

lemma upt_4: "[0..<4] = [0, 1, 2, 3]" and upt_8: "[0..<8] = [0, 1, 2, 3, 4, 5, 6, 7]"
  by (simp_all add: upt_conv_Cons)

lemma rfc_length_low: "n < 268435456 \<Longrightarrow> rfc_length n = low_length n @ replicate 4 0"
proof -
  assume n: "n < 268435456"
  then have "8 * n < 256 ^ 4" by simp
  then have "8 * n div 256 ^ k = 0" if "4 \<le> k" for k
    using that by (meson div_less less_le_trans one_le_numeral power_increasing)
  then have z: "word_of_nat (8 * n div 256 ^ k) = (0 :: byte)" if "4 \<le> k" for k using that by simp
  have "z4 = 0 \<Longrightarrow> z5 = 0 \<Longrightarrow> z6 = 0 \<Longrightarrow> z7 = 0 \<Longrightarrow> [z4, z5, z6, z7] = replicate 4 (0 :: byte)"
    for z4 z5 z6 z7 by (simp add: numeral_eq_Suc)
  then have "map (\<lambda>k. word_of_nat (8 * n div 256 ^ k) :: byte) [4, 5, 6, 7] = replicate 4 0"
    unfolding list.map by this (rule z, simp)+
  then show ?thesis
    unfolding rfc_length_def low_length_def upt_8 upt_4 by (simp only: list.map append.simps)
qed

lemma length_byte:
  assumes "n < 268435456"
  shows "word_of_int (drop_bit (8 * k) (s32 (push_bit 3 (int n))) AND 255) = (word_of_nat (8 * n div 256 ^ k) :: byte)"
proof -
  have "s32 (push_bit 3 (int n)) = int (8 * n)"
    using assms by (simp add: push_bit_eq_mult s32_nonneg)
  then have "drop_bit (8 * k) (s32 (push_bit 3 (int n))) = int (8 * n div 256 ^ k)"
    by (simp add: drop_bit_eq_div zdiv_int power_mult)
  moreover have "(255 :: int) = mask 8" by (simp add: mask_eq_exp_minus_1)
  moreover have "(word_of_int (take_bit 8 x) :: byte) = word_of_int x" for x
    by (rule bit_word_eqI) (auto simp: bit_simps)
  ultimately show ?thesis by (simp only: take_bit_eq_mask [symmetric] of_int_of_nat_eq)
qed

lemma write_length:
  assumes "n < 268435456" "length xs = 56" "t = s32 (push_bit 3 (int n))"
  shows "do { temp \<leftarrow> wr (xs @ replicate 8 0) 56 (word_of_int (drop_bit 0 t AND 0xff));
      temp \<leftarrow> wr temp 57 (word_of_int (drop_bit 8 t AND 0xff));
      temp \<leftarrow> wr temp 58 (word_of_int (drop_bit 16 t AND 0xff));
      wr temp 59 (word_of_int (drop_bit 24 t AND 0xff)) } = Some (xs @ rfc_length n)"
proof -
  define b where "b k = (word_of_nat (8 * n div 256 ^ k) :: byte)" for k
  have t: "word_of_int (drop_bit (8 * k) t AND 255) = b k" for k
    unfolding b_def assms(3) by (rule length_byte) fact
  have "wr (xs @ replicate 8 0) 56 (b 0) = Some (xs @ b 0 # replicate 7 0)"
    using wr_at [of 56 xs 0 "replicate 7 0" "b 0"] assms(2) by (simp add: numeral_eq_Suc)
  moreover have "wr (xs @ b 0 # replicate 7 0) 57 (b 1) = Some (xs @ b 0 # b 1 # replicate 6 0)"
    using wr_at [of 57 "xs @ [b 0]" 0 "replicate 6 0" "b 1"] assms(2) by (simp add: numeral_eq_Suc)
  moreover have "wr (xs @ b 0 # b 1 # replicate 6 0) 58 (b 2) = Some (xs @ b 0 # b 1 # b 2 # replicate 5 0)"
    using wr_at [of 58 "xs @ [b 0, b 1]" 0 "replicate 5 0" "b 2"] assms(2) by (simp add: numeral_eq_Suc)
  moreover have "wr (xs @ b 0 # b 1 # b 2 # replicate 5 0) 59 (b 3) =
      Some (xs @ b 0 # b 1 # b 2 # b 3 # replicate 4 0)"
    using wr_at [of 59 "xs @ [b 0, b 1, b 2]" 0 "replicate 4 0" "b 3"] assms(2) by (simp add: numeral_eq_Suc)
  moreover have "rfc_length n = [b 0, b 1, b 2, b 3] @ replicate 4 0"
    using rfc_length_low [OF assms(1)] by (simp only: low_length_def b_def [symmetric] upt_4 list.map)
  ultimately show ?thesis using t [of 0] t [of 1] t [of 2] t [of 3] by simp
qed

lemma md5_temp_none:
  "len < 0 \<Longrightarrow> n < 268435456 \<Longrightarrow>
   md5_temp m buf len (s32 (push_bit 3 (int n))) = Some (replicate 56 0 @ rfc_length n)"
  using write_length [of n "replicate 56 0" "s32 (push_bit 3 (int n))"]
  by (simp add: md5_temp_def replicate_add [symmetric])

lemma temp_message:
  assumes "length bs < 64" "buf = int (length pre)" "len = int (length bs)"
  shows "do { bs \<leftarrow> rd_block (pre @ bs @ post) buf len; t \<leftarrow> wr_block (replicate 64 0) 0 bs; wr t len 0x80 } =
    Some (bs @ 0x80 # replicate (63 - length bs) 0)"
proof -
  have "replicate 64 (0 :: byte) = [] @ replicate (length bs) 0 @ replicate (64 - length bs) 0"
    using assms(1) by (simp add: replicate_add [symmetric])
  then have "wr_block (replicate 64 0) 0 bs = Some (bs @ replicate (64 - length bs) 0)"
    by (simp only:) (subst wr_block_at, simp_all)
  also have "replicate (64 - length bs) (0 :: byte) = 0 # replicate (63 - length bs) 0"
    using assms(1) by (cases "64 - length bs") (auto simp: Suc_diff_le)
  finally show ?thesis
    using rd_block_at [OF assms(2,3), of post] by (simp add: wr_at assms(3))
qed

lemma md5_temp_last:
  assumes "length bs < 56" "buf = int (length pre)" "n < 268435456"
  shows "md5_temp (pre @ bs @ post) buf (int (length bs)) (s32 (push_bit 3 (int n))) =
    Some (bs @ 0x80 # replicate (55 - length bs) 0 @ rfc_length n)"
proof -
  have r: "bs @ 0x80 # replicate (63 - length bs) 0 = (bs @ 0x80 # replicate (55 - length bs) 0) @ replicate 8 0"
    using assms(1) by (simp add: replicate_add [symmetric])
  have l: "length (bs @ 0x80 # replicate (55 - length bs) 0) = 56" using assms(1) by simp
  have "length bs < 64" using assms(1) by simp
  from temp_message [OF this assms(2) refl, of post] show ?thesis
    using write_length [OF assms(3) l refl] assms(1)
    by (simp add: md5_temp_def bind_assoc [symmetric] r del: bind_assoc)
qed

lemma md5_temp_full:
  assumes "\<not> length bs < 56" "length bs < 64" "buf = int (length pre)"
  shows "md5_temp (pre @ bs @ post) buf (int (length bs)) tb =
    Some (bs @ 0x80 # replicate (63 - length bs) 0)"
  using temp_message [OF assms(2,3) refl, of post] assms(1) by (simp add: md5_temp_def)

section \<open>The digest\<close>

definition pad_tail :: "nat \<Rightarrow> nat \<Rightarrow> byte list" where
  "pad_tail l n = 0x80 # replicate ((119 - l mod 64) mod 64) 0 @ rfc_length n"

lemma length_rfc_length: "length (rfc_length n) = 8"
  by (simp add: rfc_length_def)

lemma rfc_blocks_Cons: "length b = 64 \<Longrightarrow> rfc_blocks (b @ bs) = b # rfc_blocks bs"
  by (subst rfc_blocks.simps) simp

lemma rfc_blocks_one: "length b = 64 \<Longrightarrow> rfc_blocks b = [b]"
  using rfc_blocks_Cons [of b "[]"] by (simp add: rfc_blocks.simps)

lemma md5_chunk_full:
  assumes "64 \<le> len" "length block = 64" "buf = int (length pre)"
  shows "md5_chunks (pre @ block @ post) tb (Suc k) len buf st =
    md5_chunks (pre @ block @ post) tb k (len - 64) (buf + 64) (rfc_compress st block)"
  using assms md5_ops_block [OF assms(2,3), of post st] by auto

lemma md5_chunk_temp:
  assumes "len < 64" "md5_temp m buf len tb = Some temp" "length temp = 64"
  shows "md5_chunks m tb (Suc k) len buf st =
    md5_chunks m tb k (len - 64) buf (rfc_compress st temp)"
  using assms md5_ops_block [OF assms(3), of 0 "[]" "[]" st] by auto

lemma md5_chunks_rfc:
  assumes "n < 268435456" "tb = s32 (push_bit 3 (int n))"
  shows "k = (length rest + 72) div 64 \<Longrightarrow> buf = int (length pre) \<Longrightarrow>
    md5_chunks (pre @ rest @ post) tb k (int (length rest)) buf st =
    Some (foldl rfc_compress st (rfc_blocks (rest @ pad_tail (length rest) n)))"
proof (induction "length rest" arbitrary: rest pre k buf st rule: less_induct)
  case less
  consider (whole) "64 \<le> length rest" | (two) "\<not> length rest < 56" "length rest < 64" | (one) "length rest < 56"
    by linarith
  then show ?case
  proof cases
    case whole
    define block rest' where "block = take 64 rest" and "rest' = drop 64 rest"
    have r: "rest = block @ rest'" "length block = 64" "length rest = 64 + length rest'"
      using whole by (simp_all add: block_def rest'_def)
    have k: "k = Suc ((length rest' + 72) div 64)" using less.prems(1) r(3) by simp
    have "md5_chunks ((pre @ block) @ rest' @ post) tb ((length rest' + 72) div 64) (int (length rest'))
        (buf + 64) (rfc_compress st block) = Some (foldl rfc_compress (rfc_compress st block)
          (rfc_blocks (rest' @ pad_tail (length rest') n)))"
      by (rule less.hyps) (use r less.prems in auto)
    moreover have "pad_tail (length rest) n = pad_tail (length rest') n"
      by (simp add: pad_tail_def r(3))
    ultimately show ?thesis
      using md5_chunk_full [of "int (length rest)" block buf pre "rest' @ post" tb _ st] r less.prems(2)
      by (simp add: k rfc_blocks_Cons)
  next
    case two
    define b1 where "b1 = rest @ 0x80 # replicate (63 - length rest) 0"
    define b2 where "b2 = replicate 56 0 @ rfc_length n"
    have l: "length b1 = 64" "length b2 = 64" using two by (simp_all add: b1_def b2_def length_rfc_length)
    have k: "k = 2" using less.prems(1) two by simp
    have t1: "md5_temp (pre @ rest @ post) buf (int (length rest)) tb = Some b1"
      unfolding b1_def by (rule md5_temp_full) (use two less.prems in auto)
    have t2: "md5_temp (pre @ rest @ post) buf (int (length rest) - 64) tb = Some b2"
      unfolding b2_def assms(2) by (rule md5_temp_none) (use two assms in auto)
    have z: "(119 - length rest mod 64) mod 64 = 63 - length rest + 56"
      using two by (simp add: mod_if)
    have "rest @ pad_tail (length rest) n = b1 @ b2"
      by (simp add: pad_tail_def b1_def b2_def z replicate_add)
    then show ?thesis
      using md5_chunk_temp [OF _ t1 l(1), of "Suc 0" st] md5_chunk_temp [OF _ t2 l(2), of 0] two l
      by (simp add: k numeral_2_eq_2 rfc_blocks_Cons rfc_blocks_one)
  next
    case one
    define b where "b = rest @ 0x80 # replicate (55 - length rest) 0 @ rfc_length n"
    have l: "length b = 64" using one by (simp add: b_def length_rfc_length)
    have k: "k = Suc 0" using less.prems(1) one by simp
    have t: "md5_temp (pre @ rest @ post) buf (int (length rest)) tb = Some b"
      unfolding b_def assms(2) by (rule md5_temp_last) (use one less.prems assms in auto)
    have "(119 - length rest mod 64) mod 64 = 55 - length rest" using one by (simp add: mod_if)
    then have "rest @ pad_tail (length rest) n = b" by (simp add: pad_tail_def b_def)
    then show ?thesis
      using md5_chunk_temp [OF _ t l, of 0 st] one l by (simp add: k rfc_blocks_one)
  qed
qed

section \<open>Properties\<close>

lemma md5_calc_rfc:
  assumes "length msg < 268435456"
  shows "digest_md5_calc (msg @ post) (int (length msg)) = Some (rfc_md5 msg)"
proof -
  have "nat (drop_bit 6 (int (length msg) + 8 + 64)) = (length msg + 72) div 64"
    by (simp add: drop_bit_eq_div nat_div_distrib nat_add_distrib)
  then show ?thesis
    using md5_chunks_rfc [OF assms refl refl, of 0 "[]" msg post md5_init]
    by (simp add: digest_md5_calc_def md5_init_def rfc_md5_def rfc_pad_def pad_tail_def)
qed

text \<open>C5: \<open>digest_md5_calc\<close> is the MD5 of RFC 1321 on every message shorter than 256 MiB, reading no
  byte outside the message.\<close>

theorem md5_calc_correct:
  assumes "length msg < 268435456"
  shows "digest_md5_calc (msg @ post) (int (length msg)) = Some (rfc_md5 msg)"
  by (rule md5_calc_rfc [OF assms])

section \<open>A test vector\<close>

text \<open>The rotation in a form that keeps the numerals of an evaluation below 32 bits.\<close>

lemma rotl_mask:
  "0 < s \<Longrightarrow> s < 32 \<Longrightarrow> word_rotl s w = push_bit s (w AND mask (32 - s)) OR drop_bit (32 - s) (w :: u32)"
  unfolding left_rotate_rotl [symmetric] left_rotate_def
  by (rule bit_word_eqI) (auto simp: bit_simps)

lemma rotl_eval:
  "word_rotl (numeral s) w = (if numeral s < (32 :: nat)
     then push_bit (numeral s) (w AND mask (32 - numeral s)) OR drop_bit (32 - numeral s) (w :: u32)
     else word_rotl (numeral s) w)"
  by (cases "numeral s < (32 :: nat)") (simp_all only: rotl_mask zero_less_numeral if_True if_False)

lemma replicate_numeral: "replicate (numeral k) x = x # replicate (pred_numeral k) x"
  by (simp add: numeral_eq_Suc)

theorem md5_calc_correct_witness:
  "digest_md5_calc (cstr ''abc'') 3 = Some (0x98500190, 0xb04fd23c, 0x7d3f96d6, 0x727fe128)"
proof -
  define X where "X = [0x80636261, 0, 0, 0, 0, 0, 0, 0, 0, 0, 0, 0, 0, 0, 0x18, 0 :: u32]"
  have p: "rfc_pad (cstr ''abc'') = [0x61, 0x62, 0x63, 0x80] @ replicate 52 0 @ [0x18, 0, 0, 0, 0, 0, 0, 0]"
    by (simp add: rfc_pad_def cstr_def rfc_length_def upt_8)
  have w: "rfc_words (rfc_pad (cstr ''abc'')) = X"
    unfolding p X_def by (simp add: replicate_numeral)
  have b: "rfc_blocks (rfc_pad (cstr ''abc'')) = [rfc_pad (cstr ''abc'')]"
    by (rule rfc_blocks_one) (simp add: p)
  have "rfc_md5 (cstr ''abc'') = (0x98500190, 0xb04fd23c, 0x7d3f96d6, 0x727fe128)"
    unfolding rfc_md5_def b
    by (simp add: rfc_compress_def w rfc_steps_def rfc_round_def rfc_shifts_def rfc_round1_def
        rfc_round2_def rfc_round3_def rfc_round4_def upt_conv_Cons X_def md5_table2_def rfc_F_def
        rfc_G_def rfc_H_def rfc_I_def rotl_eval mask_eq_exp_minus_1)
  then show ?thesis
    using md5_calc_correct [of "cstr ''abc''" "[]"] by (simp add: cstr_def)
qed

end
