(* ===== verification/Tth_Core.thy ===== *)
theory Tth_Core
  imports Prelude
begin

text \<open>
  The core of TinyThreads (\<open>TINYTH/inc/priv/tth_core.h\<close>): thread objects, the linked lists they are
  in, \<open>tth_cs_move\<close> and \<open>tth_cs_switch\<close>.

  A thread object is known by its identity \<open>tid\<close>; the heap maps it to its fields, and a pointer to a
  thread is \<open>tid option\<close> (\<open>None\<close> is NULL). The C code passes pointers to list heads and to
  \<open>follower\<close> fields; such a \<open>tth_thread **\<close> is a \<open>slot\<close>. Every operation runs in a critical section
  (interrupts off), so it is one function of the state; it is \<open>None\<close> when a pointer is followed that
  points to no thread, or when a list has no end.
\<close>

section \<open>State\<close>

type_synonym tid = nat

datatype waitstate = WAIT_INVAL | WAIT_READY | WAIT_JOIN | WAIT_DEAD | WAIT_THREAD | WAIT_MUTEX
  | WAIT_SEM | WAIT_COND | WAIT_SLEEP

text \<open>\<open>shared\<close> is the union of \<open>retval\<close> and \<open>timeout\<close>; \<open>autostack\<close> is 0 for NULL.\<close>

record tcb =
  ctx :: u32
  switches :: u32
  name :: "byte list"
  waiter :: "tid option"
  follower :: "tid option"
  detachstate :: int
  schedpriority :: byte
  schedpolicy :: int
  waitstate :: waitstate
  autostack :: u32
  shared :: u32

record mutex =
  m_waiter :: "tid option"
  owner :: "tid option"

record sem =
  s_waiter :: "tid option"
  svalue :: int

record tth =
  heap :: "tid \<rightharpoonup> tcb"
  running :: "tid option"
  ready :: "tid option"
  detach :: "tid option"
  sleeping :: "tid option"
  object_var :: "tid option"
  int_level :: int
  tth_time :: u32
  mutexes :: "nat \<Rightarrow> mutex"
  sems :: "nat \<Rightarrow> sem"
  conds :: "nat \<Rightarrow> tid option"
  preemption_us :: int
  errno :: int
  freed :: "u32 list"

text \<open>\<open>freed\<close> lists the arguments of \<open>free\<close>; an object stays in the heap after it, because the
  allocator is not part of the model.\<close>

text \<open>A \<open>tth_thread **\<close>. \<open>Object_var\<close> is the local \<open>object\<close> of \<open>pthread_create\<close>.\<close>

datatype slot = Ready | Detach | Sleeping | Object_var | Mutex_waiter nat | Sem_waiter nat
  | Cond_waiter nat | Join_waiter tid | Follower_of tid

definition upd_thread :: "tid \<Rightarrow> (tcb \<Rightarrow> tcb) \<Rightarrow> tth \<Rightarrow> tth option" where
  "upd_thread t f s = do { c \<leftarrow> heap s t; Some (s\<lparr>heap := (heap s)(t \<mapsto> f c)\<rparr>) }"

fun load :: "tth \<Rightarrow> slot \<Rightarrow> tid option option" where
  "load s Ready = Some (ready s)"
| "load s Detach = Some (detach s)"
| "load s Sleeping = Some (sleeping s)"
| "load s Object_var = Some (object_var s)"
| "load s (Mutex_waiter m) = Some (m_waiter (mutexes s m))"
| "load s (Sem_waiter m) = Some (s_waiter (sems s m))"
| "load s (Cond_waiter c) = Some (conds s c)"
| "load s (Join_waiter t) = map_option waiter (heap s t)"
| "load s (Follower_of t) = map_option follower (heap s t)"

fun store :: "slot \<Rightarrow> tid option \<Rightarrow> tth \<Rightarrow> tth option" where
  "store Ready p s = Some (s\<lparr>ready := p\<rparr>)"
| "store Detach p s = Some (s\<lparr>detach := p\<rparr>)"
| "store Sleeping p s = Some (s\<lparr>sleeping := p\<rparr>)"
| "store Object_var p s = Some (s\<lparr>object_var := p\<rparr>)"
| "store (Mutex_waiter m) p s = Some (s\<lparr>mutexes := (mutexes s)(m := (mutexes s m)\<lparr>m_waiter := p\<rparr>)\<rparr>)"
| "store (Sem_waiter m) p s = Some (s\<lparr>sems := (sems s)(m := (sems s m)\<lparr>s_waiter := p\<rparr>)\<rparr>)"
| "store (Cond_waiter c) p s = Some (s\<lparr>conds := (conds s)(c := p)\<rparr>)"
| "store (Join_waiter t) p s = upd_thread t (waiter_update (\<lambda>_. p)) s"
| "store (Follower_of t) p s = upd_thread t (follower_update (\<lambda>_. p)) s"

section \<open>Moving a thread\<close>

text \<open>The \<open>while\<close> loop: the slot the thread goes into and the thread after it.\<close>

partial_function (option) insert_slot :: "tth \<Rightarrow> slot \<Rightarrow> byte \<Rightarrow> (slot \<times> tid option) option" where
  "insert_slot s to prio =
     do { nxt \<leftarrow> load s to;
          case nxt of
            None \<Rightarrow> Some (to, None)
          | Some n \<Rightarrow>
              do { c \<leftarrow> heap s n;
                   if prio \<le> schedpriority c then insert_slot s (Follower_of n) prio
                   else Some (to, Some n) } }"

declare insert_slot.simps [code]

definition tth_cs_move :: "slot \<Rightarrow> slot option \<Rightarrow> waitstate \<Rightarrow> tth \<Rightarrow> tth option" where
  "tth_cs_move from to ws s =
     do { target \<leftarrow> load s from;
          case target of
            None \<Rightarrow> Some s
          | Some t \<Rightarrow>
              do { c \<leftarrow> heap s t;
                   s \<leftarrow> upd_thread t (waitstate_update (\<lambda>_. ws)) s;
                   s \<leftarrow> store from (follower c) s;
                   case to of
                     Some to \<Rightarrow>
                       do { (slot, nxt) \<leftarrow> insert_slot s to (schedpriority c);
                            s \<leftarrow> upd_thread t (follower_update (\<lambda>_. nxt)) s;
                            store slot (Some t) s }
                   | None \<Rightarrow> upd_thread t (follower_update (\<lambda>_. None)) s } }"

text \<open>\<open>tth_int_context_switch\<close>: what the scheduler state sees of the assembly, the new running thread
  and its switch count. The flag of \<open>tth_cs_switch\<close> says whether the caller is switched away.\<close>

definition tth_int_context_switch :: "tth \<Rightarrow> tth option" where
  "tth_int_context_switch s =
     do { t \<leftarrow> ready s;
          s \<leftarrow> upd_thread t (switches_update (\<lambda>n. n + 1)) s;
          Some (s\<lparr>running := Some t\<rparr>) }"

definition tth_cs_switch :: "tth \<Rightarrow> (tth \<times> bool) option" where
  "tth_cs_switch s =
     (if int_level s = 0 \<and> running s \<noteq> ready s
      then do { s \<leftarrow> tth_int_context_switch s; Some (s, True) }
      else Some (s, False))"

section \<open>Slots as a memory\<close>

lemma load_store: "store sl p s = Some s' \<Longrightarrow> load s' = (load s)(sl \<mapsto> p)"
proof
  fix sl'
  show "store sl p s = Some s' \<Longrightarrow> load s' sl' = ((load s)(sl \<mapsto> p)) sl'"
    by (cases sl; cases sl') (auto simp: upd_thread_def bind_eq_Some_conv)
qed

lemma store_defined: "load s sl \<noteq> None \<Longrightarrow> \<exists>s'. store sl p s = Some s'"
  by (cases sl) (auto simp: upd_thread_def)

lemma load_waitstate: "upd_thread t (waitstate_update f) s = Some s' \<Longrightarrow> load s' = load s"
proof
  fix sl
  show "upd_thread t (waitstate_update f) s = Some s' \<Longrightarrow> load s' sl = load s sl"
    by (cases sl) (auto simp: upd_thread_def bind_eq_Some_conv)
qed

text \<open>What moves and switches leave alone: everything but the list fields, \<open>waitstate\<close>, \<open>switches\<close> and
  \<open>running\<close>.\<close>

definition strip :: "tcb \<Rightarrow> tcb" where
  "strip c = c\<lparr>switches := 0, waiter := None, follower := None, waitstate := WAIT_INVAL\<rparr>"

definition same_rest :: "tth \<Rightarrow> tth \<Rightarrow> bool" where
  "same_rest s s' \<longleftrightarrow>
     int_level s' = int_level s \<and> tth_time s' = tth_time s \<and>
     (\<forall>m. owner (mutexes s' m) = owner (mutexes s m)) \<and> (\<forall>m. svalue (sems s' m) = svalue (sems s m)) \<and>
     (\<forall>t. map_option strip (heap s' t) = map_option strip (heap s t))"

lemma same_rest_refl [simp]: "same_rest s s"
  by (simp add: same_rest_def)

lemma same_rest_trans: "same_rest s s1 \<Longrightarrow> same_rest s1 s2 \<Longrightarrow> same_rest s s2"
  by (simp add: same_rest_def)

lemma same_rest_store: "store sl p s = Some s' \<Longrightarrow> same_rest s s'"
  by (cases sl) (auto simp: same_rest_def upd_thread_def bind_eq_Some_conv strip_def)

lemma same_rest_waitstate: "upd_thread t (waitstate_update f) s = Some s' \<Longrightarrow> same_rest s s'"
  by (auto simp: same_rest_def upd_thread_def bind_eq_Some_conv strip_def)

definition prio :: "tth \<Rightarrow> tid \<Rightarrow> byte" where
  "prio s t = (case heap s t of None \<Rightarrow> 0 | Some c \<Rightarrow> schedpriority c)"

lemma same_rest_prio: "same_rest s s' \<Longrightarrow> prio s' = prio s"
proof
  fix t assume "same_rest s s'"
  then have "map_option strip (heap s' t) = map_option strip (heap s t)" by (simp add: same_rest_def)
  then show "prio s' t = prio s t"
    by (cases "heap s t"; cases "heap s' t") (auto simp: prio_def strip_def dest!: arg_cong [of _ _ schedpriority])
qed

section \<open>Lists\<close>

text \<open>\<open>l\<close> is the slot memory, \<open>load s\<close>.\<close>

type_synonym slots = "slot \<Rightarrow> tid option option"

fun chain :: "slots \<Rightarrow> tid option \<Rightarrow> tid list \<Rightarrow> bool" where
  "chain l p [] \<longleftrightarrow> p = None"
| "chain l p (t # ts) \<longleftrightarrow>
     p = Some t \<and> (case l (Follower_of t) of None \<Rightarrow> False | Some q \<Rightarrow> chain l q ts)"

fun is_head :: "slot \<Rightarrow> bool" where
  "is_head (Follower_of t) = False"
| "is_head _ = True"

text \<open>The lists of a state: \<open>L\<close> gives the threads in each head's list; no thread is in two.\<close>

definition lists :: "slots \<Rightarrow> (slot \<Rightarrow> tid list) \<Rightarrow> bool" where
  "lists l L \<longleftrightarrow>
     (\<forall>h. is_head h \<longrightarrow>
        (case l h of None \<Rightarrow> L h = [] | Some p \<Rightarrow> chain l p (L h)) \<and> distinct (L h)) \<and>
     (\<forall>h h'. is_head h \<longrightarrow> is_head h' \<longrightarrow> h \<noteq> h' \<longrightarrow> set (L h) \<inter> set (L h') = {})"

text \<open>The abstract insertion: behind the threads of the same priority.\<close>

definition insert_prio :: "(tid \<Rightarrow> byte) \<Rightarrow> tid \<Rightarrow> tid list \<Rightarrow> tid list" where
  "insert_prio pr t ts =
     takeWhile (\<lambda>u. pr t \<le> pr u) ts @ t # dropWhile (\<lambda>u. pr t \<le> pr u) ts"

definition hd_opt :: "'a list \<Rightarrow> 'a option" where
  "hd_opt xs = (case xs of [] \<Rightarrow> None | x # _ \<Rightarrow> Some x)"

lemma hd_opt_simps [simp]: "hd_opt [] = None" "hd_opt (x # xs) = Some x"
  by (simp_all add: hd_opt_def)

lemma chain_head: "chain l p ts \<Longrightarrow> p = hd_opt ts"
  by (cases ts) auto

lemma chain_dom: "chain l p ts \<Longrightarrow> t \<in> set ts \<Longrightarrow> l (Follower_of t) \<noteq> None"
  by (induction ts arbitrary: p) (auto split: option.splits)

lemma chain_cong:
  "(\<And>t. t \<in> set ts \<Longrightarrow> l' (Follower_of t) = l (Follower_of t)) \<Longrightarrow> chain l' p ts = chain l p ts"
proof (induction ts arbitrary: p)
  case (Cons t ts)
  have "l' (Follower_of t) = l (Follower_of t)" by (rule Cons.prems) simp
  moreover have "chain l' q ts = chain l q ts" for q by (rule Cons.IH) (simp add: Cons.prems)
  ultimately show ?case by (simp split: option.splits)
qed simp

lemma chain_suffix: "chain l p (us @ vs) \<Longrightarrow> \<exists>q. chain l q vs"
  by (induction us arbitrary: p) (auto split: option.splits)

lemma chain_insert:
  "chain l p (us @ vs) \<Longrightarrow> us \<noteq> [] \<Longrightarrow> distinct (us @ vs) \<Longrightarrow> t \<notin> set (us @ vs) \<Longrightarrow>
   chain (l(Follower_of t \<mapsto> hd_opt vs, Follower_of (last us) \<mapsto> Some t)) p (us @ t # vs)"
proof (induction us arbitrary: p)
  case (Cons u us)
  then obtain q where q: "p = Some u" "l (Follower_of u) = Some q" "chain l q (us @ vs)"
    by (auto split: option.splits)
  show ?case
  proof (cases "us = []")
    case True
    have "chain (l(Follower_of t \<mapsto> hd_opt vs, Follower_of u \<mapsto> Some t)) q vs = chain l q vs"
      by (rule chain_cong) (use Cons.prems in auto)
    with q True Cons.prems chain_head [of l q vs] show ?thesis by (auto simp del: fun_upd_apply) simp
  next
    case False
    with Cons.IH [OF q(3)] Cons.prems q show ?thesis by (auto split: option.splits)
  qed
qed simp

lemma listsI:
  assumes "\<And>h p. is_head h \<Longrightarrow> l h = Some p \<Longrightarrow> chain l p (L h)"
    and "\<And>h. is_head h \<Longrightarrow> l h = None \<Longrightarrow> L h = []"
    and "\<And>h. is_head h \<Longrightarrow> distinct (L h)"
    and "\<And>h h' t. is_head h \<Longrightarrow> is_head h' \<Longrightarrow> h \<noteq> h' \<Longrightarrow> t \<in> set (L h) \<Longrightarrow> t \<notin> set (L h')"
  shows "lists l L"
  unfolding lists_def
proof (intro conjI allI impI)
  fix h assume "is_head h"
  then show "case l h of None \<Rightarrow> L h = [] | Some p \<Rightarrow> chain l p (L h)" "distinct (L h)"
    using assms(1-3) by (auto split: option.splits)
next
  fix h h' assume "is_head h" "is_head h'" "h \<noteq> h'"
  then show "set (L h) \<inter> set (L h') = {}" using assms(4) by blast
qed

lemma lists_None: "lists l L \<Longrightarrow> is_head h \<Longrightarrow> l h = None \<Longrightarrow> L h = []"
  by (force simp: lists_def)

lemma lists_chain: "lists l L \<Longrightarrow> is_head h \<Longrightarrow> l h = Some p \<Longrightarrow> chain l p (L h)"
  by (force simp: lists_def)

lemma lists_distinct: "lists l L \<Longrightarrow> is_head h \<Longrightarrow> distinct (L h)"
  by (simp add: lists_def)

lemma lists_disjoint:
  "lists l L \<Longrightarrow> is_head h \<Longrightarrow> is_head h' \<Longrightarrow> h \<noteq> h' \<Longrightarrow> t \<in> set (L h) \<Longrightarrow> t \<notin> set (L h')"
  by (auto simp: lists_def)

lemma lists_head: "lists l L \<Longrightarrow> is_head h \<Longrightarrow> l h = Some p \<Longrightarrow> p = hd_opt (L h)"
  using chain_head lists_chain by blast

lemma lists_nonempty: "lists l L \<Longrightarrow> is_head h \<Longrightarrow> L h = t # ts \<Longrightarrow> l h = Some (Some t)"
  by (cases "l h") (auto simp: lists_def dest: chain_head split: option.splits)

definition free_of :: "tid \<Rightarrow> (slot \<Rightarrow> tid list) \<Rightarrow> bool" where
  "free_of t L \<longleftrightarrow> (\<forall>h. is_head h \<longrightarrow> t \<notin> set (L h))"

lemma lists_pop:
  assumes "lists l L" "is_head h" "L h = t # ts" "l (Follower_of t) = Some q"
  shows "lists (l(h \<mapsto> q)) (L(h := ts))" and "free_of t (L(h := ts))" and "q = hd_opt ts"
proof -
  have c: "chain l q ts" using lists_chain [OF assms(1,2) lists_nonempty [OF assms(1-3)]] assms(3,4) by simp
  have ch: "chain (l(h \<mapsto> q)) p us = chain l p us" for p us by (rule chain_cong) (use assms(2) in auto)
  have sub: "t' \<in> set ((L(h := ts)) h') \<Longrightarrow> t' \<in> set (L h')" for t' h'
    using assms(3) by (auto split: if_splits)
  show "lists (l(h \<mapsto> q)) (L(h := ts))"
  proof (rule listsI)
    fix h' p assume "is_head h'" "(l(h \<mapsto> q)) h' = Some p"
    then show "chain (l(h \<mapsto> q)) p ((L(h := ts)) h')"
      using c lists_chain [OF assms(1)] unfolding ch by (auto split: if_splits)
  next
    fix h' assume "is_head h'" "(l(h \<mapsto> q)) h' = None"
    then show "(L(h := ts)) h' = []" using lists_None [OF assms(1)] by (auto split: if_splits)
  next
    fix h' assume "is_head h'"
    then show "distinct ((L(h := ts)) h')" using lists_distinct [OF assms(1)] assms(2,3) by fastforce
  next
    fix h1 h2 t' assume *: "is_head h1" "is_head h2" "h1 \<noteq> h2" "t' \<in> set ((L(h := ts)) h1)"
    from lists_disjoint [OF assms(1) *(1-3) sub [OF *(4)]] sub show "t' \<notin> set ((L(h := ts)) h2)" by blast
  qed
  show "free_of t (L(h := ts))"
    using assms(2,3) lists_distinct [OF assms(1,2)] lists_disjoint [OF assms(1,2), of _ t]
    by (auto simp: free_of_def)
  show "q = hd_opt ts" using chain_head [OF c] .
qed

lemma lists_upd_free:
  assumes "lists l L" "free_of t L"
  shows "lists (l(Follower_of t := v)) L"
proof -
  have ch: "chain (l(Follower_of t := v)) p (L h) = chain l p (L h)" if "is_head h" for p h
    by (rule chain_cong) (use assms that in \<open>auto simp: free_of_def\<close>)
  have hd: "(l(Follower_of t := v)) h = l h" if "is_head h" for h using that by auto
  show ?thesis
    by (rule listsI) (simp_all only: hd ch lists_chain [OF assms(1)] lists_None [OF assms(1)]
        lists_distinct [OF assms(1)] lists_disjoint [OF assms(1)] not_False_eq_True)
qed

lemma lists_push:
  assumes "lists l L" "free_of t L" "is_head h" "l h = Some p" "L h = us @ vs"
  shows "lists (l(Follower_of t \<mapsto> hd_opt vs, (if us = [] then h else Follower_of (last us)) \<mapsto> Some t))
    (L(h := us @ t # vs))"
proof -
  define sl where "sl = (if us = [] then h else Follower_of (last us))"
  define l' where "l' = l(Follower_of t \<mapsto> hd_opt vs, sl \<mapsto> Some t)"
  have d: "distinct (us @ vs)" "t \<notin> set (us @ vs)"
    using lists_distinct [OF assms(1,3)] assms(2,3,5) by (auto simp: free_of_def)
  have c: "chain l p (us @ vs)" using lists_chain [OF assms(1,3,4)] assms(5) by simp
  have hf: "h' \<noteq> Follower_of u" if "is_head h'" for h' u using that by auto
  have other: "chain l' q (L h') = chain l q (L h')" if "is_head h'" "h' \<noteq> h" for q h'
  proof (rule chain_cong)
    fix u assume u: "u \<in> set (L h')"
    then have "u \<noteq> t" using assms(2) that by (auto simp: free_of_def)
    moreover have "u \<noteq> last us" if "us \<noteq> []"
      using lists_disjoint [OF assms(1) \<open>is_head h'\<close> assms(3) \<open>h' \<noteq> h\<close> u] that assms(5) by auto
    ultimately show "l' (Follower_of u) = l (Follower_of u)"
      unfolding l'_def sl_def using hf [OF assms(3)] by auto
  qed
  have main: "chain l' (if us = [] then Some t else p) (us @ t # vs)"
  proof (cases "us = []")
    case True
    have "chain l' p vs = chain l p vs"
      by (rule chain_cong) (use True d hf [OF assms(3)] in \<open>auto simp: l'_def sl_def\<close>)
    with True c chain_head [of l p vs] hf [OF assms(3)] show ?thesis by (auto simp: l'_def sl_def)
  next
    case False
    with chain_insert [OF c False d] show ?thesis by (simp add: l'_def sl_def)
  qed
  have at: "l' h = Some (if us = [] then Some t else p)"
    using hf [OF assms(3)] assms(4) by (auto simp: l'_def sl_def)
  have off: "l' h' = l h'" if "is_head h'" "h' \<noteq> h" for h'
    using that hf [OF that(1)] by (auto simp: l'_def sl_def)
  have "lists l' (L(h := us @ t # vs))"
  proof (rule listsI)
    fix h' p' assume "is_head h'" "l' h' = Some p'"
    then show "chain l' p' ((L(h := us @ t # vs)) h')"
      using main at off other lists_chain [OF assms(1)] by (cases "h' = h") auto
  next
    fix h' assume "is_head h'" "l' h' = None"
    then show "(L(h := us @ t # vs)) h' = []"
      using at off lists_None [OF assms(1)] by (cases "h' = h") auto
  next
    fix h' assume "is_head h'"
    then show "distinct ((L(h := us @ t # vs)) h')" using lists_distinct [OF assms(1)] d by auto
  next
    fix h1 h2 t' assume *: "is_head h1" "is_head h2" "h1 \<noteq> h2" "t' \<in> set ((L(h := us @ t # vs)) h1)"
    have m: "u \<in> set ((L(h := us @ t # vs)) h') \<longleftrightarrow> u \<in> set (L h') \<or> h' = h \<and> u = t" for u h'
      using assms(5) by auto
    from * m have "t' \<in> set (L h1) \<or> h1 = h \<and> t' = t" by blast
    moreover have "t \<notin> set (L h')" if "is_head h'" for h' using assms(2) that by (simp add: free_of_def)
    ultimately show "t' \<notin> set ((L(h := us @ t # vs)) h2)"
      using lists_disjoint [OF assms(1) *(1-3)] * m by blast
  qed
  then show ?thesis by (simp add: l'_def sl_def)
qed

text \<open>Where the insertion loop stops.\<close>

lemma insert_slot_chain:
  assumes "load s sl = Some p" "chain (load s) p ys"
  shows "insert_slot s sl pr = Some
    (let us = takeWhile (\<lambda>u. pr \<le> prio s u) ys in if us = [] then sl else Follower_of (last us),
     hd_opt (dropWhile (\<lambda>u. pr \<le> prio s u) ys))"
  using assms
proof (induction ys arbitrary: sl p)
  case Nil
  then show ?case by (subst insert_slot.simps) simp
next
  case (Cons n ys)
  then obtain c where c: "heap s n = Some c" "chain (load s) (follower c) ys" "p = Some n"
    by (auto split: option.splits)
  show ?case
  proof (cases "pr \<le> schedpriority c")
    case True
    have "insert_slot s (Follower_of n) pr = Some
      (let us = takeWhile (\<lambda>u. pr \<le> prio s u) ys in if us = [] then Follower_of n else Follower_of (last us),
       hd_opt (dropWhile (\<lambda>u. pr \<le> prio s u) ys))"
      by (rule Cons.IH [OF _ c(2)]) (simp add: c(1))
    with True Cons.prems(1) c show ?thesis
      by (subst insert_slot.simps) (auto simp: prio_def Let_def)
  next
    case False
    with Cons.prems(1) c show ?thesis
      by (subst insert_slot.simps) (auto simp: prio_def)
  qed
qed

section \<open>What a move does\<close>

definition wst :: "tth \<Rightarrow> tid \<Rightarrow> waitstate option" where
  "wst s t = map_option waitstate (heap s t)"

lemma running_store: "store sl p s = Some s' \<Longrightarrow> running s' = running s"
  by (cases sl) (auto simp: upd_thread_def bind_eq_Some_conv)

lemma running_upd: "upd_thread t f s = Some s' \<Longrightarrow> running s' = running s"
  by (auto simp: upd_thread_def bind_eq_Some_conv)

lemma wst_store: "store sl p s = Some s' \<Longrightarrow> wst s' = wst s"
  by (rule ext, cases sl) (auto simp: wst_def upd_thread_def bind_eq_Some_conv)

lemma wst_waitstate: "upd_thread t (waitstate_update (\<lambda>_. w)) s = Some s' \<Longrightarrow> wst s' = (wst s)(t \<mapsto> w)"
  by (rule ext) (auto simp: wst_def upd_thread_def bind_eq_Some_conv)

text \<open>The effect of a state change on the lists, on the wait states and on everything else.\<close>

definition moved :: "tth \<Rightarrow> tth \<Rightarrow> (slot \<Rightarrow> tid list) \<Rightarrow> tid \<Rightarrow> waitstate \<Rightarrow> bool" where
  "moved s s' L' t ws \<longleftrightarrow>
     lists (load s') L' \<and> same_rest s s' \<and> wst s' = (wst s)(t \<mapsto> ws) \<and> dom (load s') = dom (load s) \<and>
     running s' = running s"

lemma dom_load_store: "store sl p s = Some s' \<Longrightarrow> dom (load s') = dom (load s)"
proof -
  assume *: "store sl p s = Some s'"
  moreover have "load s sl \<noteq> None"
    using * by (cases sl) (auto simp: upd_thread_def bind_eq_Some_conv)
  ultimately show ?thesis using load_store by auto
qed

lemma heap_follower: "load s (Follower_of t) = map_option follower (heap s t)"
  by simp

lemma upd_follower: "upd_thread t (follower_update (\<lambda>_. p)) s = store (Follower_of t) p s"
  by simp

lemma cs_move_pop:
  assumes "lists (load s) L" "is_head from" "L from = t # xs"
  shows "\<exists>c s1 s2. heap s t = Some c \<and> load s from = Some (Some t) \<and>
    upd_thread t (waitstate_update (\<lambda>_. ws)) s = Some s1 \<and> store from (follower c) s1 = Some s2 \<and>
    moved s s2 (L(from := xs)) t ws \<and> free_of t (L(from := xs))"
proof -
  have f: "load s from = Some (Some t)" by (rule lists_nonempty [OF assms])
  have "load s (Follower_of t) \<noteq> None"
    by (rule chain_dom [OF lists_chain [OF assms(1,2) f]]) (simp add: assms(3))
  then obtain c where c: "heap s t = Some c" "load s (Follower_of t) = Some (follower c)" by auto
  obtain s1 where s1: "upd_thread t (waitstate_update (\<lambda>_. ws)) s = Some s1"
    using c(1) by (simp add: upd_thread_def)
  have l1: "load s1 = load s" using s1 by (rule load_waitstate)
  then obtain s2 where s2: "store from (follower c) s1 = Some s2"
    using store_defined [of s1 "from" "follower c"] f by auto
  have "load s2 = (load s)(from \<mapsto> follower c)" using load_store [OF s2] l1 by simp
  then have "lists (load s2) (L(from := xs))" "free_of t (L(from := xs))"
    using lists_pop [OF assms c(2)] by simp_all
  moreover have "same_rest s s2"
    using same_rest_waitstate [OF s1] same_rest_store [OF s2] by (rule same_rest_trans)
  moreover have "wst s2 = (wst s)(t \<mapsto> ws)" using wst_waitstate [OF s1] wst_store [OF s2] by simp
  moreover have "dom (load s2) = dom (load s)" using dom_load_store [OF s2] l1 by simp
  moreover have "running s2 = running s" using running_upd [OF s1] running_store [OF s2] by simp
  ultimately show ?thesis using c(1) s1 s2 f by (auto simp: moved_def)
qed

lemma push_slot:
  assumes "lists (load s) L" "free_of t L" "is_head h" "load s h \<noteq> None" "heap s t \<noteq> None"
    "L h = us @ vs" "sl = (if us = [] then h else Follower_of (last us))"
  shows "\<exists>s1 s2. store (Follower_of t) (hd_opt vs) s = Some s1 \<and> store sl (Some t) s1 = Some s2 \<and>
    lists (load s2) (L(h := us @ t # vs)) \<and> same_rest s s2 \<and> wst s2 = wst s \<and>
    dom (load s2) = dom (load s) \<and> running s2 = running s"
proof -
  obtain p where p: "load s h = Some p" using assms(4) by auto
  obtain s1 where s1: "store (Follower_of t) (hd_opt vs) s = Some s1"
    using store_defined [of s "Follower_of t"] assms(5) by auto
  have "us \<noteq> [] \<Longrightarrow> load s (Follower_of (last us)) \<noteq> None"
    by (rule chain_dom [OF lists_chain [OF assms(1,3) p]]) (simp add: assms(6))
  then have "load s1 sl \<noteq> None" using assms(4,7) load_store [OF s1] by auto
  then obtain s2 where s2: "store sl (Some t) s1 = Some s2" using store_defined by blast
  have l: "load s2 = (load s)(Follower_of t \<mapsto> hd_opt vs, sl \<mapsto> Some t)"
    using load_store [OF s1] load_store [OF s2] by simp
  have "lists (load s2) (L(h := us @ t # vs))"
    unfolding l assms(7) using assms(1-3) p assms(6) by (rule lists_push)
  then show ?thesis
    using s1 s2 same_rest_trans [OF same_rest_store [OF s1] same_rest_store [OF s2]]
      wst_store [OF s1] wst_store [OF s2] dom_load_store [OF s1] dom_load_store [OF s2]
      running_store [OF s1] running_store [OF s2] by auto
qed

lemma moved_step:
  "moved s s2 L2 t ws \<Longrightarrow> lists (load s3) L3 \<Longrightarrow> same_rest s2 s3 \<Longrightarrow> wst s3 = wst s2 \<Longrightarrow>
   dom (load s3) = dom (load s2) \<Longrightarrow> running s3 = running s2 \<Longrightarrow> moved s s3 L3 t ws"
  by (auto simp: moved_def elim: same_rest_trans)

lemma cs_move_some:
  assumes "lists (load s) L" "is_head from" "L from = t # xs" "is_head to" "load s to \<noteq> None"
  shows "\<exists>s'. tth_cs_move from (Some to) ws s = Some s' \<and>
    moved s s' (L(from := xs, to := insert_prio (prio s) t ((L(from := xs)) to))) t ws"
proof -
  from cs_move_pop [OF assms(1-3), of ws] obtain c s1 s2 where
    c: "heap s t = Some c" and f: "load s from = Some (Some t)" and
    s1: "upd_thread t (waitstate_update (\<lambda>_. ws)) s = Some s1" and
    s2: "store from (follower c) s1 = Some s2" and m: "moved s s2 (L(from := xs)) t ws" and
    fr: "free_of t (L(from := xs))" by blast
  define ys where "ys = (L(from := xs)) to"
  define us where "us = takeWhile (\<lambda>u. prio s t \<le> prio s u) ys"
  define vs where "vs = dropWhile (\<lambda>u. prio s t \<le> prio s u) ys"
  from m have l2: "lists (load s2) (L(from := xs))" and p2: "prio s2 = prio s"
    and d: "dom (load s2) = dom (load s)" by (auto simp: moved_def same_rest_prio)
  obtain p where p: "load s2 to = Some p" using d assms(5) by blast
  have "chain (load s2) p ys" unfolding ys_def by (rule lists_chain [OF l2 assms(4) p])
  from insert_slot_chain [OF p this, of "schedpriority c"] c have ins:
    "insert_slot s2 to (schedpriority c) = Some (if us = [] then to else Follower_of (last us), hd_opt vs)"
    by (simp add: p2 us_def vs_def prio_def)
  have t2: "heap s2 t \<noteq> None"
    using d c heap_follower [of s2 t] by (metis domIff heap_follower option.map_disc_iff option.distinct(1))
  have "L(from := xs) = L(from := xs, to := us @ vs)" by (simp add: ys_def us_def vs_def fun_upd_idem)
  have ysplit: "(L(from := xs)) to = us @ vs" by (simp add: ys_def us_def vs_def)
  from push_slot [OF l2 fr assms(4) _ t2 ysplit refl] p obtain s3 s4 where
    s3: "store (Follower_of t) (hd_opt vs) s2 = Some s3" and
    s4: "store (if us = [] then to else Follower_of (last us)) (Some t) s3 = Some s4" and
    m4: "lists (load s4) (L(from := xs, to := us @ t # vs))" "same_rest s2 s4" "wst s4 = wst s2"
      "dom (load s4) = dom (load s2)" "running s4 = running s2" by (auto simp del: fun_upd_apply)
  have "tth_cs_move from (Some to) ws s = Some s4"
    unfolding tth_cs_move_def using f c s1 s2 ins s3 s4 by (simp only: upd_follower) simp
  moreover have "insert_prio (prio s) t ys = us @ t # vs" by (simp add: insert_prio_def us_def vs_def)
  ultimately show ?thesis using moved_step [OF m m4] by (auto simp: ys_def)
qed

lemma cs_move_null:
  assumes "lists (load s) L" "is_head from" "L from = t # xs"
  shows "\<exists>s'. tth_cs_move from None ws s = Some s' \<and> moved s s' (L(from := xs)) t ws"
proof -
  from cs_move_pop [OF assms, of ws] obtain c s1 s2 where
    c: "heap s t = Some c" and f: "load s from = Some (Some t)" and
    s1: "upd_thread t (waitstate_update (\<lambda>_. ws)) s = Some s1" and
    s2: "store from (follower c) s1 = Some s2" and m: "moved s s2 (L(from := xs)) t ws" and
    fr: "free_of t (L(from := xs))" by blast
  have "load s2 (Follower_of t) \<noteq> None"
    using m c by (metis domIff heap_follower moved_def option.distinct(1) option.map_disc_iff)
  then obtain s3 where s3: "store (Follower_of t) None s2 = Some s3" using store_defined by blast
  have "lists (load s3) (L(from := xs))"
    unfolding load_store [OF s3] using m fr by (auto simp: moved_def intro: lists_upd_free)
  with m have "moved s s3 (L(from := xs)) t ws"
    by (rule moved_step) (rule same_rest_store wst_store dom_load_store running_store, rule s3)+
  moreover have "tth_cs_move from None ws s = Some s3"
    unfolding tth_cs_move_def using f c s1 s2 s3 by (simp only: upd_follower) simp
  ultimately show ?thesis by blast
qed

lemma cs_move_empty: "load s from = Some None \<Longrightarrow> tth_cs_move from to ws s = Some s"
  by (simp add: tth_cs_move_def)

section \<open>Insertion by priority\<close>

definition by_prio :: "(tid \<Rightarrow> byte) \<Rightarrow> tid list \<Rightarrow> bool" where
  "by_prio pr ts \<longleftrightarrow> sorted_wrt (\<lambda>a b. pr b \<le> pr a) ts"

lemma set_insert_prio [simp]: "set (insert_prio pr t ts) = insert t (set ts)"
  using takeWhile_dropWhile_id [of "\<lambda>u. pr t \<le> pr u" ts]
  by (metis (no_types, lifting) insert_prio_def list.simps(15) set_append Un_insert_right)

lemma insert_prio_not_Nil [simp]: "insert_prio pr t ts \<noteq> []"
  by (simp add: insert_prio_def)

lemma by_prio_insert: "by_prio pr ts \<Longrightarrow> by_prio pr (insert_prio pr t ts)"
proof (induction ts)
  case Nil
  then show ?case by (simp add: insert_prio_def by_prio_def)
next
  case (Cons u ts)
  show ?case
  proof (cases "pr t \<le> pr u")
    case True
    then have "insert_prio pr t (u # ts) = u # insert_prio pr t ts" by (simp add: insert_prio_def)
    with Cons True show ?thesis by (auto simp: by_prio_def)
  next
    case False
    then have "insert_prio pr t (u # ts) = t # u # ts" by (simp add: insert_prio_def)
    with Cons False show ?thesis by (fastforce simp: by_prio_def)
  qed
qed

text \<open>First in, first out among equals: the threads of any one priority keep their order, and the new
  one comes after those of its own.\<close>

lemma insert_prio_fifo:
  "by_prio pr ts \<Longrightarrow>
   filter (\<lambda>u. pr u = p) (insert_prio pr t ts) =
     filter (\<lambda>u. pr u = p) ts @ (if pr t = p then [t] else [])"
proof (induction ts)
  case Nil
  then show ?case by (simp add: insert_prio_def)
next
  case (Cons u ts)
  show ?case
  proof (cases "pr t \<le> pr u")
    case True
    then have "insert_prio pr t (u # ts) = u # insert_prio pr t ts" by (simp add: insert_prio_def)
    with Cons show ?thesis by (auto simp: by_prio_def)
  next
    case False
    then have *: "insert_prio pr t (u # ts) = t # u # ts" by (simp add: insert_prio_def)
    have "pr v < pr t" if "v \<in> set (u # ts)" for v
      using Cons.prems False that by (auto simp: by_prio_def)
    then have "filter (\<lambda>u. pr u = p) (u # ts) = []" if "pr t = p"
      unfolding filter_empty_conv that [symmetric] by (metis less_irrefl)
    with * show ?thesis by auto
  qed
qed

lemma last_insert_prio:
  "by_prio pr ts \<Longrightarrow> ts \<noteq> [] \<Longrightarrow> pr (last ts) < pr t \<Longrightarrow> last (insert_prio pr t ts) = last ts"
proof (induction ts)
  case (Cons u ts)
  then show ?case
    by (cases "pr t \<le> pr u"; cases ts) (auto simp: insert_prio_def by_prio_def)
qed simp

end
