(* ===== verification/Tth_Api.thy ===== *)
theory Tth_Api
  imports Tth_Core
begin

text \<open>
  The operations of TinyThreads: \<open>tth_sched.c\<close>, \<open>tth_thread.c\<close>, \<open>tth_mutex.c\<close> with \<open>priv/tth_mutex.h\<close>,
  \<open>tth_sem.c\<close>, \<open>tth_sleep.c\<close>, \<open>tth_cond.c\<close>.

  A call that switches away in the middle of its work returns \<open>Blocked k\<close>: the rest of the function,
  \<open>k\<close>, runs when the thread runs again (\<open>tth_resume\<close>). A call whose switch is its last action returns
  \<open>Done\<close> with its result, which the thread sees when it runs again. An operation is \<open>None\<close> on a
  wild pointer, an endless list or \<open>tth_crash\<close>.
\<close>

definition PTHREAD_CREATE_JOINABLE :: int where "PTHREAD_CREATE_JOINABLE = 0"
definition PTHREAD_CREATE_DETACHED :: int where "PTHREAD_CREATE_DETACHED = 1"
definition SCHED_FIFO :: int where "SCHED_FIFO = 1"
definition SCHED_RR :: int where "SCHED_RR = 2"
definition SCHED_PRIORITY_MIN :: int where "SCHED_PRIORITY_MIN = 1"
definition SCHED_PRIORITY_MAX :: int where "SCHED_PRIORITY_MAX = 99"
definition SCHED_PRIORITY_DEFAULT :: int where "SCHED_PRIORITY_DEFAULT = 10"
definition SCHED_POLICY_DEFAULT :: int where "SCHED_POLICY_DEFAULT = SCHED_RR"
definition PTHREAD_STACK_MIN :: u32 where "PTHREAD_STACK_MIN = 0x1000"
definition SEM_VALUE_MAX :: int where "SEM_VALUE_MAX = 32767"
definition TTHREAD_NAME_MAX_LEN :: nat where "TTHREAD_NAME_MAX_LEN = 16"
definition TTHREAD_TICKS_PER_SEC :: int where "TTHREAD_TICKS_PER_SEC = 1000"
definition TTHREAD_PREEMPTION_INTERVAL :: int where "TTHREAD_PREEMPTION_INTERVAL = 10"

datatype kont = K_lock nat | K_join tid | K_cond nat

datatype outcome = Done int | Blocked kont

section \<open>Scheduling\<close>

definition sched_get_priority_max :: "int \<Rightarrow> tth \<Rightarrow> tth \<times> int" where
  "sched_get_priority_max policy s =
     (if policy \<in> {SCHED_FIFO, SCHED_RR} then (s, SCHED_PRIORITY_MAX) else (s\<lparr>errno := EINVAL\<rparr>, -1))"

definition sched_get_priority_min :: "int \<Rightarrow> tth \<Rightarrow> tth \<times> int" where
  "sched_get_priority_min policy s =
     (if policy \<in> {SCHED_FIFO, SCHED_RR} then (s, SCHED_PRIORITY_MIN) else (s\<lparr>errno := EINVAL\<rparr>, -1))"

definition sched_yield :: "tth \<Rightarrow> (tth \<times> outcome) option" where
  "sched_yield s =
     do { s \<leftarrow> tth_cs_move Ready (Some Ready) WAIT_READY s;
          (s, _) \<leftarrow> tth_cs_switch s;
          Some (s, Done 0) }"

section \<open>Mutexes\<close>

definition set_owner :: "nat \<Rightarrow> tid option \<Rightarrow> tth \<Rightarrow> tth" where
  "set_owner m p s = s\<lparr>mutexes := (mutexes s)(m := (mutexes s m)\<lparr>owner := p\<rparr>)\<rparr>"

text \<open>The end of \<open>tth_cs_mutex_lock\<close>.\<close>

definition take_mutex :: "nat \<Rightarrow> tth \<Rightarrow> tth \<times> outcome" where
  "take_mutex m s = (set_owner m (running s) s, Done 0)"

definition tth_cs_mutex_lock :: "nat \<Rightarrow> bool \<Rightarrow> tth \<Rightarrow> (tth \<times> outcome) option" where
  "tth_cs_mutex_lock m wait s =
     (if owner (mutexes s m) = running s then Some (s, Done EDEADLK)
      else if owner (mutexes s m) \<noteq> None then
        if \<not> wait then Some (s, Done EBUSY)
        else do { s \<leftarrow> tth_cs_move Ready (Some (Mutex_waiter m)) WAIT_MUTEX s;
                  (s, switched) \<leftarrow> tth_cs_switch s;
                  Some (if switched then (s, Blocked (K_lock m)) else take_mutex m s) }
      else Some (take_mutex m s))"

definition tth_cs_mutex_unlock :: "nat \<Rightarrow> tth \<Rightarrow> (tth \<times> int) option" where
  "tth_cs_mutex_unlock m s =
     (if owner (mutexes s m) \<noteq> running s then Some (s, EPERM)
      else do { s \<leftarrow> tth_cs_move (Mutex_waiter m) (Some Ready) WAIT_READY (set_owner m None s);
                Some (s, 0) })"

definition pthread_mutex_destroy :: "nat \<Rightarrow> tth \<Rightarrow> int" where
  "pthread_mutex_destroy m s =
     (if m_waiter (mutexes s m) \<noteq> None \<or> owner (mutexes s m) \<noteq> None then EBUSY else 0)"

definition pthread_mutex_init :: "nat \<Rightarrow> tth \<Rightarrow> tth \<times> int" where
  "pthread_mutex_init m s =
     (s\<lparr>mutexes := (mutexes s)(m := \<lparr>m_waiter = None, owner = None\<rparr>)\<rparr>, 0)"

definition pthread_mutex_lock :: "nat \<Rightarrow> tth \<Rightarrow> (tth \<times> outcome) option" where
  "pthread_mutex_lock m s = tth_cs_mutex_lock m True s"

definition pthread_mutex_trylock :: "nat \<Rightarrow> tth \<Rightarrow> (tth \<times> outcome) option" where
  "pthread_mutex_trylock m s = tth_cs_mutex_lock m False s"

definition pthread_mutex_unlock :: "nat \<Rightarrow> tth \<Rightarrow> (tth \<times> outcome) option" where
  "pthread_mutex_unlock m s =
     do { (s, result) \<leftarrow> tth_cs_mutex_unlock m s;
          if result = 0 then do { (s, _) \<leftarrow> tth_cs_switch s; Some (s, Done result) }
          else Some (s, Done result) }"

section \<open>Semaphores\<close>

definition set_value :: "nat \<Rightarrow> int \<Rightarrow> tth \<Rightarrow> tth" where
  "set_value m v s = s\<lparr>sems := (sems s)(m := (sems s m)\<lparr>svalue := v\<rparr>)\<rparr>"

definition sem_destroy :: "nat \<Rightarrow> tth \<Rightarrow> int option" where
  "sem_destroy m s = (if s_waiter (sems s m) \<noteq> None then None else Some 0)"

definition sem_init :: "nat \<Rightarrow> int \<Rightarrow> u32 \<Rightarrow> tth \<Rightarrow> tth \<times> int" where
  "sem_init m pshared v s =
     (if uint v > SEM_VALUE_MAX then (s\<lparr>errno := EINVAL\<rparr>, -1)
      else if pshared \<noteq> 0 then (s\<lparr>errno := ENOSYS\<rparr>, -1)
      else (s\<lparr>sems := (sems s)(m := \<lparr>s_waiter = None, svalue = uint v\<rparr>)\<rparr>, 0))"

definition sem_getvalue :: "nat \<Rightarrow> tth \<Rightarrow> int \<times> int" where
  "sem_getvalue m s = (svalue (sems s m), 0)"

definition sem_post :: "nat \<Rightarrow> tth \<Rightarrow> (tth \<times> outcome) option" where
  "sem_post m s =
     (if s_waiter (sems s m) \<noteq> None then
        do { s \<leftarrow> tth_cs_move (Sem_waiter m) (Some Ready) WAIT_READY s;
             (s, _) \<leftarrow> tth_cs_switch s;
             Some (s, Done 0) }
      else if svalue (sems s m) = SEM_VALUE_MAX then Some (s\<lparr>errno := EOVERFLOW\<rparr>, Done (-1))
      else Some (set_value m (svalue (sems s m) + 1) s, Done 0))"

definition sem_wait :: "nat \<Rightarrow> tth \<Rightarrow> (tth \<times> outcome) option" where
  "sem_wait m s =
     (if svalue (sems s m) > 0 then Some (set_value m (svalue (sems s m) - 1) s, Done 0)
      else do { s \<leftarrow> tth_cs_move Ready (Some (Sem_waiter m)) WAIT_SEM s;
                (s, _) \<leftarrow> tth_cs_switch s;
                Some (s, Done 0) })"

definition sem_trywait :: "nat \<Rightarrow> tth \<Rightarrow> (tth \<times> outcome) option" where
  "sem_trywait m s =
     (if svalue (sems s m) > 0 then Some (set_value m (svalue (sems s m) - 1) s, Done 0)
      else Some (s, Done EAGAIN))"

section \<open>Sleeping\<close>

partial_function (option) sleep_slot :: "tth \<Rightarrow> slot \<Rightarrow> u32 \<Rightarrow> (slot \<times> tid option) option" where
  "sleep_slot s to us =
     do { nxt \<leftarrow> load s to;
          case nxt of
            None \<Rightarrow> Some (to, None)
          | Some n \<Rightarrow>
              do { c \<leftarrow> heap s n;
                   if us \<le> shared c - tth_time s then Some (to, Some n)
                   else sleep_slot s (Follower_of n) us } }"

definition usleep :: "u32 \<Rightarrow> tth \<Rightarrow> (tth \<times> outcome) option" where
  "usleep us s =
     (if us = 0 then sched_yield s
      else if us > 1000000 then Some (s\<lparr>errno := EINVAL\<rparr>, Done (-1))
      else do {
        r \<leftarrow> running s;
        s \<leftarrow> upd_thread r (shared_update (\<lambda>_. tth_time s + us)) s;
        s \<leftarrow> upd_thread r (waitstate_update (\<lambda>_. WAIT_SLEEP)) s;
        c \<leftarrow> heap s r;
        s \<leftarrow> store Ready (follower c) s;
        (slot, nxt) \<leftarrow> sleep_slot s Sleeping us;
        s \<leftarrow> upd_thread r (follower_update (\<lambda>_. nxt)) s;
        s \<leftarrow> store slot (Some r) s;
        (s, _) \<leftarrow> tth_cs_switch s;
        Some (s, Done 0) })"

partial_function (option) wake_loop :: "tth \<Rightarrow> tth option" where
  "wake_loop s =
     (case sleeping s of
        None \<Rightarrow> Some s
      | Some t \<Rightarrow>
          do { c \<leftarrow> heap s t;
               if sint (shared c - tth_time s) > 0 then Some s
               else do { s \<leftarrow> tth_cs_move Sleeping (Some Ready) WAIT_READY s; wake_loop s } })"

definition tth_sleep_tick :: "tth \<Rightarrow> tth option" where
  "tth_sleep_tick s =
     wake_loop (s\<lparr>tth_time := tth_time s + word_of_int (1000000 div TTHREAD_TICKS_PER_SEC)\<rparr>)"

declare sleep_slot.simps [code] wake_loop.simps [code]

section \<open>Condition variables\<close>

definition pthread_cond_destroy :: "nat \<Rightarrow> tth \<Rightarrow> int" where
  "pthread_cond_destroy c s = 0"

definition pthread_cond_init :: "nat \<Rightarrow> tth \<Rightarrow> tth \<times> int" where
  "pthread_cond_init c s = (s\<lparr>conds := (conds s)(c := None)\<rparr>, 0)"

partial_function (option) cond_wake_all :: "nat \<Rightarrow> tth \<Rightarrow> tth option" where
  "cond_wake_all c s =
     (if conds s c = None then Some s
      else do { s \<leftarrow> tth_cs_move (Cond_waiter c) (Some Ready) WAIT_READY s; cond_wake_all c s })"

declare cond_wake_all.simps [code]

definition pthread_cond_broadcast :: "nat \<Rightarrow> tth \<Rightarrow> (tth \<times> outcome) option" where
  "pthread_cond_broadcast c s =
     do { s \<leftarrow> cond_wake_all c s; (s, _) \<leftarrow> tth_cs_switch s; Some (s, Done 0) }"

definition pthread_cond_signal :: "nat \<Rightarrow> tth \<Rightarrow> (tth \<times> outcome) option" where
  "pthread_cond_signal c s =
     do { s \<leftarrow> tth_cs_move (Cond_waiter c) (Some Ready) WAIT_READY s;
          (s, _) \<leftarrow> tth_cs_switch s;
          Some (s, Done 0) }"

definition pthread_cond_wait :: "nat \<Rightarrow> nat \<Rightarrow> tth \<Rightarrow> (tth \<times> outcome) option" where
  "pthread_cond_wait c m s =
     do { (s, result) \<leftarrow> tth_cs_mutex_unlock m s;
          if result = 0 then
            do { s \<leftarrow> tth_cs_move Ready (Some (Cond_waiter c)) WAIT_COND s;
                 (s, switched) \<leftarrow> tth_cs_switch s;
                 if switched then Some (s, Blocked (K_cond m)) else tth_cs_mutex_lock m True s }
          else Some (s, Done result) }"

section \<open>Threads\<close>

record attr =
  a_detachstate :: int
  a_priority :: int
  a_policy :: int
  a_stackaddr :: u32
  a_stacksize :: u32

definition tth_default_attr :: attr where
  "tth_default_attr = \<lparr>a_detachstate = PTHREAD_CREATE_JOINABLE, a_priority = SCHED_PRIORITY_DEFAULT,
     a_policy = SCHED_POLICY_DEFAULT, a_stackaddr = 0, a_stacksize = PTHREAD_STACK_MIN\<rparr>"

text \<open>The words \<open>tth_init_stack\<close> pushes, the last one pushed first, and the context pointer.\<close>

definition tth_init_stack :: "u32 \<Rightarrow> u32 \<Rightarrow> u32 \<Rightarrow> u32 \<Rightarrow> u32 \<Rightarrow> u32 list \<times> u32" where
  "tth_init_stack stack_bottom impure entry start_routine arg =
     (let ws = [start_routine, arg, 0xdeadbeef, 0xdeadbeef, 0xdeadbeef, 0xdeadbeef, 0xdeadbeef,
                0xdeadbeef, 0, entry, impure]
      in (ws, stack_bottom - of_nat (4 * length ws)))"

text \<open>\<open>mallocd\<close> is what \<open>malloc\<close> returns; \<open>object_at\<close> gives the thread object at the end of a stack of
  that address and size (its place depends on the size of newlib's \<open>struct _reent\<close>); \<open>sp\<close> the context
  \<open>tth_init_stack\<close> leaves. The thread handle is the object.\<close>

definition attr_of :: "attr option \<Rightarrow> attr" where
  "attr_of a = (case a of None \<Rightarrow> tth_default_attr | Some a \<Rightarrow> a)"

definition stack_of :: "attr option \<Rightarrow> u32 \<Rightarrow> u32" where
  "stack_of a mallocd = (if a_stackaddr (attr_of a) = 0 then mallocd else a_stackaddr (attr_of a))"

definition new_tcb :: "attr \<Rightarrow> u32 \<Rightarrow> u32 \<Rightarrow> tcb" where
  "new_tcb a stackaddr sp =
     \<lparr>ctx = sp, switches = 0, name = replicate TTHREAD_NAME_MAX_LEN 0, waiter = None, follower = None,
      detachstate = uint (word_of_int (a_detachstate a) :: byte),
      schedpriority = word_of_int (a_priority a),
      schedpolicy = uint (word_of_int (a_policy a) :: byte), waitstate = WAIT_INVAL,
      autostack = (if a_stackaddr a = 0 then stackaddr else 0), shared = 0\<rparr>"

definition pthread_create ::
    "attr option \<Rightarrow> u32 \<Rightarrow> (u32 \<Rightarrow> u32 \<Rightarrow> tid) \<Rightarrow> u32 \<Rightarrow> tth \<Rightarrow> (tth \<times> outcome) option" where
  "pthread_create attr mallocd object_at sp s =
     (let stackaddr = stack_of attr mallocd in
      if stackaddr = 0 then Some (s, Done ENOMEM)
      else
        let obj = object_at stackaddr (a_stacksize (attr_of attr)) in
        do { s \<leftarrow> Some (s\<lparr>heap := (heap s)(obj \<mapsto> new_tcb (attr_of attr) stackaddr sp), object_var := Some obj\<rparr>);
             s \<leftarrow> tth_cs_move Object_var (Some Ready) WAIT_READY s;
             (s, _) \<leftarrow> tth_cs_switch s;
             Some (s, Done 0) })"

definition pthread_exit :: "u32 \<Rightarrow> tth \<Rightarrow> tth option" where
  "pthread_exit retval s =
     do { t \<leftarrow> running s;
          s \<leftarrow> upd_thread t (\<lambda>c. c\<lparr>shared := retval, ctx := 0\<rparr>) s;
          c \<leftarrow> heap s t;
          s \<leftarrow> (if detachstate c = PTHREAD_CREATE_JOINABLE then
                  do { s \<leftarrow> tth_cs_move Ready None WAIT_JOIN s;
                       tth_cs_move (Join_waiter t) (Some Ready) WAIT_READY s }
                else tth_cs_move Ready (Some Detach) WAIT_DEAD s);
          (s, _) \<leftarrow> tth_cs_switch s;
          Some s }"

definition free_stack :: "u32 \<Rightarrow> tth \<Rightarrow> tth" where
  "free_stack p s = (if p = 0 then s else s\<lparr>freed := p # freed s\<rparr>)"

text \<open>After the target has finished; the value stored through \<open>retval\<close> is \<open>shared\<close> of the target.\<close>

definition join_finish :: "tid \<Rightarrow> tth \<Rightarrow> (tth \<times> outcome) option" where
  "join_finish t s = do { c \<leftarrow> heap s t; Some (free_stack (autostack c) s, Done 0) }"

definition pthread_join :: "tid \<Rightarrow> tth \<Rightarrow> (tth \<times> outcome) option" where
  "pthread_join t s =
     do { c \<leftarrow> heap s t;
          if detachstate c \<noteq> PTHREAD_CREATE_JOINABLE \<or> waiter c \<noteq> None then Some (s, Done EINVAL)
          else if running s = Some t then Some (s, Done EDEADLK)
          else if waitstate c \<noteq> WAIT_JOIN then
            do { s \<leftarrow> tth_cs_move Ready (Some (Join_waiter t)) WAIT_THREAD s;
                 (s, switched) \<leftarrow> tth_cs_switch s;
                 if switched then Some (s, Blocked (K_join t)) else join_finish t s }
          else join_finish t s }"

definition pthread_detach :: "tid \<Rightarrow> tth \<Rightarrow> (tth \<times> outcome) option" where
  "pthread_detach t s =
     do { c \<leftarrow> heap s t;
          if detachstate c \<noteq> PTHREAD_CREATE_JOINABLE then Some (s, Done EINVAL)
          else if waiter c \<noteq> None then None
          else do { s \<leftarrow> upd_thread t (detachstate_update (\<lambda>_. PTHREAD_CREATE_DETACHED)) s;
                    Some (s, Done 0) } }"

definition pthread_self :: "tth \<Rightarrow> tid option" where
  "pthread_self s = running s"

definition pthread_equal :: "tid option \<Rightarrow> tid option \<Rightarrow> bool" where
  "pthread_equal t1 t2 \<longleftrightarrow> t1 = t2"

text \<open>The names are buffers of \<open>TTHREAD_NAME_MAX_LEN\<close> bytes; \<open>nm\<close> is the object the caller's string is
  in. \<open>memcpy\<close> copies one byte more than the string and its NUL.\<close>

definition pthread_setname_np :: "tid \<Rightarrow> mem \<Rightarrow> tth \<Rightarrow> (tth \<times> int) option" where
  "pthread_setname_np t nm s =
     do { str \<leftarrow> c_string nm 0;
          let name_len = int (length str) + 1;
          if name_len > int TTHREAD_NAME_MAX_LEN then Some (s, ERANGE)
          else do { bs \<leftarrow> rd_block nm 0 (name_len + 1);
                    c \<leftarrow> heap s t;
                    new \<leftarrow> wr_block (name c) 0 bs;
                    s \<leftarrow> upd_thread t (name_update (\<lambda>_. new)) s;
                    Some (s, 0) } }"

definition pthread_getname_np :: "tid \<Rightarrow> mem \<Rightarrow> u32 \<Rightarrow> tth \<Rightarrow> (mem \<times> int) option" where
  "pthread_getname_np t buf len s =
     do { c \<leftarrow> heap s t;
          str \<leftarrow> c_string (name c) 0;
          let name_len = int (length str) + 1;
          if uint len < name_len then Some (buf, ERANGE)
          else do { bs \<leftarrow> rd_block (name c) 0 name_len;
                    buf \<leftarrow> wr_block buf 0 bs;
                    Some (buf, 0) } }"

text \<open>One turn of the idle thread's loop.\<close>

definition tth_idle :: "tth \<Rightarrow> (tth \<times> outcome) option" where
  "tth_idle s =
     do { s \<leftarrow> (case detach s of
                  None \<Rightarrow> Some s
                | Some t \<Rightarrow> do { c \<leftarrow> heap s t;
                                 s \<leftarrow> store Detach (follower c) s;
                                 Some (free_stack (autostack c) s) });
          sched_yield s }"

text \<open>The static objects and \<open>tth_initialize\<close>: thread 0 is the idle thread, thread 1 the default one.\<close>

definition static_thread :: "string \<Rightarrow> tid option \<Rightarrow> int \<Rightarrow> byte \<Rightarrow> int \<Rightarrow> u32 \<Rightarrow> tcb" where
  "static_thread nm fo ds pr pol sp =
     \<lparr>ctx = sp, switches = 0, name = cstr nm @ replicate (TTHREAD_NAME_MAX_LEN - length nm) 0,
      waiter = None, follower = fo, detachstate = ds, schedpriority = pr, schedpolicy = pol,
      waitstate = WAIT_INVAL, autostack = 0, shared = 0\<rparr>"

definition tth_initialize :: "u32 \<Rightarrow> tth" where
  "tth_initialize sp =
     \<lparr>heap = [0 \<mapsto> static_thread ''tth-idle'' None PTHREAD_CREATE_DETACHED 0 SCHED_FIFO sp,
              1 \<mapsto> static_thread ''tth-default'' (Some 0) PTHREAD_CREATE_JOINABLE
                   (word_of_int SCHED_PRIORITY_DEFAULT) SCHED_POLICY_DEFAULT 0],
      running = Some 1, ready = Some 1, detach = None, sleeping = None, object_var = None,
      int_level = 0, tth_time = 0, mutexes = (\<lambda>_. \<lparr>m_waiter = None, owner = None\<rparr>),
      sems = (\<lambda>_. \<lparr>s_waiter = None, svalue = 0\<rparr>), conds = (\<lambda>_. None), preemption_us = 0, errno = 0,
      freed = []\<rparr>"

section \<open>Interrupts\<close>

definition tth_int_enter :: "tth \<Rightarrow> tth option" where
  "tth_int_enter s =
     (let n = s32 (int_level s + 1) in if n \<le> 0 then None else Some (s\<lparr>int_level := n\<rparr>))"

definition tth_int_exit :: "tth \<Rightarrow> tth option" where
  "tth_int_exit s =
     (if int_level s = 0 then None
      else let s = s\<lparr>int_level := int_level s - 1\<rparr> in
        if int_level s = 0 \<and> running s \<noteq> ready s then tth_int_context_switch s else Some s)"

definition tth_int_tick :: "tth \<Rightarrow> tth option" where
  "tth_int_tick s =
     do { s \<leftarrow> tth_sleep_tick s;
          let us = preemption_us s + 1000000 div TTHREAD_TICKS_PER_SEC;
          if us < TTHREAD_PREEMPTION_INTERVAL * 1000 then Some (s\<lparr>preemption_us := us\<rparr>)
          else do { s \<leftarrow> Some (s\<lparr>preemption_us := us - TTHREAD_PREEMPTION_INTERVAL * 1000\<rparr>);
                    r \<leftarrow> running s;
                    c \<leftarrow> heap s r;
                    if schedpolicy c = SCHED_RR then map_option fst (sched_yield s) else Some s } }"

text \<open>The timer interrupt.\<close>

definition timer_interrupt :: "tth \<Rightarrow> tth option" where
  "timer_interrupt s = do { s \<leftarrow> tth_int_enter s; s \<leftarrow> tth_int_tick s; tth_int_exit s }"

section \<open>Resuming\<close>

definition tth_resume :: "kont \<Rightarrow> tth \<Rightarrow> (tth \<times> outcome) option" where
  "tth_resume k s =
     (case k of
        K_lock m \<Rightarrow> Some (take_mutex m s)
      | K_join t \<Rightarrow> join_finish t s
      | K_cond m \<Rightarrow> tth_cs_mutex_lock m True s)"

end
