(* ===== verification/Tth_Sched.thy ===== *)
theory Tth_Sched
  imports Tth_Api
begin

text \<open>
  The scheduler invariant of TinyThreads and its preservation by moves and switches. Every list but
  the sleepers' is ordered by priority, the sleepers' by the time left; the idle thread is the last
  ready thread; outside an interrupt the running thread is the first ready one. The locale
  \<open>wait_queue\<close> holds what blocking on a list and waking from it do; the lists of mutexes, semaphores,
  condition variables, joiners and dead threads are its instances.
\<close>

section \<open>The invariant\<close>

definition idle :: tid where "idle = 0"

definition time_left :: "tth \<Rightarrow> tid \<Rightarrow> u32" where
  "time_left s t = (case heap s t of None \<Rightarrow> 0 | Some c \<Rightarrow> shared c - tth_time s)"

definition sleep_ok :: "tth \<Rightarrow> tid list \<Rightarrow> bool" where
  "sleep_ok s ts \<longleftrightarrow>
     sorted_wrt (\<lambda>a b. time_left s a \<le> time_left s b) ts \<and>
     (\<forall>t \<in> set ts. 0 < time_left s t \<and> time_left s t \<le> 1000000)"

definition sinv0 :: "tth \<Rightarrow> (slot \<Rightarrow> tid list) \<Rightarrow> bool" where
  "sinv0 s L \<longleftrightarrow>
     lists (load s) L \<and>
     (\<forall>h. is_head h \<longrightarrow> h \<noteq> Sleeping \<longrightarrow> by_prio (prio s) (L h)) \<and>
     sleep_ok s (L Sleeping) \<and> L Object_var = [] \<and>
     L Ready \<noteq> [] \<and> last (L Ready) = idle \<and> prio s idle = 0 \<and>
     (\<forall>t. heap s t \<noteq> None \<longrightarrow> t \<noteq> idle \<longrightarrow> 0 < prio s t) \<and>
     (\<forall>m. 0 \<le> svalue (sems s m) \<and> svalue (sems s m) \<le> SEM_VALUE_MAX \<and>
          (0 < svalue (sems s m) \<longrightarrow> L (Sem_waiter m) = []))"

definition running_ok :: "tth \<Rightarrow> (slot \<Rightarrow> tid list) \<Rightarrow> bool" where
  "running_ok s L \<longleftrightarrow>
     (if int_level s = 0 then running s = Some (hd (L Ready))
      else \<exists>r. running s = Some r \<and> r \<in> set (L Ready))"

definition sinv :: "tth \<Rightarrow> (slot \<Rightarrow> tid list) \<Rightarrow> bool" where
  "sinv s L \<longleftrightarrow> sinv0 s L \<and> running_ok s L"

named_theorems sched_simps \<open>the parts of the scheduler state other than the lists\<close>

lemma same_rest_left: "same_rest s s' \<Longrightarrow> time_left s' = time_left s"
proof
  fix t assume *: "same_rest s s'"
  then have "map_option strip (heap s' t) = map_option strip (heap s t)" by (simp add: same_rest_def)
  with * show "time_left s' t = time_left s t"
    by (cases "heap s t"; cases "heap s' t")
       (auto simp: time_left_def strip_def same_rest_def dest!: arg_cong [of _ _ shared])
qed

lemma same_rest_heap: "same_rest s s' \<Longrightarrow> heap s' t = None \<longleftrightarrow> heap s t = None"
proof -
  assume "same_rest s s'"
  then have "map_option strip (heap s' t) = map_option strip (heap s t)" by (simp add: same_rest_def)
  then show ?thesis by (cases "heap s t"; cases "heap s' t") auto
qed

lemma same_rest_sleep: "same_rest s s' \<Longrightarrow> sleep_ok s' ts = sleep_ok s ts"
  by (simp add: sleep_ok_def same_rest_left)

lemmas same_rests = same_rest_prio same_rest_left same_rest_heap same_rest_sleep

lemma same_restD:
  "same_rest s s' \<Longrightarrow> int_level s' = int_level s" "same_rest s s' \<Longrightarrow> tth_time s' = tth_time s"
  "same_rest s s' \<Longrightarrow> owner (mutexes s' m) = owner (mutexes s m)"
  "same_rest s s' \<Longrightarrow> svalue (sems s' m) = svalue (sems s m)"
  by (simp_all add: same_rest_def)

lemma sinv0_lists: "sinv0 s L \<Longrightarrow> lists (load s) L"
  by (simp add: sinv0_def)

lemma sinv0_moved:
  assumes "sinv0 s L" "same_rest s s'" "lists (load s') L'"
    "\<And>h. is_head h \<Longrightarrow> h \<noteq> Sleeping \<Longrightarrow> by_prio (prio s) (L' h)"
    "sleep_ok s (L' Sleeping)" "L' Object_var = []" "L' Ready \<noteq> []" "last (L' Ready) = idle"
    "\<And>m. 0 < svalue (sems s m) \<Longrightarrow> L' (Sem_waiter m) = []"
  shows "sinv0 s' L'"
  using assms same_restD [OF assms(2)] unfolding sinv0_def by (simp add: same_rests [OF assms(2)])

lemma sinv0_prio: "sinv0 s L \<Longrightarrow> is_head h \<Longrightarrow> h \<noteq> Sleeping \<Longrightarrow> by_prio (prio s) (L h)"
  by (simp add: sinv0_def)

lemma sinv0_idle_ready: "sinv0 s L \<Longrightarrow> idle \<in> set (L Ready)"
  by (metis last_in_set sinv0_def)

lemma sinv0_not_idle: "sinv0 s L \<Longrightarrow> is_head h \<Longrightarrow> h \<noteq> Ready \<Longrightarrow> t \<in> set (L h) \<Longrightarrow> t \<noteq> idle"
  using lists_disjoint [of "load s" L Ready h idle] sinv0_idle_ready [of s L] by (auto simp: sinv0_def)

lemma in_list_heap: "sinv0 s L \<Longrightarrow> is_head h \<Longrightarrow> t \<in> set (L h) \<Longrightarrow> heap s t \<noteq> None"
proof -
  assume *: "sinv0 s L" "is_head h" "t \<in> set (L h)"
  then have l: "lists (load s) L" by (simp add: sinv0_def)
  obtain p where "load s h = Some p" using lists_None [OF l *(2)] *(3) by (cases "load s h") auto
  from chain_dom [OF lists_chain [OF l *(2) this] *(3)] show ?thesis by simp
qed

lemma insert_ready:
  assumes "sinv0 s L" "by_prio (prio s) ts" "ts \<noteq> []" "last ts = idle" "heap s t \<noteq> None" "t \<noteq> idle"
  shows "by_prio (prio s) (insert_prio (prio s) t ts)" "last (insert_prio (prio s) t ts) = idle"
proof -
  show "by_prio (prio s) (insert_prio (prio s) t ts)" by (rule by_prio_insert) fact
  have "prio s (last ts) < prio s t" using assms by (simp add: sinv0_def)
  from last_insert_prio [OF assms(2,3) this] assms(4) show "last (insert_prio (prio s) t ts) = idle" by simp
qed

section \<open>Switching\<close>

lemma load_switches: "upd_thread t (switches_update f) s = Some s' \<Longrightarrow> load s' = load s"
proof
  fix sl
  show "upd_thread t (switches_update f) s = Some s' \<Longrightarrow> load s' sl = load s sl"
    by (cases sl) (auto simp: upd_thread_def bind_eq_Some_conv)
qed

lemma load_running: "load (s\<lparr>running := r\<rparr>) = load s"
proof
  fix sl show "load (s\<lparr>running := r\<rparr>) sl = load s sl" by (cases sl) auto
qed

lemma context_switch:
  assumes "sinv0 s L" "int_level s = 0"
  shows "\<exists>s'. tth_int_context_switch s = Some s' \<and> sinv s' L \<and> same_rest s s' \<and> wst s' = wst s \<and>
    load s' = load s"
proof -
  have l: "lists (load s) L" and ne: "L Ready \<noteq> []" using assms(1) by (simp_all add: sinv0_def)
  then obtain t ts where r: "L Ready = t # ts" by (cases "L Ready") auto
  have rd: "ready s = Some t" using lists_nonempty [OF l _ r] by simp
  have "heap s t \<noteq> None" by (rule in_list_heap [OF assms(1), of Ready]) (simp_all add: r)
  then obtain s1 where s1: "upd_thread t (switches_update (\<lambda>n. n + 1)) s = Some s1"
    by (auto simp: upd_thread_def)
  define s2 where "s2 = s1\<lparr>running := Some t\<rparr>"
  have ld: "load s2 = load s" using load_switches [OF s1] by (simp add: s2_def load_running)
  have sr: "same_rest s s2"
    using s1 by (auto simp: same_rest_def s2_def upd_thread_def bind_eq_Some_conv strip_def)
  have "wst s2 = wst s"
    using s1 by (auto simp: s2_def upd_thread_def bind_eq_Some_conv wst_def fun_eq_iff)
  moreover have "sinv0 s2 L"
    by (rule sinv0_moved [OF assms(1) sr]) (use assms(1) in \<open>auto simp: sinv0_def ld\<close>)
  moreover have "running_ok s2 L" using same_restD(1) [OF sr] assms(2) by (simp add: running_ok_def s2_def r)
  ultimately show ?thesis using rd s1 sr ld by (auto simp: tth_int_context_switch_def sinv_def s2_def)
qed

lemma cs_switch_inv:
  assumes "sinv0 s L" "int_level s \<noteq> 0 \<Longrightarrow> \<exists>r \<in> set (L Ready). running s = Some r"
  shows "\<exists>s'. tth_cs_switch s = Some (s', int_level s = 0 \<and> running s \<noteq> Some (hd (L Ready))) \<and>
    sinv s' L \<and> same_rest s s' \<and> wst s' = wst s \<and> load s' = load s"
proof -
  have l: "lists (load s) L" and ne: "L Ready \<noteq> []" using assms(1) by (simp_all add: sinv0_def)
  then have rd: "ready s = Some (hd (L Ready))"
    using lists_nonempty [OF l, of Ready "hd (L Ready)" "tl (L Ready)"] by simp
  show ?thesis
  proof (cases "int_level s = 0 \<and> running s \<noteq> ready s")
    case True
    with context_switch [OF assms(1)] rd show ?thesis by (auto simp: tth_cs_switch_def)
  next
    case False
    with assms rd have "sinv s L" by (auto simp: sinv_def running_ok_def)
    with False rd show ?thesis by (auto simp: tth_cs_switch_def)
  qed
qed

section \<open>Blocking and waking\<close>

locale wait_queue =
  fixes W :: "'i \<Rightarrow> slot" and w :: waitstate
  assumes head: "is_head (W i)" and other: "W i \<noteq> Ready" "W i \<noteq> Sleeping" "W i \<noteq> Object_var"
begin

text \<open>The first ready thread goes to wait, and the thread after it is the first ready one.\<close>

lemma block:
  assumes "sinv0 s L" "L Ready = t # ts" "t \<noteq> idle" "load s (W i) \<noteq> None"
    "\<And>m. W i = Sem_waiter m \<Longrightarrow> svalue (sems s m) \<le> 0"
  shows "\<exists>s'. tth_cs_move Ready (Some (W i)) w s = Some s' \<and>
    sinv0 s' (L(Ready := ts, W i := insert_prio (prio s) t (L (W i)))) \<and> same_rest s s' \<and>
    running s' = running s \<and> wst s' = (wst s)(t \<mapsto> w)"
proof -
  let ?L = "L(Ready := ts, W i := insert_prio (prio s) t (L (W i)))"
  have l: "lists (load s) L" using assms(1) by (simp add: sinv0_def)
  from cs_move_some [OF l _ assms(2) head assms(4), of w] other obtain s' where
    s': "tth_cs_move Ready (Some (W i)) w s = Some s'" and m: "moved s s' ?L t w" by auto
  from m have sr: "same_rest s s'" and l': "lists (load s') ?L" by (simp_all add: moved_def)
  have ts: "ts \<noteq> []" "last ts = idle" using assms(1-3) by (auto simp: sinv0_def split: if_splits)
  have "sinv0 s' ?L"
  proof (rule sinv0_moved [OF assms(1) sr l'])
    fix h assume h: "is_head h" "h \<noteq> Sleeping"
    have "by_prio (prio s) (t # ts)" using sinv0_prio [OF assms(1), of Ready] assms(2) by simp
    then have "by_prio (prio s) ts" by (simp add: by_prio_def)
    then show "by_prio (prio s) (?L h)"
      using sinv0_prio [OF assms(1)] h head other by (auto simp: by_prio_insert)
  next
    fix m assume "0 < svalue (sems s m)"
    then show "?L (Sem_waiter m) = []" using assms(1) assms(5) [of m] by (auto simp: sinv0_def)
  qed (use assms(1) other other [of i, symmetric] ts in \<open>auto simp: sinv0_def\<close>)
  with s' m show ?thesis by (auto simp: moved_def)
qed

text \<open>The first waiter becomes ready, behind the ready threads of its priority.\<close>

lemma wake:
  assumes "sinv0 s L" "L (W i) = t # ts"
  shows "\<exists>s'. tth_cs_move (W i) (Some Ready) WAIT_READY s = Some s' \<and>
    sinv0 s' (L(W i := ts, Ready := insert_prio (prio s) t (L Ready))) \<and> same_rest s s' \<and>
    running s' = running s \<and> wst s' = (wst s)(t \<mapsto> WAIT_READY)"
proof -
  let ?L = "L(W i := ts, Ready := insert_prio (prio s) t (L Ready))"
  have l: "lists (load s) L" using assms(1) by (simp add: sinv0_def)
  from cs_move_some [OF l head assms(2), of Ready WAIT_READY] other(1) [of i, symmetric] obtain s' where
    s': "tth_cs_move (W i) (Some Ready) WAIT_READY s = Some s'" and m: "moved s s' ?L t WAIT_READY" by auto
  from m have sr: "same_rest s s'" and l': "lists (load s') ?L" by (simp_all add: moved_def)
  have t: "t \<noteq> idle" by (rule sinv0_not_idle [OF assms(1) head [of i] other(1) [of i]]) (simp add: assms(2))
  have h: "heap s t \<noteq> None" by (rule in_list_heap [OF assms(1) head [of i]]) (simp add: assms(2))
  have R: "by_prio (prio s) (L Ready)" "L Ready \<noteq> []" "last (L Ready) = idle"
    using assms(1) by (simp_all add: sinv0_def)
  have "sinv0 s' ?L"
  proof (rule sinv0_moved [OF assms(1) sr l'])
    fix h assume h': "is_head h" "h \<noteq> Sleeping"
    have "by_prio (prio s) (t # ts)" using sinv0_prio [OF assms(1) head other(2)] assms(2) by metis
    then have "by_prio (prio s) ts" by (simp add: by_prio_def)
    then show "by_prio (prio s) (?L h)"
      using assms(1) h' insert_ready(1) [OF assms(1) R h t] by (auto simp: sinv0_def)
  next
    fix m assume "0 < svalue (sems s m)"
    then have "L (Sem_waiter m) = []" using assms(1) by (simp add: sinv0_def)
    then show "?L (Sem_waiter m) = []" using assms(2) by auto
  qed (use assms(1) other other [of i, symmetric] insert_ready(2) [OF assms(1) R h t] in \<open>auto simp: sinv0_def\<close>)
  with s' m show ?thesis by (auto simp: moved_def)
qed

lemma wake_none: "sinv0 s L \<Longrightarrow> L (W i) = [] \<Longrightarrow> load s (W i) \<noteq> None \<Longrightarrow>
  tth_cs_move (W i) (Some Ready) WAIT_READY s = Some s"
  using lists_head [of "load s" L "W i"] head by (auto simp: sinv0_def intro!: cs_move_empty)

end

interpretation mq: wait_queue Mutex_waiter WAIT_MUTEX by unfold_locales auto

interpretation sq: wait_queue Sem_waiter WAIT_SEM by unfold_locales auto

interpretation cq: wait_queue Cond_waiter WAIT_COND by unfold_locales auto

interpretation jq: wait_queue Join_waiter WAIT_THREAD by unfold_locales auto

interpretation dq: wait_queue "\<lambda>_ :: unit. Detach" WAIT_DEAD by unfold_locales auto

end
