(* ===== verification/Tth_Ops.thy ===== *)
theory Tth_Ops
  imports Tth_Sched
begin

text \<open>
  The operations of TinyThreads keep the scheduler invariant: what each one does to the lists, outside
  interrupts (\<open>int_level = 0\<close>) with \<open>t\<close> the running thread.
\<close>

section \<open>Blocking and waking with the switch\<close>

lemma sinv_running: "sinv s L \<Longrightarrow> int_level s = 0 \<Longrightarrow> L Ready = t # ts \<Longrightarrow> running s = Some t"
  by (simp add: sinv_def running_ok_def)

lemma sinv_ready:
  assumes "sinv s L" "int_level s = 0" "running s = Some t"
  obtains ts where "L Ready = t # ts"
  using assms by (cases "L Ready") (auto simp: sinv_def running_ok_def sinv0_def)

lemma sinv_sinv0: "sinv s L \<Longrightarrow> sinv0 s L"
  by (simp add: sinv_def)

lemma ready_tail:
  assumes "sinv0 s L" "L Ready = t # ts" "t \<noteq> idle"
  shows "ts \<noteq> []" "last ts = idle" "t \<notin> set ts"
  using assms lists_distinct [of "load s" L Ready] by (auto simp: sinv0_def split: if_splits)

lemma tail_switch:
  assumes "sinv0 s1 L'" "int_level s1 = 0" "running s1 = Some t" "L' Ready = ts" "t \<notin> set ts"
  shows "\<exists>s2. tth_cs_switch s1 = Some (s2, True) \<and> sinv s2 L' \<and> same_rest s1 s2 \<and> wst s2 = wst s1 \<and>
    running s2 = Some (hd ts)"
proof -
  have ne: "ts \<noteq> []" using assms(1,4) by (auto simp: sinv0_def)
  with assms(3-5) have "running s1 \<noteq> Some (hd (L' Ready))" by (metis hd_in_set option.inject)
  with cs_switch_inv [OF assms(1)] assms(2) obtain s2 where
    "tth_cs_switch s1 = Some (s2, True)" "sinv s2 L'" "same_rest s1 s2" "wst s2 = wst s1" by auto
  moreover from this have "running s2 = Some (hd ts)"
    using assms(2,4) by (auto simp: sinv_def running_ok_def same_restD)
  ultimately show ?thesis by blast
qed

context wait_queue
begin

lemma block_switch:
  assumes "sinv s L" "int_level s = 0" "L Ready = t # ts" "t \<noteq> idle" "load s (W i) \<noteq> None"
    "\<And>m. W i = Sem_waiter m \<Longrightarrow> svalue (sems s m) \<le> 0"
  shows "\<exists>s1 s2. tth_cs_move Ready (Some (W i)) w s = Some s1 \<and> tth_cs_switch s1 = Some (s2, True) \<and>
    sinv s2 (L(Ready := ts, W i := insert_prio (prio s) t (L (W i)))) \<and> same_rest s s2 \<and>
    running s2 = Some (hd ts) \<and> wst s2 = (wst s)(t \<mapsto> w)"
proof -
  let ?L = "L(Ready := ts, W i := insert_prio (prio s) t (L (W i)))"
  from block [OF sinv_sinv0 [OF assms(1)] assms(3-6)] obtain s1 where
    s1: "tth_cs_move Ready (Some (W i)) w s = Some s1" "sinv0 s1 ?L" "same_rest s s1"
      "running s1 = running s" "wst s1 = (wst s)(t \<mapsto> w)" by blast
  have "t \<notin> set ts" using ready_tail [OF sinv_sinv0 [OF assms(1)] assms(3,4)] by simp
  moreover have "?L Ready = ts" using other(1) [of i, symmetric] by simp
  moreover have "running s1 = Some t" using s1(4) sinv_running [OF assms(1-3)] by simp
  moreover have "int_level s1 = 0" using same_restD(1) [OF s1(3)] assms(2) by simp
  ultimately obtain s2 where "tth_cs_switch s1 = Some (s2, True)" "sinv s2 ?L" "same_rest s1 s2"
    "wst s2 = wst s1" "running s2 = Some (hd ts)"
    using tail_switch [OF s1(2)] by blast
  with s1 show ?thesis by (fastforce intro: same_rest_trans)
qed

lemma wake_switch:
  assumes "sinv s L" "L (W i) = t # ts"
  shows "\<exists>s1 s2 b. tth_cs_move (W i) (Some Ready) WAIT_READY s = Some s1 \<and> tth_cs_switch s1 = Some (s2, b) \<and>
    sinv s2 (L(W i := ts, Ready := insert_prio (prio s) t (L Ready))) \<and> same_rest s s2 \<and>
    wst s2 = (wst s)(t \<mapsto> WAIT_READY)"
proof -
  let ?L = "L(W i := ts, Ready := insert_prio (prio s) t (L Ready))"
  from wake [OF sinv_sinv0 [OF assms(1)] assms(2)] obtain s1 where
    s1: "tth_cs_move (W i) (Some Ready) WAIT_READY s = Some s1" "sinv0 s1 ?L" "same_rest s s1"
      "running s1 = running s" "wst s1 = (wst s)(t \<mapsto> WAIT_READY)" by blast
  have "\<exists>r \<in> set (?L Ready). running s1 = Some r" if "int_level s1 \<noteq> 0"
    using assms(1) s1(4) same_restD(1) [OF s1(3)] that by (auto simp: sinv_def running_ok_def)
  from cs_switch_inv [OF s1(2) this] s1 show ?thesis by (fastforce intro: same_rest_trans)
qed

end

section \<open>Yielding\<close>

lemma move_ready_ready:
  assumes "sinv0 s L" "L Ready = t # ts"
  shows "\<exists>s'. tth_cs_move Ready (Some Ready) WAIT_READY s = Some s' \<and>
    sinv0 s' (L(Ready := insert_prio (prio s) t ts)) \<and> same_rest s s' \<and> running s' = running s"
proof -
  let ?L = "L(Ready := insert_prio (prio s) t ts)"
  from cs_move_some [OF sinv0_lists [OF assms(1)] _ assms(2), of Ready WAIT_READY] obtain s' where
    s': "tth_cs_move Ready (Some Ready) WAIT_READY s = Some s'" and m: "moved s s' ?L t WAIT_READY" by auto
  from m have sr: "same_rest s s'" and l': "lists (load s') ?L" by (simp_all add: moved_def)
  have b: "by_prio (prio s) (t # ts)" using sinv0_prio [OF assms(1), of Ready] assms(2) by simp
  then have b': "by_prio (prio s) ts" by (simp add: by_prio_def)
  have h: "heap s t \<noteq> None" by (rule in_list_heap [OF assms(1), of Ready]) (simp_all add: assms(2))
  have "last (insert_prio (prio s) t ts) = idle"
  proof (cases "t = idle")
    case True
    have "distinct (t # ts)" "last (t # ts) = idle"
      using lists_distinct [OF sinv0_lists [OF assms(1)], of Ready] assms by (auto simp: sinv0_def)
    with True have "ts = []" using last_in_set [of ts] by (cases ts) auto
    with True show ?thesis by (simp add: insert_prio_def)
  next
    case False
    with insert_ready(2) [OF assms(1) b' _ _ h False] ready_tail [OF assms] show ?thesis by simp
  qed
  then have "sinv0 s' ?L"
    by (intro sinv0_moved [OF assms(1) sr l']) (use assms(1) b' in \<open>auto simp: sinv0_def by_prio_insert\<close>)
  with s' m show ?thesis by (auto simp: moved_def)
qed

lemma yield_ok:
  assumes "sinv s L" "L Ready = t # ts"
  shows "\<exists>s'. sched_yield s = Some (s', Done 0) \<and> sinv s' (L(Ready := insert_prio (prio s) t ts)) \<and>
    same_rest s s'"
proof -
  let ?L = "L(Ready := insert_prio (prio s) t ts)"
  from move_ready_ready [OF sinv_sinv0 [OF assms(1)] assms(2)] obtain s1 where
    s1: "tth_cs_move Ready (Some Ready) WAIT_READY s = Some s1" "sinv0 s1 ?L" "same_rest s s1"
      "running s1 = running s" by blast
  have "\<exists>r \<in> set (?L Ready). running s1 = Some r" if "int_level s1 \<noteq> 0"
    using assms s1(4) same_restD(1) [OF s1(3)] that by (auto simp: sinv_def running_ok_def)
  from cs_switch_inv [OF s1(2) this] s1 show ?thesis
    by (fastforce simp: sched_yield_def intro: same_rest_trans)
qed

section \<open>Fields the lists do not see\<close>

lemma load_cong:
  "ready s' = ready s \<Longrightarrow> detach s' = detach s \<Longrightarrow> sleeping s' = sleeping s \<Longrightarrow>
   object_var s' = object_var s \<Longrightarrow> (\<And>m. m_waiter (mutexes s' m) = m_waiter (mutexes s m)) \<Longrightarrow>
   (\<And>m. s_waiter (sems s' m) = s_waiter (sems s m)) \<Longrightarrow> conds s' = conds s \<Longrightarrow>
   (\<And>t. map_option waiter (heap s' t) = map_option waiter (heap s t)) \<Longrightarrow>
   (\<And>t. map_option follower (heap s' t) = map_option follower (heap s t)) \<Longrightarrow> load s' = load s"
proof
  fix sl
  assume *: "ready s' = ready s" "detach s' = detach s" "sleeping s' = sleeping s"
    "object_var s' = object_var s" "\<And>m. m_waiter (mutexes s' m) = m_waiter (mutexes s m)"
    "\<And>m. s_waiter (sems s' m) = s_waiter (sems s m)" "conds s' = conds s"
    "\<And>t. map_option waiter (heap s' t) = map_option waiter (heap s t)"
    "\<And>t. map_option follower (heap s' t) = map_option follower (heap s t)"
  show "load s' sl = load s sl" by (cases sl) (simp_all add: *)
qed

lemma sinv_cong:
  assumes "load s' = load s" "int_level s' = int_level s" "running s' = running s" "heap s' = heap s"
    "tth_time s' = tth_time s" "\<And>m. svalue (sems s' m) = svalue (sems s m)"
  shows "sinv s' L = sinv s L" "sinv0 s' L = sinv0 s L"
proof -
  have "prio s' = prio s" "time_left s' = time_left s"
    using assms by (auto simp: prio_def time_left_def fun_eq_iff split: option.splits)
  then show "sinv s' L = sinv s L" "sinv0 s' L = sinv0 s L"
    using assms by (simp_all add: sinv_def sinv0_def running_ok_def sleep_ok_def)
qed

lemma load_set_owner [sched_simps]: "load (set_owner m p s) = load s"
  by (rule load_cong) (simp_all add: set_owner_def)

lemma set_owner_fields [sched_simps]:
  "int_level (set_owner m p s) = int_level s" "running (set_owner m p s) = running s"
  "heap (set_owner m p s) = heap s" "tth_time (set_owner m p s) = tth_time s"
  "sems (set_owner m p s) = sems s" "owner (mutexes (set_owner m p s) k) = (if k = m then p else owner (mutexes s k))"
  by (simp_all add: set_owner_def)

lemma sinv_set_owner [sched_simps]: "sinv (set_owner m p s) L = sinv s L" "sinv0 (set_owner m p s) L = sinv0 s L"
  by (rule sinv_cong; simp add: sched_simps)+

lemma load_set_value: "load (set_value m v s) = load s"
  by (rule load_cong) (simp_all add: set_value_def)

lemma set_value_fields [sched_simps]:
  "int_level (set_value m v s) = int_level s" "running (set_value m v s) = running s"
  "heap (set_value m v s) = heap s" "tth_time (set_value m v s) = tth_time s"
  "svalue (sems (set_value m v s) k) = (if k = m then v else svalue (sems s k))"
  "mutexes (set_value m v s) = mutexes s"
  by (simp_all add: set_value_def)

lemma sinv_set_value:
  "sinv s L \<Longrightarrow> 0 \<le> v \<Longrightarrow> v \<le> SEM_VALUE_MAX \<Longrightarrow> (0 < v \<Longrightarrow> L (Sem_waiter m) = []) \<Longrightarrow>
   sinv (set_value m v s) L"
proof -
  assume *: "sinv s L" "0 \<le> v" "v \<le> SEM_VALUE_MAX" "0 < v \<Longrightarrow> L (Sem_waiter m) = []"
  have "prio (set_value m v s) = prio s" "time_left (set_value m v s) = time_left s"
    by (auto simp: prio_def time_left_def sched_simps fun_eq_iff split: option.splits)
  with * show ?thesis
    by (simp add: sinv_def sinv0_def running_ok_def sleep_ok_def load_set_value sched_simps)
qed

lemma sinv_errno [sched_simps]: "sinv (s\<lparr>errno := e\<rparr>) L = sinv s L"
proof -
  have "load (s\<lparr>errno := e\<rparr>) = load s" by (rule load_cong) simp_all
  then show ?thesis by (intro sinv_cong(1)) simp_all
qed

lemma sinv_freed [sched_simps]: "sinv (free_stack p s) L = sinv s L"
  "int_level (free_stack p s) = int_level s" "running (free_stack p s) = running s"
proof -
  have "load (free_stack p s) = load s" by (rule load_cong) (simp_all add: free_stack_def)
  then show "sinv (free_stack p s) L = sinv s L" by (intro sinv_cong(1)) (simp_all add: free_stack_def)
qed (simp_all add: free_stack_def)

text \<open>Changing a thread's fields that no list depends on.\<close>

lemma upd_other:
  assumes "upd_thread r f s = Some s'" "sinv0 s L" "r \<notin> set (L Sleeping)"
    "\<And>c. waiter (f c) = waiter c \<and> follower (f c) = follower c \<and> schedpriority (f c) = schedpriority c"
  shows "sinv0 s' L" "load s' = load s" "prio s' = prio s" "int_level s' = int_level s"
    "running s' = running s" "mutexes s' = mutexes s" "sems s' = sems s" "tth_time s' = tth_time s"
proof -
  from assms(1) obtain c where c: "heap s r = Some c" "s' = s\<lparr>heap := (heap s)(r \<mapsto> f c)\<rparr>"
    by (auto simp: upd_thread_def bind_eq_Some_conv)
  show l: "load s' = load s" by (rule load_cong) (auto simp: c assms(4))
  show p: "prio s' = prio s" by (auto simp: prio_def c assms(4) fun_eq_iff)
  show "int_level s' = int_level s" "running s' = running s" "mutexes s' = mutexes s" "sems s' = sems s"
    "tth_time s' = tth_time s" by (simp_all add: c(2))
  have "time_left s' t = time_left s t" if "t \<in> set (L Sleeping)" for t
    using that assms(3) by (auto simp: time_left_def c split: option.splits)
  then have "sleep_ok s' (L Sleeping) = sleep_ok s (L Sleeping)"
    by (auto simp: sleep_ok_def intro: sorted_wrt_mono_rel [rotated])
  moreover have "heap s' t \<noteq> None \<longleftrightarrow> heap s t \<noteq> None" for t using c by auto
  moreover have "sems s' = sems s" by (simp add: c(2))
  ultimately show "sinv0 s' L" using assms(2) by (simp add: sinv0_def l p)
qed

section \<open>Mutexes\<close>

text \<open>\<open>sinv_out s o\<close>: the operation returned, the invariant holds for some lists.\<close>

definition sinv_ex :: "tth \<Rightarrow> bool" where
  "sinv_ex s \<longleftrightarrow> int_level s = 0 \<and> (\<exists>L. sinv s L)"

lemma sinv_exI: "sinv s L \<Longrightarrow> int_level s = 0 \<Longrightarrow> sinv_ex s"
  by (auto simp: sinv_ex_def)

lemma sinv_exE:
  assumes "sinv_ex s" "running s = Some t"
  obtains L ts where "sinv s L" "int_level s = 0" "L Ready = t # ts"
  using assms sinv_ready by (metis sinv_ex_def)

lemma mutex_lock_ok:
  assumes "sinv_ex s" "running s = Some t" "t \<noteq> idle"
  shows "\<exists>s' r. tth_cs_mutex_lock m wait s = Some (s', r) \<and> sinv_ex s'"
proof -
  obtain L ts where *: "sinv s L" "int_level s = 0" "L Ready = t # ts"
    using assms(1,2) by (rule sinv_exE)
  from mq.block_switch [OF * assms(3), of m] obtain s1 s2 where
    b: "tth_cs_move Ready (Some (Mutex_waiter m)) WAIT_MUTEX s = Some s1" "tth_cs_switch s1 = Some (s2, True)"
      "sinv s2 (L(Ready := ts, Mutex_waiter m := insert_prio (prio s) t (L (Mutex_waiter m))))" "same_rest s s2"
    by auto
  from b(3,4) *(2) have "sinv_ex s2" by (auto intro: sinv_exI simp: same_restD)
  with b(1,2) assms(1) show ?thesis
    by (auto simp: tth_cs_mutex_lock_def take_mutex_def sinv_ex_def sched_simps)
qed

lemma cs_unlock_ok:
  assumes "sinv s L"
  shows "\<exists>s' r. tth_cs_mutex_unlock m s = Some (s', r) \<and>
    (if owner (mutexes s m) = running s then
       r = 0 \<and> (\<exists>L'. sinv0 s' L' \<and> (\<forall>r. r \<in> set (L Ready) \<longrightarrow> r \<in> set (L' Ready)) \<and>
         (case L (Mutex_waiter m) of
            [] \<Rightarrow> L' = L
          | t # ts \<Rightarrow> L' = L(Mutex_waiter m := ts, Ready := insert_prio (prio s) t (L Ready)))) \<and>
       running s' = running s \<and> same_rest (set_owner m None s) s'
     else r = EPERM \<and> s' = s)"
proof (cases "owner (mutexes s m) = running s")
  case True
  define s0 where "s0 = set_owner m None s"
  have i: "sinv0 s0 L" using assms by (simp add: s0_def sched_simps sinv_def)
  show ?thesis
  proof (cases "L (Mutex_waiter m)")
    case Nil
    have "tth_cs_move (Mutex_waiter m) (Some Ready) WAIT_READY s0 = Some s0"
      by (rule mq.wake_none [OF i Nil]) simp
    with True Nil i show ?thesis
      by (auto simp: tth_cs_mutex_unlock_def s0_def [symmetric]) (auto simp: s0_def sched_simps)
  next
    case (Cons t ts)
    have p: "prio s0 = prio s" by (simp add: s0_def prio_def sched_simps fun_eq_iff)
    from mq.wake [OF i Cons] p obtain s1 where
      s1: "tth_cs_move (Mutex_waiter m) (Some Ready) WAIT_READY s0 = Some s1"
        "sinv0 s1 (L(Mutex_waiter m := ts, Ready := insert_prio (prio s) t (L Ready)))"
        "same_rest s0 s1" "running s1 = running s0" by auto
    with True Cons show ?thesis
      by (auto simp: tth_cs_mutex_unlock_def s0_def [symmetric] EPERM_def) (auto simp: s0_def sched_simps)
  qed
next
  case False
  then show ?thesis by (auto simp: tth_cs_mutex_unlock_def)
qed

lemma mutex_unlock_ok:
  assumes "sinv_ex s" "running s = Some t"
  shows "\<exists>s' r. pthread_mutex_unlock m s = Some (s', r) \<and> sinv_ex s'"
proof -
  obtain L ts where *: "sinv s L" "int_level s = 0" "L Ready = t # ts" using assms by (rule sinv_exE)
  show ?thesis
  proof (cases "owner (mutexes s m) = running s")
    case True
    with cs_unlock_ok [OF *(1), of m] obtain s' L' where
      u: "tth_cs_mutex_unlock m s = Some (s', 0)" "sinv0 s' L'" "running s' = running s"
        "same_rest (set_owner m None s) s'" by auto
    then have i: "int_level s' = 0" using *(2) by (simp add: same_restD sched_simps)
    with cs_switch_inv [OF u(2)] obtain s2 b where "tth_cs_switch s' = Some (s2, b)" "sinv s2 L'" "same_rest s' s2"
      by blast
    with u i show ?thesis by (auto simp: pthread_mutex_unlock_def same_restD intro!: sinv_exI)
  next
    case False
    with cs_unlock_ok [OF *(1), of m] assms(1) show ?thesis by (auto simp: pthread_mutex_unlock_def EPERM_def)
  qed
qed

section \<open>Condition variables\<close>

lemma cond_signal_ok:
  assumes "sinv_ex s" "running s = Some t"
  shows "\<exists>s' r. pthread_cond_signal c s = Some (s', r) \<and> sinv_ex s'"
proof -
  obtain L ts where *: "sinv s L" "int_level s = 0" "L Ready = t # ts" using assms by (rule sinv_exE)
  show ?thesis
  proof (cases "L (Cond_waiter c)")
    case Nil
    have "tth_cs_move (Cond_waiter c) (Some Ready) WAIT_READY s = Some s"
      by (rule cq.wake_none [OF sinv_sinv0 [OF *(1)] Nil]) simp
    moreover obtain s2 b where "tth_cs_switch s = Some (s2, b)" "sinv s2 L" "same_rest s s2"
      using cs_switch_inv [OF sinv_sinv0 [OF *(1)]] *(2) by blast
    ultimately show ?thesis using *(2) by (auto simp: pthread_cond_signal_def same_restD intro!: sinv_exI)
  next
    case (Cons u us)
    from cq.wake_switch [OF *(1) Cons] *(2) show ?thesis
      by (fastforce simp: pthread_cond_signal_def same_restD intro!: sinv_exI)
  qed
qed

lemma cond_wake_all_ok:
  "sinv0 s L \<Longrightarrow> \<exists>s' L'. cond_wake_all c s = Some s' \<and> sinv0 s' L' \<and> same_rest s s' \<and>
     running s' = running s \<and> L' (Cond_waiter c) = [] \<and> set (L' Ready) = set (L Ready) \<union> set (L (Cond_waiter c))"
proof (induction "L (Cond_waiter c)" arbitrary: s L)
  case Nil
  have "conds s c = None" using lists_head [OF sinv0_lists [OF Nil.prems], of "Cond_waiter c"] Nil.hyps by simp
  then have "cond_wake_all c s = Some s" by (subst cond_wake_all.simps) simp
  with Nil show ?case by force
next
  case (Cons t ts)
  have "conds s c = Some t"
    using lists_nonempty [OF sinv0_lists [OF Cons.prems], of "Cond_waiter c" t ts] Cons.hyps(2) by simp
  moreover obtain s1 where s1: "tth_cs_move (Cond_waiter c) (Some Ready) WAIT_READY s = Some s1"
    "sinv0 s1 (L(Cond_waiter c := ts, Ready := insert_prio (prio s) t (L Ready)))" "same_rest s s1"
    "running s1 = running s"
    using cq.wake [OF Cons.prems Cons.hyps(2) [symmetric]] by blast
  moreover obtain s' L' where "cond_wake_all c s1 = Some s'" "sinv0 s' L'" "same_rest s1 s'"
    "running s' = running s1" "L' (Cond_waiter c) = []" "set (L' Ready) = insert t (set (L Ready)) \<union> set ts"
    using Cons.hyps(1) [OF _ s1(2)] by auto
  ultimately show ?case using Cons.hyps(2) [symmetric]
    by (intro exI [of _ s'] exI [of _ L'], subst cond_wake_all.simps) (auto intro: same_rest_trans)
qed

lemma cond_broadcast_ok:
  assumes "sinv_ex s" "running s = Some t"
  shows "\<exists>s' r. pthread_cond_broadcast c s = Some (s', r) \<and> sinv_ex s'"
proof -
  obtain L ts where *: "sinv s L" "int_level s = 0" "L Ready = t # ts" using assms by (rule sinv_exE)
  from cond_wake_all_ok [OF sinv_sinv0 [OF *(1)]] obtain s1 L1 where
    s1: "cond_wake_all c s = Some s1" "sinv0 s1 L1" "same_rest s s1" by blast
  have i: "int_level s1 = 0" using s1(3) *(2) by (simp add: same_restD)
  with cs_switch_inv [OF s1(2)] obtain s2 b where "tth_cs_switch s1 = Some (s2, b)" "sinv s2 L1" "same_rest s1 s2"
    by blast
  with s1 i show ?thesis by (auto simp: pthread_cond_broadcast_def same_restD intro!: sinv_exI)
qed

lemma cond_wait_ok:
  assumes "sinv_ex s" "running s = Some t" "t \<noteq> idle"
  shows "\<exists>s' r. pthread_cond_wait c m s = Some (s', r) \<and> sinv_ex s'"
proof -
  obtain L ts where *: "sinv s L" "int_level s = 0" "L Ready = t # ts" using assms(1,2) by (rule sinv_exE)
  show ?thesis
  proof (cases "owner (mutexes s m) = running s")
    case True
    with cs_unlock_ok [OF *(1), of m] obtain s1 L1 where
      u: "tth_cs_mutex_unlock m s = Some (s1, 0)" "sinv0 s1 L1" "running s1 = running s"
        "same_rest (set_owner m None s) s1" "\<forall>r. r \<in> set (L Ready) \<longrightarrow> r \<in> set (L1 Ready)" by auto
    have i: "int_level s1 = 0" using u(4) *(2) by (simp add: same_restD sched_simps)
    obtain t1 ts1 where L1: "L1 Ready = t1 # ts1" using u(2) by (cases "L1 Ready") (auto simp: sinv0_def)
    have "t \<in> set (L1 Ready)" using u(5) *(3) by simp
    have t1: "t1 \<noteq> idle"
    proof
      assume "t1 = idle"
      have "distinct (t1 # ts1)" "last (t1 # ts1) = idle"
        using lists_distinct [OF sinv0_lists [OF u(2)], of Ready] u(2) L1 by (auto simp: sinv0_def)
      with \<open>t1 = idle\<close> have "ts1 = []" using last_in_set [of ts1] by (cases ts1) auto
      with \<open>t \<in> set (L1 Ready)\<close> L1 \<open>t1 = idle\<close> assms(3) show False by simp
    qed
    from cq.block [OF u(2) L1 t1, of c] obtain s2 where
      s2: "tth_cs_move Ready (Some (Cond_waiter c)) WAIT_COND s1 = Some s2"
        "sinv0 s2 (L1(Ready := ts1, Cond_waiter c := insert_prio (prio s1) t1 (L1 (Cond_waiter c))))"
        "same_rest s1 s2" "running s2 = running s1" by auto
    have i2: "int_level s2 = 0" using s2(3) i by (simp add: same_restD)
    define L2 where "L2 = L1(Ready := ts1, Cond_waiter c := insert_prio (prio s1) t1 (L1 (Cond_waiter c)))"
    have h2: "hd (L2 Ready) = hd ts1" by (simp add: L2_def)
    from cs_switch_inv [OF s2(2)] i2 obtain s3 b where
      s3': "tth_cs_switch s2 = Some (s3, b)" "sinv s3 L2" "same_rest s2 s3" "b \<longleftrightarrow> running s2 \<noteq> Some (hd ts1)"
      unfolding L2_def [symmetric] h2 by blast
    have "int_level s3 = 0" using s3'(3) i2 by (simp add: same_restD)
    with s3' have s3: "tth_cs_switch s2 = Some (s3, b)" "sinv_ex s3" "b \<longleftrightarrow> running s2 \<noteq> Some (hd ts1)"
      by (auto intro: sinv_exI)
    have "\<exists>s' r. (if b then Some (s3, Blocked (K_cond m)) else tth_cs_mutex_lock m True s3) = Some (s', r) \<and> sinv_ex s'"
    proof (cases b)
      case False
      then have r3: "running s3 = Some t"
        using s3(1) s2(4) u(3) assms(2)
        by (auto simp: tth_cs_switch_def bind_eq_Some_conv split: if_splits)
      with mutex_lock_ok [OF s3(2) r3 assms(3)] False show ?thesis by simp
    qed (use s3 in simp)
    with u(1) s2(1) s3(1) show ?thesis by (simp add: pthread_cond_wait_def)
  next
    case False
    with cs_unlock_ok [OF *(1), of m] assms(1) show ?thesis by (auto simp: pthread_cond_wait_def EPERM_def)
  qed
qed

section \<open>Semaphores\<close>

lemma sem_post_ok:
  assumes "sinv s L" "int_level s = 0"
  shows "\<exists>s' r. sem_post m s = Some (s', Done r) \<and> int_level s' = 0 \<and>
    (case L (Sem_waiter m) of
       [] \<Rightarrow> if svalue (sems s m) = SEM_VALUE_MAX then r = -1 \<and> errno s' = EOVERFLOW \<and> sinv s' L \<and> sems s' = sems s
             else r = 0 \<and> sinv s' L \<and> svalue (sems s' m) = svalue (sems s m) + 1
     | t # ts \<Rightarrow> r = 0 \<and> svalue (sems s' m) = svalue (sems s m) \<and> wst s' t = Some WAIT_READY \<and>
         sinv s' (L(Sem_waiter m := ts, Ready := insert_prio (prio s) t (L Ready))))"
proof (cases "L (Sem_waiter m)")
  case Nil
  then have w: "s_waiter (sems s m) = None"
    using lists_head [OF sinv0_lists [OF sinv_sinv0 [OF assms(1)]], of "Sem_waiter m"] by simp
  have v: "0 \<le> svalue (sems s m)" "svalue (sems s m) \<le> SEM_VALUE_MAX"
    using assms(1) by (simp_all add: sinv_def sinv0_def)
  then have "sinv (set_value m (svalue (sems s m) + 1) s) L" if "svalue (sems s m) \<noteq> SEM_VALUE_MAX"
    by (intro sinv_set_value [OF assms(1)]) (use Nil that in auto)
  with w Nil assms show ?thesis by (auto simp: sem_post_def sched_simps)
next
  case (Cons t ts)
  then have w: "s_waiter (sems s m) = Some t"
    using lists_nonempty [OF sinv0_lists [OF sinv_sinv0 [OF assms(1)]], of "Sem_waiter m"] by simp
  from sq.wake_switch [OF assms(1) Cons] w Cons assms(2) show ?thesis
    by (fastforce simp: sem_post_def same_restD)
qed

lemma sem_wait_ok:
  assumes "sinv s L" "int_level s = 0" "L Ready = t # ts" "t \<noteq> idle"
  shows "\<exists>s'. sem_wait m s = Some (s', Done 0) \<and> int_level s' = 0 \<and>
    (if 0 < svalue (sems s m) then sinv s' L \<and> svalue (sems s' m) = svalue (sems s m) - 1 \<and> running s' = Some t
     else svalue (sems s' m) = svalue (sems s m) \<and> wst s' t = Some WAIT_SEM \<and> running s' = Some (hd ts) \<and>
       sinv s' (L(Ready := ts, Sem_waiter m := insert_prio (prio s) t (L (Sem_waiter m)))))"
proof (cases "0 < svalue (sems s m)")
  case True
  have v: "svalue (sems s m) \<le> SEM_VALUE_MAX" "L (Sem_waiter m) = []"
    using assms(1) True by (simp_all add: sinv_def sinv0_def)
  with True have "sinv (set_value m (svalue (sems s m) - 1) s) L"
    by (intro sinv_set_value [OF assms(1)]) auto
  with True assms sinv_running [OF assms(1-3)] show ?thesis by (auto simp: sem_wait_def sched_simps)
next
  case False
  then have "svalue (sems s n) \<le> 0" if "Sem_waiter m = Sem_waiter n" for n using that by simp
  with sq.block_switch [OF assms, of m] False assms(2) show ?thesis
    by (fastforce simp: sem_wait_def same_restD)
qed

lemma sem_trywait_ok:
  assumes "sinv s L" "int_level s = 0"
  shows "\<exists>s'. sem_trywait m s = Some (s', Done (if 0 < svalue (sems s m) then 0 else EAGAIN)) \<and> sinv s' L \<and>
    int_level s' = 0"
proof -
  have v: "0 \<le> svalue (sems s m)" "svalue (sems s m) \<le> SEM_VALUE_MAX" "0 < svalue (sems s m) \<Longrightarrow> L (Sem_waiter m) = []"
    using assms(1) by (simp_all add: sinv_def sinv0_def)
  then have "sinv (set_value m (svalue (sems s m) - 1) s) L" if "0 < svalue (sems s m)"
    by (intro sinv_set_value [OF assms(1)]) (use that in auto)
  with assms show ?thesis by (auto simp: sem_trywait_def sched_simps)
qed

end
