(* ===== verification/Tth_Time.thy ===== *)
theory Tth_Time
  imports Tth_Ops
begin

text \<open>
  \<open>usleep\<close> and the timer interrupt: the sleepers are kept in the order in which their time runs out,
  and a tick makes ready exactly those whose time has run out.
\<close>

section \<open>Going to sleep\<close>

lemma sleep_slot_chain:
  assumes "load s sl = Some p" "chain (load s) p ys"
  shows "sleep_slot s sl us = Some
    (let as = takeWhile (\<lambda>u. time_left s u < us) ys in if as = [] then sl else Follower_of (last as),
     hd_opt (dropWhile (\<lambda>u. time_left s u < us) ys))"
  using assms
proof (induction ys arbitrary: sl p)
  case Nil
  then show ?case by (subst sleep_slot.simps) simp
next
  case (Cons n ys)
  then obtain c where c: "heap s n = Some c" "chain (load s) (follower c) ys" "p = Some n"
    by (auto split: option.splits)
  then have tl: "time_left s n = shared c - tth_time s" by (simp add: time_left_def)
  show ?case
  proof (cases "us \<le> shared c - tth_time s")
    case True
    with Cons.prems(1) c tl show ?thesis by (subst sleep_slot.simps) auto
  next
    case False
    have "sleep_slot s (Follower_of n) us = Some
      (let as = takeWhile (\<lambda>u. time_left s u < us) ys in if as = [] then Follower_of n else Follower_of (last as),
       hd_opt (dropWhile (\<lambda>u. time_left s u < us) ys))"
      by (rule Cons.IH [OF _ c(2)]) (simp add: c(1))
    with False Cons.prems(1) c tl show ?thesis
      by (subst sleep_slot.simps) (auto simp: Let_def not_le)
  qed
qed

definition insert_sleeper :: "(tid \<Rightarrow> u32) \<Rightarrow> u32 \<Rightarrow> tid \<Rightarrow> tid list \<Rightarrow> tid list" where
  "insert_sleeper left us t ts =
     takeWhile (\<lambda>u. left u < us) ts @ t # dropWhile (\<lambda>u. left u < us) ts"

lemma sleep_ok_insert:
  assumes "sleep_ok s ts" "time_left s' t = us" "0 < us" "us \<le> 1000000"
    "\<And>u. u \<in> set ts \<Longrightarrow> time_left s' u = time_left s u"
  shows "sleep_ok s' (insert_sleeper (time_left s) us t ts)"
proof -
  let ?a = "takeWhile (\<lambda>u. time_left s u < us) ts" and ?b = "dropWhile (\<lambda>u. time_left s u < us) ts"
  have ts: "ts = ?a @ ?b" by simp
  have "sorted_wrt (\<lambda>x y. time_left s x \<le> time_left s y) (?a @ ?b)" using assms(1) by (simp add: sleep_ok_def)
  then have s: "sorted_wrt (\<lambda>x y. time_left s x \<le> time_left s y) ?a"
    "sorted_wrt (\<lambda>x y. time_left s x \<le> time_left s y) ?b"
    "\<And>x y. x \<in> set ?a \<Longrightarrow> y \<in> set ?b \<Longrightarrow> time_left s x \<le> time_left s y"
    by (auto simp: sorted_wrt_append simp del: takeWhile_dropWhile_id)
  have a: "time_left s x < us" if "x \<in> set ?a" for x using that by (auto dest: set_takeWhileD)
  have b: "us \<le> time_left s y" if "y \<in> set ?b" for y
  proof (cases ?b)
    case (Cons z zs)
    then have "us \<le> time_left s z" by (metis dropWhile_eq_Cons_conv not_less)
    with that Cons s(2) show ?thesis by auto
  next
    case Nil
    with that have "y \<in> set []" by (simp only:)
    then show ?thesis by simp
  qed
  have m: "x \<in> set ?a \<or> x \<in> set ?b \<Longrightarrow> x \<in> set ts" for x using ts by (metis Un_iff set_append)
  have w: "sorted_wrt (\<lambda>x y. time_left s' x \<le> time_left s' y) ?a"
    "sorted_wrt (\<lambda>x y. time_left s' x \<le> time_left s' y) ?b"
    using s(1,2) assms(5) m by (auto elim!: sorted_wrt_mono_rel [rotated])
  show ?thesis
    unfolding sleep_ok_def insert_sleeper_def
  proof (intro conjI ballI)
    show "sorted_wrt (\<lambda>x y. time_left s' x \<le> time_left s' y) (?a @ t # ?b)"
      using w s(3) a b m assms(2,5) by (auto simp: sorted_wrt_append less_imp_le)
    fix x assume "x \<in> set (?a @ t # ?b)"
    then have "x = t \<or> x \<in> set ts" using m by auto
    with assms show "0 < time_left s' x" "time_left s' x \<le> 1000000" by (auto simp: sleep_ok_def)
  qed
qed

lemma usleep_ok:
  assumes "sinv s L" "int_level s = 0" "L Ready = t # ts" "t \<noteq> idle" "0 < us" "us \<le> 1000000"
  shows "\<exists>s'. usleep us s = Some (s', Done 0) \<and> int_level s' = 0 \<and> running s' = Some (hd ts) \<and>
    sinv s' (L(Ready := ts, Sleeping := insert_sleeper (time_left s) us t (L Sleeping))) \<and>
    time_left s' t = us \<and> wst s' t = Some WAIT_SLEEP"
proof -
  have i: "sinv0 s L" and l: "lists (load s) L" using assms(1) by (simp_all add: sinv_def sinv0_def)
  have r: "running s = Some t" using sinv_running [OF assms(1-3)] .
  obtain c where c: "heap s t = Some c" using in_list_heap [OF i, of Ready t] assms(3) by auto
  have tS: "t \<notin> set (L Sleeping)" using lists_disjoint [OF l, of Ready Sleeping t] assms(3) by simp
  define s1 where "s1 = s\<lparr>heap := (heap s)(t \<mapsto> c\<lparr>shared := tth_time s + us\<rparr>)\<rparr>"
  have s1: "upd_thread t (shared_update (\<lambda>_. tth_time s + us)) s = Some s1"
    using c by (simp add: upd_thread_def s1_def)
  from upd_other [OF s1 i tS] have i1: "sinv0 s1 L" "load s1 = load s" "prio s1 = prio s" "int_level s1 = 0"
    "running s1 = running s" "tth_time s1 = tth_time s"
    using assms(2) by simp_all
  define s2 where "s2 = s1\<lparr>heap := (heap s1)(t \<mapsto> c\<lparr>shared := tth_time s + us, waitstate := WAIT_SLEEP\<rparr>)\<rparr>"
  have s2: "upd_thread t (waitstate_update (\<lambda>_. WAIT_SLEEP)) s1 = Some s2"
    by (simp add: upd_thread_def s2_def s1_def)
  have l2: "load s2 = load s" using load_waitstate [OF s2] i1(2) by simp
  have c2: "heap s2 t = Some (c\<lparr>shared := tth_time s + us, waitstate := WAIT_SLEEP\<rparr>)" by (simp add: s2_def)
  have f: "load s (Follower_of t) = Some (follower c)" by (simp add: c)
  obtain s3 where s3: "store Ready (follower c) s2 = Some s3" by simp
  from lists_pop [OF l _ assms(3) f] have p: "lists (load s3) (L(Ready := ts))" "free_of t (L(Ready := ts))"
    using load_store [OF s3] l2 by simp_all
  have t2: "time_left s2 u = (if u = t then us else time_left s u)" for u
    using c by (auto simp: s2_def s1_def time_left_def split: option.splits)
  have sr3: "same_rest s2 s3" using same_rest_store [OF s3] .
  have t3: "time_left s3 u = (if u = t then us else time_left s u)" for u
    using same_rest_left [OF sr3] t2 by simp
  define as where "as = takeWhile (\<lambda>u. time_left s u < us) (L Sleeping)"
  define bs where "bs = dropWhile (\<lambda>u. time_left s u < us) (L Sleeping)"
  have Sl: "(L(Ready := ts)) Sleeping = as @ bs" by (simp add: as_def bs_def)
  obtain q where q: "load s3 Sleeping = Some q" by simp
  have "chain (load s3) q (L Sleeping)" using lists_chain [OF p(1) _ q] by simp
  moreover have "takeWhile (\<lambda>u. time_left s3 u < us) (L Sleeping) = as"
    unfolding as_def by (rule takeWhile_cong [OF refl]) (use tS in \<open>auto simp: t3\<close>)
  moreover have "dropWhile (\<lambda>u. time_left s3 u < us) (L Sleeping) = bs"
    unfolding bs_def by (rule dropWhile_cong [OF refl]) (use tS in \<open>auto simp: t3\<close>)
  ultimately have sl:
    "sleep_slot s3 Sleeping us = Some (if as = [] then Sleeping else Follower_of (last as), hd_opt bs)"
    using sleep_slot_chain [OF q, of "L Sleeping" us] by (simp add: Let_def)
  have "heap s3 t \<noteq> None" using c2 same_rest_heap [OF sr3] by simp
  from push_slot [OF p _ _ this Sl refl] obtain s4 s5 where
    s4: "store (Follower_of t) (hd_opt bs) s3 = Some s4" and
    s5: "store (if as = [] then Sleeping else Follower_of (last as)) (Some t) s4 = Some s5" and
    m5: "lists (load s5) (L(Ready := ts, Sleeping := as @ t # bs))" "same_rest s3 s5" "wst s5 = wst s3"
      "running s5 = running s3" by (auto simp del: fun_upd_apply)
  have sr5: "same_rest s2 s5" using same_rest_trans [OF sr3 m5(2)] .
  have r5: "running s5 = Some t" using m5(4) running_store [OF s3] running_upd [OF s2] i1(5) r by simp
  let ?L = "L(Ready := ts, Sleeping := insert_sleeper (time_left s) us t (L Sleeping))"
  have L5: "?L = L(Ready := ts, Sleeping := as @ t # bs)" by (simp add: insert_sleeper_def as_def bs_def)
  have "prio s2 = prio s" using same_rest_prio [OF same_rest_waitstate [OF s2]] i1(3) by simp
  then have pr5: "prio s5 = prio s" using same_rest_prio [OF sr5] by simp
  have hp: "heap s5 u = None \<longleftrightarrow> heap s u = None" for u
    using same_rest_heap [OF sr5, of u] c by (auto simp: s2_def s1_def)
  have sv: "svalue (sems s5 k) = svalue (sems s k)" for k
    using same_restD(4) [OF sr5] by (simp add: s2_def s1_def)
  have t5: "time_left s5 u = (if u = t then us else time_left s u)" for u
    using same_rest_left [OF sr5] t2 by simp
  have so: "sleep_ok s5 (insert_sleeper (time_left s) us t (L Sleeping))"
    by (rule sleep_ok_insert) (use i tS assms(5,6) in \<open>auto simp: t5 sinv0_def\<close>)
  have b: "by_prio (prio s) ts" using sinv0_prio [OF i, of Ready] assms(3) by (simp add: by_prio_def)
  have i5: "sinv0 s5 ?L"
    using i m5(1) so ready_tail [OF i assms(3,4)] b
    unfolding sinv0_def L5 [symmetric] pr5 sv hp by auto
  have il5: "int_level s5 = 0" using same_restD(1) [OF sr5] i1(4) by (simp add: s2_def)
  from tail_switch [OF i5 il5 r5 _ ready_tail(3) [OF i assms(3,4)]] obtain s6 where
    s6: "tth_cs_switch s5 = Some (s6, True)" "sinv s6 ?L" "same_rest s5 s6" "wst s6 = wst s5"
      "running s6 = Some (hd ts)" by auto
  have nz: "us \<noteq> 0" using assms(5) by auto
  have "usleep us s = Some (s6, Done 0)"
    using nz assms(5,6) r s1 s2 c2 s3 sl s4 s5 s6(1)
    by (simp add: usleep_def not_less[symmetric] del: store.simps(1))
  moreover have "wst s6 t = Some WAIT_SLEEP"
    using s6(4) m5(3) wst_store [OF s3] c2 by (simp add: wst_def)
  moreover have "time_left s6 t = us" using same_rest_left [OF s6(3)] t5 by simp
  moreover have "int_level s6 = 0" using same_restD(1) [OF s6(3)] il5 by simp
  ultimately show ?thesis using s6 by blast
qed

section \<open>The tick\<close>

abbreviation (input) at_time :: "u32 \<Rightarrow> tth \<Rightarrow> tth" where
  "at_time T s \<equiv> s\<lparr>tth_time := T\<rparr>"

lemma load_time: "load (at_time T s) = load s"
  by (rule load_cong) simp_all

lemma same_rest_time: "same_rest s s' \<Longrightarrow> same_rest (at_time T s) (at_time T s')"
  by (simp add: same_rest_def)

lemma prio_time: "prio (at_time T s) = prio s"
  by (auto simp: prio_def fun_eq_iff)

text \<open>The invariant during the loop is that of the state before the time moved on: the sleepers are
  ordered by the time they had left then.\<close>

lemma wake_sleeper:
  assumes "sinv0 (at_time T s) L" "L Sleeping = t # ts"
  shows "\<exists>s'. tth_cs_move Sleeping (Some Ready) WAIT_READY s = Some s' \<and>
    sinv0 (at_time T s') (L(Sleeping := ts, Ready := insert_prio (prio s) t (L Ready))) \<and> same_rest s s' \<and>
    running s' = running s"
proof -
  let ?L = "L(Sleeping := ts, Ready := insert_prio (prio s) t (L Ready))"
  note i = assms(1)
  have l: "lists (load s) L" using sinv0_lists [OF i] by (simp add: load_time)
  from cs_move_some [OF l _ assms(2), of Ready WAIT_READY] obtain s' where
    s': "tth_cs_move Sleeping (Some Ready) WAIT_READY s = Some s'" and m: "moved s s' ?L t WAIT_READY" by auto
  from m have sr: "same_rest s s'" and l': "lists (load s') ?L" by (simp_all add: moved_def)
  have t: "t \<noteq> idle" by (rule sinv0_not_idle [OF i, of Sleeping]) (simp_all add: assms(2))
  have h: "heap (at_time T s) t \<noteq> None" by (rule in_list_heap [OF i, of Sleeping]) (simp_all add: assms(2))
  have R: "by_prio (prio (at_time T s)) (L Ready)" "L Ready \<noteq> []" "last (L Ready) = idle"
    using i by (simp_all add: sinv0_def)
  have "sleep_ok (at_time T s) (t # ts)" using i assms(2) by (simp add: sinv0_def)
  then have so: "sleep_ok (at_time T s) ts" by (simp add: sleep_ok_def)
  have "sinv0 (at_time T s') ?L"
    by (rule sinv0_moved [OF i same_rest_time [OF sr]])
       (use i so l' insert_ready [OF i R h t] in \<open>auto simp: sinv0_def load_time prio_time\<close>)
  with s' m show ?thesis by (auto simp: moved_def)
qed

lemma elapsed_sign:
  assumes "0 < (x :: u32)" "x \<le> 1000000"
  shows "sint (x - 1000) > 0 \<longleftrightarrow> 1000 < x"
proof -
  have u: "uint x \<le> 1000000" "0 < uint x" using assms by (simp_all add: word_le_def word_less_def)
  have "x - 1000 = word_of_int (uint x - 1000)" by simp
  then have "sint (x - 1000) = s32 (uint x - 1000)" by (simp only: sint_word_of_int_s32)
  also have "\<dots> = uint x - 1000" using u by (simp add: s32_def)
  finally show ?thesis by (simp add: word_less_def)
qed

lemma wake_loop_ok:
  "sinv0 (at_time T s) L \<Longrightarrow> tth_time s = T + 1000 \<Longrightarrow>
   \<exists>s' L'. wake_loop s = Some s' \<and> sinv0 (at_time T s') L' \<and> same_rest s s' \<and> running s' = running s \<and>
     L' Sleeping = dropWhile (\<lambda>t. time_left (at_time T s) t \<le> 1000) (L Sleeping) \<and>
     set (L' Ready) = set (L Ready) \<union> set (takeWhile (\<lambda>t. time_left (at_time T s) t \<le> 1000) (L Sleeping))"
proof (induction "L Sleeping" arbitrary: s L)
  case Nil
  have "sleeping s = None"
    using lists_head [OF sinv0_lists [OF Nil.prems(1)], of Sleeping] Nil.hyps by simp
  then have "wake_loop s = Some s" by (subst wake_loop.simps) simp
  with Nil show ?case by force
next
  case (Cons t ts)
  have sl: "sleeping s = Some t"
    using lists_nonempty [OF sinv0_lists [OF Cons.prems(1)], of Sleeping t ts] Cons.hyps(2) by simp
  obtain c where c: "heap s t = Some c"
    using in_list_heap [OF Cons.prems(1), of Sleeping t] Cons.hyps(2) [symmetric] by auto
  have so: "sleep_ok (at_time T s) (t # ts)" using Cons.prems(1) Cons.hyps(2) by (simp add: sinv0_def)
  have left: "time_left (at_time T s) t = shared c - T" by (simp add: time_left_def c)
  have e: "sint (shared c - tth_time s) > 0 \<longleftrightarrow> 1000 < time_left (at_time T s) t"
  proof -
    have "shared c - T - 1000 = shared c - tth_time s" by (simp add: Cons.prems(2) diff_diff_eq)
    moreover have "0 < shared c - T" "shared c - T \<le> 1000000"
      using so left by (auto simp: sleep_ok_def)
    ultimately show ?thesis using elapsed_sign [of "shared c - T"] by (simp only: left)
  qed
  show ?case
  proof (cases "1000 < time_left (at_time T s) t")
    case True
    with sl c e have "wake_loop s = Some s" by (subst wake_loop.simps) simp
    with True Cons.prems(1) Cons.hyps(2) [symmetric] show ?thesis
      by (intro exI [of _ s] exI [of _ L]) (auto simp: not_le [symmetric])
  next
    case False
    from wake_sleeper [OF Cons.prems(1) Cons.hyps(2) [symmetric]] obtain s1 where
      s1: "tth_cs_move Sleeping (Some Ready) WAIT_READY s = Some s1"
        "sinv0 (at_time T s1) (L(Sleeping := ts, Ready := insert_prio (prio s) t (L Ready)))"
        "same_rest s s1" "running s1 = running s" by blast
    have w: "wake_loop s = wake_loop s1"
      using sl c e False s1(1) by (subst wake_loop.simps) (simp add: not_less)
    have "tth_time s1 = T + 1000" using same_restD(2) [OF s1(3)] Cons.prems(2) by simp
    with Cons.hyps(1) [OF _ s1(2)] obtain s' L' where
      s': "wake_loop s1 = Some s'" "sinv0 (at_time T s') L'" "same_rest s1 s'" "running s' = running s1"
        "L' Sleeping = dropWhile (\<lambda>t. time_left (at_time T s1) t \<le> 1000) ts"
        "set (L' Ready) = insert t (set (L Ready)) \<union> set (takeWhile (\<lambda>t. time_left (at_time T s1) t \<le> 1000) ts)"
      by auto
    have "time_left (at_time T s1) = time_left (at_time T s)"
      using same_rest_left [OF same_rest_time [OF s1(3)]] .
    with s' s1 w False Cons.hyps(2) [symmetric] show ?thesis
      by (intro exI [of _ s'] exI [of _ L']) (auto intro: same_rest_trans simp: not_less)
  qed
qed

lemma left_minus: "1000 < (x :: u32) \<Longrightarrow> x \<le> y \<Longrightarrow> x - 1000 \<le> y - 1000"
proof -
  assume *: "1000 < x" "x \<le> y"
  then have "1000 \<le> x" "1000 \<le> y" by auto
  then have "uint (x - 1000) = uint x - uint (1000 :: u32)" "uint (y - 1000) = uint y - uint (1000 :: u32)"
    by (simp_all only: uint_minus_simple_alt [symmetric])
  with * show ?thesis by (simp add: word_le_def)
qed

lemma sleep_tick_ok:
  assumes "sinv0 s L"
  shows "\<exists>s' L'. tth_sleep_tick s = Some s' \<and> sinv0 s' L' \<and> running s' = running s \<and>
    int_level s' = int_level s \<and> prio s' = prio s \<and>
    L' Sleeping = dropWhile (\<lambda>t. time_left s t \<le> 1000) (L Sleeping) \<and>
    set (L' Ready) = set (L Ready) \<union> set (takeWhile (\<lambda>t. time_left s t \<le> 1000) (L Sleeping)) \<and>
    (\<forall>t. heap s t \<noteq> None \<longrightarrow> time_left s' t = time_left s t - 1000)"
proof -
  define T where "T = tth_time s"
  define s1 where "s1 = at_time (T + 1000) s"
  have s: "at_time T s1 = s" by (simp add: s1_def T_def)
  have "sinv0 (at_time T s1) L" "tth_time s1 = T + 1000" using assms by (simp_all add: s, simp add: s1_def)
  from wake_loop_ok [OF this] obtain s' L' where
    s': "wake_loop s1 = Some s'" "sinv0 (at_time T s') L'" "same_rest s1 s'" "running s' = running s1"
      "L' Sleeping = dropWhile (\<lambda>t. time_left s t \<le> 1000) (L Sleeping)"
      "set (L' Ready) = set (L Ready) \<union> set (takeWhile (\<lambda>t. time_left s t \<le> 1000) (L Sleeping))"
    unfolding s by blast
  have tick: "tth_sleep_tick s = Some s'"
    using s'(1) by (simp add: tth_sleep_tick_def s1_def T_def TTHREAD_TICKS_PER_SEC_def)
  have srT: "same_rest s (at_time T s')" using same_rest_time [OF s'(3), of T] by (simp add: s)
  have oldleft: "time_left (at_time T s') = time_left s" using same_rest_left [OF srT] .
  have time: "tth_time s' = T + 1000" using same_restD(2) [OF s'(3)] by (simp add: s1_def)
  have hp: "heap s' t \<noteq> None \<longleftrightarrow> heap s t \<noteq> None" for t using same_rest_heap [OF srT, of t] by auto
  have newleft: "time_left s' t = time_left s t - 1000" if "heap s t \<noteq> None" for t
    using that hp [of t] oldleft [THEN fun_cong, of t] time
    by (auto simp: time_left_def algebra_simps)
  have pr: "prio s' = prio s" using same_rest_prio [OF srT] by (simp add: prio_time)
  have so: "sleep_ok s (L' Sleeping)" using s'(2) same_rest_sleep [OF srT] by (simp add: sinv0_def)
  have big: "1000 < time_left s t" if "t \<in> set (L' Sleeping)" for t
  proof (cases "L' Sleeping")
    case (Cons u us)
    then have "1000 < time_left s u" unfolding s'(5) by (metis dropWhile_eq_Cons_conv not_less)
    moreover have "time_left s u \<le> time_left s t" using so that Cons by (auto simp: sleep_ok_def)
    ultimately show ?thesis by simp
  qed (use that in simp)
  have hS: "heap s t \<noteq> None" if "t \<in> set (L' Sleeping)" for t
    using in_list_heap [OF s'(2), of Sleeping t] that hp [of t] by simp
  have so': "sleep_ok s' (L' Sleeping)"
    unfolding sleep_ok_def
  proof (intro conjI ballI)
    have "time_left s a \<le> time_left s b \<longrightarrow> time_left s' a \<le> time_left s' b"
      if "a \<in> set (L' Sleeping)" "b \<in> set (L' Sleeping)" for a b
      using newleft hS big that left_minus by auto
    then show "sorted_wrt (\<lambda>a b. time_left s' a \<le> time_left s' b) (L' Sleeping)"
      using so by (auto simp: sleep_ok_def elim!: sorted_wrt_mono_rel [rotated])
  next
    fix t assume t: "t \<in> set (L' Sleeping)"
    have n: "time_left s' t = time_left s t - 1000" using newleft hS t by blast
    have "uint (time_left s t - 1000) = uint (time_left s t) - uint (1000 :: u32)"
      using big [OF t] by (simp only: uint_minus_simple_alt [symmetric] less_imp_le)
    moreover have "time_left s t \<le> 1000000" using so t by (simp add: sleep_ok_def)
    ultimately show "0 < time_left s' t" "time_left s' t \<le> 1000000"
      using big [OF t] by (simp_all add: n word_le_def word_less_def)
  qed
  have "load (at_time T s') = load s'" by (rule load_time)
  then have "sinv0 s' L'"
    using s'(2) so' unfolding sinv0_def prio_time by simp
  with tick s' pr newleft same_restD(1) [OF srT] show ?thesis
    by (intro exI [of _ s'] exI [of _ L']) (simp add: s1_def)
qed

lemma tick_ok:
  assumes "sinv s L" "int_level s \<noteq> 0"
  shows "\<exists>s' L'. tth_int_tick s = Some s' \<and> sinv s' L' \<and> int_level s' = int_level s"
proof -
  from sleep_tick_ok [OF sinv_sinv0 [OF assms(1)]] obtain s1 L1 where
    s1: "tth_sleep_tick s = Some s1" "sinv0 s1 L1" "running s1 = running s" "int_level s1 = int_level s"
      "set (L Ready) \<subseteq> set (L1 Ready)" by blast
  then have i1: "sinv s1 L1" using assms by (auto simp: sinv_def running_ok_def)
  have us: "sinv (s1\<lparr>preemption_us := u\<rparr>) L1" for u
  proof -
    have "load (s1\<lparr>preemption_us := u\<rparr>) = load s1" by (rule load_cong) simp_all
    then show ?thesis using i1 by (subst sinv_cong(1) [where s = s1]) simp_all
  qed
  obtain r where r: "running s1 = Some r" "r \<in> set (L1 Ready)"
    using i1 s1(4) assms(2) by (auto simp: sinv_def running_ok_def)
  have rs: "running s = Some r" using r(1) s1(3) by simp
  obtain c where c: "heap s1 r = Some c" using in_list_heap [OF s1(2) _ r(2)] by auto
  have ne: "L1 Ready = hd (L1 Ready) # tl (L1 Ready)" using r(2) by (cases "L1 Ready") auto
  show ?thesis
  proof (cases "preemption_us s1 + 1000 < 10000 \<or> schedpolicy c \<noteq> SCHED_RR")
    case True
    then show ?thesis
      using us s1(1,4) r(1) rs c
      by (auto simp: tth_int_tick_def TTHREAD_TICKS_PER_SEC_def TTHREAD_PREEMPTION_INTERVAL_def Let_def)
  next
    case False
    define s2 where "s2 = s1\<lparr>preemption_us := preemption_us s1 + 1000 - 10000\<rparr>"
    from yield_ok [OF us [of "preemption_us s1 + 1000 - 10000"] ne] obtain s3 where
      s3: "sched_yield s2 = Some (s3, Done 0)" "sinv s3 (L1(Ready := insert_prio (prio s2) (hd (L1 Ready)) (tl (L1 Ready))))"
        "same_rest s2 s3" unfolding s2_def by blast
    have "int_level s3 = int_level s" using same_restD(1) [OF s3(3)] s1(4) by (simp add: s2_def)
    with False s1(1) r(1) c s3(1,2) show ?thesis
      by (auto simp: tth_int_tick_def TTHREAD_TICKS_PER_SEC_def TTHREAD_PREEMPTION_INTERVAL_def Let_def s2_def)
  qed
qed

lemma sinv_int_level:
  assumes "sinv s L" "\<And>s'. n = 0 \<Longrightarrow> False"
  shows "sinv (s\<lparr>int_level := n\<rparr>) L"
proof -
  have l: "load (s\<lparr>int_level := n\<rparr>) = load s" by (rule load_cong) simp_all
  have "prio (s\<lparr>int_level := n\<rparr>) = prio s" "time_left (s\<lparr>int_level := n\<rparr>) = time_left s"
    by (auto simp: prio_def time_left_def fun_eq_iff split: option.splits)
  with assms l show ?thesis
    by (auto simp: sinv_def sinv0_def sleep_ok_def running_ok_def intro: hd_in_set split: if_splits)
qed

lemma sinv0_int_level: "sinv0 (s\<lparr>int_level := n\<rparr>) L = sinv0 s L"
proof -
  have l: "load (s\<lparr>int_level := n\<rparr>) = load s" by (rule load_cong) simp_all
  have "prio (s\<lparr>int_level := n\<rparr>) = prio s" "time_left (s\<lparr>int_level := n\<rparr>) = time_left s"
    by (auto simp: prio_def time_left_def fun_eq_iff split: option.splits)
  with l show ?thesis by (simp add: sinv0_def sleep_ok_def)
qed

lemma timer_ok:
  assumes "sinv_ex s"
  shows "\<exists>s'. timer_interrupt s = Some s' \<and> sinv_ex s'"
proof -
  from assms obtain L where L: "sinv s L" "int_level s = 0" by (auto simp: sinv_ex_def)
  have e: "tth_int_enter s = Some (s\<lparr>int_level := 1\<rparr>)" using L(2) by (simp add: tth_int_enter_def s32_def)
  have "sinv (s\<lparr>int_level := 1\<rparr>) L" using L(1) by (rule sinv_int_level) simp
  from tick_ok [OF this] obtain s1 L1 where
    s1: "tth_int_tick (s\<lparr>int_level := 1\<rparr>) = Some s1" "sinv s1 L1" "int_level s1 = 1" by auto
  define s2 where "s2 = s1\<lparr>int_level := 0\<rparr>"
  have i2: "sinv0 s2 L1" using s1(2) by (simp add: s2_def sinv0_int_level sinv_def)
  have "\<exists>s'. tth_int_exit s1 = Some s' \<and> sinv_ex s'"
  proof (cases "running s2 = ready s2")
    case True
    have ne: "L1 Ready = hd (L1 Ready) # tl (L1 Ready)" using i2 by (cases "L1 Ready") (auto simp: sinv0_def)
    have "ready s2 = Some (hd (L1 Ready))" using lists_nonempty [OF sinv0_lists [OF i2] _ ne] by simp
    with True i2 have "sinv s2 L1" by (simp add: sinv_def running_ok_def s2_def)
    with True s1(3) show ?thesis by (auto simp: tth_int_exit_def s2_def intro!: sinv_exI)
  next
    case False
    have "int_level s2 = 0" by (simp add: s2_def)
    from context_switch [OF i2 this] False s1(3) show ?thesis
      by (auto simp: tth_int_exit_def s2_def same_restD intro!: sinv_exI)
  qed
  with e s1(1) show ?thesis by (simp add: timer_interrupt_def)
qed

end
