(* ===== verification/Tth_Life.thy ===== *)
theory Tth_Life
  imports Tth_Time
begin

text \<open>
  Thread creation, termination, joining, detaching and the idle thread keep the scheduler invariant.
\<close>

section \<open>Creation\<close>

lemma lists_not_heap: "lists (load s) L \<Longrightarrow> heap s t = None \<Longrightarrow> is_head h \<Longrightarrow> t \<notin> set (L h)"
proof
  assume *: "lists (load s) L" "heap s t = None" "is_head h" "t \<in> set (L h)"
  then obtain p where "load s h = Some p" using lists_None by (cases "load s h") fastforce+
  from chain_dom [OF lists_chain [OF *(1,3) this] *(4)] *(2) show False by simp
qed

lemma new_object:
  assumes "sinv0 s L" "heap s obj = None" "obj \<noteq> idle" "0 < schedpriority c" "waiter c = None" "follower c = None"
  shows "sinv0 (s\<lparr>heap := (heap s)(obj \<mapsto> c)\<rparr>) L"
    and "lists (load (s\<lparr>heap := (heap s)(obj \<mapsto> c), object_var := Some obj\<rparr>)) (L(Object_var := [obj]))"
proof -
  let ?s = "s\<lparr>heap := (heap s)(obj \<mapsto> c)\<rparr>"
  let ?t = "s\<lparr>heap := (heap s)(obj \<mapsto> c), object_var := Some obj\<rparr>"
  have l: "lists (load s) L" using assms(1) by (simp add: sinv0_def)
  have fr: "obj \<notin> set (L h)" if "is_head h" for h by (rule lists_not_heap [OF l assms(2) that])
  have lj: "L (Join_waiter obj) = []" by (rule lists_None [OF l]) (simp_all add: assms(2))
  have ls: "load ?s sl = (if sl = Follower_of obj \<or> sl = Join_waiter obj then Some None else load s sl)" for sl
    using assms by (cases sl) auto
  have lt: "load ?t sl = (if sl = Object_var then Some (Some obj) else load ?s sl)" for sl by (cases sl) auto
  have cs: "chain (load ?s) p (L h) = chain (load s) p (L h)" if "is_head h" for p h
    by (rule chain_cong) (use fr [OF that] in \<open>auto simp: ls simp del: load.simps\<close>)
  have ct: "chain (load ?t) p (L h) = chain (load s) p (L h)" if "is_head h" for p h
    by (rule chain_cong) (use fr [OF that] in \<open>auto simp: ls lt simp del: load.simps\<close>)
  have "lists (load ?s) L"
  proof (rule listsI)
    fix h p assume "is_head h" "load ?s h = Some p"
    then show "chain (load ?s) p (L h)"
      using lists_chain [OF l] lj by (auto simp: cs ls simp del: load.simps split: if_splits)
  next
    fix h assume "is_head h" "load ?s h = None"
    then show "L h = []" using lists_None [OF l] by (auto simp: ls simp del: load.simps split: if_splits)
  qed (use lists_distinct [OF l] lists_disjoint [OF l] in auto)
  moreover have "prio ?s t = (if t = obj then schedpriority c else prio s t)" for t by (simp add: prio_def)
  moreover have "time_left ?s t = time_left s t" if "t \<noteq> obj" for t
    using that by (simp add: time_left_def split: option.splits)
  moreover have "by_prio (prio ?s) (L h) = by_prio (prio s) (L h)" if "is_head h" for h
    using fr [OF that] unfolding by_prio_def
    by (intro iffI; elim sorted_wrt_mono_rel [rotated]) (auto simp: prio_def split: if_splits)
  moreover have "sleep_ok ?s (L Sleeping) = sleep_ok s (L Sleeping)"
  proof -
    have "time_left ?s t = time_left s t" if "t \<in> set (L Sleeping)" for t
      using fr [of Sleeping] that by (auto simp: time_left_def split: option.splits)
    then show ?thesis
      unfolding sleep_ok_def by (intro conj_cong iffI; (elim sorted_wrt_mono_rel [rotated])?) auto
  qed
  ultimately show "sinv0 ?s L" using assms(1,3,4) by (auto simp: sinv0_def)
  show "lists (load ?t) (L(Object_var := [obj]))"
  proof (rule listsI)
    fix h p assume h: "is_head h" "load ?t h = Some p"
    show "chain (load ?t) p ((L(Object_var := [obj])) h)"
    proof (cases "h = Object_var")
      case True
      with h show ?thesis by (auto simp: assms(6))
    next
      case False
      with h show ?thesis
        using lists_chain [OF l h(1)] lj by (auto simp: ct lt ls simp del: load.simps split: if_splits)
    qed
  next
    fix h assume "is_head h" "load ?t h = None"
    then show "(L(Object_var := [obj])) h = []"
      using lists_None [OF l] by (auto simp: lt ls simp del: load.simps split: if_splits)
  qed (use fr lists_distinct [OF l] lists_disjoint [OF l] in \<open>auto split: if_splits\<close>)
qed

definition prio_ok :: "int \<Rightarrow> bool" where
  "prio_ok p \<longleftrightarrow> SCHED_PRIORITY_MIN \<le> p \<and> p \<le> SCHED_PRIORITY_MAX"

lemma prio_ok_byte: "prio_ok p \<Longrightarrow> uint (word_of_int p :: byte) = p"
  by (simp add: prio_ok_def SCHED_PRIORITY_MIN_def SCHED_PRIORITY_MAX_def unsigned_of_int take_bit_int_eq_self)

lemma create_ok:
  assumes "sinv s L" "int_level s = 0" "prio_ok (a_priority (attr_of a))"
    "obj = object_at (stack_of a mallocd) (a_stacksize (attr_of a))" "heap s obj = None" "obj \<noteq> idle"
  shows "\<exists>s' r. pthread_create a mallocd object_at sp s = Some (s', Done r) \<and>
    (if stack_of a mallocd = 0 then r = ENOMEM \<and> s' = s
     else r = 0 \<and> int_level s' = 0 \<and> prio s' = (prio s)(obj := word_of_int (a_priority (attr_of a))) \<and>
       sinv s' (L(Ready := insert_prio (prio s') obj (L Ready))))"
proof (cases "stack_of a mallocd = 0")
  case True
  then show ?thesis by (simp add: pthread_create_def Let_def)
next
  case False
  define c where "c = new_tcb (attr_of a) (stack_of a mallocd) sp"
  define s1 where "s1 = s\<lparr>heap := (heap s)(obj \<mapsto> c)\<rparr>"
  define s2 where "s2 = s\<lparr>heap := (heap s)(obj \<mapsto> c), object_var := Some obj\<rparr>"
  have pc: "0 < schedpriority c"
    using prio_ok_byte [OF assms(3)] assms(3)
    by (simp add: c_def new_tcb_def word_less_def prio_ok_def SCHED_PRIORITY_MIN_def)
  have wf: "waiter c = None" "follower c = None" by (simp_all add: c_def new_tcb_def)
  note new = new_object [OF sinv_sinv0 [OF assms(1)] assms(5,6) pc wf, folded s1_def s2_def]
  have sr: "same_rest s1 s2" by (simp add: same_rest_def s1_def s2_def)
  have p1: "prio s1 = (prio s)(obj := schedpriority c)" by (auto simp: s1_def prio_def fun_eq_iff)
  have p2: "prio s2 = prio s1" using same_rest_prio [OF sr] .
  have o: "L Object_var = []" using assms(1) by (simp add: sinv_def sinv0_def)
  let ?L = "L(Ready := insert_prio (prio s1) obj (L Ready))"
  have L: "(L(Object_var := [obj]))(Object_var := [], Ready := insert_prio (prio s2) obj (((L(Object_var := [obj]))(Object_var := [])) Ready)) = ?L"
    by (auto simp: p2 o fun_eq_iff)
  from cs_move_some [OF new(2), of Object_var obj "[]" Ready WAIT_READY] obtain s3 where
    s3: "tth_cs_move Object_var (Some Ready) WAIT_READY s2 = Some s3" "moved s2 s3 ?L obj WAIT_READY"
    unfolding L by auto
  have sr3: "same_rest s1 s3" using s3(2) sr by (auto simp: moved_def intro: same_rest_trans)
  have R: "by_prio (prio s1) (L Ready)" "L Ready \<noteq> []" "last (L Ready) = idle"
    using new(1) by (simp_all add: sinv0_def)
  have h: "heap s1 obj \<noteq> None" by (simp add: s1_def)
  have i3: "sinv0 s3 ?L"
    by (rule sinv0_moved [OF new(1) sr3])
       (use new(1) s3(2) insert_ready [OF new(1) R h assms(6)] in \<open>auto simp: sinv0_def moved_def\<close>)
  have il: "int_level s3 = 0" using same_restD(1) [OF sr3] assms(2) by (simp add: s1_def)
  with cs_switch_inv [OF i3] obtain s4 b where
    s4: "tth_cs_switch s3 = Some (s4, b)" "sinv s4 ?L" "same_rest s3 s4" by blast
  have "prio s4 = prio s1" using same_rest_prio [OF s4(3)] same_rest_prio [OF sr3] by simp
  moreover have "pthread_create a mallocd object_at sp s = Some (s4, Done 0)"
    using False s3(1) s4(1) assms(4) unfolding s2_def c_def
    by (simp add: pthread_create_def Let_def)
  moreover have "int_level s4 = 0" using same_restD(1) [OF s4(3)] il by simp
  ultimately show ?thesis using False s4(2) p1 by (intro exI [of _ s4] exI [of _ 0]) (simp add: c_def new_tcb_def)
qed

section \<open>Termination\<close>

lemma exit_ok:
  assumes "sinv s L" "int_level s = 0" "L Ready = t # ts" "t \<noteq> idle"
  shows "\<exists>s' L'. pthread_exit retval s = Some s' \<and> sinv s' L' \<and> int_level s' = 0 \<and>
    (\<forall>c. heap s t = Some c \<longrightarrow>
      (if detachstate c = PTHREAD_CREATE_JOINABLE then
         wst s' t = Some WAIT_JOIN \<and> free_of t L' \<and> set (L (Join_waiter t)) \<subseteq> insert (hd (L (Join_waiter t))) (set (L' (Join_waiter t)))
           \<and> (L (Join_waiter t) \<noteq> [] \<longrightarrow> hd (L (Join_waiter t)) \<in> set (L' Ready))
       else wst s' t = Some WAIT_DEAD \<and> t \<in> set (L' Detach)))"
proof -
  have i: "sinv0 s L" and l: "lists (load s) L" using assms(1) by (simp_all add: sinv_def sinv0_def)
  have r: "running s = Some t" using sinv_running [OF assms(1-3)] .
  obtain c where c: "heap s t = Some c" using in_list_heap [OF i, of Ready t] assms(3) by auto
  have tS: "t \<notin> set (L Sleeping)" using lists_disjoint [OF l, of Ready Sleeping t] assms(3) by simp
  define c1 where "c1 = c\<lparr>shared := retval, ctx := 0\<rparr>"
  define s1 where "s1 = s\<lparr>heap := (heap s)(t \<mapsto> c1)\<rparr>"
  have s1: "upd_thread t (\<lambda>c. c\<lparr>shared := retval, ctx := 0\<rparr>) s = Some s1"
    using c by (simp add: upd_thread_def s1_def c1_def)
  from upd_other [OF s1 i tS] have i1: "sinv0 s1 L" "load s1 = load s" "int_level s1 = 0" "running s1 = Some t"
    using assms(2) r by simp_all
  have c1: "heap s1 t = Some c1" by (simp add: s1_def)
  have L1: "sinv s1 L" using i1 assms(3) by (simp add: sinv_def running_ok_def)
  show ?thesis
  proof (cases "detachstate c = PTHREAD_CREATE_JOINABLE")
    case True
    from cs_move_null [OF sinv0_lists [OF i1(1)] _ assms(3), of WAIT_JOIN] obtain s2 where
      s2: "tth_cs_move Ready None WAIT_JOIN s1 = Some s2" "moved s1 s2 (L(Ready := ts)) t WAIT_JOIN" by auto
    have sr2: "same_rest s1 s2" using s2(2) by (simp add: moved_def)
    have b: "by_prio (prio s1) ts" using sinv0_prio [OF i1(1), of Ready] assms(3) by (simp add: by_prio_def)
    have i2: "sinv0 s2 (L(Ready := ts))"
      by (rule sinv0_moved [OF i1(1) sr2])
         (use i1(1) s2(2) b ready_tail [OF i1(1) assms(3,4)] in \<open>auto simp: sinv0_def moved_def\<close>)
    have w2: "wst s2 t = Some WAIT_JOIN" using s2(2) by (simp add: moved_def)
    have il2: "int_level s2 = 0" using same_restD(1) [OF sr2] i1(3) by simp
    have fr2: "free_of t (L(Ready := ts))"
      using ready_tail(3) [OF i1(1) assms(3,4)] lists_disjoint [OF l, of Ready _ t] assms(3)
      by (auto simp: free_of_def)
    show ?thesis
    proof (cases "L (Join_waiter t)")
      case Nil
      have "heap s2 t \<noteq> None" using same_rest_heap [OF sr2, of t] c1 by simp
      then have "tth_cs_move (Join_waiter t) (Some Ready) WAIT_READY s2 = Some s2"
        using jq.wake_none [OF i2, of t] Nil by auto
      moreover obtain s3 b' where "tth_cs_switch s2 = Some (s3, b')" "sinv s3 (L(Ready := ts))" "same_rest s2 s3"
        "wst s3 = wst s2" using cs_switch_inv [OF i2] il2 by blast
      ultimately show ?thesis
        using r s1 c1 c True s2(1) il2 w2 Nil fr2
        by (intro exI [of _ s3] exI [of _ "L(Ready := ts)"]) (simp add: pthread_exit_def c1_def same_restD)
    next
      case (Cons u us)
      then have "(L(Ready := ts)) (Join_waiter t) = u # us" by simp
      define L3 where "L3 = L(Ready := ts, Join_waiter t := us,
        Ready := insert_prio (prio s2) u ((L(Ready := ts)) Ready))"
      from jq.wake [OF i2 \<open>(L(Ready := ts)) (Join_waiter t) = u # us\<close>, folded L3_def] obtain s3 where
        s3: "tth_cs_move (Join_waiter t) (Some Ready) WAIT_READY s2 = Some s3" "sinv0 s3 L3" "same_rest s2 s3"
          "wst s3 = (wst s2)(u \<mapsto> WAIT_READY)" by blast
      have "t \<notin> set ((L(Ready := ts)) (Join_waiter t))" using fr2 by (simp add: free_of_def del: fun_upd_apply)
      then have ut: "u \<noteq> t" using Cons by auto
      have il3: "int_level s3 = 0" using same_restD(1) [OF s3(3)] il2 by simp
      with cs_switch_inv [OF s3(2)] obtain s4 b' where s4: "tth_cs_switch s3 = Some (s4, b')"
        "sinv s4 L3" "same_rest s3 s4" "wst s4 = wst s3" by blast
      have "t \<notin> set us" "t \<notin> set ts"
        using fr2 [unfolded free_of_def, rule_format, of "Join_waiter t"]
          fr2 [unfolded free_of_def, rule_format, of Ready] Cons by auto
      then have "free_of t L3" using fr2 ut Cons by (auto simp: free_of_def L3_def)
      with s4 show ?thesis
        using r s1 c1 c True s2(1) s3 il3 w2 Cons ut
        by (intro exI [of _ s4] exI [of _ L3]) (simp add: pthread_exit_def c1_def same_restD L3_def)
    qed
  next
    case False
    from dq.block_switch [OF L1 i1(3) assms(3,4)] obtain s2 s3 where
      s2: "tth_cs_move Ready (Some Detach) WAIT_DEAD s1 = Some s2" "tth_cs_switch s2 = Some (s3, True)"
        "sinv s3 (L(Ready := ts, Detach := insert_prio (prio s1) t (L Detach)))" "same_rest s1 s3"
        "wst s3 = (wst s1)(t \<mapsto> WAIT_DEAD)"
      by auto
    then show ?thesis
      using r s1 c1 c False i1(3)
      by (intro exI [of _ s3] exI [of _ "L(Ready := ts, Detach := insert_prio (prio s1) t (L Detach))"])
         (simp add: pthread_exit_def c1_def same_restD)
  qed
qed

lemma join_finish_ok:
  "sinv_ex s \<Longrightarrow> heap s u \<noteq> None \<Longrightarrow> \<exists>s'. join_finish u s = Some (s', Done 0) \<and> sinv_ex s'"
proof -
  assume *: "sinv_ex s" "heap s u \<noteq> None"
  then obtain L where "sinv s L" "int_level s = 0" by (auto simp: sinv_ex_def)
  then have "sinv_ex (free_stack p s)" for p by (auto simp: sched_simps intro: sinv_exI [of _ L])
  with * show ?thesis by (auto simp: join_finish_def)
qed

lemma join_ok:
  assumes "sinv_ex s" "running s = Some t" "t \<noteq> idle" "heap s u \<noteq> None"
  shows "\<exists>s' r. pthread_join u s = Some (s', r) \<and> sinv_ex s'"
proof -
  obtain L ts where *: "sinv s L" "int_level s = 0" "L Ready = t # ts" using assms(1,2) by (rule sinv_exE)
  from assms(4) obtain c where c: "heap s u = Some c" by auto
  have "load s (Join_waiter u) \<noteq> None" by (simp add: c)
  from jq.block_switch [OF * assms(3) this] obtain s1 s2 where
    b: "tth_cs_move Ready (Some (Join_waiter u)) WAIT_THREAD s = Some s1" "tth_cs_switch s1 = Some (s2, True)"
      "sinv s2 (L(Ready := ts, Join_waiter u := insert_prio (prio s) t (L (Join_waiter u))))" "same_rest s s2"
    by blast
  then have "sinv_ex s2" using *(2) by (auto intro: sinv_exI simp: same_restD)
  with b c assms(1) join_finish_ok [OF assms(1,4)] show ?thesis by (auto simp: pthread_join_def)
qed

lemma detach_ok:
  assumes "sinv_ex s" "running s = Some t" "heap s u = Some c" "waiter c = None"
  shows "\<exists>s' r. pthread_detach u s = Some (s', r) \<and> sinv_ex s'"
proof (cases "detachstate c = PTHREAD_CREATE_JOINABLE")
  case True
  from assms(1) obtain L where L: "sinv s L" "int_level s = 0" by (auto simp: sinv_ex_def)
  define s' where "s' = s\<lparr>heap := (heap s)(u \<mapsto> c\<lparr>detachstate := PTHREAD_CREATE_DETACHED\<rparr>)\<rparr>"
  have u: "upd_thread u (detachstate_update (\<lambda>_. PTHREAD_CREATE_DETACHED)) s = Some s'"
    using assms(3) by (simp add: upd_thread_def s'_def)
  have l: "load s' = load s" by (rule load_cong) (auto simp: s'_def assms(3))
  have "prio s' = prio s" "time_left s' = time_left s"
    using assms(3) by (auto simp: s'_def prio_def time_left_def fun_eq_iff split: option.splits)
  then have "sinv s' L"
    using L l assms(3) by (auto simp: sinv_def sinv0_def running_ok_def sleep_ok_def s'_def split: if_splits)
  then have "sinv_ex s'" using L(2) by (auto simp: s'_def intro: sinv_exI)
  with True assms(3,4) u show ?thesis by (simp add: pthread_detach_def)
qed (use assms in \<open>auto simp: pthread_detach_def\<close>)

lemma idle_ok:
  assumes "sinv_ex s" "running s = Some t"
  shows "\<exists>s' r. tth_idle s = Some (s', r) \<and> sinv_ex s'"
proof -
  obtain L ts where *: "sinv s L" "int_level s = 0" "L Ready = t # ts" using assms by (rule sinv_exE)
  have i: "sinv0 s L" and l: "lists (load s) L" using *(1) by (simp_all add: sinv_def sinv0_def)
  have y: "\<exists>s' r. sched_yield s1 = Some (s', r) \<and> sinv_ex s'" if "sinv s1 L1" "int_level s1 = 0" for s1 L1
  proof -
    have "L1 Ready \<noteq> []" using that(1) by (simp add: sinv_def sinv0_def)
    then obtain u us where "L1 Ready = u # us" by (cases "L1 Ready") auto
    from yield_ok [OF that(1) this] obtain s' where
      "sched_yield s1 = Some (s', Done 0)" "sinv s' (L1(Ready := insert_prio (prio s1) u us))" "same_rest s1 s'"
      by blast
    with that(2) show ?thesis by (auto intro!: sinv_exI simp: same_restD)
  qed
  show ?thesis
  proof (cases "L Detach")
    case Nil
    have "detach s = None" using lists_head [OF l, of Detach] Nil by simp
    with y [OF *(1,2)] show ?thesis by (simp add: tth_idle_def)
  next
    case (Cons u us)
    have d: "detach s = Some u" using lists_nonempty [OF l, of Detach] Cons by simp
    obtain c where c: "heap s u = Some c" using in_list_heap [OF i, of Detach u] Cons by auto
    have f: "load s (Follower_of u) = Some (follower c)" by (simp add: c)
    obtain s1 where s1: "store Detach (follower c) s = Some s1" by simp
    have l1: "lists (load s1) (L(Detach := us))"
      unfolding load_store [OF s1] by (rule lists_pop(1) [OF l _ Cons f]) simp
    have b: "by_prio (prio s) us" using sinv0_prio [OF i, of Detach] Cons by (simp add: by_prio_def)
    have i1: "sinv0 s1 (L(Detach := us))"
      by (rule sinv0_moved [OF i same_rest_store [OF s1] l1]) (use i b in \<open>auto simp: sinv0_def\<close>)
    have "sinv s1 (L(Detach := us))" "int_level s1 = 0"
      using i1 *(2,3) running_store [OF s1] same_restD(1) [OF same_rest_store [OF s1]] sinv_running [OF *]
      by (simp_all add: sinv_def running_ok_def)
    then have "sinv (free_stack (autostack c) s1) (L(Detach := us))" "int_level (free_stack (autostack c) s1) = 0"
      by (simp_all add: sched_simps)
    from y [OF this] d c s1 show ?thesis by (simp add: tth_idle_def)
  qed
qed

end
