(* ===== verification/Tth_Run.thy ===== *)
theory Tth_Run
  imports Tth_Life
begin

text \<open>
  TinyThreads running: the running thread makes a call or resumes one, the idle thread runs its loop,
  the timer interrupts. What is assumed of the threads (\<open>legal\<close>) is what the API asks of its callers:
  handles of existing threads, priorities in range, memory for a new thread that is not another
  thread's, and initialising an object only while nobody waits on it.
\<close>

section \<open>Runs\<close>

datatype call = Yield | Create "attr option" u32 tid u32 | Exit u32 | Join tid | Detach_thread tid
  | Lock nat | Trylock nat | Unlock nat | Mutex_init nat | Post nat | Wait nat | Trywait nat
  | Sem_init nat u32 | Cond_wait nat nat | Signal nat | Broadcast nat | Cond_init nat | Usleep u32
  | Idle_turn

definition exec :: "call \<Rightarrow> tth \<Rightarrow> (tth \<times> outcome) option" where
  "exec c s =
     (case c of
        Yield \<Rightarrow> sched_yield s
      | Create a mallocd obj sp \<Rightarrow> pthread_create a mallocd (\<lambda>_ _. obj) sp s
      | Exit v \<Rightarrow> map_option (\<lambda>s. (s, Done 0)) (pthread_exit v s)
      | Join t \<Rightarrow> pthread_join t s
      | Detach_thread t \<Rightarrow> pthread_detach t s
      | Lock m \<Rightarrow> pthread_mutex_lock m s
      | Trylock m \<Rightarrow> pthread_mutex_trylock m s
      | Unlock m \<Rightarrow> pthread_mutex_unlock m s
      | Mutex_init m \<Rightarrow> Some (apsnd Done (pthread_mutex_init m s))
      | Post m \<Rightarrow> sem_post m s
      | Wait m \<Rightarrow> sem_wait m s
      | Trywait m \<Rightarrow> sem_trywait m s
      | Sem_init m v \<Rightarrow> Some (apsnd Done (sem_init m 0 v s))
      | Cond_wait c m \<Rightarrow> pthread_cond_wait c m s
      | Signal c \<Rightarrow> pthread_cond_signal c s
      | Broadcast c \<Rightarrow> pthread_cond_broadcast c s
      | Cond_init c \<Rightarrow> Some (apsnd Done (pthread_cond_init c s))
      | Usleep us \<Rightarrow> usleep us s
      | Idle_turn \<Rightarrow> tth_idle s)"

definition legal :: "tid \<Rightarrow> call \<Rightarrow> tth \<Rightarrow> bool" where
  "legal t c s \<longleftrightarrow>
     (if t = idle then c = Idle_turn
      else case c of
        Idle_turn \<Rightarrow> False
      | Create a mallocd obj sp \<Rightarrow> prio_ok (a_priority (attr_of a)) \<and> heap s obj = None \<and> obj \<noteq> idle
      | Join u \<Rightarrow> heap s u \<noteq> None
      | Detach_thread u \<Rightarrow> map_option waiter (heap s u) = Some None
      | Mutex_init m \<Rightarrow> m_waiter (mutexes s m) = None
      | Sem_init m v \<Rightarrow> s_waiter (sems s m) = None
      | Cond_init c \<Rightarrow> conds s c = None
      | _ \<Rightarrow> True)"

datatype event = Call tid call outcome | Resume tid kont outcome | Timer

type_synonym sys = "tth \<times> (tid \<Rightarrow> kont option)"

definition after :: "(tid \<Rightarrow> kont option) \<Rightarrow> tid \<Rightarrow> outcome \<Rightarrow> tid \<Rightarrow> kont option" where
  "after K t r = K(t := (case r of Done _ \<Rightarrow> None | Blocked k \<Rightarrow> Some k))"

inductive tstep :: "sys \<Rightarrow> event \<Rightarrow> sys \<Rightarrow> bool" where
  call: "running s = Some t \<Longrightarrow> K t = None \<Longrightarrow> legal t c s \<Longrightarrow> exec c s = Some (s', r) \<Longrightarrow>
    tstep (s, K) (Call t c r) (s', after K t r)"
| resume: "running s = Some t \<Longrightarrow> K t = Some k \<Longrightarrow> tth_resume k s = Some (s', r) \<Longrightarrow>
    tstep (s, K) (Resume t k r) (s', after K t r)"
| timer: "timer_interrupt s = Some s' \<Longrightarrow> tstep (s, K) Timer (s', K)"

inductive trun :: "sys \<Rightarrow> event list \<Rightarrow> sys \<Rightarrow> bool" where
  start: "trun S [] S"
| step: "trun S tr (s, K) \<Longrightarrow> tstep (s, K) e S' \<Longrightarrow> trun S (e # tr) S'"

inductive_cases tstepE: "tstep (s, K) e (s', K')"
inductive_cases trunE: "trun S (e # tr) S'"

definition boot :: "u32 \<Rightarrow> sys" where
  "boot sp = (tth_initialize sp, \<lambda>_. None)"

section \<open>Every legal call is defined and keeps the invariant\<close>

lemma init_sinv: "sinv_ex (tth_initialize sp)"
proof -
  let ?s = "tth_initialize sp"
  let ?L = "\<lambda>h. if h = Ready then [1, 0] else []"
  have [simp]: "heap ?s t = (if t = 1 then Some (static_thread ''tth-default'' (Some 0) PTHREAD_CREATE_JOINABLE
      (word_of_int SCHED_PRIORITY_DEFAULT) SCHED_POLICY_DEFAULT 0) else if t = 0
      then Some (static_thread ''tth-idle'' None PTHREAD_CREATE_DETACHED 0 SCHED_FIFO sp) else None)" for t
    by (simp add: tth_initialize_def)
  have [simp]: "follower (static_thread n f d p q r) = f" "waiter (static_thread n f d p q r) = None"
    "schedpriority (static_thread n f d p q r) = p" for n f d p q r by (simp_all add: static_thread_def)
  have "lists (load ?s) ?L"
  proof (rule listsI)
    fix h p assume h: "is_head h" "load ?s h = Some p"
    show "chain (load ?s) p (?L h)"
    proof (cases "h = Ready")
      case True
      with h show ?thesis by (simp add: tth_initialize_def static_thread_def)
    next
      case False
      with h have "p = None" by (cases h) (auto simp: tth_initialize_def static_thread_def split: if_splits)
      with False show ?thesis by simp
    qed
  next
    fix h assume "is_head h" "load ?s h = None"
    then show "?L h = []" by auto
  qed (auto split: if_splits)
  moreover have "running ?s = Some 1" "int_level ?s = 0" "svalue (sems ?s m) = 0" for m
    by (simp_all add: tth_initialize_def)
  moreover have "prio ?s 1 = 10" "prio ?s 0 = 0"
    by (simp_all add: prio_def SCHED_PRIORITY_DEFAULT_def)
  ultimately have "sinv ?s ?L"
    by (auto simp: sinv_def sinv0_def running_ok_def sleep_ok_def by_prio_def idle_def SEM_VALUE_MAX_def)
  then show ?thesis by (rule sinv_exI) (simp add: tth_initialize_def)
qed

lemma init_object_ok:
  assumes "sinv_ex s"
  shows "m_waiter (mutexes s m) = None \<Longrightarrow> sinv_ex (fst (pthread_mutex_init m s))"
    and "conds s c = None \<Longrightarrow> sinv_ex (fst (pthread_cond_init c s))"
    and "s_waiter (sems s m) = None \<Longrightarrow> sinv_ex (fst (sem_init m p v s))"
proof -
  from assms obtain L where L: "sinv s L" "int_level s = 0" by (auto simp: sinv_ex_def)
  {
    assume a: "m_waiter (mutexes s m) = None"
    let ?s = "fst (pthread_mutex_init m s)"
    have "load ?s = load s" by (rule load_cong) (auto simp: pthread_mutex_init_def a)
    then have "sinv ?s L" using L(1) by (subst sinv_cong(1) [where s = s]) (simp_all add: pthread_mutex_init_def)
    then show "sinv_ex ?s" using L(2) by (auto simp: pthread_mutex_init_def intro: sinv_exI)
  next
    assume a: "conds s c = None"
    let ?s = "fst (pthread_cond_init c s)"
    have "load ?s = load s" by (rule load_cong) (auto simp: pthread_cond_init_def a)
    then have "sinv ?s L" using L(1) by (subst sinv_cong(1) [where s = s]) (simp_all add: pthread_cond_init_def)
    then show "sinv_ex ?s" using L(2) by (auto simp: pthread_cond_init_def intro: sinv_exI)
  next
    assume a: "s_waiter (sems s m) = None"
    show "sinv_ex (fst (sem_init m p v s))"
    proof (cases "uint v > SEM_VALUE_MAX \<or> p \<noteq> 0")
      case True
      then show ?thesis using L by (auto simp: sem_init_def sched_simps intro!: sinv_exI)
    next
      case False
      have w: "L (Sem_waiter m) = []"
        using lists_head [OF sinv0_lists [OF sinv_sinv0 [OF L(1)]], of "Sem_waiter m"] a
        by (cases "L (Sem_waiter m)") auto
      define s1 where "s1 = set_value m (uint v) s"
      have "sinv s1 L" unfolding s1_def
        by (rule sinv_set_value [OF L(1)]) (use False w in auto)
      moreover have "fst (sem_init m p v s) = s1"
        using False a by (cases "sems s m") (simp add: sem_init_def s1_def set_value_def)
      ultimately show ?thesis using L(2) by (auto simp: s1_def sched_simps intro: sinv_exI)
    qed
  }
qed

lemma exec_ok:
  assumes "sinv_ex s" "running s = Some t" "legal t c s"
  shows "\<exists>s' r. exec c s = Some (s', r) \<and> sinv_ex s'"
proof (cases "t = idle")
  case True
  with assms idle_ok [OF assms(1,2)] show ?thesis by (simp add: legal_def exec_def)
next
  case False
  obtain L ts where *: "sinv s L" "int_level s = 0" "L Ready = t # ts" using assms(1,2) by (rule sinv_exE)
  show ?thesis
  proof (cases c)
    case Yield
    from yield_ok [OF *(1,3)] obtain s' where "sched_yield s = Some (s', Done 0)"
      "sinv s' (L(Ready := insert_prio (prio s) t ts))" "same_rest s s'" by blast
    with Yield *(2) show ?thesis by (auto simp: exec_def same_restD intro!: sinv_exI)
  next
    case (Create a mallocd obj sp)
    with assms(3) False have "prio_ok (a_priority (attr_of a))" "heap s obj = None" "obj \<noteq> idle"
      by (simp_all add: legal_def)
    from create_ok [OF *(1,2) this(1) refl this(2,3), of mallocd sp] assms(1) Create show ?thesis
      by (auto simp: exec_def intro: sinv_exI split: if_splits)
  next
    case (Exit v)
    from exit_ok [OF * False, of v] obtain s' L' where "pthread_exit v s = Some s'" "sinv s' L'" "int_level s' = 0"
      by blast
    with Exit show ?thesis by (auto simp: exec_def intro: sinv_exI)
  next
    case (Join u)
    with join_ok [OF assms(1,2) False] assms(3) False show ?thesis by (simp add: legal_def exec_def)
  next
    case (Detach_thread u)
    with assms(3) False obtain c where "heap s u = Some c" "waiter c = None" by (auto simp: legal_def)
    with detach_ok [OF assms(1,2)] Detach_thread show ?thesis by (simp add: exec_def)
  next
    case (Usleep us)
    consider "us = 0" | "1000000 < us" | "0 < us" "us \<le> 1000000" by (metis linorder_not_less word_neq_0_conv)
    then show ?thesis
    proof cases
      case 1
      from yield_ok [OF *(1,3)] obtain s' where "sched_yield s = Some (s', Done 0)"
        "sinv s' (L(Ready := insert_prio (prio s) t ts))" "same_rest s s'" by blast
      with 1 Usleep *(2) show ?thesis by (auto simp: exec_def usleep_def same_restD intro!: sinv_exI)
    next
      case 2
      then have "us \<noteq> 0" by auto
      with 2 Usleep * show ?thesis by (auto simp: exec_def usleep_def sched_simps intro!: sinv_exI)
    next
      case 3
      from usleep_ok [OF * False 3] Usleep show ?thesis by (auto simp: exec_def intro: sinv_exI)
    qed
  next
    case (Post m)
    with sem_post_ok [OF *(1,2), of m] show ?thesis
      by (cases "L (Sem_waiter m)") (auto simp: exec_def intro: sinv_exI split: if_splits)
  next
    case (Wait m)
    from sem_wait_ok [OF * False, of m] Wait show ?thesis by (auto simp: exec_def intro: sinv_exI split: if_splits)
  next
    case (Trywait m)
    from sem_trywait_ok [OF *(1,2), of m] Trywait show ?thesis by (auto simp: exec_def intro: sinv_exI)
  next
    case (Lock m)
    with mutex_lock_ok [OF assms(1,2) False, of m True] show ?thesis by (simp add: exec_def pthread_mutex_lock_def)
  next
    case (Trylock m)
    with mutex_lock_ok [OF assms(1,2) False, of m False] show ?thesis by (simp add: exec_def pthread_mutex_trylock_def)
  next
    case (Unlock m)
    with mutex_unlock_ok [OF assms(1,2)] show ?thesis by (simp add: exec_def)
  next
    case (Mutex_init m)
    with init_object_ok(1) [OF assms(1), of m] assms(3) False show ?thesis
      by (auto simp: exec_def legal_def apsnd_def map_prod_def split: prod.splits)
  next
    case (Sem_init m v)
    with init_object_ok(3) [OF assms(1), of m 0 v] assms(3) False show ?thesis
      by (auto simp: exec_def legal_def apsnd_def map_prod_def split: prod.splits)
  next
    case (Cond_init m)
    with init_object_ok(2) [OF assms(1), of m] assms(3) False show ?thesis
      by (auto simp: exec_def legal_def apsnd_def map_prod_def split: prod.splits)
  next
    case (Cond_wait c m)
    with cond_wait_ok [OF assms(1,2) False] show ?thesis by (simp add: exec_def)
  next
    case (Signal c)
    with cond_signal_ok [OF assms(1,2)] show ?thesis by (simp add: exec_def)
  next
    case (Broadcast c)
    with cond_broadcast_ok [OF assms(1,2)] show ?thesis by (simp add: exec_def)
  next
    case Idle_turn
    with assms(3) False show ?thesis by (simp add: legal_def)
  qed
qed

definition sys_ok :: "sys \<Rightarrow> bool" where
  "sys_ok S \<longleftrightarrow> sinv_ex (fst S) \<and> snd S idle = None"

lemma idle_call: "legal idle c s \<Longrightarrow> exec c s = Some (s', r) \<Longrightarrow> \<exists>v. r = Done v"
  by (auto simp: legal_def exec_def tth_idle_def sched_yield_def bind_eq_Some_conv)

lemma tstep_ok:
  assumes "tstep S e S'" "sys_ok S"
  shows "sys_ok S'"
  using assms
proof (induction rule: tstep.induct)
  case (call s t K c s' r)
  from exec_ok [OF _ call(1,3)] call have "sinv_ex s'" by (auto simp: sys_ok_def)
  moreover have "after K t r idle = None"
    using idle_call [of c s s' r] call by (auto simp: sys_ok_def after_def split: outcome.splits)
  ultimately show ?case by (simp add: sys_ok_def)
next
  case (resume s t K k s' r)
  then have t: "t \<noteq> idle" and s: "sinv_ex s" by (auto simp: sys_ok_def)
  have "sinv_ex s'"
  proof (cases k)
    case (K_lock m)
    with resume(3) s show ?thesis by (auto simp: tth_resume_def take_mutex_def sinv_ex_def sched_simps)
  next
    case (K_join u)
    with resume(3) have "heap s u \<noteq> None" by (auto simp: tth_resume_def join_finish_def bind_eq_Some_conv)
    from join_finish_ok [OF s this] resume(3) K_join show ?thesis by (auto simp: tth_resume_def)
  next
    case (K_cond m)
    from mutex_lock_ok [OF s resume(1) t, of m True] resume(3) K_cond show ?thesis by (auto simp: tth_resume_def)
  qed
  with t resume show ?case by (simp add: sys_ok_def after_def)
next
  case (timer s s' K)
  with timer_ok [of s] show ?case by (auto simp: sys_ok_def)
qed

lemma trun_ok: "trun S tr S' \<Longrightarrow> sys_ok S \<Longrightarrow> sys_ok S'"
  by (induction rule: trun.induct) (auto intro: tstep_ok)

lemma boot_ok: "sys_ok (boot sp)"
  by (simp add: sys_ok_def boot_def init_sinv)

section \<open>Who owns a mutex\<close>

lemma move_same_rest: "tth_cs_move from to ws s = Some s' \<Longrightarrow> same_rest s s'"
  unfolding tth_cs_move_def
  by (cases to)
     (auto simp: bind_eq_Some_conv upd_follower split: option.splits simp del: store.simps(9)
       dest!: same_rest_waitstate same_rest_store, (blast intro: same_rest_trans)+)

lemma switch_same_rest: "tth_cs_switch s = Some (s', b) \<Longrightarrow> same_rest s s'"
  by (auto simp: tth_cs_switch_def tth_int_context_switch_def same_rest_def upd_thread_def bind_eq_Some_conv
      strip_def split: if_splits)

definition own :: "nat \<Rightarrow> tth \<Rightarrow> tid option" where
  "own m s = owner (mutexes s m)"

lemma own_move: "tth_cs_move from to ws s = Some s' \<Longrightarrow> own m s' = own m s"
  by (auto simp: own_def dest!: move_same_rest same_restD(3))

lemma own_switch: "tth_cs_switch s = Some (s', b) \<Longrightarrow> own m s' = own m s"
  by (auto simp: own_def dest!: switch_same_rest same_restD(3))

lemma own_upd: "upd_thread t f s = Some s' \<Longrightarrow> own m s' = own m s"
  by (auto simp: own_def upd_thread_def bind_eq_Some_conv)

lemma own_store: "store sl p s = Some s' \<Longrightarrow> own m s' = own m s"
  by (auto simp: own_def dest!: same_rest_store same_restD(3))

lemma own_context: "tth_int_context_switch s = Some s' \<Longrightarrow> own m s' = own m s"
  by (auto simp: own_def tth_int_context_switch_def upd_thread_def bind_eq_Some_conv)

lemma own_wake_loop: "wake_loop s = Some s' \<Longrightarrow> own m s' = own m s"
proof (rule wake_loop.raw_induct [where P = "\<lambda>s s'. own m s' = own m s", rotated])
  fix wl s s'
  assume IH: "\<And>s y. wl s = Some y \<Longrightarrow> own m y = own m s"
    and "(case sleeping s of None \<Rightarrow> Some s | Some t \<Rightarrow> do { c \<leftarrow> heap s t;
      if 0 < sint (shared c - tth_time s) then Some s
      else do { s \<leftarrow> tth_cs_move Sleeping (Some Ready) WAIT_READY s; wl s } }) = Some s'"
  then show "own m s' = own m s"
    by (auto simp: bind_eq_Some_conv split: option.splits if_splits dest!: own_move [where m = m] IH)
qed

lemma own_cond_wake: "cond_wake_all c s = Some s' \<Longrightarrow> own m s' = own m s"
proof (rule cond_wake_all.raw_induct [where P = "\<lambda>c s s'. own m s' = own m s", rotated])
  fix cw c s s'
  assume IH: "\<And>c s y. cw c s = Some y \<Longrightarrow> own m y = own m s"
    and "(if conds s c = None then Some s
      else do { s \<leftarrow> tth_cs_move (Cond_waiter c) (Some Ready) WAIT_READY s; cw c s }) = Some s'"
  then show "own m s' = own m s"
    by (auto simp: bind_eq_Some_conv split: if_splits dest!: own_move [where m = m] IH)
qed

lemma own_fields:
  "own m (free_stack p s) = own m s" "own m (s\<lparr>errno := e\<rparr>) = own m s" "own m (s\<lparr>ready := q\<rparr>) = own m s"
  "own m (set_value k v s) = own m s" "own m (s\<lparr>sems := ss\<rparr>) = own m s" "own m (s\<lparr>conds := cs\<rparr>) = own m s"
  "own m (s\<lparr>heap := h, object_var := ov\<rparr>) = own m s" "own m (s\<lparr>tth_time := tt\<rparr>) = own m s"
  "own m (s\<lparr>preemption_us := u\<rparr>) = own m s" "own m (s\<lparr>int_level := n\<rparr>) = own m s"
  "own m (set_owner k p' s) = (if m = k then p' else own m s)"
  "own m (s\<lparr>detach := q\<rparr>) = own m s"
  by (simp_all add: own_def free_stack_def set_value_def set_owner_def)

lemmas own_rules = own_move own_switch own_upd own_store own_context own_wake_loop own_cond_wake

lemma own_yield: "sched_yield s = Some (s', r) \<Longrightarrow> own m s' = own m s"
  by (auto simp: sched_yield_def bind_eq_Some_conv dest!: own_rules [where m = m])

lemma own_lock: "tth_cs_mutex_lock k w s = Some (s', r) \<Longrightarrow> k \<noteq> m \<Longrightarrow> own m s' = own m s"
  by (auto simp: tth_cs_mutex_lock_def take_mutex_def bind_eq_Some_conv own_fields split: if_splits
      dest!: own_rules [where m = m])

lemma own_unlock: "tth_cs_mutex_unlock k s = Some (s', r) \<Longrightarrow> k \<noteq> m \<Longrightarrow> own m s' = own m s"
  by (auto simp: tth_cs_mutex_unlock_def bind_eq_Some_conv split: if_splits)
     (metis own_fields(11) own_move)

lemma own_sleep_tick: "tth_sleep_tick s = Some s' \<Longrightarrow> own m s' = own m s"
  by (auto simp: tth_sleep_tick_def own_fields dest!: own_wake_loop [where m = m])

lemma own_tick: "tth_int_tick s = Some s' \<Longrightarrow> own m s' = own m s"
proof -
  assume "tth_int_tick s = Some s'"
  then obtain s1 where s1: "tth_sleep_tick s = Some s1" and
    r: "(let us = preemption_us s1 + 1000000 div TTHREAD_TICKS_PER_SEC in
      if us < TTHREAD_PREEMPTION_INTERVAL * 1000 then Some (s1\<lparr>preemption_us := us\<rparr>)
      else do { s \<leftarrow> Some (s1\<lparr>preemption_us := us - TTHREAD_PREEMPTION_INTERVAL * 1000\<rparr>);
                r \<leftarrow> running s; c \<leftarrow> heap s r;
                if schedpolicy c = SCHED_RR then map_option fst (sched_yield s) else Some s }) = Some s'"
    by (auto simp: tth_int_tick_def bind_eq_Some_conv)
  have y: "sched_yield (s1\<lparr>preemption_us := u\<rparr>) = Some (s2, q) \<Longrightarrow> own m s2 = own m s1" for u s2 q
    using own_yield [of "s1\<lparr>preemption_us := u\<rparr>" s2 q m] by (simp add: own_fields)
  have "own m s' = own m s1"
    using r by (auto simp: Let_def bind_eq_Some_conv own_fields y split: if_splits)
  with own_sleep_tick [OF s1] show ?thesis by simp
qed

lemma own_int_exit: "tth_int_exit s = Some s' \<Longrightarrow> own m s' = own m s"
  by (auto simp: tth_int_exit_def Let_def own_fields split: if_splits dest!: own_context [where m = m])

lemma own_timer: "timer_interrupt s = Some s' \<Longrightarrow> own m s' = own m s"
  by (auto simp: timer_interrupt_def tth_int_enter_def bind_eq_Some_conv Let_def own_fields split: if_splits
      dest!: own_tick [where m = m] own_int_exit [where m = m])

definition about :: "nat \<Rightarrow> call \<Rightarrow> bool" where
  "about m c \<longleftrightarrow> c \<in> {Lock m, Trylock m, Unlock m, Mutex_init m} \<or> (\<exists>v. c = Cond_wait v m)"

lemma own_exec:
  assumes "exec c s = Some (s', r)" "\<not> about m c"
  shows "own m s' = own m s"
proof (cases c)
  case Yield with assms show ?thesis by (simp add: exec_def own_yield)
next
  case Create with assms show ?thesis
    by (auto simp: exec_def pthread_create_def Let_def bind_eq_Some_conv own_fields split: if_splits
        dest!: own_rules [where m = m])
next
  case Exit with assms show ?thesis
    by (auto simp: exec_def pthread_exit_def bind_eq_Some_conv split: if_splits dest!: own_rules [where m = m])
next
  case Join with assms show ?thesis
    by (auto simp: exec_def pthread_join_def join_finish_def bind_eq_Some_conv own_fields split: if_splits
        dest!: own_rules [where m = m])
next
  case Detach_thread with assms show ?thesis
    by (auto simp: exec_def pthread_detach_def bind_eq_Some_conv split: if_splits dest!: own_upd [where m = m])
next
  case (Lock k) with assms show ?thesis by (auto simp: exec_def about_def pthread_mutex_lock_def own_lock)
next
  case (Trylock k) with assms show ?thesis by (auto simp: exec_def about_def pthread_mutex_trylock_def own_lock)
next
  case (Unlock k) with assms show ?thesis
    by (auto simp: exec_def about_def pthread_mutex_unlock_def bind_eq_Some_conv split: if_splits
        dest!: own_switch [where m = m] own_unlock [where m = m])
next
  case (Mutex_init k) with assms show ?thesis by (auto simp: exec_def about_def pthread_mutex_init_def own_def)
next
  case Post with assms show ?thesis
    by (auto simp: exec_def sem_post_def bind_eq_Some_conv own_fields split: if_splits dest!: own_rules [where m = m])
next
  case Wait with assms show ?thesis
    by (auto simp: exec_def sem_wait_def bind_eq_Some_conv own_fields split: if_splits dest!: own_rules [where m = m])
next
  case Trywait with assms show ?thesis by (auto simp: exec_def sem_trywait_def own_fields split: if_splits)
next
  case Sem_init with assms show ?thesis by (auto simp: exec_def sem_init_def own_fields split: if_splits)
next
  case (Cond_wait v k) with assms show ?thesis
    by (auto simp: exec_def about_def pthread_cond_wait_def bind_eq_Some_conv split: if_splits
        dest!: own_switch [where m = m] own_unlock [where m = m] own_move [where m = m] own_lock [where m = m])
next
  case Signal with assms show ?thesis
    by (auto simp: exec_def pthread_cond_signal_def bind_eq_Some_conv dest!: own_rules [where m = m])
next
  case Broadcast with assms show ?thesis
    by (auto simp: exec_def pthread_cond_broadcast_def bind_eq_Some_conv dest!: own_rules [where m = m])
next
  case Cond_init with assms show ?thesis by (auto simp: exec_def pthread_cond_init_def own_fields)
next
  case Usleep with assms show ?thesis
    by (auto simp: exec_def usleep_def bind_eq_Some_conv own_fields own_yield split: if_splits
        dest!: own_upd [where m = m] own_switch [where m = m] own_store [where m = m])
next
  case Idle_turn with assms show ?thesis
    by (auto simp: exec_def tth_idle_def bind_eq_Some_conv own_fields split: option.splits
        dest!: own_yield [where m = m] own_store [where m = m])
qed

end
