(* ===== verification/Tth_Attr.thy ===== *)
theory Tth_Attr
  imports Tth_Run
begin

text \<open>
  The rest of TinyThreads: thread attributes (\<open>tth_attr.c\<close>), \<open>sleep\<close> (\<open>tth_sleep.c\<close>) and the locks
  newlib calls around \<open>malloc\<close> and the environment (\<open>alt_malloc_lock.c\<close>, \<open>alt_env_lock.c\<close>, which
  are the same code over a mutex and a counter of their own).

  Every sequence of attribute setters leaves attributes that \<open>pthread_create\<close> can use; the locks are
  recursive and are released by the outermost unlock.
\<close>

section \<open>Thread attributes\<close>

definition PTHREAD_STACK_ALIGN :: u32 where "PTHREAD_STACK_ALIGN = 4"

definition pthread_attr_init :: "attr \<Rightarrow> attr \<times> int" where
  "pthread_attr_init a = (tth_default_attr, 0)"

definition pthread_attr_destroy :: "attr \<Rightarrow> int" where
  "pthread_attr_destroy a = 0"

definition pthread_attr_setdetachstate :: "int \<Rightarrow> attr \<Rightarrow> attr \<times> int" where
  "pthread_attr_setdetachstate d a =
     (if d \<in> {PTHREAD_CREATE_JOINABLE, PTHREAD_CREATE_DETACHED} then (a\<lparr>a_detachstate := d\<rparr>, 0)
      else (a, EINVAL))"

definition pthread_attr_setschedparam :: "int \<Rightarrow> attr \<Rightarrow> attr \<times> int" where
  "pthread_attr_setschedparam p a =
     (if SCHED_PRIORITY_MIN \<le> p \<and> p \<le> SCHED_PRIORITY_MAX then (a\<lparr>a_priority := p\<rparr>, 0)
      else (a, EINVAL))"

definition pthread_attr_setschedpolicy :: "int \<Rightarrow> attr \<Rightarrow> attr \<times> int" where
  "pthread_attr_setschedpolicy p a =
     (if p \<in> {SCHED_FIFO, SCHED_RR} then (a\<lparr>a_policy := p\<rparr>, 0) else (a, EINVAL))"

definition pthread_attr_setstack :: "u32 \<Rightarrow> u32 \<Rightarrow> attr \<Rightarrow> attr \<times> int" where
  "pthread_attr_setstack addr sz a =
     (if sz < PTHREAD_STACK_MIN then (a, EINVAL)
      else if addr AND (PTHREAD_STACK_ALIGN - 1) \<noteq> 0 \<or> (addr + sz) AND (PTHREAD_STACK_ALIGN - 1) \<noteq> 0
      then (a, EINVAL)
      else (a\<lparr>a_stackaddr := addr, a_stacksize := sz\<rparr>, 0))"

definition pthread_attr_setstacksize :: "u32 \<Rightarrow> attr \<Rightarrow> attr \<times> int" where
  "pthread_attr_setstacksize sz a =
     (if sz < PTHREAD_STACK_MIN then (a, EINVAL)
      else (a\<lparr>a_stackaddr := 0,
              a_stacksize := (sz + (PTHREAD_STACK_ALIGN - 1)) AND NOT (PTHREAD_STACK_ALIGN - 1)\<rparr>, 0))"

text \<open>The getters: what they store through their pointers, and 0.\<close>

definition pthread_attr_getdetachstate :: "attr \<Rightarrow> int \<times> int" where
  "pthread_attr_getdetachstate a = (a_detachstate a, 0)"

definition pthread_attr_getschedparam :: "attr \<Rightarrow> int \<times> int" where
  "pthread_attr_getschedparam a = (a_priority a, 0)"

definition pthread_attr_getschedpolicy :: "attr \<Rightarrow> int \<times> int" where
  "pthread_attr_getschedpolicy a = (a_policy a, 0)"

definition pthread_attr_getstack :: "attr \<Rightarrow> (u32 \<times> u32) \<times> int" where
  "pthread_attr_getstack a = ((a_stackaddr a, a_stacksize a), 0)"

definition pthread_attr_getstacksize :: "attr \<Rightarrow> u32 \<times> int" where
  "pthread_attr_getstacksize a = (a_stacksize a, 0)"

datatype setter = Init | Detachstate int | Schedparam int | Schedpolicy int | Stack u32 u32 | Stacksize u32

fun set_attr :: "setter \<Rightarrow> attr \<Rightarrow> attr \<times> int" where
  "set_attr Init a = pthread_attr_init a"
| "set_attr (Detachstate d) a = pthread_attr_setdetachstate d a"
| "set_attr (Schedparam p) a = pthread_attr_setschedparam p a"
| "set_attr (Schedpolicy p) a = pthread_attr_setschedpolicy p a"
| "set_attr (Stack addr sz) a = pthread_attr_setstack addr sz a"
| "set_attr (Stacksize sz) a = pthread_attr_setstacksize sz a"

fun set_attrs :: "setter list \<Rightarrow> attr \<Rightarrow> attr" where
  "set_attrs [] a = a"
| "set_attrs (x # xs) a = set_attrs xs (fst (set_attr x a))"

definition usable :: "attr \<Rightarrow> bool" where
  "usable a \<longleftrightarrow> a_detachstate a \<in> {PTHREAD_CREATE_JOINABLE, PTHREAD_CREATE_DETACHED} \<and>
     SCHED_PRIORITY_MIN \<le> a_priority a \<and> a_priority a \<le> SCHED_PRIORITY_MAX \<and>
     a_policy a \<in> {SCHED_FIFO, SCHED_RR} \<and>
     PTHREAD_STACK_MIN \<le> a_stacksize a \<and> 4 dvd uint (a_stackaddr a) \<and> 4 dvd uint (a_stacksize a)"

fun size_fits :: "setter \<Rightarrow> bool" where
  "size_fits (Stacksize sz) = (uint sz \<le> 0xfffffffc)"
| "size_fits _ = True"

lemmas attr_defs = pthread_attr_init_def pthread_attr_setdetachstate_def pthread_attr_setschedparam_def
  pthread_attr_setschedpolicy_def pthread_attr_setstack_def pthread_attr_setstacksize_def
  PTHREAD_STACK_ALIGN_def

lemma usable_set_attr:
  assumes "usable a" "size_fits x"
  shows "usable (fst (set_attr x a))"
proof (cases x)
  case (Stacksize sz)
  have "uint (sz + 3) = uint sz + 3" if "uint sz \<le> 0xfffffffc"
    using that by (simp add: uint_plus_if')
  with Stacksize assms show ?thesis
    by (auto simp: attr_defs usable_def PTHREAD_STACK_MIN_def word_le_def word_less_def and_not_3_eq; presburger)
next
  case (Stack addr sz)
  have "4 dvd uint addr" if "addr AND 3 = 0" using that and_3_eq [of addr] by (simp add: dvd_eq_mod_eq_0)
  moreover have "4 dvd uint sz" if "addr AND 3 = 0" "(addr + sz) AND 3 = 0"
    using that and_3_eq [of addr] and_3_eq [of "addr + sz"]
    by (simp add: uint_plus_if' split: if_splits; presburger)
  ultimately show ?thesis
    using Stack assms by (auto simp: attr_defs usable_def not_less)
qed (use assms in \<open>auto simp: attr_defs usable_def tth_default_attr_def PTHREAD_STACK_MIN_def
       SCHED_PRIORITY_MIN_def SCHED_PRIORITY_MAX_def SCHED_PRIORITY_DEFAULT_def SCHED_POLICY_DEFAULT_def\<close>)

lemma usable_set_attrs: "usable a \<Longrightarrow> list_all size_fits xs \<Longrightarrow> usable (set_attrs xs a)"
  by (induction xs arbitrary: a) (simp_all add: usable_set_attr)

text \<open>Attributes made by \<open>pthread_attr_init\<close> and any setters, whatever the arguments, have a known
  detach state and policy, a priority in range and a stack of at least the minimum size, all
  aligned, and \<open>pthread_create\<close> may be called with them. (A stack size above \<open>0xfffffffc\<close> is excluded:
  \<open>setstacksize_wraps\<close>.)\<close>

theorem attr_setters_usable:
  assumes "list_all size_fits xs"
  shows "usable (set_attrs (Init # xs) a) \<and>
    (t \<noteq> idle \<and> heap s obj = None \<and> obj \<noteq> idle \<longrightarrow>
      legal t (Create (Some (set_attrs (Init # xs) a)) mallocd obj sp) s)"
proof -
  have "usable tth_default_attr"
    by (simp add: usable_def tth_default_attr_def PTHREAD_STACK_MIN_def SCHED_PRIORITY_MIN_def
      SCHED_PRIORITY_MAX_def SCHED_PRIORITY_DEFAULT_def SCHED_POLICY_DEFAULT_def)
  then have "usable (set_attrs (Init # xs) a)" using assms by (simp add: attr_defs usable_set_attrs)
  then show ?thesis
    by (auto simp: usable_def legal_def prio_ok_def attr_of_def SCHED_PRIORITY_MIN_def SCHED_PRIORITY_MAX_def)
qed

theorem attr_setters_usable_witness:
  "usable (set_attrs (Init # [Schedparam 7, Stacksize 5001, Stack 0x1001 4096]) tth_default_attr)"
proof -
  have "list_all size_fits [Schedparam 7, Stacksize 5001, Stack 0x1001 4096]" by simp
  from attr_setters_usable [OF this] show ?thesis by blast
qed

lemma setstacksize_wraps:
  "a_stacksize (fst (pthread_attr_setstacksize 0xffffffff a)) = 0 \<and>
   snd (pthread_attr_setstacksize 0xffffffff a) = 0"
  by (simp add: attr_defs PTHREAD_STACK_MIN_def)

section \<open>Sleeping for seconds\<close>

text \<open>The calls \<open>sleep\<close> makes, one after the other; its result is 0.\<close>

definition sleep :: "u32 \<Rightarrow> call list" where
  "sleep seconds = (if seconds = 0 then [Yield] else replicate (unat seconds) (Usleep 1000000))"

section \<open>The locks of newlib\<close>

text \<open>\<open>alt_malloc_lock\<close> (or \<open>alt_env_lock\<close>) is the mutex \<open>m\<close>; the static \<open>locks\<close> goes with the state.
  When the mutex call blocks, the rest runs after \<open>tth_resume\<close> gave it its result.\<close>

definition count_lock :: "int \<Rightarrow> int \<Rightarrow> int" where
  "count_lock result locks = (if result = 0 \<or> result = EDEADLK then s32 (locks + 1) else locks)"

definition malloc_lock :: "nat \<Rightarrow> tth \<times> int \<Rightarrow> ((tth \<times> int) \<times> outcome) option" where
  "malloc_lock m sl =
     (case sl of (s, locks) \<Rightarrow>
        if running s = None then Some ((s, locks), Done 0)
        else do { (s, r) \<leftarrow> pthread_mutex_lock m s;
                  case r of Done result \<Rightarrow> Some ((s, count_lock result locks), Done 0)
                  | Blocked k \<Rightarrow> Some ((s, locks), Blocked k) })"

definition malloc_unlock :: "nat \<Rightarrow> tth \<times> int \<Rightarrow> ((tth \<times> int) \<times> outcome) option" where
  "malloc_unlock m sl =
     (case sl of (s, locks) \<Rightarrow>
        if running s = None then Some ((s, locks), Done 0)
        else let locks = s32 (locks - 1) in
          if locks = 0 then do { (s, _) \<leftarrow> pthread_mutex_unlock m s; Some ((s, locks), Done 0) }
          else Some ((s, locks), Done 0))"

fun repeat :: "nat \<Rightarrow> ('s \<Rightarrow> ('s \<times> outcome) option) \<Rightarrow> 's \<Rightarrow> 's option" where
  "repeat 0 f s = Some s"
| "repeat (Suc n) f s = do { (s, _) \<leftarrow> f s; repeat n f s }"

lemma malloc_lock_held:
  "running s = Some t \<Longrightarrow> owner (mutexes s m) = Some t \<Longrightarrow>
   malloc_lock m (s, l) = Some ((s, s32 (l + 1)), Done 0)"
  by (simp add: malloc_lock_def pthread_mutex_lock_def tth_cs_mutex_lock_def count_lock_def)

lemma malloc_unlock_inner:
  "running s = Some t \<Longrightarrow> l \<noteq> 1 \<Longrightarrow> is_s32 (l - 1) \<Longrightarrow> malloc_unlock m (s, l) = Some ((s, l - 1), Done 0)"
  by (simp add: malloc_unlock_def s32_id)

lemma repeat_lock:
  "running s = Some t \<Longrightarrow> owner (mutexes s m) = Some t \<Longrightarrow> is_s32 l \<Longrightarrow> is_s32 (l + int n) \<Longrightarrow>
   repeat n (malloc_lock m) (s, l) = Some (s, l + int n)"
proof (induction n arbitrary: l)
  case (Suc n)
  then have "s32 (l + 1) = l + 1" by (auto simp: s32_id is_s32_def)
  with Suc show ?case by (simp add: malloc_lock_held is_s32_def add.assoc)
qed simp

lemma repeat_unlock:
  "running s = Some t \<Longrightarrow> is_s32 l \<Longrightarrow> int n < l \<Longrightarrow>
   repeat n (malloc_unlock m) (s, l) = Some (s, l - int n)"
proof (induction n arbitrary: l)
  case (Suc n)
  then have "malloc_unlock m (s, l) = Some ((s, l - 1), Done 0)"
    by (intro malloc_unlock_inner) (auto simp: is_s32_def)
  moreover have "is_s32 (l - 1)" using Suc.prems by (auto simp: is_s32_def)
  ultimately show ?case using Suc by (simp add: algebra_simps)
qed simp

text \<open>The lock around \<open>malloc\<close> is recursive: a thread that takes it \<open>n + 1\<close> times without having to
  wait owns it, still owns it after \<open>n\<close> unlocks, and the last unlock is the release of the mutex.\<close>

theorem malloc_lock_recursive:
  assumes "running s = Some t" "owner (mutexes s m) = None" "n < 2 ^ 31 - 1"
  shows "repeat (Suc n) (malloc_lock m) (s, 0) = Some (set_owner m (Some t) s, int n + 1) \<and>
    repeat n (malloc_unlock m) (set_owner m (Some t) s, int n + 1) = Some (set_owner m (Some t) s, 1) \<and>
    malloc_unlock m (set_owner m (Some t) s, 1) =
      map_option (\<lambda>(s, _). ((s, 0), Done 0)) (pthread_mutex_unlock m (set_owner m (Some t) s))"
proof -
  let ?s = "set_owner m (Some t) s"
  have s: "running ?s = Some t" "owner (mutexes ?s m) = Some t" using assms by (simp_all add: set_owner_def)
  have "malloc_lock m (s, 0) = Some ((?s, 1), Done 0)"
    using assms by (simp add: malloc_lock_def pthread_mutex_lock_def tth_cs_mutex_lock_def take_mutex_def
      count_lock_def s32_def)
  moreover have "repeat n (malloc_lock m) (?s, 1) = Some (?s, int n + 1)"
    using repeat_lock [OF s, of 1 n] assms by (simp add: is_s32_def add.commute)
  moreover have "repeat n (malloc_unlock m) (?s, int n + 1) = Some (?s, 1)"
    using repeat_unlock [OF s(1), of "int n + 1" n m] assms by (simp add: is_s32_def)
  moreover have "malloc_unlock m (?s, 1) =
      map_option (\<lambda>(s, _). ((s, 0), Done 0)) (pthread_mutex_unlock m ?s)"
    using s by (cases "pthread_mutex_unlock m ?s") (auto simp: malloc_unlock_def s32_def)
  ultimately show ?thesis by simp
qed

theorem malloc_lock_recursive_witness:
  "repeat 3 (malloc_lock 0) (fst (boot 0), 0) = Some (set_owner 0 (Some 1) (fst (boot 0)), 3)"
proof -
  have "running (fst (boot 0)) = Some 1" "owner (mutexes (fst (boot 0)) 0) = None"
    by (simp_all add: boot_def tth_initialize_def)
  from malloc_lock_recursive [OF this, of 2] show ?thesis by (simp del: repeat.simps)
qed

end
