(* ===== verification/Tth_Props.thy ===== *)
theory Tth_Props
  imports Tth_Run
begin

text \<open>
  The properties of TinyThreads: what the list operation does, what holds in every reachable state,
  what the calls do, and three runs that show where the code does not do what it means to.
\<close>

section \<open>Driving a run\<close>

text \<open>\<open>drive\<close> computes a run: \<open>Some c\<close> lets the running thread make the call \<open>c\<close>, \<open>None\<close> lets it resume.\<close>

fun drive :: "call option list \<Rightarrow> sys \<Rightarrow> event list \<Rightarrow> (event list \<times> sys) option" where
  "drive [] S tr = Some (tr, S)"
| "drive (a # as) (s, K) tr =
     (case running s of None \<Rightarrow> None
      | Some t \<Rightarrow>
          (case a of
             Some c \<Rightarrow>
               if K t = None \<and> legal t c s then
                 (case exec c s of None \<Rightarrow> None
                  | Some (s', r) \<Rightarrow> drive as (s', after K t r) (Call t c r # tr))
               else None
           | None \<Rightarrow>
               (case K t of None \<Rightarrow> None
                | Some k \<Rightarrow>
                    (case tth_resume k s of None \<Rightarrow> None
                     | Some (s', r) \<Rightarrow> drive as (s', after K t r) (Resume t k r # tr)))))"

lemma drive_run: "drive as S tr = Some (tr', S') \<Longrightarrow> trun S0 tr S \<Longrightarrow> trun S0 tr' S'"
proof (induction as S tr rule: drive.induct)
  case (2 a as s K tr)
  then show ?case
    by (fastforce split: option.splits if_splits prod.splits intro: trun.step tstep.call tstep.resume)
qed simp

lemma drive_boot: "drive as (boot sp) [] = Some (tr', S') \<Longrightarrow> trun (boot sp) tr' S'"
  by (erule drive_run) (rule trun.start)

section \<open>The list operation\<close>

text \<open>\<open>tth_cs_move\<close> takes the first thread of one list and puts it into another behind the threads
  of its priority: no pointer leads astray, no thread gets lost or into two lists, the target list
  stays ordered by priority and first in, first out among equals.\<close>

theorem tth_cs_move_correct:
  assumes "lists (load s) L" "is_head from" "is_head to" "L from = t # ts" "load s to \<noteq> None"
    "by_prio (prio s) ((L(from := ts)) to)"
  shows "\<exists>s' ts'. tth_cs_move from (Some to) ws s = Some s' \<and>
    lists (load s') (L(from := ts, to := ts')) \<and> by_prio (prio s') ts' \<and>
    (\<forall>p. filter (\<lambda>u. prio s' u = p) ts' =
       filter (\<lambda>u. prio s' u = p) ((L(from := ts)) to) @ (if prio s' t = p then [t] else [])) \<and>
    map_option waitstate (heap s' t) = Some ws"
proof -
  from cs_move_some [OF assms(1,2,4,3,5), of ws] obtain s' where
    s': "tth_cs_move from (Some to) ws s = Some s'"
    and m: "moved s s' (L(from := ts, to := insert_prio (prio s) t ((L(from := ts)) to))) t ws" by blast
  from m have "prio s' = prio s" by (simp add: moved_def same_rest_prio)
  moreover have "map_option waitstate (heap s' t) = Some ws"
    using m by (simp add: moved_def wst_def [symmetric])
  ultimately show ?thesis
    using s' m by_prio_insert [OF assms(6), of t] insert_prio_fifo [OF assms(6), of _ t]
    unfolding moved_def by (intro exI [of _ s'] exI [of _ "insert_prio (prio s) t ((L(from := ts)) to)"]) simp
qed

theorem tth_cs_move_correct_witness:
  "\<exists>s' ts'. tth_cs_move Ready (Some (Mutex_waiter 0)) WAIT_MUTEX (tth_initialize 0) = Some s' \<and>
    lists (load s') ((\<lambda>h. if h = Ready then [1, 0] else [])(Ready := [0], Mutex_waiter 0 := ts'))"
proof -
  have l: "lists (load (tth_initialize 0)) (\<lambda>h. if h = Ready then [1, 0] else [])"
  proof (rule listsI)
    fix h p assume h: "is_head h" "load (tth_initialize 0) h = Some p"
    then show "chain (load (tth_initialize 0)) p (if h = Ready then [1, 0] else [])"
      by (cases h) (auto simp: tth_initialize_def static_thread_def split: if_splits)
  qed (auto split: if_splits)
  show ?thesis
    using tth_cs_move_correct [OF l, of Ready "Mutex_waiter 0" 1 "[0]" WAIT_MUTEX]
    by (auto simp: by_prio_def tth_initialize_def)
qed

section \<open>Every reachable state\<close>





section \<open>Mutexes\<close>

text \<open>The threads to which the lock was granted and which have not given it back.\<close>

fun holders :: "nat \<Rightarrow> event list \<Rightarrow> tid set" where
  "holders m [] = {}"
| "holders m (Call t c r # tr) =
     (if c \<in> {Lock m, Trylock m} \<and> r = Done 0 then insert t (holders m tr)
      else if c = Unlock m \<and> r = Done 0 then holders m tr - {t}
      else if r = Blocked (K_cond m) then holders m tr - {t}
      else holders m tr)"
| "holders m (Resume t k r # tr) =
     (if k \<in> {K_lock m, K_cond m} \<and> r = Done 0 then insert t (holders m tr) else holders m tr)"
| "holders m (Timer # tr) = holders m tr"

definition race :: "call option list" where
  "race = [Some (Create None 0x8000 2 0x8f00), Some (Lock 0), Some Yield, Some (Lock 0), Some (Unlock 0),
     Some (Lock 0), Some Yield, None]"

text \<open>C8: Mutual exclusion can fail. A thread that waited for a mutex takes it when it runs again,
  without looking whether it was locked in the meantime: there is a run after which two threads
  hold the same mutex.\<close>

theorem mutex_exclusion_fails:
  "\<exists>tr s K. trun (boot 0) tr (s, K) \<and> holders 0 tr = {1, 2}"
proof -
  have "map_option (holders 0 \<circ> fst) (drive race (boot 0) []) = Some {1, 2}"
    by code_simp
  then obtain tr S where "drive race (boot 0) [] = Some (tr, S)" "holders 0 tr = {1, 2}" by auto
  with drive_boot show ?thesis by (metis surj_pair)
qed

definition uncontended :: "nat \<Rightarrow> event \<Rightarrow> bool" where
  "uncontended m e =
     (case e of
        Call t c r \<Rightarrow> r \<noteq> Blocked (K_lock m) \<and>
          (case c of Mutex_init k \<Rightarrow> k \<noteq> m | Cond_wait v k \<Rightarrow> k \<noteq> m | _ \<Rightarrow> True)
      | _ \<Rightarrow> True)"

lemma blocked_cond: "exec c s = Some (s', Blocked (K_cond m)) \<Longrightarrow> \<exists>v. c = Cond_wait v m"
  by (cases c)
     (auto simp: exec_def sched_yield_def pthread_create_def pthread_join_def join_finish_def
       pthread_detach_def pthread_mutex_lock_def pthread_mutex_trylock_def tth_cs_mutex_lock_def
       take_mutex_def pthread_mutex_unlock_def sem_post_def sem_wait_def sem_trywait_def
       pthread_cond_wait_def pthread_cond_signal_def pthread_cond_broadcast_def usleep_def tth_idle_def
       bind_eq_Some_conv Let_def apsnd_def map_prod_def split: if_splits prod.splits)

lemma lock_uncontended:
  assumes "sinv_ex s" "running s = Some t" "t \<noteq> idle" "tth_cs_mutex_lock m w s = Some (s', r)"
    "r \<noteq> Blocked (K_lock m)"
  shows "if r = Done 0 then own m s = None \<and> own m s' = Some t else own m s' = own m s \<and> (\<forall>k. r \<noteq> Blocked k)"
proof (cases "own m s = None \<or> own m s = Some t \<or> \<not> w")
  case True
  with assms(2,4) show ?thesis
    by (auto simp: tth_cs_mutex_lock_def take_mutex_def own_def set_owner_def EDEADLK_def EBUSY_def split: if_splits)
next
  case False
  obtain L ts where *: "sinv s L" "int_level s = 0" "L Ready = t # ts" using assms(1,2) by (rule sinv_exE)
  from mq.block_switch [OF * assms(3), of m] obtain s1 s2 where
    "tth_cs_move Ready (Some (Mutex_waiter m)) WAIT_MUTEX s = Some s1" "tth_cs_switch s1 = Some (s2, True)" by auto
  with False assms(2,4,5) show ?thesis by (auto simp: tth_cs_mutex_lock_def own_def split: if_splits)
qed

lemma unlock_owner:
  assumes "running s = Some t" "pthread_mutex_unlock m s = Some (s', r)"
  shows "if r = Done 0 then own m s = Some t \<and> own m s' = None else own m s' = own m s \<and> (\<forall>k. r \<noteq> Blocked k)"
  using assms
  by (auto simp: pthread_mutex_unlock_def tth_cs_mutex_unlock_def bind_eq_Some_conv own_fields EPERM_def
      own_def [symmetric] split: if_splits dest!: own_switch [where m = m] own_move [where m = m])

definition excl :: "nat \<Rightarrow> event list \<Rightarrow> sys \<Rightarrow> bool" where
  "excl m tr S \<longleftrightarrow> sys_ok S \<and> holders m tr = set_option (own m (fst S)) \<and>
     (\<forall>t. snd S t \<noteq> Some (K_lock m) \<and> snd S t \<noteq> Some (K_cond m))"

lemma excl_call:
  assumes "excl m tr (s, K)" "running s = Some t" "K t = None" "legal t c s" "exec c s = Some (s', r)"
    "uncontended m (Call t c r)"
  shows "excl m (Call t c r # tr) (s', after K t r)"
proof -
  have ok: "sys_ok (s', after K t r)"
    using tstep_ok [OF tstep.call [where K = K, OF assms(2-5)]] assms(1) by (simp add: excl_def)
  have h: "holders m tr = set_option (own m s)" and s: "sinv_ex s"
    using assms(1) by (auto simp: excl_def sys_ok_def)
  have nk: "r \<noteq> Blocked (K_cond m)" "r \<noteq> Blocked (K_lock m)"
    using blocked_cond [of c s s' m] assms(5,6) by (auto simp: uncontended_def)
  then have K': "after K t r u \<noteq> Some (K_lock m) \<and> after K t r u \<noteq> Some (K_cond m)" for u
    using assms(1) by (auto simp: excl_def after_def split: outcome.splits if_splits)
  have "holders m (Call t c r # tr) = set_option (own m s')"
  proof (cases "about m c")
    case False
    then show ?thesis using own_exec [OF assms(5) False] h nk by (auto simp: about_def)
  next
    case True
    then consider (lock) w where "c = Lock m \<or> c = Trylock m" "tth_cs_mutex_lock m w s = Some (s', r)" | (unlock) "c = Unlock m"
      using assms(5,6)
      by (auto simp: about_def uncontended_def exec_def pthread_mutex_lock_def pthread_mutex_trylock_def)
    moreover have "t \<noteq> idle" using True assms(4) by (auto simp: legal_def about_def)
    ultimately show ?thesis
    proof cases
      case lock
      with lock_uncontended [OF s assms(2) \<open>t \<noteq> idle\<close> lock(2) nk(2)] h nk show ?thesis
        by (cases "r = Done 0") auto
    next
      case unlock
      with unlock_owner [OF assms(2), of m s' r] assms(5) h nk show ?thesis
        by (cases "r = Done 0") (auto simp: exec_def)
    qed
  qed
  with ok K' show ?thesis by (simp add: excl_def)
qed

lemma excl_resume:
  assumes "excl m tr (s, K)" "running s = Some t" "K t = Some k" "tth_resume k s = Some (s', r)"
  shows "excl m (Resume t k r # tr) (s', after K t r)"
proof -
  have ok: "sys_ok (s', after K t r)"
    using tstep_ok [OF tstep.resume [where K = K, OF assms(2-4)]] assms(1) by (simp add: excl_def)
  have k: "k \<noteq> K_lock m" "k \<noteq> K_cond m" using assms(1,3) by (auto simp: excl_def)
  have "own m s' = own m s"
  proof (cases k)
    case (K_cond j)
    with assms(4) k show ?thesis by (auto simp: tth_resume_def own_lock)
  qed (use assms(4) k in \<open>auto simp: tth_resume_def take_mutex_def join_finish_def bind_eq_Some_conv own_fields\<close>)
  moreover have "r \<noteq> Blocked (K_lock m)" "r \<noteq> Blocked (K_cond m)"
    using assms(4) k
    by (cases k; auto simp: tth_resume_def take_mutex_def join_finish_def tth_cs_mutex_lock_def bind_eq_Some_conv
        split: if_splits)+
  then have "after K t r u \<noteq> Some (K_lock m) \<and> after K t r u \<noteq> Some (K_cond m)" for u
    using assms(1) by (auto simp: excl_def after_def split: outcome.splits if_splits)
  ultimately show ?thesis using ok k assms(1) by (auto simp: excl_def)
qed

lemma excl_run:
  "trun S0 tr S \<Longrightarrow> S0 = boot sp \<Longrightarrow> list_all (uncontended m) tr \<Longrightarrow> excl m tr S"
proof (induction rule: trun.induct)
  case (start S)
  then show ?case using boot_ok by (simp add: excl_def boot_def own_def tth_initialize_def)
next
  case (step S tr s K e S')
  then have IH: "excl m tr (s, K)" and u: "uncontended m e" by auto
  from step(2) show ?case
  proof (cases rule: tstep.cases)
    case (call t c s' r)
    with excl_call [OF IH] u show ?thesis by simp
  next
    case (resume t k s' r)
    with excl_resume [OF IH] show ?thesis by simp
  next
    case (timer s')
    with IH tstep_ok [OF step(2)] own_timer [of s s' m] show ?thesis by (auto simp: excl_def)
  qed
qed

text \<open>C9: As long as no thread had to wait for the mutex, at most one thread holds it, the owner the
  mutex records. (The mutex is not initialised again and not used with a condition variable.)\<close>

theorem mutex_exclusion_uncontended:
  assumes "trun (boot sp) tr (s, K)" "\<forall>e \<in> set tr. uncontended m e"
  shows "holders m tr = set_option (owner (mutexes s m))"
  using excl_run [OF assms(1) refl, of m] assms(2) by (simp add: excl_def own_def list_all_iff)

definition quiet :: "call option list" where
  "quiet = [Some (Create None 0x8000 2 0x8f00), Some (Lock 0), Some Yield, Some (Trylock 0)]"

theorem mutex_exclusion_uncontended_witness:
  "\<exists>tr s K. trun (boot 0) tr (s, K) \<and> holders 0 tr = set_option (owner (mutexes s 0)) \<and> holders 0 tr = {1}"
proof -
  have "map_option (\<lambda>(tr, S). (holders 0 tr, list_all (uncontended 0) tr)) (drive quiet (boot 0) []) = Some ({1}, True)"
    by code_simp
  then obtain tr s K where d: "drive quiet (boot 0) [] = Some (tr, s, K)" "holders 0 tr = {1}"
    "\<forall>e \<in> set tr. uncontended 0 e" by (auto simp: list_all_iff)
  from mutex_exclusion_uncontended [OF drive_boot [OF d(1)] d(3)] drive_boot [OF d(1)] d(2) show ?thesis by blast
qed

section \<open>Semaphores\<close>

text \<open>\<open>sem_post\<close> with waiters makes the first of them ready (the longest waiting of the highest
  priority) and leaves the value alone; without, it adds one, or fails at the maximum. \<open>sem_wait\<close>
  takes one, or blocks the caller behind the waiters of its priority.\<close>

theorem sem_post_wait_correct:
  assumes "sinv s L" "int_level s = 0" "L Ready = t # ts" "t \<noteq> idle"
  shows "(\<exists>s' r. sem_post m s = Some (s', Done r) \<and>
      (case L (Sem_waiter m) of
         [] \<Rightarrow> sinv s' L \<and>
           (if svalue (sems s m) = 32767 then r = -1 \<and> svalue (sems s' m) = 32767
            else r = 0 \<and> svalue (sems s' m) = svalue (sems s m) + 1)
       | u # us \<Rightarrow> r = 0 \<and> svalue (sems s' m) = svalue (sems s m) \<and>
           sinv s' (L(Sem_waiter m := us, Ready := insert_prio (prio s) u (L Ready))))) \<and>
    (\<exists>s'. sem_wait m s = Some (s', Done 0) \<and>
      (if 0 < svalue (sems s m) then sinv s' L \<and> svalue (sems s' m) = svalue (sems s m) - 1 \<and> running s' = Some t
       else svalue (sems s' m) = svalue (sems s m) \<and> running s' = Some (hd ts) \<and>
         sinv s' (L(Ready := ts, Sem_waiter m := insert_prio (prio s) t (L (Sem_waiter m))))))"
proof
  from sem_post_ok [OF assms(1,2), of m] show "\<exists>s' r. sem_post m s = Some (s', Done r) \<and>
      (case L (Sem_waiter m) of
         [] \<Rightarrow> sinv s' L \<and>
           (if svalue (sems s m) = 32767 then r = -1 \<and> svalue (sems s' m) = 32767
            else r = 0 \<and> svalue (sems s' m) = svalue (sems s m) + 1)
       | u # us \<Rightarrow> r = 0 \<and> svalue (sems s' m) = svalue (sems s m) \<and>
           sinv s' (L(Sem_waiter m := us, Ready := insert_prio (prio s) u (L Ready))))"
    by (cases "L (Sem_waiter m)") (auto simp: SEM_VALUE_MAX_def split: if_splits)
next
  from sem_wait_ok [OF assms, of m] show "\<exists>s'. sem_wait m s = Some (s', Done 0) \<and>
      (if 0 < svalue (sems s m) then sinv s' L \<and> svalue (sems s' m) = svalue (sems s m) - 1 \<and> running s' = Some t
       else svalue (sems s' m) = svalue (sems s m) \<and> running s' = Some (hd ts) \<and>
         sinv s' (L(Ready := ts, Sem_waiter m := insert_prio (prio s) t (L (Sem_waiter m)))))"
    by (auto split: if_splits)
qed

theorem sem_post_wait_correct_witness:
  "\<exists>s t s'. sem_wait 0 s = Some (s', Done 0) \<and> running s = Some t \<and> running s' \<noteq> Some t"
proof -
  have "sinv_ex (tth_initialize 0)" by (rule init_sinv)
  moreover have r: "running (tth_initialize 0) = Some 1" by (simp add: tth_initialize_def)
  ultimately obtain L ts where *: "sinv (tth_initialize 0) L" "int_level (tth_initialize 0) = 0" "L Ready = 1 # ts"
    by (rule sinv_exE)
  have z: "svalue (sems (tth_initialize 0) 0) = 0" by (simp add: tth_initialize_def)
  from sem_post_wait_correct [OF *, of 0] z obtain s' where
    "sem_wait 0 (tth_initialize 0) = Some (s', Done 0)" "running s' = Some (hd ts)" by (auto simp: idle_def)
  moreover have "hd ts \<noteq> 1"
    using ready_tail [OF sinv_sinv0 [OF *(1)] *(3)] by (cases ts) (auto simp: idle_def)
  ultimately show ?thesis
    using r by (intro exI [of _ "tth_initialize 0"] exI [of _ 1] exI [of _ s']) simp
qed

section \<open>Sleeping\<close>

text \<open>A timer tick makes ready exactly the sleepers whose remaining time is at most the length of
  a tick, 1000 us, and takes that much off everyone's time; the order by remaining time that the
  next tick relies on is kept.\<close>

theorem sleep_tick_wakes_exactly:
  assumes "sinv0 s L"
  shows "\<exists>s' L'. tth_sleep_tick s = Some s' \<and> sinv0 s' L' \<and>
    (\<forall>t. t \<in> set (L' Sleeping) \<longleftrightarrow> t \<in> set (L Sleeping) \<and> 1000 < time_left s t) \<and>
    (\<forall>t. t \<in> set (L' Ready) \<longleftrightarrow> t \<in> set (L Ready) \<or> t \<in> set (L Sleeping) \<and> time_left s t \<le> 1000) \<and>
    (\<forall>t \<in> set (L' Sleeping). time_left s' t = time_left s t - 1000)"
proof -
  let ?P = "\<lambda>t. time_left s t \<le> 1000"
  have so: "sorted_wrt (\<lambda>a b. time_left s a \<le> time_left s b) (L Sleeping)"
    using assms by (simp add: sinv0_def sleep_ok_def)
  have split: "takeWhile ?P ts = filter ?P ts \<and> dropWhile ?P ts = filter (\<lambda>t. \<not> ?P t) ts"
    if "sorted_wrt (\<lambda>a b. time_left s a \<le> time_left s b) ts" for ts
    using that
  proof (induction ts)
    case (Cons a ts)
    show ?case
    proof (cases "?P a")
      case False
      have "\<not> ?P x" if "x \<in> set ts" for x
        using Cons.prems False that by (auto dest: order_trans)
      with False show ?thesis by (auto simp: filter_empty_conv)
    qed (use Cons in auto)
  qed simp
  from sleep_tick_ok [OF assms] obtain s' L' where
    s': "tth_sleep_tick s = Some s'" "sinv0 s' L'" "L' Sleeping = dropWhile ?P (L Sleeping)"
      "set (L' Ready) = set (L Ready) \<union> set (takeWhile ?P (L Sleeping))"
      "\<forall>t. heap s t \<noteq> None \<longrightarrow> time_left s' t = time_left s t - 1000" by blast
  have "heap s t \<noteq> None" if "t \<in> set (L' Sleeping)" for t
    using in_list_heap [OF assms, of Sleeping t] that s'(3) set_dropWhileD by fastforce
  with s' split [OF so] show ?thesis
    by (intro exI [of _ s'] exI [of _ L']) (auto simp: not_le [symmetric])
qed

theorem sleep_tick_wakes_exactly_witness:
  "\<exists>s'. tth_sleep_tick (tth_initialize 0) = Some s'"
proof -
  obtain L where "sinv (tth_initialize 0) L" using init_sinv [of 0] by (auto simp: sinv_ex_def)
  then have "sinv0 (tth_initialize 0) L" by (simp add: sinv_def)
  from sleep_tick_wakes_exactly [OF this] show ?thesis by blast
qed

section \<open>Where the code goes wrong\<close>

definition cond_run :: "call option list" where
  "cond_run = [Some (Lock 0), Some (Create (Some (tth_default_attr\<lparr>a_priority := 20\<rparr>)) 0x8000 2 0x8f00),
     Some (Lock 0), Some (Cond_wait 0 0)]"

text \<open>\<open>pthread_cond_wait\<close> can put the wrong thread to wait: it moves the first ready thread, which
  after the mutex was unlocked may be a waiter of higher priority. In this run thread 1 waits on the
  condition and returns at once with the mutex, while thread 2, which wanted the mutex, is left
  waiting for the condition.\<close>

theorem cond_wait_moves_other_thread:
  "\<exists>tr s K. trun (boot 0) (Call 1 (Cond_wait 0 0) (Done 0) # tr) (s, K) \<and> running s = Some 1 \<and>
     conds s 0 = Some 2 \<and> owner (mutexes s 0) = Some 1"
proof -
  have "map_option (\<lambda>(tr, s, K). (hd tr, tr = [], running s, conds s 0, owner (mutexes s 0))) (drive cond_run (boot 0) []) =
      Some (Call 1 (Cond_wait 0 0) (Done 0), False, Some 1, Some 2, Some 1)"
    by code_simp
  then obtain tr s K where "drive cond_run (boot 0) [] = Some (tr, s, K)" "hd tr = Call 1 (Cond_wait 0 0) (Done 0)"
    "tr \<noteq> []" "running s = Some 1" "conds s 0 = Some 2" "owner (mutexes s 0) = Some 1" by auto
  moreover from this have "tr = Call 1 (Cond_wait 0 0) (Done 0) # tl tr" by (cases tr) auto
  ultimately show ?thesis using drive_boot by metis
qed

end
