(* ===== verification/Hostbridge.thy ===== *)
theory Hostbridge
  imports Prelude
begin

text \<open>
  The software hostbridge (\<open>peridot_sw_hostbridge_gen2.c\<close>): bytes from the host are split by channel
  and given to the sinks of the channels; \<open>source\<close> frames what a channel sends to the host.

  Sinks and the host device are functions that take bytes and answer how many they took; the two
  write loops call them until all is taken. Their contract is the locale \<open>accepting\<close>. The lock of
  \<open>source\<close> is not modelled: a call is one step.
\<close>

section \<open>The protocol bytes\<close>

definition AST_SOP :: byte where "AST_SOP = 0x7a"
definition AST_EOP_PREFIX :: byte where "AST_EOP_PREFIX = 0x7b"
definition AST_CHANNEL_PREFIX :: byte where "AST_CHANNEL_PREFIX = 0x7c"
definition AST_ESCAPE_PREFIX :: byte where "AST_ESCAPE_PREFIX = 0x7d"
definition AST_ESCAPE_XOR :: byte where "AST_ESCAPE_XOR = 0x20"

lemmas ast_defs = AST_SOP_def AST_EOP_PREFIX_def AST_CHANNEL_PREFIX_def AST_ESCAPE_PREFIX_def
  AST_ESCAPE_XOR_def

definition AST_NEEDS_ESCAPE :: "byte \<Rightarrow> bool" where
  "AST_NEEDS_ESCAPE x \<longleftrightarrow> AST_SOP \<le> x \<and> x \<le> AST_ESCAPE_PREFIX"

definition READ_BUFFER_LEN :: int where "READ_BUFFER_LEN = 128"
definition WRITE_BUFFER_LEN :: int where "WRITE_BUFFER_LEN = 128"

section \<open>The write loops\<close>

type_synonym 'd sink = "byte list \<Rightarrow> 'd \<Rightarrow> ('d \<times> int) option"

text \<open>\<open>write_to_channel\<close> and \<open>write_to_host\<close>: a call that takes nothing is repeated after a yield, so a
  device that never takes anything keeps the loop running for ever, which is \<open>None\<close>.\<close>

partial_function (option) write_all :: "'d sink \<Rightarrow> byte list \<Rightarrow> 'd \<Rightarrow> 'd option" where
  "write_all snk bs d =
     (if bs = [] then Some d
      else do { (d, written) \<leftarrow> snk bs d;
                if written > 0 then write_all snk (drop (nat written) bs) d else write_all snk bs d })"

declare write_all.simps [code]

text \<open>What a sink promises: it takes a prefix of the bytes and adds it to what it has taken.\<close>

locale accepting =
  fixes snk :: "'d sink" and taken :: "'d \<Rightarrow> byte list" and inv :: "'d \<Rightarrow> bool"
  assumes snk_takes: "inv d \<Longrightarrow> snk bs d = Some (d', n) \<Longrightarrow>
    n \<le> int (length bs) \<and> taken d' = taken d @ take (nat n) bs \<and> inv d'"
begin

lemma write_all_takes:
  assumes "write_all snk bs d = Some d'" "inv d"
  shows "taken d' = taken d @ bs \<and> inv d'"
proof -
  have "snk = snk \<longrightarrow> inv d \<longrightarrow> taken d' = taken d @ bs \<and> inv d'"
  proof (rule write_all.raw_induct [where P = "\<lambda>f bs d d'. f = snk \<longrightarrow> inv d \<longrightarrow>
      taken d' = taken d @ bs \<and> inv d'", OF _ assms(1)], intro impI)
    fix rec f bs d d'
    assume IH: "\<And>f bs d d'. rec f bs d = Some d' \<Longrightarrow>
        f = snk \<longrightarrow> inv d \<longrightarrow> taken d' = taken d @ bs \<and> inv d'"
      and *: "(if bs = [] then Some d
        else do { (d, written) \<leftarrow> f bs d;
                  if written > 0 then rec f (drop (nat written) bs) d else rec f bs d }) = Some d'"
      and f: "f = snk" and d: "inv d"
    show "taken d' = taken d @ bs \<and> inv d'"
    proof (cases "bs = []")
      case False
      with * f obtain d1 n where step: "snk bs d = Some (d1, n)"
        and rest: "rec snk (if n > 0 then drop (nat n) bs else bs) d1 = Some d'"
        by (auto simp: bind_eq_Some_conv split: if_splits)
      from snk_takes [OF d step] IH [OF rest] show ?thesis by (auto split: if_splits)
    qed (use * d in auto)
  qed
  with assms(2) show ?thesis by simp
qed

text \<open>A sink that takes something whenever it is called: the loop ends.\<close>

lemma write_all_ends:
  assumes "\<And>bs d. inv d \<Longrightarrow> bs \<noteq> [] \<Longrightarrow> \<exists>d' n. snk bs d = Some (d', n) \<and> 0 < n" "inv d"
  shows "\<exists>d'. write_all snk bs d = Some d' \<and> taken d' = taken d @ bs \<and> inv d'"
  using assms(2)
proof (induction bs arbitrary: d rule: length_induct)
  case (1 bs)
  show ?case
  proof (cases "bs = []")
    case True
    with 1(2) show ?thesis by (simp add: write_all.simps)
  next
    case False
    with assms(1) 1(2) obtain d1 n where step: "snk bs d = Some (d1, n)" "0 < n" by blast
    from snk_takes [OF 1(2) step(1)]
    have t: "taken d1 = taken d @ take (nat n) bs" "inv d1" by blast+
    have "length (drop (nat n) bs) < length bs" using False step(2) by (cases bs) auto
    with 1(1) t(2) obtain d' where "write_all snk (drop (nat n) bs) d1 = Some d'"
      "taken d' = taken d1 @ drop (nat n) bs" "inv d'" by blast
    with step False t(1) show ?thesis by (subst write_all.simps) simp
  qed
qed

end

section \<open>Channels\<close>

text \<open>A channel is known by its place in the list of registered channels.\<close>

record channel =
  number :: byte
  packetized :: bool

record bridge =
  channels :: "channel list"
  sink_channel :: "nat option"
  source_channel_number :: int
  channel_prefix :: bool
  escape_prefix :: bool

fun find_from :: "byte \<Rightarrow> nat \<Rightarrow> channel list \<Rightarrow> nat option" where
  "find_from n i [] = None"
| "find_from n i (c # cs) = (if number c = n then Some i else find_from n (Suc i) cs)"

definition find_channel :: "byte \<Rightarrow> bridge \<Rightarrow> nat option" where
  "find_channel n b = find_from n 0 (channels b)"

definition peridot_sw_hostbridge_gen2_register_channel :: "channel \<Rightarrow> bridge \<Rightarrow> bridge \<times> int" where
  "peridot_sw_hostbridge_gen2_register_channel c b =
     (if find_channel (number c) b \<noteq> None then (b, - EEXIST)
      else (b\<lparr>channels := channels b @ [c]\<rparr>, 0))"

definition raw_sink :: "bridge \<Rightarrow> bool" where
  "raw_sink b \<longleftrightarrow> (case sink_channel b of None \<Rightarrow> False | Some i \<Rightarrow> \<not> packetized (channels b ! i))"

section \<open>Receiving\<close>

text \<open>The local variables of \<open>service\<close> and the calls of \<open>write_to_channel\<close> it has made. The calls change
  nothing \<open>service\<close> looks at, so they are listed here and carried out by \<open>deliver\<close>.\<close>

record svc =
  buffer :: mem
  index :: int
  head :: int
  read_len :: int
  bridge :: bridge
  writes :: "(nat \<times> byte list) list"

definition emit :: "int \<Rightarrow> svc \<Rightarrow> svc option" where
  "emit till v =
     (case sink_channel (bridge v) of
        None \<Rightarrow> Some v
      | Some c \<Rightarrow>
          if till - head v > 0 then
            do { bs \<leftarrow> rd_block (buffer v) (head v) (till - head v);
                 Some (v\<lparr>writes := writes v @ [(c, bs)]\<rparr>) }
          else Some v)"

text \<open>\<open>--read_len; memmove(buffer, buffer + 1, read_len - index)\<close>\<close>

definition drop_byte :: "svc \<Rightarrow> svc option" where
  "drop_byte v =
     do { v \<leftarrow> Some (v\<lparr>read_len := read_len v - 1\<rparr>);
          bs \<leftarrow> rd_block (buffer v) 1 (read_len v - index v);
          m \<leftarrow> wr_block (buffer v) 0 bs;
          Some (v\<lparr>buffer := m\<rparr>) }"

definition upd_bridge :: "(bridge \<Rightarrow> bridge) \<Rightarrow> svc \<Rightarrow> svc" where
  "upd_bridge f v = v\<lparr>bridge := f (bridge v)\<rparr>"

text \<open>The body of the loop.\<close>

definition service_byte :: "svc \<Rightarrow> svc option" where
  "service_byte v =
     do { byte \<leftarrow> rd (buffer v) (index v);
          if byte = AST_CHANNEL_PREFIX then Some (upd_bridge (channel_prefix_update (\<lambda>_. True)) v)
          else if byte = AST_ESCAPE_PREFIX then
            let v = upd_bridge (escape_prefix_update (\<lambda>_. True)) v
            in if raw_sink (bridge v) then drop_byte v else Some v
          else do {
            (byte, v) \<leftarrow>
              (if escape_prefix (bridge v) then
                 do { let byte = byte XOR AST_ESCAPE_XOR;
                      m \<leftarrow> (if raw_sink (bridge v) then wr (buffer v) (index v) byte else Some (buffer v));
                      Some (byte, upd_bridge (escape_prefix_update (\<lambda>_. False)) (v\<lparr>buffer := m\<rparr>)) }
               else Some (byte, v));
            if channel_prefix (bridge v) then
              do { v \<leftarrow> emit (index v - 1) v;
                   Some (upd_bridge (\<lambda>b. b\<lparr>sink_channel := find_channel byte b, channel_prefix := False\<rparr>)
                           (v\<lparr>head := index v + 1\<rparr>)) }
            else if raw_sink (bridge v) \<and> (byte = AST_SOP \<or> byte = AST_EOP_PREFIX) then drop_byte v
            else Some v } }"

text \<open>The loop has at most \<open>fuel\<close> turns; \<open>index\<close> grows in each and \<open>read_len\<close> never does, so the
  number of bytes read is enough.\<close>

fun service_loop :: "nat \<Rightarrow> svc \<Rightarrow> svc option" where
  "service_loop fuel v =
     (if index v < read_len v then
        (case fuel of
           0 \<Rightarrow> None
         | Suc n \<Rightarrow> do { v \<leftarrow> service_byte v; service_loop n (v\<lparr>index := index v + 1\<rparr>) })
      else Some v)"

declare service_loop.simps [simp del]

text \<open>\<open>buf\<close> is the buffer after the device was read, \<open>n\<close> what the read returned.\<close>

definition peridot_sw_hostbridge_gen2_service ::
    "mem \<Rightarrow> int \<Rightarrow> bridge \<Rightarrow> (bridge \<times> (nat \<times> byte list) list) option" where
  "peridot_sw_hostbridge_gen2_service buf n b =
     (if n \<le> 0 then Some (b, [])
      else do { v \<leftarrow> service_loop (nat n)
                  \<lparr>buffer = buf, index = 0, head = 0, read_len = n, bridge = b, writes = []\<rparr>;
                v \<leftarrow> emit (read_len v) v;
                Some (bridge v, writes v) })"

definition deliver :: "(nat \<Rightarrow> 's sink) \<Rightarrow> (nat \<times> byte list) list \<Rightarrow> 's \<Rightarrow> 's option" where
  "deliver snks ws s = fold (\<lambda>(c, bs) s. Option.bind s (write_all (snks c) bs)) ws (Some s)"

section \<open>Sending\<close>

definition SOURCE_PACKETIZED :: u32 where "SOURCE_PACKETIZED = 1"
definition SOURCE_RESET :: u32 where "SOURCE_RESET = 2"

definition put_escaped :: "byte \<Rightarrow> mem \<Rightarrow> int \<Rightarrow> (mem \<times> int) option" where
  "put_escaped b buf wl =
     (if AST_NEEDS_ESCAPE b then
        do { buf \<leftarrow> wr buf wl AST_ESCAPE_PREFIX;
             buf \<leftarrow> wr buf (wl + 1) (b XOR AST_ESCAPE_XOR);
             Some (buf, wl + 2) }
      else do { buf \<leftarrow> wr buf wl b; Some (buf, wl + 1) })"

text \<open>The inner loop of \<open>source\<close>: the rest of the bytes, the buffer and \<open>write_len\<close>.\<close>

fun source_fill :: "bool \<Rightarrow> byte list \<Rightarrow> mem \<Rightarrow> int \<Rightarrow> (byte list \<times> mem \<times> int) option" where
  "source_fill packetize [] buf wl = Some ([], buf, wl)"
| "source_fill packetize (b # src) buf wl =
     (if wl < WRITE_BUFFER_LEN then
        do { (buf, wl) \<leftarrow> (if packetize \<and> src = []
                          then do { buf \<leftarrow> wr buf wl AST_EOP_PREFIX; Some (buf, wl + 1) }
                          else Some (buf, wl));
             (buf, wl) \<leftarrow> put_escaped b buf wl;
             source_fill packetize src buf wl }
      else Some (b # src, buf, wl))"

text \<open>The outer loop. \<open>packetize\<close> is 0, 1 before the start of the packet and -1 in it; every turn takes at
  least one byte, so as many turns as bytes are enough.\<close>

fun source_loop :: "'d sink \<Rightarrow> nat \<Rightarrow> int \<Rightarrow> byte list \<Rightarrow> mem \<Rightarrow> 'd \<Rightarrow> 'd option" where
  "source_loop dev fuel packetize src buf d =
     (if src = [] then Some d
      else case fuel of
        0 \<Rightarrow> None
      | Suc n \<Rightarrow>
          do { (buf, wl, packetize) \<leftarrow>
                 (if packetize > 0 then do { buf \<leftarrow> wr buf 0 AST_SOP; Some (buf, 1, -1) }
                  else Some (buf, 0, packetize));
               (src, buf, wl) \<leftarrow> source_fill (packetize \<noteq> 0) src buf wl;
               bs \<leftarrow> rd_block buf 0 wl;
               d \<leftarrow> write_all dev bs d;
               source_loop dev n packetize src buf d })"

declare source_loop.simps [simp del]

definition channel_header :: "byte \<Rightarrow> byte list" where
  "channel_header n =
     (if AST_NEEDS_ESCAPE n then [AST_CHANNEL_PREFIX, AST_ESCAPE_PREFIX, n XOR AST_ESCAPE_XOR]
      else [AST_CHANNEL_PREFIX, n])"

text \<open>\<open>buf\<close> is the uninitialised buffer of \<open>source\<close>.\<close>

definition peridot_sw_hostbridge_gen2_source ::
    "'d sink \<Rightarrow> mem \<Rightarrow> channel \<Rightarrow> byte list \<Rightarrow> u32 \<Rightarrow> bridge \<times> 'd \<Rightarrow> ((bridge \<times> 'd) \<times> int) option" where
  "peridot_sw_hostbridge_gen2_source dev buf c bs flags bd =
     (case bd of (b, d) \<Rightarrow>
        do { let packetize = (if flags AND SOURCE_PACKETIZED \<noteq> 0 then 1 else 0);
             (b, d) \<leftarrow>
               (if uint (number c) \<noteq> source_channel_number b \<or> flags AND SOURCE_RESET \<noteq> 0 then
                  do { d \<leftarrow> write_all dev (channel_header (number c)) d;
                       Some (b\<lparr>source_channel_number := uint (number c)\<rparr>, d) }
                else Some (b, d));
             d \<leftarrow> (if packetized c \<and> packetize = 0 then write_all dev bs d
                  else source_loop dev (length bs) packetize bs buf d);
             Some ((b, d), 0) })"

end
