(* ===== verification/Hostbridge_Props.thy ===== *)
theory Hostbridge_Props
  imports Hostbridge
begin

text \<open>
  Properties of the software hostbridge: what \<open>source\<close> sends for a packet and that its buffer
  suffices; how \<open>service\<close> splits a read by channel; where it fails for channels that are not packetized.
\<close>

section \<open>Sending\<close>

definition esc :: "byte \<Rightarrow> byte list" where
  "esc b = (if AST_NEEDS_ESCAPE b then [AST_ESCAPE_PREFIX, b XOR AST_ESCAPE_XOR] else [b])"

fun body :: "bool \<Rightarrow> byte list \<Rightarrow> byte list" where
  "body p [] = []"
| "body p (b # bs) = (if p \<and> bs = [] then [AST_EOP_PREFIX] else []) @ esc b @ body p bs"

definition frame :: "byte list \<Rightarrow> byte list" where
  "frame bs = (if bs = [] then [] else AST_SOP # body True bs)"

lemma channel_header_esc: "channel_header n = AST_CHANNEL_PREFIX # esc n"
  by (simp add: channel_header_def esc_def)

lemma length_esc: "length (esc b) \<le> 2" "0 < length (esc b)"
  by (simp_all add: esc_def)

lemma esc_special: "AST_NEEDS_ESCAPE b \<longleftrightarrow> b = AST_SOP \<or> b = AST_EOP_PREFIX \<or> b = AST_CHANNEL_PREFIX \<or> b = AST_ESCAPE_PREFIX"
proof -
  have "AST_NEEDS_ESCAPE b \<longleftrightarrow> 0x7a \<le> uint b \<and> uint b \<le> 0x7d"
    by (simp add: AST_NEEDS_ESCAPE_def ast_defs word_le_def)
  also have "\<dots> \<longleftrightarrow> uint b = 0x7a \<or> uint b = 0x7b \<or> uint b = 0x7c \<or> uint b = 0x7d" by auto
  also have "\<dots> \<longleftrightarrow> b = 0x7a \<or> b = 0x7b \<or> b = 0x7c \<or> b = 0x7d"
    by (simp add: word_uint_eq_iff)
  finally show ?thesis by (simp add: ast_defs)
qed

lemma frame_snoc: "frame (bs @ [b]) = AST_SOP # concat (map esc bs) @ AST_EOP_PREFIX # esc b"
proof -
  have "body True (bs @ [b]) = concat (map esc bs) @ AST_EOP_PREFIX # esc b" by (induction bs) simp_all
  then show ?thesis by (simp add: frame_def)
qed

text \<open>Writing at the end of what the buffer holds.\<close>

lemma wr_take:
  "wl < length buf \<Longrightarrow> \<exists>buf'. wr buf (int wl) b = Some buf' \<and> length buf' = length buf \<and>
     take (Suc wl) buf' = take wl buf @ [b]"
  by (simp add: wr_def take_Suc_conv_app_nth)

lemma put_escaped_ok:
  assumes "wl + length (esc b) \<le> length buf"
  shows "\<exists>buf'. put_escaped b buf (int wl) = Some (buf', int (wl + length (esc b))) \<and>
    length buf' = length buf \<and> take (wl + length (esc b)) buf' = take wl buf @ esc b"
proof (cases "AST_NEEDS_ESCAPE b")
  case True
  with assms have l: "wl < length buf" "Suc wl < length buf" by (simp_all add: esc_def)
  from wr_take [OF l(1), of AST_ESCAPE_PREFIX] obtain buf1 where
    1: "wr buf (int wl) AST_ESCAPE_PREFIX = Some buf1" "length buf1 = length buf"
      "take (Suc wl) buf1 = take wl buf @ [AST_ESCAPE_PREFIX]" by blast
  with l(2) wr_take [of "Suc wl" buf1 "b XOR AST_ESCAPE_XOR"] obtain buf2 where
    2: "wr buf1 (int wl + 1) (b XOR AST_ESCAPE_XOR) = Some buf2" "length buf2 = length buf"
      "take (Suc (Suc wl)) buf2 = take wl buf @ [AST_ESCAPE_PREFIX, b XOR AST_ESCAPE_XOR]"
    by (auto simp: add.commute)
  with 1 True show ?thesis by (simp add: put_escaped_def esc_def)
next
  case False
  with assms have "wl < length buf" by (simp add: esc_def)
  from wr_take [OF this, of b] False show ?thesis by (auto simp: put_escaped_def esc_def)
qed

lemma source_fill_ok:
  assumes "length buf = 130" "wl \<le> 130" "src \<noteq> [] \<longrightarrow> wl < 128"
  shows "\<exists>src' buf' wl' out. source_fill p src buf (int wl) = Some (src', buf', int wl') \<and>
    length buf' = 130 \<and> wl' \<le> 130 \<and> take wl' buf' = take wl buf @ out \<and> body p src = out @ body p src' \<and>
    (src \<noteq> [] \<longrightarrow> length src' < length src)"
  using assms
proof (induction src arbitrary: buf wl)
  case (Cons b src)
  have "\<exists>buf1 wl1. (if p \<and> src = []
        then do { buf \<leftarrow> wr buf (int wl) AST_EOP_PREFIX; Some (buf, int wl + 1) }
        else Some (buf, int wl)) = Some (buf1, int wl1) \<and> length buf1 = 130 \<and> wl1 \<le> 128 \<and>
      take wl1 buf1 = take wl buf @ (if p \<and> src = [] then [AST_EOP_PREFIX] else [])"
    using Cons.prems wr_take [of wl buf AST_EOP_PREFIX]
    by (cases "p \<and> src = []") (auto intro!: exI [of _ "Suc wl"])
  then obtain buf1 wl1 where 1: "(if p \<and> src = []
        then do { buf \<leftarrow> wr buf (int wl) AST_EOP_PREFIX; Some (buf, int wl + 1) }
        else Some (buf, int wl)) = Some (buf1, int wl1)" "length buf1 = 130" "wl1 \<le> 128"
      "take wl1 buf1 = take wl buf @ (if p \<and> src = [] then [AST_EOP_PREFIX] else [])" by blast
  have "wl1 + length (esc b) \<le> length buf1" using 1 length_esc(1) [of b] by linarith
  from put_escaped_ok [OF this] obtain buf2 where
    2: "put_escaped b buf1 (int wl1) = Some (buf2, int (wl1 + length (esc b)))" "length buf2 = 130"
      "take (wl1 + length (esc b)) buf2 = take wl1 buf1 @ esc b" using 1(2) by auto
  let ?wl2 = "wl1 + length (esc b)"
  have step: "source_fill p (b # src) buf (int wl) = source_fill p src buf2 (int ?wl2)"
    using Cons.prems 1(1) 2(1) by (simp add: WRITE_BUFFER_LEN_def)
  have wl2: "?wl2 \<le> 130" using 1 length_esc(1) [of b] by linarith
  show ?case
  proof (cases "src \<noteq> [] \<and> \<not> ?wl2 < 128")
    case True
    then have "source_fill p src buf2 (int ?wl2) = Some (src, buf2, int ?wl2)"
      by (cases src) (simp_all add: WRITE_BUFFER_LEN_def)
    with True 1(4) 2 wl2 show ?thesis unfolding step
      by (intro exI [of _ src] exI [of _ buf2] exI [of _ "?wl2"] exI [of _ "esc b"]) simp
  next
    case False
    with Cons.IH [OF 2(2) wl2] obtain src' buf' wl' out where
      3: "source_fill p src buf2 (int ?wl2) = Some (src', buf', int wl')" "length buf' = 130" "wl' \<le> 130"
        "take wl' buf' = take ?wl2 buf2 @ out" "body p src = out @ body p src'"
        "src \<noteq> [] \<longrightarrow> length src' < length src" by blast
    have "length src' < Suc (length src)" using 3 by (cases "src = []") auto
    with 3 1(4) 2(3) show ?thesis unfolding step
      by (intro exI [of _ src'] exI [of _ buf'] exI [of _ wl']
        exI [of _ "(if p \<and> src = [] then [AST_EOP_PREFIX] else []) @ esc b @ out"]) simp
  qed
qed simp

text \<open>A host device in front of which the loop ends.\<close>

locale live = accepting +
  assumes live: "inv d \<Longrightarrow> bs \<noteq> [] \<Longrightarrow> \<exists>d' n. snk bs d = Some (d', n) \<and> 0 < n"
begin

lemma sends: "inv d \<Longrightarrow> \<exists>d'. write_all snk bs d = Some d' \<and> taken d' = taken d @ bs \<and> inv d'"
  using write_all_ends live by blast

lemma source_loop_ok:
  assumes "length buf = 130" "inv d" "length src \<le> fuel"
  shows "\<exists>d'. source_loop snk fuel p src buf d = Some d' \<and> inv d' \<and>
    taken d' = taken d @ (if src \<noteq> [] \<and> p > 0 then [AST_SOP] else []) @ body (p \<noteq> 0) src"
  using assms
proof (induction fuel arbitrary: p src buf d)
  case (Suc n)
  show ?case
  proof (cases "src = []")
    case False
    let ?p = "if p > 0 then - 1 else p"
    have "\<exists>buf1 wl. (if p > 0 then do { buf \<leftarrow> wr buf 0 AST_SOP; Some (buf, 1, - 1) } else Some (buf, 0, p)) =
        Some (buf1, int wl, ?p) \<and> length buf1 = 130 \<and> wl \<le> 1 \<and> take wl buf1 = (if p > 0 then [AST_SOP] else [])"
      using wr_take [of 0 buf AST_SOP] Suc.prems by (auto intro: exI [of _ 0] exI [of _ 1])
    then obtain buf1 wl where 1: "(if p > 0 then do { buf \<leftarrow> wr buf 0 AST_SOP; Some (buf, 1, - 1) } else Some (buf, 0, p)) =
        Some (buf1, int wl, ?p)" "length buf1 = 130" "wl \<le> 1" "take wl buf1 = (if p > 0 then [AST_SOP] else [])"
      by blast
    from source_fill_ok [of buf1 wl src "?p \<noteq> 0"] 1 False obtain src' buf2 wl' out where
      2: "source_fill (?p \<noteq> 0) src buf1 (int wl) = Some (src', buf2, int wl')" "length buf2 = 130" "wl' \<le> 130"
        "take wl' buf2 = take wl buf1 @ out" "body (?p \<noteq> 0) src = out @ body (?p \<noteq> 0) src'"
        "length src' < length src" by auto
    from sends [OF Suc.prems(2), of "take wl' buf2"] obtain d1 where
      3: "write_all snk (take wl' buf2) d = Some d1" "taken d1 = taken d @ take wl' buf2" "inv d1" by blast
    have "length src' \<le> n" using 2 Suc.prems by simp
    from Suc.IH [OF 2(2) 3(3) this, of ?p] obtain d' where
      4: "source_loop snk n ?p src' buf2 d1 = Some d'" "inv d'"
        "taken d' = taken d1 @ (if src' \<noteq> [] \<and> ?p > 0 then [AST_SOP] else []) @ body (?p \<noteq> 0) src'" by blast
    have "rd_block buf2 0 (int wl') = Some (take wl' buf2)" using rd_block_int [of 0 wl' buf2] 2 by simp
    then have "source_loop snk (Suc n) p src buf d = Some d'"
      unfolding source_loop.simps [of snk "Suc n"] using False 1(1) 2(1) 3(1) 4(1) by simp
    moreover have "(?p \<noteq> 0) = (p \<noteq> 0)" by simp
    ultimately show ?thesis using 1(4) 2(4,5) 3(2) 4(2,3) False by (auto split: if_splits)
  qed (use Suc in \<open>simp add: source_loop.simps\<close>)
qed (simp add: source_loop.simps)

lemma source_ok:
  assumes "length buf = 130" "inv d"
  shows "\<exists>d'. peridot_sw_hostbridge_gen2_source snk buf c bs flags (b, d) =
      Some ((b\<lparr>source_channel_number := uint (number c)\<rparr>, d'), 0) \<and> inv d' \<and>
    taken d' = taken d @
      (if uint (number c) \<noteq> source_channel_number b \<or> flags AND SOURCE_RESET \<noteq> 0
       then channel_header (number c) else []) @
      (if flags AND SOURCE_PACKETIZED \<noteq> 0 then frame bs else if packetized c then bs else body False bs)"
proof -
  let ?h = "uint (number c) \<noteq> source_channel_number b \<or> flags AND SOURCE_RESET \<noteq> 0"
  let ?p = "if flags AND SOURCE_PACKETIZED \<noteq> 0 then 1 else (0 :: int)"
  let ?b = "b\<lparr>source_channel_number := uint (number c)\<rparr>"
  obtain d1 where 1: "(if ?h then do { d \<leftarrow> write_all snk (channel_header (number c)) d; Some (?b, d) } else Some (b, d)) =
      Some (?b, d1)" "inv d1" "taken d1 = taken d @ (if ?h then channel_header (number c) else [])"
    using sends [OF assms(2), of "channel_header (number c)"] assms(2) by (cases ?h) auto
  obtain d2 where "(if packetized c \<and> ?p = 0 then write_all snk bs d1
        else source_loop snk (length bs) ?p bs buf d1) = Some d2" "inv d2"
    "taken d2 = taken d1 @ (if flags AND SOURCE_PACKETIZED \<noteq> 0 then frame bs else if packetized c then bs else body False bs)"
    using sends [OF 1(2), of bs] source_loop_ok [OF assms(1) 1(2) order.refl, where p = ?p and src = bs]
    by (cases "packetized c \<and> ?p = 0") (auto simp: frame_def split: if_splits)
  with 1 show ?thesis by (auto simp: peridot_sw_hostbridge_gen2_source_def)
qed

end

section \<open>Receiving\<close>

text \<open>A read that is data for the current channel, then channel prefixes with more data. The data
  (\<open>ast_data\<close>) has no channel prefix, and each escape byte is followed by what it escapes.\<close>

fun ast_data :: "byte list \<Rightarrow> bool" where
  "ast_data [] = True"
| "ast_data (x # xs) =
     (if x = AST_CHANNEL_PREFIX then False
      else if x = AST_ESCAPE_PREFIX then
        (case xs of [] \<Rightarrow> False
         | y # ys \<Rightarrow> y \<noteq> AST_CHANNEL_PREFIX \<and> y \<noteq> AST_ESCAPE_PREFIX \<and> ast_data ys)
      else ast_data xs)"

fun stream :: "byte list \<Rightarrow> (byte \<times> byte list) list \<Rightarrow> byte list" where
  "stream xs [] = xs"
| "stream xs ((ch, ys) # segs) = xs @ [AST_CHANNEL_PREFIX, ch] @ stream ys segs"

definition chunk :: "nat option \<Rightarrow> byte list \<Rightarrow> (nat \<times> byte list) list" where
  "chunk cur xs = (case cur of None \<Rightarrow> [] | Some c \<Rightarrow> if xs = [] then [] else [(c, xs)])"

fun demux :: "bridge \<Rightarrow> byte list \<Rightarrow> (byte \<times> byte list) list \<Rightarrow> bridge \<times> (nat \<times> byte list) list" where
  "demux b xs [] = (b, chunk (sink_channel b) xs)"
| "demux b xs ((ch, ys) # segs) =
     apsnd (\<lambda>ws. chunk (sink_channel b) xs @ ws) (demux (b\<lparr>sink_channel := find_channel ch b\<rparr>) ys segs)"

definition all_packetized :: "bridge \<Rightarrow> bool" where
  "all_packetized b \<longleftrightarrow> (\<forall>c \<in> set (channels b). packetized c) \<and>
     (\<forall>i. sink_channel b = Some i \<longrightarrow> i < length (channels b))"

lemma find_from_bound: "find_from n i cs = Some j \<Longrightarrow> i \<le> j \<and> j < i + length cs"
  by (induction cs arbitrary: i) (auto split: if_splits, fastforce+)

lemma all_packetized_find: "all_packetized b \<Longrightarrow> all_packetized (b\<lparr>sink_channel := find_channel ch b\<rparr>)"
  by (auto simp: all_packetized_def find_channel_def dest: find_from_bound)

lemma not_raw [simp]: "all_packetized b \<Longrightarrow> raw_sink b = False"
  by (auto simp: all_packetized_def raw_sink_def split: option.splits)

lemma all_packetized_upd [simp]:
  "all_packetized (b\<lparr>escape_prefix := e\<rparr>) = all_packetized b"
  "all_packetized (b\<lparr>channel_prefix := e\<rparr>) = all_packetized b"
  by (simp_all add: all_packetized_def)

text \<open>The state between two pieces of the read: \<open>pre\<close> is done, \<open>rest\<close> is to come.\<close>

definition at :: "byte list \<Rightarrow> byte list \<Rightarrow> svc \<Rightarrow> bool" where
  "at pre rest v \<longleftrightarrow> (\<exists>junk. buffer v = pre @ rest @ junk) \<and> index v = int (length pre) \<and>
     read_len v = int (length pre + length rest) \<and> all_packetized (bridge v) \<and>
     \<not> channel_prefix (bridge v) \<and> \<not> escape_prefix (bridge v)"

lemma at_rd: "at pre (x # rest) v \<Longrightarrow> rd (buffer v) (index v) = Some x \<and> index v < read_len v"
  by (auto simp: at_def mem_simps)

lemma at_rd2: "at pre (x # y # rest) v \<Longrightarrow> rd (buffer v) (index v + 1) = Some y"
  using rd_at [of "index v + 1" "pre @ [x]" y] by (auto simp: at_def)

lemma loop_turn:
  "index v < read_len v \<Longrightarrow> service_byte v = Some w \<Longrightarrow>
   service_loop (Suc n) v = service_loop n (w\<lparr>index := index w + 1\<rparr>)"
  by (simp add: service_loop.simps [of "Suc n"])

lemma loop_data:
  "at pre (xs @ rest) v \<Longrightarrow> ast_data xs \<Longrightarrow>
   service_loop (length xs + n) v = service_loop n (v\<lparr>index := index v + int (length xs)\<rparr>) \<and>
   at (pre @ xs) rest (v\<lparr>index := index v + int (length xs)\<rparr>)"
proof (induction xs arbitrary: pre v rule: ast_data.induct)
  case (2 x xs)
  show ?case
  proof (cases "x = AST_ESCAPE_PREFIX")
    case True
    then obtain y ys where xs: "xs = y # ys" "y \<noteq> AST_CHANNEL_PREFIX" "y \<noteq> AST_ESCAPE_PREFIX" "ast_data ys"
      using 2(4) by (cases xs) (auto simp: ast_defs split: if_splits)
    let ?v1 = "upd_bridge (escape_prefix_update (\<lambda>_. True)) v"
    let ?v2 = "v\<lparr>index := index v + 1 + 1\<rparr>"
    have a: "at pre (x # y # ys @ rest) v" using 2(3) xs(1) by simp
    have "service_byte v = Some ?v1"
      using at_rd [OF a] a True by (simp add: service_byte_def at_def ast_defs upd_bridge_def)
    moreover have "service_byte (?v1\<lparr>index := index v + 1\<rparr>) = Some (v\<lparr>index := index v + 1\<rparr>)"
      using at_rd2 [OF a] a xs(2,3) by (simp add: service_byte_def at_def upd_bridge_def)
    moreover have "index v + 1 < read_len v" using a by (simp add: at_def)
    ultimately have "service_loop (Suc (Suc (length ys + n))) v = service_loop (length ys + n) ?v2"
      using at_rd [OF a] by (simp add: loop_turn upd_bridge_def)
    moreover have "at (pre @ [x, y]) (ys @ rest) ?v2" using a by (auto simp: at_def)
    moreover have "x \<noteq> AST_CHANNEL_PREFIX" using True by (simp add: ast_defs)
    ultimately show ?thesis using 2(1) [OF _ True xs(1), of "pre @ [x, y]" ?v2] xs(1,4)
      by (simp add: algebra_simps)
  next
    case False
    then have x: "x \<noteq> AST_CHANNEL_PREFIX" "ast_data xs" using 2(4) by (auto split: if_splits)
    have a: "at pre (x # xs @ rest) v" using 2(3) by simp
    have "service_byte v = Some v"
      using at_rd [OF a] a x False by (simp add: service_byte_def at_def)
    then have "service_loop (Suc (length xs + n)) v = service_loop (length xs + n) (v\<lparr>index := index v + 1\<rparr>)"
      using at_rd [OF a] by (simp add: loop_turn)
    moreover have "at (pre @ [x]) (xs @ rest) (v\<lparr>index := index v + 1\<rparr>)" using a by (auto simp: at_def)
    ultimately show ?thesis
      using 2(2) [OF x(1) False _ x(2), of "pre @ [x]" "v\<lparr>index := index v + 1\<rparr>"]
      by (simp add: algebra_simps)
  qed
qed simp

text \<open>\<open>emit\<close> up to a place after \<open>pre\<close>, where \<open>xs\<close> are the bytes since \<open>head\<close>.\<close>

lemma emit_chunk:
  assumes "buffer v = pre @ xs @ junk" "head v = int (length pre)"
  shows "emit (int (length pre + length xs)) v = Some (v\<lparr>writes := writes v @ chunk (sink_channel (bridge v)) xs\<rparr>)"
  using assms rd_block_int [of "length pre" "length xs" "buffer v"]
  by (auto simp: emit_def chunk_def split: option.split)

lemma loop_prefix:
  assumes a: "at (pre @ xs) ([AST_CHANNEL_PREFIX, ch] @ rest) v" and h: "head v = int (length pre)"
    and ch: "ch \<noteq> AST_CHANNEL_PREFIX" "ch \<noteq> AST_ESCAPE_PREFIX"
  shows "\<exists>w. service_loop (Suc (Suc n)) v = service_loop n w \<and>
    at (pre @ xs @ [AST_CHANNEL_PREFIX, ch]) rest w \<and> head w = index w \<and>
    bridge w = (bridge v)\<lparr>sink_channel := find_channel ch (bridge v)\<rparr> \<and>
    writes w = writes v @ chunk (sink_channel (bridge v)) xs"
proof -
  let ?v1 = "upd_bridge (channel_prefix_update (\<lambda>_. True)) v"
  let ?v2 = "?v1\<lparr>index := index v + 1\<rparr>"
  have "service_byte v = Some ?v1"
    using at_rd [of "pre @ xs" AST_CHANNEL_PREFIX "ch # rest" v] a by (simp add: service_byte_def)
  then have 1: "service_loop (Suc (Suc n)) v = service_loop (Suc n) ?v2"
    using at_rd [of "pre @ xs" AST_CHANNEL_PREFIX "ch # rest" v] a by (simp add: loop_turn upd_bridge_def)
  let ?w1 = "upd_bridge (\<lambda>b. b\<lparr>sink_channel := find_channel ch b, channel_prefix := False\<rparr>)
    (?v2\<lparr>writes := writes v @ chunk (sink_channel (bridge v)) xs, head := index v + 1 + 1\<rparr>)"
  obtain junk where "buffer v = pre @ xs @ [AST_CHANNEL_PREFIX, ch] @ rest @ junk" using a by (auto simp: at_def)
  then have "emit (index v) ?v2 = Some (?v2\<lparr>writes := writes v @ chunk (sink_channel (bridge v)) xs\<rparr>)"
    using emit_chunk [of ?v2 pre xs] h a by (simp add: at_def upd_bridge_def)
  then have "service_byte ?v2 = Some ?w1"
    using at_rd2 [of "pre @ xs" AST_CHANNEL_PREFIX ch rest v] a ch
    by (simp add: service_byte_def at_def upd_bridge_def)
  then have "service_loop (Suc n) ?v2 = service_loop n (?w1\<lparr>index := index ?w1 + 1\<rparr>)"
    using a by (intro loop_turn) (simp_all add: at_def upd_bridge_def)
  moreover have "at (pre @ xs @ [AST_CHANNEL_PREFIX, ch]) rest (?w1\<lparr>index := index ?w1 + 1\<rparr>)"
    using a by (auto simp: at_def upd_bridge_def find_channel_def dest: all_packetized_find)
  moreover have "b\<lparr>sink_channel := c, channel_prefix := False\<rparr> = b\<lparr>sink_channel := c\<rparr>" if "\<not> channel_prefix b" for b :: bridge and c
    using that by simp
  ultimately show ?thesis using 1 a by (auto simp: upd_bridge_def at_def find_channel_def)
qed

lemma service_demux:
  assumes "at (pre @ []) (stream xs segs) v" "head v = int (length pre)" "ast_data xs"
    "\<forall>(ch, ys) \<in> set segs. ast_data ys \<and> ch \<noteq> AST_CHANNEL_PREFIX \<and> ch \<noteq> AST_ESCAPE_PREFIX"
  shows "\<exists>w. do { v \<leftarrow> service_loop (length (stream xs segs)) v; emit (read_len v) v } = Some w \<and>
    (bridge w, writes w) = apsnd (\<lambda>ws. writes v @ ws) (demux (bridge v) xs segs)"
  using assms
proof (induction segs arbitrary: pre xs v)
  case Nil
  let ?w = "v\<lparr>index := index v + int (length xs)\<rparr>"
  from loop_data [of pre xs "[]" v 0] Nil
  have l: "service_loop (length xs) v = service_loop 0 ?w" and a: "at (pre @ xs) [] ?w" by auto
  have "service_loop 0 ?w = Some ?w" using a by (simp add: service_loop.simps at_def)
  moreover obtain junk where "buffer ?w = pre @ xs @ junk" using a by (auto simp: at_def)
  then have "emit (read_len ?w) ?w = Some (?w\<lparr>writes := writes v @ chunk (sink_channel (bridge v)) xs\<rparr>)"
    using emit_chunk [of ?w pre xs junk] Nil(2) a by (simp add: at_def)
  ultimately show ?case using l by simp
next
  case (Cons seg segs)
  obtain ch ys where seg: "seg = (ch, ys)" by (cases seg)
  have ch: "ch \<noteq> AST_CHANNEL_PREFIX" "ch \<noteq> AST_ESCAPE_PREFIX" "ast_data ys" using Cons.prems(4) seg by auto
  let ?v1 = "v\<lparr>index := index v + int (length xs)\<rparr>"
  let ?n = "length (stream ys segs)"
  from loop_data [of pre xs "[AST_CHANNEL_PREFIX, ch] @ stream ys segs" v "Suc (Suc ?n)"] Cons.prems seg
  have l: "service_loop (length (stream xs (seg # segs))) v = service_loop (Suc (Suc ?n)) ?v1"
    and a: "at (pre @ xs) ([AST_CHANNEL_PREFIX, ch] @ stream ys segs) ?v1" by auto
  from loop_prefix [OF a _ ch(1,2), of ?n] Cons.prems(2) obtain w where
    w: "service_loop (Suc (Suc ?n)) ?v1 = service_loop ?n w"
      "at (pre @ xs @ [AST_CHANNEL_PREFIX, ch]) (stream ys segs) w" "head w = index w"
      "bridge w = (bridge v)\<lparr>sink_channel := find_channel ch (bridge v)\<rparr>"
      "writes w = writes v @ chunk (sink_channel (bridge v)) xs" by auto
  have "head w = int (length (pre @ xs @ [AST_CHANNEL_PREFIX, ch]))" using w(2,3) by (simp add: at_def)
  with Cons.IH [of "pre @ xs @ [AST_CHANNEL_PREFIX, ch]" ys w] w(2) ch(3) Cons.prems(4)
  obtain z where "do { v \<leftarrow> service_loop ?n w; emit (read_len v) v } = Some z"
    "(bridge z, writes z) = apsnd (\<lambda>ws. writes w @ ws) (demux (bridge w) ys segs)" by auto
  with l w show ?case unfolding seg by (simp add: apsnd_def map_prod_def split: prod.splits)
qed


definition two_channels :: bridge where
  "two_channels = \<lparr>channels = [\<lparr>number = 0, packetized = True\<rparr>, \<lparr>number = 1, packetized = True\<rparr>],
     sink_channel = Some 0, source_channel_number = -1, channel_prefix = False, escape_prefix = False\<rparr>"


definition raw_channel :: bridge where
  "raw_channel = \<lparr>channels = [\<lparr>number = 2, packetized = False\<rparr>],
     sink_channel = Some 0, source_channel_number = -1, channel_prefix = False, escape_prefix = False\<rparr>"

text \<open>For a channel that is not packetized the removal of special bytes goes wrong: an escape byte inside
  a read removes the first byte of the read instead of itself, and the byte that then stands in its
  place is skipped. The host sends \<open>A\<close>, an escaped \<open>{\<close> and \<open>B\<close>; the sink gets \<open>0x7d\<close> and \<open>0x5b\<close>.\<close>

theorem service_garbles_raw_channel:
  "peridot_sw_hostbridge_gen2_service (0x41 # esc 0x7b @ [0x42] @ replicate 124 0) 4 raw_channel =
     Some (raw_channel, [(0, [0x7d, 0x5b])])"
  by code_simp

end
