(* ===== verification/Buart.thy ===== *)
theory Buart
  imports Hostbridge_Props
begin

text \<open>
  The buffered UART (\<open>buffered_uart.c\<close>), the device behind the hostbridge.

  The hardware is its two FIFOs and the interrupt enable register. Time passes for it only while the
  driver waits for a semaphore: in the \<open>k\<close>-th such period the transmitter sends one word or more
  (\<open>pace k\<close> says how many more) and the receiver takes in \<open>arrivals k\<close>. That the transmitter sends and the
  meaning of the status bits are the documented behaviour of the core. Nothing else is assumed of
  \<open>pace\<close> and \<open>arrivals\<close>.
\<close>

section \<open>Registers\<close>

definition STATUS_RXE :: u32 where "STATUS_RXE = 0x8000"
definition STATUS_RXNE :: u32 where "STATUS_RXNE = 0x4000"
definition STATUS_TXF :: u32 where "STATUS_TXF = 0x0800"
definition STATUS_TXNF :: u32 where "STATUS_TXNF = 0x0400"
definition STATUS_TXE :: u32 where "STATUS_TXE = 0x0200"
definition STATUS_CAUSES :: u32 where "STATUS_CAUSES = 0x7780"
definition INTR_RXNE :: u32 where "INTR_RXNE = 0x4000"
definition INTR_IRQE :: u32 where "INTR_IRQE = 0x0001"
definition DATA_RXE :: u16 where "DATA_RXE = 0x8000"

lemmas uart_regs = STATUS_RXE_def STATUS_RXNE_def STATUS_TXF_def STATUS_TXNF_def STATUS_TXE_def
  STATUS_CAUSES_def INTR_RXNE_def INTR_IRQE_def

record uart =
  txq :: "u16 list"
  txd :: "u16 list"
  rxq :: "u16 list"
  depth :: nat
  clock :: nat
  pace :: "nat \<Rightarrow> nat"
  arrivals :: "nat \<Rightarrow> u16 list"
  intr :: u32
  dataMask :: u16
  usem_read :: nat
  usem_write :: nat
  usem_close :: nat

text \<open>\<open>txd\<close> is what has gone out. The status bits the driver does not use are left 0.\<close>

definition status :: "uart \<Rightarrow> u32" where
  "status u =
     (if rxq u = [] then STATUS_RXE else STATUS_RXNE) OR
     (if depth u \<le> length (txq u) then STATUS_TXF else STATUS_TXNF) OR
     (if txq u = [] then STATUS_TXE else 0)"

definition hw :: "uart \<Rightarrow> uart" where
  "hw u = (let n = Suc (pace u (clock u)) in
     u\<lparr>txd := txd u @ take n (txq u), txq := drop n (txq u), rxq := rxq u @ arrivals u (clock u),
       clock := Suc (clock u)\<rparr>)"

definition iord_data :: "uart \<Rightarrow> u16 \<times> uart" where
  "iord_data u = (case rxq u of [] \<Rightarrow> (DATA_RXE, u) | w # ws \<Rightarrow> (w, u\<lparr>rxq := ws\<rparr>))"

section \<open>The driver\<close>

definition buffered_uart_irq :: "uart \<Rightarrow> uart" where
  "buffered_uart_irq u =
     (let irq = intr u;
          causes = status u AND STATUS_CAUSES AND irq;
          u = u\<lparr>intr := irq AND NOT causes\<rparr>;
          u = (if causes AND INTR_RXNE \<noteq> 0 then u\<lparr>usem_read := usem_read u + 1\<rparr> else u);
          u = (if causes AND STATUS_TXNF \<noteq> 0 then u\<lparr>usem_write := usem_write u + 1\<rparr> else u)
      in if causes AND STATUS_TXE \<noteq> 0 then u\<lparr>usem_close := usem_close u + 1\<rparr> else u)"

text \<open>The interrupt is taken when the interrupts are on and a cause is enabled.\<close>

definition take_irq :: "uart \<Rightarrow> uart" where
  "take_irq u =
     (if intr u AND INTR_IRQE \<noteq> 0 \<and> status u AND STATUS_CAUSES AND intr u \<noteq> 0 then buffered_uart_irq u
      else u)"

datatype usem = Sem_read | Sem_write | Sem_close

definition count :: "usem \<Rightarrow> uart \<Rightarrow> nat" where
  "count k u = (case k of Sem_read \<Rightarrow> usem_read u | Sem_write \<Rightarrow> usem_write u | Sem_close \<Rightarrow> usem_close u)"

definition dec :: "usem \<Rightarrow> uart \<Rightarrow> uart" where
  "dec k u = (case k of Sem_read \<Rightarrow> u\<lparr>usem_read := usem_read u - 1\<rparr>
     | Sem_write \<Rightarrow> u\<lparr>usem_write := usem_write u - 1\<rparr> | Sem_close \<Rightarrow> u\<lparr>usem_close := usem_close u - 1\<rparr>)"

text \<open>\<open>ALT_SEM_PEND\<close>: the hardware runs until an interrupt has posted the semaphore.\<close>

partial_function (option) pend :: "usem \<Rightarrow> uart \<Rightarrow> uart option" where
  "pend k u = (if count k u > 0 then Some (dec k u) else pend k (take_irq (hw u)))"

definition buffered_uart_wait :: "usem \<Rightarrow> u32 \<Rightarrow> uart \<Rightarrow> uart option" where
  "buffered_uart_wait k trigger u = pend k (take_irq (u\<lparr>intr := intr u OR trigger\<rparr>))"

definition buffered_uart_init :: "uart \<Rightarrow> uart" where
  "buffered_uart_init u =
     u\<lparr>usem_read := 0, usem_write := 0, usem_close := 0, txq := [], rxq := [], intr := INTR_IRQE\<rparr>"

partial_function (option) close_loop :: "uart \<Rightarrow> uart option" where
  "close_loop u =
     (if status u AND STATUS_TXE \<noteq> 0 then Some u
      else do { u \<leftarrow> buffered_uart_wait Sem_close STATUS_TXE u; close_loop u })"

definition buffered_uart_close :: "bool \<Rightarrow> uart \<Rightarrow> (uart \<times> int) option" where
  "buffered_uart_close nonblock u =
     (if status u AND STATUS_TXE \<noteq> 0 then Some (u, 0)
      else if nonblock then Some (u, - EWOULDBLOCK)
      else do { u \<leftarrow> close_loop u; Some (u, 0) })"

definition paired :: "uart \<Rightarrow> bool" where
  "paired u \<longleftrightarrow> dataMask u > 0xff"

text \<open>The loop of \<open>read\<close>: \<open>got\<close> are the bytes stored through \<open>ptr\<close> so far.\<close>

partial_function (option) read_loop ::
    "bool \<Rightarrow> int \<Rightarrow> int \<Rightarrow> byte list \<Rightarrow> uart \<Rightarrow> (uart \<times> byte list \<times> int) option" where
  "read_loop nonblock len actual got u =
     (if len > 0 then
        (case iord_data u of (data, u) \<Rightarrow>
          if data AND DATA_RXE \<noteq> 0 then
            if actual > 0 then Some (u, got, if paired u then actual * 2 else actual)
            else if nonblock then Some (u, got, - EWOULDBLOCK)
            else do { u \<leftarrow> buffered_uart_wait Sem_read INTR_RXNE u;
                      read_loop nonblock len actual got u }
          else read_loop nonblock (len - 1) (actual + 1)
                 (got @ ucast (data AND 0xff) # (if paired u then [ucast (drop_bit 8 data)] else [])) u)
      else Some (u, got, if paired u then actual * 2 else actual))"

definition buffered_uart_read :: "bool \<Rightarrow> int \<Rightarrow> uart \<Rightarrow> (uart \<times> byte list \<times> int) option" where
  "buffered_uart_read nonblock len u =
     read_loop nonblock (if paired u then (if len < 0 then - (- len div 2) else len div 2) else len) 0 [] u"

text \<open>The loop of \<open>write\<close>; \<open>bs\<close> are the bytes from \<open>ptr\<close> on, \<open>len\<close> counts words.\<close>

partial_function (option) write_loop :: "bool \<Rightarrow> int \<Rightarrow> int \<Rightarrow> byte list \<Rightarrow> uart \<Rightarrow> (uart \<times> int) option" where
  "write_loop nonblock len actual bs u =
     (if len > 0 then
        if status u AND STATUS_TXF = 0 then
          do { lo \<leftarrow> rd bs 0;
               (value, bs) \<leftarrow>
                 (if paired u then do { hi \<leftarrow> rd bs 1; Some (ucast lo OR push_bit 8 (ucast hi), drop 2 bs) }
                  else Some (ucast lo, drop 1 bs));
               write_loop nonblock (len - 1) (actual + 1) bs (u\<lparr>txq := txq u @ [value]\<rparr>) }
        else if nonblock then Some (u, if actual = 0 then - EWOULDBLOCK else if paired u then actual * 2 else actual)
        else do { u \<leftarrow> buffered_uart_wait Sem_write STATUS_TXNF u; write_loop nonblock len actual bs u }
      else Some (u, if paired u then actual * 2 else actual))"

definition buffered_uart_write :: "bool \<Rightarrow> byte list \<Rightarrow> int \<Rightarrow> uart \<Rightarrow> (uart \<times> int) option" where
  "buffered_uart_write nonblock bs len u =
     write_loop nonblock (if paired u then (if len < 0 then - (- len div 2) else len div 2) else len) 0 bs u"

definition buffered_uart_ioctl :: "int \<Rightarrow> uart \<Rightarrow> int" where
  "buffered_uart_ioctl req u = - ENOTSUP"

declare pend.simps [code] close_loop.simps [code] read_loop.simps [code] write_loop.simps [code]

text \<open>The hostbridge opens the device without \<open>O_NONBLOCK\<close>.\<close>

definition uart_sink :: "uart sink" where
  "uart_sink bs u = buffered_uart_write False bs (int (length bs)) u"

section \<open>Waiting for the transmitter\<close>

definition uart_ok :: "uart \<Rightarrow> bool" where
  "uart_ok u \<longleftrightarrow> 0 < depth u \<and> length (txq u) \<le> depth u \<and> intr u AND INTR_IRQE \<noteq> 0 \<and> \<not> paired u"

definition sent :: "uart \<Rightarrow> byte list" where
  "sent u = map ucast (txd u @ txq u)"

text \<open>What the driver's waiting leaves alone.\<close>

definition same_out :: "uart \<Rightarrow> uart \<Rightarrow> bool" where
  "same_out u u' \<longleftrightarrow> txd u' @ txq u' = txd u @ txq u \<and> length (txq u') \<le> length (txq u) \<and>
     depth u' = depth u \<and> dataMask u' = dataMask u \<and> (intr u AND 1 \<noteq> 0 \<longrightarrow> intr u' AND 1 \<noteq> 0)"

lemma same_out_refl [simp]: "same_out u u"
  by (simp add: same_out_def)

lemma same_out_trans: "same_out u v \<Longrightarrow> same_out v w \<Longrightarrow> same_out u w"
  by (auto simp: same_out_def)

lemma and_1_not_zero: "(w AND 1 \<noteq> 0) = odd (w :: u32)"
  by (simp add: and_one_eq odd_iff_mod_2_eq_one)

lemma irq_same_out: "same_out u (buffered_uart_irq u)"
  by (auto simp: same_out_def buffered_uart_irq_def Let_def and_1_not_zero even_and_iff even_or_iff
    even_not_iff STATUS_CAUSES_def)

lemma take_irq_same_out: "same_out u (take_irq u)"
  by (simp add: take_irq_def irq_same_out)

lemma hw_same_out: "same_out u (hw u)"
  by (simp add: same_out_def hw_def Let_def)

lemma same_out_ok: "same_out u u' \<Longrightarrow> uart_ok u \<Longrightarrow> uart_ok u' \<and> sent u' = sent u"
  by (auto simp: same_out_def uart_ok_def sent_def paired_def INTR_IRQE_def)

text \<open>The bits of the status that the transmitter sets.\<close>

lemma status_bit: "status u AND STATUS_TXF = 0 \<longleftrightarrow> length (txq u) < depth u"
  "status u AND STATUS_TXNF = 0 \<longleftrightarrow> depth u \<le> length (txq u)"
  "status u AND STATUS_TXE = 0 \<longleftrightarrow> txq u \<noteq> []"
  by (auto simp: status_def uart_regs)

text \<open>With room in the FIFO and the cause enabled, the interrupt posts \<open>sem_write\<close>; with a full FIFO
  no interrupt does.\<close>

lemma bit10: "(w :: u32) AND 0x400 \<noteq> 0 \<longleftrightarrow> bit w 10"
  using and_exp_eq_0_iff_not_bit [of w 10] by simp

lemma take_irq_posts:
  assumes "intr u AND 1 \<noteq> 0" "intr u AND STATUS_TXNF \<noteq> 0" "length (txq u) < depth u"
  shows "usem_write (take_irq u) = usem_write u + 1"
proof -
  have i: "bit (intr u) 10" using assms(2) bit10 [of "intr u"] by (simp add: STATUS_TXNF_def)
  have st: "bit (status u) 10" using assms(3) status_bit(2) [of u] bit10 [of "status u"] by (simp add: STATUS_TXNF_def)
  have "bit (status u AND STATUS_CAUSES AND intr u) 10"
    using i st by (simp add: bit_and_iff STATUS_CAUSES_def)
  moreover from this have "status u AND STATUS_CAUSES AND intr u \<noteq> 0" by (metis bit_0_eq bot_apply bot_bool_def)
  moreover have "(status u AND STATUS_CAUSES AND intr u) AND STATUS_TXNF \<noteq> 0"
    using calculation(1) bit10 by (simp add: STATUS_TXNF_def)
  ultimately show ?thesis
    using assms(1) by (simp add: take_irq_def buffered_uart_irq_def Let_def INTR_IRQE_def)
qed

lemma take_irq_full:
  assumes "depth u \<le> length (txq u)"
  shows "usem_write (take_irq u) = usem_write u \<and> (bit (intr u) 10 \<longrightarrow> bit (intr (take_irq u)) 10)"
proof -
  have st: "\<not> bit (status u) 10"
    using assms status_bit(2) [of u] bit10 [of "status u"] by (simp add: STATUS_TXNF_def)
  then have "(status u AND STATUS_CAUSES AND intr u) AND STATUS_TXNF = 0"
    using bit10 [of "status u AND STATUS_CAUSES AND intr u"] by (simp add: bit_and_iff STATUS_TXNF_def)
  moreover have "bit (intr u) 10 \<longrightarrow> bit (intr u AND NOT (status u AND STATUS_CAUSES AND intr u)) 10"
    using st by (simp add: bit_simps)
  ultimately show ?thesis
    by (simp add: take_irq_def buffered_uart_irq_def Let_def)
qed

lemma wait_write:
  assumes "uart_ok u" "depth u \<le> length (txq u)"
  shows "\<exists>u'. buffered_uart_wait Sem_write STATUS_TXNF u = Some u' \<and> same_out u u' \<and>
    (length (txq u') < depth u \<or> usem_write u' < usem_write u)"
proof -
  let ?u1 = "u\<lparr>intr := intr u OR STATUS_TXNF\<rparr>"
  let ?u2 = "take_irq ?u1"
  have "same_out u ?u1" by (simp add: same_out_def and_1_not_zero even_or_iff)
  then have s2: "same_out u ?u2" using take_irq_same_out same_out_trans by blast
  have "bit (intr u OR STATUS_TXNF) 10" by (simp add: bit_or_iff STATUS_TXNF_def)
  then have f: "usem_write ?u2 = usem_write u" "intr ?u2 AND STATUS_TXNF \<noteq> 0"
    using take_irq_full [of ?u1] assms(2) bit10 [of "intr ?u2"] by (auto simp: STATUS_TXNF_def)
  show ?thesis
  proof (cases "usem_write u = 0")
    case False
    then have "buffered_uart_wait Sem_write STATUS_TXNF u = Some (dec Sem_write ?u2)"
      using f(1) by (simp add: buffered_uart_wait_def pend.simps count_def)
    moreover have "same_out u (dec Sem_write ?u2)"
      by (rule same_out_trans [OF s2]) (simp add: same_out_def dec_def)
    moreover have "usem_write (dec Sem_write ?u2) < usem_write u" using f(1) False by (simp add: dec_def)
    ultimately show ?thesis by blast
  next
    case True
    let ?u3 = "hw ?u2"
    let ?u4 = "take_irq ?u3"
    have s4: "same_out u ?u4" using s2 hw_same_out take_irq_same_out same_out_trans by blast
    have ok: "uart_ok ?u2" using same_out_ok [OF s2 assms(1)] by blast
    have len3: "length (txq ?u3) < depth ?u3"
      using ok by (auto simp: hw_def Let_def uart_ok_def)
    have "intr ?u3 AND 1 \<noteq> 0" "intr ?u3 AND STATUS_TXNF \<noteq> 0"
      using ok f(2) by (simp_all add: hw_def Let_def uart_ok_def INTR_IRQE_def)
    from take_irq_posts [OF this len3] have "usem_write ?u4 = 1"
      using f(1) True by (simp add: hw_def Let_def)
    then have "buffered_uart_wait Sem_write STATUS_TXNF u = Some (dec Sem_write ?u4)"
      using f(1) True pend.simps [of Sem_write ?u2] pend.simps [of Sem_write ?u4]
      by (simp add: buffered_uart_wait_def count_def)
    moreover have "same_out u (dec Sem_write ?u4)"
      by (rule same_out_trans [OF s4]) (simp add: same_out_def dec_def)
    moreover have "txq (dec Sem_write ?u4) = txq ?u4" by (simp add: dec_def)
    moreover have "length (txq ?u4) < depth u"
      using len3 take_irq_same_out [of ?u3] s4 s2 hw_same_out [of ?u2] by (auto simp: same_out_def)
    ultimately show ?thesis by metis
  qed
qed

lemma ucast_twice: "ucast (ucast b :: u16) = (b :: byte)"
  by (rule bit_eqI) (auto simp: bit_simps)

lemma write_loop_ok:
  "uart_ok u \<Longrightarrow> 0 \<le> actual \<Longrightarrow>
   \<exists>u'. write_loop False (int (length bs)) actual bs u = Some (u', actual + int (length bs)) \<and>
     uart_ok u' \<and> sent u' = sent u @ bs"
proof (induction "(length bs, if length (txq u) < depth u then 0 else Suc (usem_write u))"
    arbitrary: bs actual u rule: wf_induct [OF wf_lex_prod [OF wf_less wf_less]])
  case 1
  show ?case
  proof (cases bs)
    case Nil
    then show ?thesis using 1(2) by (simp add: write_loop.simps uart_ok_def)
  next
    case (Cons b bs')
    show ?thesis
    proof (cases "length (txq u) < depth u")
      case True
      let ?u = "u\<lparr>txq := txq u @ [ucast b]\<rparr>"
      have ok: "uart_ok ?u" using 1(2) True by (simp add: uart_ok_def paired_def)
      have s: "sent ?u = sent u @ [b]" by (simp add: sent_def ucast_twice)
      have "write_loop False (int (length bs)) actual bs u = write_loop False (int (length bs')) (actual + 1) bs' ?u"
        using Cons True 1(2) status_bit(1) [of u]
        by (subst write_loop.simps) (simp add: rd_def uart_ok_def)
      moreover obtain u' where "write_loop False (int (length bs')) (actual + 1) bs' ?u =
          Some (u', actual + 1 + int (length bs'))" "uart_ok u'" "sent u' = sent ?u @ bs'"
        using 1(1) [rule_format, of _ bs' ?u "actual + 1"] ok 1(3) Cons by auto
      ultimately show ?thesis using s Cons by (simp add: algebra_simps)
    next
      case False
      then have full: "depth u \<le> length (txq u)" by simp
      from wait_write [OF 1(2) this] obtain u1 where w: "buffered_uart_wait Sem_write STATUS_TXNF u = Some u1"
        "same_out u u1" "length (txq u1) < depth u \<or> usem_write u1 < usem_write u" by blast
      have ok: "uart_ok u1" "sent u1 = sent u" "depth u1 = depth u"
        using same_out_ok [OF w(2) 1(2)] w(2) by (auto simp: same_out_def)
      have "write_loop False (int (length bs)) actual bs u = write_loop False (int (length bs)) actual bs u1"
        using Cons False status_bit(1) [of u] w(1) write_loop.simps [of False "int (length bs)" actual bs u] by simp
      moreover have "(if length (txq u1) < depth u1 then 0 else Suc (usem_write u1))
          < (if length (txq u) < depth u then 0 else Suc (usem_write u))"
        using w(3) ok False by auto
      then obtain u' where "write_loop False (int (length bs)) actual bs u1 =
          Some (u', actual + int (length bs))" "uart_ok u'" "sent u' = sent u1 @ bs"
        using 1(1) [rule_format, of "(length bs, if length (txq u1) < depth u1 then 0 else Suc (usem_write u1))" bs u1 actual]
          ok(1) 1(3) by auto
      ultimately show ?thesis using ok by simp
    qed
  qed
qed

lemma uart_sink_ok:
  "uart_ok u \<Longrightarrow> \<exists>u'. uart_sink bs u = Some (u', int (length bs)) \<and> uart_ok u' \<and> sent u' = sent u @ bs"
  using write_loop_ok [of u 0 bs] by (simp add: uart_sink_def buffered_uart_write_def uart_ok_def)

interpretation uart: live uart_sink sent uart_ok
proof
  fix u u' n and bs :: "byte list"
  assume "uart_ok u" "uart_sink bs u = Some (u', n)"
  with uart_sink_ok [of u bs] show "n \<le> int (length bs) \<and> sent u' = sent u @ take (nat n) bs \<and> uart_ok u'"
    by auto
next
  fix u and bs :: "byte list"
  assume "uart_ok u" "bs \<noteq> []"
  with uart_sink_ok [of u bs] show "\<exists>u' n. uart_sink bs u = Some (u', n) \<and> 0 < n" by auto
qed

section \<open>Reading\<close>

definition plain :: "u16 \<Rightarrow> bool" where
  "plain w \<longleftrightarrow> w AND DATA_RXE = 0"

lemma ucast_low: "ucast (w AND 0xff :: u16) = (ucast w :: byte)"
proof -
  have "ucast (w AND mask 8) = (ucast w :: byte)" by (intro bit_eqI) (auto simp: bit_simps)
  then show ?thesis by (simp add: mask_eq_exp_minus_1)
qed

text \<open>With words waiting, \<open>read\<close> takes as many as fit and does not wait.\<close>

lemma read_loop_ok:
  "list_all plain (rxq u) \<Longrightarrow> \<not> paired u \<Longrightarrow> 0 \<le> actual \<Longrightarrow> 0 < actual \<or> rxq u \<noteq> [] \<Longrightarrow>
   read_loop nonblock (int len) actual got u =
     Some (u\<lparr>rxq := drop len (rxq u)\<rparr>, got @ map ucast (take len (rxq u)), actual + int (min len (length (rxq u))))"
proof (induction len arbitrary: actual got u)
  case 0
  then show ?case by (simp add: read_loop.simps)
next
  case (Suc len)
  show ?case
  proof (cases "rxq u")
    case Nil
    with Suc.prems show ?thesis
      by (subst read_loop.simps) (simp add: iord_data_def DATA_RXE_def paired_def)
  next
    case (Cons w ws)
    with Suc.prems have "w AND DATA_RXE = 0" by (simp add: plain_def)
    with Cons Suc.prems(2) have "read_loop nonblock (int (Suc len)) actual got u =
        read_loop nonblock (int len) (actual + 1) (got @ [ucast w]) (u\<lparr>rxq := ws\<rparr>)"
      by (subst read_loop.simps) (simp add: iord_data_def paired_def ucast_low)
    then show ?thesis using Suc.IH [of "u\<lparr>rxq := ws\<rparr>" "actual + 1" "got @ [ucast w]"] Suc.prems Cons
      by (simp add: paired_def)
  qed
qed

text \<open>C12: A blocking \<open>buffered_uart_write\<close> always returns, whatever the pace of the transmitter: all bytes are
  behind what was sent before, in order, and the result is their number. (The interrupt is never lost:
  a writer that waits is woken when the FIFO has room.) \<open>buffered_uart_read\<close> takes the oldest words that
  are there, without waiting, and reports an empty FIFO to a nonblocking caller.\<close>

theorem uart_write_read:
  assumes "uart_ok u" "list_all plain (rxq u)"
  shows "(\<exists>u'. buffered_uart_write False bs (int (length bs)) u = Some (u', int (length bs)) \<and>
      uart_ok u' \<and> sent u' = sent u @ bs) \<and>
    (rxq u \<noteq> [] \<longrightarrow> buffered_uart_read nonblock (int n) u =
      Some (u\<lparr>rxq := drop n (rxq u)\<rparr>, map ucast (take n (rxq u)), int (min n (length (rxq u))))) \<and>
    (rxq u = [] \<and> 0 < n \<longrightarrow> buffered_uart_read True (int n) u = Some (u, [], - EWOULDBLOCK))"
  using uart_sink_ok [OF assms(1), of bs] read_loop_ok [OF assms(2), of 0 nonblock n "[]"] assms(1)
    read_loop.simps [of True "int n" 0 "[]" u]
  by (auto simp: uart_sink_def buffered_uart_read_def uart_ok_def iord_data_def DATA_RXE_def)

definition uart_boot :: uart where
  "uart_boot = buffered_uart_init
     \<lparr>txq = [], txd = [], rxq = [], depth = 2, clock = 0, pace = (\<lambda>_. 0), arrivals = (\<lambda>_. []), intr = 0,
      dataMask = 0xff, usem_read = 0, usem_write = 0, usem_close = 0\<rparr>"

lemma uart_boot_ok: "uart_ok uart_boot"
  by (simp add: uart_boot_def buffered_uart_init_def uart_ok_def paired_def INTR_IRQE_def)

theorem uart_write_read_witness:
  "\<exists>u'. buffered_uart_write False [1, 2, 3, 4] 4 uart_boot = Some (u', 4) \<and> sent u' = [1, 2, 3, 4]"
proof -
  have "list_all plain (rxq uart_boot)" "sent uart_boot = []"
    by (simp_all add: uart_boot_def buffered_uart_init_def sent_def)
  with uart_write_read [OF uart_boot_ok this(1), of "[1, 2, 3, 4]"] show ?thesis by auto
qed

section \<open>The hostbridge over the UART\<close>

text \<open>C11: What the host receives when a channel sends \<open>bs\<close>: the channel prefix and number if the channel
  changed or a reset was asked for, and the bytes escaped and framed as the flags say. The call always
  returns and its 130-byte buffer is never overrun.\<close>

theorem source_sends:
  assumes "uart_ok u" "length buf = 130"
  shows "\<exists>u'. peridot_sw_hostbridge_gen2_source uart_sink buf c bs flags (b, u) =
      Some ((b\<lparr>source_channel_number := uint (number c)\<rparr>, u'), 0) \<and> uart_ok u' \<and>
    sent u' = sent u @
      (if uint (number c) \<noteq> source_channel_number b \<or> flags AND SOURCE_RESET \<noteq> 0
       then AST_CHANNEL_PREFIX # esc (number c) else []) @
      (if flags AND SOURCE_PACKETIZED \<noteq> 0 then frame bs else if packetized c then bs else body False bs)"
  using uart.source_ok [OF assms(2,1), of c bs flags b] unfolding channel_header_esc .

theorem source_sends_witness:
  "\<exists>u'. peridot_sw_hostbridge_gen2_source uart_sink (replicate 130 0) \<lparr>number = 1, packetized = True\<rparr> [5, 0x7c, 6]
      SOURCE_PACKETIZED (two_channels, uart_boot) = Some ((two_channels\<lparr>source_channel_number := 1\<rparr>, u'), 0) \<and>
    sent u' = [0x7c, 1, 0x7a, 5, 0x7d, 0x5c, 0x7b, 6]"
proof -
  have s: "sent uart_boot = []" by (simp add: uart_boot_def buffered_uart_init_def sent_def)
  have e: "esc 1 = [1]" "frame [5, 0x7c, 6] = [0x7a, 5, 0x7d, 0x5c, 0x7b, 6]" by code_simp+
  have l: "length (replicate 130 (0 :: byte)) = 130" by simp
  from source_sends [OF uart_boot_ok l, of "\<lparr>number = 1, packetized = True\<rparr>" "[5, 0x7c, 6]" SOURCE_PACKETIZED two_channels] s e
  show ?thesis by (auto simp: two_channels_def SOURCE_PACKETIZED_def SOURCE_RESET_def AST_CHANNEL_PREFIX_def)
qed

end
