(* ===== verification/Pipe.thy ===== *)
theory Pipe
  imports Prelude
begin

text \<open>
  The pipe over a hostbridge channel (\<open>peridot_sw_hostbridge_gen2_pipe.c\<close>): a ring buffer with one
  writer, the sink of the channel, and one reader, a file descriptor.

  Reader and writer take the lock only to sample the two offsets; the copying and the update of their
  own offset run outside it. So an operation is not atomic, and besides the two functions as a
  whole there is a step relation of a reader and a writer that interleave.
\<close>

section \<open>Capacity\<close>

definition roundup_pow2 :: "u32 \<Rightarrow> u32" where
  "roundup_pow2 x =
     (let x = x - 1; x = x OR drop_bit 1 x; x = x OR drop_bit 2 x; x = x OR drop_bit 4 x;
          x = x OR drop_bit 8 x; x = x OR drop_bit 16 x
      in x + 1)"

section \<open>State and operations\<close>

record pipe =
  capacity :: int
  read_offset :: int
  write_offset :: int
  pbuffer :: mem
  sem_read :: nat

text \<open>How much is read before and after the end of the buffer, from the sampled offsets; \<open>None\<close>
  when there is nothing to read. The offsets and the capacity are \<open>size_t\<close>, the lengths \<open>int\<close>.\<close>

definition avail :: "int \<Rightarrow> int \<Rightarrow> int \<Rightarrow> int \<times> int" where
  "avail cap r w = (if r \<le> w then (w - r, 0) else (s32 (cap - r), w))"

definition clip :: "int \<Rightarrow> int \<times> int \<Rightarrow> int \<times> int" where
  "clip len ab =
     (case ab of (a, b) \<Rightarrow> if len < a then (len, 0) else (a, if len - a < b then len - a else b))"

definition read_plan :: "int \<Rightarrow> int \<Rightarrow> int \<Rightarrow> int \<Rightarrow> (int \<times> int) option" where
  "read_plan cap r w len = (if r \<le> w \<and> w - r = 0 then None else Some (clip len (avail cap r w)))"

definition advance :: "int \<Rightarrow> int \<Rightarrow> int \<times> int \<Rightarrow> int" where
  "advance cap off ab = (case ab of (a, b) \<Rightarrow> if b > 0 then b else (off + a) AND (cap - 1))"

definition copy_out :: "pipe \<Rightarrow> int \<Rightarrow> int \<times> int \<Rightarrow> byte list option" where
  "copy_out p r ab =
     (case ab of (a, b) \<Rightarrow>
        do { xs \<leftarrow> rd_block (pbuffer p) r a;
             ys \<leftarrow> (if b > 0 then rd_block (pbuffer p) 0 b else Some []);
             Some (xs @ ys) })"

datatype read_result = Got "byte list" | Pending

function hostbridge_pipe_read :: "int \<Rightarrow> pipe \<Rightarrow> (pipe \<times> read_result) option" where
  "hostbridge_pipe_read len p =
     (case read_plan (capacity p) (s32 (read_offset p)) (s32 (write_offset p)) len of
        None \<Rightarrow> if sem_read p = 0 then Some (p, Pending)
                else hostbridge_pipe_read len (p\<lparr>sem_read := sem_read p - 1\<rparr>)
      | Some ab \<Rightarrow>
          do { bs \<leftarrow> copy_out p (s32 (read_offset p)) ab;
               Some (p\<lparr>read_offset := advance (capacity p) (s32 (read_offset p)) ab\<rparr>, Got bs) })"
  by pat_completeness auto
termination by (relation "measure (\<lambda>(_, p). sem_read p)") auto

declare hostbridge_pipe_read.simps [simp del]

definition free_space :: "int \<Rightarrow> int \<Rightarrow> int \<Rightarrow> int \<times> int" where
  "free_space cap r w =
     (if r \<le> w then
        let free1 = s32 (cap - w); free2 = r - 1 in
        if free2 < 0 then (free1 - 1, 0) else (free1, free2)
      else (r - w - 1, 0))"

definition write_plan :: "int \<Rightarrow> int \<Rightarrow> int \<Rightarrow> int \<Rightarrow> (int \<times> int) option" where
  "write_plan cap r w len =
     (if fst (free_space cap r w) = 0 then None else Some (clip len (free_space cap r w)))"

definition copy_in :: "pipe \<Rightarrow> int \<Rightarrow> byte list \<Rightarrow> int \<times> int \<Rightarrow> pipe option" where
  "copy_in p w bs ab =
     (case ab of (a, b) \<Rightarrow>
        do { xs \<leftarrow> rd_block bs 0 a;
             m \<leftarrow> wr_block (pbuffer p) w xs;
             m \<leftarrow> (if b > 0 then do { ys \<leftarrow> rd_block bs a b; wr_block m 0 ys } else Some m);
             Some (p\<lparr>pbuffer := m\<rparr>) })"

text \<open>The sink of the channel; its result is the number of bytes it took.\<close>

definition hostbridge_pipe_sink :: "byte list \<Rightarrow> pipe \<Rightarrow> (pipe \<times> int) option" where
  "hostbridge_pipe_sink bs p =
     (let r = s32 (read_offset p); w = s32 (write_offset p) in
      case write_plan (capacity p) r w (int (length bs)) of
        None \<Rightarrow> Some (p, 0)
      | Some ab \<Rightarrow>
          do { p \<leftarrow> copy_in p w bs ab;
               p \<leftarrow> Some (p\<lparr>write_offset := advance (capacity p) w ab\<rparr>);
               Some (if r = w then p\<lparr>sem_read := sem_read p + 1\<rparr> else p, fst ab + snd ab) })"

section \<open>Interleaving\<close>

text \<open>Where the reader and the writer are. \<open>R_copy\<close> and \<open>W_copy\<close> hold the sampled offsets, \<open>R_done\<close> and
  \<open>W_done\<close> stand between the copying and the update of the offset.\<close>

datatype reader = R_idle | R_sample int | R_pend int | R_copy int int int | R_done int "int \<times> int" "byte list"

datatype writer = W_idle | W_copy "byte list" int int | W_done "byte list" int int "int \<times> int" | W_post

text \<open>\<open>written\<close> and \<open>got\<close> record the bytes the sink took and the bytes the reader returned.\<close>

record psys =
  pip :: pipe
  reader_at :: reader
  writer_at :: writer
  written :: "byte list"
  got :: "byte list"

definition reader_step :: "psys \<Rightarrow> psys option" where
  "reader_step s =
     (let p = pip s; r = s32 (read_offset p); w = s32 (write_offset p) in
      case reader_at s of
        R_idle \<Rightarrow> None
      | R_sample len \<Rightarrow>
          Some (s\<lparr>reader_at := if read_plan (capacity p) r w len = None then R_pend len else R_copy len r w\<rparr>)
      | R_pend len \<Rightarrow>
          if sem_read p = 0 then None
          else Some (s\<lparr>pip := p\<lparr>sem_read := sem_read p - 1\<rparr>, reader_at := R_sample len\<rparr>)
      | R_copy len r w \<Rightarrow>
          do { ab \<leftarrow> read_plan (capacity p) r w len; bs \<leftarrow> copy_out p r ab;
               Some (s\<lparr>reader_at := R_done r ab bs\<rparr>) }
      | R_done r ab bs \<Rightarrow>
          Some (s\<lparr>pip := p\<lparr>read_offset := advance (capacity p) r ab\<rparr>, reader_at := R_idle, got := got s @ bs\<rparr>))"

definition writer_step :: "psys \<Rightarrow> psys option" where
  "writer_step s =
     (let p = pip s in
      case writer_at s of
        W_idle \<Rightarrow> None
      | W_copy bs r w \<Rightarrow>
          (case write_plan (capacity p) r w (int (length bs)) of
             None \<Rightarrow> Some (s\<lparr>writer_at := W_idle\<rparr>)
           | Some ab \<Rightarrow> do { p \<leftarrow> copy_in p w bs ab; Some (s\<lparr>pip := p, writer_at := W_done bs r w ab\<rparr>) })
      | W_done bs r w ab \<Rightarrow>
          Some (s\<lparr>pip := p\<lparr>write_offset := advance (capacity p) w ab\<rparr>,
                  writer_at := if r = w then W_post else W_idle,
                  written := written s @ take (nat (fst ab + snd ab)) bs\<rparr>)
      | W_post \<Rightarrow> Some (s\<lparr>pip := p\<lparr>sem_read := sem_read p + 1\<rparr>, writer_at := W_idle\<rparr>))"

text \<open>A step of the system: a call begins, or the reader or the writer goes on.\<close>

inductive pstep :: "psys \<Rightarrow> psys \<Rightarrow> bool" where
  begin_read: "reader_at s = R_idle \<Longrightarrow> 0 \<le> len \<Longrightarrow> pstep s (s\<lparr>reader_at := R_sample len\<rparr>)"
| begin_write: "writer_at s = W_idle \<Longrightarrow>
    pstep s (s\<lparr>writer_at := W_copy bs (s32 (read_offset (pip s))) (s32 (write_offset (pip s)))\<rparr>)"
| reader: "reader_step s = Some s' \<Longrightarrow> pstep s s'"
| writer: "writer_step s = Some s' \<Longrightarrow> pstep s s'"

definition psys_init :: "int \<Rightarrow> psys" where
  "psys_init cap =
     \<lparr>pip = \<lparr>capacity = cap, read_offset = 0, write_offset = 0, pbuffer = replicate (nat cap) 0, sem_read = 0\<rparr>,
      reader_at = R_idle, writer_at = W_idle, written = [], got = []\<rparr>"

section \<open>The ring\<close>

text \<open>Byte number \<open>i\<close> of the stream has its place at \<open>i mod c\<close>; \<open>split c m l\<close> are the two parts of the
  \<open>l\<close> places from \<open>m\<close> on.\<close>

definition ring :: "nat \<Rightarrow> mem \<Rightarrow> nat \<Rightarrow> nat \<Rightarrow> byte list" where
  "ring c buf m l = map (\<lambda>i. buf ! ((m + i) mod c)) [0..<l]"

definition split :: "nat \<Rightarrow> nat \<Rightarrow> nat \<Rightarrow> int \<times> int" where
  "split c m l = (int (min l (c - m mod c)), int (l - min l (c - m mod c)))"

definition pow2 :: "nat \<Rightarrow> bool" where
  "pow2 c \<longleftrightarrow> (\<exists>k \<le> 30. 0 < k \<and> c = 2 ^ k)"

lemma pow2_bounds: "pow2 c \<Longrightarrow> 2 \<le> c \<and> c \<le> 2 ^ 30"
  unfolding pow2_def by (metis (no_types, lifting) One_nat_def Suc_leI numeral_2_eq_2 one_le_numeral
    power_increasing power_one_right)

lemma mod_add_ring: "0 < c \<Longrightarrow> l \<le> c \<Longrightarrow>
  (m + l) mod c = (if l < c - m mod c then m mod c + l else m mod c + l - (c :: nat))"
proof -
  assume c: "0 < c" "l \<le> c"
  have "(m + l) mod c = (m mod c + l) mod c" by (simp add: mod_simps)
  also have "\<dots> = (if l < c - m mod c then m mod c + l else m mod c + l - c)"
  proof (cases "m mod c + l < c")
    case False
    then have "(m mod c + l) mod c = (m mod c + l - c) mod c" by (simp add: le_mod_geq)
    moreover have "m mod c + l - c < c" using c mod_less_divisor [of c m] by linarith
    ultimately show ?thesis using False by auto
  qed auto
  finally show ?thesis .
qed

lemma s32_small: "pow2 c \<Longrightarrow> x \<le> c \<Longrightarrow> s32 (int x) = int x"
  using pow2_bounds [of c] by (intro s32_nonneg) auto

lemma s32_mod: "pow2 c \<Longrightarrow> s32 (int (m mod c)) = int (m mod c)"
  using pow2_bounds [of c] by (intro s32_small) (auto intro: less_imp_le)

lemma s32_diff: "pow2 c \<Longrightarrow> r \<le> c \<Longrightarrow> s32 (int c - int r) = int c - int r"
  using s32_small [of c "c - r"] by (simp add: of_nat_diff)

text \<open>The two offsets of \<open>m \<le> n < m + c\<close>.\<close>

lemma two_offsets:
  fixes c :: nat
  assumes "0 < c" "m \<le> n" "n < m + c"
  obtains r w where "m mod c = r" "n mod c = w" "r < c" "w < c"
    "(r \<le> w \<and> n = m + (w - r)) \<or> (w < r \<and> n = m + (c - r + w))"
proof -
  have "n mod c = (if n - m < c - m mod c then m mod c + (n - m) else m mod c + (n - m) - c)"
    using mod_add_ring [of c "n - m" m] assms by simp
  moreover have "m mod c < c" "n mod c < c" using assms by simp_all
  ultimately have "(m mod c \<le> n mod c \<and> n = m + (n mod c - m mod c)) \<or>
      (n mod c < m mod c \<and> n = m + (c - m mod c + n mod c))"
    using assms(2,3) by (auto split: if_splits)
  with that [OF refl refl] \<open>m mod c < c\<close> \<open>n mod c < c\<close> show ?thesis by blast
qed

lemma clip_both: "c - m mod c = a \<Longrightarrow> clip (int len) (int a, int b) = split c m (min len (a + b))"
  unfolding clip_def split_def by (cases "len < a") (auto simp: min_def)

lemma clip_first: "a \<le> c - m mod c \<Longrightarrow> clip (int len) (int a, 0) = split c m (min len a)"
  unfolding clip_def split_def by (cases "len < a") (auto simp: min_def)

lemma read_plan_ring:
  assumes c: "pow2 c" and mn: "m \<le> n" "n < m + c"
  shows "read_plan (int c) (int (m mod c)) (int (n mod c)) (int len) =
    (if m = n then None else Some (split c m (min len (n - m))))"
proof -
  have "0 < c" using pow2_bounds [OF c] by simp
  from two_offsets [OF this mn] obtain r w where rw: "m mod c = r" "n mod c = w" "r < c" "w < c"
    and n: "(r \<le> w \<and> n = m + (w - r)) \<or> (w < r \<and> n = m + (c - r + w))" .
  from n show ?thesis
  proof (elim disjE conjE)
    assume *: "r \<le> w" "n = m + (w - r)"
    then have "avail (int c) (int r) (int w) = (int (n - m), 0)" by (simp add: avail_def)
    moreover have "n - m \<le> c - m mod c" "int w = int r \<longleftrightarrow> m = n" using * rw by auto
    ultimately show ?thesis
      using clip_first [of "n - m" c m len] * unfolding read_plan_def rw by simp
  next
    assume *: "w < r" "n = m + (c - r + w)"
    then have "avail (int c) (int r) (int w) = (int (c - r), int w)"
      using s32_diff [OF c, of r] rw(3) by (simp add: avail_def)
    moreover have "n - m = c - r + w" "m \<noteq> n" using * rw(3) by simp_all
    ultimately show ?thesis
      using clip_both [of c m "c - r" len w] * unfolding read_plan_def rw by simp
  qed
qed

lemma write_plan_ring:
  assumes c: "pow2 c" and mn: "m \<le> n" "n < m + c"
  shows "write_plan (int c) (int (m mod c)) (int (n mod c)) (int len) =
    (if n - m = c - 1 then None else Some (split c n (min len (c - 1 - (n - m)))))"
proof -
  have "0 < c" using pow2_bounds [OF c] by simp
  from two_offsets [OF this mn] obtain r w where rw: "m mod c = r" "n mod c = w" "r < c" "w < c"
    and n: "(r \<le> w \<and> n = m + (w - r)) \<or> (w < r \<and> n = m + (c - r + w))" .
  have s: "s32 (int c - int w) = int c - int w" using rw(4) by (intro s32_diff [OF c]) simp
  have full: ?thesis if "free_space (int c) (int r) (int w) = (int a, int b)"
    "c - 1 - (n - m) = a + b" "n - m = c - 1 \<longleftrightarrow> a = 0" "a = c - w \<or> b = 0 \<and> a \<le> c - w" for a b
    using that clip_both [of c n a len b] clip_first [of a c n len] unfolding write_plan_def rw
    by auto
  from n show ?thesis
  proof (elim disjE conjE)
    assume *: "r \<le> w" "n = m + (w - r)"
    show ?thesis
    proof (cases "r = 0")
      case True
      with * rw(4) s show ?thesis
        by (intro full [of "c - 1 - w" 0]) (auto simp: free_space_def Let_def)
    next
      case False
      with * rw(3,4) s show ?thesis
        by (intro full [of "c - w" "r - 1"]) (auto simp: free_space_def Let_def)
    qed
  next
    assume "w < r" "n = m + (c - r + w)"
    with rw(3) show ?thesis
      by (intro full [of "r - w - 1" 0]) (auto simp: free_space_def)
  qed
qed

lemma and_pow2: "pow2 c \<Longrightarrow> int x AND (int c - 1) = int (x mod c)"
  by (auto simp: pow2_def zmod_int mask_eq_exp_minus_1 [symmetric] take_bit_eq_mask [symmetric] take_bit_eq_mod)

lemma advance_ring:
  assumes c: "pow2 c" and l: "l < c"
  shows "advance (int c) (int (m mod c)) (split c m l) = int ((m + l) mod c)"
proof (cases "l \<le> c - m mod c")
  case True
  have "int (m mod c) + int l = int (m mod c + l)" by simp
  then have "advance (int c) (int (m mod c)) (split c m l) = int ((m mod c + l) mod c)"
    using True and_pow2 [OF c, of "m mod c + l"] by (simp add: advance_def split_def)
  then show ?thesis by (simp add: mod_simps)
next
  case False
  moreover have "0 < c" "m mod c < c" using pow2_bounds [OF c] by simp_all
  ultimately show ?thesis using mod_add_ring [of c l m] l by (auto simp: advance_def split_def)
qed

text \<open>The parts of \<open>l\<close> places from \<open>m\<close> on: \<open>a\<close> up to the end of the buffer, \<open>b\<close> from its beginning.\<close>

lemma mod_le_min: "0 < c \<Longrightarrow> m mod c + min l (c - m mod c) \<le> (c::nat)"
  by (metis add.commute le_diff_conv2 min.cobounded2 mod_le_divisor)

lemma nth_wrap:
  assumes "b \<le> r" "r + a \<le> length B" "a + b \<le> length S" "j < length B"
  shows "(take b (drop a S) @ drop b (take r B @ take a S @ drop (r + a) B)) ! j =
    (if j < b then S ! (a + j) else if j < r then B ! j else if j < r + a then S ! (j - r) else B ! j)"
proof -
  have len: "length (take b (drop a S)) = b" "length (take r B) = r" "length (take a S) = a" using assms by simp_all
  consider "j < b" | "b \<le> j" "j < r" | "r \<le> j" "j < r + a" | "r + a \<le> j" by linarith
  then show ?thesis
  proof cases
    case 1 then show ?thesis using assms by (simp add: nth_append len)
  next
    case 2
    then have "\<not> j < b" "j - b < r - b" by linarith+
    then show ?thesis using 2 assms by (simp add: nth_append len)
  next
    case 3 
    then have "\<not> j < b" "\<not> j < r" "j - r < a" "\<not> j - b < r - b" "j - b - (r - b) = j - r"
      using assms(1) by linarith+
    then show ?thesis using 3 assms by (simp add: nth_append len)
  next
    case 4 
    then have "\<not> j < b" "\<not> j < r" "\<not> j - r < a" "\<not> j - b < r - b" "j - b - (r - b) = j - r"
      using assms(1) by linarith+
    then show ?thesis using 4 assms by (simp add: nth_append len)
  qed
qed

lemma nth_unwrap:
  assumes "r + a \<le> length B" "i < a + b" "b \<le> length B"
  shows "(take a (drop r B) @ take b B) ! i = B ! (if i < a then r + i else i - a)"
proof -
  have len: "length (take a (drop r B)) = a" using assms by simp
  show ?thesis using assms by (cases "i < a") (simp_all add: nth_append len)
qed
lemma parts:
  assumes "0 < c" "l \<le> c"
  obtains r a b where "m mod c = r" "split c m l = (int a, int b)" "l = a + b" "r + a \<le> c" "b \<le> r"
    "b > 0 \<longrightarrow> r + a = c" "r < c"
    "\<forall>i < l. (m + i) mod c = (if i < a then r + i else i - a)"
proof
  let ?a = "min l (c - m mod c)"
  show "split c m l = (int ?a, int (l - ?a))" by (simp add: split_def)
  show r: "m mod c < c" using assms by simp
  show "m mod c + ?a \<le> c" using assms(1) by (rule mod_le_min)
  show "l - ?a \<le> m mod c" "0 < l - ?a \<longrightarrow> m mod c + ?a = c" using assms r by auto
  show "\<forall>i < l. (m + i) mod c = (if i < ?a then m mod c + i else i - ?a)"
    using assms r mod_add_ring [of c _ m] by auto
qed auto

lemma copy_out_parts:
  "r + a \<le> length (pbuffer p) \<Longrightarrow> b \<le> length (pbuffer p) \<Longrightarrow>
   copy_out p (int r) (int a, int b) = Some (take a (drop r (pbuffer p)) @ take b (pbuffer p))"
  using rd_block_int [of 0 b "pbuffer p"] by (cases b) (simp_all add: copy_out_def rd_block_int)

lemma copy_out_ring:
  assumes "0 < c" "length (pbuffer p) = c" "l \<le> c"
  shows "copy_out p (int (m mod c)) (split c m l) = Some (ring c (pbuffer p) m l)"
proof -
  from parts [OF assms(1,3), of m] obtain r a b where rab: "m mod c = r" "split c m l = (int a, int b)"
    "l = a + b" "r + a \<le> c" "b \<le> r" "b > 0 \<longrightarrow> r + a = c" "r < c"
    and at: "\<forall>i < l. (m + i) mod c = (if i < a then r + i else i - a)" .
  have "take a (drop r (pbuffer p)) @ take b (pbuffer p) = ring c (pbuffer p) m l"
  proof (rule nth_equalityI)
    show len: "length (take a (drop r (pbuffer p)) @ take b (pbuffer p)) = length (ring c (pbuffer p) m l)"
      using rab(3-6) assms(2) by (simp add: ring_def)
    fix i assume "i < length (take a (drop r (pbuffer p)) @ take b (pbuffer p))"
    then have i: "i < l" unfolding len by (simp add: ring_def)
    have "ring c (pbuffer p) m l ! i = pbuffer p ! (if i < a then r + i else i - a)"
      using i at [rule_format, OF i] by (simp only: ring_def nth_map length_upt nth_upt add_0 diff_zero)
    with nth_unwrap [of r a "pbuffer p" i b] show
      "(take a (drop r (pbuffer p)) @ take b (pbuffer p)) ! i = ring c (pbuffer p) m l ! i"
      using i rab(3-6) assms(2) by simp
  qed
  with copy_out_parts [of r a p b] show ?thesis unfolding rab(1,2) using rab(3-6) assms(2) by simp
qed

lemma copy_in_parts:
  assumes "r + a \<le> length (pbuffer p)" "b \<le> length (pbuffer p)" "a + b \<le> length bs"
  shows "copy_in p (int r) bs (int a, int b) =
    Some (p\<lparr>pbuffer := take b (drop a bs) @ drop b (take r (pbuffer p) @ take a bs @ drop (r + a) (pbuffer p))\<rparr>)"
proof -
  have "rd_block bs 0 (int a) = Some (take a bs)" using rd_block_int [of 0 a bs] assms by simp
  moreover have "wr_block (pbuffer p) (int r) (take a bs) = Some (take r (pbuffer p) @ take a bs @ drop (r + a) (pbuffer p))"
    using wr_block_int [of r "take a bs" "pbuffer p"] assms by (simp add: min_absorb2)
  moreover have "rd_block bs (int a) (int b) = Some (take b (drop a bs))" using rd_block_int [of a b bs] assms by simp
  moreover have "wr_block m 0 (take b (drop a bs)) = Some (take b (drop a bs) @ drop b m)" if "b \<le> length m" for m
    using wr_block_int [of 0 "take b (drop a bs)" m] assms that by (simp add: min_absorb2)
  ultimately show ?thesis using assms by (cases b) (simp_all add: copy_in_def)
qed

lemma copy_in_ring:
  assumes "0 < c" "length (pbuffer p) = c" "l \<le> c" "l \<le> length bs"
  obtains buf where "copy_in p (int (m mod c)) bs (split c m l) = Some (p\<lparr>pbuffer := buf\<rparr>)" "length buf = c"
    "\<And>i. i < l \<Longrightarrow> buf ! ((m + i) mod c) = bs ! i"
    "\<And>i. l \<le> i \<Longrightarrow> i < c \<Longrightarrow> buf ! ((m + i) mod c) = pbuffer p ! ((m + i) mod c)"
proof -
  from parts [OF assms(1,3), of m] obtain r a b where rab: "m mod c = r" "split c m l = (int a, int b)"
    "l = a + b" "r + a \<le> c" "b \<le> r" "b > 0 \<longrightarrow> r + a = c" "r < c"
    and at: "\<forall>i < l. (m + i) mod c = (if i < a then r + i else i - a)" .
  define buf where "buf = take b (drop a bs) @ drop b (take r (pbuffer p) @ take a bs @ drop (r + a) (pbuffer p))"
  have nth: "buf ! j = (if j < b then bs ! (a + j) else if j < r then pbuffer p ! j
      else if j < r + a then bs ! (j - r) else pbuffer p ! j)" if "j < c" for j
    unfolding buf_def by (rule nth_wrap) (use that rab(3-6) assms(2,4) in simp_all)
  have "copy_in p (int r) bs (int a, int b) = Some (p\<lparr>pbuffer := buf\<rparr>)"
    unfolding buf_def using rab(3-7) assms(2,4) by (intro copy_in_parts) simp_all
  moreover have "length buf = c" unfolding buf_def using rab(3-7) assms(2,4) by simp
  moreover have "buf ! ((m + i) mod c) = bs ! i" if "i < l" for i
  proof -
    have "(m + i) mod c < c" using assms(1) by simp
    from nth [OF this] show ?thesis
    proof (cases "i < a")
      case True
      then have "(m + i) mod c = r + i" using at that by simp
      with nth [of "r + i"] True rab(3-6) show ?thesis by simp
    next
      case False
      then have "(m + i) mod c = i - a" using at that by simp
      moreover have "i - a < b" "i - a < c" "a + (i - a) = i" using False that rab(3-7) by simp_all
      ultimately show ?thesis using nth [of "i - a"] by simp
    qed
  qed
  moreover have "buf ! ((m + i) mod c) = pbuffer p ! ((m + i) mod c)" if "l \<le> i" "i < c" for i
  proof -
    have j: "(m + i) mod c = (if i < c - r then r + i else r + i - c)"
      using mod_add_ring [of c i m] assms(1) that rab(1) by simp
    have "(m + i) mod c < c" using assms(1) by simp
    from nth [OF this] show ?thesis
    proof (cases "i < c - r")
      case True
      then show ?thesis using nth [of "r + i"] that j rab(3-7) by simp
    next
      case False
      moreover have "\<not> r + i - c < b" using that rab(3-7) by (cases "b = 0") linarith+
      moreover have "r + i - c < r" "r + i - c < c" using that(2) rab(7) False by linarith+
      ultimately show ?thesis using nth [of "r + i - c"] j by simp
    qed
  qed
  ultimately show ?thesis using that [of buf] unfolding rab(1,2) by blast
qed

section \<open>The invariant of the interleaved pipe\<close>

text \<open>\<open>R\<close> bytes were read and \<open>W\<close> written; the bytes between are in the ring. A sampled offset may be
  old: the reader's \<open>w\<close> is one the write offset had since, the writer's \<open>r\<close> one the read offset had.\<close>

fun reader_ok :: "nat \<Rightarrow> byte list \<Rightarrow> nat \<Rightarrow> reader \<Rightarrow> bool" where
  "reader_ok c ws R R_idle = True"
| "reader_ok c ws R (R_sample len) = (0 \<le> len)"
| "reader_ok c ws R (R_pend len) = (0 \<le> len)"
| "reader_ok c ws R (R_copy len r w) =
     (0 \<le> len \<and> r = int (R mod c) \<and> (\<exists>W0. w = int (W0 mod c) \<and> R < W0 \<and> W0 \<le> length ws))"
| "reader_ok c ws R (R_done r ab bs) =
     (r = int (R mod c) \<and> (\<exists>l. ab = split c R l \<and> R + l \<le> length ws \<and> bs = take l (drop R ws)))"

fun writer_ok :: "nat \<Rightarrow> mem \<Rightarrow> nat \<Rightarrow> nat \<Rightarrow> writer \<Rightarrow> bool" where
  "writer_ok c buf R W W_idle = True"
| "writer_ok c buf R W W_post = True"
| "writer_ok c buf R W (W_copy bs r w) =
     (w = int (W mod c) \<and> (\<exists>R0. r = int (R0 mod c) \<and> R0 \<le> R \<and> W < R0 + c))"
| "writer_ok c buf R W (W_done bs r w ab) =
     (w = int (W mod c) \<and> (\<exists>l. ab = split c W l \<and> l \<le> length bs \<and> W + l < R + c \<and>
        (\<forall>i < l. buf ! ((W + i) mod c) = bs ! i)))"

definition ring_ok :: "nat \<Rightarrow> mem \<Rightarrow> byte list \<Rightarrow> nat \<Rightarrow> bool" where
  "ring_ok c buf ws R \<longleftrightarrow> length buf = c \<and> R \<le> length ws \<and> length ws < R + c \<and>
     (\<forall>i. R \<le> i \<and> i < length ws \<longrightarrow> buf ! (i mod c) = ws ! i)"

definition pinv :: "nat \<Rightarrow> psys \<Rightarrow> bool" where
  "pinv c s \<longleftrightarrow> pow2 c \<and> capacity (pip s) = int c \<and>
     read_offset (pip s) = int (length (got s) mod c) \<and>
     write_offset (pip s) = int (length (written s) mod c) \<and>
     ring_ok c (pbuffer (pip s)) (written s) (length (got s)) \<and>
     got s = take (length (got s)) (written s) \<and>
     reader_ok c (written s) (length (got s)) (reader_at s) \<and>
     writer_ok c (pbuffer (pip s)) (length (got s)) (length (written s)) (writer_at s)"

lemmas psys_simps = pinv_def s32_mod

lemma split_sum: "fst (split c m l) + snd (split c m l) = int l"
  by (simp add: split_def)

lemma ring_read:
  "ring_ok c buf ws R \<Longrightarrow> R + l \<le> length ws \<Longrightarrow> ring c buf R l = take l (drop R ws)"
  by (rule nth_equalityI) (simp_all add: ring_def ring_ok_def)

lemma reader_ok_mono: "reader_ok c ws R r \<Longrightarrow> reader_ok c (ws @ xs) R r"
  by (cases r) (auto intro: trans_le_add1)

lemma writer_ok_mono: "writer_ok c buf R W w \<Longrightarrow> R \<le> R' \<Longrightarrow> writer_ok c buf R' W w"
proof (cases w)
  case (W_done bs r w' ab)
  assume ok: "writer_ok c buf R W w" and R: "R \<le> R'"
  from ok W_done obtain l where "ab = split c W l" "l \<le> length bs" "W + l < R + c"
    "\<forall>i < l. buf ! ((W + i) mod c) = bs ! i" "w' = int (W mod c)" by auto
  with R W_done show ?thesis by (auto intro!: exI [of _ l])
qed (auto intro: order.trans)

lemma ring_ok_read: "ring_ok c buf ws R \<Longrightarrow> R + l \<le> length ws \<Longrightarrow> ring_ok c buf ws (R + l)"
  by (auto simp: ring_ok_def)

lemma ring_ok_write:
  assumes "ring_ok c buf ws R" "length ws + length xs < R + c"
    "\<forall>i < length xs. buf ! ((length ws + i) mod c) = xs ! i"
  shows "ring_ok c buf (ws @ xs) R"
  unfolding ring_ok_def
proof (intro conjI allI impI)
  fix i assume i: "R \<le> i \<and> i < length (ws @ xs)"
  show "buf ! (i mod c) = (ws @ xs) ! i"
  proof (cases "i < length ws")
    case True
    then show ?thesis using assms(1) i by (simp add: ring_ok_def nth_append)
  next
    case False
    with i have "i - length ws < length xs" "length ws + (i - length ws) = i" by auto
    with assms(3) False show ?thesis by (metis nth_append)
  qed
qed (use assms in \<open>auto simp: ring_ok_def\<close>)

text \<open>Copying into free places leaves the bytes in the ring alone.\<close>

lemma ring_ok_copy:
  assumes "ring_ok c buf ws R" "length buf' = c" "length ws + l < R + c"
    "\<And>i. l \<le> i \<Longrightarrow> i < c \<Longrightarrow> buf' ! ((length ws + i) mod c) = buf ! ((length ws + i) mod c)"
  shows "ring_ok c buf' ws R"
  unfolding ring_ok_def
proof (intro conjI allI impI)
  fix i assume i: "R \<le> i \<and> i < length ws"
  let ?k = "i + c - length ws"
  have "l \<le> ?k" "?k < c" "length ws + ?k = i + c" using i assms(1,3) by (auto simp: ring_ok_def)
  with assms(4) [of ?k] have "buf' ! (i mod c) = buf ! (i mod c)" by simp
  with i assms(1) show "buf' ! (i mod c) = ws ! i" by (simp add: ring_ok_def)
qed (use assms in \<open>auto simp: ring_ok_def\<close>)

section \<open>Every step keeps the invariant\<close>

lemma reader_step_ok:
  assumes "pinv c s"
  shows "(reader_step s = None \<longleftrightarrow> reader_at s = R_idle \<or> (\<exists>len. reader_at s = R_pend len) \<and> sem_read (pip s) = 0) \<and>
    (\<forall>s'. reader_step s = Some s' \<longrightarrow> pinv c s')"
proof (cases "reader_at s")
  case (R_sample len)
  let ?R = "length (got s)" and ?W = "length (written s)"
  obtain n where n: "len = int n"
    using assms R_sample zero_le_imp_eq_int [of len] by (auto simp: pinv_def)
  have "read_plan (int c) (int (?R mod c)) (int (?W mod c)) len =
      (if ?R = ?W then None else Some (split c ?R (min n (?W - ?R))))"
    unfolding n using assms by (intro read_plan_ring) (auto simp: pinv_def ring_ok_def)
  with R_sample assms show ?thesis
    by (auto simp: reader_step_def pinv_def s32_mod Let_def ring_ok_def)
next
  case (R_copy len r w)
  let ?R = "length (got s)"
  from assms R_copy obtain W0 n where W0: "w = int (W0 mod c)" "?R < W0" "W0 \<le> length (written s)"
    and n: "len = int n" and r: "r = int (?R mod c)" and c: "pow2 c"
    and ring: "ring_ok c (pbuffer (pip s)) (written s) ?R"
    using zero_le_imp_eq_int [of len] by (auto simp: pinv_def)
  let ?l = "min n (W0 - ?R)"
  have bounds: "W0 < ?R + c" "0 < c" using W0 ring pow2_bounds [OF c] by (auto simp: ring_ok_def)
  then have "read_plan (int c) r w len = Some (split c ?R ?l)"
    unfolding n r W0 using read_plan_ring [OF c, of ?R W0 n] W0 by simp
  moreover have "copy_out (pip s) r (split c ?R ?l) = Some (ring c (pbuffer (pip s)) ?R ?l)"
    unfolding r using ring bounds W0 by (intro copy_out_ring) (auto simp: ring_ok_def)
  moreover have "ring c (pbuffer (pip s)) ?R ?l = take ?l (drop ?R (written s))"
    using W0 by (intro ring_read [OF ring]) auto
  moreover have "?R + ?l \<le> length (written s)" using W0 by auto
  ultimately show ?thesis
    using assms R_copy r by (auto simp: reader_step_def pinv_def)
next
  case (R_done r ab bs)
  let ?R = "length (got s)"
  from assms R_done obtain l where l: "ab = split c ?R l" "?R + l \<le> length (written s)"
    "bs = take l (drop ?R (written s))" and r: "r = int (?R mod c)" and c: "pow2 c"
    and ring: "ring_ok c (pbuffer (pip s)) (written s) ?R" and g: "got s = take ?R (written s)"
    by (auto simp: pinv_def)
  have "l < c" using l ring by (auto simp: ring_ok_def)
  then have "advance (int c) r ab = int ((?R + l) mod c)" unfolding r l by (intro advance_ring [OF c])
  moreover have "got s @ bs = take (?R + l) (written s)" using g l(3) by (metis take_add)
  moreover have "length (got s @ bs) = ?R + l" using l by simp
  ultimately show ?thesis
    using assms R_done ring_ok_read [OF ring l(2)] writer_ok_mono [of c _ ?R _ "writer_at s" "?R + l"]
    by (auto simp: reader_step_def pinv_def)
qed (use assms in \<open>auto simp: reader_step_def pinv_def Let_def split: if_splits\<close>)

lemma writer_step_ok:
  assumes "pinv c s"
  shows "(writer_step s = None \<longleftrightarrow> writer_at s = W_idle) \<and> (\<forall>s'. writer_step s = Some s' \<longrightarrow> pinv c s')"
proof (cases "writer_at s")
  case (W_copy bs r w)
  let ?R = "length (got s)" and ?W = "length (written s)"
  from assms W_copy obtain R0 where R0: "r = int (R0 mod c)" "R0 \<le> ?R" "?W < R0 + c"
    and w: "w = int (?W mod c)" and c: "pow2 c"
    and ring: "ring_ok c (pbuffer (pip s)) (written s) ?R"
    by (auto simp: pinv_def)
  let ?l = "min (length bs) (c - 1 - (?W - R0))"
  have "?R \<le> ?W" using ring by (simp add: ring_ok_def)
  then have plan: "write_plan (int c) r w (int (length bs)) =
      (if ?W - R0 = c - 1 then None else Some (split c ?W ?l))"
    unfolding R0 w using R0 by (intro write_plan_ring [OF c]) auto
  have l: "?W + ?l < ?R + c" "?l \<le> c" "0 < c" using R0 \<open>?R \<le> ?W\<close> pow2_bounds [OF c] by auto
  have "length (pbuffer (pip s)) = c" using ring by (simp add: ring_ok_def)
  from copy_in_ring [OF l(3) this l(2) min.cobounded1, of ?W] obtain buf where
    buf: "copy_in (pip s) w bs (split c ?W ?l) = Some (pip s\<lparr>pbuffer := buf\<rparr>)" "length buf = c"
      "\<And>i. i < ?l \<Longrightarrow> buf ! ((?W + i) mod c) = bs ! i"
      "\<And>i. ?l \<le> i \<Longrightarrow> i < c \<Longrightarrow> buf ! ((?W + i) mod c) = pbuffer (pip s) ! ((?W + i) mod c)"
    unfolding w by blast
  have "ring_ok c buf (written s) ?R" using buf l by (intro ring_ok_copy [OF ring]) auto
  moreover have "writer_ok c buf ?R ?W (W_done bs r w (split c ?W ?l))"
    using w l(1) buf(3) by auto
  ultimately show ?thesis
    using assms W_copy plan buf(1) by (auto simp: writer_step_def pinv_def simp del: writer_ok.simps(4))
next
  case (W_done bs r w ab)
  let ?R = "length (got s)" and ?W = "length (written s)"
  from assms W_done obtain l where l: "ab = split c ?W l" "l \<le> length bs" "?W + l < ?R + c"
    "\<forall>i < l. pbuffer (pip s) ! ((?W + i) mod c) = bs ! i" and w: "w = int (?W mod c)" and c: "pow2 c"
    and ring: "ring_ok c (pbuffer (pip s)) (written s) ?R" and g: "got s = take ?R (written s)"
    by (auto simp: pinv_def)
  have "l < c" using l(3) ring by (auto simp: ring_ok_def)
  then have "advance (int c) w ab = int ((?W + l) mod c)" unfolding w l by (intro advance_ring [OF c])
  moreover have "ring_ok c (pbuffer (pip s)) (written s @ take l bs) ?R"
    using l by (intro ring_ok_write [OF ring]) auto
  moreover have "nat (fst ab + snd ab) = l" by (simp add: l split_sum)
  moreover have "got s = take ?R (written s @ take l bs)" using g ring by (simp add: ring_ok_def)
  ultimately show ?thesis
    using assms W_done l(2) reader_ok_mono [of c _ ?R "reader_at s"]
    by (auto simp: writer_step_def pinv_def)
qed (use assms in \<open>auto simp: writer_step_def pinv_def Let_def\<close>)

lemma pstep_ok: "pstep s s' \<Longrightarrow> pinv c s \<Longrightarrow> pinv c s'"
proof (induction rule: pstep.induct)
  case (begin_read s len)
  then show ?case by (simp add: pinv_def)
next
  case (begin_write s bs)
  then have "length (got s) \<le> length (written s)" "length (written s) < length (got s) + c" "pow2 c"
    by (simp_all add: pinv_def ring_ok_def)
  then have "writer_ok c (pbuffer (pip s)) (length (got s)) (length (written s))
      (W_copy bs (s32 (read_offset (pip s))) (s32 (write_offset (pip s))))"
    using begin_write by (simp add: pinv_def s32_mod) blast
  with begin_write show ?case unfolding pinv_def by simp
next
  case (reader s s')
  then show ?case using reader_step_ok by blast
next
  case (writer s s')
  then show ?case using writer_step_ok by blast
qed

lemma psys_init_ok: "pow2 c \<Longrightarrow> pinv c (psys_init (int c))"
  using pow2_bounds [of c] by (auto simp: pinv_def psys_init_def ring_ok_def)

lemma reachable_ok: "pstep\<^sup>*\<^sup>* (psys_init (int c)) s \<Longrightarrow> pow2 c \<Longrightarrow> pinv c s"
  by (induction rule: rtranclp_induct) (auto intro: pstep_ok psys_init_ok)

end
