(* ===== verification/Pipe_Props.thy ===== *)
theory Pipe_Props
  imports Pipe Hostbridge
begin

text \<open>
  Properties of the pipe. Taken one call at a time the ring buffer is a bounded queue; with reader
  and writer interleaved it still hands over the bytes in order, but a wake-up can get lost.
\<close>

section \<open>One call at a time\<close>

definition pipe_ok :: "pipe \<Rightarrow> bool" where
  "pipe_ok p \<longleftrightarrow> (\<exists>c r w. pow2 c \<and> capacity p = int c \<and> read_offset p = int r \<and> write_offset p = int w \<and>
     r < c \<and> w < c \<and> length (pbuffer p) = c)"

text \<open>The abstraction: the bytes from the read offset up to the write offset.\<close>

definition contents :: "pipe \<Rightarrow> byte list" where
  "contents p = (let c = nat (capacity p); r = nat (read_offset p); w = nat (write_offset p)
     in ring c (pbuffer p) r (if r \<le> w then w - r else c - r + w))"

text \<open>A state of the interleaved pipe in which nothing is under way.\<close>

definition view :: "pipe \<Rightarrow> psys" where
  "view p = (let r = nat (read_offset p) in
     \<lparr>pip = p, reader_at = R_idle, writer_at = W_idle, written = replicate r 0 @ contents p, got = replicate r 0\<rparr>)"

lemma view_ok: "pipe_ok p \<Longrightarrow> pinv (nat (capacity p)) (view p)"
proof -
  assume "pipe_ok p"
  then obtain c r w where p: "pow2 c" "capacity p = int c" "read_offset p = int r" "write_offset p = int w"
    "r < c" "w < c" "length (pbuffer p) = c" by (auto simp: pipe_ok_def)
  let ?l = "if r \<le> w then w - r else c - r + w"
  have cont: "contents p = ring c (pbuffer p) r ?l" using p by (simp add: contents_def)
  have l: "length (contents p) = ?l" "?l < c" using p by (auto simp: cont ring_def)
  have w: "(r + ?l) mod c = w" using p by (cases "r \<le> w") (simp_all add: mod_if)
  have nth: "pbuffer p ! (i mod c) = contents p ! (i - r)" if "r \<le> i" "i < r + ?l" for i
    using that unfolding cont ring_def by (subst nth_map) (auto split: if_splits)
  show ?thesis
    using p l w nth by (auto simp: pinv_def view_def Let_def ring_ok_def nth_append not_less)
qed

lemma view_queue:
  assumes "pinv c s" "pip s = p" 
  shows "pipe_ok p \<and> contents p = drop (length (got s)) (written s)"
proof -
  let ?R = "length (got s)" and ?W = "length (written s)"
  have c: "pow2 c" "0 < c" using assms pow2_bounds [of c] by (auto simp: pinv_def)
  have ring: "ring_ok c (pbuffer p) (written s) ?R" using assms by (simp add: pinv_def)
  then have RW: "?R \<le> ?W" "?W < ?R + c" by (auto simp: ring_ok_def)
  from two_offsets [OF c(2) RW] obtain r w where rw: "?R mod c = r" "?W mod c = w" "r < c" "w < c"
    "r \<le> w \<and> ?W = ?R + (w - r) \<or> w < r \<and> ?W = ?R + (c - r + w)" .
  have ok: "pipe_ok p" using assms rw c ring by (auto simp: pipe_ok_def pinv_def ring_ok_def)
  have "?W - ?R = (if r \<le> w then w - r else c - r + w)" using rw(5) by auto
  moreover have "capacity p = int c" "read_offset p = int r" "write_offset p = int w"
    using assms rw(1,2) by (auto simp: pinv_def)
  ultimately have "contents p = ring c (pbuffer p) r (?W - ?R)" by (simp add: contents_def)
  also have "\<dots> = ring c (pbuffer p) ?R (?W - ?R)"
    by (simp add: ring_def mod_simps rw(1) [symmetric])
  also have "\<dots> = drop ?R (written s)" using ring_read [OF ring, of "?W - ?R"] RW by simp
  finally show ?thesis using ok by simp
qed

lemma sink_enqueues:
  assumes "pipe_ok p"
  shows "\<exists>p'. hostbridge_pipe_sink bs p =
      Some (p', int (min (length bs) (nat (capacity p) - 1 - length (contents p)))) \<and> pipe_ok p' \<and>
    capacity p' = capacity p \<and>
    contents p' = contents p @ take (nat (capacity p) - 1 - length (contents p)) bs \<and>
    (contents p = [] \<longrightarrow> sem_read p' = sem_read p + 1)"
proof -
  obtain c where cap: "capacity p = int c" using assms by (auto simp: pipe_ok_def)
  let ?v = "view p"
  let ?R = "length (got ?v)" and ?W = "length (written ?v)"
  let ?r = "s32 (read_offset p)" and ?w = "s32 (write_offset p)"
  have v: "pinv c ?v" "pip ?v = p" "?W - ?R = length (contents p)"
    using view_ok [OF assms] cap by (simp_all add: view_def Let_def)
  then have c: "pow2 c" and RW: "?R \<le> ?W" "?W < ?R + c"
    and off: "?r = int (?R mod c)" "?w = int (?W mod c)"
    by (auto simp: pinv_def ring_ok_def s32_mod)
  let ?free = "c - 1 - length (contents p)"
  have plan: "write_plan (capacity p) ?r ?w (int (length bs)) =
      (if ?W - ?R = c - 1 then None else Some (split c ?W (min (length bs) ?free)))"
    unfolding off cap using write_plan_ring [OF c RW] by (simp add: v(3))
  show ?thesis
  proof (cases "?W - ?R = c - 1")
    case True
    moreover have "contents p \<noteq> []" using True v(3) pow2_bounds [OF c] by auto
    ultimately show ?thesis using plan v(3) assms cap by (simp add: hostbridge_pipe_sink_def Let_def)
  next
    case False
    let ?l = "min (length bs) ?free"
    let ?s0 = "?v\<lparr>writer_at := W_copy bs ?r ?w\<rparr>"
    have "pstep ?v ?s0" using pstep.begin_write [of ?v bs] by (simp add: view_def Let_def)
    then have i0: "pinv c ?s0" using pstep_ok v(1) by blast
    then obtain s1 where s1: "writer_step ?s0 = Some s1" "pinv c s1" using writer_step_ok by fastforce
    then obtain p1 where p1: "copy_in p ?w bs (split c ?W ?l) = Some p1"
        "s1 = ?s0\<lparr>pip := p1, writer_at := W_done bs ?r ?w (split c ?W ?l)\<rparr>"
      using plan False by (auto simp: writer_step_def v(2) bind_eq_Some_conv)
    then obtain s2 where s2: "writer_step s1 = Some s2" "pinv c s2" using s1(2) writer_step_ok by fastforce
    let ?p2 = "p1\<lparr>write_offset := advance (capacity p1) ?w (split c ?W ?l)\<rparr>"
    have s2': "pip s2 = ?p2" "written s2 = written ?v @ take ?l bs" "got s2 = got ?v"
      using s2(1) p1(2) by (auto simp: writer_step_def split_sum)
    let ?p3 = "if ?r = ?w then ?p2\<lparr>sem_read := sem_read ?p2 + 1\<rparr> else ?p2"
    have call: "hostbridge_pipe_sink bs p = Some (?p3, int ?l)"
      using plan False p1(1) by (simp add: hostbridge_pipe_sink_def Let_def split_sum)
    have cap1: "capacity p1 = capacity p" "sem_read p1 = sem_read p"
      using p1(1) by (auto simp: copy_in_def bind_eq_Some_conv split: prod.splits if_splits)
    have q: "pipe_ok ?p2" "contents ?p2 = drop ?R (written ?v @ take ?l bs)"
      using view_queue [OF s2(2) s2'(1)] s2' by simp_all
    have same: "pipe_ok ?p3 = pipe_ok ?p2" "contents ?p3 = contents ?p2" by (simp_all add: pipe_ok_def contents_def)
    have "drop ?R (written ?v @ take ?l bs) = contents p @ take ?free bs"
      by (simp add: view_def Let_def min_def)
    moreover have "contents p = [] \<longrightarrow> ?r = ?w" using off v(3) RW by auto
    ultimately show ?thesis using call same q cap cap1 by (intro exI [of _ ?p3]) auto
  qed
qed

interpretation pipe: accepting hostbridge_pipe_sink contents pipe_ok
proof
  fix p p' n and bs :: "byte list"
  assume "pipe_ok p" "hostbridge_pipe_sink bs p = Some (p', n)"
  with sink_enqueues [of p bs]
  show "n \<le> int (length bs) \<and> contents p' = contents p @ take (nat n) bs \<and> pipe_ok p'"
    by (auto simp: min_def)
qed

lemma read_dequeues:
  assumes "pipe_ok p"
  shows "\<exists>p'. (hostbridge_pipe_read (int len) p =
      (if contents p = [] then Some (p\<lparr>sem_read := 0\<rparr>, Pending) else Some (p', Got (take len (contents p))))) \<and>
    (contents p \<noteq> [] \<longrightarrow> pipe_ok p' \<and> contents p' = drop len (contents p) \<and> capacity p' = capacity p)"
  using assms
proof (induction "sem_read p" arbitrary: p rule: less_induct)
  case less
  obtain c where cap: "capacity p = int c" using less(2) by (auto simp: pipe_ok_def)
  let ?v = "view p"
  let ?R = "length (got ?v)" and ?W = "length (written ?v)"
  let ?r = "s32 (read_offset p)" and ?w = "s32 (write_offset p)"
  have v: "pinv c ?v" "pip ?v = p" "?W - ?R = length (contents p)"
    using view_ok [OF less(2)] cap by (simp_all add: view_def Let_def)
  then have c: "pow2 c" and RW: "?R \<le> ?W" "?W < ?R + c"
    and off: "?r = int (?R mod c)" "?w = int (?W mod c)"
    by (auto simp: pinv_def ring_ok_def s32_mod)
  have plan: "read_plan (capacity p) ?r ?w (int len) =
      (if contents p = [] then None else Some (split c ?R (min len (length (contents p)))))"
    unfolding off cap using read_plan_ring [OF c RW] RW v(3) by auto
  show ?case
  proof (cases "contents p = []")
    case True
    let ?p = "p\<lparr>sem_read := sem_read p - 1\<rparr>"
    have "pipe_ok ?p" "contents ?p = []" using less(2) True by (simp_all add: pipe_ok_def contents_def)
    then have "hostbridge_pipe_read (int len) ?p = Some (?p\<lparr>sem_read := 0\<rparr>, Pending)" if "sem_read p \<noteq> 0"
      using less(1) [of ?p] that by simp
    then show ?thesis using plan True hostbridge_pipe_read.simps [of "int len" p] by simp
  next
    case False
    let ?l = "min len (length (contents p))"
    let ?ab = "split c ?R ?l"
    let ?s0 = "?v\<lparr>reader_at := R_copy (int len) ?r ?w\<rparr>"
    have lt: "?R < ?W" using False v(3) RW by (cases "?R = ?W") auto
    have i0: "pinv c ?s0"
    proof -
      have "reader_ok c (written ?v) ?R (R_copy (int len) ?r ?w)" using off lt by auto
      with v(1) show ?thesis unfolding pinv_def by simp
    qed
    then obtain s1 where s1: "reader_step ?s0 = Some s1" "pinv c s1" using reader_step_ok by fastforce
    then obtain bs where p1: "copy_out p ?r ?ab = Some bs" "s1 = ?s0\<lparr>reader_at := R_done ?r ?ab bs\<rparr>"
      using plan False by (auto simp: reader_step_def v(2) bind_eq_Some_conv Let_def)
    then obtain s2 where s2: "reader_step s1 = Some s2" "pinv c s2" using s1(2) reader_step_ok by fastforce
    let ?p2 = "p\<lparr>read_offset := advance (capacity p) ?r ?ab\<rparr>"
    have s2': "pip s2 = ?p2" "got s2 = got ?v @ bs" "written s2 = written ?v"
      using s2(1) p1(2) v(2) by (auto simp: reader_step_def Let_def)
    have bs: "bs = take ?l (contents p)"
    proof -
      from s1(2) p1(2) obtain l where l: "?ab = split c ?R l" "bs = take l (drop ?R (written ?v))"
        by (auto simp: pinv_def)
      have "l = ?l" using arg_cong [OF l(1), of "\<lambda>ab. fst ab + snd ab"] by (simp only: split_sum of_nat_eq_iff)
      with l show ?thesis by (simp add: view_def Let_def)
    qed
    have "pipe_ok ?p2" "contents ?p2 = drop len (contents p)"
      using view_queue [OF s2(2) s2'(1)] s2' bs by (auto simp: view_def Let_def min_def)
    moreover have "hostbridge_pipe_read (int len) p = Some (?p2, Got (take len (contents p)))"
      using plan False p1(1) bs hostbridge_pipe_read.simps [of "int len" p] by (simp add: min_def)
    ultimately show ?thesis using False by (intro exI [of _ ?p2]) simp
  qed
qed

text \<open>C13: One call at a time, the pipe is a queue of at most \<open>capacity - 1\<close> bytes: the sink appends as many
  bytes as fit and says how many; a read takes the oldest ones, up to its length, and waits just when
  the queue is empty, whatever old wake-ups the semaphore still holds.\<close>

theorem pipe_refines_queue:
  assumes "pipe_ok p"
  shows "(\<exists>p'. hostbridge_pipe_sink bs p = Some (p', int (length (take (nat (capacity p) - 1 - length (contents p)) bs))) \<and>
      pipe_ok p' \<and> contents p' = contents p @ take (nat (capacity p) - 1 - length (contents p)) bs) \<and>
    (if contents p = [] then hostbridge_pipe_read (int len) p = Some (p\<lparr>sem_read := 0\<rparr>, Pending)
     else \<exists>p'. hostbridge_pipe_read (int len) p = Some (p', Got (take len (contents p))) \<and> pipe_ok p' \<and>
       contents p' = drop len (contents p))"
  using sink_enqueues [OF assms, of bs] read_dequeues [OF assms, of len] by (auto simp: min.commute)

definition pipe4 :: pipe where
  "pipe4 = \<lparr>capacity = 4, read_offset = 3, write_offset = 1, pbuffer = [20, 0, 0, 10], sem_read = 0\<rparr>"

theorem pipe_refines_queue_witness:
  "\<exists>p'. hostbridge_pipe_sink [30, 40] pipe4 = Some (p', 1) \<and> contents p' = [10, 20, 30]"
proof -
  have "pow2 4" unfolding pow2_def by (rule exI [of _ 2]) simp
  then have ok: "pipe_ok pipe4" unfolding pipe_ok_def pipe4_def
    by (intro exI [of _ 4] exI [of _ 3] exI [of _ 1]) simp
  have "contents pipe4 = [10, 20]" "nat (capacity pipe4) = 4" by code_simp+
  with pipe_refines_queue [OF ok, of "[30, 40]"] show ?thesis by auto
qed

section \<open>Interleaved\<close>

text \<open>C14: However the one reader and the one writer interleave, what has been read is a prefix of what has
  been written, in order and without loss, and at most \<open>capacity - 1\<close> bytes are under way. No step gets
  stuck (no copy leaves the buffer): the writer never waits, the reader only for the semaphore.\<close>

theorem pipe_interleaved:
  assumes "pstep\<^sup>*\<^sup>* (psys_init (int c)) s" "pow2 c"
  shows "got s = take (length (got s)) (written s) \<and> length (written s) < length (got s) + c \<and>
    (writer_step s = None \<longleftrightarrow> writer_at s = W_idle) \<and>
    (reader_step s = None \<longleftrightarrow> reader_at s = R_idle \<or> (\<exists>len. reader_at s = R_pend len) \<and> sem_read (pip s) = 0)"
proof -
  have i: "pinv c s" using reachable_ok assms by blast
  then have "got s = take (length (got s)) (written s)" "length (written s) < length (got s) + c"
    by (simp_all add: pinv_def ring_ok_def)
  with reader_step_ok [OF i] writer_step_ok [OF i] show ?thesis by blast
qed

text \<open>A run: a move of the reader, of the writer, or a call. It is executable.\<close>

datatype move = Reader | Writer | Read int | Write "byte list"

fun do_move :: "move \<Rightarrow> psys \<Rightarrow> psys option" where
  "do_move Reader s = reader_step s"
| "do_move Writer s = writer_step s"
| "do_move (Read len) s = (if reader_at s = R_idle \<and> 0 \<le> len then Some (s\<lparr>reader_at := R_sample len\<rparr>) else None)"
| "do_move (Write bs) s = (if writer_at s = W_idle
     then Some (s\<lparr>writer_at := W_copy bs (s32 (read_offset (pip s))) (s32 (write_offset (pip s)))\<rparr>) else None)"

fun moves :: "move list \<Rightarrow> psys \<Rightarrow> psys option" where
  "moves [] s = Some s"
| "moves (m # ms) s = Option.bind (do_move m s) (moves ms)"

lemma move_pstep: "do_move m s = Some s' \<Longrightarrow> pstep s s'"
  by (cases m) (auto split: if_splits intro: pstep.intros)

lemma moves_pstep: "moves ms s = Some s' \<Longrightarrow> pstep\<^sup>*\<^sup>* s s'"
proof (induction ms arbitrary: s)
  case (Cons m ms)
  then obtain s1 where "do_move m s = Some s1" "moves ms s1 = Some s'" by (auto simp: bind_eq_Some_conv)
  with Cons.IH move_pstep show ?case by (meson converse_rtranclp_into_rtranclp)
qed simp

theorem pipe_interleaved_witness:
  "\<exists>s. pstep\<^sup>*\<^sup>* (psys_init (int 4)) s \<and> written s = [1, 2] \<and> got s = take (length (got s)) (written s)"
proof -
  let ?ms = "[Write [1, 2], Writer, Writer]"
  have "moves ?ms (psys_init 4) \<noteq> None" "written (the (moves ?ms (psys_init 4))) = [1, 2]" by code_simp+
  then obtain s where s: "moves ?ms (psys_init (int 4)) = Some s" "written s = [1, 2]" by auto
  have "pow2 4" unfolding pow2_def by (rule exI [of _ 2]) simp
  with pipe_interleaved [OF moves_pstep [OF s(1)]] s moves_pstep [OF s(1)] show ?thesis by blast
qed

text \<open>A state from which the reader never gets on: it waits, the semaphore is 0, there are bytes to
  read, and no writer is about to post.\<close>

definition stuck :: "nat \<Rightarrow> psys \<Rightarrow> bool" where
  "stuck c s \<longleftrightarrow> pinv c s \<and> (\<exists>len. reader_at s = R_pend len) \<and> sem_read (pip s) = 0 \<and>
     length (got s) < length (written s) \<and>
     (case writer_at s of W_copy bs r w \<Rightarrow> r \<noteq> w | W_done bs r w ab \<Rightarrow> r \<noteq> w | W_post \<Rightarrow> False | W_idle \<Rightarrow> True)"

lemma copy_in_sem: "copy_in p w bs ab = Some p' \<Longrightarrow> sem_read p' = sem_read p"
  by (auto simp: copy_in_def bind_eq_Some_conv split: prod.splits if_splits)

lemma stuck_step:
  assumes "pstep s s'" "stuck c s"
  shows "stuck c s' \<and> got s' = got s"
proof -
  have i': "pinv c s'" using pstep_ok assms by (auto simp: stuck_def)
  from assms(1) show ?thesis
  proof cases
    case (begin_write bs)
    have p: "pow2 c" "length (got s) < length (written s)" "length (written s) < length (got s) + c"
      using assms(2) by (auto simp: stuck_def pinv_def ring_ok_def)
    have pos: "0 < c" using pow2_bounds [OF p(1)] by simp
    have "length (got s) mod c \<noteq> length (written s) mod c"
    proof (rule two_offsets [OF pos less_imp_le [OF p(2)] p(3)])
      fix r w assume "length (got s) mod c = r" "length (written s) mod c = w"
        "r \<le> w \<and> length (written s) = length (got s) + (w - r) \<or>
         w < r \<and> length (written s) = length (got s) + (c - r + w)"
      with p(2) show ?thesis by auto
    qed
    then have "s32 (read_offset (pip s)) \<noteq> s32 (write_offset (pip s))"
      using assms(2) by (auto simp: stuck_def pinv_def s32_mod)
    then show ?thesis using begin_write assms(2) i' by (auto simp: stuck_def)
  qed (use assms(2) i' in \<open>auto simp: copy_in_sem stuck_def reader_step_def writer_step_def Let_def bind_eq_Some_conv
         split: writer.splits option.splits if_splits\<close>)
qed

lemma stuck_run: "pstep\<^sup>*\<^sup>* s s' \<Longrightarrow> stuck c s \<Longrightarrow> stuck c s' \<and> got s' = got s"
  by (induction rule: rtranclp_induct) (auto dest: stuck_step)

text \<open>C15: A wake-up can get lost. If the reader empties the pipe between the writer's look at the offsets
  and its update of the write offset, the writer does not post the semaphore, because it saw a pipe
  that was not empty, and the reader waits although there are bytes. No later call of the sink wakes
  it: each sees a pipe that is not empty.\<close>

theorem pipe_loses_wakeup:
  "\<exists>s. pstep\<^sup>*\<^sup>* (psys_init 4) s \<and>
     {s'. pstep\<^sup>*\<^sup>* s s'} \<subseteq> {s'. length (got s') < length (written s') \<and> got s' = [1] \<and>
       (\<exists>len. reader_at s' = R_pend len) \<and> reader_step s' = None}"
proof -
  let ?ms = "[Write [1], Writer, Writer, Writer, Write [2], Read 8, Reader, Reader, Reader,
    Read 8, Reader, Reader, Reader, Writer, Writer]"
  let ?s = "the (moves ?ms (psys_init 4))"
  have run: "moves ?ms (psys_init 4) \<noteq> None" by code_simp
  have st: "got ?s = [1]" "written ?s = [1, 2]" "reader_at ?s = R_pend 8" "sem_read (pip ?s) = 0"
    "writer_at ?s = W_idle" by code_simp+
  have pow2: "pow2 4" unfolding pow2_def by (rule exI [of _ 2]) simp
  obtain s where s: "moves ?ms (psys_init 4) = Some s" using run by blast
  have eq: "?s = s" unfolding s by (rule option.sel)
  have r: "pstep\<^sup>*\<^sup>* (psys_init 4) s" by (rule moves_pstep [OF s])
  have st: "got s = [1]" "stuck 4 s"
    using st reachable_ok [of 4 s] r pow2 unfolding eq by (simp_all add: stuck_def)
  have "length (got s') < length (written s') \<and> got s' = [1] \<and>
      (\<exists>len. reader_at s' = R_pend len) \<and> reader_step s' = None" if "pstep\<^sup>*\<^sup>* s s'" for s'
    using stuck_run [OF that st(2)] st(1) by (auto simp: stuck_def reader_step_def Let_def)
  with r show ?thesis by blast
qed

section \<open>Making a pipe\<close>

text \<open>An open file descriptor of a pipe: its channel and its flags. \<open>closed\<close> lists the descriptors that
  were open and got closed first; \<open>mem\<close> is what \<open>malloc\<close> returned, the buffer of the new pipe.\<close>

record fds =
  fd_list :: "int \<rightharpoonup> byte \<times> int"
  closed :: "int list"

definition set_fd :: "int \<Rightarrow> byte \<Rightarrow> int \<Rightarrow> fds \<Rightarrow> fds" where
  "set_fd fd c flags f =
     f\<lparr>closed := (if fd_list f fd \<noteq> None then closed f @ [fd] else closed f),
       fd_list := (fd_list f)(fd \<mapsto> (c, flags))\<rparr>"

definition peridot_sw_hostbridge_gen2_mkpipe ::
    "byte \<Rightarrow> int \<Rightarrow> int \<Rightarrow> u32 \<Rightarrow> mem option \<Rightarrow> bridge \<times> fds \<Rightarrow> (bridge \<times> fds) \<times> pipe option \<times> int" where
  "peridot_sw_hostbridge_gen2_mkpipe channel output_fd input_fd input_capacity mallocd bf =
     (case bf of (b, f) \<Rightarrow>
        let cap = (if input_fd \<ge> 0 then roundup_pow2 input_capacity else input_capacity) in
        if input_fd < 0 \<and> output_fd < 0 then ((b, f), None, - EINVAL)
        else case mallocd of
          None \<Rightarrow> ((b, f), None, - ENOMEM)
        | Some m \<Rightarrow>
            (case peridot_sw_hostbridge_gen2_register_channel \<lparr>number = channel, packetized = False\<rparr> b of
               (b, result) \<Rightarrow>
                 if result < 0 then ((b, f), None, result)
                 else
                   let p = (if input_fd \<ge> 0 then Some \<lparr>capacity = uint cap, read_offset = 0, write_offset = 0,
                                pbuffer = m, sem_read = 0\<rparr> else None);
                       f = (if output_fd \<ge> 0
                            then set_fd output_fd channel (if input_fd = output_fd then O_RDWR else O_WRONLY) f
                            else f);
                       f = (if input_fd \<ge> 0 \<and> input_fd \<noteq> output_fd then set_fd input_fd channel O_RDONLY f else f)
                   in ((b, f), p, 0)))"

text \<open>Writing to the descriptor sends the bytes, escaped, over the channel.\<close>

definition hostbridge_pipe_write ::
    "'d sink \<Rightarrow> mem \<Rightarrow> channel \<Rightarrow> byte list \<Rightarrow> bridge \<times> 'd \<Rightarrow> ((bridge \<times> 'd) \<times> int) option" where
  "hostbridge_pipe_write dev buf c bs bd =
     do { (bd, result) \<leftarrow> peridot_sw_hostbridge_gen2_source dev buf c bs 0 bd;
          Some (bd, if result < 0 then result else int (length bs)) }"

subsection \<open>Rounding up\<close>

lemma smear_step:
  assumes "\<forall>i. bit a i \<longleftrightarrow> (\<exists>k < m. bit (y :: u32) (i + k))" "m' = 2 * m"
  shows "\<forall>i. bit (a OR drop_bit m a) i \<longleftrightarrow> (\<exists>k < m'. bit y (i + k))"
proof
  fix i
  have "(\<exists>k < 2 * m. bit y (i + k)) \<longleftrightarrow> (\<exists>k < m. bit y (i + k)) \<or> (\<exists>k < m. bit y (i + m + k))" (is "?l = ?r")
  proof
    assume ?l
    then obtain k where k: "k < 2 * m" "bit y (i + k)" by blast
    show ?r
    proof (cases "k < m")
      case False
      with k have "k - m < m" "i + m + (k - m) = i + k" by auto
      with k show ?r by metis
    qed (use k in blast)
  next
    assume ?r
    then show ?l by (metis add.assoc add_strict_left_mono mult_2 trans_less_add1)
  qed
  with assms show "bit (a OR drop_bit m a) i \<longleftrightarrow> (\<exists>k < m'. bit y (i + k))"
    by (simp add: bit_or_iff bit_drop_bit_eq add.commute)
qed

lemma smeared:
  assumes "\<forall>i. bit a i \<longleftrightarrow> (\<exists>k < 32. bit (y :: u32) (i + k))"
  obtains n where "n \<le> 32" "a = mask n" "uint y < 2 ^ n" "n = 0 \<or> 2 ^ (n - 1) \<le> uint y"
proof -
  define n where "n = (LEAST n. \<forall>i \<ge> n. \<not> bit y i)"
  have "\<forall>i \<ge> 32. \<not> bit y i" using bit_imp_le_length [of y] by fastforce
  then have n: "\<forall>i \<ge> n. \<not> bit y i" "n \<le> 32" unfolding n_def by (rule LeastI, rule Least_le)
  have top: "n = 0 \<or> bit y (n - 1)"
  proof (rule ccontr)
    assume "\<not> (n = 0 \<or> bit y (n - 1))"
    then have "\<forall>i \<ge> n - 1. \<not> bit y i" using n(1)
      by (metis Suc_diff_1 le_neq_implies_less not_gr_zero Suc_leI)
    then have "n \<le> n - 1" unfolding n_def by (rule Least_le)
    moreover have "0 < n" using \<open>\<not> (n = 0 \<or> bit y (n - 1))\<close> by auto
    ultimately show False by linarith
  qed
  have "bit a i \<longleftrightarrow> i < n" for i
  proof
    assume "bit a i" then show "i < n" using assms n(1) by (meson not_less trans_le_add1)
  next
    assume "i < n"
    then have "bit y (i + (n - 1 - i))" "n - 1 - i < 32" using top n(2) by auto
    then show "bit a i" using assms by blast
  qed
  then have "a = mask n" using n(2) by (intro bit_eqI) (auto simp: bit_mask_iff)
  moreover have "take_bit n y = y" using n(1) by (intro bit_eqI) (auto simp: bit_take_bit_iff, meson not_le)
  then have "uint y < 2 ^ n" by (metis take_bit_eq_mod unsigned_take_bit_eq pos_mod_bound zero_less_numeral zero_less_power)
  moreover have "2 ^ (n - 1) \<le> uint y" if "n \<noteq> 0"
  proof (rule ccontr)
    assume "\<not> 2 ^ (n - 1) \<le> uint y"
    then have "take_bit (n - 1) (uint y) = uint y" by (simp add: take_bit_int_eq_self)
    then have "\<not> bit (uint y) (n - 1)" by (metis bit_take_bit_iff less_irrefl)
    with top that n(2) show False by (simp add: bit_uint_iff)
  qed
  ultimately show ?thesis by (intro that [OF n(2)]) auto
qed

lemma roundup_mask:
  obtains n where "n \<le> 32" "roundup_pow2 x = mask n + 1" "uint (x - 1) < 2 ^ n" "n = 0 \<or> 2 ^ (n - 1) \<le> uint (x - 1)"
proof -
  let ?y = "x - 1"
  let ?s1 = "?y OR drop_bit 1 ?y"
  let ?s2 = "?s1 OR drop_bit 2 ?s1"
  let ?s4 = "?s2 OR drop_bit 4 ?s2"
  let ?s8 = "?s4 OR drop_bit 8 ?s4"
  let ?s16 = "?s8 OR drop_bit 16 ?s8"
  have "\<forall>i. bit ?y i \<longleftrightarrow> (\<exists>k < 1. bit ?y (i + k))" by simp
  then have "\<forall>i. bit ?s1 i \<longleftrightarrow> (\<exists>k < 2. bit ?y (i + k))" by (rule smear_step) simp
  then have "\<forall>i. bit ?s2 i \<longleftrightarrow> (\<exists>k < 4. bit ?y (i + k))" by (rule smear_step) simp
  then have "\<forall>i. bit ?s4 i \<longleftrightarrow> (\<exists>k < 8. bit ?y (i + k))" by (rule smear_step) simp
  then have "\<forall>i. bit ?s8 i \<longleftrightarrow> (\<exists>k < 16. bit ?y (i + k))" by (rule smear_step) simp
  then have "\<forall>i. bit ?s16 i \<longleftrightarrow> (\<exists>k < 32. bit ?y (i + k))" by (rule smear_step) simp
  from smeared [OF this] obtain n where "n \<le> 32" "?s16 = mask n" "uint ?y < 2 ^ n" "n = 0 \<or> 2 ^ (n - 1) \<le> uint ?y" .
  moreover have "roundup_pow2 x = ?s16 + 1" by (simp only: roundup_pow2_def Let_def)
  ultimately show ?thesis using that by metis
qed

lemma roundup_pow2_correct:
  assumes "0 < x" "x \<le> 2 ^ 31"
  shows "\<exists>n \<le> 31. uint (roundup_pow2 x) = 2 ^ n \<and> uint x \<le> 2 ^ n \<and> 2 ^ n < 2 * uint x"
proof -
  have ux: "0 < uint x" "uint x \<le> 2 ^ 31" using assms by (simp_all add: word_less_def word_le_def)
  then have y: "uint (x - 1) = uint x - 1" using uint_sub_lem [of 1 x] by simp
  obtain n where n: "n \<le> 32" "roundup_pow2 x = mask n + 1" "uint (x - 1) < 2 ^ n"
    "n = 0 \<or> 2 ^ (n - 1) \<le> uint (x - 1)" by (rule roundup_mask)
  have "n \<noteq> 32"
  proof
    assume "n = 32" with n(4) y ux(2) show False by simp
  qed
  with n(1) have n31: "n \<le> 31" by simp
  have "(2 :: int) ^ n \<le> 2 ^ 31" using n31 by (intro power_increasing) simp_all
  then have "uint (mask n + 1 :: u32) = 2 ^ n"
    using n31 uint_2p [of n, where ?'a = 32] by (simp add: mask_eq_exp_minus_1 word_greater_zero_iff)
  moreover have "2 ^ n < 2 * uint x" using n(4) y ux(1) by (cases n) auto
  ultimately show ?thesis using n(2,3) y n31 by auto
qed
text \<open>\<open>mkpipe\<close> for an input descriptor and a capacity from 2 to 2^30 makes an empty pipe whose capacity is
  the least power of two that is not smaller, registers its channel and opens the descriptor; a
  channel number already in use is refused and nothing changes.\<close>

theorem mkpipe_correct:
  assumes "0 \<le> input_fd" "2 \<le> cap" "cap \<le> 2 ^ 30" "length m = unat (roundup_pow2 cap)"
    "peridot_sw_hostbridge_gen2_mkpipe ch output_fd input_fd cap (Some m) (b, f) = ((b', f'), p', result)"
  shows "if find_channel ch b \<noteq> None then result = - EEXIST \<and> b' = b \<and> f' = f \<and> p' = None
    else result = 0 \<and> channels b' = channels b @ [\<lparr>number = ch, packetized = False\<rparr>] \<and>
      (\<exists>flags. fd_list f' input_fd = Some (ch, flags)) \<and>
      (\<exists>p. p' = Some p \<and> pipe_ok p \<and> contents p = [] \<and>
        uint cap \<le> capacity p \<and> capacity p < 2 * uint cap \<and> pow2 (nat (capacity p)))"
proof (cases "find_channel ch b")
  case (Some i)
  then show ?thesis
    using assms(1,5) by (simp add: peridot_sw_hostbridge_gen2_mkpipe_def
      peridot_sw_hostbridge_gen2_register_channel_def EEXIST_def)
next
  case None
  have c: "2 \<le> uint cap" "uint cap \<le> 2 ^ 30" using assms(2,3) by (simp_all add: word_le_def)
  then have "0 < cap" "cap \<le> 2 ^ 31" by (simp_all add: word_less_def word_le_def)
  from roundup_pow2_correct [OF this] obtain n where n: "uint (roundup_pow2 cap) = 2 ^ n"
    "uint cap \<le> 2 ^ n" "2 ^ n < 2 * uint cap" by blast
  have "n \<noteq> 0" using n(2) c(1) by (intro notI) simp
  moreover have "n < 31"
  proof (rule ccontr)
    assume "\<not> n < 31"
    then have "(2 :: int) ^ 31 \<le> 2 ^ n" by (intro power_increasing) simp_all
    with n(3) c(2) show False by simp
  qed
  ultimately have p2: "pow2 (2 ^ n)" by (auto simp: pow2_def)
  let ?p = "\<lparr>capacity = uint (roundup_pow2 cap), read_offset = 0, write_offset = 0, pbuffer = m, sem_read = 0\<rparr>"
  have "length m = 2 ^ n" using assms(4) n(1) by (simp add: unat_eq_nat_uint nat_power_eq)
  then have "pipe_ok ?p" unfolding pipe_ok_def using p2 n(1)
    by (intro exI [of _ "2 ^ n"] exI [of _ 0]) (simp add: nat_power_eq)
  moreover have "contents ?p = []" by (simp add: contents_def ring_def)
  moreover have "pow2 (nat (capacity ?p))" using p2 n(1) by (simp add: nat_power_eq)
  moreover have "p' = Some ?p" "result = 0" "channels b' = channels b @ [\<lparr>number = ch, packetized = False\<rparr>]"
    "\<exists>flags. fd_list f' input_fd = Some (ch, flags)"
    using None assms(1,5) by (auto simp: peridot_sw_hostbridge_gen2_mkpipe_def Let_def set_fd_def
      peridot_sw_hostbridge_gen2_register_channel_def split: if_splits)
  ultimately show ?thesis using None n by simp
qed

theorem mkpipe_correct_witness:
  "\<exists>b f p. peridot_sw_hostbridge_gen2_mkpipe 5 (-1) 3 3 (Some (replicate 4 0))
       (\<lparr>channels = [], sink_channel = None, source_channel_number = -1, channel_prefix = False,
         escape_prefix = False\<rparr>, \<lparr>fd_list = Map.empty, closed = []\<rparr>) = ((b, f), Some p, 0) \<and> pipe_ok p"
proof -
  let ?b = "\<lparr>channels = [], sink_channel = None, source_channel_number = -1, channel_prefix = False,
    escape_prefix = False\<rparr>"
  let ?r = "peridot_sw_hostbridge_gen2_mkpipe 5 (-1) 3 3 (Some (replicate 4 0)) (?b, \<lparr>fd_list = Map.empty, closed = []\<rparr>)"
  obtain b f p r where r: "?r = ((b, f), p, r)" by (metis prod.exhaust)
  have "unat (roundup_pow2 3) = 4" by code_simp
  then have "length (replicate 4 0 :: mem) = unat (roundup_pow2 3)" by simp
  moreover have "find_channel 5 ?b = None" by (simp add: find_channel_def)
  ultimately show ?thesis using mkpipe_correct [OF _ _ _ _ r] r by auto
qed

end
