(* ===== verification/Avm.thy ===== *)
theory Avm
  imports Hostbridge_Props
begin

text \<open>
  Channel 0 of the hostbridge (\<open>peridot_sw_hostbridge_gen2_avm.c\<close>): a sink that decodes packets into
  reads of memory and answers them. Only the 16 bytes at \<open>0x10000000\<close> are meant to be readable.
  The answers are the calls of \<open>source\<close>: the bytes and the flags. \<open>mm\<close> is the memory of the system.
\<close>

section \<open>State and operations\<close>

definition AVM_READABLE_BASE :: u32 where "AVM_READABLE_BASE = 0x10000000"
definition AVM_READABLE_SPAN :: u32 where "AVM_READABLE_SPAN = 16"
definition AVM_READABLE_END :: u32 where "AVM_READABLE_END = AVM_READABLE_BASE + AVM_READABLE_SPAN"

definition AVM_OFFSET_INIT :: byte where "AVM_OFFSET_INIT = 0"
definition AVM_OFFSET_FULL :: byte where "AVM_OFFSET_FULL = 8"
definition AVM_OFFSET_WRITE :: byte where "AVM_OFFSET_WRITE = 9"
definition AVM_OFFSET_READ :: byte where "AVM_OFFSET_READ = 10"
definition AVM_OFFSET_NOTR :: byte where "AVM_OFFSET_NOTR = 11"

lemmas avm_offsets = AVM_OFFSET_INIT_def AVM_OFFSET_FULL_def AVM_OFFSET_WRITE_def AVM_OFFSET_READ_def
  AVM_OFFSET_NOTR_def

record avm =
  avm_escape :: bool
  avm_eop :: bool
  avm_inside :: bool
  avm_offset :: byte
  avm_buffer :: mem

type_synonym reply = "byte list \<times> u32"

definition SWAP16 :: "u16 \<Rightarrow> u16" where
  "SWAP16 x = drop_bit 8 x OR push_bit 8 x"

definition SWAP32 :: "u32 \<Rightarrow> u32" where
  "SWAP32 x = push_bit 16 (ucast (SWAP16 (ucast x))) OR ucast (SWAP16 (ucast (drop_bit 16 x)))"

text \<open>\<open>buffer.u16[i]\<close> and \<open>buffer.u32[i]\<close> on the little-endian processor.\<close>

definition u16_at :: "mem \<Rightarrow> nat \<Rightarrow> u16" where
  "u16_at m i = ucast (m ! (2 * i)) OR push_bit 8 (ucast (m ! (2 * i + 1)))"

definition u32_at :: "mem \<Rightarrow> nat \<Rightarrow> u32" where
  "u32_at m i = ucast (u16_at m (2 * i)) OR push_bit 16 (ucast (u16_at m (2 * i + 1)))"

definition mem_bytes :: "(u32 \<Rightarrow> byte) \<Rightarrow> u32 \<Rightarrow> nat \<Rightarrow> byte list" where
  "mem_bytes mm addr n = map (\<lambda>i. mm (addr + of_nat i)) [0..<n]"

text \<open>The end of a packet: the answer and the buffer as it is left.\<close>

definition avm_answer :: "(u32 \<Rightarrow> byte) \<Rightarrow> byte \<Rightarrow> mem \<Rightarrow> u32 \<Rightarrow> mem \<times> reply" where
  "avm_answer mm offset buf flags =
     (let buf = buf[0 := buf ! 0 XOR 0x80, 1 := 0] in
      if offset = AVM_OFFSET_READ then
        let addr = SWAP32 (u32_at buf 1); size = SWAP16 (u16_at buf 1) in
        if addr < AVM_READABLE_BASE \<or> addr + ucast size > AVM_READABLE_END then (buf, [0], flags)
        else (buf, mem_bytes mm addr (unat size), flags)
      else let buf = buf[2 := 0, 3 := 0] in (buf, take 4 buf, flags))"

text \<open>What a full header does: \<open>offset\<close> says what comes, and a reset is asked for by \<open>0x7f\<close>.\<close>

definition avm_header :: "byte \<Rightarrow> byte \<times> bool" where
  "avm_header cmd =
     (if cmd = 0x00 \<or> cmd = 0x04 then (AVM_OFFSET_WRITE, False)
      else if cmd = 0x10 \<or> cmd = 0x14 then (AVM_OFFSET_READ, False)
      else (AVM_OFFSET_NOTR, cmd = 0x7f))"

definition avm_take :: "(u32 \<Rightarrow> byte) \<Rightarrow> byte \<Rightarrow> avm \<Rightarrow> avm \<times> reply list" where
  "avm_take mm b a =
     (if \<not> avm_inside a then (a, [])
      else
        let a = (if avm_offset a < AVM_OFFSET_FULL
                 then a\<lparr>avm_buffer := (avm_buffer a)[unat (avm_offset a) := b], avm_offset := avm_offset a + 1\<rparr>
                 else a);
            full = avm_offset a = AVM_OFFSET_FULL;
            (offset, reset) = avm_header (avm_buffer a ! 0);
            a = (if full then a\<lparr>avm_offset := offset\<rparr> else a);
            flags = (if full \<and> reset then SOURCE_PACKETIZED OR SOURCE_RESET else SOURCE_PACKETIZED)
        in if \<not> avm_eop a then (a, [])
           else case avm_answer mm (avm_offset a) (avm_buffer a) flags of (buf, r) \<Rightarrow>
             (a\<lparr>avm_buffer := buf, avm_eop := False, avm_inside := False\<rparr>, [r]))"

definition avm_data :: "(u32 \<Rightarrow> byte) \<Rightarrow> byte \<Rightarrow> avm \<Rightarrow> avm \<times> reply list" where
  "avm_data mm b a =
     (if avm_escape a then avm_take mm (b XOR AST_ESCAPE_XOR) (a\<lparr>avm_escape := False\<rparr>)
      else avm_take mm b a)"

definition avm_byte :: "(u32 \<Rightarrow> byte) \<Rightarrow> byte \<Rightarrow> avm \<Rightarrow> avm \<times> reply list" where
  "avm_byte mm b a =
     (if b = AST_SOP then (a\<lparr>avm_offset := AVM_OFFSET_INIT, avm_inside := True, avm_eop := False\<rparr>, [])
      else if b = AST_EOP_PREFIX then (a\<lparr>avm_eop := True\<rparr>, [])
      else if b = AST_ESCAPE_PREFIX then (a\<lparr>avm_escape := True\<rparr>, [])
      else avm_data mm b a)"

text \<open>The loop of \<open>avm_sink\<close>; the function returns \<open>len\<close>.\<close>

fun avm_sink :: "(u32 \<Rightarrow> byte) \<Rightarrow> byte list \<Rightarrow> avm \<Rightarrow> avm \<times> reply list" where
  "avm_sink mm [] a = (a, [])"
| "avm_sink mm (b # bs) a =
     (case avm_byte mm b a of (a, rs) \<Rightarrow> case avm_sink mm bs a of (a, rs') \<Rightarrow> (a, rs @ rs'))"

definition avm_channel :: channel where
  "avm_channel = \<lparr>number = 0, packetized = True\<rparr>"

definition peridot_sw_hostbridge_gen2_avm_init :: "bridge \<Rightarrow> bridge \<times> int" where
  "peridot_sw_hostbridge_gen2_avm_init b = peridot_sw_hostbridge_gen2_register_channel avm_channel b"

section \<open>Decoding\<close>

lemma avm_sink_append:
  "avm_sink mm (xs @ ys) a =
     (case avm_sink mm xs a of (a, rs) \<Rightarrow> case avm_sink mm ys a of (a, rs') \<Rightarrow> (a, rs @ rs'))"
  by (induction xs arbitrary: a) (auto split: prod.splits)

text \<open>An escaped byte, however it is written, reaches \<open>avm_data\<close> as itself.\<close>

lemma avm_sink_esc:
  assumes "\<not> avm_escape a"
  shows "avm_sink mm (esc b) a = avm_data mm b a"
proof (cases "AST_NEEDS_ESCAPE b")
  case True
  then have "b XOR 0x20 \<noteq> AST_SOP" "b XOR 0x20 \<noteq> AST_EOP_PREFIX" "b XOR 0x20 \<noteq> AST_ESCAPE_PREFIX"
    by (auto simp: esc_special ast_defs)
  moreover have "avm_take mm b (a\<lparr>avm_escape := False\<rparr>) = avm_take mm b a"
    by (rule arg_cong [where f = "avm_take mm b"]) (use assms in simp)
  moreover have "(b XOR AST_ESCAPE_XOR) XOR AST_ESCAPE_XOR = b" by (simp add: xor.assoc)
  ultimately show ?thesis using True assms
    by (auto simp: esc_def avm_byte_def avm_data_def AST_ESCAPE_XOR_def ast_defs split: prod.split)
next
  case False
  then show ?thesis by (auto simp: esc_def avm_byte_def esc_special split: prod.split)
qed

text \<open>The state after the start of a packet and \<open>length xs\<close> bytes of it.\<close>

definition inside :: "byte list \<Rightarrow> avm \<Rightarrow> bool" where
  "inside xs a \<longleftrightarrow> avm_inside a \<and> \<not> avm_escape a \<and> \<not> avm_eop a \<and> avm_offset a = of_nat (length xs) \<and>
     length (avm_buffer a) = 8 \<and> take (length xs) (avm_buffer a) = xs"

lemma inside_start:
  "\<not> avm_escape a \<Longrightarrow> length (avm_buffer a) = 8 \<Longrightarrow> \<exists>a'. avm_byte mm AST_SOP a = (a', []) \<and> inside [] a'"
  by (simp add: avm_byte_def inside_def AVM_OFFSET_INIT_def)

lemma unat_small: "n < 256 \<Longrightarrow> unat (of_nat n :: byte) = n"
  by (simp add: unat_of_nat take_bit_nat_eq_self)

lemma inside_fill:
  assumes "inside xs a" "length xs < 7"
  shows "\<exists>a'. avm_sink mm (esc b) a = (a', []) \<and> inside (xs @ [b]) a'"
proof -
  have o: "unat (avm_offset a) = length xs" "avm_offset a < AVM_OFFSET_FULL"
      "avm_offset a + 1 \<noteq> AVM_OFFSET_FULL" "avm_offset a + 1 = of_nat (length (xs @ [b]))"
    using assms by (auto simp: inside_def unat_small AVM_OFFSET_FULL_def word_less_nat_alt
      word_unat_eq_iff unat_word_ariths)
  let ?a = "a\<lparr>avm_buffer := (avm_buffer a)[length xs := b], avm_offset := avm_offset a + 1\<rparr>"
  have "avm_sink mm (esc b) a = (?a, [])"
    using assms(1) o(1-3) by (simp add: avm_sink_esc inside_def avm_data_def avm_take_def Let_def split_def)
  moreover have "inside (xs @ [b]) ?a"
    using assms o(4) by (simp add: inside_def take_Suc_conv_app_nth)
  ultimately show ?thesis by blast
qed

lemma inside_fills:
  "inside xs a \<Longrightarrow> length xs + length bs \<le> 7 \<Longrightarrow>
   \<exists>a'. avm_sink mm (concat (map esc bs)) a = (a', []) \<and> inside (xs @ bs) a'"
proof (induction bs arbitrary: xs a)
  case (Cons b bs)
  then obtain a1 where a1: "avm_sink mm (esc b) a = (a1, [])" "inside (xs @ [b]) a1"
    using inside_fill [of xs a mm b] by auto
  with Cons obtain a2 where "avm_sink mm (concat (map esc bs)) a1 = (a2, [])" "inside ((xs @ [b]) @ bs) a2"
    by (metis (no_types, lifting) add_Suc_right add_Suc append_Cons length_Cons length_append_singleton)
  with a1 show ?case by (simp add: avm_sink_append)
qed simp

text \<open>The big-endian numbers of a packet.\<close>

definition be16 :: "byte \<Rightarrow> byte \<Rightarrow> u16" where
  "be16 a b = push_bit 8 (ucast a) OR ucast b"

definition be32 :: "byte \<Rightarrow> byte \<Rightarrow> byte \<Rightarrow> byte \<Rightarrow> u32" where
  "be32 a b c d = push_bit 24 (ucast a) OR push_bit 16 (ucast b) OR push_bit 8 (ucast c) OR ucast d"

lemma high_bit: "8 \<le> n \<Longrightarrow> \<not> bit (a :: byte) n"
  using bit_imp_le_length [of a n] by auto

lemma swap16: "SWAP16 (ucast a OR push_bit 8 (ucast b)) = be16 a (b :: byte)"
  by (rule bit_eqI) (auto simp: SWAP16_def be16_def bit_simps high_bit not_less)

lemma halves:
  "ucast (ucast l OR push_bit 16 (ucast h) :: u32) = (l :: u16)"
  "ucast (drop_bit 16 (ucast l OR push_bit 16 (ucast h) :: u32)) = (h :: u16)"
  using bit_imp_le_length [of l] by (intro bit_eqI; force simp: bit_simps)+

lemma be32_be16: "push_bit 16 (ucast (be16 a b)) OR ucast (be16 c d) = be32 a b c d"
  by (rule bit_eqI) (auto simp: be16_def be32_def bit_simps high_bit not_less)

lemma swap32:
  "SWAP32 (ucast (ucast a OR push_bit 8 (ucast b) :: u16) OR push_bit 16 (ucast (ucast c OR push_bit 8 (ucast d) :: u16)))
   = be32 a b c (d :: byte)"
  unfolding SWAP32_def halves swap16 by (rule be32_be16)
text \<open>The answer to a packet of a whole header.\<close>

definition readable :: "u32 \<Rightarrow> u16 \<Rightarrow> bool" where
  "readable addr sz \<longleftrightarrow> AVM_READABLE_BASE \<le> addr \<and> addr + ucast sz \<le> AVM_READABLE_END"

fun answer :: "(u32 \<Rightarrow> byte) \<Rightarrow> byte list \<Rightarrow> reply" where
  "answer mm [cmd, x, s1, s0, a3, a2, a1, a0] =
     (if cmd = 0x10 \<or> cmd = 0x14 then
        (if readable (be32 a3 a2 a1 a0) (be16 s1 s0) then mem_bytes mm (be32 a3 a2 a1 a0) (unat (be16 s1 s0)) else [0],
         SOURCE_PACKETIZED)
      else ([cmd XOR 0x80, 0, 0, 0], if cmd = 0x7f then SOURCE_PACKETIZED OR SOURCE_RESET else SOURCE_PACKETIZED))"
| "answer mm _ = ([], 0)"

lemma avm_last:
  assumes "inside [cmd, x, s1, s0, a3, a2, a1] a"
  shows "\<exists>a'. avm_sink mm (AST_EOP_PREFIX # esc a0) a = (a', [answer mm [cmd, x, s1, s0, a3, a2, a1, a0]]) \<and>
    \<not> avm_escape a' \<and> \<not> avm_inside a' \<and> length (avm_buffer a') = 8"
proof -
  let ?a = "a\<lparr>avm_eop := True\<rparr>"
  have "AST_EOP_PREFIX \<noteq> AST_SOP" by (simp add: ast_defs)
  then have "avm_sink mm (AST_EOP_PREFIX # esc a0) a = avm_take mm a0 ?a"
    using assms by (auto simp: avm_byte_def avm_sink_esc inside_def avm_data_def split: prod.split)
  moreover obtain y where "avm_buffer a = [cmd, x, s1, s0, a3, a2, a1, y]"
  proof -
    have "take 7 (avm_buffer a) = [cmd, x, s1, s0, a3, a2, a1]" "length (drop 7 (avm_buffer a)) = 1"
      using assms by (simp_all add: inside_def eval_nat_numeral)
    then have "avm_buffer a = [cmd, x, s1, s0, a3, a2, a1] @ drop 7 (avm_buffer a)" "length (drop 7 (avm_buffer a)) = 1"
      by (metis append_take_drop_id)+
    moreover from this(2) obtain y where "drop 7 (avm_buffer a) = [y]"
      by (metis One_nat_def length_0_conv length_Suc_conv)
    ultimately show ?thesis using that by (metis append_Cons append_Nil)
  qed
  moreover have "avm_offset a = 7" "avm_inside a" "\<not> avm_escape a" using assms by (simp_all add: inside_def)
  ultimately show ?thesis
    by (auto simp: avm_take_def avm_header_def avm_answer_def avm_offsets Let_def u32_at_def u16_at_def
      swap16 swap32 readable_def not_less not_le)
qed

text \<open>C16: A packet of a whole header, framed and escaped as \<open>source\<close> frames packets, gets exactly one answer,
  whatever came before it and however the bytes are spread over calls of the sink: a read the bytes
  asked for if the check allows the address and a single zero if not, any other command its number
  with the top bit flipped and a zero length, a reset only for \<open>0x7f\<close>.\<close>

theorem avm_answers:
  assumes "\<not> avm_escape a" "length (avm_buffer a) = 8" "length pkt = 8" "xs @ ys = frame pkt"
  shows "\<exists>a1 a2 r1 r2. avm_sink mm xs a = (a1, r1) \<and> avm_sink mm ys a1 = (a2, r2) \<and> r1 @ r2 = [answer mm pkt] \<and>
    \<not> avm_escape a2 \<and> length (avm_buffer a2) = 8"
proof -
  obtain a1 where a1: "avm_byte mm AST_SOP a = (a1, [])" "inside [] a1" using inside_start assms by blast
  obtain cmd x s1 s0 a3 a2 a1' a0 where pkt: "pkt = [cmd, x, s1, s0, a3, a2, a1', a0]"
    using assms(3) by (auto simp: length_Suc_conv eval_nat_numeral)
  let ?h = "[cmd, x, s1, s0, a3, a2, a1']"
  have f: "frame pkt = AST_SOP # concat (map esc ?h) @ AST_EOP_PREFIX # esc a0"
    using frame_snoc [of ?h a0] pkt by simp
  from inside_fills [OF a1(2), of ?h mm] obtain b where
    b: "avm_sink mm (concat (map esc ?h)) a1 = (b, [])" "inside ?h b" by auto
  from avm_last [OF b(2), of mm a0] obtain b' where
    b': "avm_sink mm (AST_EOP_PREFIX # esc a0) b = (b', [answer mm pkt])" "\<not> avm_escape b'" "length (avm_buffer b') = 8"
    unfolding pkt by blast
  have "avm_sink mm (frame pkt) a = (b', [answer mm pkt])"
    unfolding f using a1(1) b(1) b'(1) by (simp add: avm_sink_append del: concat.simps list.map)
  with b'(2,3) show ?thesis
    unfolding assms(4) [symmetric] avm_sink_append by (cases "avm_sink mm xs a") (auto split: prod.splits)
qed

definition avm_boot :: avm where
  "avm_boot = \<lparr>avm_escape = False, avm_eop = False, avm_inside = False, avm_offset = 0, avm_buffer = replicate 8 0\<rparr>"

theorem avm_answers_witness:
  "\<exists>a1 a2 r1 r2. avm_sink ucast (frame [0x14, 0, 0, 3, 0x10, 0, 0, 0x7c]) avm_boot = (a1, r1) \<and>
     avm_sink ucast [] a1 = (a2, r2) \<and> r1 @ r2 = [([0], SOURCE_PACKETIZED)]"
proof -
  have "answer ucast [0x14, 0, 0, 3, 0x10, 0, 0, 0x7c] = ([0], SOURCE_PACKETIZED)" by code_simp
  moreover have "\<not> avm_escape avm_boot" "length (avm_buffer avm_boot) = 8"
    "length [0x14, 0, 0, 3, 0x10, 0, 0, 0x7c :: byte] = 8"
    "frame [0x14, 0, 0, 3, 0x10, 0, 0, 0x7c] @ [] = frame [0x14, 0, 0, 3, 0x10, 0, 0, 0x7c]"
    by (simp_all add: avm_boot_def)
  ultimately show ?thesis using avm_answers [of avm_boot "[0x14, 0, 0, 3, 0x10, 0, 0, 0x7c]" "frame [0x14, 0, 0, 3, 0x10, 0, 0, 0x7c]" "[]" ucast] by auto
qed

text \<open>The check of the address keeps a read inside the 16 readable bytes, unless the end of the read
  wraps around: a request for \<open>0x200\<close> bytes at \<open>0xffffff00\<close> passes it and is answered with memory from there.\<close>

theorem avm_window:
  "(readable addr sz \<and> uint addr + uint sz < 2 ^ 32 \<longrightarrow>
      (\<forall>i < unat sz. AVM_READABLE_BASE \<le> addr + of_nat i \<and> addr + of_nat i < AVM_READABLE_END)) \<and>
   answer mm [0x10, 0, 2, 0, 0xff, 0xff, 0xff, 0] = (mem_bytes mm 0xffffff00 0x200, SOURCE_PACKETIZED)"
proof (intro conjI impI allI)
  fix i assume r: "readable addr sz \<and> uint addr + uint sz < 2 ^ 32" and i: "i < unat sz"
  have e: "uint (addr + of_nat i) = uint addr + int i"
  proof -
    have "unat sz < 2 ^ 16" using unsigned_less [of sz, where ?'a = nat] by simp
    with i have "i < 2 ^ 32" by simp
    then have "uint (of_nat i :: u32) = int i"
      by (simp add: unsigned_of_nat take_bit_nat_eq_self)
    moreover have "int i < uint sz" using i unfolding uint_nat by (simp only: of_nat_less_iff)
    ultimately show ?thesis using r by (simp add: uint_plus_if')
  qed
  have "int i < uint sz" using i unfolding uint_nat by (simp only: of_nat_less_iff)
  moreover have "uint (addr + ucast sz) = uint addr + uint sz"
  proof -
    have "take_bit 32 (uint sz) = uint sz"
      using unsigned_less [of sz, where ?'a = int] by (simp add: take_bit_int_eq_self)
    with r show ?thesis by (simp add: uint_plus_if' unsigned_ucast_eq)
  qed
  ultimately show "AVM_READABLE_BASE \<le> addr + of_nat i" "addr + of_nat i < AVM_READABLE_END"
    using r e by (simp_all add: readable_def word_le_def word_less_def AVM_READABLE_BASE_def
      AVM_READABLE_END_def AVM_READABLE_SPAN_def)
next
  have "readable (be32 0xff 0xff 0xff 0) (be16 2 0)" by code_simp
  moreover have "be32 0xff 0xff 0xff 0 = 0xffffff00" "unat (be16 2 0) = 0x200" by code_simp+
  ultimately show "answer mm [0x10, 0, 2, 0, 0xff, 0xff, 0xff, 0] = (mem_bytes mm 0xffffff00 0x200, SOURCE_PACKETIZED)"
    by simp
qed

theorem avm_window_witness: "AVM_READABLE_BASE \<le> 0x10000004 + of_nat 3 \<and> 0x10000004 + of_nat 3 < AVM_READABLE_END"
proof -
  have "readable 0x10000004 8 \<and> uint (0x10000004 :: u32) + uint (8 :: u16) < 2 ^ 32" by code_simp
  moreover have "3 < unat (8 :: u16)" by simp
  ultimately show ?thesis using avm_window [of "0x10000004" 8] by blast
qed

end
