(* ===== verification/Rpc_Server.thy ===== *)
theory Rpc_Server
  imports Bson Hostbridge
begin

text \<open>
  The JSON-RPC server (\<open>peridot_rpc_server.c\<close>): a sink that assembles packets of its channel into jobs,
  and a service that takes a job, calls the method it names and sends the reply. Messages are BSON
  documents.

  \<^item> \<open>malloc n sz\<close> says whether the \<open>n\<close>-th call of \<open>malloc\<close>, for \<open>sz\<close> bytes, returns a block;
    \<open>blocks\<close> counts the blocks owned by the server and not freed. The bytes of a new block are zeros
    in the model; the server reads none before it has written it.
  \<^item> A job is its \<open>data\<close> part, the received document.
  \<^item> A registered method is a function of its parameters (a document or NULL) and the world. A
    synchronous one yields its result document or NULL, and the value of \<open>errno\<close>; an asynchronous one
    yields an error number and, when that is 0, owns the job until it calls the callback. A method
    may have undefined behaviour itself.
  \<^item> \<open>None\<close> is undefined behaviour: an access outside a block.
\<close>

section \<open>State\<close>

definition PERIDOT_RPCSRV_CHANNEL :: byte where "PERIDOT_RPCSRV_CHANNEL = 1"
definition PERIDOT_RPCSRV_MAX_REQUEST_LENGTH :: int where "PERIDOT_RPCSRV_MAX_REQUEST_LENGTH = 65536"
definition PERIDOT_RPCSRV_JSONRPC_VER :: "byte list" where "PERIDOT_RPCSRV_JSONRPC_VER = cstr ''2.0''"

definition JSONRPC_ERR_PARSE_ERROR :: int where "JSONRPC_ERR_PARSE_ERROR = -32700"
definition JSONRPC_ERR_INVALID_REQUEST :: int where "JSONRPC_ERR_INVALID_REQUEST = -32600"
definition JSONRPC_ERR_METHOD_NOT_FOUND :: int where "JSONRPC_ERR_METHOD_NOT_FOUND = -32601"
definition JSONRPC_ERR_INTERNAL_ERROR :: int where "JSONRPC_ERR_INTERNAL_ERROR = -32603"

lemmas jsonrpc_errors = JSONRPC_ERR_PARSE_ERROR_def JSONRPC_ERR_INVALID_REQUEST_def
  JSONRPC_ERR_METHOD_NOT_FOUND_def JSONRPC_ERR_INTERNAL_ERROR_def

datatype 'w rpc_method =
    Sync "mem option \<Rightarrow> 'w \<Rightarrow> (mem option \<times> int \<times> 'w) option"
  | Async "mem option \<Rightarrow> 'w \<Rightarrow> (int \<times> 'w) option"

type_synonym 'w method_entry = "byte list \<times> 'w rpc_method"

text \<open>\<open>async_jobs\<close> are the jobs asynchronous methods own, \<open>sent\<close> the calls of \<open>source\<close>.\<close>

record 'w rpc =
  r_escape :: bool
  r_eop :: bool
  r_inside :: bool
  r_offset :: u32
  r_length :: mem
  incoming_job :: "mem option"
  pending_job :: "mem option"
  r_sem :: nat
  methods :: "'w method_entry list"
  mallocs :: nat
  blocks :: int
  async_jobs :: "mem list"
  sent :: "(byte list \<times> u32) list"
  world :: 'w

type_synonym allocator = "nat \<Rightarrow> u32 \<Rightarrow> bool"

definition rpc_malloc :: "allocator \<Rightarrow> u32 \<Rightarrow> 'w rpc \<Rightarrow> 'w rpc \<times> bool" where
  "rpc_malloc malloc sz s =
     (if malloc (mallocs s) sz then (s\<lparr>mallocs := mallocs s + 1, blocks := blocks s + 1\<rparr>, True)
      else (s\<lparr>mallocs := mallocs s + 1\<rparr>, False))"

definition rpc_free :: "mem option \<Rightarrow> 'w rpc \<Rightarrow> 'w rpc" where
  "rpc_free p s = (if p = None then s else s\<lparr>blocks := blocks s - 1\<rparr>)"

section \<open>The sink\<close>

text \<open>\<open>sizeof(rpcsrv_job)\<close>, the part of a job before its data.\<close>

definition JOB_HEADER :: u32 where "JOB_HEADER = 8"

text \<open>The new job: \<open>next\<close> and the first word of the data are written at once.\<close>

definition new_job :: "int \<Rightarrow> mem option" where
  "new_job len =
     (let sz = unat (JOB_HEADER + word_of_int len) in
      do { block \<leftarrow> wr_block (replicate sz 0) 4 (replicate 4 0);
           block \<leftarrow> wr_block block 8 (int_object len);
           Some (drop 8 block) })"

definition alloc_job :: "allocator \<Rightarrow> int \<Rightarrow> 'w rpc \<Rightarrow> 'w rpc option" where
  "alloc_job malloc len s =
     (case rpc_malloc malloc (JOB_HEADER + word_of_int len) s of
        (s, True) \<Rightarrow> do { job \<leftarrow> new_job len; Some (s\<lparr>incoming_job := Some job\<rparr>) }
      | (s, False) \<Rightarrow> Some (s\<lparr>incoming_job := None\<rparr>))"

text \<open>The labels \<open>next_packet\<close> and \<open>drop_packet\<close>.\<close>

definition next_packet :: "'w rpc \<Rightarrow> 'w rpc" where
  "next_packet s = s\<lparr>incoming_job := None, r_offset := 0, r_eop := False, r_inside := False\<rparr>"

definition drop_packet :: "'w rpc \<Rightarrow> 'w rpc" where
  "drop_packet s = next_packet (rpc_free (incoming_job s) s)"

definition finish_packet :: "int \<Rightarrow> 'w rpc \<Rightarrow> 'w rpc" where
  "finish_packet len s =
     (if \<not> r_eop s then s
      else if r_offset s \<noteq> word_of_int len then drop_packet s
      else next_packet (s\<lparr>pending_job := incoming_job s, incoming_job := None, r_sem := r_sem s + 1\<rparr>))"

definition take_length :: "allocator \<Rightarrow> byte \<Rightarrow> 'w rpc \<Rightarrow> 'w rpc option" where
  "take_length malloc b s =
     (let s = s\<lparr>r_length := (r_length s)[unat (r_offset s) := b], r_offset := r_offset s + 1\<rparr> in
      do { len \<leftarrow> read_unaligned_int (r_length s) 0;
           s \<leftarrow> (if r_offset s = 4 \<and> len \<le> PERIDOT_RPCSRV_MAX_REQUEST_LENGTH
                 then alloc_job malloc len s else Some s);
           Some (finish_packet len s) })"

definition take_data :: "byte \<Rightarrow> 'w rpc \<Rightarrow> 'w rpc option" where
  "take_data b s =
     do { len \<leftarrow> read_unaligned_int (r_length s) 0;
          if r_offset s \<ge> word_of_int len then Some (drop_packet s)
          else case incoming_job s of
            None \<Rightarrow> Some (finish_packet len s)
          | Some job \<Rightarrow>
              do { job \<leftarrow> wr job (uint (r_offset s)) b;
                   Some (finish_packet len (s\<lparr>incoming_job := Some job, r_offset := r_offset s + 1\<rparr>)) } }"

definition rpc_inside :: "allocator \<Rightarrow> byte \<Rightarrow> 'w rpc \<Rightarrow> 'w rpc option" where
  "rpc_inside malloc b s =
     (if \<not> r_inside s then Some s
      else if r_offset s < 4 then take_length malloc b s else take_data b s)"

definition rpc_byte :: "allocator \<Rightarrow> byte \<Rightarrow> 'w rpc \<Rightarrow> 'w rpc option" where
  "rpc_byte malloc b s =
     (if b = AST_SOP then Some (s\<lparr>r_offset := 0, r_inside := True, r_eop := False\<rparr>)
      else if b = AST_EOP_PREFIX then Some (s\<lparr>r_eop := True\<rparr>)
      else if b = AST_ESCAPE_PREFIX then Some (s\<lparr>r_escape := True\<rparr>)
      else if r_escape s then rpc_inside malloc (b XOR AST_ESCAPE_XOR) (s\<lparr>r_escape := False\<rparr>)
      else rpc_inside malloc b s)"

text \<open>The loop stops when a job is pending; the result is the number of bytes read.\<close>

fun peridot_rpc_server_sink :: "allocator \<Rightarrow> byte list \<Rightarrow> 'w rpc \<Rightarrow> ('w rpc \<times> int) option" where
  "peridot_rpc_server_sink malloc [] s = Some (s, 0)"
| "peridot_rpc_server_sink malloc (b # bs) s =
     (if pending_job s \<noteq> None then Some (s, 0)
      else do { s \<leftarrow> rpc_byte malloc b s;
                (s, n) \<leftarrow> peridot_rpc_server_sink malloc bs s;
                Some (s, n + 1) })"

section \<open>Methods\<close>

definition rpc_channel :: channel where
  "rpc_channel = \<lparr>number = PERIDOT_RPCSRV_CHANNEL, packetized = True\<rparr>"

text \<open>\<open>thread n\<close> is the result of the \<open>n\<close>-th \<open>pthread_create\<close>; there is one worker.\<close>

definition peridot_rpc_server_init :: "int \<Rightarrow> bridge \<times> 'w rpc \<Rightarrow> (bridge \<times> 'w rpc) \<times> int" where
  "peridot_rpc_server_init created bs =
     (case bs of (b, s) \<Rightarrow>
        ((fst (peridot_sw_hostbridge_gen2_register_channel rpc_channel b), s\<lparr>r_sem := 0\<rparr>),
         if created \<noteq> 0 then - created else 0))"

definition register_method :: "allocator \<Rightarrow> byte list \<Rightarrow> 'w rpc_method \<Rightarrow> 'w rpc \<Rightarrow> 'w rpc \<times> int" where
  "register_method malloc name m s =
     (case rpc_malloc malloc (12 + of_nat (length name) + 1) s of
        (s, True) \<Rightarrow> (s\<lparr>methods := methods s @ [(name, m)]\<rparr>, 0)
      | (s, False) \<Rightarrow> (s, - ENOMEM))"

definition peridot_rpc_server_register_sync_method ::
    "allocator \<Rightarrow> byte list \<Rightarrow> (mem option \<Rightarrow> 'w \<Rightarrow> (mem option \<times> int \<times> 'w) option) \<Rightarrow> 'w rpc \<Rightarrow> 'w rpc \<times> int" where
  "peridot_rpc_server_register_sync_method malloc name func s = register_method malloc name (Sync func) s"

definition peridot_rpc_server_register_async_method ::
    "allocator \<Rightarrow> byte list \<Rightarrow> (mem option \<Rightarrow> 'w \<Rightarrow> (int \<times> 'w) option) \<Rightarrow> 'w rpc \<Rightarrow> 'w rpc \<times> int" where
  "peridot_rpc_server_register_async_method malloc name func s = register_method malloc name (Async func) s"

text \<open>The name is a C string at \<open>p\<close> in the job.\<close>

fun peridot_rpc_server_find_method :: "mem \<Rightarrow> int \<Rightarrow> 'w method_entry list \<Rightarrow> 'w rpc_method option option" where
  "peridot_rpc_server_find_method m p [] = Some None"
| "peridot_rpc_server_find_method m p ((name, f) # es) =
     do { eq \<leftarrow> c_streq m p name;
          if eq then Some (Some f) else peridot_rpc_server_find_method m p es }"

section \<open>Replies\<close>

text \<open>\<open>error_doc\<close>, the array of 16 bytes with the error code.\<close>

definition error_document :: "int \<Rightarrow> mem option" where
  "error_document result_errno =
     do { m \<leftarrow> bson_create_empty_document (replicate 16 0);
          (m, _) \<leftarrow> bson_set_int32 (Some m) (cstr ''code'') result_errno;
          m }"

definition reply_size :: "mem \<Rightarrow> int \<Rightarrow> mem option \<Rightarrow> int \<Rightarrow> int option" where
  "reply_size input off_id result result_errno =
     do { a \<leftarrow> bson_measure_string (cstr ''jsonrpc'') PERIDOT_RPCSRV_JSONRPC_VER;
          b \<leftarrow> bson_measure_element (cstr ''id'') (Some input) off_id;
          c \<leftarrow> (if result_errno = 0 then
                 (case result of
                    Some r \<Rightarrow> bson_measure_subdocument (cstr ''result'') r
                  | None \<Rightarrow> bson_measure_null (cstr ''result''))
               else do { e \<leftarrow> error_document result_errno; bson_measure_subdocument (cstr ''error'') e });
          Some (bson_empty_size + a + b + c) }"

definition write_reply :: "mem \<Rightarrow> int \<Rightarrow> mem option \<Rightarrow> int \<Rightarrow> mem \<Rightarrow> mem option" where
  "write_reply input off_id result result_errno output =
     do { m \<leftarrow> bson_create_empty_document output;
          (m, _) \<leftarrow> bson_set_string (Some m) (cstr ''jsonrpc'') PERIDOT_RPCSRV_JSONRPC_VER;
          (m, _) \<leftarrow> bson_set_element m (cstr ''id'') (Some input) off_id;
          (m, _) \<leftarrow> (if result_errno = 0 then
                 (case result of
                    Some r \<Rightarrow> bson_set_subdocument m (cstr ''result'') r
                  | None \<Rightarrow> bson_set_null m (cstr ''result''))
               else do { e \<leftarrow> error_document result_errno; bson_set_subdocument m (cstr ''error'') e });
          m }"

text \<open>The reply is written, the job and the result are freed and the output is sent and freed.\<close>

definition emit_reply :: "mem \<Rightarrow> int \<Rightarrow> mem option \<Rightarrow> int \<Rightarrow> int \<Rightarrow> 'w rpc \<Rightarrow> 'w rpc option" where
  "emit_reply job off_id result result_errno reply_len s =
     do { output \<leftarrow> write_reply job off_id result result_errno (replicate (nat reply_len) 0);
          let s = rpc_free (Some job) s;
          let s = (if result_errno = 0 then rpc_free result s else s);
          Some (rpc_free (Some output) (s\<lparr>sent := sent s @ [(output, SOURCE_PACKETIZED)]\<rparr>)) }"

text \<open>The second turn of the loop is with an error, so there is no third.\<close>

definition send_reply :: "allocator \<Rightarrow> mem \<Rightarrow> int \<Rightarrow> mem option \<Rightarrow> int \<Rightarrow> 'w rpc \<Rightarrow> 'w rpc option" where
  "send_reply malloc job off_id result result_errno s =
     do { n \<leftarrow> reply_size job off_id result result_errno;
          case rpc_malloc malloc (word_of_int n) s of
            (s, True) \<Rightarrow> emit_reply job off_id result result_errno n s
          | (s, False) \<Rightarrow>
              if result_errno \<noteq> 0 then Some (rpc_free (Some job) s)
              else do {
                let s = rpc_free result s;
                n \<leftarrow> reply_size job off_id None JSONRPC_ERR_INTERNAL_ERROR;
                case rpc_malloc malloc (word_of_int n) s of
                  (s, True) \<Rightarrow> emit_reply job off_id None JSONRPC_ERR_INTERNAL_ERROR n s
                | (s, False) \<Rightarrow> Some (rpc_free (Some job) s) } }"

section \<open>The service\<close>

definition off_of :: "byte list \<Rightarrow> props \<Rightarrow> int" where
  "off_of k ps = the (map_of ps k)"

text \<open>The call of a method: the result, the error number and whether the job is now the method's.\<close>

definition call_method ::
    "'w rpc_method \<Rightarrow> mem \<Rightarrow> mem option \<Rightarrow> 'w rpc \<Rightarrow> ('w rpc \<times> mem option \<times> int \<times> bool) option" where
  "call_method f job params s =
     (case f of
        Sync g \<Rightarrow>
          do { (result, errno, w) \<leftarrow> g params (world s);
               Some (s\<lparr>world := w, blocks := (if result = None then blocks s else blocks s + 1)\<rparr>, result, errno, False) }
      | Async g \<Rightarrow>
          do { (errno, w) \<leftarrow> g params (world s);
               Some (if errno = 0 then (s\<lparr>world := w, async_jobs := async_jobs s @ [job]\<rparr>, None, 0, True)
                     else (s\<lparr>world := w\<rparr>, None, errno, False)) })"

text \<open>A document that is not version 2.0 or names no method.\<close>

definition request_method :: "mem \<Rightarrow> int \<Rightarrow> int \<Rightarrow> int option option" where
  "request_method job off_jsonrpc off_method =
     do { v \<leftarrow> bson_get_string (Some job) off_jsonrpc;
          ok \<leftarrow> (case v of None \<Rightarrow> Some False | Some p \<Rightarrow> c_streq job p PERIDOT_RPCSRV_JSONRPC_VER);
          if ok then bson_get_string (Some job) off_method else Some None }"

definition serve :: "allocator \<Rightarrow> mem \<Rightarrow> props \<Rightarrow> 'w rpc \<Rightarrow> 'w rpc option" where
  "serve malloc job ps s =
     do { m \<leftarrow> request_method job (off_of (cstr ''jsonrpc'') ps) (off_of (cstr ''method'') ps);
          let off_id = off_of (cstr ''id'') ps;
          case m of
            None \<Rightarrow> send_reply malloc job off_id None JSONRPC_ERR_INVALID_REQUEST s
          | Some p \<Rightarrow>
              do { entry \<leftarrow> peridot_rpc_server_find_method job p (methods s);
                   (s, result, errno, kept) \<leftarrow>
                     (case entry of
                        Some f \<Rightarrow>
                          do { params \<leftarrow> bson_get_subdocument (Some job) (off_of (cstr ''params'') ps);
                               call_method f job (map_option (\<lambda>q. drop (nat q) job) params) s }
                      | None \<Rightarrow> Some (s, None, JSONRPC_ERR_METHOD_NOT_FOUND, False));
                   if kept then Some s
                   else if off_id < 0 then Some (rpc_free (Some job) (rpc_free result s))
                   else send_reply malloc job off_id result (if result = None then errno else 0) s } }"

text \<open>One turn of the worker. \<open>junk\<close> is what the uninitialised offsets hold. A wait on a semaphore of
  value 0 does not return.\<close>

definition peridot_rpc_server_service :: "allocator \<Rightarrow> int \<Rightarrow> 'w rpc \<Rightarrow> 'w rpc option" where
  "peridot_rpc_server_service malloc junk s =
     (if r_sem s = 0 then None
      else
        let job = pending_job s; s = s\<lparr>r_sem := r_sem s - 1, pending_job := None\<rparr> in
        case job of
          None \<Rightarrow> Some s
        | Some job \<Rightarrow>
            do { (n, ps) \<leftarrow> bson_get_props (Some job)
                   [(cstr ''jsonrpc'', junk), (cstr ''method'', junk), (cstr ''params'', junk), (cstr ''id'', junk)];
                 if n \<le> 0 then send_reply malloc job (off_of (cstr ''id'') ps) None JSONRPC_ERR_PARSE_ERROR s
                 else serve malloc job ps s })"

definition peridot_rpc_server_async_callback ::
    "allocator \<Rightarrow> int \<Rightarrow> mem \<Rightarrow> mem option \<Rightarrow> int \<Rightarrow> 'w rpc \<Rightarrow> 'w rpc option" where
  "peridot_rpc_server_async_callback malloc junk job result result_errno s =
     do { let s = s\<lparr>async_jobs := remove1 job (async_jobs s)\<rparr>;
          (n, ps) \<leftarrow> bson_get_props (Some job) [(cstr ''id'', junk)];
          if n = 1 then send_reply malloc job (off_of (cstr ''id'') ps) result result_errno s
          else Some (rpc_free (Some job) (rpc_free result s)) }"

end
