(* ===== verification/Rpc_Props.thy ===== *)
theory Rpc_Props
  imports Rpc_Server Hostbridge_Props Bson_Props
begin

text \<open>
  Properties of the RPC server: a framed document becomes a job; what a packet with a false length
  does to the heap; the reply to a request, its errors, and the ownership of every block.
\<close>

section \<open>Receiving\<close>

lemma sink_append:
  assumes "peridot_rpc_server_sink malloc (xs @ ys) s = Some (s', int (length (xs @ ys)))"
  shows "\<exists>s1. peridot_rpc_server_sink malloc xs s = Some (s1, int (length xs)) \<and>
    peridot_rpc_server_sink malloc ys s1 = Some (s', int (length ys))"
  using assms by (induction xs arbitrary: s) (auto simp: bind_eq_Some_conv split: if_splits)

lemma sink_join:
  assumes "peridot_rpc_server_sink malloc xs s = Some (s1, int (length xs))"
    "peridot_rpc_server_sink malloc ys s1 = Some (s', n)"
  shows "peridot_rpc_server_sink malloc (xs @ ys) s = Some (s', int (length xs) + n)"
  using assms by (induction xs arbitrary: s) (auto simp: bind_eq_Some_conv split: if_splits)

text \<open>An escaped byte, however it is written, reaches \<open>rpc_inside\<close> as itself.\<close>

lemma sink_esc:
  assumes "\<not> r_escape s" "pending_job s = None" "rpc_inside malloc b s = Some s'"
  shows "peridot_rpc_server_sink malloc (esc b) s = Some (s', int (length (esc b)))"
proof (cases "AST_NEEDS_ESCAPE b")
  case True
  then have "b XOR 0x20 \<noteq> AST_SOP" "b XOR 0x20 \<noteq> AST_EOP_PREFIX" "b XOR 0x20 \<noteq> AST_ESCAPE_PREFIX"
    by (auto simp: esc_special ast_defs)
  moreover have "rpc_inside malloc b (s\<lparr>r_escape := False\<rparr>) = rpc_inside malloc b s"
    by (rule arg_cong [where f = "rpc_inside malloc b"]) (use assms(1) in simp)
  moreover have "(b XOR AST_ESCAPE_XOR) XOR AST_ESCAPE_XOR = b" by (simp add: xor.assoc)
  ultimately show ?thesis using True assms
    by (simp add: esc_def rpc_byte_def AST_ESCAPE_XOR_def) (simp add: ast_defs)
next
  case False
  then show ?thesis using assms by (simp add: esc_def rpc_byte_def esc_special)
qed

text \<open>The state when the first \<open>k\<close> bytes of \<open>doc\<close> have arrived.\<close>

definition received :: "byte list \<Rightarrow> nat \<Rightarrow> 'w rpc \<Rightarrow> 'w rpc" where
  "received doc k s =
     (let s = s\<lparr>r_inside := True, r_eop := False, r_offset := of_nat k,
        r_length := take (min k 4) doc @ drop (min k 4) (r_length s)\<rparr> in
      if k < 4 then s
      else s\<lparr>incoming_job := Some (take k doc @ replicate (length doc - k) 0),
             mallocs := mallocs s + 1, blocks := blocks s + 1\<rparr>)"

definition rpc_idle :: "'w rpc \<Rightarrow> bool" where
  "rpc_idle s \<longleftrightarrow> \<not> r_escape s \<and> incoming_job s = None \<and> pending_job s = None \<and> length (r_length s) = 4"

definition request_ok :: "byte list \<Rightarrow> bool" where
  "request_ok doc \<longleftrightarrow> 5 \<le> length doc \<and> length doc \<le> 65536 \<and> take 4 doc = int_object (int (length doc))"

lemma unat_count: "k \<le> 65536 \<Longrightarrow> unat (of_nat k :: u32) = k"
  by (simp add: unat_of_nat take_bit_nat_eq_self)

lemma count_eq: "k \<le> 65536 \<Longrightarrow> n \<le> 65536 \<Longrightarrow> (of_nat k :: u32) = of_nat n \<longleftrightarrow> k = n"
  by (metis unat_count)

lemma count_le: "k \<le> 65536 \<Longrightarrow> n \<le> 65536 \<Longrightarrow> (of_nat k :: u32) \<le> of_nat n \<longleftrightarrow> k \<le> n"
  by (simp add: word_le_nat_alt unat_count)

lemma count_less: "k \<le> 65536 \<Longrightarrow> n \<le> 65536 \<Longrightarrow> (of_nat k :: u32) < of_nat n \<longleftrightarrow> k < n"
  by (simp add: word_less_nat_alt unat_count)

lemma read_length: "length xs = 4 \<Longrightarrow> \<exists>v. read_unaligned_int xs 0 = Some v"
  using read_unaligned_int_defined [of 0 xs] by auto

lemma request_lengths: "request_ok doc \<Longrightarrow> 5 \<le> length doc" "request_ok doc \<Longrightarrow> length doc \<le> 65536"
  by (simp_all add: request_ok_def)

lemma read_request_length:
  "request_ok doc \<Longrightarrow> read_unaligned_int (take 4 doc) 0 = Some (int (length doc))"
  using read_int_object [of 0 "[]" "int (length doc)" "[]"] by (simp add: request_ok_def cint_simps)

lemma new_job_request:
  assumes "request_ok doc"
  shows "new_job (int (length doc)) = Some (take 4 doc @ replicate (length doc - 4) 0)"
proof -
  have sz: "unat (JOB_HEADER + of_nat (length doc)) = 8 + length doc"
  proof -
    have "JOB_HEADER + of_nat (length doc) = (of_nat (8 + length doc) :: u32)"
      by (simp add: JOB_HEADER_def)
    then have "unat (JOB_HEADER + of_nat (length doc)) = unat (of_nat (8 + length doc) :: u32)"
      by (rule arg_cong)
    also have "\<dots> = 8 + length doc"
      by (rule of_nat_inverse [OF refl]) (use request_lengths [OF assms] in simp)
    finally show ?thesis .
  qed
  have r: "replicate (8 + length doc) (0 :: byte) =
      replicate 4 0 @ replicate 4 0 @ replicate 4 0 @ replicate (length doc - 4) 0"
    using assms by (simp add: replicate_add [symmetric] request_ok_def)
  have 1: "wr_block (replicate (8 + length doc) 0) 4 (replicate 4 0) = Some (replicate (8 + length doc) 0)"
    unfolding r by (rule wr_block_at) simp_all
  have 2: "wr_block (replicate (8 + length doc) 0) 8 (take 4 doc) =
      Some (replicate 4 0 @ replicate 4 0 @ take 4 doc @ replicate (length doc - 4) 0)"
    using wr_block_at [of 8 "replicate 4 0 @ replicate 4 0" "replicate 4 0" "take 4 doc"] assms
    unfolding r by (simp add: request_ok_def)
  show ?thesis using assms 2 by (simp add: new_job_def sz 1 request_ok_def)
qed

lemma upd_next: "k < length xs \<Longrightarrow> k < length ys \<Longrightarrow> (take k xs @ drop k ys)[k := xs ! k] = take (Suc k) xs @ drop (Suc k) ys"
  by (metis (no_types, lifting) Cons_nth_drop_Suc append.assoc append_Cons append_Nil length_take
      less_imp_le_nat list_update_length min.absorb2 take_Suc_conv_app_nth)

lemma received_take_length:
  assumes "rpc_idle s" "request_ok doc" "k < 4" "malloc (mallocs s) (JOB_HEADER + of_nat (length doc))"
  shows "rpc_inside malloc (doc ! k) (received doc k s) = Some (received doc (Suc k) s)"
proof -
  define L L' where "L = take k doc @ drop k (r_length s)" and "L' = take (Suc k) doc @ drop (Suc k) (r_length s)"
  have l: "L[k := doc ! k] = L'" "length L' = 4"
    using upd_next [of k doc "r_length s"] assms(1,3) request_lengths(1) [OF assms(2)]
    by (simp_all add: rpc_idle_def L_def L'_def)
  from read_length [OF l(2)] obtain v where v: "read_unaligned_int L' 0 = Some v" by blast
  have o: "(of_nat k :: u32) < 4" "(1 + of_nat k :: u32) = 4 \<longleftrightarrow> k = 3" "unat (of_nat k :: u32) = k"
    using count_less [of k 4] count_eq [of "Suc k" 4] assms(3) by (auto simp: unat_count)
  have m: "min k 4 = k" "min (Suc k) 4 = Suc k" using assms(3) by auto
  show ?thesis
  proof (cases "k = 3")
    case False
    with assms(3) have "\<not> 4 \<le> k" "\<not> 4 \<le> Suc k" by auto
    with False o v show ?thesis
      by (simp add: rpc_inside_def received_def Let_def take_length_def finish_packet_def m
          L_def [symmetric] L'_def [symmetric] l add.commute)
  next
    case True
    have "drop 4 (r_length s) = []" using assms(1) by (simp add: rpc_idle_def)
    with True have "L' = take 4 doc" by (simp add: L'_def)
    with v read_request_length [OF assms(2)] have v': "v = int (length doc)" by simp
    have L3: "take 3 doc @ drop 3 (r_length s) = L" "L[3 := doc ! 3] = L'" "min 3 4 = (3 :: nat)" "unat (3 :: u32) = 3"
      "take 4 doc @ drop 4 (r_length s) = L'" "(3 :: u32) < 4"
      using True l(1) by (simp_all add: L_def L'_def)
    show ?thesis
      using v assms(1,4) new_job_request [OF assms(2)] request_lengths [OF assms(2)] \<open>L' = take 4 doc\<close>
      unfolding True
      by (simp add: rpc_inside_def received_def Let_def take_length_def finish_packet_def v' L3
          alloc_job_def rpc_malloc_def PERIDOT_RPCSRV_MAX_REQUEST_LENGTH_def)
  qed
qed

text \<open>A byte of the data; \<open>eop\<close> says whether it is the last.\<close>

lemma take_data_step:
  assumes "rpc_idle s" "request_ok doc" "4 \<le> k" "k < length doc"
  shows "rpc_inside malloc (doc ! k) (received doc k s\<lparr>r_eop := eop\<rparr>) =
    Some (finish_packet (int (length doc)) (received doc (Suc k) s\<lparr>r_eop := eop\<rparr>))"
proof -
  have n: "k \<le> 65536" "length doc \<le> 65536" using request_lengths [OF assms(2)] assms(4) by simp_all
  have o: "\<not> (of_nat k :: u32) < 4" "\<not> (of_nat (length doc) :: u32) \<le> of_nat k" "uint (of_nat k :: u32) = int k"
    using count_less [of k 4] count_le [of "length doc" k] assms(3,4) n by (simp_all add: uint_nat unat_count)
  have d: "drop 4 (r_length s) = []" using assms(1) by (simp add: rpc_idle_def)
  have z: "replicate (length doc - k) (0 :: byte) = 0 # replicate (length doc - Suc k) 0"
    using assms(4) by (simp add: Suc_diff_Suc replicate_Suc [symmetric] del: replicate_Suc)
  have w: "wr (take k doc @ replicate (length doc - k) 0) (int k) (doc ! k) =
      Some (take (Suc k) doc @ replicate (length doc - Suc k) 0)"
    unfolding z using assms(4) wr_at [of "int k" "take k doc" 0 _ "doc ! k"] by (simp add: take_Suc_conv_app_nth)
  have m: "min k 4 = 4" "min (Suc k) 4 = 4" using assms(3) by auto
  show ?thesis
    using assms(3) o w by (simp add: rpc_inside_def take_data_def received_def Let_def m d
        read_request_length [OF assms(2)] add.commute)
      (rule arg_cong [where f = "finish_packet _"], rule rpc.equality; simp)
qed

lemma received_step:
  assumes "rpc_idle s" "request_ok doc" "Suc k < length doc"
    "malloc (mallocs s) (JOB_HEADER + of_nat (length doc))"
  shows "peridot_rpc_server_sink malloc (esc (doc ! k)) (received doc k s) =
    Some (received doc (Suc k) s, int (length (esc (doc ! k))))"
proof (rule sink_esc)
  show "rpc_inside malloc (doc ! k) (received doc k s) = Some (received doc (Suc k) s)"
  proof (cases "k < 4")
    case True
    then show ?thesis by (rule received_take_length [where malloc = malloc, OF assms(1,2) _ assms(4)])
  next
    case False
    have e: "received doc j s\<lparr>r_eop := False\<rparr> = received doc j s" for j
      by (simp add: received_def Let_def)
    from take_data_step [OF assms(1,2), of k malloc False] False assms(3) show ?thesis
      unfolding e by (simp add: finish_packet_def received_def Let_def)
  qed
qed (use assms(1) in \<open>simp_all add: received_def rpc_idle_def Let_def\<close>)

lemma received_prefix:
  assumes "rpc_idle s" "request_ok doc" "malloc (mallocs s) (JOB_HEADER + of_nat (length doc))"
  shows "k < length doc \<Longrightarrow>
    peridot_rpc_server_sink malloc (concat (map esc (take k doc))) (received doc 0 s) =
      Some (received doc k s, int (length (concat (map esc (take k doc)))))"
proof (induction k)
  case (Suc k)
  from sink_join [OF Suc.IH received_step [where malloc = malloc, OF assms(1,2) Suc.prems assms(3)]] Suc.prems
  show ?case by (simp add: take_Suc_conv_app_nth)
qed simp

text \<open>The state with the job pending.\<close>

definition delivered :: "byte list \<Rightarrow> 'w rpc \<Rightarrow> 'w rpc" where
  "delivered doc s = s\<lparr>r_inside := False, r_eop := False, r_offset := 0, r_length := take 4 doc,
     pending_job := Some doc, r_sem := r_sem s + 1, mallocs := mallocs s + 1, blocks := blocks s + 1\<rparr>"

lemma sink_frame:
  assumes "rpc_idle s" "request_ok doc" "malloc (mallocs s) (JOB_HEADER + of_nat (length doc))"
  shows "peridot_rpc_server_sink malloc (frame doc) s = Some (delivered doc s, int (length (frame doc)))"
proof -
  define k where "k = length doc - 1"
  have k: "Suc k = length doc" "4 \<le> k" "k < length doc" using request_lengths(1) [OF assms(2)] by (auto simp: k_def)
  have doc: "doc = take k doc @ [doc ! k]" using k(3) take_Suc_conv_app_nth [OF k(3)] k(1) by simp
  have f: "frame doc = AST_SOP # concat (map esc (take k doc)) @ AST_EOP_PREFIX # esc (doc ! k)"
    using frame_snoc [of "take k doc" "doc ! k"] doc by simp
  have start: "peridot_rpc_server_sink malloc [AST_SOP] s = Some (received doc 0 s, int (length [AST_SOP]))"
    using assms(1) by (simp add: rpc_byte_def received_def Let_def rpc_idle_def)
  have eop: "peridot_rpc_server_sink malloc [AST_EOP_PREFIX] (received doc k s) =
      Some (received doc k s\<lparr>r_eop := True\<rparr>, int (length [AST_EOP_PREFIX]))"
    using assms(1) by (simp add: rpc_byte_def received_def Let_def rpc_idle_def ast_defs)
  have fin: "finish_packet (int (length doc)) (received doc (Suc k) s\<lparr>r_eop := True\<rparr>) = delivered doc s"
    using k assms(1) by (simp add: finish_packet_def received_def delivered_def Let_def next_packet_def rpc_idle_def)
  have last: "peridot_rpc_server_sink malloc (esc (doc ! k)) (received doc k s\<lparr>r_eop := True\<rparr>) =
      Some (delivered doc s, int (length (esc (doc ! k))))"
    using take_data_step [OF assms(1,2) k(2,3), of malloc True] assms(1)
    by (intro sink_esc) (simp_all add: fin, simp_all add: received_def Let_def rpc_idle_def)
  from sink_join [OF start sink_join [OF received_prefix [where malloc = malloc, OF assms k(3)] sink_join [OF eop last]]]
  show ?thesis unfolding f by simp
qed

text \<open>C17: A document sent as one packet, in any two pieces, is taken completely and without undefined
  behaviour, and is then the pending job, byte for byte, with one post of the semaphore and one block
  more. While it is pending the sink takes nothing.\<close>

theorem rpc_sink_receives:
  assumes "rpc_idle s" "request_ok doc" "malloc (mallocs s) (JOB_HEADER + of_nat (length doc))"
    "xs @ ys = frame doc"
  shows "\<exists>s1 s2. peridot_rpc_server_sink malloc xs s = Some (s1, int (length xs)) \<and>
    peridot_rpc_server_sink malloc ys s1 = Some (s2, int (length ys)) \<and>
    pending_job s2 = Some doc \<and> r_sem s2 = r_sem s + 1 \<and> blocks s2 = blocks s + 1 \<and>
    rpc_idle (s2\<lparr>pending_job := None\<rparr>) \<and> (\<forall>zs. peridot_rpc_server_sink malloc zs s2 = Some (s2, 0))"
proof -
  have "peridot_rpc_server_sink malloc (xs @ ys) s = Some (delivered doc s, int (length (xs @ ys)))"
    unfolding assms(4) by (rule sink_frame) (rule assms)+
  from sink_append [OF this] obtain s1 where
    "peridot_rpc_server_sink malloc xs s = Some (s1, int (length xs))"
    "peridot_rpc_server_sink malloc ys s1 = Some (delivered doc s, int (length ys))" by blast
  moreover have "peridot_rpc_server_sink malloc zs (delivered doc s) = Some (delivered doc s, 0)" for zs
    by (cases zs) (simp_all add: delivered_def)
  moreover have "rpc_idle (delivered doc s\<lparr>pending_job := None\<rparr>)"
    using assms(1) request_lengths(1) [OF assms(2)] by (simp add: rpc_idle_def delivered_def)
  ultimately show ?thesis
    by (intro exI [of _ s1] exI [of _ "delivered doc s"]) (simp add: delivered_def)
qed

text \<open>The server after \<open>init\<close>, with its static state zero and some methods.\<close>

definition rpc_boot :: "'w method_entry list \<Rightarrow> 'w \<Rightarrow> 'w rpc" where
  "rpc_boot ms w = \<lparr>r_escape = False, r_eop = False, r_inside = False, r_offset = 0, r_length = [0, 0, 0, 0],
     incoming_job = None, pending_job = None, r_sem = 0, methods = ms, mallocs = 0, blocks = 0,
     async_jobs = [], sent = [], world = w\<rparr>"

lemma rpc_boot_idle: "rpc_idle (rpc_boot ms w)"
  by (simp add: rpc_boot_def rpc_idle_def)

lemma request_ok_example: "request_ok bson_empty_document"
  by (simp add: request_ok_def bson_empty_document_def int_object_def)

theorem rpc_sink_receives_witness:
  "\<exists>s1 s2. peridot_rpc_server_sink (\<lambda>_ _. True) [0x7a, 5, 0] (rpc_boot [] ()) = Some (s1, 3) \<and>
    peridot_rpc_server_sink (\<lambda>_ _. True) [0, 0, 0x7b, 0] s1 = Some (s2, 4) \<and>
    pending_job s2 = Some [5, 0, 0, 0, 0]"
proof -
  have "[0x7a, 5, 0] @ [0, 0, 0x7b, 0] = frame bson_empty_document"
    by (simp add: frame_def bson_empty_document_def esc_def AST_NEEDS_ESCAPE_def ast_defs)
  from rpc_sink_receives [OF rpc_boot_idle request_ok_example _ this, of "\<lambda>_ _. True" "[]" "()"]
  obtain s1 s2 where
    "peridot_rpc_server_sink (\<lambda>_ _. True) [0x7a, 5, 0] (rpc_boot [] ()) = Some (s1, int (length [0x7a, 5, 0 :: byte]))"
    "peridot_rpc_server_sink (\<lambda>_ _. True) [0, 0, 0x7b, 0] s1 = Some (s2, int (length [0, 0, 0x7b, 0 :: byte]))"
    "pending_job s2 = Some bson_empty_document" by blast
  then show ?thesis
    by (intro exI [of _ s1] exI [of _ s2]) (simp add: bson_empty_document_def del: peridot_rpc_server_sink.simps)
qed

lemmas sink_eval = rpc_byte_def rpc_inside_def take_length_def take_data_def finish_packet_def
  drop_packet_def next_packet_def alloc_job_def rpc_malloc_def rpc_free_def new_job_def ast_defs

lemma packet_start:
  "read_unaligned_int [3, 0, 0, 0] 0 = Some 3" "read_unaligned_int [5, 0, 0, 0] 0 = Some 5"
  "read_unaligned_int [0xff, 0xff, 0xff, 0xff] 0 = Some (-1)"
  "read_unaligned_int [0xff, 0xff, 0xff, 0x7f] 0 = Some 2147483647"
  by code_simp+

lemma new_job_cases: "new_job 3 = None" "new_job (-1) = None" "new_job 5 = Some [5, 0, 0, 0, 0]"
  by code_simp+

lemma lose_block:
  assumes "pending_job s = None" "\<not> r_escape s" "length (r_length s) = 4"
  shows "\<exists>s'. peridot_rpc_server_sink (\<lambda>_ _. True) [0x7a, 5, 0, 0, 0] s = Some (s', 5) \<and>
    blocks s' = blocks s + 1 \<and> pending_job s' = None \<and> \<not> r_escape s' \<and> length (r_length s') = 4"
proof -
  obtain a b c d where "r_length s = [a, b, c, d]" using assms(3) by (auto simp: length_Suc_conv eval_nat_numeral)
  with assms show ?thesis
    using read_length [of "[5, b, c, d]"] read_length [of "[5, 0, c, d]"] read_length [of "[5, 0, 0, d]"]
    by (auto simp: rpc_byte_def rpc_inside_def take_length_def finish_packet_def ast_defs packet_start
        alloc_job_def rpc_malloc_def new_job_cases PERIDOT_RPCSRV_MAX_REQUEST_LENGTH_def)
qed

lemma lose_blocks:
  "pending_job s = None \<Longrightarrow> \<not> r_escape s \<Longrightarrow> length (r_length s) = 4 \<Longrightarrow>
   \<exists>s'. peridot_rpc_server_sink (\<lambda>_ _. True) (concat (replicate n [0x7a, 5, 0, 0, 0])) s = Some (s', 5 * int n) \<and>
     blocks s' = blocks s + int n \<and> pending_job s' = None"
proof (induction n arbitrary: s)
  case (Suc n)
  from lose_block [OF Suc.prems] obtain s1 where
    1: "peridot_rpc_server_sink (\<lambda>_ _. True) [0x7a, 5, 0, 0, 0] s = Some (s1, int (length [0x7a, 5, 0, 0, 0 :: byte]))"
    "blocks s1 = blocks s + 1" "pending_job s1 = None" "\<not> r_escape s1" "length (r_length s1) = 4" by auto
  from Suc.IH [OF 1(3-5)] obtain s2 where
    2: "peridot_rpc_server_sink (\<lambda>_ _. True) (concat (replicate n [0x7a, 5, 0, 0, 0])) s1 = Some (s2, 5 * int n)"
    "blocks s2 = blocks s1 + int n" "pending_job s2 = None" by blast
  from sink_join [OF 1(1) 2(1)] 1(2) 2(2,3) show ?case
    by (intro exI [of _ s2]) (simp del: peridot_rpc_server_sink.simps)
qed simp

text \<open>C18: The length of a packet is believed. A length below 4, negative ones included, makes the sink
  write the length word behind its block; a second start of packet with a length above the maximum
  keeps the first block and lets the sink write past its end. Every start of packet inside a packet
  loses a block for good.\<close>

theorem rpc_sink_trusts_length:
  "peridot_rpc_server_sink (\<lambda>_ _. True) [0x7a, 3, 0, 0, 0] (rpc_boot ms w) = None \<and>
   peridot_rpc_server_sink (\<lambda>_ _. True) [0x7a, 0xff, 0xff, 0xff, 0xff] (rpc_boot ms w) = None \<and>
   peridot_rpc_server_sink (\<lambda>_ _. True)
     ([0x7a, 5, 0, 0, 0] @ [0x7a, 0xff, 0xff, 0xff, 0x7f] @ [1, 2]) (rpc_boot ms w) = None \<and>
   (\<exists>s. peridot_rpc_server_sink (\<lambda>_ _. True) (concat (replicate n [0x7a, 5, 0, 0, 0])) (rpc_boot ms w) =
     Some (s, 5 * int n) \<and> blocks s = int n \<and> pending_job s = None)"
proof (intro conjI)
  let ?boot = "rpc_boot ms w"
  note eval = rpc_boot_def rpc_byte_def rpc_inside_def take_length_def take_data_def finish_packet_def ast_defs
    packet_start alloc_job_def rpc_malloc_def new_job_cases PERIDOT_RPCSRV_MAX_REQUEST_LENGTH_def
  have "\<exists>v. read_unaligned_int [x, y, z, t] 0 = Some v" for x y z t by (rule read_length) simp
  then obtain rl where rl: "read_unaligned_int [x, y, z, t] 0 = Some (rl x y z t)" for x y z t by metis
  note r = packet_start [unfolded rl option.inject]
  show "peridot_rpc_server_sink (\<lambda>_ _. True) [0x7a, 3, 0, 0, 0] ?boot = None"
    by (simp add: eval rl r)
  show "peridot_rpc_server_sink (\<lambda>_ _. True) [0x7a, 0xff, 0xff, 0xff, 0xff] ?boot = None"
    by (simp add: eval rl r)
  show "peridot_rpc_server_sink (\<lambda>_ _. True)
     ([0x7a, 5, 0, 0, 0] @ [0x7a, 0xff, 0xff, 0xff, 0x7f] @ [1, 2]) ?boot = None"
    by (simp add: eval rl r wr_def)
  show "\<exists>s. peridot_rpc_server_sink (\<lambda>_ _. True) (concat (replicate n [0x7a, 5, 0, 0, 0])) ?boot =
     Some (s, 5 * int n) \<and> blocks s = int n \<and> pending_job s = None"
    using lose_blocks [of ?boot n] by (simp add: rpc_boot_def)
qed

end
