(* ===== verification/Bson_Members.thy ===== *)
theory Bson_Members
  imports Bson_Props
begin

text \<open>
  Documents as the code that uses \<open>bson.c\<close> sees them: \<open>member es k\<close> is the type and value a name has, and
  the getters, at the offset \<open>bson_get_props\<close> stored, read the member or yield the default when it is
  absent or of another type. No getter leaves a well-formed document. The last sections build documents.
\<close>

section \<open>Members\<close>

fun member :: "elem list \<Rightarrow> byte list \<Rightarrow> (byte \<times> byte list) option" where
  "member [] k = None"
| "member ((t, k', v) # es) k = (if k' = k then Some (t, v) else member es k)"

lemma member_names: "member es k = None \<longleftrightarrow> k \<notin> names es"
proof (induction es)
  case (Cons e es)
  obtain t k' v where "e = (t, k', v)" by (cases e)
  with Cons show ?case by (simp add: names_def)
qed (simp add: names_def)

lemma member_off: "member es k = None \<Longrightarrow> first_off 4 es k = -1"
  by (simp add: member_names first_off_absent)

lemma member_split:
  "member es k = Some (t, v) \<Longrightarrow>
   \<exists>es1 es2. es = es1 @ (t, k, v) # es2 \<and> first_off d es k = d + int (length (enc_body es1))"
proof (induction es arbitrary: d)
  case (Cons e es)
  obtain t' k' v' where e: "e = (t', k', v')" by (cases e)
  show ?case
  proof (cases "k' = k")
    case True
    with Cons.prems e show ?thesis by (intro exI [of _ "[]"] exI [of _ es]) simp
  next
    case False
    with Cons.prems e have "member es k = Some (t, v)" by simp
    from Cons.IH [OF this, of "d + int (length (enc_elem e))"] obtain es1 es2 where
      "es = es1 @ (t, k, v) # es2"
      "first_off (d + int (length (enc_elem e))) es k = d + int (length (enc_elem e)) + int (length (enc_body es1))"
      by blast
    with False e show ?thesis by (intro exI [of _ "e # es1"] exI [of _ es2]) simp
  qed
qed simp

lemma member_elem_at:
  "is_doc m es \<Longrightarrow> member es k = Some (t, v) \<Longrightarrow> elem_at m es (first_off 4 es k) (t, k, v)"
  using member_split [of es k t v 4] by (auto simp: elem_at_def)

lemma elem_at_off: "elem_at m es off e \<Longrightarrow> 4 \<le> off"
  by (auto simp: elem_at_def)

section \<open>The offsets of the names\<close>

lemma off_nonneg: "0 \<le> first_off 4 es k \<longleftrightarrow> member es k \<noteq> None"
  using first_off_present [of k es 4] member_off [of es k] member_names [of es k] by (cases "member es k") auto

lemma get_props_members:
  assumes "is_doc m es" "distinct ks" "\<forall>k \<in> set ks. name_ok k"
  shows "bson_get_props (Some m) (map (\<lambda>k. (k, junk)) ks) =
    Some (int (length (filter (\<lambda>k. member es k \<noteq> None) ks)), map (\<lambda>k. (k, first_off 4 es k)) ks)"
proof -
  have f: "map fst (map (\<lambda>k. (k, junk)) ks) = ks" by (simp add: comp_def)
  have "keys_ok (map (\<lambda>k. (k, junk)) ks)" using assms(3) by (auto simp: keys_ok_def)
  from get_props_finds [OF assms(1) _ this] assms(2) show ?thesis by (simp only: f off_nonneg)
qed

section \<open>The getters\<close>

lemma seek_data_absent: "member es k = None \<Longrightarrow> seek_data (Some m) (first_off 4 es k) types = Some None"
  by (simp add: seek_data_def member_off)

lemma seek_data_other:
  assumes "elem_at m es off (ty, k, v)"
    "sint ty \<noteq> uint (types AND 0xff)" "sint ty \<noteq> uint (drop_bit 8 types)"
  shows "seek_data (Some m) off types = Some None"
proof -
  from assms(1) obtain pre rest where *: "m = pre @ ty # k @ 0 # v @ rest" "off = int (length pre)"
    "4 \<le> off" "off + 2 + int (length k) + int (length v) < int (doc_size es)"
    "read_unaligned_int m 0 = Some (int (doc_size es))" "rd m (int (doc_size es) - 1) = Some 0"
    by (rule elem_atE)
  have "rd m off = Some ty" unfolding *(1) using *(2) by (rule rd_at)
  with * assms(2,3) show ?thesis by (simp add: seek_data_def)
qed

text \<open>A getter of one type sees the member of that type or nothing.\<close>

lemma seek_member:
  assumes "is_doc m es" "uint (types AND 0xff) = sint t" "uint (drop_bit 8 types) = sint t"
  shows "(\<exists>pre v rest. member es k = Some (t, v) \<and> m = pre @ v @ rest \<and> value_ok t v \<and>
        int (length pre) + int (length v) < int (doc_size es) \<and>
        seek_data (Some m) (first_off 4 es k) types = Some (Some (int (length pre), int (doc_size es)))) \<or>
    (\<nexists>v. member es k = Some (t, v)) \<and> seek_data (Some m) (first_off 4 es k) types = Some None"
proof (cases "member es k")
  case None
  then show ?thesis by (simp add: seek_data_absent)
next
  case (Some tv)
  obtain t' v where tv: "tv = (t', v)" by (cases tv)
  from member_elem_at [OF assms(1)] Some tv have at: "elem_at m es (first_off 4 es k) (t', k, v)" by simp
  show ?thesis
  proof (cases "t' = t")
    case True
    have "value_ok t' v" using at by (rule elem_atE)
    with True seek_data_elem [OF at, of types] assms(2,3) show ?thesis by (auto simp: Some tv)
  next
    case False
    then have "sint t' \<noteq> sint t" by (auto dest: signed_word_eqI)
    with seek_data_other [OF at, of types] assms(2,3) False show ?thesis by (simp add: Some tv)
  qed
qed

definition int_member :: "elem list \<Rightarrow> byte list \<Rightarrow> int \<Rightarrow> int" where
  "int_member es k d =
     (case member es k of Some (t, v) \<Rightarrow> if t = 0x10 then the (read_unaligned_int v 0) else d | None \<Rightarrow> d)"

text \<open>The two cases for a getter, the member at its place in the object or none.\<close>

lemma seek_cases:
  assumes "is_doc m es" "uint (types AND 0xff) = sint t" "uint (drop_bit 8 types) = sint t"
  obtains (here) pre v rest where "member es k = Some (t, v)" "m = pre @ v @ rest" "value_ok t v"
      "int (length pre) + int (length v) < int (doc_size es)"
      "seek_data (Some m) (first_off 4 es k) types = Some (Some (int (length pre), int (doc_size es)))"
    | (none) "\<And>v. member es k \<noteq> Some (t, v)" "seek_data (Some m) (first_off 4 es k) types = Some None"
  using seek_member [OF assms, of k] by blast

lemma get_int32_member:
  assumes "is_doc m es"
  shows "bson_get_int32 (Some m) (first_off 4 es k) d = Some (int_member es k d)"
proof (rule seek_cases [OF assms, of "0x1010" "0x10" k])
  fix pre v rest
  assume *: "member es k = Some (0x10, v)" "m = pre @ v @ rest" "value_ok 0x10 v"
    "seek_data (Some m) (first_off 4 es k) 0x1010 = Some (Some (int (length pre), int (doc_size es)))"
  from *(3) have "length v = 4" by (simp add: value_ok_def)
  then obtain x where x: "read_unaligned_int v 0 = Some x" using read_unaligned_int_defined [of 0 v] by auto
  have "read_unaligned_int m (int (length pre)) = Some x" unfolding *(2) by (rule read_mid [OF x refl])
  with * x show ?thesis by (simp add: bson_get_int32_def int_member_def)
next
  assume "\<And>v. member es k \<noteq> Some (0x10, v)" "seek_data (Some m) (first_off 4 es k) 0x1010 = Some None"
  then show ?thesis by (auto simp: bson_get_int32_def int_member_def split: option.split)
qed simp_all

lemma int_member_s32:
  assumes "is_doc m es" "is_s32 d"
  shows "is_s32 (int_member es k d)"
proof (rule seek_cases [OF assms(1), of "0x1010" "0x10" k])
  fix pre v rest
  assume *: "member es k = Some (0x10, v)" "value_ok 0x10 v"
  from *(2) have "length v = 4" by (simp add: value_ok_def)
  then obtain x where x: "read_unaligned_int v 0 = Some x" using read_unaligned_int_defined [of 0 v] by auto
  with * read_unaligned_int_s32 [OF x] show ?thesis by (simp add: int_member_def)
next
  assume "\<And>v. member es k \<noteq> Some (0x10, v)"
  with assms(2) show ?thesis by (auto simp: int_member_def split: option.split)
qed simp_all

definition string_member :: "elem list \<Rightarrow> byte list \<Rightarrow> byte list option" where
  "string_member es k =
     (case member es k of
        Some (t, v) \<Rightarrow>
          if t = 0x02 \<and> 4 < length v \<and> last v = 0 then Some (takeWhile (\<lambda>b. b \<noteq> 0) (drop 4 v)) else None
      | None \<Rightarrow> None)"

lemma get_string_total:
  assumes "is_doc m es"
  shows "\<exists>r. bson_get_string (Some m) (first_off 4 es k) = Some r \<and>
    (case r of None \<Rightarrow> string_member es k = None
     | Some p \<Rightarrow> \<exists>str. string_member es k = Some str \<and> c_string m p = Some str)"
proof (rule seek_cases [OF assms, of "0x0202" "0x02" k])
  fix pre v rest
  assume *: "member es k = Some (0x02, v)" "m = pre @ v @ rest" "value_ok 0x02 v"
    "int (length pre) + int (length v) < int (doc_size es)"
    "seek_data (Some m) (first_off 4 es k) 0x0202 = Some (Some (int (length pre), int (doc_size es)))"
  from *(3) have v: "4 \<le> length v" "read_unaligned_int v 0 = Some (int (length v) - 4)" by (simp_all add: value_ok_def)
  have len: "read_unaligned_int m (int (length pre)) = Some (int (length v) - 4)"
    unfolding *(2) by (rule read_mid [OF v(2) refl])
  show ?thesis
  proof (cases "4 < length v")
    case False
    with * v len show ?thesis by (simp add: bson_get_string_def string_member_def)
  next
    case True
    then obtain w z where w: "v = w @ [z]" by (cases v rule: rev_cases) auto
    have z: "rd m (int (length pre) + 4 + (int (length v) - 4) - 1) = Some z"
      using rd_at [of "int (length pre) + 4 + (int (length v) - 4) - 1" "pre @ w" z rest] by (simp add: *(2) w)
    have d: "drop 4 v = drop 4 w @ [z]" using True by (simp add: w)
    have "c_string m (int (length pre) + 4) = Some (takeWhile (\<lambda>b. b \<noteq> 0) (drop 4 v))" if "z = 0"
    proof -
      have "drop (nat (int (length pre) + 4)) m = drop 4 v @ rest"
        using True by (simp add: *(2) nat_add_distrib)
      then have dm: "drop (nat (int (length pre) + 4)) m = drop 4 w @ 0 # rest" by (simp add: d that)
      have "takeWhile (\<lambda>b. b \<noteq> 0) (ys @ 0 # rs) = takeWhile (\<lambda>b. b \<noteq> 0) (ys @ [0])" for ys rs :: "byte list"
        by (induction ys) auto
      then show ?thesis by (simp only: c_string_def dm d that) simp
    qed
    with * len True z show ?thesis by (auto simp: bson_get_string_def string_member_def w)
  qed
next
  assume "\<And>v. member es k \<noteq> Some (0x02, v)" "seek_data (Some m) (first_off 4 es k) 0x0202 = Some None"
  then show ?thesis by (auto simp: bson_get_string_def string_member_def split: option.split)
qed simp_all

definition binary_member :: "elem list \<Rightarrow> byte list \<Rightarrow> byte list option" where
  "binary_member es k =
     (case member es k of
        Some (t, v) \<Rightarrow> if t = 0x05 \<and> 5 < length v then Some (drop 5 v) else None
      | None \<Rightarrow> None)"

lemma get_binary_total:
  assumes "is_doc m es"
  shows "\<exists>r. bson_get_binary (Some m) (first_off 4 es k) = Some r \<and>
    (case r of None \<Rightarrow> binary_member es k = None
     | Some (p, n) \<Rightarrow> \<exists>bs. binary_member es k = Some bs \<and> n = int (length bs) \<and> bs \<noteq> [] \<and>
         length bs < doc_size es \<and> rd_block m p n = Some bs)"
proof (rule seek_cases [OF assms, of "0x0505" "0x05" k])
  fix pre v rest
  assume *: "member es k = Some (0x05, v)" "m = pre @ v @ rest" "value_ok 0x05 v"
    "int (length pre) + int (length v) < int (doc_size es)"
    "seek_data (Some m) (first_off 4 es k) 0x0505 = Some (Some (int (length pre), int (doc_size es)))"
  from *(3) have v: "5 \<le> length v" "read_unaligned_int v 0 = Some (int (length v) - 5)" by (simp_all add: value_ok_def)
  have len: "read_unaligned_int m (int (length pre)) = Some (int (length v) - 5)"
    unfolding *(2) by (rule read_mid [OF v(2) refl])
  have m: "m = (pre @ take 5 v) @ drop 5 v @ rest" by (simp add: *(2))
  have "rd_block m (int (length pre) + 5) (int (length v) - 5) = Some (drop 5 v)"
    unfolding m by (rule rd_block_at) (use v(1) in auto)
  with * v(1) len show ?thesis by (cases "5 < length v") (auto simp: bson_get_binary_def binary_member_def)
next
  assume "\<And>v. member es k \<noteq> Some (0x05, v)" "seek_data (Some m) (first_off 4 es k) 0x0505 = Some None"
  then show ?thesis by (auto simp: bson_get_binary_def binary_member_def split: option.split)
qed simp_all

section \<open>Building documents\<close>

lemma exact_doc: "is_doc m es \<Longrightarrow> length m = doc_size es \<Longrightarrow> m = enc_doc es"
  by (simp add: is_doc_def)

lemma is_doc_enc: "doc_ok es \<Longrightarrow> is_doc (enc_doc es) es"
  by (simp add: is_doc_def)

text \<open>Bytes stored into the binary a writer reserved as the last element.\<close>

lemma fill_last_binary:
  assumes "is_doc m (es @ [(0x05, k, binary_value t bs)])" "short bs" "length new \<le> length bs"
  shows "\<exists>m'. wr_block m (int (doc_size es) + int (length k) + 6) new = Some m' \<and>
    is_doc m' (es @ [(0x05, k, binary_value t (new @ drop (length new) bs))]) \<and> length m' = length m"
proof -
  let ?es = "es @ [(0x05, k, binary_value t bs)]"
  let ?v = "binary_value t (new @ drop (length new) bs)"
  from assms(1) obtain rest where doc: "doc_ok ?es" "m = int_object (int (doc_size ?es)) @ enc_body ?es @ 0 # rest"
    by (rule is_docE)
  define P where "P = int_object (int (doc_size ?es)) @ enc_body es @ 5 # k @ 0 # int_object (int (length bs)) @ [t]"
  define Q where "Q = drop (length new) bs @ 0 # rest"
  have m: "m = P @ take (length new) bs @ Q"
    using append_take_drop_id [of "length new" bs] by (simp add: doc(2) P_def Q_def binary_value_def)
  have l: "length (new @ drop (length new) bs) = length bs" using assms(3) by simp
  have w: "wr_block m (int (doc_size es) + int (length k) + 6) new = Some (P @ new @ Q)"
    unfolding m by (rule wr_block_at) (use assms(3) in \<open>simp_all add: P_def doc_size_def\<close>)
  have sz: "doc_size (es @ [(0x05, k, ?v)]) = doc_size ?es" using l by (simp add: doc_size_def binary_value_def)
  have "doc_ok (es @ [(0x05, k, ?v)])"
    using doc(1) sz value_ok_binary [of "new @ drop (length new) bs" t] l assms(2) by (simp add: doc_ok_def short_def)
  moreover have "P @ new @ Q = enc_doc (es @ [(0x05, k, ?v)]) @ rest"
    using l unfolding enc_doc_def sz by (simp add: P_def Q_def binary_value_def)
  ultimately have "is_doc (P @ new @ Q) (es @ [(0x05, k, ?v)])" unfolding is_doc_iff by blast
  with w show ?thesis using assms(3) by (auto simp: m)
qed

lemma shrink_last_binary_le:
  assumes "is_doc m (es @ [(0x05, k, binary_value t bs)])" "short bs" "n \<le> length bs"
  shows "\<exists>m'. bson_shrink_binary m (int (doc_size es) + int (length k) + 6) (int n) = Some (m', 0) \<and>
    is_doc m' (es @ [(0x05, k, binary_value t (take n bs))]) \<and> length m' = length m"
proof (cases "n < length bs")
  case True
  with shrink_last_binary [OF assms(1,2), of "int n"] show ?thesis by simp
next
  case False
  let ?es = "es @ [(0x05, k, binary_value t bs)]"
  define p where "p = int (doc_size es) + int (length k) + 6"
  from assms(1) obtain rest where doc: "m = int_object (int (doc_size ?es)) @ enc_body ?es @ 0 # rest" by (rule is_docE)
  define P where "P = int_object (int (doc_size ?es)) @ enc_body es @ 5 # k @ [0]"
  have m: "m = P @ int_object (int (length bs)) @ (t # bs @ 0 # rest)"
    "m = (P @ int_object (int (length bs)) @ t # bs) @ 0 # rest"
    by (simp_all add: doc P_def binary_value_def)
  have p: "p - 5 = int (length P)" by (simp add: p_def P_def doc_size_def)
  have "read_unaligned_int m (p - 5) = Some (int (length bs))"
    unfolding m(1) p using assms(2) by (subst read_int_object) (auto simp: short_def cint_simps)
  moreover have "rd m (p + int (length bs)) = Some 0"
    unfolding m(2) by (rule rd_at) (use p in simp)
  moreover have "n = length bs" using False assms(3) by simp
  ultimately have "bson_shrink_binary m p (int n) = Some (m, 0)" by (simp add: bson_shrink_binary_def)
  with assms(1) \<open>n = length bs\<close> show ?thesis by (simp add: p_def)
qed

text \<open>A block for a new document: created empty, it has room for what was measured.\<close>

lemma create_in_block:
  assumes "5 \<le> n"
  shows "\<exists>m. bson_create_empty_document (replicate n 0) = Some m \<and> is_doc m [] \<and> length m = n"
proof -
  have "bson_create_empty_document (replicate n 0) = Some (bson_empty_document @ drop 5 (replicate n 0))"
    by (rule empty_document) (use assms in simp)
  with assms is_doc_empty show ?thesis by (auto simp: bson_empty_document_def)
qed

text \<open>Appending with the size written out.\<close>

lemma fits_iff: "fits m es e \<longleftrightarrow> int (doc_size (es @ [e])) \<le> int (length m) \<and> int (doc_size (es @ [e])) < 2147483648"
proof -
  obtain t k v where "e = (t, k, v)" by (cases e)
  then show ?thesis by (auto simp: fits_def doc_size_simps)
qed

lemma set_int32_last:
  assumes "is_doc m es" "name_ok k" "doc_size (es @ [(0x10, k, int_object v)]) \<le> length m" "length m < 2147483648"
  shows "\<exists>m' n. bson_set_int32 (Some m) k v = Some (Some m', n) \<and>
    is_doc m' (es @ [(0x10, k, int_object v)]) \<and> length m' = length m"
proof -
  have "fits m es (0x10, k, int_object v)" using assms(3,4) by (simp add: fits_iff)
  from i32.appends [OF _ assms(2,1) this] show ?thesis by (auto simp: appended_def)
qed

lemma set_null_last:
  assumes "is_doc m es" "name_ok k" "doc_size (es @ [(0x0a, k, [])]) \<le> length m" "length m < 2147483648"
  shows "\<exists>m' n. bson_set_null (Some m) k = Some (Some m', n) \<and>
    is_doc m' (es @ [(0x0a, k, [])]) \<and> length m' = length m"
proof -
  have "fits m es (0x0a, k, [])" using assms(3,4) by (simp add: fits_iff)
  from nul.appends [OF _ assms(2,1) this] show ?thesis by (auto simp: appended_def)
qed

text \<open>A binary of \<open>n\<close> bytes, reserved.\<close>

lemma set_binary_last:
  assumes "is_doc m es" "name_ok k" "doc_size (es @ [(0x05, k, binary_value 0 (replicate n 0))]) \<le> length m"
    "length m < 2147480000"
  shows "\<exists>m' r. bson_set_binary_generic (Some m) k (int n) = Some (Some m', r, Some (int (doc_size es) + int (length k) + 6)) \<and>
    is_doc m' (es @ [(0x05, k, binary_value 0 (replicate n 0))]) \<and> length m' = length m"
proof -
  have "n < 2147483000" using assms(3,4) by (simp add: doc_size_simps binary_value_def)
  moreover have "fits m es (0x05, k, binary_value 0 (replicate (nat (int n)) 0))"
    using assms(3,4) by (simp add: fits_iff)
  ultimately show ?thesis
    using set_binary_appends [OF assms(1) _ assms(2), of 0 "int n"]
    by (auto simp: appended_def bson_set_binary_generic_def)
qed

end
