(* ===== verification/Rpc_Reply.thy ===== *)
theory Rpc_Reply
  imports Rpc_Props Bson_Members
begin

text \<open>
  Replies of the RPC server: what a request asks for and the document that answers it, as elements;
  \<open>send_reply\<close> and \<open>service\<close> produce that document.
\<close>

section \<open>The reply\<close>

text \<open>The outcome of a request: an error number, or a result document or none.\<close>

type_synonym outcome = "int + mem option"

definition error_value :: "int \<Rightarrow> byte list" where
  "error_value e = enc_doc [(0x10, cstr ''code'', int_object e)]"

fun outcome_elem :: "outcome \<Rightarrow> elem" where
  "outcome_elem (Inl e) = (0x03, cstr ''error'', error_value e)"
| "outcome_elem (Inr None) = (0x0a, cstr ''result'', [])"
| "outcome_elem (Inr (Some r)) = (0x03, cstr ''result'', sub_value r)"

definition reply_elems :: "(byte \<times> byte list) option \<Rightarrow> outcome \<Rightarrow> elem list" where
  "reply_elems ident out =
     (0x02, cstr ''jsonrpc'', string_value PERIDOT_RPCSRV_JSONRPC_VER) #
     (case ident of None \<Rightarrow> [] | Some (t, v) \<Rightarrow> [(t, cstr ''id'', v)]) @ [outcome_elem out]"

definition reply_doc :: "(byte \<times> byte list) option \<Rightarrow> outcome \<Rightarrow> byte list" where
  "reply_doc ident out = enc_doc (reply_elems ident out)"

fun outcome_ok :: "outcome \<Rightarrow> bool" where
  "outcome_ok (Inr (Some r)) \<longleftrightarrow> sub_ok r \<and> length (sub_value r) < 1073741824"
| "outcome_ok (Inl e) \<longleftrightarrow> e \<noteq> 0"
| "outcome_ok (Inr None) \<longleftrightarrow> True"

text \<open>\<open>off\<close> is where \<open>bson_get_props\<close> finds the member \<open>id\<close>, or -1.\<close>

definition id_at :: "mem \<Rightarrow> elem list \<Rightarrow> int \<Rightarrow> (byte \<times> byte list) option \<Rightarrow> bool" where
  "id_at job es off ident \<longleftrightarrow>
     (case ident of None \<Rightarrow> off = -1
      | Some (t, v) \<Rightarrow> elem_at job es off (t, cstr ''id'', v) \<and> length v \<le> 65536)"

lemma names_ok [simp]:
  "name_ok (cstr ''jsonrpc'')" "name_ok (cstr ''id'')" "name_ok (cstr ''result'')" "name_ok (cstr ''error'')"
  "name_ok (cstr ''code'')" "name_ok (cstr ''method'')" "name_ok (cstr ''params'')"
  "name_ok PERIDOT_RPCSRV_JSONRPC_VER" "short PERIDOT_RPCSRV_JSONRPC_VER"
  by (simp_all add: name_ok_def cstr_def PERIDOT_RPCSRV_JSONRPC_VER_def short_def)

lemma error_document_ok:
  "\<exists>m. error_document e = Some m \<and> sub_ok m \<and> sub_value m = error_value e"
proof -
  let ?es = "[(0x10, cstr ''code'', int_object e)] :: elem list"
  define m0 where "m0 = bson_empty_document @ replicate 11 (0 :: byte)"
  have create: "bson_create_empty_document (replicate 16 0) = Some m0" by (simp add: empty_document m0_def)
  have "fits m0 [] (0x10, cstr ''code'', int_object e)"
    by (simp add: fits_def doc_size_def m0_def bson_empty_document_def cstr_def)
  from i32.appends [OF _ _ _ this] is_doc_empty [of "replicate 11 0"] obtain m where
    m: "bson_set_int32 (Some m0) (cstr ''code'') e = Some (Some m, elem_size (0x10, cstr ''code'', int_object e))"
    "appended m0 m [] (0x10, cstr ''code'', int_object e)" by (auto simp: m0_def)
  from m(2) have d: "is_doc m ?es" "length m = 16" by (simp_all add: appended_def m0_def bson_empty_document_def)
  have n: "doc_size ?es = 15" by (simp add: doc_size_def cstr_def)
  have r: "read_unaligned_int m 0 = Some 15" using is_doc_read_size [OF d(1)] n by simp
  have "take 15 m = enc_doc ?es" using d(1) n by (auto simp: is_doc_iff)
  with r have "sub_value m = error_value e" by (simp add: sub_value_def error_value_def)
  moreover have "sub_ok m" using r d(2) by (simp add: sub_ok_def)
  ultimately show ?thesis using create m(1) by (simp add: error_document_def)
qed

lemma set_element_absent: "off < 4 \<Longrightarrow> bson_set_element doc k m2 off = Some (doc, 0)"
  by (cases m2) (simp_all add: bson_set_element_def)

lemma outcome_name: "\<exists>t k v. outcome_elem out = (t, k, v) \<and> name_ok k"
  by (cases out rule: outcome_elem.cases) auto

text \<open>The last member of a reply, as measured and as written.\<close>

definition outcome_of :: "mem option \<Rightarrow> int \<Rightarrow> outcome" where
  "outcome_of result e = (if e = 0 then Inr result else Inl e)"

lemma outcome_measures:
  assumes "outcome_ok (outcome_of result e)"
  shows "(if e = 0 then (case result of Some r \<Rightarrow> bson_measure_subdocument (cstr ''result'') r
            | None \<Rightarrow> bson_measure_null (cstr ''result''))
          else do { d \<leftarrow> error_document e; bson_measure_subdocument (cstr ''error'') d }) =
    Some (elem_size (outcome_elem (outcome_of result e)))"
proof (cases "e = 0")
  case False
  from error_document_ok [of e] obtain m where m: "error_document e = Some m" "sub_ok m" "sub_value m = error_value e" by blast
  with False sub.measures [OF m(2), of "cstr ''error''"] show ?thesis
    by (simp add: outcome_of_def bson_measure_subdocument_def bson_set_subdocument_def)
next
  case True
  show ?thesis
  proof (cases result)
    case None
    with True nul.measures [of "cstr ''result''"] show ?thesis
      by (simp add: outcome_of_def bson_measure_null_def)
  next
    case (Some r)
    with True assms have "sub_ok r" by (simp add: outcome_of_def)
    with True Some sub.measures [OF this, of "cstr ''result''"] show ?thesis
      by (simp add: outcome_of_def bson_measure_subdocument_def bson_set_subdocument_def)
  qed
qed

lemma outcome_appends:
  assumes "outcome_ok (outcome_of result e)" "is_doc m es" "fits m es (outcome_elem (outcome_of result e))"
  shows "\<exists>m' n. (if e = 0 then (case result of Some r \<Rightarrow> bson_set_subdocument (Some m) (cstr ''result'') r
            | None \<Rightarrow> bson_set_null (Some m) (cstr ''result''))
          else do { d \<leftarrow> error_document e; bson_set_subdocument (Some m) (cstr ''error'') d }) = Some (Some m', n) \<and>
    appended m m' es (outcome_elem (outcome_of result e))"
proof (cases "e = 0")
  case False
  from error_document_ok [of e] obtain d where m: "error_document e = Some d" "sub_ok d" "sub_value d = error_value e" by blast
  with False assms sub.appends [OF m(2), of "cstr ''error''" m es] show ?thesis
    by (auto simp: outcome_of_def simp del: elem_size.simps)
next
  case True
  show ?thesis
  proof (cases result)
    case None
    with True assms nul.appends [of "cstr ''result''" m es] show ?thesis
      by (auto simp: outcome_of_def)
  next
    case (Some r)
    with True assms have "sub_ok r" by (simp add: outcome_of_def)
    with True Some assms sub.appends [OF this, of "cstr ''result''" m es] show ?thesis
      by (auto simp: outcome_of_def simp del: elem_size.simps)
  qed
qed

lemma doc_size_add: "int (doc_size (es @ [e])) = int (doc_size es) + elem_size e"
  by (cases e) (simp add: doc_size_simps)

lemma reply_size_ok:
  assumes "id_at job es off ident" "outcome_ok (outcome_of result e)"
  shows "reply_size job off result e = Some (int (doc_size (reply_elems ident (outcome_of result e))))"
proof -
  let ?o = "outcome_elem (outcome_of result e)"
  have v: "bson_measure_string (cstr ''jsonrpc'') PERIDOT_RPCSRV_JSONRPC_VER =
      Some (elem_size (0x02, cstr ''jsonrpc'', string_value PERIDOT_RPCSRV_JSONRPC_VER))"
    using str.measures [of PERIDOT_RPCSRV_JSONRPC_VER "cstr ''jsonrpc''"] by (simp add: bson_measure_string_def)
  obtain t k w where o: "?o = (t, k, w)" by (cases ?o)
  show ?thesis
  proof (cases ident)
    case None
    with assms(1) have "bson_measure_element (cstr ''id'') (Some job) off = Some 0"
      by (simp add: id_at_def bson_measure_element_def set_element_absent)
    then show ?thesis
      unfolding reply_size_def v outcome_measures [OF assms(2)] o
      by (simp add: None reply_elems_def o doc_size_def bson_empty_size_def bson_empty_document_def)
  next
    case (Some tv)
    obtain t' v' where tv: "tv = (t', v')" by (cases tv)
    with assms(1) Some have "bson_measure_element (cstr ''id'') (Some job) off = Some (elem_size (t', cstr ''id'', v'))"
      using set_element_measures [of job es off t' "cstr ''id''" v' "cstr ''id''"]
      by (simp add: id_at_def bson_measure_element_def)
    then show ?thesis
      unfolding reply_size_def v outcome_measures [OF assms(2)] o
      by (simp add: Some tv reply_elems_def o doc_size_def bson_empty_size_def bson_empty_document_def)
  qed
qed

lemma length_outcome:
  "outcome_ok out \<Longrightarrow> outcome_elem out = (t, k, v) \<Longrightarrow> length k + length v < 1073741900"
  by (cases out rule: outcome_elem.cases) (auto simp: error_value_def cstr_def doc_size_def)

lemma reply_bound:
  assumes "id_at job es off ident" "outcome_ok out"
  shows "doc_size (reply_elems ident out) < 2147483000"
proof -
  obtain t k v where o: "outcome_elem out = (t, k, v)" by (cases "outcome_elem out")
  from length_outcome [OF assms(2) o] assms(1) show ?thesis
    by (auto simp: reply_elems_def doc_size_def o id_at_def cstr_def string_value_def PERIDOT_RPCSRV_JSONRPC_VER_def
        split: option.splits)
qed

lemma write_reply_ok:
  assumes "id_at job es off ident" "outcome_ok (outcome_of result e)"
    "length output = doc_size (reply_elems ident (outcome_of result e))"
  shows "write_reply job off result e output = Some (reply_doc ident (outcome_of result e))"
proof -
  let ?L = "length output"
  let ?v = "(0x02, cstr ''jsonrpc'', string_value PERIDOT_RPCSRV_JSONRPC_VER) :: elem"
  let ?o = "outcome_elem (outcome_of result e)"
  let ?i = "case ident of None \<Rightarrow> [] | Some (t, v) \<Rightarrow> [(t, cstr ''id'', v)]"
  have L: "?L < 2147483000" using reply_bound [OF assms(1,2)] assms(3) by simp
  have size: "int ?L = int (doc_size (?v # ?i)) + elem_size ?o"
    using doc_size_add [of "?v # ?i" ?o] by (simp add: assms(3) reply_elems_def)
  define m0 where "m0 = bson_empty_document @ drop 5 output"
  have l5: "5 \<le> ?L" unfolding assms(3) by (simp add: doc_size_def)
  have create: "bson_create_empty_document output = Some m0" using l5 by (simp add: empty_document m0_def)
  have m0: "is_doc m0 []" "length m0 = ?L"
    using l5 is_doc_empty by (simp_all add: m0_def) (simp add: bson_empty_document_def)
  have sz1: "int (doc_size (?v # ?i)) = int (doc_size [?v]) + (case ident of None \<Rightarrow> 0 | Some (t, v) \<Rightarrow> elem_size (t, cstr ''id'', v))"
    by (cases ident) (auto simp: doc_size_def)
  have pos: "0 \<le> elem_size x" for x :: elem by (cases x) simp
  have sz0: "int (doc_size [?v]) = int (doc_size []) + elem_size ?v" using doc_size_add [of "[]" ?v] by simp
  have pos2: "0 \<le> (case ident of None \<Rightarrow> 0 | Some (t, v) \<Rightarrow> elem_size (t, cstr ''id'', v))"
    using pos by (auto split: option.split)
  have "fits m0 [] ?v"
    unfolding fits_def m0(2) using sz0 size sz1 pos2 pos [of ?o] L by linarith
  from str.appends [OF _ _ m0(1) this] obtain m1 n1 where
    m1: "bson_set_string (Some m0) (cstr ''jsonrpc'') PERIDOT_RPCSRV_JSONRPC_VER = Some (Some m1, n1)"
      "is_doc m1 [?v]" "length m1 = ?L"
    using m0(2) by (auto simp: appended_def)
  have "\<exists>m2 n2. bson_set_element (Some m1) (cstr ''id'') (Some job) off = Some (Some m2, n2) \<and>
      is_doc m2 (?v # ?i) \<and> length m2 = ?L"
  proof (cases ident)
    case None
    with assms(1) m1 show ?thesis by (simp add: id_at_def set_element_absent)
  next
    case (Some tv)
    obtain t v where tv: "tv = (t, v)" by (cases tv)
    have at: "elem_at job es off (t, cstr ''id'', v)" using assms(1) by (simp add: id_at_def Some tv)
    have "fits m1 [?v] (t, cstr ''id'', v)"
      unfolding fits_def m1(3) using size sz1 pos [of ?o] L by (simp add: Some tv del: elem_size.simps)
    from set_element_copies [OF m1(2) at _ this] m1(3) show ?thesis
      by (auto simp: appended_def Some tv simp del: elem_size.simps)
  qed
  then obtain m2 n2 where m2: "bson_set_element (Some m1) (cstr ''id'') (Some job) off = Some (Some m2, n2)"
    "is_doc m2 (?v # ?i)" "length m2 = ?L" by blast
  have "fits m2 (?v # ?i) ?o" unfolding fits_def m2(3) using size L by linarith
  from outcome_appends [OF assms(2) m2(2) this] obtain m3 n3 where
    m3: "(if e = 0 then (case result of Some r \<Rightarrow> bson_set_subdocument (Some m2) (cstr ''result'') r
            | None \<Rightarrow> bson_set_null (Some m2) (cstr ''result''))
          else do { d \<leftarrow> error_document e; bson_set_subdocument (Some m2) (cstr ''error'') d }) = Some (Some m3, n3)"
      "is_doc m3 ((?v # ?i) @ [?o])" "length m3 = ?L"
    using m2(3) by (auto simp: appended_def)
  have "m3 = reply_doc ident (outcome_of result e)"
    using exact_doc [OF m3(2)] m3(3) assms(3) by (simp add: reply_doc_def reply_elems_def)
  with create m1(1) m2(1) m3(1) show ?thesis by (simp add: write_reply_def)
qed

text \<open>The state after a reply: \<open>m\<close> calls of \<open>malloc\<close> and \<open>b\<close> blocks fewer.\<close>

definition after_reply :: "nat \<Rightarrow> int \<Rightarrow> (byte list) list \<Rightarrow> 'w rpc \<Rightarrow> 'w rpc" where
  "after_reply m b rs s = s\<lparr>mallocs := mallocs s + m, blocks := blocks s - b,
     sent := sent s @ map (\<lambda>r. (r, SOURCE_PACKETIZED)) rs\<rparr>"

definition result_blocks :: "mem option \<Rightarrow> int" where
  "result_blocks result = (if result = None then 0 else 1)"

definition reply_words :: "(byte \<times> byte list) option \<Rightarrow> outcome \<Rightarrow> u32" where
  "reply_words ident out = of_nat (doc_size (reply_elems ident out))"

lemma emit_reply_ok:
  assumes "id_at job es off ident" "outcome_ok (outcome_of result e)"
    "n = int (doc_size (reply_elems ident (outcome_of result e)))"
  shows "emit_reply job off result e n s =
    Some (after_reply 0 (2 + (if e = 0 then result_blocks result else 0)) [reply_doc ident (outcome_of result e)] s)"
  using write_reply_ok [OF assms(1,2), of "replicate (nat n) 0"] assms(3)
  by (auto simp: emit_reply_def after_reply_def rpc_free_def result_blocks_def Let_def)

lemma send_reply_ok:
  assumes "id_at job es off ident" "outcome_ok (outcome_of result e)"
    "malloc (mallocs s) (reply_words ident (outcome_of result e))"
  shows "send_reply malloc job off result e s =
    Some (after_reply 1 (1 + (if e = 0 then result_blocks result else 0)) [reply_doc ident (outcome_of result e)] s)"
  using assms(3)
  by (simp add: send_reply_def rpc_malloc_def reply_words_def after_reply_def reply_size_ok [OF assms(1,2)]
      emit_reply_ok [OF assms(1,2) refl])

lemma send_reply_no_memory:
  assumes "id_at job es off ident" "outcome_ok (outcome_of result e)"
    "\<not> malloc (mallocs s) (reply_words ident (outcome_of result e))"
  shows "send_reply malloc job off result e s =
    Some (if e \<noteq> 0 then after_reply 1 1 [] s
      else if malloc (mallocs s + 1) (reply_words ident (Inl JSONRPC_ERR_INTERNAL_ERROR))
      then after_reply 2 (1 + result_blocks result) [reply_doc ident (Inl JSONRPC_ERR_INTERNAL_ERROR)] s
      else after_reply 2 (1 + result_blocks result) [] s)"
proof -
  have o: "outcome_of None JSONRPC_ERR_INTERNAL_ERROR = Inl JSONRPC_ERR_INTERNAL_ERROR" "JSONRPC_ERR_INTERNAL_ERROR \<noteq> 0"
    "outcome_ok (outcome_of None JSONRPC_ERR_INTERNAL_ERROR)"
    by (simp_all add: outcome_of_def JSONRPC_ERR_INTERNAL_ERROR_def)
  show ?thesis
    using assms(3) o(2)
    by (auto simp: send_reply_def rpc_malloc_def reply_words_def after_reply_def rpc_free_def result_blocks_def
        Let_def reply_size_ok [OF assms(1,2)] reply_size_ok [OF assms(1) o(3), unfolded o(1)]
        emit_reply_ok [OF assms(1) o(3) refl, unfolded o(1)])
qed

section \<open>The service\<close>

text \<open>What a method does with its parameters: the world after it and the outcome, none if it keeps the job.\<close>

fun apply_method :: "'w rpc_method option \<Rightarrow> mem option \<Rightarrow> 'w \<Rightarrow> ('w \<times> outcome option) option" where
  "apply_method None p w = Some (w, Some (Inl JSONRPC_ERR_METHOD_NOT_FOUND))"
| "apply_method (Some (Sync g)) p w =
     do { (r, e, w) \<leftarrow> g p w; Some (w, Some (if r = None \<and> e \<noteq> 0 then Inl e else Inr r)) }"
| "apply_method (Some (Async g)) p w =
     do { (e, w) \<leftarrow> g p w; Some (w, if e = 0 then None else Some (Inl e)) }"

text \<open>A call the server can answer: it is defined and its result is a document.\<close>

definition call_ok :: "'w rpc_method option \<Rightarrow> mem option \<Rightarrow> 'w \<Rightarrow> bool" where
  "call_ok f p w \<longleftrightarrow> (\<exists>w' out. apply_method f p w = Some (w', out) \<and> (case out of None \<Rightarrow> True | Some out \<Rightarrow> outcome_ok out))"

definition method_names_ok :: "'w method_entry list \<Rightarrow> bool" where
  "method_names_ok ms \<longleftrightarrow> (\<forall>(name, f) \<in> set ms. name_ok name)"

lemma c_streq_string:
  assumes "c_string m p = Some str" "name_ok str" "name_ok key"
  shows "c_streq m p key = Some (key = str)"
proof -
  define b where "b = drop (nat p) m"
  from assms(1) have p: "0 \<le> p" "0 \<in> set b" "str = takeWhile (\<lambda>b. b \<noteq> 0) b"
    by (auto simp: c_string_def b_def split: if_splits)
  from split_list_first [OF p(2)] obtain ys rest where b: "b = ys @ 0 # rest" "0 \<notin> set ys" by blast
  have "takeWhile (\<lambda>b. b \<noteq> 0) (ys @ 0 # rest) = ys" using b(2) by (induction ys) auto
  with p(3) b(1) have "b = str @ 0 # rest" by simp
  then have m: "m = take (nat p) m @ str @ 0 # rest" using append_take_drop_id [of "nat p" m] by (simp add: b_def)
  have "nat p < length m" using b(1) by (cases "nat p < length m") (simp_all add: b_def)
  then have "p = int (length (take (nat p) m))" using p(1) by simp
  then show ?thesis
    using c_streq_iff [of key str p "take (nat p) m" rest] m assms(2,3) by (simp add: name_ok_def)
qed

lemma find_method_ok:
  assumes "c_string m p = Some str" "name_ok str"
  shows "method_names_ok ms \<Longrightarrow> peridot_rpc_server_find_method m p ms = Some (map_of ms str)"
proof (induction ms)
  case (Cons e ms)
  obtain nm f where "e = (nm, f)" by (cases e)
  with Cons c_streq_string [OF assms, of nm] show ?case by (auto simp: method_names_ok_def)
qed simp

text \<open>The offsets \<open>bson_get_props\<close> stores.\<close>

definition found_props :: "elem list \<Rightarrow> byte list list \<Rightarrow> props" where
  "found_props es ks = map (\<lambda>k. (k, first_off 4 es k)) ks"

lemma off_of_found: "k \<in> set ks \<Longrightarrow> off_of k (found_props es ks) = first_off 4 es k"
  unfolding off_of_def found_props_def by (induction ks) auto

definition rpc_names :: "byte list list" where
  "rpc_names = [cstr ''jsonrpc'', cstr ''method'', cstr ''params'', cstr ''id'']"

lemma get_rpc_props:
  assumes "is_doc job es"
  shows "bson_get_props (Some job)
      [(cstr ''jsonrpc'', a), (cstr ''method'', b), (cstr ''params'', c), (cstr ''id'', d)] =
    Some (int (length (filter (\<lambda>k. k \<in> names es) rpc_names)), found_props es rpc_names)"
proof -
  have "0 \<le> first_off 4 es k \<longleftrightarrow> k \<in> names es" for k
    using first_off_present [of k es 4] first_off_absent [of k es 4] by (cases "k \<in> names es") auto
  with get_props_finds [OF assms, of "[(cstr ''jsonrpc'', a), (cstr ''method'', b), (cstr ''params'', c), (cstr ''id'', d)]"]
  show ?thesis by (simp add: keys_ok_def found_props_def rpc_names_def) (simp add: cstr_def)
qed

lemma id_at_member:
  assumes "is_doc job es" "doc_size es \<le> 65536"
  shows "id_at job es (first_off 4 es (cstr ''id'')) (member es (cstr ''id''))"
proof (cases "member es (cstr ''id'')")
  case None
  then show ?thesis by (simp add: id_at_def member_off)
next
  case (Some tv)
  obtain t v where tv: "tv = (t, v)" by (cases tv)
  from member_elem_at [OF assms(1)] Some tv have at: "elem_at job es (first_off 4 es (cstr ''id'')) (t, cstr ''id'', v)" by simp
  then obtain es1 es2 where "es = es1 @ (t, cstr ''id'', v) # es2" by (auto simp: elem_at_def)
  with assms(2) have "length v \<le> 65536" by (simp add: doc_size_def)
  with at show ?thesis by (simp add: id_at_def Some tv)
qed

lemma member_short:
  assumes "is_doc job es" "doc_size es \<le> 65536" "member es k = Some (t, v)"
  shows "length v \<le> 65536"
proof -
  from member_split [OF assms(3)] obtain es1 es2 where "es = es1 @ (t, k, v) # es2" by blast
  with assms(2) show ?thesis by (simp add: doc_size_def)
qed

lemma get_string_member:
  assumes "is_doc job es" "doc_size es \<le> 65536" "member es k = Some (0x02, string_value str)" "name_ok str"
  shows "\<exists>p. bson_get_string (Some job) (first_off 4 es k) = Some (Some p) \<and> c_string job p = Some str"
proof (rule get_string_elem [OF member_elem_at [OF assms(1,3)] _ assms(4)])
  show "short str" using member_short [OF assms(1-3)] by (simp add: short_def string_value_def)
qed

lemma get_string_absent: "member es k = None \<Longrightarrow> bson_get_string (Some job) (first_off 4 es k) = Some None"
  by (simp add: member_off bson_get_string_def seek_data_def)

lemma get_subdocument_absent: "member es k = None \<Longrightarrow> bson_get_subdocument (Some job) (first_off 4 es k) = Some None"
  by (simp add: member_off bson_get_subdocument_def seek_data_def)

text \<open>A request: version and method are there and \<open>ps\<close> are the parameters, if any.\<close>

definition request :: "mem \<Rightarrow> elem list \<Rightarrow> byte list \<Rightarrow> elem list option \<Rightarrow> bool" where
  "request job es name ps \<longleftrightarrow> is_doc job es \<and> doc_size es \<le> 65536 \<and>
     member es (cstr ''jsonrpc'') = Some (0x02, string_value PERIDOT_RPCSRV_JSONRPC_VER) \<and>
     member es (cstr ''method'') = Some (0x02, string_value name) \<and> name_ok name \<and>
     member es (cstr ''params'') = map_option (\<lambda>fs. (0x03, enc_doc fs)) ps \<and>
     (case ps of None \<Rightarrow> True | Some fs \<Rightarrow> doc_ok fs)"

definition params_at :: "mem \<Rightarrow> elem list \<Rightarrow> mem option" where
  "params_at job es =
     map_option (\<lambda>q. drop (nat q) job) (the (bson_get_subdocument (Some job) (first_off 4 es (cstr ''params''))))"

text \<open>What a method gets: NULL, or memory that starts with the parameters.\<close>

definition params_are :: "elem list option \<Rightarrow> mem option \<Rightarrow> bool" where
  "params_are ps p \<longleftrightarrow> (case ps of None \<Rightarrow> p = None | Some fs \<Rightarrow> \<exists>m. p = Some m \<and> is_doc m fs)"

lemma request_params:
  assumes "request job es name ps"
  shows "\<exists>r. bson_get_subdocument (Some job) (first_off 4 es (cstr ''params'')) = Some r \<and>
    map_option (\<lambda>q. drop (nat q) job) r = params_at job es \<and> params_are ps (params_at job es)"
proof (cases ps)
  case None
  with assms have "member es (cstr ''params'') = None" by (simp add: request_def)
  with None show ?thesis by (simp add: params_at_def params_are_def get_subdocument_absent)
next
  case (Some fs)
  with assms have "is_doc job es" "member es (cstr ''params'') = Some (0x03, enc_doc fs)" "doc_ok fs"
    by (simp_all add: request_def)
  from get_subdocument_elem [OF member_elem_at [OF this(1,2)] _ this(3)] Some
  show ?thesis by (auto simp: params_at_def params_are_def)
qed

lemma rpc_names_in [simp]: "cstr ''jsonrpc'' \<in> set rpc_names" "cstr ''method'' \<in> set rpc_names"
  "cstr ''params'' \<in> set rpc_names" "cstr ''id'' \<in> set rpc_names"
  by (simp_all add: rpc_names_def)

lemma request_method_ok:
  assumes "request job es name ps"
  shows "\<exists>p. request_method job (first_off 4 es (cstr ''jsonrpc'')) (first_off 4 es (cstr ''method'')) = Some (Some p) \<and>
    c_string job p = Some name"
proof -
  note r = assms [unfolded request_def]
  from get_string_member [of job es "cstr ''jsonrpc''" PERIDOT_RPCSRV_JSONRPC_VER] r obtain q where
    q: "bson_get_string (Some job) (first_off 4 es (cstr ''jsonrpc'')) = Some (Some q)"
      "c_string job q = Some PERIDOT_RPCSRV_JSONRPC_VER" by auto
  from get_string_member [of job es "cstr ''method''" name] r obtain p where
    "bson_get_string (Some job) (first_off 4 es (cstr ''method'')) = Some (Some p)" "c_string job p = Some name" by auto
  with q c_streq_string [OF q(2)] show ?thesis by (simp add: request_method_def)
qed

text \<open>The state when the worker has taken the job, and what a request does to it.\<close>

definition taken_job :: "'w rpc \<Rightarrow> 'w rpc" where
  "taken_job s = s\<lparr>r_sem := r_sem s - 1, pending_job := None\<rparr>"

lemma some_found: "k \<in> names es \<Longrightarrow> k \<in> set ks \<Longrightarrow> \<not> int (length (filter (\<lambda>k. k \<in> names es) ks)) \<le> 0"
  by (auto simp: filter_empty_conv)

lemma service_serves:
  assumes "r_sem s > 0" "pending_job s = Some job" "is_doc job es"
    "k \<in> names es" "k \<in> set rpc_names"
  shows "peridot_rpc_server_service malloc junk s = serve malloc job (found_props es rpc_names) (taken_job s)"
  using assms(1,2) some_found [OF assms(4,5)]
  by (simp add: peridot_rpc_server_service_def get_rpc_props [OF assms(3)] Let_def taken_job_def)

text \<open>The end of \<open>service\<close>: a notification is not answered.\<close>

lemma serve_end:
  assumes "is_doc job es" "doc_size es \<le> 65536" "\<forall>n sz. malloc n sz"
    "e = (if result = None then errno else 0)" "outcome_ok (outcome_of result e)"
  shows "(if first_off 4 es (cstr ''id'') < 0 then Some (rpc_free (Some job) (rpc_free result s))
      else send_reply malloc job (first_off 4 es (cstr ''id'')) result e s) =
    Some (case member es (cstr ''id'') of
        None \<Rightarrow> s\<lparr>blocks := blocks s - (1 + result_blocks result)\<rparr>
      | Some i \<Rightarrow> after_reply 1 (1 + result_blocks result) [reply_doc (Some i) (outcome_of result e)] s)"
proof (cases "member es (cstr ''id'')")
  case None
  then show ?thesis by (simp add: member_off rpc_free_def result_blocks_def)
next
  case (Some i)
  note i = id_at_member [OF assms(1,2), unfolded Some]
  have "\<not> first_off 4 es (cstr ''id'') < 0"
    using i elem_at_off by (cases i) (force simp: id_at_def)
  moreover have "malloc (mallocs s) (reply_words (Some i) (outcome_of result e))" using assms(3) by simp
  moreover have "(if e = 0 then result_blocks result else 0) = result_blocks result"
    using assms(4) by (simp add: result_blocks_def)
  ultimately show ?thesis by (simp add: Some send_reply_ok [OF i assms(5)])
qed

lemma after_reply_result:
  "after_reply m (b + c) rs (s\<lparr>world := w, blocks := blocks s + c\<rparr>) = after_reply m b rs (s\<lparr>world := w\<rparr>)"
  by (simp add: after_reply_def)

text \<open>How the server goes on after a call: it ends the request or leaves the job to the method.\<close>

definition goes_on :: "allocator \<Rightarrow> mem \<Rightarrow> elem list \<Rightarrow> 'w rpc_method option \<Rightarrow> mem option \<Rightarrow> 'w rpc \<Rightarrow> bool" where
  "goes_on malloc job es f p s \<longleftrightarrow> (\<exists>w out s1 result errno kept. apply_method f p (world s) = Some (w, out) \<and>
    (case f of Some f \<Rightarrow> call_method f job p s | None \<Rightarrow> Some (s, None, JSONRPC_ERR_METHOD_NOT_FOUND, False)) =
      Some (s1, result, errno, kept) \<and>
    (if kept then Some s1
     else if first_off 4 es (cstr ''id'') < 0 then Some (rpc_free (Some job) (rpc_free result s1))
     else send_reply malloc job (first_off 4 es (cstr ''id'')) result (if result = None then errno else 0) s1) = Some
      (case out of
         None \<Rightarrow> s\<lparr>world := w, async_jobs := async_jobs s @ [job]\<rparr>
       | Some out \<Rightarrow>
           (case member es (cstr ''id'') of
              None \<Rightarrow> s\<lparr>world := w, blocks := blocks s - 1\<rparr>
            | Some i \<Rightarrow> after_reply 1 1 [reply_doc (Some i) out] (s\<lparr>world := w\<rparr>))))"

lemma goes_on_answers:
  assumes "is_doc job es" "doc_size es \<le> 65536" "\<forall>n sz. malloc n sz"
    "outcome_ok (outcome_of r (if r = None then e else 0))"
    "(case f of Some f \<Rightarrow> call_method f job p s | None \<Rightarrow> Some (s, None, JSONRPC_ERR_METHOD_NOT_FOUND, False)) =
      Some (s\<lparr>world := w, blocks := blocks s + result_blocks r\<rparr>, r, e, False)"
    "apply_method f p (world s) = Some (w, Some (outcome_of r (if r = None then e else 0)))"
  shows "goes_on malloc job es f p s"
  unfolding goes_on_def
  by (rule exI [of _ w], rule exI [of _ "Some (outcome_of r (if r = None then e else 0))"], intro exI conjI,
      rule assms(6), rule assms(5),
      unfold if_False serve_end [OF assms(1-3) refl assms(4)] after_reply_result)
    (simp split: option.split)

lemma serve_call:
  assumes "is_doc job es" "doc_size es \<le> 65536" "\<forall>n sz. malloc n sz" "call_ok f p (world s)"
  shows "goes_on malloc job es f p s"
proof -
  note ends = goes_on_answers [OF assms(1-3)]
  consider (none) "f = None" | (sync) g where "f = Some (Sync g)" | (async) g where "f = Some (Async g)"
    by (metis rpc_method.exhaust not_None_eq)
  then show ?thesis
  proof cases
    case none
    then show ?thesis
      by (intro ends [of None JSONRPC_ERR_METHOD_NOT_FOUND _ _ _ "world s"])
         (simp_all add: outcome_of_def result_blocks_def JSONRPC_ERR_METHOD_NOT_FOUND_def)
  next
    case async
    with assms(4) obtain e w where g: "g p (world s) = Some (e, w)" by (auto simp: call_ok_def bind_eq_Some_conv)
    show ?thesis
    proof (cases "e = 0")
      case True
      with async g show ?thesis by (simp add: goes_on_def call_method_def, intro exI [of _ True]) simp
    next
      case False
      with async g show ?thesis
        by (intro ends [of None e _ _ _ w]) (simp_all add: outcome_of_def result_blocks_def call_method_def)
    qed
  next
    case sync
    with assms(4) obtain r e w where g: "g p (world s) = Some (r, e, w)"
      "outcome_ok (outcome_of r (if r = None then e else 0))"
      by (auto simp: call_ok_def outcome_of_def bind_eq_Some_conv split: if_splits)
    with sync show ?thesis
      by (intro ends [of r e _ _ _ w]) (auto simp: outcome_of_def result_blocks_def call_method_def)
  qed
qed

lemma serve_request:
  assumes "request job es name ps" "method_names_ok (methods s)" "\<forall>n sz. malloc n sz"
    "call_ok (map_of (methods s) name) (params_at job es) (world s)"
  shows "\<exists>w out. apply_method (map_of (methods s) name) (params_at job es) (world s) = Some (w, out) \<and>
    serve malloc job (found_props es rpc_names) s = Some
      (case out of
         None \<Rightarrow> s\<lparr>world := w, async_jobs := async_jobs s @ [job]\<rparr>
       | Some out \<Rightarrow>
           (case member es (cstr ''id'') of
              None \<Rightarrow> s\<lparr>world := w, blocks := blocks s - 1\<rparr>
            | Some i \<Rightarrow> after_reply 1 1 [reply_doc (Some i) out] (s\<lparr>world := w\<rparr>)))"
proof -
  have d: "is_doc job es" "doc_size es \<le> 65536" using assms(1) by (simp_all add: request_def)
  obtain p where p: "request_method job (first_off 4 es (cstr ''jsonrpc'')) (first_off 4 es (cstr ''method'')) = Some (Some p)"
    "c_string job p = Some name" using request_method_ok [OF assms(1)] by blast
  have f: "peridot_rpc_server_find_method job p (methods s) = Some (map_of (methods s) name)"
    using find_method_ok [OF p(2) _ assms(2)] assms(1) by (simp add: request_def)
  obtain r where r: "bson_get_subdocument (Some job) (first_off 4 es (cstr ''params'')) = Some r"
    "map_option (\<lambda>q. drop (nat q) job) r = params_at job es" using request_params [OF assms(1)] by blast
  let ?f = "map_of (methods s) name"
  from serve_call [OF d assms(3,4), unfolded goes_on_def] obtain w out s1 result errno kept where
    *: "apply_method ?f (params_at job es) (world s) = Some (w, out)"
    "(case ?f of Some f \<Rightarrow> call_method f job (params_at job es) s
      | None \<Rightarrow> Some (s, None, JSONRPC_ERR_METHOD_NOT_FOUND, False)) = Some (s1, result, errno, kept)"
    "(if kept then Some s1
     else if first_off 4 es (cstr ''id'') < 0 then Some (rpc_free (Some job) (rpc_free result s1))
     else send_reply malloc job (first_off 4 es (cstr ''id'')) result (if result = None then errno else 0) s1) = Some
      (case out of
         None \<Rightarrow> s\<lparr>world := w, async_jobs := async_jobs s @ [job]\<rparr>
       | Some out \<Rightarrow>
           (case member es (cstr ''id'') of
              None \<Rightarrow> s\<lparr>world := w, blocks := blocks s - 1\<rparr>
            | Some i \<Rightarrow> after_reply 1 1 [reply_doc (Some i) out] (s\<lparr>world := w\<rparr>)))"
    by blast
  have "(case ?f of
      Some f \<Rightarrow> do { params \<leftarrow> bson_get_subdocument (Some job) (off_of (cstr ''params'') (found_props es rpc_names));
                     call_method f job (map_option (\<lambda>q. drop (nat q) job) params) s }
    | None \<Rightarrow> Some (s, None, JSONRPC_ERR_METHOD_NOT_FOUND, False)) = Some (s1, result, errno, kept)"
    using *(2) by (cases ?f) (simp_all add: r off_of_found)
  then have "serve malloc job (found_props es rpc_names) s =
    (if kept then Some s1
     else if first_off 4 es (cstr ''id'') < 0 then Some (rpc_free (Some job) (rpc_free result s1))
     else send_reply malloc job (first_off 4 es (cstr ''id'')) result (if result = None then errno else 0) s1)"
    by (simp add: serve_def off_of_found p(1) f Let_def)
  with *(1,3) show ?thesis by simp
qed

lemma service_request:
  assumes "r_sem s > 0" "pending_job s = Some job" "request job es name ps" "method_names_ok (methods s)"
    "\<forall>n sz. malloc n sz" "\<And>p. params_are ps p \<Longrightarrow> call_ok (map_of (methods s) name) p (world s)"
  shows "\<exists>p w out. params_are ps p \<and> apply_method (map_of (methods s) name) p (world s) = Some (w, out) \<and>
    peridot_rpc_server_service malloc junk s = Some
      (case out of
         None \<Rightarrow> taken_job s\<lparr>world := w, async_jobs := async_jobs s @ [job]\<rparr>
       | Some out \<Rightarrow>
           (case member es (cstr ''id'') of
              None \<Rightarrow> taken_job s\<lparr>world := w, blocks := blocks s - 1\<rparr>
            | Some i \<Rightarrow> after_reply 1 1 [reply_doc (Some i) out] (taken_job s\<lparr>world := w\<rparr>)))"
proof -
  from assms(3) have d: "is_doc job es" "cstr ''jsonrpc'' \<in> names es"
    using member_names [of es "cstr ''jsonrpc''"] by (auto simp: request_def)
  have m: "methods (taken_job s) = methods s" "world (taken_job s) = world s" "blocks (taken_job s) = blocks s"
    "async_jobs (taken_job s) = async_jobs s" by (simp_all add: taken_job_def)
  from request_params [OF assms(3)] have p: "params_are ps (params_at job es)" by blast
  from serve_request [where s = "taken_job s", OF assms(3) _ assms(5), unfolded m, OF assms(4) assms(6) [OF p]] p
  show ?thesis unfolding service_serves [OF assms(1,2) d rpc_names_in(1)] by blast
qed

text \<open>C19: A pending request is answered exactly. Its method, the first registered under the name, is
  called once with the parameters (NULL without any); the answer is one document with the version,
  the request's id unchanged and of any type, and the result or the error number; a request without id
  is not answered; an asynchronous method that accepts keeps the job. Every block is freed.\<close>

theorem rpc_service_answers:
  assumes "r_sem s > 0" "pending_job s = Some job" "request job es name ps" "method_names_ok (methods s)"
    "\<forall>n sz. malloc n sz" "\<And>p. params_are ps p \<Longrightarrow> call_ok (map_of (methods s) name) p (world s)"
  shows "\<exists>p w out s'. params_are ps p \<and>
    apply_method (map_of (methods s) name) p (world s) = Some (w, out) \<and>
    peridot_rpc_server_service malloc junk s = Some s' \<and>
    world s' = w \<and> pending_job s' = None \<and> r_sem s' = r_sem s - 1 \<and>
    (case out of
       None \<Rightarrow> sent s' = sent s \<and> async_jobs s' = async_jobs s @ [job] \<and> blocks s' = blocks s
     | Some out \<Rightarrow> async_jobs s' = async_jobs s \<and> blocks s' = blocks s - 1 \<and>
         sent s' = sent s @ (case member es (cstr ''id'') of None \<Rightarrow> []
           | Some i \<Rightarrow> [(reply_doc (Some i) out, SOURCE_PACKETIZED)]))"
proof -
  from service_request [where junk = junk, OF assms] obtain p w out where
    *: "params_are ps p" "apply_method (map_of (methods s) name) p (world s) = Some (w, out)"
    "peridot_rpc_server_service malloc junk s = Some
      (case out of
         None \<Rightarrow> taken_job s\<lparr>world := w, async_jobs := async_jobs s @ [job]\<rparr>
       | Some out \<Rightarrow>
           (case member es (cstr ''id'') of
              None \<Rightarrow> taken_job s\<lparr>world := w, blocks := blocks s - 1\<rparr>
            | Some i \<Rightarrow> after_reply 1 1 [reply_doc (Some i) out] (taken_job s\<lparr>world := w\<rparr>)))" by blast
  show ?thesis
    unfolding *(3) by (intro exI [of _ p] exI [of _ w] exI [of _ out])
      (simp add: *(1,2) after_reply_def taken_job_def split: option.split)
qed

text \<open>A method that answers with an empty document.\<close>

definition echo :: "mem option \<Rightarrow> nat \<Rightarrow> (mem option \<times> int \<times> nat) option" where
  "echo p n = Some (if p = None then (None, JSONRPC_ERR_INVALID_REQUEST, n) else (Some bson_empty_document, 0, n + 1))"

definition ex_request :: "elem list" where
  "ex_request = [(0x02, cstr ''jsonrpc'', string_value PERIDOT_RPCSRV_JSONRPC_VER),
     (0x02, cstr ''method'', string_value (cstr ''echo'')), (0x03, cstr ''params'', enc_doc []),
     (0x10, cstr ''id'', [7, 0, 0, 0])]"

lemma ex_request_ok: "request (enc_doc ex_request) ex_request (cstr ''echo'') (Some [])"
proof -
  have "doc_ok ex_request" "doc_size ex_request \<le> 65536"
    by (simp_all add: doc_ok_def ex_request_def value_ok_string doc_size_def cstr_def string_value_def
        PERIDOT_RPCSRV_JSONRPC_VER_def value_ok_def name_ok_def enc_doc_def read_int_object_0 cint_simps)
  then show ?thesis
    by (simp add: request_def is_doc_def) (simp add: ex_request_def cstr_def name_ok_def doc_ok_def doc_size_def)
qed

theorem rpc_service_answers_witness:
  "\<exists>s'. peridot_rpc_server_service (\<lambda>_ _. True) 0 (rpc_boot [(cstr ''echo'', Sync echo)] 0
       \<lparr>r_sem := 1, pending_job := Some (enc_doc ex_request)\<rparr>) = Some s' \<and>
     world s' = 1 \<and> blocks s' = -1 \<and>
     sent s' = [(reply_doc (Some (0x10, [7, 0, 0, 0])) (Inr (Some bson_empty_document)), SOURCE_PACKETIZED)]"
proof -
  let ?s = "rpc_boot [(cstr ''echo'', Sync echo)] 0\<lparr>r_sem := 1, pending_job := Some (enc_doc ex_request)\<rparr>"
  have "sub_ok bson_empty_document" "length (sub_value bson_empty_document) = 5"
    by (simp_all add: sub_ok_def sub_value_def bson_empty_document_def read_unaligned_int_def rd_def)
  then have "method_names_ok (methods ?s)" "params_are (Some []) p \<Longrightarrow> call_ok (map_of (methods ?s) (cstr ''echo'')) p (world ?s)" for p
    by (auto simp: rpc_boot_def method_names_ok_def name_ok_def cstr_def echo_def call_ok_def params_are_def)
  moreover have "0 < r_sem ?s" "pending_job ?s = Some (enc_doc ex_request)" by simp_all
  ultimately obtain p w out s' where
    *: "params_are (Some []) p"
      "apply_method (map_of (methods ?s) (cstr ''echo'')) p (world ?s) = Some (w, out)"
      "peridot_rpc_server_service (\<lambda>_ _. True) 0 ?s = Some s'" "world s' = w"
      "case out of
       None \<Rightarrow> sent s' = sent ?s \<and> async_jobs s' = async_jobs ?s @ [enc_doc ex_request] \<and> blocks s' = blocks ?s
     | Some out \<Rightarrow> async_jobs s' = async_jobs ?s \<and> blocks s' = blocks ?s - 1 \<and>
         sent s' = sent ?s @ (case member ex_request (cstr ''id'') of None \<Rightarrow> []
           | Some i \<Rightarrow> [(reply_doc (Some i) out, SOURCE_PACKETIZED)])"
    using rpc_service_answers [OF _ _ ex_request_ok, of ?s "\<lambda>_ _. True" 0] by blast
  have "member ex_request (cstr ''id'') = Some (0x10, [7, 0, 0, 0])" by (simp add: ex_request_def cstr_def)
  with * show ?thesis by (auto simp: rpc_boot_def echo_def params_are_def)
qed

text \<open>A document with no name of a request is answered with a parse error, and a document of another
  version, without version or without method with an invalid request error and its id, also when it has
  no id. No method is called and no block is lost.\<close>

theorem rpc_service_rejects:
  assumes "r_sem s > 0" "pending_job s = Some job" "is_doc job es" "doc_size es \<le> 65536" "\<forall>n sz. malloc n sz"
    "member es (cstr ''jsonrpc'') = map_option (\<lambda>v. (0x02, string_value v)) ver"
    "case ver of None \<Rightarrow> True | Some v \<Rightarrow>
       name_ok v \<and> (v = PERIDOT_RPCSRV_JSONRPC_VER \<longrightarrow> member es (cstr ''method'') = None)"
  shows "peridot_rpc_server_service malloc junk s = Some (after_reply 1 1
    [reply_doc (member es (cstr ''id'')) (Inl (if names es \<inter> set rpc_names = {} then JSONRPC_ERR_PARSE_ERROR
       else JSONRPC_ERR_INVALID_REQUEST))] (s\<lparr>r_sem := r_sem s - 1, pending_job := None\<rparr>))"
proof -
  have reply: "send_reply malloc job (first_off 4 es (cstr ''id'')) None e (taken_job s) =
      Some (after_reply 1 1 [reply_doc (member es (cstr ''id'')) (Inl e)] (taken_job s))" if "e \<noteq> 0" for e
    using send_reply_ok [OF id_at_member [OF assms(3,4)], of None e malloc "taken_job s"] that assms(5)
    by (simp add: outcome_of_def)
  have e: "JSONRPC_ERR_PARSE_ERROR \<noteq> 0" "JSONRPC_ERR_INVALID_REQUEST \<noteq> 0" by (simp_all add: jsonrpc_errors)
  show ?thesis
  proof (cases "names es \<inter> set rpc_names = {}")
    case True
    then have none: "filter (\<lambda>k. k \<in> names es) rpc_names = []" by (auto simp: filter_empty_conv)
    show ?thesis
      using assms(1,2) True reply [OF e(1)]
      by (simp add: peridot_rpc_server_service_def get_rpc_props [OF assms(3)] none Let_def off_of_found taken_job_def)
  next
    case False
    then obtain k where k: "k \<in> names es" "k \<in> set rpc_names" by blast
    have "request_method job (first_off 4 es (cstr ''jsonrpc'')) (first_off 4 es (cstr ''method'')) = Some None"
    proof (cases ver)
      case None
      with assms(6) show ?thesis by (simp add: request_method_def get_string_absent)
    next
      case (Some v)
      with assms(6,7) obtain q where
        "bson_get_string (Some job) (first_off 4 es (cstr ''jsonrpc'')) = Some (Some q)" "c_string job q = Some v"
        using get_string_member [OF assms(3,4), of "cstr ''jsonrpc''" v] by auto
      with Some assms(7) c_streq_string [of job q v PERIDOT_RPCSRV_JSONRPC_VER] show ?thesis
        by (auto simp: request_method_def get_string_absent)
    qed
    with False reply [OF e(2)] show ?thesis
      by (simp add: service_serves [OF assms(1-3) k] serve_def off_of_found Let_def) (simp add: taken_job_def)
  qed
qed

theorem rpc_service_rejects_witness:
  "\<exists>s'. peridot_rpc_server_service (\<lambda>_ _. True) 0 (rpc_boot [] ()
       \<lparr>r_sem := 1, pending_job := Some bson_empty_document\<rparr>) = Some s' \<and>
     sent s' = [(reply_doc None (Inl (-32700)), SOURCE_PACKETIZED)]"
  using rpc_service_rejects [of "rpc_boot [] ()\<lparr>r_sem := 1, pending_job := Some bson_empty_document\<rparr>"
      bson_empty_document "[]" "\<lambda>_ _. True" None 0] is_doc_empty [of "[]"]
  by (simp add: doc_size_def names_def after_reply_def rpc_boot_def JSONRPC_ERR_PARSE_ERROR_def)

text \<open>C20: The callback of an asynchronous method answers with the id of the job it kept, whenever it comes,
  and not at all for a notification. Without memory for the reply of a result it tries an internal error,
  and without memory for that the request stays unanswered; in every case job and result are freed.\<close>

theorem rpc_callback_answers:
  assumes "is_doc job es" "doc_size es \<le> 65536" "outcome_ok (outcome_of result e)" "e \<noteq> 0 \<longrightarrow> result = None"
  shows "peridot_rpc_server_async_callback malloc junk job result e s = Some
    (let s = s\<lparr>async_jobs := remove1 job (async_jobs s)\<rparr>; out = outcome_of result e; b = 1 + result_blocks result in
      case member es (cstr ''id'') of
        None \<Rightarrow> after_reply 0 b [] s
      | Some i \<Rightarrow>
          if malloc (mallocs s) (reply_words (Some i) out) then after_reply 1 b [reply_doc (Some i) out] s
          else if e \<noteq> 0 then after_reply 1 b [] s
          else if malloc (mallocs s + 1) (reply_words (Some i) (Inl JSONRPC_ERR_INTERNAL_ERROR))
          then after_reply 2 b [reply_doc (Some i) (Inl JSONRPC_ERR_INTERNAL_ERROR)] s
          else after_reply 2 b [] s)"
proof -
  let ?s = "s\<lparr>async_jobs := remove1 job (async_jobs s)\<rparr>"
  have r: "(if e = 0 then result_blocks result else 0) = result_blocks result" "e \<noteq> 0 \<Longrightarrow> result_blocks result = 0"
    using assms(4) by (simp_all add: result_blocks_def)
  have g: "bson_get_props (Some job) [(cstr ''id'', junk)] =
      Some (if member es (cstr ''id'') = None then 0 else 1, found_props es [cstr ''id''])"
    using get_props_finds [OF assms(1), of "[(cstr ''id'', junk)]"] first_off_present [of "cstr ''id''" es 4]
      member_off [of es "cstr ''id''"] member_names [of es "cstr ''id''"]
    by (auto simp: found_props_def keys_ok_def)
  show ?thesis
  proof (cases "member es (cstr ''id'')")
    case None
    then show ?thesis
      by (simp add: peridot_rpc_server_async_callback_def g Let_def rpc_free_def result_blocks_def after_reply_def)
  next
    case (Some i)
    note at = id_at_member [OF assms(1,2), unfolded Some]
    show ?thesis
    proof (cases "malloc (mallocs s) (reply_words (Some i) (outcome_of result e))")
      case True
      then show ?thesis using send_reply_ok [OF at assms(3), of malloc ?s] r(1)
        by (simp add: peridot_rpc_server_async_callback_def g Some Let_def off_of_found)
    next
      case False
      then show ?thesis using send_reply_no_memory [OF at assms(3), of malloc ?s] r(2)
        by (simp add: peridot_rpc_server_async_callback_def g Some Let_def off_of_found)
    qed
  qed
qed

theorem rpc_callback_answers_witness:
  "\<exists>s'. peridot_rpc_server_async_callback (\<lambda>n _. n > 0) 0 (enc_doc ex_request) None 0 (rpc_boot [] ()) = Some s' \<and>
     sent s' = [(reply_doc (Some (0x10, [7, 0, 0, 0])) (Inl (-32603)), SOURCE_PACKETIZED)]"
proof -
  have "member ex_request (cstr ''id'') = Some (0x10, [7, 0, 0, 0])" by (simp add: ex_request_def cstr_def)
  then show ?thesis
    using rpc_callback_answers [of "enc_doc ex_request" ex_request None 0 "\<lambda>n _. n > 0" 0 "rpc_boot [] ()"] ex_request_ok
    by (simp add: request_def outcome_of_def Let_def after_reply_def rpc_boot_def JSONRPC_ERR_INTERNAL_ERROR_def)
qed

end
