(* ===== verification/Client_Fs.thy ===== *)
theory Client_Fs
  imports Rpc_Server Md5
begin

text \<open>
  The file service for the host (\<open>peridot_client_fs.c\<close>): RPC methods that open, read, write, seek, hash
  and close files of the paths the firmware has opened up, over a table of virtual file descriptors.

  \<^item> The file system below (\<open>open\<close>, \<open>read\<close> and so on of the C library) is the parameter \<open>px\<close>: functions
    on a state \<open>'f\<close> that answer the return value and \<open>errno\<close>.
  \<^item> A method is a function of its parameter document and the state, as the RPC server registers it; its
    answer is the result document or NULL, \<open>errno\<close> and the state. \<open>None\<close> is undefined behaviour.
  \<^item> \<open>fs_blocks\<close> counts the blocks the service has allocated and neither freed nor handed over.
  \<^item> \<open>ua\<close> says whether the processor stores words at unaligned addresses.
  \<^item> \<open>junk\<close> is the value of uninitialised variables.
\<close>

section \<open>State\<close>

record 'f posix =
  px_open :: "byte list \<Rightarrow> int \<Rightarrow> int \<Rightarrow> 'f \<Rightarrow> 'f \<times> int \<times> int"
  px_close :: "int \<Rightarrow> 'f \<Rightarrow> 'f \<times> int \<times> int"
  px_read :: "int \<Rightarrow> int \<Rightarrow> 'f \<Rightarrow> 'f \<times> byte list \<times> int \<times> int"
  px_write :: "int \<Rightarrow> byte list \<Rightarrow> 'f \<Rightarrow> 'f \<times> int \<times> int"
  px_lseek :: "int \<Rightarrow> int \<Rightarrow> int \<Rightarrow> 'f \<Rightarrow> 'f \<times> int \<times> int"
  px_ioctl :: "int \<Rightarrow> int \<Rightarrow> byte list option \<Rightarrow> 'f \<Rightarrow> 'f \<times> byte list \<times> int \<times> int"

record path_entry =
  pe_name :: "byte list"
  pe_flags :: int

record 'f cfs =
  vfd_list :: "int list"
  path_list :: "path_entry list"
  fs_mallocs :: nat
  fs_blocks :: int
  files :: 'f

type_synonym 'f fs_result = "(mem option \<times> int \<times> 'f cfs) option"

definition PERIDOT_CLIENT_FS_MAX_FDS :: int where "PERIDOT_CLIENT_FS_MAX_FDS = 16"
definition VFD_FREE :: int where "VFD_FREE = -1"
definition VFD_ALLOC :: int where "VFD_ALLOC = -2"
definition VFD_CANCELED :: int where "VFD_CANCELED = -3"

lemmas vfd_defs = PERIDOT_CLIENT_FS_MAX_FDS_def VFD_FREE_def VFD_ALLOC_def VFD_CANCELED_def

definition JSONRPC_ERR_INVALID_PARAMS :: int where "JSONRPC_ERR_INVALID_PARAMS = -32602"

lemmas fs_errors = EBADF_def ENOMEM_def EACCES_def EMFILE_def JSONRPC_ERR_INVALID_PARAMS_def
  JSONRPC_ERR_INVALID_REQUEST_def

definition SLASH :: byte where "SLASH = 0x2f"
definition COLON :: byte where "COLON = 0x3a"

section \<open>Virtual file descriptors\<close>

fun first_free :: "int list \<Rightarrow> int \<Rightarrow> int" where
  "first_free [] i = -1"
| "first_free (v # vs) i = (if v = VFD_FREE then i else first_free vs (i + 1))"

definition peridot_client_fs_alloc_vfd :: "'f cfs \<Rightarrow> 'f cfs \<times> int" where
  "peridot_client_fs_alloc_vfd s =
     (let vfd = first_free (vfd_list s) 0 in
      if vfd < 0 then (s, -1) else (s\<lparr>vfd_list := (vfd_list s)[nat vfd := VFD_ALLOC]\<rparr>, vfd))"

definition peridot_client_fs_free_vfd :: "int \<Rightarrow> 'f cfs \<Rightarrow> 'f cfs" where
  "peridot_client_fs_free_vfd vfd s = s\<lparr>vfd_list := (vfd_list s)[nat vfd := VFD_FREE]\<rparr>"

text \<open>Either the error number or the virtual and the real descriptor.\<close>

definition peridot_client_fs_get_fd :: "mem option \<Rightarrow> int \<Rightarrow> 'f cfs \<Rightarrow> (int + int \<times> int) option" where
  "peridot_client_fs_get_fd params off_vfd s =
     (if off_vfd < 0 then Some (Inl JSONRPC_ERR_INVALID_PARAMS)
      else do { vfd \<leftarrow> bson_get_int32 params off_vfd (-1);
                Some (if vfd < 0 \<or> vfd \<ge> PERIDOT_CLIENT_FS_MAX_FDS then Inl EBADF
                      else let fd = vfd_list s ! nat vfd in if fd < 0 then Inl EBADF else Inr (vfd, fd)) })"

section \<open>Paths\<close>

text \<open>\<open>path[i]\<close> of a C string.\<close>

definition char_at :: "byte list \<Rightarrow> nat \<Rightarrow> byte" where
  "char_at path i = (if i < length path then path ! i else 0)"

text \<open>The loop over the entries; \<open>len\<close> is the length of the path without a slash at its end.\<close>

fun validate_loop :: "path_entry list \<Rightarrow> byte list \<Rightarrow> nat \<Rightarrow> int \<Rightarrow> bool" where
  "validate_loop [] path len acc_requested = False"
| "validate_loop (entry # es) path len acc_requested =
     (let elen = length (pe_name entry) in
      if len < elen then validate_loop es path len acc_requested
      else if pe_name entry \<noteq> take elen path then validate_loop es path len acc_requested
      else
        let acc_granted = (pe_flags entry AND O_ACCMODE) + 1 in
        if acc_granted AND acc_requested \<noteq> acc_requested then False
        else
          let sep = char_at path elen in
          if pe_flags entry AND O_DIRECTORY \<noteq> 0 then
            (if sep = SLASH \<or> sep = 0 then True else validate_loop es path len acc_requested)
          else (if sep = 0 then True else validate_loop es path len acc_requested))"

definition peridot_client_fs_validate_path :: "path_entry list \<Rightarrow> byte list \<Rightarrow> int \<Rightarrow> bool" where
  "peridot_client_fs_validate_path entries path flags =
     (let acc_requested = (flags AND O_ACCMODE) + 1; len = length path in
      if len = 0 then False
      else let len = (if path ! (len - 1) = SLASH then len - 1 else len) in
        validate_loop entries path len acc_requested)"

definition fs_malloc :: "allocator \<Rightarrow> u32 \<Rightarrow> 'f cfs \<Rightarrow> 'f cfs \<times> bool" where
  "fs_malloc malloc sz s =
     (if malloc (fs_mallocs s) sz then (s\<lparr>fs_mallocs := fs_mallocs s + 1, fs_blocks := fs_blocks s + 1\<rparr>, True)
      else (s\<lparr>fs_mallocs := fs_mallocs s + 1\<rparr>, False))"

definition fs_free :: "'f cfs \<Rightarrow> 'f cfs" where
  "fs_free s = s\<lparr>fs_blocks := fs_blocks s - 1\<rparr>"

definition peridot_client_fs_add_path :: "allocator \<Rightarrow> byte list \<Rightarrow> nat \<Rightarrow> int \<Rightarrow> bool \<Rightarrow> 'f cfs \<Rightarrow> 'f cfs" where
  "peridot_client_fs_add_path malloc path len flags copy s =
     (case fs_malloc malloc (16 + (if copy then of_nat len else 0)) s of
        (s, False) \<Rightarrow> s
      | (s, True) \<Rightarrow>
          s\<lparr>path_list := path_list s @
              [\<lparr>pe_name = take len path, pe_flags = flags AND (O_ACCMODE OR O_DIRECTORY)\<rparr>]\<rparr>)"

fun find_separator :: "byte list \<Rightarrow> nat" where
  "find_separator [] = 0"
| "find_separator (ch # text) = (if ch = COLON then 0 else Suc (find_separator text))"

function peridot_client_fs_add_list :: "allocator \<Rightarrow> byte list \<Rightarrow> int \<Rightarrow> 'f cfs \<Rightarrow> 'f cfs" where
  "peridot_client_fs_add_list malloc list flags s =
     (let next = find_separator list in
      if next = 0 then
        (if list \<noteq> [] then peridot_client_fs_add_list malloc (drop 1 list) flags s else s)
      else
        let s = (if list ! (next - 1) = SLASH
                 then peridot_client_fs_add_path malloc list (next - 1) (flags OR O_DIRECTORY) False s
                 else peridot_client_fs_add_path malloc list next flags False s) in
        if next \<ge> length list then s
        else peridot_client_fs_add_list malloc (drop (next + 1) list) flags s)"
  by pat_completeness auto
termination
  by (relation "measure (\<lambda>(malloc, list, flags, s). length list)") auto

declare peridot_client_fs_add_list.simps [simp del]

definition peridot_client_fs_add_file :: "allocator \<Rightarrow> byte list \<Rightarrow> int \<Rightarrow> 'f cfs \<Rightarrow> 'f cfs" where
  "peridot_client_fs_add_file malloc path flags s =
     peridot_client_fs_add_path malloc path (length path) (flags AND O_ACCMODE) True s"

definition peridot_client_fs_add_directory :: "allocator \<Rightarrow> byte list \<Rightarrow> int \<Rightarrow> 'f cfs \<Rightarrow> 'f cfs option" where
  "peridot_client_fs_add_directory malloc path flags s =
     (if path = [] then None
      else let len = (if last path = SLASH then length path - 1 else length path) in
        Some (peridot_client_fs_add_path malloc path len ((flags AND O_ACCMODE) OR O_DIRECTORY) True s))"

section \<open>Methods\<close>

text \<open>What the methods have in common: an error, the members of the parameters, the descriptor, a block
  for the result, and the result handed over to the caller.\<close>

definition fs_fail :: "int \<Rightarrow> 'f cfs \<Rightarrow> 'f fs_result" where
  "fs_fail e s = Some (None, e, s)"

definition fs_give :: "mem option \<Rightarrow> int \<Rightarrow> 'f cfs \<Rightarrow> 'f fs_result" where
  "fs_give m e s = Some (m, e, fs_free s)"

definition with_props :: "byte list list \<Rightarrow> int \<Rightarrow> mem option \<Rightarrow> 'f cfs \<Rightarrow> (props \<Rightarrow> 'f fs_result) \<Rightarrow> 'f fs_result" where
  "with_props ks junk params s k =
     do { (n, ps) \<leftarrow> bson_get_props params (map (\<lambda>k. (k, junk)) ks);
          if n < 0 then fs_fail JSONRPC_ERR_INVALID_REQUEST s else k ps }"

definition with_fd :: "mem option \<Rightarrow> props \<Rightarrow> 'f cfs \<Rightarrow> (int \<Rightarrow> int \<Rightarrow> 'f fs_result) \<Rightarrow> 'f fs_result" where
  "with_fd params ps s k =
     do { r \<leftarrow> peridot_client_fs_get_fd params (off_of (cstr ''fd'') ps) s;
          case r of Inl e \<Rightarrow> fs_fail e s | Inr (vfd, fd) \<Rightarrow> k vfd fd }"

definition with_block :: "allocator \<Rightarrow> int \<Rightarrow> 'f cfs \<Rightarrow> (mem \<Rightarrow> 'f cfs \<Rightarrow> 'f fs_result) \<Rightarrow> 'f fs_result" where
  "with_block malloc n s k =
     (case fs_malloc malloc (word_of_int n) s of
        (s, False) \<Rightarrow> fs_fail ENOMEM s
      | (s, True) \<Rightarrow> k (replicate (unat (word_of_int n :: u32)) 0) s)"

text \<open>A result of one integer.\<close>

definition int_result :: "byte list \<Rightarrow> int \<Rightarrow> mem \<Rightarrow> mem option option" where
  "int_result key v m =
     do { m \<leftarrow> bson_create_empty_document m;
          (m, _) \<leftarrow> bson_set_int32 (Some m) key v;
          Some m }"

subsection \<open>\<open>fs.open\<close>\<close>

text \<open>The parameters: an error or path, flags and mode.\<close>

definition open_params :: "mem option \<Rightarrow> props \<Rightarrow> (byte list \<times> int \<times> int) option option" where
  "open_params params ps =
     do { path \<leftarrow> bson_get_string params (off_of (cstr ''path'') ps);
          case path of
            None \<Rightarrow> Some None
          | Some p \<Rightarrow>
              do { flags \<leftarrow> bson_get_int32 params (off_of (cstr ''flags'') ps) (-1);
                   if flags = -1 then Some None
                   else do {
                     mode \<leftarrow> (if off_of (cstr ''mode'') ps \<ge> 0
                             then bson_get_int32 params (off_of (cstr ''mode'') ps) (-1) else Some 0x1ff);
                     if mode = -1 then Some None
                     else do { str \<leftarrow> c_string (the params) p; Some (Some (str, flags, mode)) } } } }"

text \<open>After \<open>open\<close> has succeeded: the descriptor is entered unless the slot was cancelled.\<close>

definition open_commit :: "'f posix \<Rightarrow> mem \<Rightarrow> int \<Rightarrow> int \<Rightarrow> 'f cfs \<Rightarrow> 'f fs_result" where
  "open_commit px m vfd fd s =
     (if vfd_list s ! nat vfd = VFD_ALLOC then
        do { m \<leftarrow> int_result (cstr ''fd'') vfd m;
             fs_give m 0 (s\<lparr>vfd_list := (vfd_list s)[nat vfd := fd]\<rparr>) }
      else
        let s = fs_free (peridot_client_fs_free_vfd vfd s); (f, _, _) = px_close px fd (files s) in
        fs_fail EBADF (s\<lparr>files := f\<rparr>))"

text \<open>\<open>meanwhile\<close> is what other threads do to the state while \<open>open\<close> runs.\<close>

definition peridot_client_fs_open ::
    "'f posix \<Rightarrow> allocator \<Rightarrow> int \<Rightarrow> ('f cfs \<Rightarrow> 'f cfs) \<Rightarrow> mem option \<Rightarrow> 'f cfs \<Rightarrow> 'f fs_result" where
  "peridot_client_fs_open px malloc junk meanwhile params s =
     with_props [cstr ''path'', cstr ''flags'', cstr ''mode''] junk params s (\<lambda>ps.
     do { r \<leftarrow> open_params params ps;
          case r of
            None \<Rightarrow> fs_fail JSONRPC_ERR_INVALID_PARAMS s
          | Some (path, flags, mode) \<Rightarrow>
              if \<not> peridot_client_fs_validate_path (path_list s) path flags then fs_fail EACCES s
              else do {
                n \<leftarrow> bson_measure_int32 (cstr ''fd'');
                with_block malloc (bson_empty_size + n) s (\<lambda>m s.
                  case peridot_client_fs_alloc_vfd s of (s, vfd) \<Rightarrow>
                  if vfd < 0 then fs_fail EMFILE (fs_free s)
                  else case px_open px path flags mode (files s) of (f, fd, e) \<Rightarrow>
                    let s = meanwhile (s\<lparr>files := f\<rparr>) in
                    if fd < 0 then fs_fail e (peridot_client_fs_free_vfd vfd (fs_free s))
                    else open_commit px m vfd fd s) } })"

subsection \<open>\<open>fs.close\<close>, \<open>fs.read\<close> and \<open>fs.hash\<close>\<close>

definition peridot_client_fs_close :: "'f posix \<Rightarrow> int \<Rightarrow> mem option \<Rightarrow> 'f cfs \<Rightarrow> 'f fs_result" where
  "peridot_client_fs_close px junk params s =
     with_props [cstr ''fd''] junk params s (\<lambda>ps.
     with_fd params ps s (\<lambda>vfd fd.
       let s = s\<lparr>vfd_list := (vfd_list s)[nat vfd := VFD_ALLOC]\<rparr> in
       case px_close px fd (files s) of (f, r, e) \<Rightarrow>
       let s = s\<lparr>files := f\<rparr> in
       if r < 0 then fs_fail e (s\<lparr>vfd_list := (vfd_list s)[nat vfd := fd]\<rparr>)
       else fs_fail 0 (peridot_client_fs_free_vfd vfd s)))"

definition peridot_client_fs_read :: "'f posix \<Rightarrow> allocator \<Rightarrow> int \<Rightarrow> mem option \<Rightarrow> 'f cfs \<Rightarrow> 'f fs_result" where
  "peridot_client_fs_read px malloc junk params s =
     with_props [cstr ''fd'', cstr ''length''] junk params s (\<lambda>ps.
     with_fd params ps s (\<lambda>vfd fd.
     do { len \<leftarrow> bson_get_int32 params (off_of (cstr ''length'') ps) (-1);
          if len < 0 then fs_fail JSONRPC_ERR_INVALID_PARAMS s
          else do {
            a \<leftarrow> bson_measure_binary (cstr ''data'') len;
            b \<leftarrow> bson_measure_int32 (cstr ''length'');
            with_block malloc (bson_empty_size + a + b) s (\<lambda>m s.
              do { m \<leftarrow> bson_create_empty_document m;
                   (m, _, buf) \<leftarrow> bson_set_binary_generic (Some m) (cstr ''data'') len;
                   m \<leftarrow> m; buf \<leftarrow> buf;
                   case px_read px fd len (files s) of (f, bytes, rlen, e) \<Rightarrow>
                   do { let s = s\<lparr>files := f\<rparr>;
                        m \<leftarrow> wr_block m buf bytes;
                        if rlen < 0 then fs_fail e (fs_free s)
                        else do { (m, _) \<leftarrow> bson_shrink_binary m buf rlen;
                                  (m, _) \<leftarrow> bson_set_int32 (Some m) (cstr ''length'') rlen;
                                  fs_give m e s } } }) } }))"

text \<open>The four words of a digest at the address \<open>p\<close> bytes behind an aligned block.\<close>

definition store_words :: "bool \<Rightarrow> mem \<Rightarrow> int \<Rightarrow> u32 \<times> u32 \<times> u32 \<times> u32 \<Rightarrow> mem option" where
  "store_words ua m p ws =
     (case ws of (a, b, c, d) \<Rightarrow>
      if \<not> ua \<and> p mod 4 \<noteq> 0 then None
      else wr_block m p (int_object (uint a) @ int_object (uint b) @ int_object (uint c) @ int_object (uint d)))"

definition hash_result :: "bool \<Rightarrow> mem option \<Rightarrow> int \<Rightarrow> mem \<Rightarrow> int \<Rightarrow> mem \<Rightarrow> mem option option" where
  "hash_result ua params off_method buf rlen m =
     do { m \<leftarrow> bson_create_empty_document m;
          (m, _) \<leftarrow> bson_set_int32 (Some m) (cstr ''length'') rlen;
          method \<leftarrow> bson_get_string params off_method;
          md5 \<leftarrow> (case method of None \<Rightarrow> Some False | Some p \<Rightarrow> c_streq (the params) p (cstr ''md5''));
          if md5 then
            do { (m, _, phash) \<leftarrow> bson_set_binary_generic m (cstr ''hash'') 16;
                 m \<leftarrow> m; phash \<leftarrow> phash;
                 ws \<leftarrow> digest_md5_calc buf rlen;
                 m \<leftarrow> store_words ua m phash ws;
                 Some (Some m) }
          else Some None }"

definition peridot_client_fs_hash :: "bool \<Rightarrow> 'f posix \<Rightarrow> allocator \<Rightarrow> int \<Rightarrow> mem option \<Rightarrow> 'f cfs \<Rightarrow> 'f fs_result" where
  "peridot_client_fs_hash ua px malloc junk params s =
     with_props [cstr ''fd'', cstr ''length'', cstr ''method''] junk params s (\<lambda>ps.
     with_fd params ps s (\<lambda>vfd fd.
     do { len \<leftarrow> bson_get_int32 params (off_of (cstr ''length'') ps) (-1);
          if len < 0 then fs_fail JSONRPC_ERR_INVALID_PARAMS s
          else with_block malloc len s (\<lambda>buf s.
            case px_read px fd len (files s) of (f, bytes, rlen, e) \<Rightarrow>
            do { let s = s\<lparr>files := f\<rparr>;
                 buf \<leftarrow> wr_block buf 0 bytes;
                 if rlen < 0 then fs_fail e (fs_free s)
                 else do {
                   a \<leftarrow> bson_measure_int32 (cstr ''length'');
                   b \<leftarrow> bson_measure_binary (cstr ''hash'') 32;
                   let n = bson_empty_size + a + b + len;
                   case fs_malloc malloc (word_of_int n) s of
                     (s, False) \<Rightarrow> fs_fail ENOMEM (fs_free s)
                   | (s, True) \<Rightarrow>
                       do { r \<leftarrow> hash_result ua params (off_of (cstr ''method'') ps) buf rlen
                              (replicate (unat (word_of_int n :: u32)) 0);
                            case r of
                              None \<Rightarrow> fs_fail JSONRPC_ERR_INVALID_PARAMS (fs_free (fs_free s))
                            | Some m \<Rightarrow> fs_give (Some m) e (fs_free s) } } }) }))"

subsection \<open>\<open>fs.write\<close>, \<open>fs.lseek\<close> and \<open>fs.ioctl\<close>\<close>

definition peridot_client_fs_write :: "'f posix \<Rightarrow> allocator \<Rightarrow> int \<Rightarrow> mem option \<Rightarrow> 'f cfs \<Rightarrow> 'f fs_result" where
  "peridot_client_fs_write px malloc junk params s =
     with_props [cstr ''fd'', cstr ''data''] junk params s (\<lambda>ps.
     with_fd params ps s (\<lambda>vfd fd.
     do { data \<leftarrow> bson_get_binary params (off_of (cstr ''data'') ps);
          case data of
            None \<Rightarrow> fs_fail JSONRPC_ERR_INVALID_PARAMS s
          | Some (p, binlen) \<Rightarrow>
              do { n \<leftarrow> bson_measure_int32 (cstr ''length'');
                   with_block malloc (bson_empty_size + n) s (\<lambda>m s.
                     do { bytes \<leftarrow> rd_block (the params) p binlen;
                          case px_write px fd bytes (files s) of (f, written_len, e) \<Rightarrow>
                          let s = s\<lparr>files := f\<rparr> in
                          if written_len < 0 then fs_fail e (fs_free s)
                          else do { m \<leftarrow> int_result (cstr ''length'') written_len m; fs_give m e s } }) } }))"

definition peridot_client_fs_lseek :: "'f posix \<Rightarrow> allocator \<Rightarrow> int \<Rightarrow> mem option \<Rightarrow> 'f cfs \<Rightarrow> 'f fs_result" where
  "peridot_client_fs_lseek px malloc junk params s =
     with_props [cstr ''fd'', cstr ''offset'', cstr ''whence''] junk params s (\<lambda>ps.
     with_fd params ps s (\<lambda>vfd fd.
     do { offset \<leftarrow> bson_get_int32 params (off_of (cstr ''offset'') ps) 0;
          whence \<leftarrow> bson_get_int32 params (off_of (cstr ''whence'') ps) (-1);
          if whence < 0 \<or> whence > 2 then fs_fail JSONRPC_ERR_INVALID_PARAMS s
          else do {
            n \<leftarrow> bson_measure_int32 (cstr ''offset'');
            with_block malloc (bson_empty_size + n) s (\<lambda>m s.
              case px_lseek px fd offset whence (files s) of (f, offset_after, e) \<Rightarrow>
              let s = s\<lparr>files := f\<rparr> in
              if offset_after < 0 then fs_fail e (fs_free s)
              else do { m \<leftarrow> int_result (cstr ''offset'') offset_after m; fs_give m e s }) } }))"

text \<open>Without an argument \<open>ioctl\<close> gets the uninitialised pointer \<open>arg_output\<close>, here \<open>None\<close>.\<close>

definition peridot_client_fs_ioctl :: "'f posix \<Rightarrow> allocator \<Rightarrow> int \<Rightarrow> mem option \<Rightarrow> 'f cfs \<Rightarrow> 'f fs_result" where
  "peridot_client_fs_ioctl px malloc junk params s =
     with_props [cstr ''fd'', cstr ''req'', cstr ''arg''] junk params s (\<lambda>ps.
     with_fd params ps s (\<lambda>vfd fd.
     do { req \<leftarrow> bson_get_int32 params (off_of (cstr ''req'') ps) (-1);
          arg \<leftarrow> bson_get_binary params (off_of (cstr ''arg'') ps);
          if req < 0 then fs_fail JSONRPC_ERR_INVALID_PARAMS s
          else do {
            a \<leftarrow> bson_measure_int32 (cstr ''result'');
            b \<leftarrow> (case arg of Some (_, arg_len) \<Rightarrow> bson_measure_binary (cstr ''response'') arg_len
                   | None \<Rightarrow> bson_measure_null (cstr ''response''));
            with_block malloc (bson_empty_size + a + b) s (\<lambda>m s.
              do { m \<leftarrow> bson_create_empty_document m;
                   (m, arg_output) \<leftarrow>
                     (case arg of
                        Some (p, arg_len) \<Rightarrow>
                          do { (m, _, out) \<leftarrow> bson_set_binary_generic (Some m) (cstr ''response'') arg_len;
                               m \<leftarrow> m; out \<leftarrow> out;
                               bytes \<leftarrow> rd_block (the params) p arg_len;
                               m \<leftarrow> wr_block m out bytes;
                               Some (m, Some (out, bytes)) }
                      | None \<Rightarrow> do { (m, _) \<leftarrow> bson_set_null (Some m) (cstr ''response''); m \<leftarrow> m; Some (m, None) });
                   case px_ioctl px fd req (map_option snd arg_output) (files s) of (f, bytes, return_value, e) \<Rightarrow>
                   do { let s = s\<lparr>files := f\<rparr>;
                        m \<leftarrow> (case arg_output of None \<Rightarrow> Some m | Some (out, _) \<Rightarrow> wr_block m out bytes);
                        if return_value < 0 then fs_fail e (fs_free s)
                        else do { (m, _) \<leftarrow> bson_set_int32 (Some m) (cstr ''result'') return_value;
                                  fs_give m e s } } }) } }))"

subsection \<open>\<open>fs.cleanup\<close> and the start\<close>

fun cleanup_loop :: "'f posix \<Rightarrow> int list \<Rightarrow> 'f \<Rightarrow> int list \<times> 'f" where
  "cleanup_loop px [] f = ([], f)"
| "cleanup_loop px (fd # vs) f =
     (let v = (if fd = VFD_ALLOC then VFD_CANCELED else fd);
          (v, f) = (if fd \<ge> 0 then (VFD_FREE, fst (px_close px fd f)) else (v, f));
          (vs, f) = cleanup_loop px vs f in (v # vs, f))"

definition peridot_client_fs_cleanup :: "'f posix \<Rightarrow> mem option \<Rightarrow> 'f cfs \<Rightarrow> 'f fs_result" where
  "peridot_client_fs_cleanup px params s =
     (case cleanup_loop px (vfd_list s) (files s) of (vs, f) \<Rightarrow>
        Some (None, 0, s\<lparr>vfd_list := vs, files := f\<rparr>))"

definition fs_methods :: "bool \<Rightarrow> 'f posix \<Rightarrow> allocator \<Rightarrow> int \<Rightarrow> (byte list \<times> (mem option \<Rightarrow> 'f cfs \<Rightarrow> 'f fs_result)) list" where
  "fs_methods ua px malloc junk =
     [(cstr ''fs.open'', peridot_client_fs_open px malloc junk id), (cstr ''fs.close'', peridot_client_fs_close px junk),
      (cstr ''fs.read'', peridot_client_fs_read px malloc junk), (cstr ''fs.hash'', peridot_client_fs_hash ua px malloc junk),
      (cstr ''fs.write'', peridot_client_fs_write px malloc junk), (cstr ''fs.lseek'', peridot_client_fs_lseek px malloc junk),
      (cstr ''fs.ioctl'', peridot_client_fs_ioctl px malloc junk), (cstr ''fs.cleanup'', peridot_client_fs_cleanup px)]"

text \<open>\<open>alloc\<close> is the allocator of the RPC server, \<open>malloc\<close> that of the service.\<close>

definition peridot_client_fs_init ::
    "bool \<Rightarrow> 'f posix \<Rightarrow> allocator \<Rightarrow> allocator \<Rightarrow> int \<Rightarrow> byte list \<Rightarrow> byte list \<Rightarrow> byte list \<Rightarrow> 'f cfs rpc \<Rightarrow> 'f cfs rpc" where
  "peridot_client_fs_init ua px alloc malloc junk rw_path ro_path wo_path r =
     (let s = (world r)\<lparr>vfd_list := replicate (nat PERIDOT_CLIENT_FS_MAX_FDS) VFD_FREE\<rparr>;
          s = peridot_client_fs_add_list malloc rw_path O_RDWR s;
          s = peridot_client_fs_add_list malloc ro_path O_RDONLY s;
          s = peridot_client_fs_add_list malloc wo_path O_WRONLY s in
      foldl (\<lambda>r (name, f). fst (peridot_rpc_server_register_sync_method alloc name f r)) (r\<lparr>world := s\<rparr>)
        (fs_methods ua px malloc junk))"

end
