(* ===== verification/Client_Fs_Props.thy ===== *)
theory Client_Fs_Props
  imports Client_Fs Rpc_Reply
begin

text \<open>
  Properties of the file service: what the access check lets through, what each method answers, that no
  method leaves its blocks, loses a block or breaks the table of descriptors, and the digest of a file.
\<close>

section \<open>Assumptions and invariant\<close>

definition fs_ok :: "'f cfs \<Rightarrow> bool" where
  "fs_ok s \<longleftrightarrow> length (vfd_list s) = 16"

text \<open>\<open>read\<close> stores at most the bytes asked for and returns how many; \<open>ioctl\<close> keeps the size of its argument.\<close>

definition posix_ok :: "'f posix \<Rightarrow> bool" where
  "posix_ok px \<longleftrightarrow>
     (\<forall>fd len f f' bytes r e. px_read px fd len f = (f', bytes, r, e) \<longrightarrow>
        length bytes \<le> nat len \<and> (0 \<le> r \<longrightarrow> r = int (length bytes))) \<and>
     (\<forall>fd req arg f f' bytes r e. px_ioctl px fd req (Some arg) f = (f', bytes, r, e) \<longrightarrow> length bytes = length arg)"

text \<open>No block of 256 megabytes.\<close>

definition no_huge :: "allocator \<Rightarrow> bool" where
  "no_huge malloc \<longleftrightarrow> (\<forall>n sz. malloc n sz \<longrightarrow> unat sz < 268435456)"

lemma posix_read:
  assumes "posix_ok px" "px_read px fd len f = (f', bytes, r, e)"
  shows "length bytes \<le> nat len" "0 \<le> r \<Longrightarrow> r = int (length bytes)"
  using assms unfolding posix_ok_def by blast+

lemma posix_ioctl:
  assumes "posix_ok px" "px_ioctl px fd req (Some arg) f = (f', bytes, r, e)"
  shows "length bytes = length arg"
  using assms unfolding posix_ok_def by blast

section \<open>What the methods have in common\<close>

lemma fs_names [simp]: "name_ok (cstr ''fd'')" "name_ok (cstr ''path'')" "name_ok (cstr ''flags'')" "name_ok (cstr ''mode'')"
  "name_ok (cstr ''length'')" "name_ok (cstr ''data'')" "name_ok (cstr ''offset'')" "name_ok (cstr ''whence'')"
  "name_ok (cstr ''req'')" "name_ok (cstr ''arg'')" "name_ok (cstr ''response'')" "name_ok (cstr ''hash'')" "name_ok (cstr ''md5'')"
  by (simp_all add: name_ok_def cstr_def)

lemma with_props_ok:
  assumes "is_doc m es" "distinct ks" "\<forall>k \<in> set ks. name_ok k"
  shows "with_props ks junk (Some m) s k = k (found_props es ks)"
  using get_props_members [OF assms] by (simp add: with_props_def found_props_def)

text \<open>The descriptor a request names.\<close>

definition lookup_fd :: "elem list \<Rightarrow> 'f cfs \<Rightarrow> int + int \<times> int" where
  "lookup_fd es s =
     (if member es (cstr ''fd'') = None then Inl JSONRPC_ERR_INVALID_PARAMS
      else let vfd = int_member es (cstr ''fd'') (-1) in
        if vfd < 0 \<or> vfd \<ge> 16 then Inl EBADF
        else if vfd_list s ! nat vfd < 0 then Inl EBADF
        else Inr (vfd, vfd_list s ! nat vfd))"

lemma with_fd_ok:
  assumes "is_doc m es" "cstr ''fd'' \<in> set ks"
  shows "with_fd (Some m) (found_props es ks) s k =
    (case lookup_fd es s of Inl e \<Rightarrow> fs_fail e s | Inr (vfd, fd) \<Rightarrow> k vfd fd)"
  using off_nonneg [of es "cstr ''fd''"]
  by (auto simp: with_fd_def peridot_client_fs_get_fd_def off_of_found [OF assms(2)] get_int32_member [OF assms(1)]
      lookup_fd_def Let_def PERIDOT_CLIENT_FS_MAX_FDS_def)

definition used_malloc :: "'f cfs \<Rightarrow> 'f cfs" where
  "used_malloc s = s\<lparr>fs_mallocs := fs_mallocs s + 1\<rparr>"

definition got_block :: "'f cfs \<Rightarrow> 'f cfs" where
  "got_block s = s\<lparr>fs_mallocs := fs_mallocs s + 1, fs_blocks := fs_blocks s + 1\<rparr>"

lemma word_bound: "0 \<le> n \<Longrightarrow> n < 4294967296 \<Longrightarrow> unat (word_of_int n :: u32) = nat n"
  by (simp add: unsigned_of_int nat_take_bit_eq take_bit_int_eq_self)

lemma with_block_ok:
  assumes "0 \<le> n" "n < 4294967296"
  shows "with_block malloc n s k =
    (if malloc (fs_mallocs s) (word_of_int n) then k (replicate (nat n) 0) (got_block s) else fs_fail ENOMEM (used_malloc s))"
  by (simp add: with_block_def fs_malloc_def word_bound [OF assms] got_block_def used_malloc_def)

lemma no_huge_size:
  assumes "no_huge malloc" "malloc k (word_of_int n)" "0 \<le> n" "n < 4294967296"
  shows "n < 268435456"
proof -
  have "unat (word_of_int n :: u32) < 268435456" using assms(1,2) by (auto simp: no_huge_def)
  with word_bound [OF assms(3,4)] show ?thesis by simp
qed

lemma free_got [simp]: "fs_free (got_block s) = used_malloc s" "fs_free (got_block s\<lparr>files := f\<rparr>) = used_malloc s\<lparr>files := f\<rparr>"
  by (simp_all add: fs_free_def got_block_def used_malloc_def)

lemma files_got [simp]: "files (got_block s) = files s" "files (used_malloc s) = files s"
  by (simp_all add: got_block_def used_malloc_def)

lemma outcome_ok_doc:
  assumes "is_doc d es" "length d < 1073741824"
  shows "outcome_ok (Inr (Some d))"
proof -
  have r: "read_unaligned_int d 0 = Some (int (doc_size es))" by (rule is_doc_read_size [OF assms(1)])
  moreover have "doc_size es \<le> length d" by (rule is_doc_length [OF assms(1)])
  moreover have "5 \<le> doc_size es" by (simp add: doc_size_def)
  ultimately show ?thesis using assms(2) by (simp add: sub_ok_def sub_value_def)
qed

lemma measures:
  "bson_measure_int32 k = Some (6 + int (length k))"
  "0 \<le> n \<Longrightarrow> bson_measure_binary k n = Some (7 + int (length k) + n)"
  "bson_measure_null k = Some (2 + int (length k))"
  "bson_empty_size = 5"
  by (simp_all add: bson_measure_int32_def bson_set_int32_def set_subelement_def bson_measure_binary_def
      bson_set_binary_generic_def bson_set_binary_def bson_measure_null_def bson_set_null_def
      bson_empty_size_def bson_empty_document_def)

lemma int_result_ok:
  assumes "name_ok k" "n = 11 + length k" "length k < 1000"
  shows "int_result k v (replicate n 0) = Some (Some (enc_doc [(0x10, k, int_object v)]))"
proof -
  from create_in_block [of n] assms(2) obtain m where
    m: "bson_create_empty_document (replicate n 0) = Some m" "is_doc m []" "length m = n" by auto
  have "doc_size ([] @ [(0x10, k, int_object v)]) = n" using assms(2) by (simp add: doc_size_def)
  with set_int32_last [OF m(2) assms(1), of v] m(3) assms(2,3) obtain m' r where
    "bson_set_int32 (Some m) k v = Some (Some m', r)" "is_doc m' [(0x10, k, int_object v)]" "length m' = n" by auto
  with m(1) exact_doc [of m' "[(0x10, k, int_object v)]"] assms(2) show ?thesis
    by (simp add: int_result_def doc_size_def)
qed

section \<open>Reading\<close>

definition read_doc :: "byte list \<Rightarrow> elem list" where
  "read_doc bytes = [(0x05, cstr ''data'', binary_value 0 bytes), (0x10, cstr ''length'', int_object (int (length bytes)))]"

lemma read_reply:
  assumes "n < 1073741800" "length bytes \<le> n"
  shows "\<exists>m1 r m2. bson_create_empty_document (replicate (n + 28) 0) = Some m1 \<and>
    bson_set_binary_generic (Some m1) (cstr ''data'') (int n) = Some (Some m2, r, Some 15) \<and>
    (\<exists>m3. wr_block m2 15 bytes = Some m3 \<and>
      (\<exists>m4 m5 r2. bson_shrink_binary m3 15 (int (length bytes)) = Some (m4, 0) \<and>
        bson_set_int32 (Some m4) (cstr ''length'') (int (length bytes)) = Some (Some m5, r2) \<and>
        is_doc m5 (read_doc bytes) \<and> length m5 = n + 28))"
proof -
  let ?k = "cstr ''data''" and ?z = "replicate n (0 :: byte)"
  have k: "length (cstr ''data'') = 4" "length (cstr ''length'') = 6" by (simp_all add: cstr_def)
  from create_in_block [of "n + 28"] obtain m1 where
    1: "bson_create_empty_document (replicate (n + 28) 0) = Some m1" "is_doc m1 []" "length m1 = n + 28" by auto
  have "doc_size ([] @ [(0x05, ?k, binary_value 0 ?z)]) \<le> length m1" "length m1 < 2147480000"
    using 1(3) assms(1) k by (simp_all add: doc_size_def binary_value_def)
  from set_binary_last [OF 1(2) fs_names(6) this] obtain m2 r where
    2: "bson_set_binary_generic (Some m1) ?k (int n) = Some (Some m2, r, Some 15)"
      "is_doc m2 ([] @ [(0x05, ?k, binary_value 0 ?z)])" "length m2 = n + 28"
    using k 1(3) by (auto simp: doc_size_simps)
  have sh: "short ?z" using assms(1) by (simp add: short_def)
  from fill_last_binary [OF 2(2) sh, of bytes] assms(2) k obtain m3 where
    3: "wr_block m2 15 bytes = Some m3"
      "is_doc m3 ([] @ [(0x05, ?k, binary_value 0 (bytes @ drop (length bytes) ?z))])" "length m3 = n + 28"
    using 2(3) by (auto simp: doc_size_simps)
  have sh3: "short (bytes @ drop (length bytes) ?z)" using assms by (simp add: short_def)
  from shrink_last_binary_le [OF 3(2) sh3, of "length bytes"] k obtain m4 where
    4: "bson_shrink_binary m3 15 (int (length bytes)) = Some (m4, 0)"
      "is_doc m4 [(0x05, ?k, binary_value 0 bytes)]" "length m4 = n + 28"
    using 3(3) by (auto simp: doc_size_simps)
  have "doc_size ([(0x05, ?k, binary_value 0 bytes)] @ [(0x10, cstr ''length'', int_object (int (length bytes)))]) \<le> length m4"
    using 4(3) assms(2) k by (simp add: doc_size_def binary_value_def)
  from set_int32_last [OF 4(2) fs_names(5) this] 4(3) assms(1) obtain m5 r2 where
    "bson_set_int32 (Some m4) (cstr ''length'') (int (length bytes)) = Some (Some m5, r2)"
    "is_doc m5 (read_doc bytes)" "length m5 = n + 28"
    by (auto simp: read_doc_def)
  with 1(1) 2(1) 3(1) 4(1) show ?thesis by blast
qed

lemma read_run:
  assumes "is_doc m es" "posix_ok px" "no_huge malloc" "len = int_member es (cstr ''length'') (-1)"
  shows "\<exists>result errno s'. peridot_client_fs_read px malloc junk (Some m) s = Some (result, errno, s') \<and>
    (case lookup_fd es s of
       Inl e \<Rightarrow> result = None \<and> errno = e \<and> s' = s
     | Inr (vfd, fd) \<Rightarrow>
         if len < 0 then result = None \<and> errno = JSONRPC_ERR_INVALID_PARAMS \<and> s' = s
         else if \<not> malloc (fs_mallocs s) (word_of_int (len + 28)) then
           result = None \<and> errno = ENOMEM \<and> s' = used_malloc s
         else (case px_read px fd len (files s) of (f, bytes, r, e) \<Rightarrow>
           s' = used_malloc s\<lparr>files := f\<rparr> \<and> errno = e \<and>
           (if r < 0 then result = None
            else \<exists>d. result = Some d \<and> is_doc d (read_doc bytes) \<and> int (length d) = len + 28)))"
proof -
  let ?ks = "[cstr ''fd'', cstr ''length'']"
  have ks: "distinct ?ks" "\<forall>k \<in> set ?ks. name_ok k" "cstr ''fd'' \<in> set ?ks" "cstr ''length'' \<in> set ?ks"
    by (simp add: cstr_def) simp_all
  note start = peridot_client_fs_read_def with_props_ok [OF assms(1) ks(1,2)] with_fd_ok [OF assms(1) ks(3)]
    off_of_found [OF ks(4)] get_int32_member [OF assms(1)] assms(4) [symmetric]
  have len: "len < 2147483648"
    using int_member_s32 [OF assms(1), of "-1" "cstr ''length''"] assms(4) by (simp add: is_s32_def)
  show ?thesis
  proof (cases "lookup_fd es s")
    case (Inl e)
    then show ?thesis by (simp add: start fs_fail_def)
  next
    case (Inr p)
    have sz: "bson_empty_size + (7 + int (length (cstr ''data'')) + len) + (6 + int (length (cstr ''length''))) = len + 28"
      by (simp add: measures cstr_def)
    obtain vfd fd where p: "p = (vfd, fd)" by (cases p)
    show ?thesis
    proof (cases "len < 0 \<or> \<not> malloc (fs_mallocs s) (word_of_int (len + 28))")
      case True
      then show ?thesis
        using len by (cases "len < 0") (simp_all add: start Inr p fs_fail_def measures(1,2) sz with_block_ok)
    next
      case False
      then have n: "0 \<le> len" "len + 28 < 1073741824"
        using no_huge_size [OF assms(3), of "fs_mallocs s" "len + 28"] len by auto
      obtain f bytes r e where rd: "px_read px fd len (files s) = (f, bytes, r, e)" by (metis prod_cases4)
      from posix_read [OF assms(2) rd] n have bl: "length bytes \<le> nat len" by simp
      have "nat len < 1073741800" using n by simp
      from read_reply [OF this bl] obtain m1 q m2 m3 m4 m5 q2 where
        d: "bson_create_empty_document (replicate (nat len + 28) 0) = Some m1"
        "bson_set_binary_generic (Some m1) (cstr ''data'') len = Some (Some m2, q, Some 15)"
        "wr_block m2 15 bytes = Some m3" "bson_shrink_binary m3 15 (int (length bytes)) = Some (m4, 0)"
        "bson_set_int32 (Some m4) (cstr ''length'') (int (length bytes)) = Some (Some m5, q2)"
        "is_doc m5 (read_doc bytes)" "length m5 = nat len + 28"
        using n(1) by auto
      have nn: "nat (len + 28) = nat len + 28" "len + 28 < 4294967296" "0 \<le> len + 28" using n by auto
      have ml: "malloc (fs_mallocs s) (word_of_int (len + 28))" using False by simp
      have run: "peridot_client_fs_read px malloc junk (Some m) s =
        (if r < 0 then fs_fail e (used_malloc s\<lparr>files := f\<rparr>)
         else fs_give (Some m5) e (got_block s\<lparr>files := f\<rparr>))"
      proof (cases "r < 0")
        case True
        with n(1) ml show ?thesis by (simp add: start Inr p measures(1,2) sz with_block_ok [OF nn(3,2)] nn(1) d rd)
      next
        case False
        then have "r = int (length bytes)" using posix_read(2) [OF assms(2) rd] by simp
        with n(1) ml rd show ?thesis by (simp add: start Inr p measures(1,2) sz with_block_ok [OF nn(3,2)] nn(1) d)
      qed
      show ?thesis
        using n(1) ml d(6,7) by (simp add: run Inr p rd fs_fail_def fs_give_def)
    qed
  qed
qed

section \<open>Every method\<close>

text \<open>What every method keeps: it is defined, frees its blocks, leaves the paths alone and the table whole,
  and its result is a document the server can send.\<close>

definition safe :: "'f cfs \<Rightarrow> 'f fs_result \<Rightarrow> bool" where
  "safe s r \<longleftrightarrow> (\<exists>result e s'. r = Some (result, e, s') \<and> fs_ok s' \<and> fs_blocks s' = fs_blocks s \<and>
     path_list s' = path_list s \<and> (\<forall>d. result = Some d \<longrightarrow> outcome_ok (Inr (Some d))))"

lemma safe_simps [simp]:
  "safe s (fs_fail e s') \<longleftrightarrow> fs_ok s' \<and> fs_blocks s' = fs_blocks s \<and> path_list s' = path_list s"
  "safe s (fs_give (Some d) e s') \<longleftrightarrow> fs_ok s' \<and> fs_blocks s' = fs_blocks s + 1 \<and> path_list s' = path_list s \<and>
     outcome_ok (Inr (Some d))"
  by (auto simp: safe_def fs_fail_def fs_give_def fs_free_def fs_ok_def)

lemma fs_ok_simps [simp]:
  "fs_ok (used_malloc s) = fs_ok s" "fs_ok (got_block s) = fs_ok s" "fs_ok (s\<lparr>files := f\<rparr>) = fs_ok s"
  "fs_ok (s\<lparr>vfd_list := (vfd_list s)[i := v]\<rparr>) = fs_ok s" "fs_ok (fs_free s) = fs_ok s"
  "fs_blocks (used_malloc s) = fs_blocks s" "fs_blocks (got_block s) = fs_blocks s + 1" "fs_blocks (fs_free s) = fs_blocks s - 1"
  "path_list (used_malloc s) = path_list s" "path_list (got_block s) = path_list s" "path_list (fs_free s) = path_list s"
  "vfd_list (used_malloc s) = vfd_list s" "vfd_list (got_block s) = vfd_list s" "vfd_list (fs_free s) = vfd_list s"
  "fs_ok (peridot_client_fs_free_vfd v s) = fs_ok s" "fs_blocks (peridot_client_fs_free_vfd v s) = fs_blocks s"
  "path_list (peridot_client_fs_free_vfd v s) = path_list s"
  by (simp_all add: fs_ok_def used_malloc_def got_block_def fs_free_def peridot_client_fs_free_vfd_def)

lemma outcome_ok_int: "name_ok k \<Longrightarrow> length k < 1000 \<Longrightarrow> outcome_ok (Inr (Some (enc_doc [(0x10, k, int_object v)])))"
  by (rule outcome_ok_doc [OF is_doc_enc]) (simp_all add: doc_ok_def value_ok_def doc_size_def)

lemma with_int_block:
  assumes "length k < 1000"
  shows "with_block malloc (bson_empty_size + (6 + int (length k))) s c =
    (if malloc (fs_mallocs s) (word_of_int (11 + int (length k))) then c (replicate (11 + length k) 0) (got_block s)
     else fs_fail ENOMEM (used_malloc s))"
  using with_block_ok [of "11 + int (length k)" malloc s c] assms by (simp add: measures nat_add_distrib)

lemma cstr_length [simp]: "length (cstr t) = length t"
  by (simp add: cstr_def)

lemma cstr_eq [simp]: "cstr a = cstr b \<longleftrightarrow> map (of_char :: char \<Rightarrow> byte) a = map of_char b"
  by (simp add: cstr_def)

text \<open>The members of a parameter document are read without leaving it.\<close>

lemma close_safe:
  assumes "is_doc m es" "fs_ok s"
  shows "safe s (peridot_client_fs_close px junk (Some m) s)"
proof -
  have ks: "distinct [cstr ''fd'']" "\<forall>k \<in> set [cstr ''fd'']. name_ok k" "cstr ''fd'' \<in> set [cstr ''fd'']" by simp_all
  note start = peridot_client_fs_close_def with_props_ok [OF assms(1) ks(1,2)] with_fd_ok [OF assms(1) ks(3)]
  show ?thesis
    using assms(2) by (auto simp: start Let_def fs_ok_def peridot_client_fs_free_vfd_def split: sum.split prod.split)
qed

lemma lseek_safe:
  assumes "is_doc m es" "fs_ok s"
  shows "safe s (peridot_client_fs_lseek px malloc junk (Some m) s)"
proof -
  let ?ks = "[cstr ''fd'', cstr ''offset'', cstr ''whence'']"
  have ks: "distinct ?ks" "\<forall>k \<in> set ?ks. name_ok k" "cstr ''fd'' \<in> set ?ks" "cstr ''offset'' \<in> set ?ks" "cstr ''whence'' \<in> set ?ks"
    by simp_all
  note start = peridot_client_fs_lseek_def with_props_ok [OF assms(1) ks(1,2)] with_fd_ok [OF assms(1) ks(3)]
    off_of_found [OF ks(4)] off_of_found [OF ks(5)] get_int32_member [OF assms(1)]
  have b: "length (cstr ''offset'') < 1000" by simp
  have r: "int_result (cstr ''offset'') v (replicate (11 + length (cstr ''offset'')) 0) =
      Some (Some (enc_doc [(0x10, cstr ''offset'', int_object v)]))" for v
    by (rule int_result_ok) simp_all
  show ?thesis
    using assms(2) outcome_ok_int [OF fs_names(7) b]
    by (auto simp: start Let_def measures(1) with_int_block [OF b] r simp del: cstr_length outcome_ok.simps
        split: sum.split prod.split)
qed

lemma write_safe:
  assumes "is_doc m es" "fs_ok s"
  shows "safe s (peridot_client_fs_write px malloc junk (Some m) s)"
proof -
  let ?ks = "[cstr ''fd'', cstr ''data'']"
  have ks: "distinct ?ks" "\<forall>k \<in> set ?ks. name_ok k" "cstr ''fd'' \<in> set ?ks" "cstr ''data'' \<in> set ?ks" by simp_all
  note start = peridot_client_fs_write_def with_props_ok [OF assms(1) ks(1,2)] with_fd_ok [OF assms(1) ks(3)]
    off_of_found [OF ks(4)]
  have b: "length (cstr ''length'') < 1000" by simp
  have r: "int_result (cstr ''length'') v (replicate (11 + length (cstr ''length'')) 0) =
      Some (Some (enc_doc [(0x10, cstr ''length'', int_object v)]))" for v
    by (rule int_result_ok) simp_all
  from get_binary_total [OF assms(1), of "cstr ''data''"] obtain d where
    d: "bson_get_binary (Some m) (first_off 4 es (cstr ''data'')) = Some d"
      "case d of None \<Rightarrow> True | Some (p, n) \<Rightarrow> \<exists>bs. rd_block m p n = Some bs"
    by (force split: option.splits)
  show ?thesis
    using assms(2) outcome_ok_int [OF fs_names(5) b] d(2)
    by (auto simp: start d(1) Let_def measures(1) with_int_block [OF b] r simp del: cstr_length outcome_ok.simps
        split: sum.split prod.split option.split)
qed

lemma read_safe:
  assumes "is_doc m es" "fs_ok s" "posix_ok px" "no_huge malloc"
  shows "safe s (peridot_client_fs_read px malloc junk (Some m) s)"
proof -
  define len where "len = int_member es (cstr ''length'') (-1)"
  from read_run [where junk = junk and s = s, OF assms(1,3,4) len_def] obtain result e s' where
    run: "peridot_client_fs_read px malloc junk (Some m) s = Some (result, e, s')" and
    spec: "case lookup_fd es s of
       Inl err \<Rightarrow> result = None \<and> e = err \<and> s' = s
     | Inr (vfd, fd) \<Rightarrow>
         if len < 0 then result = None \<and> e = JSONRPC_ERR_INVALID_PARAMS \<and> s' = s
         else if \<not> malloc (fs_mallocs s) (word_of_int (len + 28)) then
           result = None \<and> e = ENOMEM \<and> s' = used_malloc s
         else (case px_read px fd len (files s) of (f, bytes, r, err) \<Rightarrow>
           s' = used_malloc s\<lparr>files := f\<rparr> \<and> e = err \<and>
           (if r < 0 then result = None
            else \<exists>d. result = Some d \<and> is_doc d (read_doc bytes) \<and> int (length d) = len + 28))" by blast
  have "fs_ok s' \<and> fs_blocks s' = fs_blocks s \<and> path_list s' = path_list s \<and>
      (\<forall>d. result = Some d \<longrightarrow> outcome_ok (Inr (Some d)))"
  proof (cases "lookup_fd es s")
    case (Inl err)
    with spec assms(2) show ?thesis by simp
  next
    case (Inr p)
    obtain vfd fd where p: "p = (vfd, fd)" by (cases p)
    show ?thesis
    proof (cases "len < 0 \<or> \<not> malloc (fs_mallocs s) (word_of_int (len + 28))")
      case True
      with spec assms(2) Inr p show ?thesis by (auto split: if_splits)
    next
      case False
      obtain f bytes r err where rd: "px_read px fd len (files s) = (f, bytes, r, err)" by (metis prod_cases4)
      have len: "len < 2147483648"
        using int_member_s32 [OF assms(1), of "-1" "cstr ''length''"] by (simp add: is_s32_def len_def)
      with False no_huge_size [OF assms(4), of "fs_mallocs s" "len + 28"] have "len + 28 < 1073741824" by simp
      with spec assms(2) Inr p rd False show ?thesis
        by (auto simp del: outcome_ok.simps intro: outcome_ok_doc split: if_splits)
    qed
  qed
  with run show ?thesis by (simp add: safe_def)
qed

text \<open>The first free slot.\<close>

lemma first_free_spec:
  "first_free vs i = (if VFD_FREE \<in> set vs then i + int (length (takeWhile (\<lambda>v. v \<noteq> VFD_FREE) vs)) else -1)"
  by (induction vs arbitrary: i) auto

definition open_slot :: "'f cfs \<Rightarrow> nat" where
  "open_slot s = length (takeWhile (\<lambda>v. v \<noteq> VFD_FREE) (vfd_list s))"

lemma open_slot_less:
  assumes "VFD_FREE \<in> set (vfd_list s)"
  shows "open_slot s < length (vfd_list s)"
proof -
  have "VFD_FREE \<in> set vs \<Longrightarrow> length (takeWhile (\<lambda>v. v \<noteq> VFD_FREE) vs) < length vs" for vs
    by (induction vs) auto
  with assms show ?thesis by (simp add: open_slot_def)
qed

lemma alloc_vfd_ok:
  "peridot_client_fs_alloc_vfd s =
    (if VFD_FREE \<in> set (vfd_list s) then (s\<lparr>vfd_list := (vfd_list s)[open_slot s := VFD_ALLOC]\<rparr>, int (open_slot s))
     else (s, -1))"
  by (simp add: peridot_client_fs_alloc_vfd_def first_free_spec open_slot_def Let_def)

definition open_request :: "elem list \<Rightarrow> (byte list \<times> int \<times> int) option" where
  "open_request es =
     (case string_member es (cstr ''path'') of
        None \<Rightarrow> None
      | Some path \<Rightarrow>
          let flags = int_member es (cstr ''flags'') (-1);
              mode = (if member es (cstr ''mode'') = None then 0x1ff else int_member es (cstr ''mode'') (-1)) in
          if flags = -1 \<or> mode = -1 then None else Some (path, flags, mode))"

lemma open_params_ok:
  assumes "is_doc m es" "{cstr ''path'', cstr ''flags'', cstr ''mode''} \<subseteq> set ks"
  shows "open_params (Some m) (found_props es ks) = Some (open_request es)"
proof -
  from assms(2) have k: "off_of k (found_props es ks) = first_off 4 es k"
    if "k \<in> {cstr ''path'', cstr ''flags'', cstr ''mode''}" for k
    using that by (auto intro: off_of_found)
  from get_string_total [OF assms(1), of "cstr ''path''"] obtain r where
    r: "bson_get_string (Some m) (first_off 4 es (cstr ''path'')) = Some r"
      "case r of None \<Rightarrow> string_member es (cstr ''path'') = None
       | Some p \<Rightarrow> \<exists>str. string_member es (cstr ''path'') = Some str \<and> c_string m p = Some str" by blast
  show ?thesis
    using r(2) by (auto simp: open_params_def k r(1) get_int32_member [OF assms(1)] off_nonneg open_request_def Let_def
        split: option.split)
qed

section \<open>Opening\<close>

text \<open>An entry covers its own path and, if it is a directory, everything below; read-write access includes
  the two others.\<close>

definition covers :: "path_entry \<Rightarrow> byte list \<Rightarrow> int \<Rightarrow> bool" where
  "covers entry path flags \<longleftrightarrow>
     (\<exists>rest. path = pe_name entry @ rest \<and>
        (rest = [] \<or> pe_flags entry AND O_DIRECTORY \<noteq> 0 \<and> hd rest = SLASH)) \<and>
     (let granted = pe_flags entry AND O_ACCMODE; requested = flags AND O_ACCMODE in
      granted = requested \<or> granted = O_RDWR \<and> requested < 3)"

lemma acc_cases: "x AND 3 \<in> {0, 1, 2, 3 :: int}"
proof -
  have "x AND 3 = x mod 4" using take_bit_eq_mask [of 2 x] by (simp add: take_bit_eq_mod mask_eq_exp_minus_1)
  moreover have "0 \<le> x mod 4" "x mod 4 < 4" by simp_all
  ultimately show ?thesis by auto
qed

lemma access_spec:
  "((g AND 3) + 1) AND ((r AND 3) + 1) = (r AND 3) + 1 \<longleftrightarrow>
   g AND 3 = r AND 3 \<or> g AND 3 = 2 \<and> r AND 3 < (3 :: int)"
  using acc_cases [of g] acc_cases [of r] by (elim insertE) auto

lemma validate_loop_sound:
  assumes "validate_loop entries path len ((flags AND O_ACCMODE) + 1)" "len \<le> length path" "0 \<notin> set path"
  shows "\<exists>entry \<in> set entries. covers entry path flags"
  using assms(1)
proof (induction entries)
  case (Cons entry es)
  let ?n = "length (pe_name entry)"
  show ?case
  proof (cases "validate_loop es path len ((flags AND O_ACCMODE) + 1)")
    case True
    with Cons.IH show ?thesis by auto
  next
    case False
    with Cons.prems have *: "?n \<le> len" "pe_name entry = take ?n path"
      "((pe_flags entry AND O_ACCMODE) + 1) AND ((flags AND O_ACCMODE) + 1) = (flags AND O_ACCMODE) + 1"
      "char_at path ?n = 0 \<or> pe_flags entry AND O_DIRECTORY \<noteq> 0 \<and> char_at path ?n = SLASH"
      by (auto simp: Let_def not_less split: if_splits)
    have p: "path = pe_name entry @ drop ?n path" using *(2) append_take_drop_id [of ?n path] by simp
    have "drop ?n path = [] \<or> pe_flags entry AND O_DIRECTORY \<noteq> 0 \<and> hd (drop ?n path) = SLASH"
    proof (cases "?n < length path")
      case True
      with assms(3) have "char_at path ?n \<noteq> 0" by (auto simp: char_at_def in_set_conv_nth)
      with *(4) True show ?thesis by (simp add: char_at_def hd_drop_conv_nth)
    qed simp
    with p *(3) access_spec have "covers entry path flags"
      unfolding covers_def O_ACCMODE_def O_RDWR_def Let_def by blast
    then show ?thesis by simp
  qed
qed simp

lemma validate_path_sound:
  assumes "peridot_client_fs_validate_path entries path flags" "0 \<notin> set path"
  shows "\<exists>entry \<in> set entries. covers entry path flags"
  using assms validate_loop_sound [of entries path _ flags]
  by (auto simp: peridot_client_fs_validate_path_def Let_def split: if_splits)

text \<open>The check is not complete: an entry that is a prefix of the path as a string decides, although it
  does not cover the path.\<close>

lemma validate_path_incomplete:
  "covers \<lparr>pe_name = cstr ''/ab'', pe_flags = O_RDWR\<rparr> (cstr ''/ab'') O_WRONLY \<and>
   \<not> peridot_client_fs_validate_path [\<lparr>pe_name = cstr ''/a'', pe_flags = O_RDONLY\<rparr>,
      \<lparr>pe_name = cstr ''/ab'', pe_flags = O_RDWR\<rparr>] (cstr ''/ab'') O_WRONLY"
  by (simp add: covers_def peridot_client_fs_validate_path_def cstr_def O_RDWR_def O_WRONLY_def O_RDONLY_def
      O_ACCMODE_def SLASH_def Let_def)

lemma string_member_no_nul: "string_member es k = Some str \<Longrightarrow> 0 \<notin> set str"
  by (auto simp: string_member_def dest: set_takeWhileD split: option.splits if_splits)

lemma open_slot_free: "VFD_FREE \<in> set (vfd_list s) \<Longrightarrow> vfd_list s ! open_slot s = VFD_FREE"
  using nth_length_takeWhile [of "\<lambda>v. v \<noteq> VFD_FREE" "vfd_list s"] open_slot_less [of s] by (simp add: open_slot_def)

lemma open_run:
  assumes "is_doc m es"
  shows "peridot_client_fs_open px malloc junk id (Some m) s =
    (case open_request es of
       None \<Rightarrow> fs_fail JSONRPC_ERR_INVALID_PARAMS s
     | Some (path, flags, mode) \<Rightarrow>
         if \<not> peridot_client_fs_validate_path (path_list s) path flags then fs_fail EACCES s
         else if \<not> malloc (fs_mallocs s) 13 then fs_fail ENOMEM (used_malloc s)
         else if VFD_FREE \<notin> set (vfd_list s) then fs_fail EMFILE (used_malloc s)
         else case px_open px path flags mode (files s) of (f, fd, e) \<Rightarrow>
           if fd < 0 then fs_fail e (used_malloc s\<lparr>files := f\<rparr>)
           else Some (Some (enc_doc [(0x10, cstr ''fd'', int_object (int (open_slot s)))]), 0,
             used_malloc s\<lparr>vfd_list := (vfd_list s)[open_slot s := fd], files := f\<rparr>))"
proof -
  let ?ks = "[cstr ''path'', cstr ''flags'', cstr ''mode'']"
  have ks: "distinct ?ks" "\<forall>k \<in> set ?ks. name_ok k" "{cstr ''path'', cstr ''flags'', cstr ''mode''} \<subseteq> set ?ks" by simp_all
  note start = peridot_client_fs_open_def with_props_ok [OF assms ks(1,2)] open_params_ok [OF assms ks(3)]
  have b: "length (cstr ''fd'') < 1000" by simp
  have w: "11 + of_nat (length (cstr ''fd'')) = (13 :: u32)" by simp
  have r: "int_result (cstr ''fd'') v (replicate (11 + length (cstr ''fd'')) 0) =
      Some (Some (enc_doc [(0x10, cstr ''fd'', int_object v)]))" for v
    by (rule int_result_ok) simp_all
  show ?thesis
  proof (cases "VFD_FREE \<in> set (vfd_list s)")
    case True
    note slot = open_slot_less [OF True] open_slot_free [OF True]
    have u: "(vfd_list s)[open_slot s := VFD_FREE] = vfd_list s"
      using slot(2) list_update_id [of "vfd_list s" "open_slot s"] by simp
    have fr: "peridot_client_fs_free_vfd (int (open_slot s)) (fs_free (got_block s
        \<lparr>vfd_list := (vfd_list s)[open_slot s := VFD_ALLOC], files := f\<rparr>)) = used_malloc s\<lparr>files := f\<rparr>" for f
      by (simp add: peridot_client_fs_free_vfd_def fs_free_def got_block_def used_malloc_def u)
    have al: "peridot_client_fs_alloc_vfd (got_block s) =
        (got_block s\<lparr>vfd_list := (vfd_list s)[open_slot s := VFD_ALLOC]\<rparr>, int (open_slot s))"
      using True by (simp add: alloc_vfd_ok open_slot_def)
    have cm: "open_commit px (replicate (11 + length (cstr ''fd'')) 0) (int (open_slot s)) fd
        (got_block s\<lparr>vfd_list := (vfd_list s)[open_slot s := VFD_ALLOC], files := f\<rparr>) =
      Some (Some (enc_doc [(0x10, cstr ''fd'', int_object (int (open_slot s)))]), 0,
             used_malloc s\<lparr>vfd_list := (vfd_list s)[open_slot s := fd], files := f\<rparr>)" for fd f
      using slot(1) by (simp add: open_commit_def r fs_give_def fs_free_def got_block_def used_malloc_def del: cstr_length)
    show ?thesis
      by (auto simp: start measures(1) with_int_block [OF b] w al cm fr True simp del: cstr_length
          split: option.split prod.split)
  next
    case False
    then show ?thesis
      by (auto simp: start measures(1) with_int_block [OF b] w alloc_vfd_ok simp del: cstr_length
          split: option.split prod.split)
  qed
qed

lemma open_safe:
  assumes "is_doc m es" "fs_ok s"
  shows "safe s (peridot_client_fs_open px malloc junk id (Some m) s)"
proof -
  have "length (cstr ''fd'') < 1000" by simp
  note ok = outcome_ok_int [OF fs_names(1) this, of "int (open_slot s)"]
  have "fs_ok (used_malloc s\<lparr>vfd_list := (vfd_list s)[i := v], files := f\<rparr>)" for i v f
    using assms(2) by (simp add: fs_ok_def used_malloc_def)
  then have "safe s (Some (Some (enc_doc [(0x10, cstr ''fd'', int_object (int (open_slot s)))]), 0,
      used_malloc s\<lparr>vfd_list := (vfd_list s)[open_slot s := fd], files := f\<rparr>))" for fd f
    using ok by (simp add: safe_def del: outcome_ok.simps)
  then show ?thesis
    using assms(2) by (auto simp: open_run [OF assms(1)] split: option.split prod.split)
qed

lemma cleanup_loop_length: "length (fst (cleanup_loop px vs f)) = length vs"
  by (induction px vs f rule: cleanup_loop.induct) (auto simp: Let_def split: prod.splits)

lemma cleanup_safe:
  assumes "fs_ok s"
  shows "safe s (peridot_client_fs_cleanup px params s)"
  using assms cleanup_loop_length [of px "vfd_list s" "files s"]
  by (auto simp: safe_def peridot_client_fs_cleanup_def fs_ok_def split: prod.splits)

section \<open>The digest of a file\<close>

fun md5_bytes :: "u32 \<times> u32 \<times> u32 \<times> u32 \<Rightarrow> byte list" where
  "md5_bytes (a, b, c, d) = int_object (uint a) @ int_object (uint b) @ int_object (uint c) @ int_object (uint d)"

definition hash_doc :: "byte list \<Rightarrow> elem list" where
  "hash_doc bytes = [(0x10, cstr ''length'', int_object (int (length bytes))),
     (0x05, cstr ''hash'', binary_value 0 (md5_bytes (rfc_md5 bytes)))]"

lemma length_md5_bytes [simp]: "length (md5_bytes ws) = 16"
  by (cases ws) simp

lemma hash_reply:
  assumes "is_doc m es" "cstr ''method'' \<in> set ks" "n < 268435456" "length bytes \<le> n"
  shows "\<exists>d. is_doc d (hash_doc bytes) \<and> length d = n + 60 \<and>
    hash_result ua (Some m) (off_of (cstr ''method'') (found_props es ks)) (bytes @ post) (int (length bytes))
      (replicate (n + 60) 0) =
    (if string_member es (cstr ''method'') \<noteq> Some (cstr ''md5'') then Some None
     else if ua then Some (Some d) else None)"
proof -
  let ?l = "(0x10, cstr ''length'', int_object (int (length bytes))) :: elem"
  let ?z = "replicate 16 0 :: byte list"
  from create_in_block [of "n + 60"] obtain m1 where
    1: "bson_create_empty_document (replicate (n + 60) 0) = Some m1" "is_doc m1 []" "length m1 = n + 60" by auto
  have "doc_size ([] @ [?l]) \<le> length m1" "length m1 < 2147483648" using 1(3) assms(3) by (simp_all add: doc_size_def)
  from set_int32_last [OF 1(2) fs_names(5) this] obtain m2 q where
    2: "bson_set_int32 (Some m1) (cstr ''length'') (int (length bytes)) = Some (Some m2, q)" "is_doc m2 [?l]"
      "length m2 = n + 60" using 1(3) by auto
  have "doc_size ([?l] @ [(0x05, cstr ''hash'', binary_value 0 ?z)]) \<le> length m2" "length m2 < 2147480000"
    using 2(3) assms(3) by (simp_all add: doc_size_def binary_value_def)
  from set_binary_last [OF 2(2) fs_names(12) this] obtain m3 r where
    3: "bson_set_binary_generic (Some m2) (cstr ''hash'') 16 = Some (Some m3, r, Some 27)"
      "is_doc m3 ([?l] @ [(0x05, cstr ''hash'', binary_value 0 ?z)])" "length m3 = n + 60"
    using 2(3) by (auto simp: doc_size_def)
  from fill_last_binary [OF 3(2), of "md5_bytes (rfc_md5 bytes)"] obtain m4 where
    4: "wr_block m3 27 (md5_bytes (rfc_md5 bytes)) = Some m4" "is_doc m4 (hash_doc bytes)" "length m4 = n + 60"
    using 3(3) by (auto simp: short_def doc_size_def hash_doc_def)
  have dg: "digest_md5_calc (bytes @ post) (int (length bytes)) = Some (rfc_md5 bytes)"
    by (rule md5_calc_rfc) (use assms(3,4) in simp)
  have st: "store_words ua m3 27 (rfc_md5 bytes) = (if ua then Some m4 else None)"
    using 4(1) by (cases "rfc_md5 bytes") (simp add: store_words_def)
  from get_string_total [OF assms(1), of "cstr ''method''"] obtain p where
    p: "bson_get_string (Some m) (first_off 4 es (cstr ''method'')) = Some p"
      "case p of None \<Rightarrow> string_member es (cstr ''method'') = None
       | Some p \<Rightarrow> \<exists>str. string_member es (cstr ''method'') = Some str \<and> c_string m p = Some str" by blast
  have md5: "(case p of None \<Rightarrow> Some False | Some p \<Rightarrow> c_streq (the (Some m)) p (cstr ''md5'')) =
      Some (string_member es (cstr ''method'') = Some (cstr ''md5''))"
  proof (cases p)
    case None
    with p(2) show ?thesis by simp
  next
    case (Some a)
    with p(2) obtain str where str: "string_member es (cstr ''method'') = Some str" "c_string m a = Some str" by auto
    have "name_ok str" using string_member_no_nul [OF str(1)] by (simp add: name_ok_def)
    from c_streq_string [OF str(2) this fs_names(13)] str(1) Some show ?thesis by auto
  qed
  show ?thesis
    by (rule exI [of _ m4])
       (simp add: 4(2,3) hash_result_def 1(1) 2(1) 3(1) off_of_found [OF assms(2)] p(1) md5 dg st del: cstr_eq)
qed

text \<open>The result of \<open>fs.hash\<close> once the file is read.\<close>

definition hash_answer :: "bool \<Rightarrow> allocator \<Rightarrow> elem list \<Rightarrow> int \<Rightarrow> byte list \<Rightarrow> int \<Rightarrow> 'f cfs \<Rightarrow> 'f fs_result \<Rightarrow> bool" where
  "hash_answer ua malloc es len bytes e s r \<longleftrightarrow>
     (if \<not> malloc (fs_mallocs s) (word_of_int (len + 60)) then r = fs_fail ENOMEM (used_malloc s)
      else if string_member es (cstr ''method'') \<noteq> Some (cstr ''md5'') then r = fs_fail JSONRPC_ERR_INVALID_PARAMS (used_malloc s)
      else if ua then \<exists>d. r = Some (Some d, e, used_malloc s) \<and> is_doc d (hash_doc bytes) \<and> int (length d) = len + 60
      else r = None)"

lemma hash_run:
  assumes "is_doc m es" "posix_ok px" "no_huge malloc" "len = int_member es (cstr ''length'') (-1)"
  shows "case lookup_fd es s of
      Inl e \<Rightarrow> peridot_client_fs_hash ua px malloc junk (Some m) s = fs_fail e s
    | Inr (vfd, fd) \<Rightarrow>
        if len < 0 then peridot_client_fs_hash ua px malloc junk (Some m) s = fs_fail JSONRPC_ERR_INVALID_PARAMS s
        else if \<not> malloc (fs_mallocs s) (word_of_int len) then
          peridot_client_fs_hash ua px malloc junk (Some m) s = fs_fail ENOMEM (used_malloc s)
        else (case px_read px fd len (files s) of (f, bytes, r, e) \<Rightarrow>
          if r < 0 then peridot_client_fs_hash ua px malloc junk (Some m) s = fs_fail e (used_malloc s\<lparr>files := f\<rparr>)
          else hash_answer ua malloc es len bytes e (used_malloc s\<lparr>files := f\<rparr>)
            (peridot_client_fs_hash ua px malloc junk (Some m) s))"
proof -
  let ?ks = "[cstr ''fd'', cstr ''length'', cstr ''method'']"
  have ks: "distinct ?ks" "\<forall>k \<in> set ?ks. name_ok k" "cstr ''fd'' \<in> set ?ks" "cstr ''length'' \<in> set ?ks"
    "cstr ''method'' \<in> set ?ks" by simp_all
  note start = peridot_client_fs_hash_def with_props_ok [OF assms(1) ks(1,2)] with_fd_ok [OF assms(1) ks(3)]
    off_of_found [OF ks(4)] get_int32_member [OF assms(1)] assms(4) [symmetric]
  have len: "len < 2147483648"
    using int_member_s32 [OF assms(1), of "-1" "cstr ''length''"] assms(4) by (simp add: is_s32_def)
  show ?thesis
  proof (cases "lookup_fd es s")
    case (Inl e)
    then show ?thesis by (simp add: start)
  next
    case (Inr p)
    obtain vfd fd where p: "p = (vfd, fd)" by (cases p)
    show ?thesis
    proof (cases "len < 0 \<or> \<not> malloc (fs_mallocs s) (word_of_int len)")
      case True
      then show ?thesis
        using len by (cases "len < 0") (simp_all add: start Inr p with_block_ok)
    next
      case False
      then have n: "0 \<le> len" "len < 268435456" "len < 4294967296"
        using no_huge_size [OF assms(3), of "fs_mallocs s" len] len by auto
      have ml: "malloc (fs_mallocs s) (word_of_int len)" using False by simp
      obtain f bytes r e where rd: "px_read px fd len (files s) = (f, bytes, r, e)" by (metis prod_cases4)
      from posix_read [OF assms(2) rd] n have bl: "length bytes \<le> nat len" by simp
      define post where "post = replicate (nat len - length bytes) (0 :: byte)"
      have w: "wr_block (replicate (nat len) 0) 0 bytes = Some (bytes @ post)"
        using wr_block_int [of 0 bytes "replicate (nat len) 0"] bl by (simp add: post_def)
      have nl: "nat len < 268435456" using n by simp
      show ?thesis
      proof (cases "r < 0")
        case True
        with n ml rd show ?thesis by (simp add: start Inr p with_block_ok w)
      next
        case False
        then have r: "r = int (length bytes)" using posix_read(2) [OF assms(2) rd] by simp
        from hash_reply [OF assms(1) ks(5) nl bl, of ua post] obtain d where
          d: "is_doc d (hash_doc bytes)" "length d = nat len + 60"
          "hash_result ua (Some m) (off_of (cstr ''method'') (found_props es ?ks)) (bytes @ post) (int (length bytes))
            (replicate (nat len + 60) 0) =
           (if string_member es (cstr ''method'') \<noteq> Some (cstr ''md5'') then Some None
            else if ua then Some (Some d) else None)" by blast
        have u: "unat (word_of_int (len + 60) :: u32) = nat len + 60"
          using word_bound [of "len + 60"] n by simp
        have run: "peridot_client_fs_hash ua px malloc junk (Some m) s =
          (case fs_malloc malloc (word_of_int (len + 60)) (got_block s\<lparr>files := f\<rparr>) of
             (s, False) \<Rightarrow> fs_fail ENOMEM (fs_free s)
           | (s, True) \<Rightarrow>
               do { r \<leftarrow> hash_result ua (Some m) (off_of (cstr ''method'') (found_props es ?ks)) (bytes @ post) (int (length bytes))
                      (replicate (unat (word_of_int (len + 60) :: u32)) 0);
                    case r of
                      None \<Rightarrow> fs_fail JSONRPC_ERR_INVALID_PARAMS (fs_free (fs_free s))
                    | Some m \<Rightarrow> fs_give (Some m) e (fs_free s) })"
          using n ml rd r False
          by (simp add: start Inr p with_block_ok w measures Let_def add_ac del: cstr_eq)
        define s1 where "s1 = used_malloc s\<lparr>files := f\<rparr>"
        obtain s2 s3 where fm: "fs_malloc malloc w (got_block s\<lparr>files := f\<rparr>) =
            (if malloc (fs_mallocs s1) w then (s2, True) else (s3, False))"
          "fs_free s3 = used_malloc s1" "fs_free (fs_free s2) = used_malloc s1" for w
          by (rule that [of "got_block s\<lparr>files := f, fs_mallocs := fs_mallocs s + 2, fs_blocks := fs_blocks s + 2\<rparr>"
                "got_block s\<lparr>files := f, fs_mallocs := fs_mallocs s + 2\<rparr>"])
             (simp_all add: fs_malloc_def got_block_def used_malloc_def fs_free_def s1_def)
        have "hash_answer ua malloc es len bytes e s1 (peridot_client_fs_hash ua px malloc junk (Some m) s)"
        proof (cases "malloc (fs_mallocs s1) (word_of_int (len + 60))")
          case False
          then show ?thesis unfolding hash_answer_def run fm(1) by (simp add: fm)
        next
          case True
          then show ?thesis
            unfolding hash_answer_def run fm(1) u d(3) using d(1,2) n by (auto simp: fm fs_give_def)
        qed
        then show ?thesis using n ml rd False by (simp add: Inr p s1_def)
      qed
    qed
  qed
qed

lemma hash_safe:
  assumes "is_doc m es" "fs_ok s" "posix_ok px" "no_huge malloc"
  shows "safe s (peridot_client_fs_hash True px malloc junk (Some m) s)"
proof -
  define len where "len = int_member es (cstr ''length'') (-1)"
  note run = hash_run [where junk = junk and s = s and ua = True, OF assms(1,3,4) len_def]
  have len: "len < 2147483648"
    using int_member_s32 [OF assms(1), of "-1" "cstr ''length''"] by (simp add: is_s32_def len_def)
  have ans: "safe s r" if a: "hash_answer True malloc es len bytes e s1 r" and "0 \<le> len" "fs_ok s1"
    "fs_blocks s1 = fs_blocks s" "path_list s1 = path_list s" for bytes e s1 r
  proof (cases "malloc (fs_mallocs s1) (word_of_int (len + 60)) \<and> string_member es (cstr ''method'') = Some (cstr ''md5'')")
    case True
    then have "len + 60 < 268435456" using no_huge_size [OF assms(4), of "fs_mallocs s1" "len + 60"] that(2) len by simp
    moreover from a True obtain d where "r = Some (Some d, e, used_malloc s1)" "is_doc d (hash_doc bytes)" "int (length d) = len + 60"
      by (auto simp: hash_answer_def)
    ultimately show ?thesis
      using that outcome_ok_doc [of d "hash_doc bytes"] by (simp add: safe_def del: outcome_ok.simps)
  next
    case False
    with a that show ?thesis by (auto simp: hash_answer_def split: if_splits)
  qed
  show ?thesis
  proof (cases "lookup_fd es s")
    case (Inl err)
    with run assms(2) show ?thesis by simp
  next
    case (Inr p)
    obtain vfd fd where p: "p = (vfd, fd)" by (cases p)
    obtain f bytes r err where rd: "px_read px fd len (files s) = (f, bytes, r, err)" by (metis prod_cases4)
    show ?thesis
      using run Inr p rd assms(2) ans [of bytes err "used_malloc s\<lparr>files := f\<rparr>"]
      by (auto split: if_splits)
  qed
qed

lemma ioctl_reply_null:
  "\<exists>m1 m2 q. bson_create_empty_document (replicate 27 0) = Some m1 \<and>
    bson_set_null (Some m1) (cstr ''response'') = Some (Some m2, q) \<and>
    (\<forall>v. \<exists>d q2. bson_set_int32 (Some m2) (cstr ''result'') v = Some (Some d, q2) \<and> outcome_ok (Inr (Some d)))"
proof -
  from create_in_block [of 27] obtain m1 where
    1: "bson_create_empty_document (replicate 27 0) = Some m1" "is_doc m1 []" "length m1 = 27" by auto
  have "doc_size ([] @ [(0x0a, cstr ''response'', [])]) \<le> length m1" "length m1 < 2147483648"
    using 1(3) by (simp_all add: doc_size_def)
  from set_null_last [OF 1(2) fs_names(11) this] obtain m2 q where
    2: "bson_set_null (Some m1) (cstr ''response'') = Some (Some m2, q)" "is_doc m2 [(0x0a, cstr ''response'', [])]" "length m2 = 27"
    using 1(3) by auto
  have "\<exists>d q2. bson_set_int32 (Some m2) (cstr ''result'') v = Some (Some d, q2) \<and> outcome_ok (Inr (Some d))" for v
  proof -
    have "doc_size ([(0x0a, cstr ''response'', [])] @ [(0x10, cstr ''result'', int_object v)]) \<le> length m2" "length m2 < 2147483648"
      using 2(3) by (simp_all add: doc_size_def)
    from set_int32_last [OF 2(2) names_ok(3) this] 2(3) outcome_ok_doc show ?thesis by fastforce
  qed
  with 1 2 show ?thesis by blast
qed

lemma ioctl_reply_binary:
  assumes "n < 268435456"
  shows "\<exists>m1 m2 q. bson_create_empty_document (replicate (n + 32) 0) = Some m1 \<and>
    bson_set_binary_generic (Some m1) (cstr ''response'') (int n) = Some (Some m2, q, Some 19) \<and>
    (\<forall>a. length a = n \<longrightarrow> (\<exists>m3. wr_block m2 19 a = Some m3 \<and>
      (\<forall>b. length b = n \<longrightarrow> (\<exists>m4. wr_block m3 19 b = Some m4 \<and>
        (\<forall>v. \<exists>d q2. bson_set_int32 (Some m4) (cstr ''result'') v = Some (Some d, q2) \<and> outcome_ok (Inr (Some d)))))))"
proof -
  let ?e = "\<lambda>bs. (0x05, cstr ''response'', binary_value 0 bs) :: elem"
  from create_in_block [of "n + 32"] obtain m1 where
    1: "bson_create_empty_document (replicate (n + 32) 0) = Some m1" "is_doc m1 []" "length m1 = n + 32" by auto
  have "doc_size ([] @ [?e (replicate n 0)]) \<le> length m1" "length m1 < 2147480000"
    using 1(3) assms by (simp_all add: doc_size_def binary_value_def)
  from set_binary_last [OF 1(2) fs_names(11) this] obtain m2 q where
    2: "bson_set_binary_generic (Some m1) (cstr ''response'') (int n) = Some (Some m2, q, Some 19)"
      "is_doc m2 ([] @ [?e (replicate n 0)])" "length m2 = n + 32"
    using 1(3) by (auto simp: doc_size_def)
  have fill: "\<exists>m'. wr_block m 19 a = Some m' \<and> is_doc m' ([] @ [?e a]) \<and> length m' = n + 32"
    if "is_doc m ([] @ [?e z])" "length z = n" "length a = n" "length m = n + 32" for m z a
    using fill_last_binary [OF that(1), of a] that assms by (simp add: short_def doc_size_def)
  have last: "\<exists>d q2. bson_set_int32 (Some m) (cstr ''result'') v = Some (Some d, q2) \<and> outcome_ok (Inr (Some d))"
    if "is_doc m ([] @ [?e b])" "length b = n" "length m = n + 32" for m b v
  proof -
    have "doc_size (([] @ [?e b]) @ [(0x10, cstr ''result'', int_object v)]) \<le> length m" "length m < 2147483648"
      using that assms by (simp_all add: doc_size_def binary_value_def)
    from set_int32_last [OF that(1) names_ok(3) this] obtain d q2 where
      "bson_set_int32 (Some m) (cstr ''result'') v = Some (Some d, q2)"
      "is_doc d (([] @ [?e b]) @ [(0x10, cstr ''result'', int_object v)])" "length d = length m" by blast
    with outcome_ok_doc [OF this(2)] that(3) assms show ?thesis by auto
  qed
  have "\<exists>m3. wr_block m2 19 a = Some m3 \<and>
      (\<forall>b. length b = n \<longrightarrow> (\<exists>m4. wr_block m3 19 b = Some m4 \<and>
        (\<forall>v. \<exists>d q2. bson_set_int32 (Some m4) (cstr ''result'') v = Some (Some d, q2) \<and> outcome_ok (Inr (Some d)))))"
    if a: "length a = n" for a
  proof -
    from fill [OF 2(2) _ a 2(3)] obtain m3 where
      3: "wr_block m2 19 a = Some m3" "is_doc m3 ([] @ [?e a])" "length m3 = n + 32" by auto
    have "\<exists>m4. wr_block m3 19 b = Some m4 \<and>
        (\<forall>v. \<exists>d q2. bson_set_int32 (Some m4) (cstr ''result'') v = Some (Some d, q2) \<and> outcome_ok (Inr (Some d)))"
      if b: "length b = n" for b
      using fill [OF 3(2) a b 3(3)] last [OF _ b] by blast
    with 3(1) show ?thesis by blast
  qed
  with 1(1) 2(1) show ?thesis by blast
qed

lemma ioctl_safe:
  assumes "is_doc m es" "fs_ok s" "posix_ok px" "no_huge malloc"
  shows "safe s (peridot_client_fs_ioctl px malloc junk (Some m) s)"
proof -
  let ?ks = "[cstr ''fd'', cstr ''req'', cstr ''arg'']"
  have ks: "distinct ?ks" "\<forall>k \<in> set ?ks. name_ok k" "cstr ''fd'' \<in> set ?ks" "cstr ''req'' \<in> set ?ks" "cstr ''arg'' \<in> set ?ks"
    by simp_all
  note start = peridot_client_fs_ioctl_def with_props_ok [OF assms(1) ks(1,2)] with_fd_ok [OF assms(1) ks(3)]
    off_of_found [OF ks(4)] off_of_found [OF ks(5)] get_int32_member [OF assms(1)]
  from get_binary_total [OF assms(1), of "cstr ''arg''"] obtain d where
    d: "bson_get_binary (Some m) (first_off 4 es (cstr ''arg'')) = Some d"
      "case d of None \<Rightarrow> True | Some (p, n) \<Rightarrow> \<exists>bs. n = int (length bs) \<and> length bs < doc_size es \<and> rd_block m p n = Some bs"
    by (force split: option.splits)
  have fail: "safe s (fs_fail e s)" "safe s (fs_fail e (used_malloc s))" "safe s (fs_fail e (used_malloc s\<lparr>files := f\<rparr>))" for e f
    using assms(2) by simp_all
  have give: "safe s (fs_give (Some d) e (got_block s\<lparr>files := f\<rparr>))" if "outcome_ok (Inr (Some d))" for d e f
    using assms(2) that by (simp del: outcome_ok.simps)
  show ?thesis
  proof (cases "lookup_fd es s")
    case (Inl err)
    with fail show ?thesis by (simp add: start del: safe_simps)
  next
    case (Inr pair)
    obtain vfd fd where p: "pair = (vfd, fd)" by (cases pair)
    define req where "req = int_member es (cstr ''req'') (-1)"
    show ?thesis
    proof (cases "req < 0")
      case True
      with fail show ?thesis by (simp add: start Inr p d(1) req_def [symmetric] del: safe_simps)
    next
      case False
      show ?thesis
      proof (cases d)
        case None
        from ioctl_reply_null obtain m1 m2 q where
          r: "bson_create_empty_document (replicate 27 0) = Some m1" "bson_set_null (Some m1) (cstr ''response'') = Some (Some m2, q)"
          "\<And>v. \<exists>d q2. bson_set_int32 (Some m2) (cstr ''result'') v = Some (Some d, q2) \<and> outcome_ok (Inr (Some d))" by blast
        obtain f bytes v e where io: "px_ioctl px fd req None (files s) = (f, bytes, v, e)" by (metis prod_cases4)
        from r(3) [of v] obtain d5 q5 where "bson_set_int32 (Some m2) (cstr ''result'') v = Some (Some d5, q5)" "outcome_ok (Inr (Some d5))" by blast
        with False None r(1,2) io fail give [of d5] show ?thesis
          by (simp add: start Inr p d(1) req_def [symmetric] measures with_block_ok Let_def del: safe_simps outcome_ok.simps)
      next
        case (Some pn)
        obtain pos n where pn: "pn = (pos, n)" by (cases pn)
        with d(2) Some obtain bs where bs: "n = int (length bs)" "length bs < doc_size es" "rd_block m pos n = Some bs" by auto
        have "doc_size es < 2147483648" using assms(1) by (simp add: is_doc_def doc_ok_def)
        with bs have n: "0 \<le> n" "n + 32 < 4294967296" "0 \<le> n + 32" by simp_all
        show ?thesis
        proof (cases "malloc (fs_mallocs s) (word_of_int (n + 32))")
          case False
          with \<open>\<not> req < 0\<close> Some pn n fail show ?thesis
            by (simp add: start Inr p d(1) req_def [symmetric] measures with_block_ok Let_def add_ac del: safe_simps)
        next
          case True
          then have "length bs < 268435456" using no_huge_size [OF assms(4) True n(3,2)] bs(1) by simp
          from ioctl_reply_binary [OF this] obtain m1 m2 q where
            r: "bson_create_empty_document (replicate (length bs + 32) 0) = Some m1"
            "bson_set_binary_generic (Some m1) (cstr ''response'') (int (length bs)) = Some (Some m2, q, Some 19)"
            "\<exists>m3. wr_block m2 19 bs = Some m3 \<and>
              (\<forall>b. length b = length bs \<longrightarrow> (\<exists>m4. wr_block m3 19 b = Some m4 \<and>
                (\<forall>v. \<exists>d q2. bson_set_int32 (Some m4) (cstr ''result'') v = Some (Some d, q2) \<and> outcome_ok (Inr (Some d)))))"
            by blast
          from r(3) obtain m3 where m3: "wr_block m2 19 bs = Some m3"
            "\<forall>b. length b = length bs \<longrightarrow> (\<exists>m4. wr_block m3 19 b = Some m4 \<and>
                (\<forall>v. \<exists>d q2. bson_set_int32 (Some m4) (cstr ''result'') v = Some (Some d, q2) \<and> outcome_ok (Inr (Some d))))"
            by blast
          obtain f bytes v e where io: "px_ioctl px fd req (Some bs) (files s) = (f, bytes, v, e)" by (metis prod_cases4)
          have "length bytes = length bs" by (rule posix_ioctl [OF assms(3) io])
          with m3(2) obtain m4 where m4: "wr_block m3 19 bytes = Some m4"
            "\<forall>v. \<exists>d q2. bson_set_int32 (Some m4) (cstr ''result'') v = Some (Some d, q2) \<and> outcome_ok (Inr (Some d))" by blast
          from m4(2) obtain d5 q5 where d5: "bson_set_int32 (Some m4) (cstr ''result'') v = Some (Some d5, q5)" "outcome_ok (Inr (Some d5))" by blast
          have nn: "nat (int (length bs) + 32) = length bs + 32" by simp
          have "peridot_client_fs_ioctl px malloc junk (Some m) s =
            (if v < 0 then fs_fail e (used_malloc s\<lparr>files := f\<rparr>) else fs_give (Some d5) e (got_block s\<lparr>files := f\<rparr>))"
            using True False \<open>\<not> req < 0\<close> Some pn r(1,2) io m3(1) m4(1) d5(1) bs(3) n
            by (simp add: start Inr p d(1) req_def [symmetric] measures with_block_ok bs(1) nn Let_def add_ac)
          with fail give [OF d5(2)] show ?thesis by (simp del: safe_simps outcome_ok.simps)
        qed
      qed
    qed
  qed
qed

lemma methods_safe:
  assumes "is_doc m es" "fs_ok s" "posix_ok px" "no_huge malloc" "(name, f) \<in> set (fs_methods True px malloc junk)"
  shows "safe s (f (Some m) s)"
  using assms(5) open_safe [OF assms(1,2)] close_safe [OF assms(1,2)] read_safe [OF assms(1-4)]
    hash_safe [OF assms(1-4)] write_safe [OF assms(1,2)] lseek_safe [OF assms(1,2)] ioctl_safe [OF assms(1-4)]
    cleanup_safe [OF assms(2)]
  unfolding fs_methods_def by auto

section \<open>The properties\<close>

text \<open>An example: the files are one stream of bytes; the first descriptor is open.\<close>

definition ex_px :: "byte list posix" where
  "ex_px = \<lparr>px_open = (\<lambda>path flags mode f. (f, 7, 0)), px_close = (\<lambda>fd f. (f, 0, 0)),
     px_read = (\<lambda>fd len f. (drop (nat len) f, take (nat len) f, int (length (take (nat len) f)), 0)),
     px_write = (\<lambda>fd bs f. (f @ bs, int (length bs), 0)), px_lseek = (\<lambda>fd off whence f. (f, off, 0)),
     px_ioctl = (\<lambda>fd req arg f. (f, case arg of None \<Rightarrow> [] | Some bs \<Rightarrow> bs, 0, 0))\<rparr>"

definition ex_cfs :: "byte list cfs" where
  "ex_cfs = \<lparr>vfd_list = 5 # replicate 15 VFD_FREE, path_list = [\<lparr>pe_name = cstr ''/mnt'', pe_flags = O_RDWR + O_DIRECTORY\<rparr>],
     fs_mallocs = 0, fs_blocks = 0, files = cstr ''abc''\<rparr>"

definition ex_alloc :: allocator where
  "ex_alloc n sz \<longleftrightarrow> unat sz < 1000"

definition ex_fs_elems :: "elem list" where
  "ex_fs_elems = [(0x10, cstr ''fd'', [0, 0, 0, 0]), (0x10, cstr ''length'', [3, 0, 0, 0]),
     (0x02, cstr ''method'', string_value (cstr ''md5'')), (0x02, cstr ''path'', string_value (cstr ''/mnt/a'')),
     (0x10, cstr ''flags'', [0, 0, 0, 0])]"

lemma ex_fs_doc: "is_doc (enc_doc ex_fs_elems) ex_fs_elems"
  by (rule is_doc_enc) (simp add: doc_ok_def ex_fs_elems_def value_ok_string doc_size_def string_value_def
      value_ok_def name_ok_def read_int_object_0 cint_simps, simp add: cstr_def)

lemma ex_members:
  "member ex_fs_elems (cstr ''fd'') = Some (0x10, [0, 0, 0, 0])" "int_member ex_fs_elems (cstr ''fd'') d = 0"
  "int_member ex_fs_elems (cstr ''length'') d = 3" "string_member ex_fs_elems (cstr ''method'') = Some (cstr ''md5'')"
  "string_member ex_fs_elems (cstr ''path'') = Some (cstr ''/mnt/a'')" "int_member ex_fs_elems (cstr ''flags'') d = 0"
  "member ex_fs_elems (cstr ''mode'') = None"
  by (simp_all add: ex_fs_elems_def int_member_def string_member_def string_value_def read_unaligned_int_def rd_def)
     (simp_all add: cstr_def int_object_def)

lemma ex_lookup: "lookup_fd ex_fs_elems ex_cfs = Inr (0, 5)"
  by (simp add: lookup_fd_def ex_members ex_cfs_def)

lemma ex_ok: "posix_ok ex_px" "no_huge ex_alloc" "fs_ok ex_cfs"
  by (auto simp: posix_ok_def ex_px_def no_huge_def ex_alloc_def fs_ok_def ex_cfs_def)

text \<open>C21: \<open>fs.open\<close> opens only a path that an entry of the firmware's lists covers, with access the entry
  grants, and answers with the first free descriptor, which then stands for the file; every failure has
  its error number and leaves the table of descriptors, the paths and the blocks as they were.\<close>

theorem fs_open_guarded:
  assumes "is_doc m es"
  shows "\<exists>result errno s'. peridot_client_fs_open px malloc junk id (Some m) s = Some (result, errno, s') \<and>
    (case open_request es of
       None \<Rightarrow> result = None \<and> errno = JSONRPC_ERR_INVALID_PARAMS \<and> s' = s
     | Some (path, flags, mode) \<Rightarrow>
         if \<not> peridot_client_fs_validate_path (path_list s) path flags then
           result = None \<and> errno = EACCES \<and> s' = s
         else (\<exists>entry \<in> set (path_list s). covers entry path flags) \<and>
           (if \<not> malloc (fs_mallocs s) 13 then result = None \<and> errno = ENOMEM \<and> s' = used_malloc s
            else if VFD_FREE \<notin> set (vfd_list s) then result = None \<and> errno = EMFILE \<and> s' = used_malloc s
            else (case px_open px path flags mode (files s) of (f, fd, e) \<Rightarrow>
              if fd < 0 then result = None \<and> errno = e \<and> s' = used_malloc s\<lparr>files := f\<rparr>
              else result = Some (enc_doc [(0x10, cstr ''fd'', int_object (int (open_slot s)))]) \<and> errno = 0 \<and>
                s' = used_malloc s\<lparr>vfd_list := (vfd_list s)[open_slot s := fd], files := f\<rparr> \<and>
                open_slot s < length (vfd_list s) \<and> vfd_list s ! open_slot s = VFD_FREE)))"
proof -
  have c: "\<exists>entry \<in> set (path_list s). covers entry path flags"
    if "open_request es = Some (path, flags, mode)" "peridot_client_fs_validate_path (path_list s) path flags" for path flags mode
    using that validate_path_sound [of "path_list s" path flags]
    by (auto simp: open_request_def Let_def dest: string_member_no_nul split: option.splits if_splits)
  show ?thesis
    unfolding open_run [OF assms]
    using c open_slot_less [of s] open_slot_free [of s]
    by (auto simp: fs_fail_def split: option.split prod.split)
qed

theorem fs_open_guarded_witness:
  "\<exists>s'. peridot_client_fs_open ex_px ex_alloc 0 id (Some (enc_doc ex_fs_elems)) ex_cfs =
      Some (Some (enc_doc [(0x10, cstr ''fd'', int_object 1)]), 0, s') \<and> vfd_list s' ! 1 = 7"
proof -
  have "open_request ex_fs_elems = Some (cstr ''/mnt/a'', 0, 0x1ff)" by (simp add: open_request_def ex_members)
  moreover have "peridot_client_fs_validate_path (path_list ex_cfs) (cstr ''/mnt/a'') 0"
    by (simp add: peridot_client_fs_validate_path_def ex_cfs_def Let_def cstr_def SLASH_def char_at_def O_ACCMODE_def
        O_RDWR_def O_DIRECTORY_def)
  moreover have "ex_alloc 0 13" "open_slot ex_cfs = 1" "VFD_FREE \<in> set (vfd_list ex_cfs)"
    by (simp_all add: ex_alloc_def open_slot_def ex_cfs_def VFD_FREE_def)
  ultimately show ?thesis
    using fs_open_guarded [OF ex_fs_doc, of ex_px ex_alloc 0 ex_cfs]
    by (auto simp: ex_px_def ex_cfs_def)
qed

text \<open>\<open>fs.read\<close> returns the bytes the file system read, exactly as many, and their number, in a document
  without a gap; a bad descriptor, a bad length, want of memory or an error of the file system gives no
  result and its own error number, and nothing but the state of the file system has changed.\<close>

theorem fs_read_returns:
  assumes "is_doc m es" "posix_ok px" "no_huge malloc" "len = int_member es (cstr ''length'') (-1)"
  shows "\<exists>result errno s'. peridot_client_fs_read px malloc junk (Some m) s = Some (result, errno, s') \<and>
    (case lookup_fd es s of
       Inl e \<Rightarrow> result = None \<and> errno = e \<and> s' = s
     | Inr (vfd, fd) \<Rightarrow>
         if len < 0 then result = None \<and> errno = JSONRPC_ERR_INVALID_PARAMS \<and> s' = s
         else if \<not> malloc (fs_mallocs s) (word_of_int (len + 28)) then
           result = None \<and> errno = ENOMEM \<and> s' = used_malloc s
         else (case px_read px fd len (files s) of (f, bytes, r, e) \<Rightarrow>
           s' = used_malloc s\<lparr>files := f\<rparr> \<and> errno = e \<and>
           (if r < 0 then result = None
            else \<exists>d. result = Some d \<and> is_doc d (read_doc bytes) \<and> int (length d) = len + 28)))"
  by (rule read_run [OF assms])

theorem fs_read_returns_witness:
  "\<exists>d s'. peridot_client_fs_read ex_px ex_alloc 0 (Some (enc_doc ex_fs_elems)) ex_cfs = Some (Some d, 0, s') \<and>
    is_doc d (read_doc (cstr ''abc''))"
proof -
  have "ex_alloc (fs_mallocs ex_cfs) (word_of_int (3 + 28))" "px_read ex_px 5 3 (files ex_cfs) = ([], cstr ''abc'', 3, 0)"
    by (simp_all add: ex_alloc_def ex_px_def ex_cfs_def cstr_def)
  with fs_read_returns [where junk = 0 and s = ex_cfs, OF ex_fs_doc ex_ok(1,2) refl] show ?thesis
    by (auto simp: ex_members ex_lookup)
qed

text \<open>C22: \<open>fs.hash\<close> with the method md5 answers with the MD5 digest (RFC 1321) of exactly the bytes the file
  system read. The digest is stored 27 bytes behind the start of the result block, as words: on a
  processor that does not store words at unaligned addresses every such call is undefined.\<close>

theorem fs_hash_md5:
  assumes "is_doc m es" "posix_ok px" "no_huge malloc" "len = int_member es (cstr ''length'') (-1)" "0 \<le> len"
    "string_member es (cstr ''method'') = Some (cstr ''md5'')" "lookup_fd es s = Inr (vfd, fd)"
    "malloc (fs_mallocs s) (word_of_int len)" "malloc (fs_mallocs s + 1) (word_of_int (len + 60))"
    "px_read px fd len (files s) = (f, bytes, r, e)" "0 \<le> r"
  shows "(\<exists>d. peridot_client_fs_hash True px malloc junk (Some m) s =
      Some (Some d, e, used_malloc (used_malloc s\<lparr>files := f\<rparr>)) \<and>
      is_doc d [(0x10, cstr ''length'', int_object r), (0x05, cstr ''hash'', binary_value 0 (md5_bytes (rfc_md5 bytes)))]) \<and>
    peridot_client_fs_hash False px malloc junk (Some m) s = None"
proof -
  have run: "hash_answer ua malloc es len bytes e (used_malloc s\<lparr>files := f\<rparr>)
      (peridot_client_fs_hash ua px malloc junk (Some m) s)" for ua
    using hash_run [where junk = junk and s = s and ua = ua, OF assms(1-4)] assms(5-11) by simp
  have m: "malloc (fs_mallocs (used_malloc s\<lparr>files := f\<rparr>)) (word_of_int (len + 60))"
    using assms(9) by (simp add: used_malloc_def)
  have "hash_doc bytes = [(0x10, cstr ''length'', int_object r), (0x05, cstr ''hash'', binary_value 0 (md5_bytes (rfc_md5 bytes)))]"
    using posix_read(2) [OF assms(2,10,11)] by (simp add: hash_doc_def)
  with run [of True] run [of False] m assms(6) show ?thesis by (auto simp: hash_answer_def)
qed

theorem fs_hash_md5_witness:
  "\<exists>d s'. peridot_client_fs_hash True ex_px ex_alloc 0 (Some (enc_doc ex_fs_elems)) ex_cfs = Some (Some d, 0, s') \<and>
    is_doc d [(0x10, cstr ''length'', int_object 3), (0x05, cstr ''hash'', binary_value 0 (md5_bytes (rfc_md5 (cstr ''abc''))))]"
proof -
  have "ex_alloc n (word_of_int 3)" "ex_alloc n (word_of_int (3 + 60))" for n by (simp_all add: ex_alloc_def)
  moreover have "px_read ex_px 5 3 (files ex_cfs) = ([], cstr ''abc'', 3, 0)" by (simp add: ex_px_def ex_cfs_def cstr_def)
  ultimately show ?thesis
    using fs_hash_md5 [OF ex_fs_doc ex_ok(1,2) _ _ _ ex_lookup, of 3 "[]" "cstr ''abc''" 3 0 0] ex_members by auto
qed



end
