(* ===== verification/Pfc.thy ===== *)
theory Pfc
  imports Prelude
begin

text \<open>
  The pin function controller (\<open>peridot_pfc_interface.c\<close>): four banks of eight pins, each with a register
  of levels, of output functions and of input functions.

  Device registers are reached through \<open>io\<close>, the reads and writes of the bus at absolute addresses on a
  state \<open>'d\<close> of the hardware; the hardware itself is a parameter. \<open>io_wait n\<close> is what happens while a
  thread waits for interrupt \<open>n\<close>, and \<open>None\<close> if it never comes.
\<close>

section \<open>Registers\<close>

record 'd io =
  io_rd :: "u32 \<Rightarrow> 'd \<Rightarrow> 'd \<times> u32"
  io_wr :: "u32 \<Rightarrow> u32 \<Rightarrow> 'd \<Rightarrow> 'd"
  io_wait :: "nat \<Rightarrow> 'd \<Rightarrow> 'd option"

text \<open>\<open>__IO_CALC_ADDRESS_NATIVE\<close>: registers are four bytes apart.\<close>

definition IORD :: "'d io \<Rightarrow> u32 \<Rightarrow> u32 \<Rightarrow> 'd \<Rightarrow> 'd \<times> u32" where
  "IORD io base reg d = io_rd io (base + 4 * reg) d"

definition IOWR :: "'d io \<Rightarrow> u32 \<Rightarrow> u32 \<Rightarrow> u32 \<Rightarrow> 'd \<Rightarrow> 'd" where
  "IOWR io base reg v d = io_wr io (base + 4 * reg) v d"

text \<open>\<open>x << n\<close> and \<open>x >> n\<close> on 32-bit values; the driver shifts by less than 32 only.\<close>

abbreviation shl :: "u32 \<Rightarrow> nat \<Rightarrow> u32" where "shl x n \<equiv> push_bit n x"
abbreviation shr :: "u32 \<Rightarrow> nat \<Rightarrow> u32" where "shr x n \<equiv> drop_bit n x"

definition PFC_DIRIN :: "u32 \<Rightarrow> u32" where "PFC_DIRIN bank = 4 * bank"
definition PFC_DIROUT :: "u32 \<Rightarrow> u32" where "PFC_DIROUT bank = 1 + 4 * bank"
definition PFC_OUTPUT :: "u32 \<Rightarrow> u32" where "PFC_OUTPUT bank = 2 + 4 * bank"
definition PFC_INPUT :: "u32 \<Rightarrow> u32" where "PFC_INPUT bank = 3 + 4 * bank"

definition PFC_DIROUT_MASK_MSK :: u32 where "PFC_DIROUT_MASK_MSK = 0xff00"
definition PFC_OUTPUT_DOUT :: u32 where "PFC_OUTPUT_DOUT = 1"
definition PFC_INPUT_HIGH :: u32 where "PFC_INPUT_HIGH = 1"

section \<open>Pin maps\<close>

record pfc_map_io =
  io_out_funcs :: "int list"
  io_in_bank :: int
  io_in_func :: int
  io_in_pins :: "int list"

record pfc_map_in =
  in_bank :: int
  in_func :: int
  in_pins :: "int list"

record pfc_map_out =
  out_funcs :: "int list"

record pfc_map_out_ch =
  ch_out_funcs :: "int list"
  out_channels :: "int list"

section \<open>One pin\<close>

definition bank_of :: "u32 \<Rightarrow> u32" where "bank_of pin = shr pin 3"

definition place :: "u32 \<Rightarrow> nat" where "place pin = unat (pin AND 7)"

definition peridot_pfc_interface_direct_input :: "'d io \<Rightarrow> u32 \<Rightarrow> u32 \<Rightarrow> 'd \<Rightarrow> 'd \<times> u32" where
  "peridot_pfc_interface_direct_input io pfc_base pin d =
     (case IORD io pfc_base (PFC_DIRIN (bank_of pin)) d of (d, v) \<Rightarrow> (d, shr v (place pin) AND 1))"

text \<open>The word written by \<open>direct_output\<close>.\<close>

definition direct_word :: "u32 \<Rightarrow> u32 \<Rightarrow> u32" where
  "direct_word pin value =
     (shl (NOT 1) (8 + place pin) AND PFC_DIROUT_MASK_MSK) OR
     (if value \<noteq> 0 then shl 1 (place pin) else 0)"

definition peridot_pfc_interface_direct_output :: "'d io \<Rightarrow> u32 \<Rightarrow> u32 \<Rightarrow> u32 \<Rightarrow> 'd \<Rightarrow> 'd" where
  "peridot_pfc_interface_direct_output io pfc_base pin value d =
     IOWR io pfc_base (PFC_DIROUT (bank_of pin)) (direct_word pin value) d"

text \<open>A field of four bits replaced.\<close>

definition set_field :: "nat \<Rightarrow> u32 \<Rightarrow> u32 \<Rightarrow> u32" where
  "set_field i func w = (w AND NOT (shl 0xf (4 * i))) OR shl (func AND 0xf) (4 * i)"

definition peridot_pfc_interface_select_output :: "'d io \<Rightarrow> u32 \<Rightarrow> u32 \<Rightarrow> u32 \<Rightarrow> 'd \<Rightarrow> 'd" where
  "peridot_pfc_interface_select_output io pfc_base pin func d =
     (case IORD io pfc_base (PFC_OUTPUT (bank_of pin)) d of (d, w) \<Rightarrow>
        IOWR io pfc_base (PFC_OUTPUT (bank_of pin)) (set_field (place pin) func w) d)"

definition peridot_pfc_interface_get_output_selection :: "'d io \<Rightarrow> u32 \<Rightarrow> u32 \<Rightarrow> 'd \<Rightarrow> 'd \<times> u32" where
  "peridot_pfc_interface_get_output_selection io pfc_base pin d =
     (case IORD io pfc_base (PFC_OUTPUT (bank_of pin)) d of (d, w) \<Rightarrow> (d, shr w (4 * place pin) AND 0xf))"

definition peridot_pfc_interface_select_input :: "'d io \<Rightarrow> u32 \<Rightarrow> u32 \<Rightarrow> u32 \<Rightarrow> u32 \<Rightarrow> 'd \<Rightarrow> 'd" where
  "peridot_pfc_interface_select_input io pfc_base bank func pin d =
     (let bank = bank AND 3; func = func AND 7 in
      case IORD io pfc_base (PFC_INPUT bank) d of (d, w) \<Rightarrow>
        IOWR io pfc_base (PFC_INPUT bank) (set_field (unat func) pin w) d)"

section \<open>A bank at once\<close>

definition peridot_pfc_interface_direct_input_bank :: "'d io \<Rightarrow> u32 \<Rightarrow> u32 \<Rightarrow> 'd \<Rightarrow> 'd \<times> u32" where
  "peridot_pfc_interface_direct_input_bank io pfc_base bank d =
     (case IORD io pfc_base (PFC_DIRIN (bank AND 3)) d of (d, v) \<Rightarrow> (d, v AND 0xff))"

definition bank_word :: "u32 \<Rightarrow> u32 \<Rightarrow> u32 \<Rightarrow> u32" where
  "bank_word sets clears toggle =
     (shl (NOT (sets OR clears OR toggle)) 8 AND PFC_DIROUT_MASK_MSK) OR (sets AND 0xff)"

definition peridot_pfc_interface_direct_output_bank ::
    "'d io \<Rightarrow> u32 \<Rightarrow> u32 \<Rightarrow> u32 \<Rightarrow> u32 \<Rightarrow> u32 \<Rightarrow> 'd \<Rightarrow> 'd" where
  "peridot_pfc_interface_direct_output_bank io pfc_base bank sets clears toggle d =
     (let bank = bank AND 3;
          (d, sets, clears) =
            (if toggle \<noteq> 0 then
               (case IORD io pfc_base (PFC_DIROUT bank) d of (d, now) \<Rightarrow>
                  (d, sets OR (NOT now AND toggle), clears OR (now AND toggle)))
             else (d, sets, clears)) in
      IOWR io pfc_base (PFC_DIROUT bank) (bank_word sets clears toggle) d)"

text \<open>The bits of a byte spread over the fields of a word, by multiplication.\<close>

definition spread :: "u32 \<Rightarrow> u32" where
  "spread bits = (((bits AND 0x55) * 0x00041041) AND 0x01010101) OR
                 (((bits AND 0xaa) * 0x00208208) AND 0x10101010)"

definition select_word :: "u32 \<Rightarrow> u32 \<Rightarrow> u32 \<Rightarrow> u32" where
  "select_word bits func w =
     (let mask = spread bits in (w AND ((mask XOR 0x11111111) * 0xf)) OR (mask * (func AND 0xf)))"

definition peridot_pfc_interface_select_output_bank :: "'d io \<Rightarrow> u32 \<Rightarrow> u32 \<Rightarrow> u32 \<Rightarrow> u32 \<Rightarrow> 'd \<Rightarrow> 'd" where
  "peridot_pfc_interface_select_output_bank io pfc_base bank bits func d =
     (let bank = bank AND 3 in
      case IORD io pfc_base (PFC_OUTPUT bank) d of (d, w) \<Rightarrow>
        IOWR io pfc_base (PFC_OUTPUT bank) (select_word bits func w) d)"

section \<open>Fields\<close>

definition field :: "nat \<Rightarrow> u32 \<Rightarrow> u32" where
  "field i w = shr w (4 * i) AND 0xf"

lemma bit_15_int: "bit (15 :: int) n \<longleftrightarrow> n < 4"
  using bit_mask_iff [where 'a = int, of 4 n] by (simp add: mask_eq_exp_minus_1)

lemma bit_15: "bit (15 :: u32) n \<longleftrightarrow> n < 4"
  by (auto simp: bit_simps bit_15_int)

lemmas field_bits = bit_simps bit_15 bit_15_int

lemma bit_set_field:
  assumes "i < 8"
  shows "bit (set_field i func w) n \<longleftrightarrow> (if 4 * i \<le> n \<and> n < 4 * i + 4 then bit func (n - 4 * i) else bit w n)"
  using assms by (auto simp: set_field_def field_bits possible_bit_word dest: bit_imp_le_length)

lemma field_set_field:
  assumes "i < 8" "j < 8"
  shows "field j (set_field i func w) = (if j = i then func AND 0xf else field j w)"
proof (rule bit_eqI)
  fix n assume "possible_bit TYPE(32 word) n"
  show "bit (field j (set_field i func w)) n = bit (if j = i then func AND 0xf else field j w) n"
    using assms by (auto simp: field_def field_bits bit_set_field)
qed

lemma field_eqI:
  assumes "\<And>j. j < 8 \<Longrightarrow> field j v = field j w"
  shows "v = w"
proof (rule bit_eqI)
  fix n assume "possible_bit TYPE(32 word) n"
  then have "n < 32" by (simp add: possible_bit_word)
  then have "n div 4 < 8" by simp
  from assms [OF this] have "bit (field (n div 4) v) (n mod 4) = bit (field (n div 4) w) (n mod 4)" by simp
  moreover have "n mod 4 < 32" using mod_less_divisor [of 4 n] by linarith
  ultimately show "bit v n = bit w n" by (simp add: field_def field_bits)
qed

section \<open>The multiplication of \<open>select_output_bank\<close>\<close>

text \<open>Fields that are \<open>func\<close> or 0.\<close>

fun fields :: "u32 \<Rightarrow> bool list \<Rightarrow> u32" where
  "fields func [] = 0"
| "fields func (b # bs) = (if b then func else 0) OR push_bit 4 (fields func bs)"

lemma or_push_add:
  assumes "(n :: u32) AND 0xf = n"
  shows "n OR push_bit 4 r = n + push_bit 4 r"
proof (rule disjunctive_add [symmetric])
  fix i
  have "bit n i \<longleftrightarrow> bit n i \<and> i < 4" using arg_cong [OF assms, of "\<lambda>w. bit w i"] by (auto simp: field_bits)
  then show "\<not> bit n i \<or> \<not> bit (push_bit 4 r) i" by (auto simp: bit_simps)
qed

lemma fields_mult: "(func :: u32) AND 0xf = func \<Longrightarrow> fields 1 bs * func = fields func bs"
proof (induction bs)
  case (Cons b bs)
  have "fields 1 (b # bs) = (if b then 1 else 0) + push_bit 4 (fields 1 bs)"
    by (simp add: or_push_add)
  moreover have "fields func (b # bs) = (if b then func else 0) + push_bit 4 (fields func bs)"
    using Cons.prems by (simp add: or_push_add)
  moreover have "push_bit 4 (fields 1 bs) * func = push_bit 4 (fields func bs)"
    using Cons by (simp add: push_bit_eq_mult mult.assoc mult.commute [of 16]) (simp add: mult.assoc [symmetric])
  ultimately show ?case by (simp add: distrib_right)
qed simp

lemma field_fields:
  assumes "func AND 0xf = func"
  shows "j < length bs \<Longrightarrow> length bs \<le> 8 \<Longrightarrow> field j (fields func bs) = (if bs ! j then func else 0)"
proof (induction bs arbitrary: j)
  case (Cons b bs)
  have f: "bit func n \<Longrightarrow> n < 4" for n using arg_cong [OF assms, of "\<lambda>w. bit w n"] by (simp add: field_bits)
  show ?case
  proof (cases j)
    case 0
    show ?thesis by (rule bit_eqI) (auto simp: 0 field_def field_bits dest: f)
  next
    case (Suc i)
    have "field (Suc i) (fields func (b # bs)) = field i (fields func bs)"
      using Cons.prems Suc by (intro bit_eqI) (auto simp: field_def field_bits possible_bit_word dest: f)
    with Suc Cons show ?thesis by simp
  qed
qed simp

definition bank_bits :: "u32 \<Rightarrow> bool list" where
  "bank_bits b = map (bit b) [0..<8]"


lemma byte_parts:
  "b AND 0x55 = (if bit b 0 then 1 else 0) OR (if bit b 2 then 4 else 0) OR (if bit b 4 then 0x10 else 0) OR
     (if bit b 6 then 0x40 else 0 :: u32)"
  "b AND 0xaa = (if bit b 1 then 2 else 0) OR (if bit b 3 then 8 else 0) OR (if bit b 5 then 0x20 else 0) OR
     (if bit b 7 then 0x80 else 0 :: u32)"
proof -
  have small: "\<not> bit (85 ::  int) n \<and> \<not> bit (170 ::  int) n \<and> \<not> bit (1 ::  int) n \<and> \<not> bit (4 ::  int) n \<and> \<not> bit (16 ::  int) n
    \<and> \<not> bit (64 ::  int) n \<and> \<not> bit (2 ::  int) n \<and> \<not> bit (8 ::  int) n \<and> \<not> bit (32 ::  int) n \<and> \<not> bit (128 ::  int) n"
    if "8 \<le> n" for n
  proof -
    have "(256 :: int) \<le> 2 ^ n" using power_increasing [OF that, of "2 :: int"] by simp
    moreover from that have "0 < n" by simp
    ultimately show ?thesis by (simp add: bit_iff_odd)
  qed
  have eight: "n = 0 \<or> n = 1 \<or> n = 2 \<or> n = 3 \<or> n = 4 \<or> n = 5 \<or> n = 6 \<or> n = 7 \<or> 8 \<le> n" for n :: nat by linarith
  show "b AND 0x55 = (if bit b 0 then 1 else 0) OR (if bit b 2 then 4 else 0) OR (if bit b 4 then 0x10 else 0) OR
     (if bit b 6 then 0x40 else 0 :: u32)"
  proof (rule bit_eqI)
    fix n
    show "bit (b AND 0x55) n = bit ((if bit b 0 then 1 else 0) OR (if bit b 2 then 4 else 0) OR (if bit b 4 then 0x10 else 0) OR
     (if bit b 6 then 0x40 else 0 :: u32)) n"
      using eight [of n] small [of n] by (elim disjE) (simp_all add: bit_simps)
  qed
  show "b AND 0xaa = (if bit b 1 then 2 else 0) OR (if bit b 3 then 8 else 0) OR (if bit b 5 then 0x20 else 0) OR
     (if bit b 7 then 0x80 else 0 :: u32)"
  proof (rule bit_eqI)
    fix n
    show "bit (b AND 0xaa) n = bit ((if bit b 1 then 2 else 0) OR (if bit b 3 then 8 else 0) OR (if bit b 5 then 0x20 else 0) OR
     (if bit b 7 then 0x80 else 0 :: u32)) n"
      using eight [of n] small [of n] by (elim disjE) (simp_all add: bit_simps)
  qed
qed

lemma bank_bits_eq: "bank_bits b = [bit b 0, bit b 1, bit b 2, bit b 3, bit b 4, bit b 5, bit b 6, bit b 7]"
  by (simp add: bank_bits_def upt_rec eval_nat_numeral)

lemma spread_fields: "spread b = fields 1 (bank_bits b)"
  unfolding spread_def byte_parts bank_bits_eq
  by (cases "bit b 0"; cases "bit b 1"; cases "bit b 2"; cases "bit b 3"; cases "bit b 4"; cases "bit b 5"; cases "bit b 6"; cases "bit b 7"; simp)

lemma spread_not: "spread b XOR 0x11111111 = fields 1 (map Not (bank_bits b))"
  unfolding spread_fields bank_bits_eq
  by (cases "bit b 0"; cases "bit b 1"; cases "bit b 2"; cases "bit b 3"; cases "bit b 4"; cases "bit b 5"; cases "bit b 6"; cases "bit b 7"; simp)

end
