(* ===== verification/Pfc_Props.thy ===== *)
theory Pfc_Props
  imports Pfc
begin

text \<open>
  Properties of the pin function controller: selecting functions, one pin at a time and a bank at once,
  and driving levels.
\<close>


text \<open>The reference: one pin of the bank after another.\<close>

definition select_pins :: "u32 \<Rightarrow> u32 \<Rightarrow> u32 \<Rightarrow> u32" where
  "select_pins bits func w = fold (\<lambda>i w. if bit bits i then set_field i func w else w) [0..<8] w"

lemma field_select_pins:
  "n \<le> 8 \<Longrightarrow> j < 8 \<Longrightarrow> field j (fold (\<lambda>i w. if bit bits i then set_field i func w else w) [0..<n] w) =
     (if j < n \<and> bit bits j then func AND 0xf else field j w)"
  by (induction n) (auto simp: field_set_field less_Suc_eq)

lemma field_and: "field j (a AND b) = field j a AND field j b"
  by (rule bit_eqI) (auto simp: field_def field_bits)

lemma field_or: "field j (a OR b) = field j a OR field j b"
  by (rule bit_eqI) (auto simp: field_def field_bits)

lemma field_low: "field j w AND 0xf = field j w"
  by (rule bit_eqI) (auto simp: field_def field_bits)

lemma select_word_pins: "select_word bits func w = select_pins bits func w"
proof (rule field_eqI)
  fix j :: nat assume j: "j < 8"
  have b: "length (bank_bits bits) = 8" "bank_bits bits ! j = bit bits j" using j by (simp_all add: bank_bits_def)
  have f: "(func AND 0xf) AND 0xf = func AND 0xf" by (simp add: and.assoc)
  show "field j (select_word bits func w) = field j (select_pins bits func w)"
    using j b field_select_pins [of 8 j bits func w]
    by (simp add: select_word_def Let_def spread_not [unfolded spread_fields] spread_fields fields_mult f field_and field_or field_fields
        select_pins_def field_low)
qed


section \<open>Properties\<close>

text \<open>The registers of the output functions read back what was written to them.\<close>

definition output_regs :: "u32 \<Rightarrow> u32 set" where
  "output_regs base = {base + 4 * PFC_OUTPUT bank | bank. bank AND 3 = bank}"

definition plain :: "'d io \<Rightarrow> u32 set \<Rightarrow> bool" where
  "plain io A \<longleftrightarrow> (\<forall>a \<in> A. \<forall>d. fst (io_rd io a d) = d \<and>
     (\<forall>b \<in> A. \<forall>v. snd (io_rd io a (io_wr io b v d)) = (if a = b then v else snd (io_rd io a d))))"

text \<open>The levels of a bank after a write to its level register: a set mask bit keeps the level.\<close>

definition levels :: "u32 \<Rightarrow> u32 \<Rightarrow> bool list" where
  "levels w old = map (\<lambda>j. if bit w (8 + j) then bit old j else bit w j) [0..<8]"

lemma bank_cases:
  assumes "(a :: u32) AND 3 = a"
  shows "a = 0 \<or> a = 1 \<or> a = 2 \<or> a = 3"
proof -
  have "uint a = uint a mod 4" using and_3_eq [of a] assms by simp
  then have "0 \<le> uint a" "uint a < 4" using pos_mod_bound [of 4 "uint a"] by simp_all
  then have "uint a = 0 \<or> uint a = 1 \<or> uint a = 2 \<or> uint a = 3" by linarith
  then show ?thesis by (simp add: word_uint_eq_iff)
qed

lemma bank_inject:
  assumes "(a :: u32) AND 3 = a" "b AND 3 = b" "base + 4 * PFC_OUTPUT a = base + 4 * PFC_OUTPUT b"
  shows "a = b"
  using bank_cases [OF assms(1)] bank_cases [OF assms(2)] assms(3) by (auto simp: PFC_OUTPUT_def)

lemma bank_of_less:
  assumes "pin < 32"
  shows "bank_of pin AND 3 = bank_of pin"
proof -
  have "uint pin < 32" using assms by (simp add: word_less_alt)
  then have "uint (bank_of pin) < 4"
    unfolding bank_of_def drop_bit_eq_div uint_div_distrib by simp
  then show ?thesis by (simp add: word_uint_eq_iff and_3_eq)
qed

lemma place_less: "place pin < 8"
proof -
  have "uint (pin AND 7) = uint pin mod 8" using uint_and_mask [of pin 3] by (simp add: mask_eq_exp_minus_1)
  then have "nat (uint (pin AND 7)) < 8" by simp
  then show ?thesis unfolding place_def nat_uint_eq .
qed

lemma get_field: "peridot_pfc_interface_get_output_selection io base pin d =
  (fst (io_rd io (base + 4 * PFC_OUTPUT (bank_of pin)) d), field (place pin) (snd (io_rd io (base + 4 * PFC_OUTPUT (bank_of pin)) d)))"
  by (simp add: peridot_pfc_interface_get_output_selection_def IORD_def field_def split: prod.split)

lemma output_regsI: "bank AND 3 = bank \<Longrightarrow> base + 4 * PFC_OUTPUT bank \<in> output_regs base"
  by (auto simp: output_regs_def)

text \<open>C25: Selecting functions of output pins is right: \<open>get_output_selection\<close> of any pin afterwards is the
  function selected last for it, by \<open>select_output\<close> for the one pin or by \<open>select_output_bank\<close> for the
  pins of the bit set, whose multiplications compute exactly what one pin after another gives; all other
  pins of all banks keep theirs.\<close>

theorem pfc_selection_round_trip:
  assumes "plain io (output_regs base)" "pin < 32" "pin' < 32"
  shows "snd (peridot_pfc_interface_get_output_selection io base pin
      (peridot_pfc_interface_select_output io base pin' func d)) =
     (if pin = pin' then func AND 0xf else snd (peridot_pfc_interface_get_output_selection io base pin d)) \<and>
   snd (peridot_pfc_interface_get_output_selection io base pin
      (peridot_pfc_interface_select_output_bank io base bank bits func d)) =
     (if bank_of pin = bank AND 3 \<and> bit bits (place pin) then func AND 0xf
      else snd (peridot_pfc_interface_get_output_selection io base pin d)) \<and>
   select_word bits func w = select_pins bits func w"
proof (intro conjI)
  let ?a = "\<lambda>bank. base + 4 * PFC_OUTPUT bank"
  have in_regs: "?a (bank_of pin) \<in> output_regs base" "?a (bank_of pin') \<in> output_regs base"
    "?a (bank AND 3) \<in> output_regs base"
    using bank_of_less assms(2,3) by (auto intro!: output_regsI simp: and.assoc)
  have rd: "snd (io_rd io (?a (bank_of pin)) (io_wr io (?a b) v d)) =
      (if bank_of pin = b then v else snd (io_rd io (?a (bank_of pin)) d))"
    "fst (io_rd io (?a b) d) = d" if "b AND 3 = b" for b v
    using assms(1) in_regs(1) output_regsI [OF that, of base] bank_inject [OF bank_of_less [OF assms(2)] that, of base]
    by (auto simp: plain_def)
  have pin: "pin = pin' \<longleftrightarrow> bank_of pin = bank_of pin' \<and> place pin = place pin'"
  proof -
    have "pin = push_bit 3 (bank_of pin) + (pin AND 7)" for pin :: u32
      using bits_ident [of 3 pin] unfolding bank_of_def take_bit_eq_mask by (simp add: mask_eq_exp_minus_1)
    then show ?thesis by (metis place_def word_unat_eq_iff)
  qed
  show "snd (peridot_pfc_interface_get_output_selection io base pin
      (peridot_pfc_interface_select_output io base pin' func d)) =
     (if pin = pin' then func AND 0xf else snd (peridot_pfc_interface_get_output_selection io base pin d))"
    using rd [OF bank_of_less [OF assms(3)]] place_less
    by (simp add: get_field peridot_pfc_interface_select_output_def IORD_def IOWR_def case_prod_beta pin field_set_field)
  show "snd (peridot_pfc_interface_get_output_selection io base pin
      (peridot_pfc_interface_select_output_bank io base bank bits func d)) =
     (if bank_of pin = bank AND 3 \<and> bit bits (place pin) then func AND 0xf
      else snd (peridot_pfc_interface_get_output_selection io base pin d))"
    using rd [of "bank AND 3"] place_less [of pin] field_select_pins [of 8 "place pin" bits func]
    by (simp add: get_field peridot_pfc_interface_select_output_bank_def Let_def IORD_def IOWR_def case_prod_beta
        select_word_pins select_pins_def and.assoc)
qed (rule select_word_pins)

text \<open>Registers that are plain memory.\<close>

definition ex_io :: "(u32 \<Rightarrow> u32) io" where
  "ex_io = \<lparr>io_rd = (\<lambda>a d. (d, d a)), io_wr = (\<lambda>a v d. d(a := v)), io_wait = (\<lambda>n d. Some d)\<rparr>"

theorem pfc_selection_round_trip_witness:
  "snd (peridot_pfc_interface_get_output_selection ex_io 0x10000080 9
     (peridot_pfc_interface_select_output ex_io 0x10000080 9 12 (\<lambda>_. 0))) = 12 \<and>
   snd (peridot_pfc_interface_get_output_selection ex_io 0x10000080 9
     (peridot_pfc_interface_select_output_bank ex_io 0x10000080 1 0xff 4 (\<lambda>_. 0))) = 4"
proof -
  have "plain ex_io (output_regs 0x10000080)" by (simp add: plain_def ex_io_def)
  moreover have "bank_of 9 = 1" "place 9 = 1" by (simp_all add: bank_of_def place_def)
  moreover have "bit (0xff :: u32) 1" by simp
  ultimately show ?thesis
    using pfc_selection_round_trip [where io = ex_io and base = "0x10000080" and pin = "9" and pin' = "9" and func = "12" and d = "\<lambda>_. 0"]
      pfc_selection_round_trip [where io = ex_io and base = "0x10000080" and pin = "9" and pin' = "9" and func = "4" and d = "\<lambda>_. 0"
        and bank = "1" and bits = "0xff"] by simp
qed

lemma bit_bytes: "bit (0xff :: int) n \<longleftrightarrow> n < 8" "bit (0xff00 :: int) n \<longleftrightarrow> 8 \<le> n \<and> n < 16"
proof -
  show f: "bit (0xff :: int) n \<longleftrightarrow> n < 8" for n
    using bit_mask_iff [where 'a = int, of 8 n] by (simp add: mask_eq_exp_minus_1)
  have "(0xff00 :: int) = push_bit 8 0xff" by simp
  then show "bit (0xff00 :: int) n \<longleftrightarrow> 8 \<le> n \<and> n < 16" by (simp only: bit_push_bit_iff f) auto
qed

lemma levels_eqI: "(\<And>j. j < 8 \<Longrightarrow> (if bit w (8 + j) then bit old j else bit w j) = f j) \<Longrightarrow> levels w old = map f [0..<8]"
  by (simp add: levels_def)

lemma direct_split:
  assumes "i < 8"
  shows "map (\<lambda>j. if j < i then False else if j = i then x else f j) [0..<8] = replicate i False @ x # map f [Suc i..<8]"
proof (rule nth_equalityI)
  fix k assume "k < length (map (\<lambda>j. if j < i then False else if j = i then x else f j) [0..<8])"
  then show "map (\<lambda>j. if j < i then False else if j = i then x else f j) [0..<8] ! k =
    (replicate i False @ x # map f [Suc i..<8]) ! k"
    using assms less_imp_Suc_add [of i k] by (cases "k < i"; cases "k = i") (auto simp: nth_append)
qed (use assms in simp)

text \<open>\<open>direct_output_bank\<close> sets, clears and toggles exactly the levels it is told to. \<open>direct_output\<close> of one
  pin does not: it drives all lower pins of the bank low, because it shifts the complement of 1 instead of
  complementing the shifted 1.\<close>

theorem pfc_direct_output_drives_lower_pins:
  "(\<exists>w. peridot_pfc_interface_direct_output io base pin value d = IOWR io base (PFC_DIROUT (bank_of pin)) w d \<and>
     levels w old = replicate (place pin) False @ (value \<noteq> 0) # map (bit old) [Suc (place pin)..<8]) \<and>
   (\<exists>w. peridot_pfc_interface_direct_output_bank io base bank sets clears 0 d = IOWR io base (PFC_DIROUT (bank AND 3)) w d \<and>
     levels w old = map (\<lambda>j. bit sets j \<or> bit old j \<and> \<not> bit clears j) [0..<8]) \<and>
   (case IORD io base (PFC_DIROUT (bank AND 3)) d of (d', old) \<Rightarrow>
     toggle = 0 \<or> (\<exists>w. peridot_pfc_interface_direct_output_bank io base bank 0 0 toggle d =
       IOWR io base (PFC_DIROUT (bank AND 3)) w d' \<and> levels w old = map (\<lambda>j. bit old j \<noteq> bit toggle j) [0..<8]))"
proof (intro conjI)
  have low: "bit (bank_word s c t) j \<longleftrightarrow> bit s j" "bit (bank_word s c t) (8 + j) \<longleftrightarrow> \<not> (bit s j \<or> bit c j \<or> bit t j)"
    if "j < 8" for s c t j
    using that by (auto simp: bank_word_def PFC_DIROUT_MASK_MSK_def bit_simps bit_bytes)
  show "\<exists>w. peridot_pfc_interface_direct_output io base pin value d = IOWR io base (PFC_DIROUT (bank_of pin)) w d \<and>
     levels w old = replicate (place pin) False @ (value \<noteq> 0) # map (bit old) [Suc (place pin)..<8]"
    by (rule exI [of _ "direct_word pin value"])
       (use place_less [of pin] in \<open>auto simp: peridot_pfc_interface_direct_output_def direct_split [symmetric]
         direct_word_def PFC_DIROUT_MASK_MSK_def bit_simps bit_bytes intro!: levels_eqI\<close>)
  show "\<exists>w. peridot_pfc_interface_direct_output_bank io base bank sets clears 0 d = IOWR io base (PFC_DIROUT (bank AND 3)) w d \<and>
     levels w old = map (\<lambda>j. bit sets j \<or> bit old j \<and> \<not> bit clears j) [0..<8]"
    by (rule exI [of _ "bank_word sets clears 0"])
       (auto simp: peridot_pfc_interface_direct_output_bank_def Let_def low intro!: levels_eqI split: if_splits)
  show "case IORD io base (PFC_DIROUT (bank AND 3)) d of (d', old) \<Rightarrow>
     toggle = 0 \<or> (\<exists>w. peridot_pfc_interface_direct_output_bank io base bank 0 0 toggle d =
       IOWR io base (PFC_DIROUT (bank AND 3)) w d' \<and> levels w old = map (\<lambda>j. bit old j \<noteq> bit toggle j) [0..<8])"
  proof (cases "IORD io base (PFC_DIROUT (bank AND 3)) d")
    case (Pair d' old)
    let ?w = "bank_word (NOT old AND toggle) (old AND toggle) toggle"
    have "levels ?w old = map (\<lambda>j. bit old j \<noteq> bit toggle j) [0..<8]"
      by (auto simp: low bit_simps intro!: levels_eqI split: if_splits)
    moreover have "peridot_pfc_interface_direct_output_bank io base bank 0 0 toggle d =
       IOWR io base (PFC_DIROUT (bank AND 3)) ?w d'" if "toggle \<noteq> 0"
      using Pair that by (simp add: peridot_pfc_interface_direct_output_bank_def Let_def)
    ultimately show ?thesis using Pair by auto
  qed
qed

end
