(* ===== verification/Servo.thy ===== *)
theory Servo
  imports Pfc_Props
begin

text \<open>
  The servo controller (\<open>peridot_servo.c\<close>) and the pin maps of the board (\<open>resources.c\<close>, the same in both
  firmwares). \<open>servo_sp\<close> is \<open>None\<close> until \<open>peridot_servo_init\<close> has been called.
\<close>

definition ENODEV :: int where "ENODEV = 19"

record servo =
  sv_base :: u32
  pwm_pfc_map :: pfc_map_out_ch
  dsm_pfc_map :: pfc_map_out_ch

definition SERVO_ENABLE :: u32 where "SERVO_ENABLE = 0"
definition SERVO_PWM :: "u32 \<Rightarrow> u32" where "SERVO_PWM ch = 2 + ch"

definition peridot_servo_init :: "servo \<Rightarrow> servo option" where
  "peridot_servo_init sp = Some sp"

definition peridot_servo_enable_all :: "'d io \<Rightarrow> servo option \<Rightarrow> 'd \<Rightarrow> 'd \<times> int" where
  "peridot_servo_enable_all io servo_sp d =
     (case servo_sp of None \<Rightarrow> (d, - ENODEV) | Some sp \<Rightarrow> (IOWR io (sv_base sp) SERVO_ENABLE 1 d, 0))"

definition peridot_servo_disable_all :: "'d io \<Rightarrow> servo option \<Rightarrow> 'd \<Rightarrow> 'd \<times> int" where
  "peridot_servo_disable_all io servo_sp d =
     (case servo_sp of None \<Rightarrow> (d, - ENODEV) | Some sp \<Rightarrow> (IOWR io (sv_base sp) SERVO_ENABLE 0 d, 0))"

text \<open>A map has 32 entries; an index is checked against their number.\<close>

definition peridot_servo_configure ::
    "'d io \<Rightarrow> u32 \<Rightarrow> pfc_map_out_ch \<Rightarrow> u32 \<Rightarrow> bool \<Rightarrow> 'd \<Rightarrow> 'd \<times> int" where
  "peridot_servo_configure io pfc_base pfc_map pin dry_run d =
     (if pin < 32 then
        let func = ch_out_funcs pfc_map ! unat pin in
        if func \<ge> 0 then
          (if \<not> dry_run then peridot_pfc_interface_select_output io pfc_base pin (word_of_int func) d else d, 0)
        else (d, - ENOTSUP)
      else (d, - ENOTSUP))"

definition peridot_servo_configure_pwm :: "'d io \<Rightarrow> u32 \<Rightarrow> servo option \<Rightarrow> u32 \<Rightarrow> bool \<Rightarrow> 'd \<Rightarrow> 'd \<times> int" where
  "peridot_servo_configure_pwm io pfc_base servo_sp pin dry_run d =
     (case servo_sp of None \<Rightarrow> (d, - ENODEV)
      | Some sp \<Rightarrow> peridot_servo_configure io pfc_base (pwm_pfc_map sp) pin dry_run d)"

definition peridot_servo_configure_dsm :: "'d io \<Rightarrow> u32 \<Rightarrow> servo option \<Rightarrow> u32 \<Rightarrow> bool \<Rightarrow> 'd \<Rightarrow> 'd \<times> int" where
  "peridot_servo_configure_dsm io pfc_base servo_sp pin dry_run d =
     (case servo_sp of None \<Rightarrow> (d, - ENODEV)
      | Some sp \<Rightarrow> peridot_servo_configure io pfc_base (dsm_pfc_map sp) pin dry_run d)"

definition peridot_servo_set_value :: "'d io \<Rightarrow> servo option \<Rightarrow> u32 \<Rightarrow> byte \<Rightarrow> 'd \<Rightarrow> 'd \<times> int" where
  "peridot_servo_set_value io servo_sp pin value d =
     (case servo_sp of
        None \<Rightarrow> (d, - ENODEV)
      | Some sp \<Rightarrow>
          if pin \<ge> 32 then (d, - EINVAL)
          else let ch = word_of_int (out_channels (pwm_pfc_map sp) ! unat pin) in
            (IOWR io (sv_base sp) (SERVO_PWM ch) (ucast value AND 0xff) d, 0))"

definition peridot_servo_get_value :: "'d io \<Rightarrow> servo option \<Rightarrow> u32 \<Rightarrow> 'd \<Rightarrow> 'd \<times> int" where
  "peridot_servo_get_value io servo_sp pin d =
     (case servo_sp of
        None \<Rightarrow> (d, - ENODEV)
      | Some sp \<Rightarrow>
          if pin \<ge> 32 then (d, - EINVAL)
          else let ch = word_of_int (out_channels (pwm_pfc_map sp) ! unat pin) in
            case IORD io (sv_base sp) (SERVO_PWM ch) d of (d, w) \<Rightarrow> (d, uint (w AND 0xff)))"

section \<open>The pin maps\<close>

text \<open>Four banks of eight pins.\<close>

definition banks :: "int list \<Rightarrow> int list \<Rightarrow> int list \<Rightarrow> int list \<Rightarrow> int list" where
  "banks a b c d = a @ b @ c @ d"

abbreviation no_pins :: "int list" where "no_pins \<equiv> replicate 8 (-1)"

definition pins_8_15 :: "int list" where "pins_8_15 = [8, 9, 10, 11, 12, 13, 14, 15]"

definition i2c_scl_pfc_map :: pfc_map_io where
  "i2c_scl_pfc_map = \<lparr>io_out_funcs = banks (replicate 8 12) (replicate 8 12) no_pins no_pins,
     io_in_bank = 1, io_in_func = 4, io_in_pins = banks [-1, -1, 2, 3, 4, 5, 6, 7] pins_8_15 no_pins no_pins\<rparr>"

definition i2c_sda_pfc_map :: pfc_map_io where
  "i2c_sda_pfc_map = \<lparr>io_out_funcs = banks (replicate 8 13) (replicate 8 13) no_pins no_pins,
     io_in_bank = 1, io_in_func = 5, io_in_pins = banks [-1, -1, 2, 3, 4, 5, 6, 7] pins_8_15 no_pins no_pins\<rparr>"

definition spi_ss_n_pfc_map :: pfc_map_out where
  "spi_ss_n_pfc_map = \<lparr>out_funcs = banks no_pins (replicate 8 11) no_pins no_pins\<rparr>"

definition spi_sclk_pfc_map :: pfc_map_out where
  "spi_sclk_pfc_map = \<lparr>out_funcs = banks no_pins (replicate 8 10) no_pins no_pins\<rparr>"

definition spi_mosi_pfc_map :: pfc_map_out where
  "spi_mosi_pfc_map = \<lparr>out_funcs = banks no_pins (replicate 8 9) no_pins no_pins\<rparr>"

definition spi_miso_pfc_map :: pfc_map_in where
  "spi_miso_pfc_map = \<lparr>in_bank = 1, in_func = 0,
     in_pins = banks [-1, -1, 2, 4, 5, 6, 7, 8] pins_8_15 no_pins no_pins\<rparr>"

definition servo_pwm_pfc_map :: pfc_map_out_ch where
  "servo_pwm_pfc_map = \<lparr>ch_out_funcs = banks (replicate 8 4) (replicate 8 4) [4, 4, 4, 4, 4, 4, -1, -1] no_pins,
     out_channels = banks [0, 1, 2, 3, 4, 5, 6, 7] pins_8_15 [16, 17, 18, 19, 20, 21, -1, -1] no_pins\<rparr>"

definition servo_dsm_pfc_map :: pfc_map_out_ch where
  "servo_dsm_pfc_map = \<lparr>ch_out_funcs = banks no_pins no_pins [5, 5, 5, 5, 5, 5, -1, -1] no_pins,
     out_channels = banks no_pins no_pins [16, 17, 18, 19, 20, 21, -1, -1] no_pins\<rparr>"

text \<open>A map of functions has an entry for each pin, none or a function of four bits.\<close>

definition funcs_ok :: "int list \<Rightarrow> bool" where
  "funcs_ok fs \<longleftrightarrow> length fs = 32 \<and> set fs \<subseteq> {-1..15}"

text \<open>The input selections of an input map: a pin that has one selects itself.\<close>

definition selects_itself :: "int list \<Rightarrow> bool" where
  "selects_itself ps \<longleftrightarrow> list_all (\<lambda>(i, p). p = -1 \<or> p = i) (zip [0..31] ps)"

lemma replicate_8: "replicate 8 x = [x, x, x, x, x, x, x, x]"
  by (simp add: eval_nat_numeral)


end
