(* ===== verification/Master.thy ===== *)
theory Master
  imports Servo
begin

text \<open>
  What the I2C and the SPI master drivers have in common: the state of a master, the wait for the end of a
  transfer, and what is assumed of the controller.

  The interrupt of the master is off except during \<open>wait\<close>. The handler switches it off again and posts
  \<open>done\<close>; here this is part of the wait that takes the post. \<open>io_wait\<close> says how the hardware goes on until
  the interrupt comes.
\<close>

section \<open>State and waiting\<close>

record 'd master =
  m_base :: u32
  m_freq :: u32
  m_irq :: nat
  m_done :: nat
  m_irq_on :: bool
  dev :: 'd

definition ACCESS :: u32 where "ACCESS = 0"
definition CONFIG :: u32 where "CONFIG = 1"
definition ACCESS_RDY :: u32 where "ACCESS_RDY = 0x200"
definition ACCESS_STA :: u32 where "ACCESS_STA = 0x200"
definition ACCESS_IRQENA :: u32 where "ACCESS_IRQENA = 0x8000"

definition rd_access :: "'d io \<Rightarrow> ('d, 'z) master_scheme \<Rightarrow> ('d, 'z) master_scheme \<times> u32" where
  "rd_access io s = (case IORD io (m_base s) ACCESS (dev s) of (d, v) \<Rightarrow> (s\<lparr>dev := d\<rparr>, v))"

definition wr_access :: "'d io \<Rightarrow> u32 \<Rightarrow> ('d, 'z) master_scheme \<Rightarrow> ('d, 'z) master_scheme" where
  "wr_access io v s = s\<lparr>dev := IOWR io (m_base s) ACCESS v (dev s)\<rparr>"

definition wr_config :: "'d io \<Rightarrow> u32 \<Rightarrow> ('d, 'z) master_scheme \<Rightarrow> ('d, 'z) master_scheme" where
  "wr_config io v s = s\<lparr>dev := IOWR io (m_base s) CONFIG v (dev s)\<rparr>"

definition sem_wait_done :: "'d io \<Rightarrow> ('d, 'z) master_scheme \<Rightarrow> ('d, 'z) master_scheme option" where
  "sem_wait_done io s =
     (if m_done s > 0 then Some (s\<lparr>m_done := m_done s - 1\<rparr>)
      else if m_irq_on s then
        do { d \<leftarrow> io_wait io (m_irq s) (dev s); Some (s\<lparr>dev := d, m_irq_on := False\<rparr>) }
      else None)"

partial_function (option) wait_loop :: "'d io \<Rightarrow> ('d, 'z) master_scheme \<Rightarrow> (('d, 'z) master_scheme \<times> u32) option" where
  "wait_loop io s =
     do { s \<leftarrow> sem_wait_done io s;
          case rd_access io s of (s, resp) \<Rightarrow>
          if resp AND ACCESS_RDY = 0 then wait_loop io s else Some (s, resp) }"

definition wait_resp :: "'d io \<Rightarrow> ('d, 'z) master_scheme \<Rightarrow> (('d, 'z) master_scheme \<times> u32) option" where
  "wait_resp io s = wait_loop io (s\<lparr>m_irq_on := True\<rparr>)"

text \<open>The loop that polls for ready before a transfer.\<close>

partial_function (option) poll_ready :: "'d io \<Rightarrow> ('d, 'z) master_scheme \<Rightarrow> ('d, 'z) master_scheme option" where
  "poll_ready io s = (case rd_access io s of (s, v) \<Rightarrow> if v AND ACCESS_RDY = 0 then poll_ready io s else Some s)"

section \<open>The controller\<close>

text \<open>
  What the drivers rely on, for a controller at \<open>base\<close> with interrupt \<open>irq\<close>: \<open>idle\<close> are its states between
  transfers and \<open>bus\<close> is the state of what hangs on its bus.
  \<^item> Idle, it is ready; reading it and configuring it does nothing to the bus.
  \<^item> A word with the start and interrupt bits begins a transfer, whose end raises the interrupt; the word
    read then has the ready bit and the answer of the bus, \<open>act\<close>.
  \<^item> A word without the start bit acts on the bus at once, \<open>lines\<close>.
  \<^item> It does not react to other addresses.
\<close>

definition controller ::
    "'d io \<Rightarrow> u32 \<Rightarrow> nat \<Rightarrow> ('d \<Rightarrow> bool) \<Rightarrow> ('d \<Rightarrow> 'b) \<Rightarrow> (u32 \<Rightarrow> 'b \<Rightarrow> 'b \<times> u32) \<Rightarrow> (u32 \<Rightarrow> 'b \<Rightarrow> 'b) \<Rightarrow> bool" where
  "controller io base irq idle bus act lines \<longleftrightarrow>
     (\<forall>d. idle d \<longrightarrow>
        (case IORD io base ACCESS d of (d', v) \<Rightarrow> idle d' \<and> bus d' = bus d \<and> v AND ACCESS_RDY \<noteq> 0) \<and>
        (\<forall>v. idle (IOWR io base CONFIG v d) \<and> bus (IOWR io base CONFIG v d) = bus d) \<and>
        (\<forall>w. w AND ACCESS_STA = 0 \<longrightarrow>
           idle (IOWR io base ACCESS w d) \<and> bus (IOWR io base ACCESS w d) = lines w (bus d)) \<and>
        (\<forall>w. w AND ACCESS_STA \<noteq> 0 \<and> w AND ACCESS_IRQENA \<noteq> 0 \<longrightarrow>
           (\<exists>d1. io_wait io irq (IOWR io base ACCESS w d) = Some d1 \<and>
              (case IORD io base ACCESS d1 of (d2, v) \<Rightarrow>
                 idle d2 \<and> v AND ACCESS_RDY \<noteq> 0 \<and> (bus d2, v AND 0x1ff) = act w (bus d)))) \<and>
        (\<forall>a. a \<noteq> base \<and> a \<noteq> base + 4 \<longrightarrow>
           (idle (fst (io_rd io a d)) \<and> bus (fst (io_rd io a d)) = bus d) \<and>
           (\<forall>v. idle (io_wr io a v d) \<and> bus (io_wr io a v d) = bus d)))"

text \<open>A master between transfers.\<close>

definition at_rest :: "('d \<Rightarrow> bool) \<Rightarrow> ('d, 'z) master_scheme \<Rightarrow> bool" where
  "at_rest idle s \<longleftrightarrow> idle (dev s) \<and> m_done s = 0 \<and> \<not> m_irq_on s"

lemma controllerD:
  assumes "controller io base irq idle bus act lines" "idle d"
  shows "case IORD io base ACCESS d of (d', v) \<Rightarrow> idle d' \<and> bus d' = bus d \<and> v AND ACCESS_RDY \<noteq> 0"
    "idle (IOWR io base CONFIG v d) \<and> bus (IOWR io base CONFIG v d) = bus d"
    "w AND ACCESS_STA = 0 \<Longrightarrow> idle (IOWR io base ACCESS w d) \<and> bus (IOWR io base ACCESS w d) = lines w (bus d)"
    "w AND ACCESS_STA \<noteq> 0 \<Longrightarrow> w AND ACCESS_IRQENA \<noteq> 0 \<Longrightarrow>
       \<exists>d1. io_wait io irq (IOWR io base ACCESS w d) = Some d1 \<and>
              (case IORD io base ACCESS d1 of (d2, v) \<Rightarrow>
                 idle d2 \<and> v AND ACCESS_RDY \<noteq> 0 \<and> (bus d2, v AND 0x1ff) = act w (bus d))"
    "a \<noteq> base \<Longrightarrow> a \<noteq> base + 4 \<Longrightarrow> idle (fst (io_rd io a d)) \<and> bus (fst (io_rd io a d)) = bus d"
    "a \<noteq> base \<Longrightarrow> a \<noteq> base + 4 \<Longrightarrow> idle (io_wr io a v d) \<and> bus (io_wr io a v d) = bus d"
proof -
  note c = spec [OF assms(1) [unfolded controller_def], THEN mp, OF assms(2)]
  note c1 = conjunct1 [OF c] and c2 = conjunct2 [OF c]
  note d1 = conjunct1 [OF c2] and d2 = conjunct2 [OF c2]
  note e1 = conjunct1 [OF d2] and e2 = conjunct2 [OF d2]
  show "case IORD io base ACCESS d of (d', v) \<Rightarrow> idle d' \<and> bus d' = bus d \<and> v AND ACCESS_RDY \<noteq> 0" by (rule c1)
  show "idle (IOWR io base CONFIG v d) \<and> bus (IOWR io base CONFIG v d) = bus d" by (rule spec [OF d1])
  show "w AND ACCESS_STA = 0 \<Longrightarrow> idle (IOWR io base ACCESS w d) \<and> bus (IOWR io base ACCESS w d) = lines w (bus d)"
    using spec [OF e1, of w] by blast
  show "w AND ACCESS_STA \<noteq> 0 \<Longrightarrow> w AND ACCESS_IRQENA \<noteq> 0 \<Longrightarrow>
       \<exists>d1. io_wait io irq (IOWR io base ACCESS w d) = Some d1 \<and>
              (case IORD io base ACCESS d1 of (d2, v) \<Rightarrow>
                 idle d2 \<and> v AND ACCESS_RDY \<noteq> 0 \<and> (bus d2, v AND 0x1ff) = act w (bus d))"
    using spec [OF conjunct1 [OF e2], of w] by blast
  show "a \<noteq> base \<Longrightarrow> a \<noteq> base + 4 \<Longrightarrow> idle (fst (io_rd io a d)) \<and> bus (fst (io_rd io a d)) = bus d"
    "a \<noteq> base \<Longrightarrow> a \<noteq> base + 4 \<Longrightarrow> idle (io_wr io a v d) \<and> bus (io_wr io a v d) = bus d"
    using spec [OF conjunct2 [OF e2], of a] by blast+
qed

lemma poll_ready_ok:
  assumes "controller io (m_base s) irq idle bus act lines" "at_rest idle s"
  shows "\<exists>d. poll_ready io s = Some (s\<lparr>dev := d\<rparr>) \<and> at_rest idle (s\<lparr>dev := d\<rparr>) \<and> bus d = bus (dev s)"
proof -
  obtain d v where r: "IORD io (m_base s) ACCESS (dev s) = (d, v)" by fastforce
  with controllerD(1) [OF assms(1), of "dev s"] assms(2) have "idle d" "bus d = bus (dev s)" "v AND ACCESS_RDY \<noteq> 0"
    by (simp_all add: at_rest_def)
  with r assms(2) show ?thesis by (auto simp: poll_ready.simps [of io s] at_rest_def rd_access_def)
qed

text \<open>One transfer: the word, the wait and the answer.\<close>

lemma transfer_ok:
  assumes "controller io (m_base s) (m_irq s) idle bus act lines" "at_rest idle s"
    "w AND ACCESS_STA \<noteq> 0" "w AND ACCESS_IRQENA \<noteq> 0"
  shows "\<exists>d resp. wait_resp io (wr_access io w s) = Some (s\<lparr>dev := d\<rparr>, resp) \<and> at_rest idle (s\<lparr>dev := d\<rparr>) \<and>
    (bus d, resp AND 0x1ff) = act w (bus (dev s))"
proof -
  from controllerD(4) [OF assms(1) _ assms(3,4), of "dev s"] assms(2) obtain d1 where
    d1: "io_wait io (m_irq s) (IOWR io (m_base s) ACCESS w (dev s)) = Some d1"
      "case IORD io (m_base s) ACCESS d1 of (d2, v) \<Rightarrow>
         idle d2 \<and> v AND ACCESS_RDY \<noteq> 0 \<and> (bus d2, v AND 0x1ff) = act w (bus (dev s))"
    by (auto simp: at_rest_def)
  obtain d2 v where r: "IORD io (m_base s) ACCESS d1 = (d2, v)" by fastforce
  have "wait_resp io (wr_access io w s) = Some (s\<lparr>dev := d2\<rparr>, v)"
    using d1 r assms(2) by (simp add: wait_resp_def wr_access_def at_rest_def wait_loop.simps sem_wait_done_def rd_access_def)
  with d1(2) r assms(2) show ?thesis by (auto simp: at_rest_def)
qed

text \<open>A controller that answers at once: the bus and the last answer.\<close>

definition prompt_io :: "u32 \<Rightarrow> (u32 \<Rightarrow> 'b \<Rightarrow> 'b \<times> u32) \<Rightarrow> (u32 \<Rightarrow> 'b \<Rightarrow> 'b) \<Rightarrow> ('b \<times> u32) io" where
  "prompt_io base act lines = \<lparr>
     io_rd = (\<lambda>a d. (d, if a = base then ACCESS_RDY OR snd d else 0)),
     io_wr = (\<lambda>a v d. if a \<noteq> base then d else if v AND ACCESS_STA = 0 then (lines v (fst d), snd d) else act v (fst d)),
     io_wait = (\<lambda>n d. Some d)\<rparr>"

lemma and_flag:
  "w AND 0x200 = 0 \<longleftrightarrow> \<not> bit w 9" "w AND 0x800 = 0 \<longleftrightarrow> \<not> bit w 11" "w AND 0x8000 = 0 \<longleftrightarrow> \<not> bit w 15"
  "w AND 0x100 = 0 \<longleftrightarrow> \<not> bit w 8" for w :: u32
  using and_exp_eq_0_iff_not_bit [of w 9] and_exp_eq_0_iff_not_bit [of w 11] and_exp_eq_0_iff_not_bit [of w 15]
    and_exp_eq_0_iff_not_bit [of w 8] by simp_all

lemma prompt_controller:
  assumes "\<And>w b. snd (act w b) AND 0x1ff = snd (act w b)"
  shows "controller (prompt_io base act lines) base irq (\<lambda>_. True) fst act lines"
proof -
  have "(0x200 OR x) AND 0x200 \<noteq> 0" "(0x200 OR x) AND 0x1ff = x AND 0x1ff" for x :: u32
    by (simp_all add: and_flag bit_simps bit.conj_disj_distrib2)
  with assms show ?thesis
    by (simp add: controller_def prompt_io_def IORD_def IOWR_def ACCESS_def CONFIG_def ACCESS_RDY_def prod_eq_iff)
qed

end
