(* ===== verification/I2c_Master.thy ===== *)
theory I2c_Master
  imports Master
begin

text \<open>
  The I2C master (\<open>peridot_i2c_master.c\<close>) and what it puts on the bus. \<open>transfer\<close> returns the state, the
  result and the bytes stored through \<open>read_data\<close>; \<open>None\<close> is a read past the end of \<open>write_data\<close> or a wait
  that does not end. The mutex around it is left out: a call is one step.
\<close>

definition ENOENT :: int where "ENOENT = 2"
definition ECANCELED :: int where "ECANCELED = 140"

record 'd i2c = "'d master" +
  scl_pfc_map :: pfc_map_io
  sda_pfc_map :: pfc_map_io

definition I2C_TXDATA :: u32 where "I2C_TXDATA = 0xff"
definition I2C_NACK :: u32 where "I2C_NACK = 0x100"
definition I2C_DIR :: u32 where "I2C_DIR = 0x400"
definition I2C_PC :: u32 where "I2C_PC = 0x800"
definition I2C_SC :: u32 where "I2C_SC = 0x1000"
definition I2C_RST :: u32 where "I2C_RST = 0x8000"
definition I2C_CLKDIV :: u32 where "I2C_CLKDIV = 0x3ff"
definition I2C_10BIT_ADDRESS :: u16 where "I2C_10BIT_ADDRESS = 0x8000"

lemmas i2c_regs = ACCESS_STA_def ACCESS_IRQENA_def I2C_TXDATA_def I2C_NACK_def I2C_DIR_def I2C_PC_def I2C_SC_def

section \<open>The driver\<close>

definition peridot_i2c_master_irq :: "('d, 'z) master_scheme \<Rightarrow> ('d, 'z) master_scheme" where
  "peridot_i2c_master_irq s = s\<lparr>m_irq_on := False, m_done := m_done s + 1\<rparr>"

definition peridot_i2c_master_init :: "'d io \<Rightarrow> u32 \<Rightarrow> 'd i2c \<Rightarrow> 'd i2c option" where
  "peridot_i2c_master_init io pfc_base s =
     (let s = s\<lparr>m_done := 0\<rparr>;
          s = wr_config io (I2C_RST OR I2C_CLKDIV) s;
          d = peridot_pfc_interface_select_input io pfc_base (word_of_int (io_in_bank (scl_pfc_map s)))
                (word_of_int (io_in_func (scl_pfc_map s))) PFC_INPUT_HIGH (dev s);
          d = peridot_pfc_interface_select_input io pfc_base (word_of_int (io_in_bank (sda_pfc_map s)))
                (word_of_int (io_in_func (sda_pfc_map s))) PFC_INPUT_HIGH d;
          s = wr_config io I2C_CLKDIV (s\<lparr>dev := d\<rparr>) in
      poll_ready io s)"

definition peridot_i2c_master_configure_pins ::
    "'d io \<Rightarrow> u32 \<Rightarrow> 'd i2c \<Rightarrow> u32 \<Rightarrow> u32 \<Rightarrow> bool \<Rightarrow> 'd i2c \<times> int" where
  "peridot_i2c_master_configure_pins io pfc_base s scl sda dry_run =
     (let cl = scl_pfc_map s; da = sda_pfc_map s in
      if scl < 32 \<and> io_in_bank cl \<ge> 0 \<and> io_in_func cl \<ge> 0 \<and> sda < 32 \<and> io_in_bank da \<ge> 0 \<and> io_in_func da \<ge> 0 then
        let scl_func = io_out_funcs cl ! unat scl; scl_pin = io_in_pins cl ! unat scl;
            sda_func = io_out_funcs da ! unat sda; sda_pin = io_in_pins da ! unat sda in
        if scl_func \<ge> 0 \<and> scl_pin \<ge> 0 \<and> sda_func \<ge> 0 \<and> sda_pin \<ge> 0 then
          (if dry_run then s
           else
             let d = peridot_pfc_interface_select_output io pfc_base scl (word_of_int scl_func) (dev s);
                 d = peridot_pfc_interface_select_input io pfc_base (word_of_int (io_in_bank cl))
                       (word_of_int (io_in_func cl)) (word_of_int scl_pin) d;
                 d = peridot_pfc_interface_select_output io pfc_base sda (word_of_int sda_func) d;
                 d = peridot_pfc_interface_select_input io pfc_base (word_of_int (io_in_bank da))
                       (word_of_int (io_in_func da)) (word_of_int sda_pin) d in s\<lparr>dev := d\<rparr>, 0)
        else (s, - ENOTSUP)
      else (s, - ENOTSUP))"

text \<open>Division by a bitrate of zero is undefined. The value is computed unsigned and then read as signed.\<close>

definition peridot_i2c_master_get_clkdiv :: "'d i2c \<Rightarrow> u32 \<Rightarrow> (int + u32) option" where
  "peridot_i2c_master_get_clkdiv s bitrate =
     (if bitrate = 0 then None
      else let value = sint (m_freq s div bitrate div 4 - 5) in
        Some (if value < 0 then Inl (- EINVAL) else Inr (word_of_int value)))"

text \<open>A dummy transfer with a stop condition.\<close>

definition stop_write :: "'d io \<Rightarrow> 'd i2c \<Rightarrow> 'd i2c option" where
  "stop_write io s =
     do { (s, _) \<leftarrow> wait_resp io (wr_access io (ACCESS_IRQENA OR I2C_PC OR ACCESS_STA OR I2C_TXDATA) s); Some s }"

definition stop_read :: "'d io \<Rightarrow> 'd i2c \<Rightarrow> 'd i2c option" where
  "stop_read io s =
     do { (s, _) \<leftarrow> wait_resp io (wr_access io (ACCESS_IRQENA OR I2C_PC OR I2C_NACK OR I2C_DIR OR ACCESS_STA) s); Some s }"

definition start_word :: "byte \<Rightarrow> u32" where
  "start_word b = ACCESS_IRQENA OR I2C_SC OR ACCESS_STA OR (ucast b AND I2C_TXDATA)"

definition write_word :: "bool \<Rightarrow> byte \<Rightarrow> u32" where
  "write_word stop b = ACCESS_IRQENA OR (if stop then I2C_PC else 0) OR ACCESS_STA OR (ucast b AND I2C_TXDATA)"

definition read_word :: "bool \<Rightarrow> u32" where
  "read_word stop = ACCESS_IRQENA OR (if stop then I2C_PC OR I2C_NACK else 0) OR I2C_DIR OR ACCESS_STA"

text \<open>The loops. \<open>n\<close> is \<open>write_length\<close> or \<open>read_length\<close>.\<close>

fun i2c_write :: "'d io \<Rightarrow> nat \<Rightarrow> byte list \<Rightarrow> nat \<Rightarrow> 'd i2c \<Rightarrow> ('d i2c \<times> int) option" where
  "i2c_write io 0 write_data read_length s = Some (s, 0)"
| "i2c_write io (Suc n) [] read_length s = None"
| "i2c_write io (Suc n) (b # write_data) read_length s =
     do { (s, resp) \<leftarrow> wait_resp io (wr_access io (write_word (n = 0 \<and> read_length = 0) b) s);
          if resp AND I2C_NACK \<noteq> 0 then
            do { s \<leftarrow> (if n > 0 \<or> read_length > 0 then stop_write io s else Some s); Some (s, - ECANCELED) }
          else i2c_write io n write_data read_length s }"

fun i2c_read :: "'d io \<Rightarrow> nat \<Rightarrow> 'd i2c \<Rightarrow> ('d i2c \<times> byte list) option" where
  "i2c_read io 0 s = Some (s, [])"
| "i2c_read io (Suc n) s =
     do { (s, resp) \<leftarrow> wait_resp io (wr_access io (read_word (n = 0)) s);
          (s, bytes) \<leftarrow> i2c_read io n s;
          Some (s, ucast (resp AND 0xff) # bytes) }"

text \<open>The part for writing and the part for reading; a result other than 0 ends the transfer.\<close>

definition write_part :: "'d io \<Rightarrow> byte \<Rightarrow> nat \<Rightarrow> byte list \<Rightarrow> nat \<Rightarrow> 'd i2c \<Rightarrow> ('d i2c \<times> int) option" where
  "write_part io saddr write_length write_data read_length s =
     (if write_length > 0 then
        do { (s, resp) \<leftarrow> wait_resp io (wr_access io (start_word saddr) s);
             if resp AND I2C_NACK \<noteq> 0 then do { s \<leftarrow> stop_write io s; Some (s, - ENOENT) }
             else i2c_write io write_length write_data read_length s }
      else Some (s, 0))"

definition read_part :: "'d io \<Rightarrow> byte \<Rightarrow> nat \<Rightarrow> 'd i2c \<Rightarrow> ('d i2c \<times> int \<times> byte list) option" where
  "read_part io saddr read_length s =
     (if read_length > 0 then
        do { (s, resp) \<leftarrow> wait_resp io (wr_access io (start_word (saddr OR 1)) s);
             if resp AND I2C_NACK \<noteq> 0 then do { s \<leftarrow> stop_read io s; Some (s, - ENOENT, []) }
             else do { (s, bytes) \<leftarrow> i2c_read io read_length s; Some (s, 0, bytes) } }
      else Some (s, 0, []))"

definition i2c_transfer ::
    "'d io \<Rightarrow> u16 \<Rightarrow> u32 \<Rightarrow> nat \<Rightarrow> byte list \<Rightarrow> nat \<Rightarrow> 'd i2c \<Rightarrow> ('d i2c \<times> int \<times> byte list) option" where
  "i2c_transfer io slave_address clkdiv write_length write_data read_length s =
     (if slave_address AND I2C_10BIT_ADDRESS \<noteq> 0 then Some (s, - ENOTSUP, [])
      else
        let saddr = ucast (push_bit 1 slave_address AND 0xfe) in
        do { s \<leftarrow> poll_ready io s;
             let s = wr_config io (clkdiv AND I2C_CLKDIV) s;
             (s, result) \<leftarrow> write_part io saddr write_length write_data read_length s;
             if result \<noteq> 0 then Some (s, result, []) else read_part io saddr read_length s })"

definition peridot_i2c_master_transfer ::
    "'d io \<Rightarrow> u16 \<Rightarrow> u32 \<Rightarrow> nat \<Rightarrow> byte list \<Rightarrow> nat \<Rightarrow> 'd i2c \<Rightarrow> ('d i2c \<times> int \<times> byte list) option" where
  "peridot_i2c_master_transfer io slave_address clkdiv write_length write_data read_length s =
     i2c_transfer io slave_address clkdiv write_length write_data read_length s"

section \<open>On the bus\<close>

text \<open>The bus records the words it is given; the slaves answer as a function of all words so far.\<close>

definition recorded :: "(u32 list \<Rightarrow> u32) \<Rightarrow> u32 \<Rightarrow> u32 list \<Rightarrow> u32 list \<times> u32" where
  "recorded slaves w ws = (ws @ [w], slaves (ws @ [w]) AND 0x1ff)"

definition i2c_controller :: "'d io \<Rightarrow> ('d \<Rightarrow> bool) \<Rightarrow> ('d \<Rightarrow> u32 list) \<Rightarrow> (u32 list \<Rightarrow> u32) \<Rightarrow> 'd i2c \<Rightarrow> bool" where
  "i2c_controller io idle bus slaves s \<longleftrightarrow>
     controller io (m_base s) (m_irq s) idle bus (recorded slaves) (\<lambda>_ ws. ws) \<and> at_rest idle s"


text \<open>
  The transfer as a script: words, each with the error number if it is not acknowledged (0 for a read,
  which the master acknowledges itself) and the word that then ends the transaction, if one is needed.
\<close>

type_synonym i2c_step = "u32 \<times> int \<times> u32 option"

definition stop_write_word :: u32 where
  "stop_write_word = ACCESS_IRQENA OR I2C_PC OR ACCESS_STA OR I2C_TXDATA"

definition stop_read_word :: u32 where
  "stop_read_word = ACCESS_IRQENA OR I2C_PC OR I2C_NACK OR I2C_DIR OR ACCESS_STA"

fun data_steps :: "byte list \<Rightarrow> bool \<Rightarrow> i2c_step list" where
  "data_steps [] go = []"
| "data_steps (b # bs) go =
     (let final = (bs = [] \<and> \<not> go) in
      (write_word final b, ECANCELED, if final then None else Some stop_write_word) # data_steps bs go)"

fun read_steps :: "nat \<Rightarrow> i2c_step list" where
  "read_steps 0 = []"
| "read_steps (Suc n) = (read_word (n = 0), 0, None) # read_steps n"

definition i2c_script :: "byte \<Rightarrow> byte list \<Rightarrow> nat \<Rightarrow> i2c_step list" where
  "i2c_script saddr bs read_length =
     (if bs = [] then [] else (start_word saddr, ENOENT, Some stop_write_word) # data_steps bs (read_length > 0)) @
     (if read_length = 0 then [] else (start_word (saddr OR 1), ENOENT, Some stop_read_word) # read_steps read_length)"

text \<open>What the bus sees of a script, the result and the bytes read.\<close>

fun play :: "(u32 list \<Rightarrow> u32) \<Rightarrow> i2c_step list \<Rightarrow> u32 list \<Rightarrow> u32 list \<times> int \<times> byte list" where
  "play slaves [] ws = (ws, 0, [])"
| "play slaves ((w, e, st) # steps) ws =
     (if e = 0 then
        (case play slaves steps (ws @ [w]) of (ws', r, bs) \<Rightarrow> (ws', r, ucast (slaves (ws @ [w]) AND 0xff) # bs))
      else if slaves (ws @ [w]) AND I2C_NACK \<noteq> 0 then
        (ws @ w # (case st of None \<Rightarrow> [] | Some x \<Rightarrow> [x]), - e, [])
      else play slaves steps (ws @ [w]))"

text \<open>A transaction: one stop condition, in its last word.\<close>

definition one_stop :: "u32 list \<Rightarrow> bool" where
  "one_stop ws \<longleftrightarrow> ws \<noteq> [] \<and> last ws AND I2C_PC \<noteq> 0 \<and> (\<forall>w \<in> set (butlast ws). w AND I2C_PC = 0)"

definition starts :: "u32 \<Rightarrow> bool" where
  "starts w \<longleftrightarrow> w AND ACCESS_STA \<noteq> 0 \<and> w AND ACCESS_IRQENA \<noteq> 0"

lemma word_starts [simp]:
  "starts (start_word b)" "starts (write_word final b)" "starts (read_word final)" "starts stop_write_word" "starts stop_read_word"
  by (simp_all add: starts_def start_word_def write_word_def read_word_def stop_write_word_def stop_read_word_def
      i2c_regs and_flag bit_simps)

lemma word_stops [simp]:
  "start_word b AND I2C_PC = 0" "write_word final b AND I2C_PC = 0 \<longleftrightarrow> \<not> final" "read_word final AND I2C_PC = 0 \<longleftrightarrow> \<not> final"
  "stop_write_word AND I2C_PC \<noteq> 0" "stop_read_word AND I2C_PC \<noteq> 0"
  by (simp_all add: start_word_def write_word_def read_word_def stop_write_word_def stop_read_word_def i2c_regs and_flag bit_simps)

lemma i2c_send:
  assumes "i2c_controller io idle bus slaves s" "starts w"
  shows "\<exists>d resp. wait_resp io (wr_access io w s) = Some (s\<lparr>dev := d\<rparr>, resp) \<and> i2c_controller io idle bus slaves (s\<lparr>dev := d\<rparr>) \<and>
    bus d = bus (dev s) @ [w] \<and> resp AND I2C_NACK = slaves (bus (dev s) @ [w]) AND I2C_NACK \<and>
    resp AND 0xff = slaves (bus (dev s) @ [w]) AND 0xff"
proof -
  from assms transfer_ok [of io s idle bus "recorded slaves" "\<lambda>_ ws. ws" w] obtain d resp where
    *: "wait_resp io (wr_access io w s) = Some (s\<lparr>dev := d\<rparr>, resp)" "at_rest idle (s\<lparr>dev := d\<rparr>)"
      "bus d = bus (dev s) @ [w]" "resp AND 0x1ff = slaves (bus (dev s) @ [w]) AND 0x1ff"
    by (auto simp: i2c_controller_def starts_def recorded_def)
  have "x AND 0x100 = (x AND 0x1ff) AND 0x100" "x AND 0xff = (x AND 0x1ff) AND 0xff" for x :: u32
    by (simp_all add: and.assoc)
  with *(4) have "resp AND 0x100 = slaves (bus (dev s) @ [w]) AND 0x100" "resp AND 0xff = slaves (bus (dev s) @ [w]) AND 0xff"
    by metis+
  with * assms(1) show ?thesis by (auto simp: i2c_controller_def I2C_NACK_def)
qed

text \<open>The outcome of a part of a transfer agrees with a script.\<close>

definition plays :: "'d io \<Rightarrow> ('d \<Rightarrow> bool) \<Rightarrow> ('d \<Rightarrow> u32 list) \<Rightarrow> (u32 list \<Rightarrow> u32) \<Rightarrow> 'd i2c \<Rightarrow> i2c_step list \<Rightarrow>
    ('d i2c \<times> int \<times> byte list) option \<Rightarrow> bool" where
  "plays io idle bus slaves s steps out \<longleftrightarrow> (\<exists>d r bs. out = Some (s\<lparr>dev := d\<rparr>, r, bs) \<and>
     i2c_controller io idle bus slaves (s\<lparr>dev := d\<rparr>) \<and> play slaves steps (bus (dev s)) = (bus d, r, bs))"

lemma stops_ok:
  assumes "i2c_controller io idle bus slaves s"
  shows "\<exists>d. stop_write io s = Some (s\<lparr>dev := d\<rparr>) \<and> i2c_controller io idle bus slaves (s\<lparr>dev := d\<rparr>) \<and>
      bus d = bus (dev s) @ [stop_write_word]"
    "\<exists>d. stop_read io s = Some (s\<lparr>dev := d\<rparr>) \<and> i2c_controller io idle bus slaves (s\<lparr>dev := d\<rparr>) \<and>
      bus d = bus (dev s) @ [stop_read_word]"
  using i2c_send [OF assms, of stop_write_word] i2c_send [OF assms, of stop_read_word]
  by (auto simp: stop_write_def stop_read_def stop_write_word_def [symmetric] stop_read_word_def [symmetric])

lemma i2c_write_plays:
  "i2c_controller io idle bus slaves s \<Longrightarrow> n \<le> length bs \<Longrightarrow>
   plays io idle bus slaves s (data_steps (take n bs) (rl > 0))
     (map_option (\<lambda>(s, r). (s, r, [])) (i2c_write io n bs rl s))"
proof (induction n arbitrary: s bs)
  case 0
  then show ?case by (auto simp: plays_def intro!: exI [of _ "dev s"])
next
  case (Suc n)
  then obtain b bs' where bs: "bs = b # bs'" by (cases bs) simp_all
  let ?final = "n = 0 \<and> rl = 0"
  let ?w = "write_word ?final b"
  have take: "take n bs' = [] \<longleftrightarrow> n = 0" using Suc.prems(2) bs by auto
  from i2c_send [OF Suc.prems(1), of ?w] obtain d resp where
    1: "wait_resp io (wr_access io ?w s) = Some (s\<lparr>dev := d\<rparr>, resp)" "i2c_controller io idle bus slaves (s\<lparr>dev := d\<rparr>)"
      "bus d = bus (dev s) @ [?w]" "resp AND I2C_NACK = slaves (bus (dev s) @ [?w]) AND I2C_NACK" by auto
  show ?case
  proof (cases "resp AND I2C_NACK = 0")
    case True
    have p: "plays io idle bus slaves (s\<lparr>dev := d\<rparr>) (data_steps (take n bs') (rl > 0))
        (map_option (\<lambda>(s, r). (s, r, [])) (i2c_write io n bs' rl (s\<lparr>dev := d\<rparr>)))"
      using Suc.prems(2) bs by (intro Suc.IH 1(2)) simp
    show ?thesis using p 1 True take by (auto simp: bs plays_def Let_def ECANCELED_def)
  next
    case False
    from stops_ok(1) [OF 1(2)] obtain d' where
      "stop_write io (s\<lparr>dev := d\<rparr>) = Some (s\<lparr>dev := d'\<rparr>)" "i2c_controller io idle bus slaves (s\<lparr>dev := d'\<rparr>)"
      "bus d' = bus d @ [stop_write_word]" by auto
    with 1 False take show ?thesis
      by (cases ?final) (auto simp: bs plays_def Let_def ECANCELED_def)
  qed
qed

lemma i2c_read_plays:
  "i2c_controller io idle bus slaves s \<Longrightarrow>
   plays io idle bus slaves s (read_steps n) (map_option (\<lambda>(s, bs). (s, 0, bs)) (i2c_read io n s))"
proof (induction n arbitrary: s)
  case 0
  then show ?case by (auto simp: plays_def intro!: exI [of _ "dev s"])
next
  case (Suc n)
  let ?w = "read_word (n = 0)"
  from i2c_send [OF Suc.prems(1), of ?w] obtain d resp where
    1: "wait_resp io (wr_access io ?w s) = Some (s\<lparr>dev := d\<rparr>, resp)" "i2c_controller io idle bus slaves (s\<lparr>dev := d\<rparr>)"
      "bus d = bus (dev s) @ [?w]" "resp AND 0xff = slaves (bus (dev s) @ [?w]) AND 0xff" by auto
  from Suc.IH [OF 1(2)] 1 show ?case by (auto simp: plays_def)
qed

lemma write_part_plays:
  assumes "i2c_controller io idle bus slaves s" "n \<le> length bs"
  shows "plays io idle bus slaves s (i2c_script saddr (take n bs) 0)
     (map_option (\<lambda>(s, r). (s, r, [])) (write_part io saddr n bs 0 s))" (is ?A)
    and "plays io idle bus slaves s (if n = 0 then [] else (start_word saddr, ENOENT, Some stop_write_word) # data_steps (take n bs) (rl > 0))
     (map_option (\<lambda>(s, r). (s, r, [])) (write_part io saddr n bs rl s))" (is ?B)
proof -
  have *: "plays io idle bus slaves s (if n = 0 then [] else (start_word saddr, ENOENT, Some stop_write_word) # data_steps (take n bs) (rl > 0))
     (map_option (\<lambda>(s, r). (s, r, [])) (write_part io saddr n bs rl s))" for rl
  proof (cases "n = 0")
    case True
    with assms show ?thesis by (auto simp: plays_def write_part_def intro!: exI [of _ "dev s"])
  next
    case n: False
    from i2c_send [OF assms(1), of "start_word saddr"] obtain d resp where
      1: "wait_resp io (wr_access io (start_word saddr) s) = Some (s\<lparr>dev := d\<rparr>, resp)"
        "i2c_controller io idle bus slaves (s\<lparr>dev := d\<rparr>)" "bus d = bus (dev s) @ [start_word saddr]"
        "resp AND I2C_NACK = slaves (bus (dev s) @ [start_word saddr]) AND I2C_NACK" by auto
    show ?thesis
    proof (cases "resp AND I2C_NACK = 0")
      case True
      have p: "plays io idle bus slaves (s\<lparr>dev := d\<rparr>) (data_steps (take n bs) (rl > 0))
          (map_option (\<lambda>(s, r). (s, r, [])) (i2c_write io n bs rl (s\<lparr>dev := d\<rparr>)))"
        by (rule i2c_write_plays [OF 1(2) assms(2)])
      show ?thesis using p 1 True n by (auto simp: plays_def write_part_def ENOENT_def)
    next
      case False
      from stops_ok(1) [OF 1(2)] obtain d' where
        "stop_write io (s\<lparr>dev := d\<rparr>) = Some (s\<lparr>dev := d'\<rparr>)" "i2c_controller io idle bus slaves (s\<lparr>dev := d'\<rparr>)"
        "bus d' = bus d @ [stop_write_word]" by auto
      with 1 False n show ?thesis by (auto simp: plays_def write_part_def ENOENT_def)
    qed
  qed
  show ?B by (rule *)
  have "take n bs = [] \<longleftrightarrow> n = 0" using assms(2) by auto
  with * [of 0] show ?A by (simp add: i2c_script_def)
qed

lemma read_part_plays:
  assumes "i2c_controller io idle bus slaves s"
  shows "plays io idle bus slaves s
     (if n = 0 then [] else (start_word (saddr OR 1), ENOENT, Some stop_read_word) # read_steps n) (read_part io saddr n s)"
proof (cases "n = 0")
  case True
  with assms show ?thesis by (auto simp: plays_def read_part_def intro!: exI [of _ "dev s"])
next
  case n: False
  let ?w = "start_word (saddr OR 1)"
  from i2c_send [OF assms(1), of ?w] obtain d resp where
    1: "wait_resp io (wr_access io ?w s) = Some (s\<lparr>dev := d\<rparr>, resp)"
      "i2c_controller io idle bus slaves (s\<lparr>dev := d\<rparr>)" "bus d = bus (dev s) @ [?w]"
      "resp AND I2C_NACK = slaves (bus (dev s) @ [?w]) AND I2C_NACK" by auto
  show ?thesis
  proof (cases "resp AND I2C_NACK = 0")
    case True
    from i2c_read_plays [OF 1(2), of n] 1 True n show ?thesis by (auto simp: plays_def read_part_def ENOENT_def)
  next
    case False
    from stops_ok(2) [OF 1(2)] obtain d' where
      "stop_read io (s\<lparr>dev := d\<rparr>) = Some (s\<lparr>dev := d'\<rparr>)" "i2c_controller io idle bus slaves (s\<lparr>dev := d'\<rparr>)"
      "bus d' = bus d @ [stop_read_word]" by auto
    with 1 False n show ?thesis by (auto simp: plays_def read_part_def ENOENT_def)
  qed
qed

text \<open>The writing steps of a script: all can fail and none reads.\<close>

lemma play_append:
  "\<forall>(w, e, st) \<in> set xs. e \<noteq> 0 \<Longrightarrow> play slaves xs ws = (ws1, r, bs) \<Longrightarrow>
   play slaves (xs @ ys) ws = (if r = 0 then play slaves ys ws1 else (ws1, r, bs)) \<and> bs = []"
  by (induction slaves xs ws rule: play.induct) (auto split: if_splits)

lemma data_steps_fail: "\<forall>(w, e, st) \<in> set (data_steps bs go). e \<noteq> 0"
  by (induction bs go rule: data_steps.induct) (auto simp: Let_def ECANCELED_def)

lemma i2c_transfer_plays:
  assumes "i2c_controller io idle bus slaves s" "n \<le> length bs" "addr AND I2C_10BIT_ADDRESS = 0"
  shows "plays io idle bus slaves s (i2c_script (ucast (push_bit 1 addr AND 0xfe)) (take n bs) rl)
    (peridot_i2c_master_transfer io addr clkdiv n bs rl s)"
proof -
  let ?a = "ucast (push_bit 1 addr AND 0xfe) :: byte"
  let ?ws = "if n = 0 then [] else (start_word ?a, ENOENT, Some stop_write_word) # data_steps (take n bs) (rl > 0)"
  let ?rs = "if rl = 0 then [] else (start_word (?a OR 1), ENOENT, Some stop_read_word) # read_steps rl"
  have c: "controller io (m_base s) (m_irq s) idle bus (recorded slaves) (\<lambda>_ ws. ws)" "at_rest idle s"
    using assms(1) by (simp_all add: i2c_controller_def)
  from poll_ready_ok [OF c] obtain d0 where
    0: "poll_ready io s = Some (s\<lparr>dev := d0\<rparr>)" "at_rest idle (s\<lparr>dev := d0\<rparr>)" "bus d0 = bus (dev s)" by blast
  define d1 where "d1 = IOWR io (m_base s) CONFIG (clkdiv AND I2C_CLKDIV) d0"
  have 1: "i2c_controller io idle bus slaves (s\<lparr>dev := d1\<rparr>)" "bus d1 = bus (dev s)"
    using controllerD(2) [OF c(1), of d0] 0 c by (auto simp: i2c_controller_def at_rest_def d1_def)
  from write_part_plays(2) [OF 1(1) assms(2), of ?a rl] obtain d2 r bs2 where
    2: "map_option (\<lambda>(s, r). (s, r, [])) (write_part io ?a n bs rl (s\<lparr>dev := d1\<rparr>)) = Some (s\<lparr>dev := d2\<rparr>, r, bs2)"
      "i2c_controller io idle bus slaves (s\<lparr>dev := d2\<rparr>)" "play slaves ?ws (bus (dev s)) = (bus d2, r, bs2)"
    unfolding plays_def using 1(2) by auto
  have w: "write_part io ?a n bs rl (s\<lparr>dev := d1\<rparr>) = Some (s\<lparr>dev := d2\<rparr>, r)"
    using 2(1) by auto
  have script: "i2c_script ?a (take n bs) rl = ?ws @ ?rs"
    using assms(2) by (auto simp: i2c_script_def)
  have fail: "\<forall>(w, e, st) \<in> set ?ws. e \<noteq> 0" using data_steps_fail [of "take n bs" "rl > 0"] by (auto simp: ENOENT_def)
  have run: "peridot_i2c_master_transfer io addr clkdiv n bs rl s =
      (if r \<noteq> 0 then Some (s\<lparr>dev := d2\<rparr>, r, []) else read_part io ?a rl (s\<lparr>dev := d2\<rparr>))"
    using assms(3) 0(1) w by (simp add: peridot_i2c_master_transfer_def i2c_transfer_def Let_def wr_config_def d1_def)
  note app = play_append [OF fail 2(3), of ?rs]
  show ?thesis
  proof (cases "r = 0")
    case False
    with run app 2(2,3) show ?thesis unfolding script plays_def by auto
  next
    case True
    with run app read_part_plays [OF 2(2), of rl ?a] show ?thesis unfolding script plays_def by auto
  qed
qed

text \<open>Every script that is not empty leaves the bus with one stop condition, the last word.\<close>

fun ends_once :: "i2c_step list \<Rightarrow> bool" where
  "ends_once [] = False"
| "ends_once [(w, e, st)] = (w AND I2C_PC \<noteq> 0 \<and> st = None)"
| "ends_once ((w, e, st) # s # steps) =
     (w AND I2C_PC = 0 \<and> (e = 0 \<or> (\<exists>x. st = Some x \<and> x AND I2C_PC \<noteq> 0)) \<and> ends_once (s # steps))"

lemma one_stop_Cons: "w AND I2C_PC = 0 \<Longrightarrow> one_stop ws \<Longrightarrow> one_stop (w # ws)"
  by (auto simp: one_stop_def)

lemma play_one_stop:
  "ends_once steps \<Longrightarrow> \<exists>ws' r bs. play slaves steps ws = (ws @ ws', r, bs) \<and> one_stop ws'"
proof (induction steps arbitrary: ws rule: ends_once.induct)
  case (2 w e st)
  then show ?case by (auto simp: one_stop_def)
next
  case (3 w e st s steps)
  then obtain ws' r bs where *: "play slaves (s # steps) (ws @ [w]) = (ws @ [w] @ ws', r, bs)" "one_stop ws'"
    by (metis append_assoc ends_once.simps(3))
  have "one_stop (w # ws')" using 3 * by (auto intro: one_stop_Cons)
  moreover have "one_stop [w, x]" if "st = Some x" "x AND I2C_PC \<noteq> 0" for x
    using that 3 by (auto simp: one_stop_def)
  ultimately show ?case using 3 * by (auto split: prod.splits)
qed simp

lemma ends_once_Cons:
  "w AND I2C_PC = 0 \<Longrightarrow> e = 0 \<or> (\<exists>x. st = Some x \<and> x AND I2C_PC \<noteq> 0) \<Longrightarrow> ends_once ss \<Longrightarrow> ends_once ((w, e, st) # ss)"
  by (cases ss) auto

lemma data_steps_end: "bs \<noteq> [] \<Longrightarrow> ends_once (data_steps bs False)"
  by (induction bs rule: induct_list012) (simp_all add: Let_def)

lemma data_steps_go: "ends_once ss \<Longrightarrow> ends_once (data_steps bs True @ ss)"
  by (induction bs) (auto simp: Let_def intro: ends_once_Cons)

lemma read_steps_end: "0 < n \<Longrightarrow> ends_once (read_steps n)"
  by (induction n rule: induct_nat_012) simp_all

lemma i2c_script_ends:
  assumes "bs \<noteq> [] \<or> 0 < n"
  shows "ends_once (i2c_script saddr bs n)"
proof (cases "0 < n")
  case True
  let ?r = "(start_word (saddr OR 1), ENOENT, Some stop_read_word) # read_steps n"
  have "ends_once ?r" using read_steps_end [OF True] by (intro ends_once_Cons) auto
  with data_steps_go [OF this, of bs] True show ?thesis
    by (auto simp: i2c_script_def intro!: ends_once_Cons)
next
  case False
  with assms data_steps_end [of bs] show ?thesis by (auto simp: i2c_script_def intro!: ends_once_Cons)
qed


text \<open>A slave that does not acknowledge the second word.\<close>

definition ex_i2c :: "(u32 list \<times> u32) i2c" where
  "ex_i2c = \<lparr>m_base = 0x10000140, m_freq = 40000000, m_irq = 5, m_done = 0, m_irq_on = False, dev = ([], 0),
     scl_pfc_map = i2c_scl_pfc_map, sda_pfc_map = i2c_sda_pfc_map\<rparr>"

definition ex_slaves :: "u32 list \<Rightarrow> u32" where
  "ex_slaves ws = (if length ws = 2 then I2C_NACK else 0)"


end
