(* ===== verification/Spi_Master.thy ===== *)
theory Spi_Master
  imports Master
begin

text \<open>
  The SPI master (\<open>peridot_spi_master.c\<close>) and the bytes it exchanges. As for the I2C master, a transfer
  returns the state, the result and the bytes stored through \<open>read_data\<close>, \<open>None\<close> is a read past the end of
  \<open>write_data\<close> or a wait that does not end, and the mutex is left out. \<open>slave\<close> is a signed 8-bit number.
\<close>

record 'd spi = "'d master" +
  slave_locked :: int
  ss_n_pfc_map :: "pfc_map_out option"

definition SPI_TXDATA :: u32 where "SPI_TXDATA = 0xff"
definition SPI_SS :: u32 where "SPI_SS = 0x100"

definition SPI_FILLER_MSK :: u32 where "SPI_FILLER_MSK = 0xff"
definition SPI_MODE_MSK :: u32 where "SPI_MODE_MSK = 0x300"
definition SPI_MERGE :: u32 where "SPI_MERGE = 0x400"
definition SPI_LSBFIRST :: u32 where "SPI_LSBFIRST = 0x800"

lemmas spi_regs = ACCESS_STA_def ACCESS_IRQENA_def SPI_TXDATA_def SPI_SS_def

section \<open>The driver\<close>

definition peridot_spi_master_irq :: "('d, 'z) master_scheme \<Rightarrow> ('d, 'z) master_scheme" where
  "peridot_spi_master_irq s = s\<lparr>m_irq_on := False, m_done := m_done s + 1\<rparr>"

text \<open>The flash is initialised at the end, see \<open>peridot_spi_flash_init\<close>.\<close>

definition peridot_spi_master_init :: "'d spi \<Rightarrow> 'd spi" where
  "peridot_spi_master_init s = s\<lparr>m_done := 0, slave_locked := -1\<rparr>"

record spi_pfc_map =
  map_ss_n :: pfc_map_out
  map_sclk :: pfc_map_out
  map_mosi :: pfc_map_out
  map_miso :: pfc_map_in

text \<open>The slave select map is set before anything is checked.\<close>

definition peridot_spi_master_configure_pins ::
    "'d io \<Rightarrow> u32 \<Rightarrow> spi_pfc_map \<Rightarrow> 'd spi \<Rightarrow> u32 \<Rightarrow> int \<Rightarrow> int \<Rightarrow> bool \<Rightarrow> 'd spi \<times> int" where
  "peridot_spi_master_configure_pins io pfc_base m s sclk mosi miso dry_run =
     (let s = s\<lparr>ss_n_pfc_map := Some (map_ss_n m)\<rparr>; im = map_miso m in
      if sclk < 32 \<and> (mosi < 0 \<or> mosi < 32) \<and> (miso < 0 \<or> in_bank im \<ge> 0 \<and> in_func im \<ge> 0 \<and> miso < 32) then
        let sclk_func = out_funcs (map_sclk m) ! unat sclk;
            mosi_func = (if mosi < 0 then 0 else out_funcs (map_mosi m) ! nat mosi);
            miso_pin = (if miso < 0 then 0 else in_pins im ! nat miso) in
        if sclk_func \<ge> 0 \<and> (mosi < 0 \<or> mosi_func \<ge> 0) \<and> (miso < 0 \<or> miso_pin \<ge> 0) then
          if dry_run then (s, 0)
          else if slave_locked s \<ge> 0 then (s, - EAGAIN)
          else
            let d = peridot_pfc_interface_select_output io pfc_base sclk (word_of_int sclk_func) (dev s);
                d = (if mosi \<ge> 0 then peridot_pfc_interface_select_output io pfc_base (word_of_int mosi) (word_of_int mosi_func) d else d);
                d = peridot_pfc_interface_select_input io pfc_base (word_of_int (in_bank im)) (word_of_int (in_func im))
                      (if miso < 0 then PFC_INPUT_HIGH else word_of_int miso_pin) d in
            (s\<lparr>dev := d\<rparr>, 0)
        else (s, - ENOTSUP)
      else (s, - ENOTSUP))"

definition peridot_spi_master_get_clkdiv :: "'d spi \<Rightarrow> u32 \<Rightarrow> (int + u32) option" where
  "peridot_spi_master_get_clkdiv s bitrate =
     (if bitrate = 0 then None
      else let value = sint (m_freq s div bitrate div 2 - 1) in
        Some (if value < 0 then Inl (- EINVAL) else Inr (word_of_int value)))"

text \<open>A byte to send.\<close>

definition tx_word :: "u32 \<Rightarrow> u32" where
  "tx_word b = ACCESS_IRQENA OR ACCESS_STA OR SPI_SS OR (b AND SPI_TXDATA)"

text \<open>The three loops. The numbers are \<open>write_length\<close>, \<open>read_skip\<close> and \<open>read_length\<close>; the first loop also
  returns what is left of the other two.\<close>

fun spi_write :: "'d io \<Rightarrow> nat \<Rightarrow> byte list \<Rightarrow> nat \<Rightarrow> nat \<Rightarrow> 'd spi \<Rightarrow> ('d spi \<times> nat \<times> nat \<times> byte list) option" where
  "spi_write io 0 write_data skip n s = Some (s, skip, n, [])"
| "spi_write io (Suc k) [] skip n s = None"
| "spi_write io (Suc k) (b # write_data) skip n s =
     do { (s, resp) \<leftarrow> wait_resp io (wr_access io (tx_word (ucast b)) s);
          if skip > 0 then spi_write io k write_data (skip - 1) n s
          else if n > 0 then
            do { (s, skip, n, bytes) \<leftarrow> spi_write io k write_data skip (n - 1) s;
                 Some (s, skip, n, ucast (resp AND 0xff) # bytes) }
          else spi_write io k write_data skip n s }"

fun spi_skip :: "'d io \<Rightarrow> u32 \<Rightarrow> nat \<Rightarrow> 'd spi \<Rightarrow> 'd spi option" where
  "spi_skip io filler 0 s = Some s"
| "spi_skip io filler (Suc k) s =
     do { (s, _) \<leftarrow> wait_resp io (wr_access io (tx_word filler) s); spi_skip io filler k s }"

fun spi_read :: "'d io \<Rightarrow> u32 \<Rightarrow> nat \<Rightarrow> 'd spi \<Rightarrow> ('d spi \<times> byte list) option" where
  "spi_read io filler 0 s = Some (s, [])"
| "spi_read io filler (Suc k) s =
     do { (s, resp) \<leftarrow> wait_resp io (wr_access io (tx_word filler) s);
          (s, bytes) \<leftarrow> spi_read io filler k s;
          Some (s, ucast (resp AND 0xff) # bytes) }"

definition spi_config_word :: "u32 \<Rightarrow> u32 \<Rightarrow> u32" where
  "spi_config_word clkdiv flags =
     (clkdiv AND 0x3ff) OR shl (shr (flags AND SPI_MODE_MSK) 8) 11 OR (if flags AND SPI_LSBFIRST \<noteq> 0 then 0x8000 else 0)"

text \<open>The end of a transfer: the slave stays selected or is deselected, in the controller and at its pin.\<close>

definition spi_finish :: "'d io \<Rightarrow> u32 \<Rightarrow> int \<Rightarrow> u32 \<Rightarrow> 'd spi \<Rightarrow> 'd spi" where
  "spi_finish io pfc_base slave flags s =
     (if flags AND SPI_MERGE \<noteq> 0 then s\<lparr>slave_locked := slave\<rparr>
      else
        let s = wr_access io 0 s;
            d = peridot_pfc_interface_direct_output io pfc_base (word_of_int slave) 1 (dev s);
            d = peridot_pfc_interface_select_output io pfc_base (word_of_int slave) PFC_OUTPUT_DOUT d in
        s\<lparr>dev := d, slave_locked := -1\<rparr>)"

definition spi_transfer ::
    "'d io \<Rightarrow> u32 \<Rightarrow> int \<Rightarrow> u32 \<Rightarrow> nat \<Rightarrow> byte list \<Rightarrow> nat \<Rightarrow> nat \<Rightarrow> u32 \<Rightarrow> 'd spi \<Rightarrow> ('d spi \<times> int \<times> byte list) option" where
  "spi_transfer io pfc_base slave clkdiv write_length write_data skip read_length flags s =
     (if slave_locked s \<ge> 0 \<and> slave_locked s \<noteq> slave then Some (s, - EAGAIN, [])
      else
        let d = (case ss_n_pfc_map s of
                   Some m \<Rightarrow>
                     if slave \<ge> 0 then
                       peridot_pfc_interface_select_output io pfc_base (word_of_int slave) (word_of_int (out_funcs m ! nat slave)) (dev s)
                     else dev s
                 | None \<Rightarrow> dev s) in
        do { s \<leftarrow> poll_ready io (s\<lparr>dev := d\<rparr>);
             let s = wr_config io (spi_config_word clkdiv flags) s;
             let s = wr_access io SPI_SS s;
             let filler = flags AND SPI_FILLER_MSK;
             (s, skip, n, bytes) \<leftarrow> spi_write io write_length write_data skip read_length s;
             s \<leftarrow> spi_skip io filler skip s;
             (s, bytes') \<leftarrow> spi_read io filler n s;
             Some (spi_finish io pfc_base slave flags s, 0, bytes @ bytes') })"

text \<open>The comparison of \<open>slave\<close> with \<open>sizeof\<close> is unsigned, so a negative slave is too large.\<close>

definition peridot_spi_master_transfer ::
    "'d io \<Rightarrow> u32 \<Rightarrow> int \<Rightarrow> u32 \<Rightarrow> nat \<Rightarrow> byte list \<Rightarrow> nat \<Rightarrow> nat \<Rightarrow> u32 \<Rightarrow> 'd spi \<Rightarrow> ('d spi \<times> int \<times> byte list) option" where
  "peridot_spi_master_transfer io pfc_base slave clkdiv write_length write_data skip read_length flags s =
     (if (case ss_n_pfc_map s of Some m \<Rightarrow> (word_of_int slave :: u32) \<ge> 32 \<or> slave \<ge> 0 \<and> out_funcs m ! nat slave < 0 | None \<Rightarrow> False)
      then Some (s, - EINVAL, [])
      else spi_transfer io pfc_base slave clkdiv write_length write_data skip read_length flags s)"

section \<open>On the bus\<close>

text \<open>A slave device: what slave select does to it, and the exchange of a byte.\<close>

record 'b slave =
  select :: "bool \<Rightarrow> 'b \<Rightarrow> 'b"
  exchange :: "byte \<Rightarrow> 'b \<Rightarrow> 'b \<times> byte"

fun exchanges :: "'b slave \<Rightarrow> byte list \<Rightarrow> 'b \<Rightarrow> 'b \<times> byte list" where
  "exchanges x [] b = (b, [])"
| "exchanges x (c # cs) b = (case exchange x c b of (b, r) \<Rightarrow> case exchanges x cs b of (b, rs) \<Rightarrow> (b, r # rs))"

lemma exchanges_append:
  "exchanges x (cs @ ds) b =
     (case exchanges x cs b of (b1, rs) \<Rightarrow> case exchanges x ds b1 of (b2, qs) \<Rightarrow> (b2, rs @ qs))"
  by (induction cs arbitrary: b) (simp_all split: prod.splits)

lemma exchanges_length: "exchanges x cs b = (b', rs) \<Longrightarrow> length rs = length cs"
  by (induction cs arbitrary: b b' rs) (auto split: prod.splits)

definition spi_act :: "'b slave \<Rightarrow> u32 \<Rightarrow> 'b \<Rightarrow> 'b \<times> u32" where
  "spi_act x w b = (case exchange x (ucast (w AND SPI_TXDATA)) b of (b, r) \<Rightarrow> (b, ucast r))"

definition spi_lines :: "'b slave \<Rightarrow> u32 \<Rightarrow> 'b \<Rightarrow> 'b" where
  "spi_lines x w b = select x (w AND SPI_SS \<noteq> 0) b"

text \<open>The addresses of the pin function controller.\<close>

definition pfc_addresses :: "u32 \<Rightarrow> u32 set" where
  "pfc_addresses pfc_base = (\<lambda>r. pfc_base + 4 * r) ` {r. r < 16}"

definition spi_controller :: "'d io \<Rightarrow> u32 \<Rightarrow> ('d \<Rightarrow> bool) \<Rightarrow> ('d \<Rightarrow> 'b) \<Rightarrow> 'b slave \<Rightarrow> 'd spi \<Rightarrow> bool" where
  "spi_controller io pfc_base idle bus x s \<longleftrightarrow>
     controller io (m_base s) (m_irq s) idle bus (spi_act x) (spi_lines x) \<and> at_rest idle s \<and>
     m_base s \<notin> pfc_addresses pfc_base \<and> m_base s + 4 \<notin> pfc_addresses pfc_base"

lemma tx_word_starts: "tx_word b AND ACCESS_STA \<noteq> 0" "tx_word b AND ACCESS_IRQENA \<noteq> 0"
  by (simp_all add: tx_word_def spi_regs and_flag bit_simps)


lemma ucast_and_ff: "ucast (w AND 0xff) = (ucast w :: byte)" for w :: u32
  by (rule bit_eqI) (auto simp: bit_simps bit_bytes)

lemma ucast_back [simp]: "ucast (ucast b :: u32) = (b :: byte)"
  by (rule bit_eqI) (auto simp: bit_simps)

lemma spi_send:
  assumes "spi_controller io pfc idle bus x s"
  shows "\<exists>d resp. wait_resp io (wr_access io (tx_word v) s) = Some (s\<lparr>dev := d\<rparr>, resp) \<and>
    spi_controller io pfc idle bus x (s\<lparr>dev := d\<rparr>) \<and>
    exchange x (ucast v) (bus (dev s)) = (bus d, ucast (resp AND 0xff))"
proof -
  from assms transfer_ok [OF _ _ tx_word_starts, of io s idle bus "spi_act x" "spi_lines x" v] obtain d resp where
    *: "wait_resp io (wr_access io (tx_word v) s) = Some (s\<lparr>dev := d\<rparr>, resp)" "at_rest idle (s\<lparr>dev := d\<rparr>)"
      "(bus d, resp AND 0x1ff) = spi_act x (tx_word v) (bus (dev s))"
    by (auto simp: spi_controller_def)
  have t: "ucast (tx_word v AND 0xff) = (ucast v :: byte)"
  proof -
    have "tx_word v AND 0xff = v AND 0xff" by (simp add: tx_word_def spi_regs bit.conj_disj_distrib2 and.assoc)
    then show ?thesis by (simp add: ucast_and_ff)
  qed
  obtain b r where e: "exchange x (ucast v) (bus (dev s)) = (b, r)" by fastforce
  with *(3) t have r: "bus d = b" "resp AND 0x1ff = ucast r" by (simp_all add: spi_act_def SPI_TXDATA_def)
  have "resp AND 0xff = (resp AND 0x1ff) AND 0xff" by (simp add: and.assoc)
  then have "ucast (resp AND 0xff) = (ucast (ucast r :: u32) :: byte)" unfolding r(2) by (simp add: ucast_and_ff)
  then have "ucast (resp AND 0xff) = r" by simp
  then show ?thesis using * assms e r(1) by (auto simp: spi_controller_def)
qed

lemma spi_write_ok:
  "spi_controller io pfc idle bus x s \<Longrightarrow> k \<le> length bs \<Longrightarrow>
   \<exists>d rs. spi_write io k bs skip n s = Some (s\<lparr>dev := d\<rparr>, skip - k, n - (k - skip), take n (drop skip rs)) \<and>
     spi_controller io pfc idle bus x (s\<lparr>dev := d\<rparr>) \<and> exchanges x (take k bs) (bus (dev s)) = (bus d, rs)"
proof (induction k arbitrary: s bs skip n)
  case 0
  then show ?case by (intro exI [of _ "dev s"]) simp
next
  case (Suc k)
  then obtain b bs' where bs: "bs = b # bs'" "k \<le> length bs'" by (cases bs) simp_all
  from spi_send [OF Suc.prems(1), of "ucast b"] obtain d resp where
    1: "wait_resp io (wr_access io (tx_word (ucast b)) s) = Some (s\<lparr>dev := d\<rparr>, resp)"
      "spi_controller io pfc idle bus x (s\<lparr>dev := d\<rparr>)" "exchange x b (bus (dev s)) = (bus d, ucast (resp AND 0xff))"
    by auto
  let ?skip = "if skip > 0 then skip - 1 else skip" and ?n = "if skip > 0 then n else n - 1"
  from Suc.IH [OF 1(2) bs(2), of ?skip ?n] obtain d' rs where
    2: "spi_write io k bs' ?skip ?n (s\<lparr>dev := d\<rparr>) = Some (s\<lparr>dev := d'\<rparr>, ?skip - k, ?n - (k - ?skip), take ?n (drop ?skip rs))"
      "spi_controller io pfc idle bus x (s\<lparr>dev := d'\<rparr>)" "exchanges x (take k bs') (bus d) = (bus d', rs)" by auto
  have "spi_write io (Suc k) bs skip n s =
    Some (s\<lparr>dev := d'\<rparr>, skip - Suc k, n - (Suc k - skip), take n (drop skip (ucast (resp AND 0xff) # rs)))"
    using 1(1) 2(1) bs(1) by (cases "skip > 0"; cases n) (auto simp: drop_Cons' take_Cons')
  with 1 2 bs show ?case by (intro exI [of _ d']) auto
qed

lemma spi_skip_ok:
  "spi_controller io pfc idle bus x s \<Longrightarrow>
   \<exists>d rs. spi_skip io v k s = Some (s\<lparr>dev := d\<rparr>) \<and> spi_controller io pfc idle bus x (s\<lparr>dev := d\<rparr>) \<and>
     exchanges x (replicate k (ucast v)) (bus (dev s)) = (bus d, rs)"
proof (induction k arbitrary: s)
  case 0
  then show ?case by (intro exI [of _ "dev s"]) simp
next
  case (Suc k)
  from spi_send [OF Suc.prems(1), of v] obtain d resp where
    1: "wait_resp io (wr_access io (tx_word v) s) = Some (s\<lparr>dev := d\<rparr>, resp)"
      "spi_controller io pfc idle bus x (s\<lparr>dev := d\<rparr>)" "exchange x (ucast v) (bus (dev s)) = (bus d, ucast (resp AND 0xff))"
    by auto
  from Suc.IH [OF 1(2)] 1 show ?case by fastforce
qed

lemma spi_read_ok:
  "spi_controller io pfc idle bus x s \<Longrightarrow>
   \<exists>d rs. spi_read io v k s = Some (s\<lparr>dev := d\<rparr>, rs) \<and> spi_controller io pfc idle bus x (s\<lparr>dev := d\<rparr>) \<and>
     exchanges x (replicate k (ucast v)) (bus (dev s)) = (bus d, rs)"
proof (induction k arbitrary: s)
  case 0
  then show ?case by (intro exI [of _ "dev s"]) simp
next
  case (Suc k)
  from spi_send [OF Suc.prems(1), of v] obtain d resp where
    1: "wait_resp io (wr_access io (tx_word v) s) = Some (s\<lparr>dev := d\<rparr>, resp)"
      "spi_controller io pfc idle bus x (s\<lparr>dev := d\<rparr>)" "exchange x (ucast v) (bus (dev s)) = (bus d, ucast (resp AND 0xff))"
    by auto
  from Suc.IH [OF 1(2)] 1 show ?case by fastforce
qed

text \<open>Accesses to the pin function controller.\<close>

definition pin_number :: "int \<Rightarrow> bool" where
  "pin_number pin \<longleftrightarrow> 0 \<le> pin \<and> pin < 32"

lemma pin_word: "pin_number pin \<Longrightarrow> (word_of_int pin :: u32) < 32"
  by (simp add: pin_number_def word_less_alt uint_word_of_int)

lemma pfc_reg: "pin_number pin \<Longrightarrow> c < 4 \<Longrightarrow> pfc + 4 * (c + 4 * bank_of (word_of_int pin)) \<in> pfc_addresses pfc"
proof -
  assume "pin_number pin" "c < 4"
  have "c = 0 \<or> c = 1 \<or> c = 2 \<or> c = (3 :: u32)"
  proof -
    have "uint c < 4" using \<open>c < 4\<close> by (simp add: word_less_alt)
    then have "uint c = 0 \<or> uint c = 1 \<or> uint c = 2 \<or> uint c = 3" using uint_ge_0 [of c] by linarith
    then show ?thesis by (simp add: word_uint_eq_iff)
  qed
  moreover have "bank_of (word_of_int pin) = 0 \<or> bank_of (word_of_int pin) = 1 \<or> bank_of (word_of_int pin) = 2 \<or>
      bank_of (word_of_int pin) = 3"
    using bank_cases [OF bank_of_less [OF pin_word [OF \<open>pin_number pin\<close>]]] .
  ultimately have "c + 4 * bank_of (word_of_int pin) < 16" by auto
  then show ?thesis unfolding pfc_addresses_def by blast
qed

lemma pfc_access:
  assumes "spi_controller io pfc idle bus x s" "a \<in> pfc_addresses pfc"
  shows "spi_controller io pfc idle bus x (s\<lparr>dev := fst (io_rd io a (dev s))\<rparr>)" "bus (fst (io_rd io a (dev s))) = bus (dev s)"
    "spi_controller io pfc idle bus x (s\<lparr>dev := io_wr io a v (dev s)\<rparr>)" "bus (io_wr io a v (dev s)) = bus (dev s)"
  using assms controllerD(5) [of io "m_base s" "m_irq s" idle bus "spi_act x" "spi_lines x" "dev s" a]
    controllerD(6) [of io "m_base s" "m_irq s" idle bus "spi_act x" "spi_lines x" "dev s" a v]
  by (auto simp: spi_controller_def at_rest_def)

lemma pfc_select:
  assumes "spi_controller io pfc idle bus x s" "pin_number pin"
  shows "spi_controller io pfc idle bus x (s\<lparr>dev := peridot_pfc_interface_select_output io pfc (word_of_int pin) func (dev s)\<rparr>) \<and>
    bus (peridot_pfc_interface_select_output io pfc (word_of_int pin) func (dev s)) = bus (dev s)"
proof -
  let ?a = "pfc + 4 * PFC_OUTPUT (bank_of (word_of_int pin))"
  have a: "?a \<in> pfc_addresses pfc" using pfc_reg [OF assms(2), of 2 pfc] by (simp add: PFC_OUTPUT_def)
  let ?s = "s\<lparr>dev := fst (io_rd io ?a (dev s))\<rparr>"
  note r = pfc_access(1,2) [OF assms(1) a]
  show ?thesis
    using r pfc_access(3,4) [OF r(1) a]
    by (simp add: peridot_pfc_interface_select_output_def IORD_def IOWR_def case_prod_beta)
qed

lemma pfc_drive:
  assumes "spi_controller io pfc idle bus x s" "pin_number pin"
  shows "spi_controller io pfc idle bus x (s\<lparr>dev := peridot_pfc_interface_direct_output io pfc (word_of_int pin) v (dev s)\<rparr>) \<and>
    bus (peridot_pfc_interface_direct_output io pfc (word_of_int pin) v (dev s)) = bus (dev s)"
proof -
  have a: "pfc + 4 * PFC_DIROUT (bank_of (word_of_int pin)) \<in> pfc_addresses pfc"
    using pfc_reg [OF assms(2), of 1 pfc] by (simp add: PFC_DIROUT_def)
  from pfc_access(3,4) [OF assms(1) a] show ?thesis
    by (simp add: peridot_pfc_interface_direct_output_def IOWR_def)
qed

text \<open>The bytes a transfer sends.\<close>

definition spi_sent :: "byte list \<Rightarrow> nat \<Rightarrow> nat \<Rightarrow> u32 \<Rightarrow> byte list" where
  "spi_sent bs skip n flags = bs @ replicate (skip + n - length bs) (ucast flags)"

lemma spi_controller_cong:
  "spi_controller io pfc idle bus x (s\<lparr>slave_locked := l\<rparr>) = spi_controller io pfc idle bus x s"
  "spi_controller io pfc idle bus x (s\<lparr>dev := d, slave_locked := l\<rparr>) = spi_controller io pfc idle bus x (s\<lparr>dev := d\<rparr>)"
  "spi_controller io pfc idle bus x (s\<lparr>slave_locked := l, dev := d\<rparr>) = spi_controller io pfc idle bus x (s\<lparr>dev := d\<rparr>)"
  by (simp_all add: spi_controller_def at_rest_def)

text \<open>The pin with the number of the slave made an output that is high.\<close>

definition raised :: "'d io \<Rightarrow> u32 \<Rightarrow> int \<Rightarrow> 'd \<Rightarrow> bool" where
  "raised io pfc pin d \<longleftrightarrow> (\<exists>d'. d = peridot_pfc_interface_select_output io pfc (word_of_int pin) PFC_OUTPUT_DOUT
     (peridot_pfc_interface_direct_output io pfc (word_of_int pin) 1 d'))"

lemma spi_finish_ok:
  assumes "spi_controller io pfc idle bus x s" "pin_number slave"
  shows "\<exists>d. spi_finish io pfc slave flags s = s\<lparr>dev := d, slave_locked := if flags AND SPI_MERGE \<noteq> 0 then slave else -1\<rparr> \<and>
    spi_controller io pfc idle bus x (s\<lparr>dev := d\<rparr>) \<and>
    bus d = (if flags AND SPI_MERGE \<noteq> 0 then bus (dev s) else select x False (bus (dev s))) \<and>
    (flags AND SPI_MERGE \<noteq> 0 \<or> raised io pfc slave d)"
proof (cases "flags AND SPI_MERGE = 0")
  case False
  with assms(1) show ?thesis by (intro exI [of _ "dev s"]) (simp add: spi_finish_def)
next
  case True
  let ?s = "wr_access io 0 s"
  have w: "spi_controller io pfc idle bus x ?s" "bus (dev ?s) = select x False (bus (dev s))"
    using assms(1) controllerD(3) [of io "m_base s" "m_irq s" idle bus "spi_act x" "spi_lines x" "dev s" 0]
    by (auto simp: spi_controller_def at_rest_def wr_access_def spi_lines_def)
  note p = pfc_drive [OF w(1) assms(2), of 1]
  note q = pfc_select [OF conjunct1 [OF p] assms(2), of PFC_OUTPUT_DOUT]
  show ?thesis
    using p q w True
    by (intro exI [of _ "peridot_pfc_interface_select_output io pfc (word_of_int slave) PFC_OUTPUT_DOUT
          (peridot_pfc_interface_direct_output io pfc (word_of_int slave) 1 (dev ?s))"])
       (simp add: spi_finish_def Let_def, auto simp: wr_access_def raised_def)
qed

lemma spi_transfer_ok:
  assumes "spi_controller io pfc idle bus x s" "pin_number slave" "slave_locked s < 0 \<or> slave_locked s = slave"
    "k \<le> length bs" "exchanges x (spi_sent (take k bs) skip n flags) (select x True (bus (dev s))) = (b, rs)"
  shows "\<exists>d. spi_transfer io pfc slave clkdiv k bs skip n flags s =
      Some (s\<lparr>dev := d, slave_locked := if flags AND SPI_MERGE \<noteq> 0 then slave else -1\<rparr>, 0, take n (drop skip rs)) \<and>
    spi_controller io pfc idle bus x (s\<lparr>dev := d\<rparr>) \<and>
    bus d = (if flags AND SPI_MERGE \<noteq> 0 then b else select x False b) \<and> (flags AND SPI_MERGE \<noteq> 0 \<or> raised io pfc slave d)"
proof -
  let ?d = "case ss_n_pfc_map s of
       Some m \<Rightarrow>
         if slave \<ge> 0 then
           peridot_pfc_interface_select_output io pfc (word_of_int slave) (word_of_int (out_funcs m ! nat slave)) (dev s)
         else dev s
     | None \<Rightarrow> dev s"
  define d0 where "d0 = ?d"
  have 0: "spi_controller io pfc idle bus x (s\<lparr>dev := d0\<rparr>)" "bus d0 = bus (dev s)"
    using pfc_select [OF assms(1,2)] assms(1) by (auto simp: d0_def split: option.split)
  then have c: "controller io (m_base s) (m_irq s) idle bus (spi_act x) (spi_lines x)" "at_rest idle (s\<lparr>dev := d0\<rparr>)"
    by (simp_all add: spi_controller_def)
  from poll_ready_ok [of io "s\<lparr>dev := d0\<rparr>" "m_irq s" idle bus "spi_act x" "spi_lines x"] c 0(2) obtain d1 where
    1: "poll_ready io (s\<lparr>dev := d0\<rparr>) = Some (s\<lparr>dev := d1\<rparr>)" "at_rest idle (s\<lparr>dev := d1\<rparr>)" "bus d1 = bus (dev s)" by auto
  define d2 where "d2 = IOWR io (m_base s) ACCESS SPI_SS (IOWR io (m_base s) CONFIG (spi_config_word clkdiv flags) d1)"
  have 2: "spi_controller io pfc idle bus x (s\<lparr>dev := d2\<rparr>)" "bus d2 = select x True (bus (dev s))"
    using controllerD(2) [OF c(1), of d1 "spi_config_word clkdiv flags"]
      controllerD(3) [OF c(1), of "IOWR io (m_base s) CONFIG (spi_config_word clkdiv flags) d1" SPI_SS] 1 0(1)
    by (auto simp: spi_controller_def at_rest_def d2_def spi_lines_def SPI_SS_def ACCESS_STA_def)
  let ?f = "flags AND SPI_FILLER_MSK"
  have f: "ucast ?f = (ucast flags :: byte)" by (simp add: SPI_FILLER_MSK_def ucast_and_ff)
  from spi_write_ok [OF 2(1) assms(4), of skip n] 2(2) obtain d3 rs1 where
    3: "spi_write io k bs skip n (s\<lparr>dev := d2\<rparr>) = Some (s\<lparr>dev := d3\<rparr>, skip - k, n - (k - skip), take n (drop skip rs1))"
      "spi_controller io pfc idle bus x (s\<lparr>dev := d3\<rparr>)" "exchanges x (take k bs) (select x True (bus (dev s))) = (bus d3, rs1)" by auto
  from spi_skip_ok [OF 3(2), of ?f "skip - k"] f obtain d4 rs2 where
    4: "spi_skip io ?f (skip - k) (s\<lparr>dev := d3\<rparr>) = Some (s\<lparr>dev := d4\<rparr>)" "spi_controller io pfc idle bus x (s\<lparr>dev := d4\<rparr>)"
      "exchanges x (replicate (skip - k) (ucast flags)) (bus d3) = (bus d4, rs2)" by auto
  from spi_read_ok [OF 4(2), of ?f "n - (k - skip)"] f obtain d5 rs3 where
    5: "spi_read io ?f (n - (k - skip)) (s\<lparr>dev := d4\<rparr>) = Some (s\<lparr>dev := d5\<rparr>, rs3)" "spi_controller io pfc idle bus x (s\<lparr>dev := d5\<rparr>)"
      "exchanges x (replicate (n - (k - skip)) (ucast flags)) (bus d4) = (bus d5, rs3)" by auto
  have "spi_sent (take k bs) skip n flags = take k bs @ replicate (skip - k) (ucast flags) @ replicate (n - (k - skip)) (ucast flags)"
    using assms(4) by (simp add: spi_sent_def min_def replicate_add [symmetric])
  with assms(5) 3(3) 4(3) 5(3) have b: "b = bus d5" "rs = rs1 @ rs2 @ rs3" by (auto simp: exchanges_append)
  have l: "length rs1 = k" "length rs2 = skip - k" "length rs3 = n - (k - skip)"
    using exchanges_length [OF 3(3)] exchanges_length [OF 4(3)] exchanges_length [OF 5(3)] assms(4) by simp_all
  have bytes: "take n (drop skip rs1) @ rs3 = take n (drop skip rs)"
    using l by (cases "k \<le> skip") (auto simp: b(2))
  from spi_finish_ok [OF 5(2) assms(2), of flags] obtain d6 where
    6: "spi_finish io pfc slave flags (s\<lparr>dev := d5\<rparr>) = s\<lparr>dev := d6, slave_locked := if flags AND SPI_MERGE \<noteq> 0 then slave else -1\<rparr>"
      "spi_controller io pfc idle bus x (s\<lparr>dev := d6\<rparr>)"
      "bus d6 = (if flags AND SPI_MERGE \<noteq> 0 then bus d5 else select x False (bus d5))"
      "flags AND SPI_MERGE \<noteq> 0 \<or> raised io pfc slave d6" by auto
  have "\<not> (slave_locked s \<ge> 0 \<and> slave_locked s \<noteq> slave)" using assms(3) by auto
  then have "spi_transfer io pfc slave clkdiv k bs skip n flags s =
      Some (s\<lparr>dev := d6, slave_locked := if flags AND SPI_MERGE \<noteq> 0 then slave else -1\<rparr>, 0, take n (drop skip rs))"
    unfolding spi_transfer_def if_not_P [OF \<open>\<not> (slave_locked s \<ge> 0 \<and> slave_locked s \<noteq> slave)\<close>] Let_def d0_def [symmetric]
    using 1(1) 3(1) 4(1) 5(1) 6(1) bytes by (simp add: wr_config_def wr_access_def d2_def)
  with 6(2,3,4) b(1) show ?thesis by blast
qed

definition spi_refuses :: "int \<Rightarrow> 'd spi \<Rightarrow> int option" where
  "spi_refuses slave s =
     (if (case ss_n_pfc_map s of Some m \<Rightarrow> out_funcs m ! nat slave < 0 | None \<Rightarrow> False) then Some (- EINVAL)
      else if slave_locked s \<ge> 0 \<and> slave_locked s \<noteq> slave then Some (- EAGAIN) else None)"

lemma spi_call:
  assumes "spi_controller io pfc idle bus x s" "pin_number slave" "write_length \<le> length write_data" "spi_refuses slave s = None"
    "exchanges x (spi_sent (take write_length write_data) skip n flags) (select x True (bus (dev s))) = (b, rs)"
  shows "\<exists>d. peridot_spi_master_transfer io pfc slave clkdiv write_length write_data skip n flags s =
       Some (s\<lparr>dev := d, slave_locked := if flags AND SPI_MERGE \<noteq> 0 then slave else -1\<rparr>, 0, take n (drop skip rs)) \<and>
     spi_controller io pfc idle bus x (s\<lparr>dev := d\<rparr>) \<and>
     bus d = (if flags AND SPI_MERGE \<noteq> 0 then b else select x False b) \<and> (flags AND SPI_MERGE \<noteq> 0 \<or> raised io pfc slave d)"
proof -
  from assms(4) have f: "slave_locked s < 0 \<or> slave_locked s = slave"
    and "\<not> (case ss_n_pfc_map s of Some m \<Rightarrow> out_funcs m ! nat slave < 0 | None \<Rightarrow> False)"
    by (auto simp: spi_refuses_def split: if_splits)
  with pin_word [OF assms(2)] assms(2)
  have "\<not> (case ss_n_pfc_map s of Some m \<Rightarrow> (word_of_int slave :: u32) \<ge> 32 \<or> slave \<ge> 0 \<and> out_funcs m ! nat slave < 0 | None \<Rightarrow> False)"
    by (auto split: option.splits simp: not_le)
  with spi_transfer_ok [OF assms(1,2) f assms(3,5), of clkdiv] show ?thesis
    unfolding peridot_spi_master_transfer_def by simp
qed


text \<open>A device that answers with the byte before, and counts its selections.\<close>

definition ex_slave :: "(nat \<times> byte) slave" where
  "ex_slave = \<lparr>select = (\<lambda>on (n, c). (if on then n + 1 else n, c)), exchange = (\<lambda>c (n, c'). ((n, c), c'))\<rparr>"

definition ex_spi :: "((nat \<times> byte) \<times> u32) spi" where
  "ex_spi = \<lparr>m_base = 0x100000c0, m_freq = 40000000, m_irq = 4, m_done = 0, m_irq_on = False, dev = ((0, 0), 0),
     slave_locked = -1, ss_n_pfc_map = None\<rparr>"

lemma prompt_spi:
  assumes "at_rest (\<lambda>_. True) s" "m_base s = 0x100000c0"
  shows "spi_controller (prompt_io 0x100000c0 (spi_act x) (spi_lines x)) 0x10000080 (\<lambda>_. True) fst x s"
proof -
  have "ucast (c :: byte) AND 0x1ff = (ucast c :: u32)" for c
  proof (rule bit_eqI)
    fix n
    have "bit (0x1ff :: int) n \<longleftrightarrow> n < 9" using bit_mask_iff [where 'a = int, of 9 n] by (simp add: mask_eq_exp_minus_1)
    then show "bit (ucast c AND 0x1ff :: u32) n = bit (ucast c :: u32) n" by (auto simp: bit_simps dest: bit_imp_le_length)
  qed
  then have "controller (prompt_io 0x100000c0 (spi_act x) (spi_lines x)) 0x100000c0 irq (\<lambda>_. True) fst (spi_act x) (spi_lines x)" for irq
    by (intro prompt_controller) (simp add: spi_act_def split: prod.split)
  moreover have "0x100000c0 \<notin> pfc_addresses 0x10000080" "0x100000c0 + 4 \<notin> pfc_addresses 0x10000080"
  proof -
    have "uint (0x10000080 + 4 * r :: u32) < 0x100000c0" if "r < 16" for r :: u32
    proof -
      have "uint r < 16" using that by (simp add: word_less_alt)
      then show ?thesis using uint_ge_0 [of r] by (simp add: uint_word_ariths)
    qed
    moreover have "uint (0x100000c0 :: u32) = 0x100000c0" "uint (0x100000c4 :: u32) = 0x100000c4" by simp_all
    ultimately have "(0x100000c0 :: u32) \<noteq> 0x10000080 + 4 * r \<and> (0x100000c4 :: u32) \<noteq> 0x10000080 + 4 * r" if "r < 16" for r
      using that by fastforce
    then show "0x100000c0 \<notin> pfc_addresses 0x10000080" "0x100000c0 + 4 \<notin> pfc_addresses 0x10000080"
      by (auto simp: pfc_addresses_def)
  qed
  ultimately show ?thesis using assms by (simp add: spi_controller_def)
qed


end
