(* ===== verification/Flash_Chip.thy ===== *)
theory Flash_Chip
  imports Spi_Master
begin

text \<open>
  The flash behind the SPI master: \<open>peridot_spi_flash_command\<close>, what is assumed of the chip, and the
  commands as transactions with it. The flash disk and the flash device both rest on these lemmas.
\<close>

section \<open>The command\<close>

definition PERIDOT_SPI_FLASH_MERGE :: u32 where "PERIDOT_SPI_FLASH_MERGE = 0x0400"
definition PERIDOT_SPI_FLASH_SLAVE_NUMBER :: int where "PERIDOT_SPI_FLASH_SLAVE_NUMBER = 0"
definition FLASH_CLKDIV :: u32 where "FLASH_CLKDIV = 1"

definition peridot_spi_flash_command ::
    "'d io \<Rightarrow> u32 \<Rightarrow> u32 \<Rightarrow> byte list \<Rightarrow> u32 \<Rightarrow> u32 \<Rightarrow> 'd spi \<Rightarrow> ('d spi \<times> int \<times> byte list) option" where
  "peridot_spi_flash_command io pfc_base write_length write_data read_length flags sp =
     peridot_spi_master_transfer io pfc_base PERIDOT_SPI_FLASH_SLAVE_NUMBER FLASH_CLKDIV
       (unat write_length) write_data (unat write_length) (unat read_length)
       (if flags AND PERIDOT_SPI_FLASH_MERGE \<noteq> 0 then SPI_MERGE else 0) sp"

section \<open>Transactions\<close>

text \<open>A chip selected, given some bytes and deselected; the answers are the bytes received.\<close>

definition transaction :: "'b slave \<Rightarrow> byte list \<Rightarrow> 'b \<Rightarrow> 'b \<times> byte list" where
  "transaction x bs b = (case exchanges x bs (select x True b) of (b', rs) \<Rightarrow> (select x False b', rs))"

text \<open>The flash master between transactions, with a chip in state \<open>b\<close> on its bus.\<close>

definition flash_master :: "'d io \<Rightarrow> u32 \<Rightarrow> ('d \<Rightarrow> bool) \<Rightarrow> ('d \<Rightarrow> 'b) \<Rightarrow> 'b slave \<Rightarrow> 'd spi \<Rightarrow> bool" where
  "flash_master io pfc idle bus x sp \<longleftrightarrow>
     spi_controller io pfc idle bus x sp \<and> ss_n_pfc_map sp = None \<and> slave_locked sp = -1"

lemma flash_slave: "pin_number PERIDOT_SPI_FLASH_SLAVE_NUMBER"
  by (simp add: pin_number_def PERIDOT_SPI_FLASH_SLAVE_NUMBER_def)

lemma command_exchanges:
  assumes "spi_controller io pfc idle bus x sp" "ss_n_pfc_map sp = None" "slave_locked sp = -1 \<or> slave_locked sp = 0"
    "unat k \<le> length bs"
    "exchanges x (take (unat k) bs @ replicate (unat n) 0) (select x True (bus (dev sp))) = (b, rs)"
  shows "\<exists>d. peridot_spi_flash_command io pfc k bs n flags sp =
      Some (sp\<lparr>dev := d, slave_locked := if flags AND PERIDOT_SPI_FLASH_MERGE \<noteq> 0 then 0 else -1\<rparr>, 0, drop (unat k) rs) \<and>
    spi_controller io pfc idle bus x (sp\<lparr>dev := d\<rparr>) \<and>
    bus d = (if flags AND PERIDOT_SPI_FLASH_MERGE \<noteq> 0 then b else select x False b)"
proof -
  let ?f = "if flags AND PERIDOT_SPI_FLASH_MERGE \<noteq> 0 then SPI_MERGE else 0"
  have f: "?f AND SPI_MERGE \<noteq> 0 \<longleftrightarrow> flags AND PERIDOT_SPI_FLASH_MERGE \<noteq> 0" by (simp add: SPI_MERGE_def)
  have "ucast ?f = (0 :: byte)" by (simp add: SPI_MERGE_def)
  moreover have "unat k + unat n - length (take (unat k) bs) = unat n" using assms(4) by simp
  ultimately have "spi_sent (take (unat k) bs) (unat k) (unat n) ?f = take (unat k) bs @ replicate (unat n) 0"
    by (simp only: spi_sent_def)
  moreover have "spi_refuses PERIDOT_SPI_FLASH_SLAVE_NUMBER sp = None"
    using assms(2,3) by (auto simp: spi_refuses_def PERIDOT_SPI_FLASH_SLAVE_NUMBER_def)
  moreover have "take (unat n) (drop (unat k) rs) = drop (unat k) rs" using exchanges_length [OF assms(5)] assms(4) by simp
  ultimately show ?thesis
    using spi_call [OF assms(1) flash_slave assms(4), of "unat k" "unat n" ?f b rs FLASH_CLKDIV] assms(5) f
    by (fastforce simp: peridot_spi_flash_command_def PERIDOT_SPI_FLASH_SLAVE_NUMBER_def)
qed

lemma command_transaction:
  assumes "flash_master io pfc idle bus x sp" "length bs = unat k"
    "transaction x (bs @ replicate (unat n) 0) (bus (dev sp)) = (b, rs)"
  shows "\<exists>d. peridot_spi_flash_command io pfc k bs n 0 sp = Some (sp\<lparr>dev := d\<rparr>, 0, drop (unat k) rs) \<and>
    flash_master io pfc idle bus x (sp\<lparr>dev := d\<rparr>) \<and> bus d = b"
proof -
  obtain b' where e: "exchanges x (bs @ replicate (unat n) 0) (select x True (bus (dev sp))) = (b', rs)" "b = select x False b'"
    using assms(3) by (auto simp: transaction_def split: prod.splits)
  have l: "slave_locked sp = -1" using assms(1) by (simp add: flash_master_def)
  from command_exchanges [of io pfc idle bus x sp k bs n b' rs 0] e assms(1,2) obtain d where
    "peridot_spi_flash_command io pfc k bs n 0 sp = Some (sp\<lparr>dev := d, slave_locked := -1\<rparr>, 0, drop (unat k) rs)"
    "spi_controller io pfc idle bus x (sp\<lparr>dev := d\<rparr>)" "bus d = select x False b'"
    by (auto simp: flash_master_def)
  moreover have "sp\<lparr>dev := d, slave_locked := -1\<rparr> = sp\<lparr>dev := d\<rparr>" using l by (cases sp) simp
  ultimately show ?thesis using e(2) assms(1) by (auto simp: flash_master_def)
qed

text \<open>Two commands, the first one merged: one transaction with the bytes of both.\<close>

lemma merged_transaction:
  assumes "flash_master io pfc idle bus x sp" "length bs = unat k" "unat m \<le> length cs"
    "transaction x (bs @ take (unat m) cs) (bus (dev sp)) = (b, rs)"
    "\<And>b0. select x True (fst (exchanges x bs (select x True b0))) = fst (exchanges x bs (select x True b0))"
  shows "\<exists>sp' d rs1 rs2. peridot_spi_flash_command io pfc k bs 0 PERIDOT_SPI_FLASH_MERGE sp = Some (sp', 0, rs1) \<and>
    peridot_spi_flash_command io pfc m cs 0 0 sp' = Some (sp\<lparr>dev := d\<rparr>, 0, rs2) \<and>
    flash_master io pfc idle bus x (sp\<lparr>dev := d\<rparr>) \<and> bus d = b"
proof -
  obtain b1 rs1 where 1: "exchanges x bs (select x True (bus (dev sp))) = (b1, rs1)" by fastforce
  obtain b2 rs2 where 2: "exchanges x (take (unat m) cs) b1 = (b2, rs2)" by fastforce
  have b: "b = select x False b2" using assms(4) 1 2 by (simp add: transaction_def exchanges_append)
  have l: "slave_locked sp = -1" "ss_n_pfc_map sp = None" using assms(1) by (simp_all add: flash_master_def)
  from command_exchanges [of io pfc idle bus x sp k bs 0 b1 rs1 PERIDOT_SPI_FLASH_MERGE] 1 assms(1,2) obtain d1 where
    d1: "peridot_spi_flash_command io pfc k bs 0 PERIDOT_SPI_FLASH_MERGE sp =
        Some (sp\<lparr>dev := d1, slave_locked := 0\<rparr>, 0, drop (unat k) rs1)"
      "spi_controller io pfc idle bus x (sp\<lparr>dev := d1\<rparr>)" "bus d1 = b1"
    by (auto simp: flash_master_def PERIDOT_SPI_FLASH_MERGE_def)
  have "select x True b1 = b1" using assms(5) [of "bus (dev sp)"] 1 by simp
  with command_exchanges [of io pfc idle bus x "sp\<lparr>dev := d1, slave_locked := 0\<rparr>" m cs 0 b2 rs2 0] d1 2 l assms(3) obtain d2 where
    d2: "peridot_spi_flash_command io pfc m cs 0 0 (sp\<lparr>dev := d1, slave_locked := 0\<rparr>) =
        Some (sp\<lparr>dev := d2, slave_locked := -1\<rparr>, 0, drop (unat m) rs2)"
      "spi_controller io pfc idle bus x (sp\<lparr>dev := d2\<rparr>)" "bus d2 = select x False b2"
    by (auto simp: spi_controller_cong)
  moreover have "sp\<lparr>dev := d2, slave_locked := -1\<rparr> = sp\<lparr>dev := d2\<rparr>" using l by (cases sp) simp
  ultimately show ?thesis using d1(1) b l by (auto simp: flash_master_def)
qed

section \<open>The chip\<close>

text \<open>
  What the drivers rely on, from the data sheets of serial NOR flash. A chip is described by what can be
  observed of its state: the contents, whether writing is enabled, how long it is still busy and whether it is deselected.
\<close>

record 'b chip =
  cells :: "'b \<Rightarrow> nat \<Rightarrow> byte"
  enabled :: "'b \<Rightarrow> bool"
  busy :: "'b \<Rightarrow> nat"
  resting :: "'b \<Rightarrow> bool"
  chip_size :: nat
  addr_len :: nat
  chip_page :: nat
  erase_op :: byte
  erase_size :: nat
  jedec :: "byte list"

text \<open>An address in big-endian bytes.\<close>

definition be_addr :: "byte list \<Rightarrow> nat" where
  "be_addr bs = foldl (\<lambda>a b. 256 * a + unat b) 0 bs"

definition erased :: "nat \<Rightarrow> nat \<Rightarrow> (nat \<Rightarrow> byte) \<Rightarrow> nat \<Rightarrow> byte" where
  "erased sz a img i = (if i div sz = a div sz then 0xff else img i)"

definition programmed :: "nat \<Rightarrow> byte list \<Rightarrow> (nat \<Rightarrow> byte) \<Rightarrow> nat \<Rightarrow> byte" where
  "programmed a bs img i = (if a \<le> i \<and> i < a + length bs then img i AND bs ! (i - a) else img i)"

text \<open>A transaction on an idle chip that leaves it idle and its contents alone.\<close>

definition quiet :: "'b slave \<Rightarrow> 'b chip \<Rightarrow> byte list \<Rightarrow> 'b \<Rightarrow> bool" where
  "quiet x c bs b \<longleftrightarrow> (case transaction x bs b of (b', rs) \<Rightarrow> cells c b' = cells c b \<and> busy c b' = 0)"

text \<open>
  \<^item> Selecting a selected chip does nothing; a transaction ends with the chip deselected.
  \<^item> Read status: bit 0 of the last answer says whether the chip is still busy, and a busy chip gets ready.
  \<^item> An idle chip can be enabled for writing and read, slowly (03) or fast (0b), and it tells its identification (9f).
  \<^item> Enabled, it erases the block of an address, and it programs bytes within a page, which clears bits.
\<close>

definition flash_chip :: "'b slave \<Rightarrow> 'b chip \<Rightarrow> bool" where
  "flash_chip x c \<longleftrightarrow>
     (\<forall>bs b. select x True (fst (exchanges x bs (select x True b))) = fst (exchanges x bs (select x True b))) \<and>
     (\<forall>b. resting c b \<longrightarrow>
        (\<forall>bs. resting c (fst (transaction x bs b))) \<and>
        (\<forall>fs. fs \<noteq> [] \<longrightarrow>
           (case transaction x (0x05 # fs) b of (b', rs) \<Rightarrow>
              cells c b' = cells c b \<and> busy c b' \<le> busy c b - 1 \<and> (last rs AND 1 = 0 \<longleftrightarrow> busy c b' = 0))) \<and>
        (busy c b = 0 \<longrightarrow>
           quiet x c [0x06] b \<and> enabled c (fst (transaction x [0x06] b)) \<and>
           (\<forall>fs. quiet x c (0x9f # fs) b \<and> take (length fs) (jedec c) = take (length (jedec c)) (tl (snd (transaction x (0x9f # fs) b)))) \<and>
           (\<forall>as n. length as = addr_len c \<and> be_addr as + n \<le> chip_size c \<longrightarrow>
              quiet x c (0x03 # as @ replicate n 0) b \<and>
              drop (1 + addr_len c) (snd (transaction x (0x03 # as @ replicate n 0) b)) = map (cells c b) [be_addr as..<be_addr as + n] \<and>
              (\<forall>dummy. quiet x c (0x0b # as @ dummy # replicate n 0) b \<and>
                 drop (2 + addr_len c) (snd (transaction x (0x0b # as @ dummy # replicate n 0) b)) =
                   map (cells c b) [be_addr as..<be_addr as + n])) \<and>
           (enabled c b \<longrightarrow>
              (\<forall>as. length as = addr_len c \<and> be_addr as < chip_size c \<longrightarrow>
                 cells c (fst (transaction x (erase_op c # as) b)) = erased (erase_size c) (be_addr as) (cells c b)) \<and>
              (\<forall>as bs. length as = addr_len c \<and> be_addr as < chip_size c \<and> bs \<noteq> [] \<and>
                   be_addr as mod chip_page c + length bs \<le> chip_page c \<longrightarrow>
                 cells c (fst (transaction x (0x02 # as @ bs) b)) = programmed (be_addr as) bs (cells c b)))))"

lemma flash_chipD:
  assumes "flash_chip x c"
  shows "select x True (fst (exchanges x bs (select x True b))) = fst (exchanges x bs (select x True b))"
    "resting c b \<Longrightarrow> resting c (fst (transaction x bs b))"
    "resting c b \<Longrightarrow> fs \<noteq> [] \<Longrightarrow> transaction x (0x05 # fs) b = (b', rs) \<Longrightarrow>
       cells c b' = cells c b \<and> busy c b' \<le> busy c b - 1 \<and> (last rs AND 1 = 0 \<longleftrightarrow> busy c b' = 0)"
    "resting c b \<Longrightarrow> busy c b = 0 \<Longrightarrow> quiet x c [0x06] b \<and> enabled c (fst (transaction x [0x06] b))"
    "resting c b \<Longrightarrow> busy c b = 0 \<Longrightarrow> quiet x c (0x9f # fs) b \<and>
       take (length fs) (jedec c) = take (length (jedec c)) (tl (snd (transaction x (0x9f # fs) b)))"
    "resting c b \<Longrightarrow> busy c b = 0 \<Longrightarrow> length as = addr_len c \<Longrightarrow> be_addr as + n \<le> chip_size c \<Longrightarrow>
       quiet x c (0x03 # as @ replicate n 0) b \<and>
       drop (1 + addr_len c) (snd (transaction x (0x03 # as @ replicate n 0) b)) = map (cells c b) [be_addr as..<be_addr as + n]"
    "resting c b \<Longrightarrow> busy c b = 0 \<Longrightarrow> length as = addr_len c \<Longrightarrow> be_addr as + n \<le> chip_size c \<Longrightarrow>
       quiet x c (0x0b # as @ dummy # replicate n 0) b \<and>
       drop (2 + addr_len c) (snd (transaction x (0x0b # as @ dummy # replicate n 0) b)) = map (cells c b) [be_addr as..<be_addr as + n]"
    "resting c b \<Longrightarrow> busy c b = 0 \<Longrightarrow> enabled c b \<Longrightarrow> length as = addr_len c \<Longrightarrow> be_addr as < chip_size c \<Longrightarrow>
       cells c (fst (transaction x (erase_op c # as) b)) = erased (erase_size c) (be_addr as) (cells c b)"
    "resting c b \<Longrightarrow> busy c b = 0 \<Longrightarrow> enabled c b \<Longrightarrow> length as = addr_len c \<Longrightarrow> be_addr as < chip_size c \<Longrightarrow> bs \<noteq> [] \<Longrightarrow>
       be_addr as mod chip_page c + length bs \<le> chip_page c \<Longrightarrow>
       cells c (fst (transaction x (0x02 # as @ bs) b)) = programmed (be_addr as) bs (cells c b)"
proof -
  note L = assms [unfolded flash_chip_def]
  show "select x True (fst (exchanges x bs (select x True b))) = fst (exchanges x bs (select x True b))"
    using conjunct1 [OF L] by blast
  note R = conjunct2 [OF L, THEN spec, THEN mp]
  show "resting c b \<Longrightarrow> resting c (fst (transaction x bs b))" using conjunct1 [OF R] by blast
  show "cells c b' = cells c b \<and> busy c b' \<le> busy c b - 1 \<and> (last rs AND 1 = 0 \<longleftrightarrow> busy c b' = 0)"
    if "resting c b" "fs \<noteq> []" "transaction x (0x05 # fs) b = (b', rs)"
    using conjunct1 [OF conjunct2 [OF R [OF that(1)]], THEN spec, THEN mp, OF that(2)] that(3) by simp
  note Q = conjunct2 [OF conjunct2 [OF R], THEN mp]
  show "resting c b \<Longrightarrow> busy c b = 0 \<Longrightarrow> quiet x c [0x06] b \<and> enabled c (fst (transaction x [0x06] b))" using Q [of b] by blast
  show "resting c b \<Longrightarrow> busy c b = 0 \<Longrightarrow> quiet x c (0x9f # fs) b \<and>
       take (length fs) (jedec c) = take (length (jedec c)) (tl (snd (transaction x (0x9f # fs) b)))" using Q [of b] by blast
  show "resting c b \<Longrightarrow> busy c b = 0 \<Longrightarrow> length as = addr_len c \<Longrightarrow> be_addr as + n \<le> chip_size c \<Longrightarrow>
       quiet x c (0x03 # as @ replicate n 0) b \<and>
       drop (1 + addr_len c) (snd (transaction x (0x03 # as @ replicate n 0) b)) = map (cells c b) [be_addr as..<be_addr as + n]"
    using Q [of b] by blast
  show "resting c b \<Longrightarrow> busy c b = 0 \<Longrightarrow> length as = addr_len c \<Longrightarrow> be_addr as + n \<le> chip_size c \<Longrightarrow>
       quiet x c (0x0b # as @ dummy # replicate n 0) b \<and>
       drop (2 + addr_len c) (snd (transaction x (0x0b # as @ dummy # replicate n 0) b)) = map (cells c b) [be_addr as..<be_addr as + n]"
    using Q [of b] by blast
  show "resting c b \<Longrightarrow> busy c b = 0 \<Longrightarrow> enabled c b \<Longrightarrow> length as = addr_len c \<Longrightarrow> be_addr as < chip_size c \<Longrightarrow>
       cells c (fst (transaction x (erase_op c # as) b)) = erased (erase_size c) (be_addr as) (cells c b)"
    using Q [of b] by blast
  show "resting c b \<Longrightarrow> busy c b = 0 \<Longrightarrow> enabled c b \<Longrightarrow> length as = addr_len c \<Longrightarrow> be_addr as < chip_size c \<Longrightarrow> bs \<noteq> [] \<Longrightarrow>
       be_addr as mod chip_page c + length bs \<le> chip_page c \<Longrightarrow>
       cells c (fst (transaction x (0x02 # as @ bs) b)) = programmed (be_addr as) bs (cells c b)"
    using Q [of b] by blast
qed

section \<open>Commands to the chip\<close>

text \<open>The hardware: registers, the base of the pin function controller, the idle states and the bus of the
  controller, and the chip with its description.\<close>

record ('d, 'b) board =
  b_io :: "'d io"
  b_pfc :: u32
  b_idle :: "'d \<Rightarrow> bool"
  b_bus :: "'d \<Rightarrow> 'b"
  b_slave :: "'b slave"
  b_chip :: "'b chip"

definition flash_holds :: "('d, 'b) board \<Rightarrow> (nat \<Rightarrow> byte) \<Rightarrow> 'd spi \<Rightarrow> bool" where
  "flash_holds R img sp \<longleftrightarrow> flash_master (b_io R) (b_pfc R) (b_idle R) (b_bus R) (b_slave R) sp \<and>
     flash_chip (b_slave R) (b_chip R) \<and> resting (b_chip R) (b_bus R (dev sp)) \<and> cells (b_chip R) (b_bus R (dev sp)) = img"

definition flash_ready :: "('d, 'b) board \<Rightarrow> (nat \<Rightarrow> byte) \<Rightarrow> 'd spi \<Rightarrow> bool" where
  "flash_ready R img sp \<longleftrightarrow> flash_holds R img sp \<and> busy (b_chip R) (b_bus R (dev sp)) = 0"

abbreviation command where "command R \<equiv> peridot_spi_flash_command (b_io R) (b_pfc R)"

text \<open>A command of its own and a pair of which the first is merged, in terms of the transaction.\<close>

lemma send_command:
  assumes "flash_holds R img sp" "length bs = unat k" "transaction (b_slave R) (bs @ replicate (unat n) 0) (b_bus R (dev sp)) = (b, rs)"
  shows "\<exists>d. command R k bs n 0 sp = Some (sp\<lparr>dev := d\<rparr>, 0, drop (unat k) rs) \<and>
    flash_holds R (cells (b_chip R) b) (sp\<lparr>dev := d\<rparr>) \<and> b_bus R d = b"
proof -
  note h = assms(1) [unfolded flash_holds_def]
  have "resting (b_chip R) b" using flash_chipD(2) [of "b_slave R" "b_chip R" "b_bus R (dev sp)"] h assms(3) by (metis fst_conv)
  with command_transaction [OF conjunct1 [OF h] assms(2,3)] h show ?thesis by (auto simp: flash_holds_def)
qed

lemma send_merged:
  assumes "flash_holds R img sp" "length bs = unat k" "unat m \<le> length cs"
    "transaction (b_slave R) (bs @ take (unat m) cs) (b_bus R (dev sp)) = (b, rs)"
  shows "\<exists>sp' d rs1 rs2. command R k bs 0 PERIDOT_SPI_FLASH_MERGE sp = Some (sp', 0, rs1) \<and>
    command R m cs 0 0 sp' = Some (sp\<lparr>dev := d\<rparr>, 0, rs2) \<and>
    flash_holds R (cells (b_chip R) b) (sp\<lparr>dev := d\<rparr>) \<and> b_bus R d = b"
proof -
  note h = assms(1) [unfolded flash_holds_def]
  have r: "resting (b_chip R) b" using flash_chipD(2) [of "b_slave R" "b_chip R" "b_bus R (dev sp)"] h assms(4) by (metis fst_conv)
  have "flash_chip (b_slave R) (b_chip R)" using h by simp
  from merged_transaction [OF conjunct1 [OF h] assms(2,3,4) flash_chipD(1) [OF this]] h r show ?thesis
    by (fastforce simp: flash_holds_def)
qed

lemma send_quiet:
  assumes "flash_ready R img sp" "length bs = unat k" "quiet (b_slave R) (b_chip R) (bs @ replicate (unat n) 0) (b_bus R (dev sp))"
  shows "\<exists>d. command R k bs n 0 sp = Some (sp\<lparr>dev := d\<rparr>, 0,
      drop (unat k) (snd (transaction (b_slave R) (bs @ replicate (unat n) 0) (b_bus R (dev sp))))) \<and>
    flash_ready R img (sp\<lparr>dev := d\<rparr>) \<and> b_bus R d = fst (transaction (b_slave R) (bs @ replicate (unat n) 0) (b_bus R (dev sp)))"
proof -
  obtain b rs where t: "transaction (b_slave R) (bs @ replicate (unat n) 0) (b_bus R (dev sp)) = (b, rs)" by fastforce
  from send_command [of R img sp bs k n b rs] t assms show ?thesis
    by (fastforce simp: flash_ready_def quiet_def flash_holds_def)
qed

lemma send_enable:
  assumes "flash_ready R img sp"
  shows "\<exists>d bs. command R 1 [0x06] 0 0 sp = Some (sp\<lparr>dev := d\<rparr>, 0, bs) \<and> flash_ready R img (sp\<lparr>dev := d\<rparr>) \<and> enabled (b_chip R) (b_bus R d)"
  using assms send_quiet [OF assms, of "[0x06]" 1 0] flash_chipD(4) [of "b_slave R" "b_chip R" "b_bus R (dev sp)"]
  by (fastforce simp: flash_ready_def flash_holds_def)

lemma send_status:
  assumes "flash_holds R img sp" "n \<noteq> 0"
  shows "\<exists>d rs. command R 1 [0x05] n 0 sp = Some (sp\<lparr>dev := d\<rparr>, 0, rs) \<and> flash_holds R img (sp\<lparr>dev := d\<rparr>) \<and> length rs = unat n \<and>
    busy (b_chip R) (b_bus R d) \<le> busy (b_chip R) (b_bus R (dev sp)) - 1 \<and> (last rs AND 1 = 0 \<longleftrightarrow> busy (b_chip R) (b_bus R d) = 0)"
proof -
  obtain b rs where t: "transaction (b_slave R) ([0x05] @ replicate (unat n) 0) (b_bus R (dev sp)) = (b, rs)" by fastforce
  have n: "unat n \<noteq> 0" using assms(2) by (simp add: unat_eq_zero)
  have c: "flash_chip (b_slave R) (b_chip R)" "resting (b_chip R) (b_bus R (dev sp))" using assms(1) by (simp_all add: flash_holds_def)
  from flash_chipD(3) [OF c, of "replicate (unat n) 0" b rs] t n have
    l: "cells (b_chip R) b = img" "busy (b_chip R) b \<le> busy (b_chip R) (b_bus R (dev sp)) - 1" "last rs AND 1 = 0 \<longleftrightarrow> busy (b_chip R) b = 0"
    using assms(1) by (simp_all add: flash_holds_def)
  have "length rs = Suc (unat n)" using t by (auto simp: transaction_def split: prod.splits dest: exchanges_length)
  then have "length (drop 1 rs) = unat n" "last (drop 1 rs) = last rs" using n by (simp_all add: last_drop)
  with send_command [OF assms(1) _ t, of 1] l show ?thesis by (fastforce simp: flash_holds_def)
qed

lemma send_read:
  assumes "flash_ready R img sp" "length as = addr_len (b_chip R)" "be_addr as + unat n \<le> chip_size (b_chip R)"
  shows "unat k = length as + 1 \<Longrightarrow> \<exists>d. command R k (0x03 # as) n 0 sp = Some (sp\<lparr>dev := d\<rparr>, 0, map img [be_addr as..<be_addr as + unat n]) \<and>
      flash_ready R img (sp\<lparr>dev := d\<rparr>)"
    "unat k = length as + 2 \<Longrightarrow> \<exists>d. command R k (0x0b # as @ [dummy]) n 0 sp = Some (sp\<lparr>dev := d\<rparr>, 0, map img [be_addr as..<be_addr as + unat n]) \<and>
      flash_ready R img (sp\<lparr>dev := d\<rparr>)"
proof -
  let ?b = "b_bus R (dev sp)"
  have c: "flash_chip (b_slave R) (b_chip R)" "resting (b_chip R) ?b" "busy (b_chip R) ?b = 0" and i: "cells (b_chip R) ?b = img"
    using assms(1) by (simp_all add: flash_ready_def flash_holds_def)
  note s = flash_chipD(6) [OF c assms(2,3)] and f = flash_chipD(7) [OF c assms(2,3), of dummy]
  show "\<exists>d. command R k (0x03 # as) n 0 sp = Some (sp\<lparr>dev := d\<rparr>, 0, map img [be_addr as..<be_addr as + unat n]) \<and>
      flash_ready R img (sp\<lparr>dev := d\<rparr>)" if "unat k = length as + 1"
    using send_quiet [OF assms(1), of "0x03 # as" k n] s i that assms(2) by auto
  show "\<exists>d. command R k (0x0b # as @ [dummy]) n 0 sp = Some (sp\<lparr>dev := d\<rparr>, 0, map img [be_addr as..<be_addr as + unat n]) \<and>
      flash_ready R img (sp\<lparr>dev := d\<rparr>)" if "unat k = length as + 2"
    using send_quiet [OF assms(1), of "0x0b # as @ [dummy]" k n] f i that assms(2) by auto
qed

text \<open>Erasing and programming leave the chip busy.\<close>

lemma send_erase:
  assumes "flash_ready R img sp" "enabled (b_chip R) (b_bus R (dev sp))" "length as = addr_len (b_chip R)"
    "be_addr as < chip_size (b_chip R)" "unat k = length as + 1" "e = erase_op (b_chip R)"
  shows "\<exists>d rs. command R k (e # as) 0 0 sp = Some (sp\<lparr>dev := d\<rparr>, 0, rs) \<and>
    flash_holds R (erased (erase_size (b_chip R)) (be_addr as) img) (sp\<lparr>dev := d\<rparr>)"
proof -
  let ?b = "b_bus R (dev sp)"
  have c: "flash_chip (b_slave R) (b_chip R)" "resting (b_chip R) ?b" "busy (b_chip R) ?b = 0" and i: "cells (b_chip R) ?b = img"
    and h: "flash_holds R img sp"
    using assms(1) by (simp_all add: flash_ready_def flash_holds_def)
  obtain b rs where t: "transaction (b_slave R) (e # as) ?b = (b, rs)" by fastforce
  with flash_chipD(8) [OF c assms(2,3,4)] assms(6) i have "cells (b_chip R) b = erased (erase_size (b_chip R)) (be_addr as) img" by simp
  with send_command [OF h, of "e # as" k 0 b rs] t assms(5) show ?thesis by auto
qed

lemma send_program:
  assumes "flash_ready R img sp" "enabled (b_chip R) (b_bus R (dev sp))" "length as = addr_len (b_chip R)"
    "be_addr as < chip_size (b_chip R)" "unat k = length as + 1" "unat m \<le> length bs" "m \<noteq> 0"
    "be_addr as mod chip_page (b_chip R) + unat m \<le> chip_page (b_chip R)"
  shows "\<exists>sp' d rs1 rs2. command R k (0x02 # as) 0 PERIDOT_SPI_FLASH_MERGE sp = Some (sp', 0, rs1) \<and>
    command R m bs 0 0 sp' = Some (sp\<lparr>dev := d\<rparr>, 0, rs2) \<and> flash_holds R (programmed (be_addr as) (take (unat m) bs) img) (sp\<lparr>dev := d\<rparr>)"
proof -
  let ?b = "b_bus R (dev sp)"
  have c: "flash_chip (b_slave R) (b_chip R)" "resting (b_chip R) ?b" "busy (b_chip R) ?b = 0" and i: "cells (b_chip R) ?b = img"
    and h: "flash_holds R img sp"
    using assms(1) by (simp_all add: flash_ready_def flash_holds_def)
  obtain b rs where t: "transaction (b_slave R) (0x02 # as @ take (unat m) bs) ?b = (b, rs)" by fastforce
  have "take (unat m) bs \<noteq> []" "be_addr as mod chip_page (b_chip R) + length (take (unat m) bs) \<le> chip_page (b_chip R)"
    using assms(6,7,8) by (auto simp: unat_eq_zero)
  from flash_chipD(9) [OF c assms(2,3,4) this] t i have "cells (b_chip R) b = programmed (be_addr as) (take (unat m) bs) img" by simp
  with send_merged [OF h, where bs = "0x02 # as" and k = k and cs = bs and m = m and b = b and rs = rs] t assms(5,6) show ?thesis by fastforce
qed

section \<open>Addresses and contents\<close>

lemma unat_ucast_byte: "unat (ucast w :: byte) = unat w mod 256" for w :: u32
  by (simp add: unsigned_ucast_eq unsigned_take_bit_eq take_bit_eq_mod)

lemma unat_shr: "unat (shr w n) = unat w div 2 ^ n" for w :: u32
  by (subst unat_drop_bit_eq) (rule drop_bit_eq_div)

lemma be_addr_3: "unat addr < 2 ^ 24 \<Longrightarrow> be_addr [ucast (shr addr 16), ucast (shr addr 8), ucast addr] = unat addr"
proof -
  assume l: "unat addr < 2 ^ 24"
  have m: "unat addr = 256 * (unat addr div 256) + unat addr mod 256"
    "unat addr div 256 = 256 * (unat addr div 65536) + unat addr div 256 mod 256"
    using div_mult2_eq [of "unat addr" 256 256] by simp_all
  have "unat addr div 65536 < 256" using l by (intro div_less_iff_less_mult [THEN iffD2]) simp_all
  then have "be_addr [ucast (shr addr 16), ucast (shr addr 8), ucast addr] = 256 * (256 * (unat addr div 65536) + unat addr div 256 mod 256) + unat addr mod 256"
    by (simp add: be_addr_def unat_ucast_byte unat_shr)
  with m show ?thesis by presburger
qed

definition overwrite :: "nat \<Rightarrow> byte list \<Rightarrow> (nat \<Rightarrow> byte) \<Rightarrow> nat \<Rightarrow> byte" where
  "overwrite a bs img i = (if a \<le> i \<and> i < a + length bs then bs ! (i - a) else img i)"

lemma programmed_append: "programmed (a + length bs) cs (programmed a bs img) = programmed a (bs @ cs) img"
  by (auto simp: programmed_def nth_append fun_eq_iff)

lemma overwrite_append: "overwrite (a + length bs) cs (overwrite a bs img) = overwrite a (bs @ cs) img"
  by (auto simp: overwrite_def nth_append fun_eq_iff)

lemma overwrite_Nil [simp]: "overwrite a [] img = img" by (auto simp: overwrite_def fun_eq_iff)

lemma programmed_Nil [simp]: "programmed a [] img = img" by (auto simp: programmed_def fun_eq_iff)

lemma bit_ff: "bit (255 :: int) n \<longleftrightarrow> n < 8"
  using bit_mask_iff [where 'a = int, of 8 n] by (simp add: mask_eq_exp_minus_1)

text \<open>Programming an erased block is overwriting it.\<close>

lemma programmed_erased:
  assumes "a mod sz = 0" "length bs = sz" "sz > 0"
  shows "programmed a bs (erased sz a img) = overwrite a bs img"
proof
  fix i
  have "i div sz = a div sz \<longleftrightarrow> a \<le> i \<and> i < a + sz" if "sz \<noteq> 0"
  proof -
    have a: "a = sz * (a div sz)" using assms(1) mult_div_mod_eq [of sz a] by simp
    have "i div sz = q \<longleftrightarrow> sz * q \<le> i \<and> i < sz * q + sz" for q
    proof
      show "sz * q \<le> i \<and> i < sz * q + sz" if "i div sz = q"
        using dividend_less_times_div [of sz i] \<open>sz \<noteq> 0\<close> that by (auto simp: add.commute)
      show "i div sz = q" if "sz * q \<le> i \<and> i < sz * q + sz"
        using that by (intro div_nat_eqI) (simp_all add: add.commute)
    qed
    with a show ?thesis by metis
  qed
  moreover have "(0xff :: byte) AND x = x" for x :: byte by (rule bit_eqI) (simp add: bit_simps bit_ff)
  ultimately show "programmed a bs (erased sz a img) i = overwrite a bs img i"
    using assms(2,3) by (auto simp: programmed_def erased_def overwrite_def)
qed

section \<open>An example chip\<close>

text \<open>A chip of 2 MiB with blocks of 4 KiB that is busy for two status reads after each change.\<close>

record nor =
  nor_cells :: "nat \<Rightarrow> byte"
  nor_enabled :: bool
  nor_busy :: nat
  nor_on :: bool
  nor_in :: "byte list"

definition nor_reply :: "nor \<Rightarrow> byte list \<Rightarrow> byte" where
  "nor_reply b bs =
     (case bs of
        [] \<Rightarrow> 0
      | c # r \<Rightarrow>
          if r = [] then 0
          else if c = 0x05 then (if nor_busy b > 1 then 1 else 0)
          else if c = 0x9f then (case r of [_] \<Rightarrow> 0xef | [_, _] \<Rightarrow> 0x40 | [_, _, _] \<Rightarrow> 0x15 | _ \<Rightarrow> 0)
          else if c = 0x03 \<and> length r > 3 then nor_cells b (be_addr (take 3 r) + length r - 4)
          else if c = 0x0b \<and> length r > 4 then nor_cells b (be_addr (take 3 r) + length r - 5)
          else 0)"

definition nor_act :: "byte list \<Rightarrow> nor \<Rightarrow> nor" where
  "nor_act bs b =
     (case bs of
        [] \<Rightarrow> b
      | c # r \<Rightarrow>
          if c = 0x05 then b\<lparr>nor_busy := nor_busy b - 1\<rparr>
          else if nor_busy b > 0 then b
          else if c = 0x06 then b\<lparr>nor_enabled := True\<rparr>
          else if \<not> nor_enabled b then b
          else if c = 0x20 \<and> length r = 3 then
            b\<lparr>nor_cells := erased 4096 (be_addr r) (nor_cells b), nor_enabled := False, nor_busy := 2\<rparr>
          else if c = 0x02 then
            b\<lparr>nor_cells := programmed (be_addr (take 3 r)) (drop 3 r) (nor_cells b), nor_enabled := False, nor_busy := 2\<rparr>
          else b)"

definition nor_slave :: "nor slave" where
  "nor_slave = \<lparr>
     select = (\<lambda>on b.
       if on = nor_on b then b
       else if on then b\<lparr>nor_on := True, nor_in := []\<rparr>
       else nor_act (nor_in b) b\<lparr>nor_on := False, nor_in := []\<rparr>),
     exchange = (\<lambda>c b. (b\<lparr>nor_in := nor_in b @ [c]\<rparr>, nor_reply b (nor_in b @ [c])))\<rparr>"

definition nor_chip :: "nor chip" where
  "nor_chip = \<lparr>cells = nor_cells, enabled = nor_enabled, busy = nor_busy, resting = (\<lambda>b. \<not> nor_on b \<and> nor_in b = []),
     chip_size = 0x200000, addr_len = 3, chip_page = 256, erase_op = 0x20, erase_size = 4096, jedec = [0xef, 0x40, 0x15]\<rparr>"

lemma nor_reply_in [simp]: "nor_reply (b\<lparr>nor_in := l\<rparr>) = nor_reply b" "nor_reply (b\<lparr>nor_on := t\<rparr>) = nor_reply b"
  by (simp_all add: nor_reply_def fun_eq_iff split: list.split)

lemma nor_exchanges:
  "exchanges nor_slave bs b = (b\<lparr>nor_in := nor_in b @ bs\<rparr>, map (\<lambda>i. nor_reply b (nor_in b @ take (Suc i) bs)) [0..<length bs])"
proof (induction bs arbitrary: b)
  case (Cons c bs)
  have u: "[0..<length (c # bs)] = 0 # map Suc [0..<length bs]" by (simp add: map_Suc_upt upt_conv_Cons del: upt_Suc)
  show ?case unfolding u by (simp add: Cons.IH) (simp add: nor_slave_def)
qed simp

lemma nor_act_on: "nor_on (nor_act bs b) = nor_on b" "nor_act bs (b\<lparr>nor_on := t, nor_in := l\<rparr>) = nor_act bs b\<lparr>nor_on := t, nor_in := l\<rparr>"
  by (simp_all add: nor_act_def split: list.split)

lemma nor_transaction:
  assumes "resting nor_chip b"
  shows "transaction nor_slave bs b = (nor_act bs b\<lparr>nor_on := False, nor_in := []\<rparr>, map (\<lambda>i. nor_reply b (take (Suc i) bs)) [0..<length bs])"
proof -
  have "select nor_slave True b = b\<lparr>nor_on := True, nor_in := []\<rparr>" "nor_in b = []" "\<not> nor_on b"
    using assms by (simp_all add: nor_chip_def nor_slave_def)
  then show ?thesis
    by (simp add: transaction_def nor_exchanges) (simp add: nor_slave_def nor_act_on)
qed

lemma nor_reply_read:
  "nor_reply b (0x03 # r) = (if length r > 3 then nor_cells b (be_addr (take 3 r) + length r - 4) else 0)"
  "nor_reply b (0x0b # r) = (if length r > 4 then nor_cells b (be_addr (take 3 r) + length r - 5) else 0)"
  by (auto simp: nor_reply_def)

lemma nor_reads:
  assumes "length as = 3"
  shows "drop 4 (map (\<lambda>i. nor_reply b (take (Suc i) (0x03 # as @ replicate n 0))) [0..<4 + n]) = map (nor_cells b) [be_addr as..<be_addr as + n]"
    "drop 5 (map (\<lambda>i. nor_reply b (take (Suc i) (0x0b # as @ dummy # replicate n 0))) [0..<5 + n]) = map (nor_cells b) [be_addr as..<be_addr as + n]"
proof -
  show "drop 4 (map (\<lambda>i. nor_reply b (take (Suc i) (0x03 # as @ replicate n 0))) [0..<4 + n]) = map (nor_cells b) [be_addr as..<be_addr as + n]"
    using assms by (intro nth_equalityI) (simp_all add: nor_reply_read min_def)
  show "drop 5 (map (\<lambda>i. nor_reply b (take (Suc i) (0x0b # as @ dummy # replicate n 0))) [0..<5 + n]) = map (nor_cells b) [be_addr as..<be_addr as + n]"
    using assms by (intro nth_equalityI) (simp_all add: nor_reply_read min_def)
qed

lemma nor_flash: "flash_chip nor_slave nor_chip"
proof -
  have sel: "select nor_slave True (fst (exchanges nor_slave bs (select nor_slave True b))) = fst (exchanges nor_slave bs (select nor_slave True b))" for bs b
    by (simp add: nor_exchanges) (simp add: nor_slave_def nor_act_on)
  have rest: "resting nor_chip (fst (transaction nor_slave bs b))" if "resting nor_chip b" for bs b
    using that by (simp add: nor_transaction) (simp add: nor_chip_def)
  have status: "case transaction nor_slave (0x05 # fs) b of (b', rs) \<Rightarrow>
      cells nor_chip b' = cells nor_chip b \<and> busy nor_chip b' \<le> busy nor_chip b - 1 \<and> (last rs AND 1 = 0 \<longleftrightarrow> busy nor_chip b' = 0)"
    if "resting nor_chip b" "fs \<noteq> []" for b fs
  proof -
    have "[0..<length (0x05 # fs)] \<noteq> []" by simp
    then have "last (map (\<lambda>i. nor_reply b (take (Suc i) (0x05 # fs))) [0..<length (0x05 # fs)]) = nor_reply b (0x05 # fs)"
      by (simp add: last_map)
    then show ?thesis using that by (simp add: nor_transaction del: upt_Suc) (auto simp: nor_chip_def nor_act_def nor_reply_def)
  qed
  have idle: "quiet nor_slave nor_chip bs b" if "resting nor_chip b" "busy nor_chip b = 0" "hd bs \<in> {0x06, 0x9f, 0x03, 0x0b}" for bs b
    using that by (auto simp: quiet_def nor_transaction) (auto simp: nor_chip_def nor_act_def split: list.splits)
  have ident: "take (length fs) (jedec nor_chip) = take (length (jedec nor_chip)) (tl (snd (transaction nor_slave (0x9f # fs) b)))"
    if "resting nor_chip b" for fs b
  proof -
    have r: "nor_reply b (0x9f # r) = (case r of [_] \<Rightarrow> 0xef | [_, _] \<Rightarrow> 0x40 | [_, _, _] \<Rightarrow> 0x15 | _ \<Rightarrow> 0)" for r
      by (auto simp: nor_reply_def split: list.splits)
    have u: "[0..<length (0x9f # fs)] = 0 # map Suc [0..<length fs]" by (simp add: map_Suc_upt upt_conv_Cons del: upt_Suc)
    have "tl (snd (transaction nor_slave (0x9f # fs) b)) = map (\<lambda>i. nor_reply b (0x9f # take (Suc i) fs)) [0..<length fs]"
      using that unfolding nor_transaction [OF that] u by simp
    moreover have "take 3 (map (\<lambda>i. nor_reply b (0x9f # take (Suc i) fs)) [0..<length fs]) = take (length fs) [0xef, 0x40, 0x15]"
      by (cases fs rule: list.exhaust; cases "tl fs" rule: list.exhaust; cases "tl (tl fs)" rule: list.exhaust)
         (simp_all add: r upt_conv_Cons take_Cons' del: upt_Suc)
    moreover have "jedec nor_chip = [0xef, 0x40, 0x15]" "length (jedec nor_chip) = 3" by (simp_all add: nor_chip_def)
    ultimately show ?thesis by (simp only:)
  qed
  have en: "enabled nor_chip (fst (transaction nor_slave [0x06] b))" if "resting nor_chip b" "busy nor_chip b = 0" for b
    using that by (simp add: nor_transaction) (simp add: nor_chip_def nor_act_def)
  have er: "cells nor_chip (fst (transaction nor_slave (erase_op nor_chip # as) b)) = erased (erase_size nor_chip) (be_addr as) (cells nor_chip b)"
    if "resting nor_chip b" "busy nor_chip b = 0" "enabled nor_chip b" "length as = addr_len nor_chip" for as b
    using that by (simp add: nor_transaction) (simp add: nor_chip_def nor_act_def)
  have pr: "cells nor_chip (fst (transaction nor_slave (0x02 # as @ bs) b)) = programmed (be_addr as) bs (cells nor_chip b)"
    if "resting nor_chip b" "busy nor_chip b = 0" "enabled nor_chip b" "length as = addr_len nor_chip" for as bs b
    using that by (simp add: nor_transaction) (simp add: nor_chip_def nor_act_def)
  have rd: "drop (1 + addr_len nor_chip) (snd (transaction nor_slave (0x03 # as @ replicate n 0) b)) = map (cells nor_chip b) [be_addr as..<be_addr as + n]"
    "drop (2 + addr_len nor_chip) (snd (transaction nor_slave (0x0b # as @ dummy # replicate n 0) b)) = map (cells nor_chip b) [be_addr as..<be_addr as + n]"
    if "resting nor_chip b" "length as = addr_len nor_chip" for as n b dummy
  proof -
    have l: "length as = 3" "addr_len nor_chip = 3" "cells nor_chip b = nor_cells b" using that(2) by (simp_all add: nor_chip_def)
    from l(1) nor_reads [OF l(1), where b = b and n = n] show "drop (1 + addr_len nor_chip) (snd (transaction nor_slave (0x03 # as @ replicate n 0) b)) = map (cells nor_chip b) [be_addr as..<be_addr as + n]"
      "drop (2 + addr_len nor_chip) (snd (transaction nor_slave (0x0b # as @ dummy # replicate n 0) b)) = map (cells nor_chip b) [be_addr as..<be_addr as + n]"
      unfolding nor_transaction [OF that(1)] l(2,3) by (simp_all del: upt_Suc)
  qed
  show ?thesis
    unfolding flash_chip_def
    by (intro conjI allI impI) (use sel rest status idle ident en er pr rd in \<open>simp_all\<close>)
qed

text \<open>The chip on the bus of a controller that answers at once.\<close>

definition nor_board :: "(nor \<times> u32, nor) board" where
  "nor_board = \<lparr>b_io = prompt_io 0x100000c0 (spi_act nor_slave) (spi_lines nor_slave), b_pfc = 0x10000080, b_idle = (\<lambda>_. True),
     b_bus = fst, b_slave = nor_slave, b_chip = nor_chip\<rparr>"

definition nor_spi :: "(nat \<Rightarrow> byte) \<Rightarrow> (nor \<times> u32) spi" where
  "nor_spi img = \<lparr>m_base = 0x100000c0, m_freq = 40000000, m_irq = 4, m_done = 0, m_irq_on = False,
     dev = (\<lparr>nor_cells = img, nor_enabled = False, nor_busy = 0, nor_on = False, nor_in = []\<rparr>, 0), slave_locked = -1, ss_n_pfc_map = None\<rparr>"

lemma nor_ready: "flash_ready nor_board img (nor_spi img)"
proof -
  have "spi_controller (prompt_io 0x100000c0 (spi_act nor_slave) (spi_lines nor_slave)) 0x10000080 (\<lambda>_. True) fst nor_slave (nor_spi img)"
    by (rule prompt_spi) (simp_all add: nor_spi_def at_rest_def)
  then show ?thesis
    using nor_flash by (simp add: flash_ready_def flash_holds_def flash_master_def nor_board_def) (simp add: nor_spi_def nor_chip_def)
qed

end
