(* ===== verification/Epcs_Disk.thy ===== *)
theory Epcs_Disk
  imports Flash_Chip
begin

text \<open>
  The flash as a disk for FatFs (\<open>epcs_fatfs_diskio.c\<close>), as configured by \<open>system.h\<close>: sectors of 4096 bytes
  from flash address 0x80000 to the end, no verification. The lock around a command is left out.
\<close>

section \<open>The code\<close>

datatype dresult = RES_OK | RES_ERROR | RES_WRPRT | RES_NOTRDY | RES_PARERR

definition STA_NOINIT :: u32 where "STA_NOINIT = 1"

definition CTRL_SYNC :: byte where "CTRL_SYNC = 0"
definition GET_SECTOR_COUNT :: byte where "GET_SECTOR_COUNT = 1"
definition GET_SECTOR_SIZE :: byte where "GET_SECTOR_SIZE = 2"
definition GET_BLOCK_SIZE :: byte where "GET_BLOCK_SIZE = 3"
definition CTRL_TRIM :: byte where "CTRL_TRIM = 4"

definition EPCS :: byte where "EPCS = 0"
definition SECT_SHIFT :: nat where "SECT_SHIFT = 12"
definition SECT_SIZE :: u32 where "SECT_SIZE = 4096"
definition PAGE_SIZE :: u32 where "PAGE_SIZE = 256"
definition EPCS_FATFS_FLASH_START :: u32 where "EPCS_FATFS_FLASH_START = 0x80000"

definition CMD_FREAD :: byte where "CMD_FREAD = 0x0b"
definition CMD_WREN :: byte where "CMD_WREN = 0x06"
definition CMD_RDSR :: byte where "CMD_RDSR = 0x05"
definition CMD_ERASE :: byte where "CMD_ERASE = 0x20"
definition CMD_PROG :: byte where "CMD_PROG = 0x02"
definition CMD_RDID :: byte where "CMD_RDID = 0x9f"

record 'd disk =
  epcs_total_sectors :: u32
  epcs_start_sector :: u32
  epcs_end_sector :: u32
  flash_sp :: "'d spi"

definition EPCS_disk_status :: u32 where "EPCS_disk_status = 0"

definition disk_status :: "byte \<Rightarrow> u32" where
  "disk_status pdrv = (if pdrv = EPCS then EPCS_disk_status else STA_NOINIT)"

text \<open>A shift by \<open>ident[2] - 12\<close>, which is undefined for a negative amount or one above 31.\<close>

definition EPCS_disk_initialize :: "'d io \<Rightarrow> u32 \<Rightarrow> 'd disk \<Rightarrow> ('d disk \<times> u32) option" where
  "EPCS_disk_initialize io pfc s =
     do { (sp, result, ident) \<leftarrow> peridot_spi_flash_command io pfc 1 [CMD_RDID] 3 0 (flash_sp s);
          let s = s\<lparr>flash_sp := sp\<rparr>;
          if result < 0 \<or> ident ! 0 = 0xff \<or> ident ! 1 = 0xff \<or> ident ! 2 = 0xff then Some (s, STA_NOINIT)
          else
            do { let n = unat (ident ! 2);
                 total \<leftarrow> (if SECT_SHIFT \<le> n \<and> n - SECT_SHIFT < 32 then Some (shl 1 (n - SECT_SHIFT)) else None);
                 let s = s\<lparr>epcs_total_sectors := total, epcs_start_sector := shr (EPCS_FATFS_FLASH_START + SECT_SIZE - 1) SECT_SHIFT,
                           epcs_end_sector := total\<rparr>;
                 Some (s, if epcs_start_sector s \<ge> epcs_end_sector s then STA_NOINIT else 0) } }"

definition disk_initialize :: "'d io \<Rightarrow> u32 \<Rightarrow> byte \<Rightarrow> 'd disk \<Rightarrow> ('d disk \<times> u32) option" where
  "disk_initialize io pfc pdrv s = (if pdrv = EPCS then EPCS_disk_initialize io pfc s else Some (s, STA_NOINIT))"

definition addr_bytes :: "u32 \<Rightarrow> byte list" where
  "addr_bytes addr = [ucast (shr addr 16), ucast (shr addr 8), ucast addr]"

definition epcs_fatfs_raw_read :: "'d io \<Rightarrow> u32 \<Rightarrow> u32 \<Rightarrow> u32 \<Rightarrow> 'd spi \<Rightarrow> ('d spi \<times> int \<times> byte list) option" where
  "epcs_fatfs_raw_read io pfc offset len sp =
     peridot_spi_flash_command io pfc 5 (CMD_FREAD # addr_bytes offset @ [0xff]) len 0 sp"

definition EPCS_disk_read :: "'d io \<Rightarrow> u32 \<Rightarrow> u32 \<Rightarrow> u32 \<Rightarrow> 'd disk \<Rightarrow> ('d disk \<times> dresult \<times> byte list) option" where
  "EPCS_disk_read io pfc sector count s =
     (let sector = sector + epcs_start_sector s in
      if sector + count > epcs_end_sector s then Some (s, RES_PARERR, [])
      else do { (sp, result, bytes) \<leftarrow> epcs_fatfs_raw_read io pfc (shl sector SECT_SHIFT) (shl count SECT_SHIFT) (flash_sp s);
                Some (s\<lparr>flash_sp := sp\<rparr>, if result < 0 then RES_ERROR else RES_OK, bytes) })"

definition disk_read :: "'d io \<Rightarrow> u32 \<Rightarrow> byte \<Rightarrow> u32 \<Rightarrow> u32 \<Rightarrow> 'd disk \<Rightarrow> ('d disk \<times> dresult \<times> byte list) option" where
  "disk_read io pfc pdrv sector count s =
     (if pdrv = EPCS then EPCS_disk_read io pfc sector count s else Some (s, RES_PARERR, []))"

text \<open>The loop until the write in progress is finished.\<close>

partial_function (option) wait_written :: "'d io \<Rightarrow> u32 \<Rightarrow> 'd spi \<Rightarrow> ('d spi \<times> int) option" where
  "wait_written io pfc sp =
     do { (sp, result, sr) \<leftarrow> peridot_spi_flash_command io pfc 1 [CMD_RDSR] 2 0 sp;
          if result < 0 then Some (sp, result)
          else if sr ! 1 AND 1 = 0 then Some (sp, result)
          else wait_written io pfc sp }"

text \<open>One turn of the loop over pages: page -1 erases. The results are the last one of a command, the
  address and the rest of the buffer.\<close>

definition erase_sector :: "'d io \<Rightarrow> u32 \<Rightarrow> u32 \<Rightarrow> 'd spi \<Rightarrow> ('d spi \<times> int) option" where
  "erase_sector io pfc addr sp =
     do { (sp, result, _) \<leftarrow> peridot_spi_flash_command io pfc 4 (CMD_ERASE # addr_bytes addr) 0 0 sp; Some (sp, result) }"

definition program_page :: "'d io \<Rightarrow> u32 \<Rightarrow> u32 \<Rightarrow> byte list \<Rightarrow> 'd spi \<Rightarrow> ('d spi \<times> int \<times> u32 \<times> byte list) option" where
  "program_page io pfc addr buff sp =
     do { (sp, result, _) \<leftarrow> peridot_spi_flash_command io pfc 4 (CMD_PROG # addr_bytes addr) 0 PERIDOT_SPI_FLASH_MERGE sp;
          if result \<ge> 0 then
            do { (sp, result, _) \<leftarrow> peridot_spi_flash_command io pfc PAGE_SIZE buff 0 0 sp;
                 Some (sp, result, addr + PAGE_SIZE, drop (unat PAGE_SIZE) buff) }
          else Some (sp, result, addr, buff) }"

definition write_turn :: "'d io \<Rightarrow> u32 \<Rightarrow> int \<Rightarrow> u32 \<Rightarrow> byte list \<Rightarrow> 'd spi \<Rightarrow> ('d spi \<times> int \<times> u32 \<times> byte list) option" where
  "write_turn io pfc page addr buff sp =
     do { (sp, result, _) \<leftarrow> peridot_spi_flash_command io pfc 1 [CMD_WREN] 0 0 sp;
          if result < 0 then Some (sp, result, addr, buff)
          else
            do { (sp, result, addr, buff) \<leftarrow>
                   (if page < 0 then do { (sp, result) \<leftarrow> erase_sector io pfc addr sp; Some (sp, result, addr, buff) }
                    else program_page io pfc addr buff sp);
                 if result < 0 then Some (sp, result, addr, buff)
                 else do { (sp, result) \<leftarrow> wait_written io pfc sp; Some (sp, result, addr, buff) } } }"

fun write_turns :: "'d io \<Rightarrow> u32 \<Rightarrow> int list \<Rightarrow> u32 \<Rightarrow> byte list \<Rightarrow> 'd spi \<Rightarrow> ('d spi \<times> int \<times> u32 \<times> byte list) option" where
  "write_turns io pfc [] addr buff sp = Some (sp, 0, addr, buff)"
| "write_turns io pfc (page # pages) addr buff sp =
     do { (sp, result, addr, buff) \<leftarrow> write_turn io pfc page addr buff sp;
          if result < 0 then Some (sp, result, addr, buff) else write_turns io pfc pages addr buff sp }"

fun write_sectors :: "'d io \<Rightarrow> u32 \<Rightarrow> nat \<Rightarrow> u32 \<Rightarrow> byte list \<Rightarrow> 'd spi \<Rightarrow> ('d spi \<times> int) option" where
  "write_sectors io pfc 0 addr buff sp = Some (sp, 0)"
| "write_sectors io pfc (Suc count) addr buff sp =
     do { (sp, result, addr, buff) \<leftarrow> write_turns io pfc [-1..uint (SECT_SIZE div PAGE_SIZE) - 1] addr buff sp;
          if result < 0 then Some (sp, -1) else write_sectors io pfc count addr buff sp }"

text \<open>\<open>len\<close> is an \<open>int\<close>, so its shift is arithmetic, and \<open>count\<close> is unsigned.\<close>

definition epcs_fatfs_raw_write :: "'d io \<Rightarrow> u32 \<Rightarrow> u32 \<Rightarrow> byte list \<Rightarrow> u32 \<Rightarrow> 'd spi \<Rightarrow> ('d spi \<times> int) option" where
  "epcs_fatfs_raw_write io pfc offset buff len sp = write_sectors io pfc (unat (signed_drop_bit SECT_SHIFT len)) offset buff sp"

definition EPCS_disk_write :: "'d io \<Rightarrow> u32 \<Rightarrow> byte list \<Rightarrow> u32 \<Rightarrow> u32 \<Rightarrow> 'd disk \<Rightarrow> ('d disk \<times> dresult) option" where
  "EPCS_disk_write io pfc buff sector count s =
     (let sector = sector + epcs_start_sector s in
      if sector + count > epcs_end_sector s then Some (s, RES_PARERR)
      else do { (sp, result) \<leftarrow> epcs_fatfs_raw_write io pfc (shl sector SECT_SHIFT) buff (shl count SECT_SHIFT) (flash_sp s);
                Some (s\<lparr>flash_sp := sp\<rparr>, if result < 0 then RES_ERROR else RES_OK) })"

definition disk_write :: "'d io \<Rightarrow> u32 \<Rightarrow> byte \<Rightarrow> byte list \<Rightarrow> u32 \<Rightarrow> u32 \<Rightarrow> 'd disk \<Rightarrow> ('d disk \<times> dresult) option" where
  "disk_write io pfc pdrv buff sector count s =
     (if pdrv = EPCS then EPCS_disk_write io pfc buff sector count s else Some (s, RES_PARERR))"

definition epcs_fatfs_raw_get_sectsize :: u32 where "epcs_fatfs_raw_get_sectsize = SECT_SIZE"

text \<open>The second result is what is stored through \<open>buff\<close>, if anything.\<close>

definition EPCS_disk_ioctl :: "byte \<Rightarrow> 'd disk \<Rightarrow> dresult \<times> u32 option" where
  "EPCS_disk_ioctl cmd s =
     (if cmd = CTRL_SYNC then (RES_OK, None)
      else if cmd = GET_SECTOR_COUNT then (RES_OK, Some (epcs_end_sector s - epcs_start_sector s))
      else if cmd = GET_SECTOR_SIZE then (RES_OK, Some SECT_SIZE)
      else if cmd = GET_BLOCK_SIZE then (RES_OK, Some (SECT_SIZE div SECT_SIZE))
      else if cmd = CTRL_TRIM then (RES_OK, None)
      else (RES_PARERR, None))"

definition disk_ioctl :: "byte \<Rightarrow> byte \<Rightarrow> 'd disk \<Rightarrow> dresult \<times> u32 option" where
  "disk_ioctl pdrv cmd s = (if pdrv = EPCS then EPCS_disk_ioctl cmd s else (RES_PARERR, None))"

end
