(* ===== verification/Epcs_Disk_Props.thy ===== *)
theory Epcs_Disk_Props
  imports Epcs_Disk
begin

text \<open>
  The disk over the flash refines a block device: \<open>image\<close> is the array of its bytes, sector after sector.
\<close>

lemma be_addr_bytes: "unat addr < 2 ^ 24 \<Longrightarrow> be_addr (addr_bytes addr) = unat addr"
  by (simp add: addr_bytes_def be_addr_3)

lemma length_addr_bytes [simp]: "length (addr_bytes addr) = 3"
  by (simp add: addr_bytes_def)

section \<open>Writing sectors\<close>

text \<open>The chip the disk is made for: addresses of three bytes, pages of 256 bytes and blocks of the size of a sector.\<close>

definition disk_chip :: "('d, 'b) board \<Rightarrow> bool" where
  "disk_chip R \<longleftrightarrow> addr_len (b_chip R) = 3 \<and> chip_page (b_chip R) = 256 \<and> erase_op (b_chip R) = 0x20 \<and>
     erase_size (b_chip R) = 4096 \<and> jedec (b_chip R) \<noteq> [] \<and> length (jedec (b_chip R)) = 3"

lemma wait_written_ok:
  "flash_holds R img sp \<Longrightarrow> \<exists>d. wait_written (b_io R) (b_pfc R) sp = Some (sp\<lparr>dev := d\<rparr>, 0) \<and> flash_ready R img (sp\<lparr>dev := d\<rparr>)"
proof (induction "busy (b_chip R) (b_bus R (dev sp))" arbitrary: sp rule: less_induct)
  case less
  from send_status [OF less.prems, of 2] obtain d rs where
    1: "command R 1 [0x05] 2 0 sp = Some (sp\<lparr>dev := d\<rparr>, 0, rs)" "flash_holds R img (sp\<lparr>dev := d\<rparr>)" "length rs = 2"
      "busy (b_chip R) (b_bus R d) \<le> busy (b_chip R) (b_bus R (dev sp)) - 1" "last rs AND 1 = 0 \<longleftrightarrow> busy (b_chip R) (b_bus R d) = 0"
    by auto
  have l: "last rs = rs ! 1" using 1(3) by (cases rs) (auto simp: last_conv_nth)
  show ?case
  proof (cases "busy (b_chip R) (b_bus R d) = 0")
    case True
    with 1 l show ?thesis by (auto simp: wait_written.simps [of _ _ sp] CMD_RDSR_def flash_ready_def)
  next
    case False
    with 1(4) have "busy (b_chip R) (b_bus R (dev (sp\<lparr>dev := d\<rparr>))) < busy (b_chip R) (b_bus R (dev sp))" by simp
    from less.hyps [OF this 1(2)] 1 l False show ?thesis by (auto simp: wait_written.simps [of _ _ sp] CMD_RDSR_def)
  qed
qed

lemma erase_turn:
  assumes "flash_ready R img sp" "disk_chip R" "unat addr < 2 ^ 24" "unat addr < chip_size (b_chip R)"
  shows "\<exists>d. write_turn (b_io R) (b_pfc R) (-1) addr buff sp = Some (sp\<lparr>dev := d\<rparr>, 0, addr, buff) \<and>
    flash_ready R (erased 4096 (unat addr) img) (sp\<lparr>dev := d\<rparr>)"
proof -
  from send_enable [OF assms(1)] obtain d1 bs where
    1: "command R 1 [0x06] 0 0 sp = Some (sp\<lparr>dev := d1\<rparr>, 0, bs)" "flash_ready R img (sp\<lparr>dev := d1\<rparr>)" "enabled (b_chip R) (b_bus R d1)" by auto
  have c: "addr_len (b_chip R) = 3" "erase_op (b_chip R) = 0x20" "erase_size (b_chip R) = 4096" using assms(2) by (simp_all add: disk_chip_def)
  from send_erase [OF 1(2), of "addr_bytes addr" 4 "0x20"] 1(3) c assms(3,4) obtain d2 rs where
    2: "command R 4 (0x20 # addr_bytes addr) 0 0 (sp\<lparr>dev := d1\<rparr>) = Some (sp\<lparr>dev := d2\<rparr>, 0, rs)"
      "flash_holds R (erased 4096 (unat addr) img) (sp\<lparr>dev := d2\<rparr>)"
    by (auto simp: be_addr_bytes)
  from wait_written_ok [OF 2(2)] 1(1) 2(1) show ?thesis
    by (auto simp: write_turn_def erase_sector_def CMD_WREN_def CMD_ERASE_def)
qed

lemma program_turn:
  assumes "flash_ready R img sp" "disk_chip R" "unat addr + 256 \<le> 2 ^ 24" "unat addr < chip_size (b_chip R)" "unat addr mod 256 = 0"
    "256 \<le> length buff" "page \<ge> 0"
  shows "\<exists>d. write_turn (b_io R) (b_pfc R) page addr buff sp = Some (sp\<lparr>dev := d\<rparr>, 0, addr + 256, drop 256 buff) \<and>
    flash_ready R (programmed (unat addr) (take 256 buff) img) (sp\<lparr>dev := d\<rparr>)"
proof -
  from send_enable [OF assms(1)] obtain d1 bs where
    1: "command R 1 [0x06] 0 0 sp = Some (sp\<lparr>dev := d1\<rparr>, 0, bs)" "flash_ready R img (sp\<lparr>dev := d1\<rparr>)" "enabled (b_chip R) (b_bus R d1)" by auto
  have c: "addr_len (b_chip R) = 3" "chip_page (b_chip R) = 256" using assms(2) by (simp_all add: disk_chip_def)
  have a: "be_addr (addr_bytes addr) = unat addr" using assms(3) by (intro be_addr_bytes) simp
  from send_program [OF 1(2), of "addr_bytes addr" 4 256 buff] 1(3) c assms(4,5,6) a obtain sp' d2 rs1 rs2 where
    2: "command R 4 (0x02 # addr_bytes addr) 0 PERIDOT_SPI_FLASH_MERGE (sp\<lparr>dev := d1\<rparr>) = Some (sp', 0, rs1)"
      "command R 256 buff 0 0 sp' = Some (sp\<lparr>dev := d2\<rparr>, 0, rs2)"
      "flash_holds R (programmed (unat addr) (take 256 buff) img) (sp\<lparr>dev := d2\<rparr>)"
    by auto
  from wait_written_ok [OF 2(3)] 1(1) 2(1,2) assms(7) show ?thesis
    by (auto simp: write_turn_def program_page_def CMD_WREN_def CMD_PROG_def PAGE_SIZE_def)
qed

lemma program_turns:
  assumes "disk_chip R"
  shows "flash_ready R img sp \<Longrightarrow> \<forall>p \<in> set pages. p \<ge> 0 \<Longrightarrow> unat addr + 256 * length pages \<le> 2 ^ 24 \<Longrightarrow>
    unat addr + 256 * length pages \<le> chip_size (b_chip R) \<Longrightarrow> unat addr mod 256 = 0 \<Longrightarrow> 256 * length pages \<le> length buff \<Longrightarrow>
    \<exists>d. write_turns (b_io R) (b_pfc R) pages addr buff sp =
        Some (sp\<lparr>dev := d\<rparr>, 0, addr + 256 * word_of_nat (length pages), drop (256 * length pages) buff) \<and>
      flash_ready R (programmed (unat addr) (take (256 * length pages) buff) img) (sp\<lparr>dev := d\<rparr>)"
proof (induction pages arbitrary: addr buff img sp)
  case Nil
  then show ?case by (intro exI [of _ "dev sp"]) simp
next
  case (Cons p pages)
  from program_turn [OF Cons.prems(1) assms, of addr buff p] Cons.prems(2-6) obtain d1 where
    1: "write_turn (b_io R) (b_pfc R) p addr buff sp = Some (sp\<lparr>dev := d1\<rparr>, 0, addr + 256, drop 256 buff)"
      "flash_ready R (programmed (unat addr) (take 256 buff) img) (sp\<lparr>dev := d1\<rparr>)" by auto
  have a: "unat (addr + 256) = unat addr + 256" using Cons.prems(3) by (intro unat_add_lem [THEN iffD1, THEN trans]) simp_all
  have l: "256 * length pages \<le> length (drop 256 buff)" using Cons.prems(6) unfolding length_drop by (intro add_le_imp_le_diff) simp
  from Cons.IH [OF 1(2) _ _ _ _ l, of "addr + 256"] Cons.prems a obtain d2 where
    2: "write_turns (b_io R) (b_pfc R) pages (addr + 256) (drop 256 buff) (sp\<lparr>dev := d1\<rparr>) =
        Some (sp\<lparr>dev := d2\<rparr>, 0, addr + 256 + 256 * word_of_nat (length pages), drop (256 * length pages) (drop 256 buff))"
      "flash_ready R (programmed (unat addr + 256) (take (256 * length pages) (drop 256 buff))
        (programmed (unat addr) (take 256 buff) img)) (sp\<lparr>dev := d2\<rparr>)"
    by auto
  have "take 256 buff @ take (256 * length pages) (drop 256 buff) = take (256 * length (p # pages)) buff"
    by (simp add: take_add)
  moreover have "length (take 256 buff) = 256" using Cons.prems(6) by simp
  ultimately have "flash_ready R (programmed (unat addr) (take (256 * length (p # pages)) buff) img) (sp\<lparr>dev := d2\<rparr>)"
    using programmed_append [of "unat addr" "take 256 buff"] 2(2) by metis
  with 1(1) 2(1) show ?case by (auto simp: algebra_simps)
qed

text \<open>A whole sector, and several.\<close>

lemma sector_ok:
  assumes "flash_ready R img sp" "disk_chip R" "unat addr + 4096 \<le> 2 ^ 24" "unat addr + 4096 \<le> chip_size (b_chip R)"
    "unat addr mod 4096 = 0" "4096 \<le> length buff"
  shows "\<exists>d. write_turns (b_io R) (b_pfc R) [-1..uint (SECT_SIZE div PAGE_SIZE) - 1] addr buff sp =
      Some (sp\<lparr>dev := d\<rparr>, 0, addr + 4096, drop 4096 buff) \<and>
    flash_ready R (overwrite (unat addr) (take 4096 buff) img) (sp\<lparr>dev := d\<rparr>)"
proof -
  have p: "[-1..uint (SECT_SIZE div PAGE_SIZE) - 1] = -1 # [0..15]" by (simp add: SECT_SIZE_def PAGE_SIZE_def upto_rec1)
  from erase_turn [OF assms(1,2), of addr buff] assms(3,4) obtain d1 where
    1: "write_turn (b_io R) (b_pfc R) (-1) addr buff sp = Some (sp\<lparr>dev := d1\<rparr>, 0, addr, buff)"
      "flash_ready R (erased 4096 (unat addr) img) (sp\<lparr>dev := d1\<rparr>)" by auto
  have "unat addr mod 256 = 0" using assms(5) mod_mod_cancel [of 256 4096 "unat addr"] by simp
  with program_turns [OF assms(2) 1(2), of "[0..15]" addr buff] assms(3,4,6) obtain d2 where
    2: "write_turns (b_io R) (b_pfc R) [0..15] addr buff (sp\<lparr>dev := d1\<rparr>) = Some (sp\<lparr>dev := d2\<rparr>, 0, addr + 4096, drop 4096 buff)"
      "flash_ready R (programmed (unat addr) (take 4096 buff) (erased 4096 (unat addr) img)) (sp\<lparr>dev := d2\<rparr>)"
    by auto
  with 1(1) assms(5,6) show ?thesis unfolding p by (auto simp: programmed_erased)
qed

lemma sectors_ok:
  assumes "disk_chip R"
  shows "flash_ready R img sp \<Longrightarrow> unat addr + 4096 * n \<le> 2 ^ 24 \<Longrightarrow> unat addr + 4096 * n \<le> chip_size (b_chip R) \<Longrightarrow>
    unat addr mod 4096 = 0 \<Longrightarrow> 4096 * n \<le> length buff \<Longrightarrow>
    \<exists>d. write_sectors (b_io R) (b_pfc R) n addr buff sp = Some (sp\<lparr>dev := d\<rparr>, 0) \<and>
      flash_ready R (overwrite (unat addr) (take (4096 * n) buff) img) (sp\<lparr>dev := d\<rparr>)"
proof (induction n arbitrary: addr buff img sp)
  case 0
  then show ?case by (intro exI [of _ "dev sp"]) simp
next
  case (Suc n)
  from sector_ok [OF Suc.prems(1) assms, of addr buff] Suc.prems(2-5) obtain d1 where
    1: "write_turns (b_io R) (b_pfc R) [-1..uint (SECT_SIZE div PAGE_SIZE) - 1] addr buff sp =
        Some (sp\<lparr>dev := d1\<rparr>, 0, addr + 4096, drop 4096 buff)"
      "flash_ready R (overwrite (unat addr) (take 4096 buff) img) (sp\<lparr>dev := d1\<rparr>)" by auto
  have a: "unat (addr + 4096) = unat addr + 4096" using Suc.prems(2) by (intro unat_add_lem [THEN iffD1, THEN trans]) simp_all
  have l: "4096 * n \<le> length (drop 4096 buff)" using Suc.prems(5) unfolding length_drop by (intro add_le_imp_le_diff) simp
  from Suc.IH [OF 1(2) _ _ _ l, of "addr + 4096"] Suc.prems a obtain d2 where
    2: "write_sectors (b_io R) (b_pfc R) n (addr + 4096) (drop 4096 buff) (sp\<lparr>dev := d1\<rparr>) = Some (sp\<lparr>dev := d2\<rparr>, 0)"
      "flash_ready R (overwrite (unat addr + 4096) (take (4096 * n) (drop 4096 buff)) (overwrite (unat addr) (take 4096 buff) img)) (sp\<lparr>dev := d2\<rparr>)"
    by auto
  have "take 4096 buff @ take (4096 * n) (drop 4096 buff) = take (4096 * Suc n) buff" by (simp add: take_add)
  moreover have "length (take 4096 buff) = 4096" using Suc.prems(5) by simp
  ultimately have "flash_ready R (overwrite (unat addr) (take (4096 * Suc n) buff) img) (sp\<lparr>dev := d2\<rparr>)"
    using overwrite_append [of "unat addr" "take 4096 buff"] 2(2) by metis
  with 1(1) 2(1) show ?case by (auto simp del: upto.simps)
qed

section \<open>The disk as a block device\<close>

text \<open>The specification: a number of sectors and their contents.\<close>

type_synonym block_dev = "nat \<times> (nat \<Rightarrow> byte)"

definition bd_read :: "nat \<Rightarrow> nat \<Rightarrow> block_dev \<Rightarrow> byte list option" where
  "bd_read sector count bd = (if sector + count \<le> fst bd then Some (map (snd bd) [4096 * sector..<4096 * (sector + count)]) else None)"

definition bd_write :: "nat \<Rightarrow> nat \<Rightarrow> byte list \<Rightarrow> block_dev \<Rightarrow> block_dev option" where
  "bd_write sector count buff bd =
     (if sector + count \<le> fst bd then Some (fst bd, overwrite (4096 * sector) (take (4096 * count) buff) (snd bd)) else None)"

text \<open>The disk: from sector 128 of the flash on. \<open>img\<close> are the contents of the whole flash.\<close>

definition disk_ok :: "('d, 'b) board \<Rightarrow> (nat \<Rightarrow> byte) \<Rightarrow> 'd disk \<Rightarrow> bool" where
  "disk_ok R img s \<longleftrightarrow> flash_ready R img (flash_sp s) \<and> disk_chip R \<and> epcs_start_sector s = 128 \<and>
     128 < unat (epcs_end_sector s) \<and> unat (epcs_end_sector s) \<le> 4096 \<and> 4096 * unat (epcs_end_sector s) \<le> chip_size (b_chip R)"

definition disk_view :: "(nat \<Rightarrow> byte) \<Rightarrow> 'd disk \<Rightarrow> block_dev" where
  "disk_view img s = (unat (epcs_end_sector s) - 128, \<lambda>i. img (0x80000 + i))"

lemma view_parts:
  "fst (disk_view img s) = unat (epcs_end_sector s) - 128" "snd (disk_view img s) i = img (0x80000 + i)"
  by (simp_all add: disk_view_def)

text \<open>The sector numbers of the code: \<open>s + 128\<close> and its shift, without overflow.\<close>

lemma sector_words:
  assumes "unat sector + unat count < 2 ^ 32 - 128"
  shows "unat (sector + 128 :: u32) = unat sector + 128" "unat (sector + 128 + count) = unat sector + 128 + unat count"
proof -
  show a: "unat (sector + 128) = unat sector + 128" using assms by (intro unat_add_lem [THEN iffD1, THEN trans]) simp_all
  show "unat (sector + 128 + count) = unat sector + 128 + unat count"
    using assms a by (intro unat_add_lem [THEN iffD1, THEN trans]) simp_all
qed

lemma unat_shl12: "unat w \<le> 4096 \<Longrightarrow> unat (shl w 12) = 4096 * unat w" for w :: u32
  by (subst unsigned_push_bit_eq) (simp add: push_bit_eq_mult take_bit_nat_eq_self mult.commute)

lemma write_count:
  assumes "unat count \<le> 4096"
  shows "unat (signed_drop_bit SECT_SHIFT (shl count SECT_SHIFT)) = unat (count :: u32)"
proof -
  have "uint count \<le> 4096" using assms by (metis of_nat_le_iff of_nat_numeral uint_nat)
  moreover from this have "uint (shl count 12) = 4096 * uint count"
    by (subst unsigned_push_bit_eq) (simp add: push_bit_eq_mult take_bit_int_eq_self)
  ultimately have "sint (shl count 12) = signed_take_bit 31 (4096 * uint count)" by (simp add: sint_uint)
  also have "\<dots> = 4096 * uint count"
    using \<open>uint count \<le> 4096\<close> uint_ge_0 [of count] by (intro signed_take_bit_int_eq_self; simp; linarith)
  finally have "sint (shl count 12) = 4096 * uint count" .
  then have "sint (signed_drop_bit 12 (shl count 12)) = uint count" by (simp add: sint_signed_drop_bit_eq drop_bit_eq_div)
  from arg_cong [OF this, of "word_of_int :: int \<Rightarrow> u32"] have "signed_drop_bit 12 (shl count 12) = count" by simp
  then show ?thesis by (simp only: SECT_SHIFT_def)
qed

lemma raw_read_ok:
  assumes "flash_ready R img sp" "disk_chip R" "unat addr < 2 ^ 24" "unat addr + unat len \<le> chip_size (b_chip R)"
  shows "\<exists>d. epcs_fatfs_raw_read (b_io R) (b_pfc R) addr len sp = Some (sp\<lparr>dev := d\<rparr>, 0, map img [unat addr..<unat addr + unat len]) \<and>
    flash_ready R img (sp\<lparr>dev := d\<rparr>)"
  using send_read(2) [OF assms(1), of "addr_bytes addr" len 5 "0xff"] assms(2-4)
  by (simp add: epcs_fatfs_raw_read_def CMD_FREAD_def be_addr_bytes disk_chip_def)

lemma map_shift: "map img [k + a..<k + b] = map (\<lambda>i. img (k + i)) [a..<b]" for k :: nat
  by (rule nth_equalityI) (simp_all add: add.assoc)

lemma overwrite_shift:
  "(\<lambda>i. overwrite (k + a) bs img (k + i)) = overwrite a bs (\<lambda>i. img (k + i))"
  by (rule ext) (simp add: overwrite_def)

text \<open>A request within the disk, in words.\<close>

lemma request_words:
  assumes "disk_ok R img s" "unat sector + unat count < 2 ^ 32 - 128" "count \<noteq> 0"
  shows "sector + 128 + count > epcs_end_sector s \<longleftrightarrow> \<not> unat sector + unat count \<le> fst (disk_view img s)"
    "unat sector + unat count \<le> fst (disk_view img s) \<Longrightarrow>
      unat (shl (sector + 128) SECT_SHIFT) = 0x80000 + 4096 * unat sector \<and> unat (shl count SECT_SHIFT) = 4096 * unat count \<and>
      unat (shl (sector + 128) SECT_SHIFT) < 2 ^ 24 \<and> unat (shl (sector + 128) SECT_SHIFT) + 4096 * unat count \<le> 2 ^ 24 \<and>
      unat (shl (sector + 128) SECT_SHIFT) + 4096 * unat count \<le> chip_size (b_chip R) \<and> unat count \<le> 4096"
proof -
  note w = sector_words [OF assms(2)]
  have st: "128 < unat (epcs_end_sector s)" "unat (epcs_end_sector s) \<le> 4096" "4096 * unat (epcs_end_sector s) \<le> chip_size (b_chip R)"
    using assms(1) by (simp_all add: disk_ok_def)
  show "sector + 128 + count > epcs_end_sector s \<longleftrightarrow> \<not> unat sector + unat count \<le> fst (disk_view img s)"
    using w st(1) by (simp add: word_less_nat_alt disk_view_def) arith
  assume "unat sector + unat count \<le> fst (disk_view img s)"
  then have le: "unat sector + 128 + unat count \<le> unat (epcs_end_sector s)" using st(1) by (simp add: disk_view_def)
  with st(2) w(1) have b: "unat (sector + 128) \<le> 4096" "unat count \<le> 4096" by linarith+
  have a: "unat (shl (sector + 128) 12) = 0x80000 + 4096 * unat sector" "unat (shl count 12) = 4096 * unat count"
    using unat_shl12 [OF b(1)] unat_shl12 [OF b(2)] w(1) by simp_all
  have "unat count > 0" using assms(3) by (simp add: unat_gt_0)
  with a le st(2,3) b(2) show "unat (shl (sector + 128) SECT_SHIFT) = 0x80000 + 4096 * unat sector \<and> unat (shl count SECT_SHIFT) = 4096 * unat count \<and>
      unat (shl (sector + 128) SECT_SHIFT) < 2 ^ 24 \<and> unat (shl (sector + 128) SECT_SHIFT) + 4096 * unat count \<le> 2 ^ 24 \<and>
      unat (shl (sector + 128) SECT_SHIFT) + 4096 * unat count \<le> chip_size (b_chip R) \<and> unat count \<le> 4096"
    unfolding SECT_SHIFT_def by simp
qed

lemma disk_read_ok:
  assumes "disk_ok R img s" "unat sector + unat count < 2 ^ 32 - 128" "count \<noteq> 0"
  shows "case bd_read (unat sector) (unat count) (disk_view img s) of
      None \<Rightarrow> disk_read (b_io R) (b_pfc R) EPCS sector count s = Some (s, RES_PARERR, [])
    | Some bytes \<Rightarrow> \<exists>s'. disk_read (b_io R) (b_pfc R) EPCS sector count s = Some (s', RES_OK, bytes) \<and>
        disk_ok R img s' \<and> disk_view img s' = disk_view img s"
proof -
  note w = request_words [OF assms]
  have st: "epcs_start_sector s = 128" "flash_ready R img (flash_sp s)" "disk_chip R"
    using assms(1) by (simp_all add: disk_ok_def)
  show ?thesis
  proof (cases "unat sector + unat count \<le> fst (disk_view img s)")
    case False
    with w(1) st(1) show ?thesis by (simp add: bd_read_def disk_read_def EPCS_disk_read_def)
  next
    case True
    note a = w(2) [OF True]
    from raw_read_ok [OF st(2,3), of "shl (sector + 128) SECT_SHIFT" "shl count SECT_SHIFT"] a obtain d where
      r: "epcs_fatfs_raw_read (b_io R) (b_pfc R) (shl (sector + 128) SECT_SHIFT) (shl count SECT_SHIFT) (flash_sp s) =
          Some ((flash_sp s)\<lparr>dev := d\<rparr>, 0, map img [0x80000 + 4096 * unat sector..<0x80000 + 4096 * unat sector + 4096 * unat count])"
        "flash_ready R img ((flash_sp s)\<lparr>dev := d\<rparr>)"
      by auto
    have "bd_read (unat sector) (unat count) (disk_view img s) =
        Some (map img [0x80000 + 4096 * unat sector..<0x80000 + 4096 * unat sector + 4096 * unat count])"
      using True map_shift [of img "0x80000" "4096 * unat sector" "4096 * unat sector + 4096 * unat count"]
      by (simp add: bd_read_def view_parts distrib_left add.assoc)
    moreover have "disk_read (b_io R) (b_pfc R) EPCS sector count s = Some (s\<lparr>flash_sp := (flash_sp s)\<lparr>dev := d\<rparr>\<rparr>, RES_OK,
        map img [0x80000 + 4096 * unat sector..<0x80000 + 4096 * unat sector + 4096 * unat count])"
      using w(1) True st(1) r(1) by (simp add: disk_read_def EPCS_disk_read_def)
    moreover have "disk_ok R img (s\<lparr>flash_sp := (flash_sp s)\<lparr>dev := d\<rparr>\<rparr>)" "disk_view img (s\<lparr>flash_sp := (flash_sp s)\<lparr>dev := d\<rparr>\<rparr>) = disk_view img s"
      using assms(1) r(2) by (simp_all add: disk_ok_def disk_view_def)
    ultimately show ?thesis by simp
  qed
qed

lemma disk_write_ok:
  assumes "disk_ok R img s" "unat sector + unat count < 2 ^ 32 - 128" "count \<noteq> 0" "4096 * unat count \<le> length buff"
  shows "case bd_write (unat sector) (unat count) buff (disk_view img s) of
      None \<Rightarrow> disk_write (b_io R) (b_pfc R) EPCS buff sector count s = Some (s, RES_PARERR)
    | Some bd \<Rightarrow> \<exists>s' img'. disk_write (b_io R) (b_pfc R) EPCS buff sector count s = Some (s', RES_OK) \<and>
        disk_ok R img' s' \<and> disk_view img' s' = bd \<and> (\<forall>i < 0x80000. img' i = img i)"
proof -
  note w = request_words [OF assms(1-3)]
  have st: "epcs_start_sector s = 128" "flash_ready R img (flash_sp s)" "disk_chip R"
    using assms(1) by (simp_all add: disk_ok_def)
  show ?thesis
  proof (cases "unat sector + unat count \<le> fst (disk_view img s)")
    case False
    with w(1) st(1) show ?thesis by (simp add: bd_write_def disk_write_def EPCS_disk_write_def)
  next
    case True
    note a = w(2) [OF True]
    have c: "unat (signed_drop_bit SECT_SHIFT (shl count SECT_SHIFT)) = unat count" using a by (intro write_count) simp
    have "unat (shl (sector + 128) SECT_SHIFT) mod 4096 = 0" using a by simp
    with sectors_ok [OF st(3,2), of "shl (sector + 128) SECT_SHIFT" "unat count" buff] a assms(4) obtain d where
      r: "write_sectors (b_io R) (b_pfc R) (unat count) (shl (sector + 128) SECT_SHIFT) buff (flash_sp s) = Some ((flash_sp s)\<lparr>dev := d\<rparr>, 0)"
        "flash_ready R (overwrite (0x80000 + 4096 * unat sector) (take (4096 * unat count) buff) img) ((flash_sp s)\<lparr>dev := d\<rparr>)"
      by auto
    let ?img = "overwrite (0x80000 + 4096 * unat sector) (take (4096 * unat count) buff) img"
    let ?s = "s\<lparr>flash_sp := (flash_sp s)\<lparr>dev := d\<rparr>\<rparr>"
    have "disk_write (b_io R) (b_pfc R) EPCS buff sector count s = Some (?s, RES_OK)"
      using w(1) True st(1) r(1) c by (simp add: disk_write_def EPCS_disk_write_def epcs_fatfs_raw_write_def)
    moreover have "disk_ok R ?img ?s" using assms(1) r(2) by (simp add: disk_ok_def)
    moreover have "bd_write (unat sector) (unat count) buff (disk_view img s) = Some (disk_view ?img ?s)"
      using True by (simp add: bd_write_def disk_view_def overwrite_shift)
    moreover have "\<forall>i < 0x80000. ?img i = img i" by (simp add: overwrite_def)
    ultimately show ?thesis by auto
  qed
qed

section \<open>Properties\<close>

text \<open>C29: The disk refines a block device: a request for at least one sector whose end fits in 32 bits is refused
  as a bad parameter when it does not lie within the disk, and otherwise reads or replaces exactly its
  sectors; \<open>GET_SECTOR_COUNT\<close> is the number of them, and the flash below the disk keeps its contents.\<close>

theorem epcs_disk_refines:
  assumes "disk_ok R img s" "unat sector + unat count < 2 ^ 32 - 128" "count \<noteq> 0"
  shows "(case bd_read (unat sector) (unat count) (disk_view img s) of
      None \<Rightarrow> disk_read (b_io R) (b_pfc R) EPCS sector count s = Some (s, RES_PARERR, [])
    | Some bytes \<Rightarrow> \<exists>s'. disk_read (b_io R) (b_pfc R) EPCS sector count s = Some (s', RES_OK, bytes) \<and>
        disk_ok R img s' \<and> disk_view img s' = disk_view img s) \<and>
    (4096 * unat count \<le> length buff \<longrightarrow>
     (case bd_write (unat sector) (unat count) buff (disk_view img s) of
      None \<Rightarrow> disk_write (b_io R) (b_pfc R) EPCS buff sector count s = Some (s, RES_PARERR)
    | Some bd \<Rightarrow> \<exists>s' img'. disk_write (b_io R) (b_pfc R) EPCS buff sector count s = Some (s', RES_OK) \<and>
        disk_ok R img' s' \<and> disk_view img' s' = bd \<and> (\<forall>i < 0x80000. img' i = img i))) \<and>
    disk_ioctl EPCS GET_SECTOR_COUNT s = (RES_OK, Some (word_of_nat (fst (disk_view img s))))"
proof (intro conjI impI)
  show "disk_ioctl EPCS GET_SECTOR_COUNT s = (RES_OK, Some (word_of_nat (fst (disk_view img s))))"
    using assms(1) by (simp add: disk_ioctl_def EPCS_disk_ioctl_def disk_ok_def view_parts GET_SECTOR_COUNT_def CTRL_SYNC_def of_nat_diff)
qed (use disk_read_ok [OF assms] disk_write_ok [OF assms] in simp_all)

definition ex_disk :: "(nor \<times> u32) disk" where
  "ex_disk = \<lparr>epcs_total_sectors = 512, epcs_start_sector = 128, epcs_end_sector = 512, flash_sp = nor_spi (\<lambda>i. word_of_nat i)\<rparr>"

definition ex_sectors :: "nat \<Rightarrow> byte list" where
  "ex_sectors n = replicate (4096 * n) 7"

lemma ex_sectors [simp]:
  "length (ex_sectors n) = 4096 * n" "i < 4096 * n \<Longrightarrow> ex_sectors n ! i = 7" "take (4096 * n) (ex_sectors n) = ex_sectors n"
  by (simp_all add: ex_sectors_def)

lemma nor_disk_chip: "disk_chip nor_board"
  by (simp add: disk_chip_def nor_board_def nor_chip_def)

lemma ex_disk_ok: "disk_ok nor_board (\<lambda>i. word_of_nat i) ex_disk"
  using nor_ready nor_disk_chip by (simp add: disk_ok_def ex_disk_def) (simp add: nor_board_def nor_chip_def)

theorem epcs_disk_refines_witness:
  "(\<exists>s' img'. disk_write (b_io nor_board) (b_pfc nor_board) EPCS (ex_sectors 2) 382 2 ex_disk = Some (s', RES_OK) \<and>
     disk_ok nor_board img' s' \<and> snd (disk_view img' s') (4096 * 383) = 7 \<and> snd (disk_view img' s') (4096 * 381 + 5) = 5) \<and>
   disk_write (b_io nor_board) (b_pfc nor_board) EPCS (ex_sectors 3) 382 3 ex_disk = Some (ex_disk, RES_PARERR)"
proof
  have v: "fst (disk_view img ex_disk) = 384" for img by (simp add: view_parts ex_disk_def)
  show "\<exists>s' img'. disk_write (b_io nor_board) (b_pfc nor_board) EPCS (ex_sectors 2) 382 2 ex_disk = Some (s', RES_OK) \<and>
     disk_ok nor_board img' s' \<and> snd (disk_view img' s') (4096 * 383) = 7 \<and> snd (disk_view img' s') (4096 * 381 + 5) = 5"
  proof -
    have "take 8192 (ex_sectors 2) = ex_sectors 2" by simp
    with epcs_disk_refines [OF ex_disk_ok, where sector = 382 and count = 2 and buff = "ex_sectors 2"] v obtain s' img' where
      "disk_write (b_io nor_board) (b_pfc nor_board) EPCS (ex_sectors 2) 382 2 ex_disk = Some (s', RES_OK)" "disk_ok nor_board img' s'"
      "disk_view img' s' = (384, overwrite 1564672 (ex_sectors 2) (snd (disk_view (\<lambda>i. word_of_nat i) ex_disk)))"
      by (auto simp: bd_write_def)
    moreover have "snd (disk_view (\<lambda>i. word_of_nat i) ex_disk) i = word_of_nat (0x80000 + i)" for i by (simp add: view_parts)
    ultimately show ?thesis by (auto simp: overwrite_def)
  qed
  show "disk_write (b_io nor_board) (b_pfc nor_board) EPCS (ex_sectors 3) 382 3 ex_disk = Some (ex_disk, RES_PARERR)"
    using epcs_disk_refines [OF ex_disk_ok, where sector = 382 and count = 3 and buff = "ex_sectors 3"] v
    by (simp add: bd_write_def)
qed

text \<open>C30: A sector number of the last 128 ones wraps around to the flash below the disk, where the firmware
  is, and is not refused: one sector there is erased and overwritten.\<close>

theorem epcs_disk_wraps:
  assumes "disk_ok R img s" "sector \<ge> 0xffffff80" "4096 \<le> length buff"
  shows "\<exists>s'. disk_write (b_io R) (b_pfc R) EPCS buff sector 1 s = Some (s', RES_OK) \<and>
    disk_ok R (overwrite (4096 * (unat sector - 0xffffff80)) (take 4096 buff) img) s'"
proof -
  have st: "epcs_start_sector s = 128" "128 < unat (epcs_end_sector s)" "4096 * unat (epcs_end_sector s) \<le> chip_size (b_chip R)"
    "flash_ready R img (flash_sp s)" "disk_chip R"
    using assms(1) by (simp_all add: disk_ok_def)
  have l: "0xffffff80 \<le> unat sector" "unat sector < 2 ^ 32" using assms(2) unsigned_less [of sector] by (simp_all add: word_le_nat_alt)
  have "unat (sector + 128) = (unat sector + 128) mod 2 ^ 32" by (simp add: unat_word_ariths)
  with l have u: "unat (sector + 128) = unat sector - 0xffffff80" by (simp add: mod_if)
  then have u': "unat (sector + 128) < 128" using l(2) by simp
  then have le: "\<not> sector + 128 + 1 > epcs_end_sector s"
    using st(2) unat_add_lem [of "sector + 128" 1] by (simp add: word_less_nat_alt)
  have a: "unat (shl (sector + 128) 12) = 4096 * (unat sector - 0xffffff80)" using unat_shl12 [of "sector + 128"] u u' by simp
  have c: "unat (signed_drop_bit SECT_SHIFT (shl 1 SECT_SHIFT :: u32)) = 1" using write_count [of 1] by simp
  from sectors_ok [OF st(5,4), of "shl (sector + 128) 12" 1 buff] a u u' st(2,3) assms(3) obtain d where
    "write_sectors (b_io R) (b_pfc R) 1 (shl (sector + 128) 12) buff (flash_sp s) = Some ((flash_sp s)\<lparr>dev := d\<rparr>, 0)"
    "flash_ready R (overwrite (4096 * (unat sector - 0xffffff80)) (take 4096 buff) img) ((flash_sp s)\<lparr>dev := d\<rparr>)"
    by auto
  with le c st(1) assms(1) show ?thesis
    by (auto simp: disk_write_def EPCS_disk_write_def epcs_fatfs_raw_write_def SECT_SHIFT_def disk_ok_def)
qed

theorem epcs_disk_wraps_witness:
  "\<exists>s'. disk_write (b_io nor_board) (b_pfc nor_board) EPCS (ex_sectors 1) 0xffffff81 1 ex_disk = Some (s', RES_OK) \<and>
    disk_ok nor_board (overwrite 4096 (ex_sectors 1) (\<lambda>i. word_of_nat i)) s'"
  using epcs_disk_wraps [OF ex_disk_ok, where sector = "0xffffff81" and buff = "ex_sectors 1"] ex_sectors [of 1] by simp

text \<open>Initialising the disk asks the flash for its identification and takes its capacity from it. The disk is
  usable for chips of 1 to 16 MiB that say their size; it is refused when a byte of the identification is ff
  or the chip ends below the start of the disk. A capacity code below 12, such as the 0 read from an idle
  bus that is low, or above 43 makes the code shift by an undefined amount.\<close>

theorem epcs_disk_initializes:
  assumes "flash_ready R img (flash_sp s)" "disk_chip R" "jedec (b_chip R) = [m, t, c]"
  shows "if m = 0xff \<or> t = 0xff \<or> c = 0xff \<or> 12 \<le> unat c \<and> unat c < 20 then
      \<exists>s'. disk_initialize (b_io R) (b_pfc R) EPCS s = Some (s', STA_NOINIT) \<and> flash_ready R img (flash_sp s')
    else if unat c < 12 \<or> 44 \<le> unat c then disk_initialize (b_io R) (b_pfc R) EPCS s = None
    else unat c \<le> 24 \<longrightarrow> chip_size (b_chip R) = 2 ^ unat c \<longrightarrow>
      (\<exists>s'. disk_initialize (b_io R) (b_pfc R) EPCS s = Some (s', 0) \<and> disk_ok R img s' \<and> fst (disk_view img s') = 2 ^ (unat c - 12) - 128)"
proof -
  let ?b = "b_bus R (dev (flash_sp s))"
  have h: "flash_chip (b_slave R) (b_chip R)" "resting (b_chip R) ?b" "busy (b_chip R) ?b = 0"
    using assms(1) by (simp_all add: flash_ready_def flash_holds_def)
  note q = flash_chipD(5) [OF h, of "replicate 3 0"]
  have len: "length (snd (transaction (b_slave R) ([0x9f] @ replicate 3 0) ?b)) = 4"
    by (auto simp: transaction_def split: prod.splits dest!: exchanges_length)
  then have "drop 1 (snd (transaction (b_slave R) ([0x9f] @ replicate 3 0) ?b)) = [m, t, c]"
    using q assms(3) by (simp add: drop_Suc)
  with send_quiet [OF assms(1), of "[0x9f]" 1 3] q obtain d where
    d: "command R 1 [0x9f] 3 0 (flash_sp s) = Some ((flash_sp s)\<lparr>dev := d\<rparr>, 0, [m, t, c])" "flash_ready R img ((flash_sp s)\<lparr>dev := d\<rparr>)"
    by auto
  have st: "shr (EPCS_FATFS_FLASH_START + SECT_SIZE - 1) SECT_SHIFT = 128"
    by (simp add: EPCS_FATFS_FLASH_START_def SECT_SIZE_def SECT_SHIFT_def)
  have sh: "unat (shl 1 k :: u32) = 2 ^ k" if "k < 32" for k
  proof -
    have "unat (word_of_nat (2 ^ k) :: u32) = 2 ^ k" using that by (subst unsigned_of_nat) (simp add: take_bit_nat_eq_self)
    then show ?thesis by (simp add: push_bit_eq_mult)
  qed
  show ?thesis
  proof (cases "m = 0xff \<or> t = 0xff \<or> c = 0xff")
    case True
    with d show ?thesis by (auto simp: disk_initialize_def EPCS_disk_initialize_def CMD_RDID_def)
  next
    case False
    let ?s = "s\<lparr>flash_sp := (flash_sp s)\<lparr>dev := d\<rparr>, epcs_total_sectors := shl 1 (unat c - 12), epcs_start_sector := 128,
      epcs_end_sector := shl 1 (unat c - 12)\<rparr>"
    have i: "disk_initialize (b_io R) (b_pfc R) EPCS s =
      (if 12 \<le> unat c \<and> unat c - 12 < 32 then Some (?s, if shl 1 (unat c - 12) \<le> (128 :: u32) then STA_NOINIT else 0) else None)"
      using d st False by (auto simp: disk_initialize_def EPCS_disk_initialize_def CMD_RDID_def SECT_SHIFT_def Let_def)
    have pow: "(2 :: nat) ^ (unat c - 12) \<le> 2 ^ 7 \<longleftrightarrow> unat c - 12 \<le> 7" by (rule power_increasing_iff) simp
    show ?thesis
    proof (cases "12 \<le> unat c \<and> unat c - 12 < 32")
      case True
      then have le: "shl 1 (unat c - 12) \<le> (128 :: u32) \<longleftrightarrow> unat c < 20" using sh [of "unat c - 12"] pow by (auto simp: word_le_nat_alt)
      show ?thesis
      proof (cases "unat c < 20")
        case True': True
        with True False i le d(2) show ?thesis by auto
      next
        case big: False
        have ok: "disk_ok R img ?s \<and> fst (disk_view img ?s) = 2 ^ (unat c - 12) - 128" if "unat c \<le> 24" "chip_size (b_chip R) = 2 ^ unat c"
        proof -
          from big that(1) have "unat c \<in> {20, 21, 22, 23, 24}" by auto
          then show ?thesis using that(2) sh [of "unat c - 12"] d(2) assms(2) by (auto simp: disk_ok_def disk_view_def)
        qed
        from big True False i le ok show ?thesis by auto
      qed
    next
      case o: False
      with False i show ?thesis by auto
    qed
  qed
qed

theorem epcs_disk_initializes_witness:
  "\<exists>s'. disk_initialize (b_io nor_board) (b_pfc nor_board) EPCS ex_disk = Some (s', 0) \<and>
     disk_ok nor_board (\<lambda>i. word_of_nat i) s' \<and> fst (disk_view (\<lambda>i. word_of_nat i) s') = 384"
proof -
  have "flash_ready nor_board (\<lambda>i. word_of_nat i) (flash_sp ex_disk)" using nor_ready by (simp add: ex_disk_def)
  moreover have "jedec (b_chip nor_board) = [0xef, 0x40, 0x15]" "chip_size (b_chip nor_board) = 2 ^ 21"
    by (simp_all add: nor_board_def nor_chip_def)
  ultimately show ?thesis using epcs_disk_initializes [OF _ nor_disk_chip, where s = ex_disk] by fastforce
qed

end
