(* ===== verification/Spi_Flash.thy ===== *)
theory Spi_Flash
  imports Flash_Chip
begin

text \<open>
  The flash device of the HAL (\<open>peridot_spi_flash.c\<close>). Buffers are the bytes from the pointer on and lengths
  are \<open>int\<close>s; \<open>None\<close> is a read past the end of a buffer, an undefined shift or a loop that does not end.
\<close>

definition EFAULT :: int where "EFAULT = 14"
definition INT_MAX :: int where "INT_MAX = 0x7fffffff"

definition CMD_PAGE_PROGRAM :: byte where "CMD_PAGE_PROGRAM = 0x02"
definition CMD_READ_BYTES :: byte where "CMD_READ_BYTES = 0x03"
definition CMD_READ_STATUS :: byte where "CMD_READ_STATUS = 0x05"
definition CMD_WRITE_ENABLE :: byte where "CMD_WRITE_ENABLE = 0x06"
definition CMD_READ_SFDP :: byte where "CMD_READ_SFDP = 0x5a"
definition CMD_READ_JEDECID :: byte where "CMD_READ_JEDECID = 0x9f"
definition CMD_READ_DEVID :: byte where "CMD_READ_DEVID = 0xab"

text \<open>The device: its only region, and the fields of \<open>alt_flash_dev\<close> that the code uses.\<close>

record flash_dev =
  region_offset :: int
  region_size :: int
  number_of_blocks :: int
  block_size :: int
  number_of_regions :: int
  dev_length :: int
  registered :: bool
  erase_inst :: byte
  four_bytes_mode :: bool
  page_size :: u16

section \<open>Querying the chip\<close>

text \<open>Division by the power of two in the lowest bits of the denominator, towards zero.\<close>

function div_loop :: "int \<Rightarrow> nat \<Rightarrow> int" where
  "div_loop numerator denominator =
     (if denominator = 0 \<or> odd denominator then numerator else div_loop (if numerator < 0 then - (- numerator div 2) else numerator div 2) (denominator div 2))"
  by auto
termination by (relation "measure snd") (auto elim!: evenE)

declare div_loop.simps [simp del]

definition div_power2 :: "int \<Rightarrow> u32 \<Rightarrow> int" where
  "div_power2 numerator denominator = (if denominator = 0 then -1 else div_loop numerator (unat denominator))"

definition le32 :: "byte list \<Rightarrow> nat \<Rightarrow> u32" where
  "le32 bs i = word_of_int (uint (bs ! (4 * i)) + 256 * uint (bs ! (4 * i + 1)) + 65536 * uint (bs ! (4 * i + 2)) + 16777216 * uint (bs ! (4 * i + 3)))"

definition peridot_spi_flash_read_sfdp :: "'d io \<Rightarrow> u32 \<Rightarrow> byte \<Rightarrow> int \<Rightarrow> 'd spi \<Rightarrow> ('d spi \<times> int \<times> byte list) option" where
  "peridot_spi_flash_read_sfdp io pfc address len sp =
     do { (sp, result, buffer) \<leftarrow> peridot_spi_flash_command io pfc 5 [CMD_READ_SFDP, 0, 0, address, 0] (word_of_int len) 0 sp;
          Some (sp, if result < 0 then result else len, buffer) }"

text \<open>The parameter headers \<open>index\<close>, ..., \<open>num_params\<close>; the address of a header is cut to a byte.\<close>

fun search_headers :: "'d io \<Rightarrow> u32 \<Rightarrow> byte \<Rightarrow> byte \<Rightarrow> nat list \<Rightarrow> 'd spi \<Rightarrow> ('d spi \<times> int) option" where
  "search_headers io pfc id_lsb id_msb [] sp = Some (sp, - ENOTSUP)"
| "search_headers io pfc id_lsb id_msb (index # indices) sp =
     do { (sp, result, buf) \<leftarrow> peridot_spi_flash_read_sfdp io pfc (word_of_nat (index * 8)) 8 sp;
          if result < 0 then Some (sp, result)
          else if le32 buf 0 AND 0xff = ucast id_lsb \<and> shr (le32 buf 1) 24 = ucast id_msb then Some (sp, uint (le32 buf 1 AND 0xff))
          else search_headers io pfc id_lsb id_msb indices sp }"

definition peridot_spi_flash_search_sfdp_table :: "'d io \<Rightarrow> u32 \<Rightarrow> byte \<Rightarrow> byte \<Rightarrow> 'd spi \<Rightarrow> ('d spi \<times> int) option" where
  "peridot_spi_flash_search_sfdp_table io pfc id_lsb id_msb sp =
     do { (sp, result, buf) \<leftarrow> peridot_spi_flash_read_sfdp io pfc 0 8 sp;
          if result < 0 then Some (sp, result)
          else if le32 buf 0 \<noteq> 0x50444653 \<or> le32 buf 1 AND 0xffff < 0x0106 then Some (sp, - ENOTSUP)
          else search_headers io pfc id_lsb id_msb [1..<unat (shr (le32 buf 1) 16 AND 0xff) + 1] sp }"

definition shift_left_1 :: "u32 \<Rightarrow> u32 option" where
  "shift_left_1 n = (if n < 32 then Some (shl 1 (unat n)) else None)"

text \<open>The erase types: size exponent in the low byte, instruction in the high byte.\<close>

fun smallest_erase :: "u32 list \<Rightarrow> flash_dev \<Rightarrow> flash_dev option" where
  "smallest_erase [] f = Some f"
| "smallest_erase (data # types) f =
     do { let shift = data AND 0xff;
          size \<leftarrow> shift_left_1 shift;
          smallest_erase types
            (if shift > 0 \<and> size < word_of_int (block_size f)
             then f\<lparr>block_size := sint size, erase_inst := ucast (shr data 8)\<rparr> else f) }"

definition peridot_spi_flash_query_sfdp :: "'d io \<Rightarrow> u32 \<Rightarrow> flash_dev \<Rightarrow> 'd spi \<Rightarrow> ('d spi \<times> flash_dev \<times> int) option" where
  "peridot_spi_flash_query_sfdp io pfc f sp =
     do { (sp, result) \<leftarrow> peridot_spi_flash_search_sfdp_table io pfc 0x00 0xff sp;
          if result < 0 then Some (sp, f, result)
          else
            do { (sp, result, basic) \<leftarrow> peridot_spi_flash_read_sfdp io pfc (word_of_int result) 64 sp;
                 if result < 0 then Some (sp, f, result)
                 else
                   do { let b = le32 basic;
                        size \<leftarrow> (if b 1 AND 0x80000000 \<noteq> 0 then shift_left_1 ((b 1 AND 0x7fffffff) - 3) else Some (shr (b 1) 3 + 1));
                        f \<leftarrow> smallest_erase [b 7 AND 0xffff, shr (b 7) 16, b 8 AND 0xffff, shr (b 8) 16]
                          (f\<lparr>region_offset := 0, four_bytes_mode := (shr (b 0) 17 AND 3 = 2),
                             page_size := ucast (shl 1 (unat (shr (b 10) 4 AND 0xf)) :: u32), region_size := sint size, block_size := INT_MAX\<rparr>);
                        if block_size f = INT_MAX then Some (sp, f, - ENOTSUP)
                        else Some (sp, f\<lparr>number_of_blocks := div_power2 (region_size f) (word_of_int (block_size f)), number_of_regions := 1\<rparr>, 0) } } }"

text \<open>The table of \<open>query_devid\<close>: block size and number of blocks.\<close>

definition devid_table :: "byte \<Rightarrow> u32 \<Rightarrow> (int \<times> int) option" where
  "devid_table device_id jedec_id =
     (if device_id = 0x16 then Some (if jedec_id = 0x014017 then (4096, 2048) else (65536, 128))
      else if device_id = 0x14 then Some (if jedec_id = 0x014015 then (4096, 512) else (65536, 32))
      else if device_id = 0x13 then Some (if jedec_id = 0x014014 then (4096, 256) else (65536, 16))
      else if device_id = 0x12 then Some (if jedec_id = 0x014013 then (4096, 128) else (65536, 8))
      else if device_id = 0x10 then Some (32768, 4)
      else None)"

definition peridot_spi_flash_query_devid :: "'d io \<Rightarrow> u32 \<Rightarrow> flash_dev \<Rightarrow> 'd spi \<Rightarrow> ('d spi \<times> flash_dev \<times> int) option" where
  "peridot_spi_flash_query_devid io pfc f sp =
     do { (sp, result, did) \<leftarrow> peridot_spi_flash_command io pfc 3 [CMD_READ_DEVID, 0, 0] 1 0 sp;
          if result < 0 then Some (sp, f, result)
          else
            do { (sp, result, buf) \<leftarrow> peridot_spi_flash_command io pfc 1 [CMD_READ_JEDECID] 3 0 sp;
                 if result < 0 then Some (sp, f, result)
                 else
                   let jedec_id = shl (ucast (buf ! 0)) 16 OR shl (ucast (buf ! 1)) 8 OR ucast (buf ! 2);
                       f = f\<lparr>page_size := 256, four_bytes_mode := False\<rparr> in
                   Some (case devid_table (did ! 0) jedec_id of
                       None \<Rightarrow> (sp, f, - ENOTSUP)
                     | Some (sz, n) \<Rightarrow>
                         (sp, f\<lparr>block_size := sz, number_of_blocks := n, erase_inst := (if sz = 4096 then 0x20 else 0xd8),
                                region_offset := 0, region_size := n * sz, number_of_regions := 1\<rparr>, 0)) } }"

definition peridot_spi_flash_query :: "'d io \<Rightarrow> u32 \<Rightarrow> flash_dev \<Rightarrow> 'd spi \<Rightarrow> ('d spi \<times> flash_dev \<times> int) option" where
  "peridot_spi_flash_query io pfc f sp =
     do { (sp, _, _) \<leftarrow> peridot_spi_flash_command io pfc 2 [CMD_READ_STATUS, 0] 0 0 sp;
          (sp, f, result) \<leftarrow> peridot_spi_flash_query_sfdp io pfc f sp;
          if result = 0 then Some (sp, f, 0)
          else
            do { (sp, f, result) \<leftarrow> peridot_spi_flash_query_devid io pfc f sp;
                 Some (sp, f, if result = 0 then 0 else - ENODEV) } }"

section \<open>Reading and comparing\<close>

definition peridot_spi_flash_set_addr :: "flash_dev \<Rightarrow> int \<Rightarrow> byte list" where
  "peridot_spi_flash_set_addr f offset =
     (let a = word_of_int offset :: u32 in
      if four_bytes_mode f then [ucast (shr a 24), ucast (shr a 16), ucast (shr a 8), ucast a]
      else [ucast (shr a 16), ucast (shr a 8), ucast a])"

text \<open>A command and the address behind it, of the length \<open>set_addr\<close> returns plus one.\<close>

definition addr_command ::
    "'d io \<Rightarrow> u32 \<Rightarrow> flash_dev \<Rightarrow> byte \<Rightarrow> int \<Rightarrow> int \<Rightarrow> u32 \<Rightarrow> 'd spi \<Rightarrow> ('d spi \<times> int \<times> byte list) option" where
  "addr_command io pfc f cmd offset read_len' flags sp =
     (let as = peridot_spi_flash_set_addr f offset in
      peridot_spi_flash_command io pfc (word_of_nat (length as + 1)) (cmd # as) (word_of_int read_len') flags sp)"

text \<open>The sign of the first difference of two blocks of bytes.\<close>

fun memcmp :: "byte list \<Rightarrow> byte list \<Rightarrow> int" where
  "memcmp (b # bs) (c # cs) = (if b = c then memcmp bs cs else if b < c then -1 else 1)"
| "memcmp bs cs = 0"

partial_function (option) compare_loop ::
    "'d io \<Rightarrow> u32 \<Rightarrow> flash_dev \<Rightarrow> int \<Rightarrow> byte list \<Rightarrow> int \<Rightarrow> 'd spi \<Rightarrow> ('d spi \<times> int) option" where
  "compare_loop io pfc f data_offset data len sp =
     (if len \<le> 0 then Some (sp, 0)
      else
        let chunk_len = min 256 len in
        do { (sp, result, buffer) \<leftarrow> addr_command io pfc f CMD_READ_BYTES data_offset chunk_len 0 sp;
             if result < 0 then Some (sp, result)
             else if length data < nat chunk_len then None
             else
               let result = memcmp buffer (take (nat chunk_len) data) in
               if result < 0 then Some (sp, -1)
               else if result > 0 then Some (sp, 1)
               else compare_loop io pfc f (s32 (data_offset + chunk_len)) (drop (nat chunk_len) data) (len - chunk_len) sp })"

definition peridot_spi_flash_compare ::
    "'d io \<Rightarrow> u32 \<Rightarrow> flash_dev \<Rightarrow> int \<Rightarrow> byte list \<Rightarrow> int \<Rightarrow> 'd spi \<Rightarrow> ('d spi \<times> int) option" where
  "peridot_spi_flash_compare io pfc f data_offset data len sp =
     (if data_offset \<ge> region_size f \<or> s32 (data_offset + len) > region_size f then Some (sp, - EFAULT)
      else compare_loop io pfc f data_offset data len sp)"

definition peridot_spi_flash_read :: "'d io \<Rightarrow> u32 \<Rightarrow> flash_dev \<Rightarrow> int \<Rightarrow> int \<Rightarrow> 'd spi \<Rightarrow> ('d spi \<times> int \<times> byte list) option" where
  "peridot_spi_flash_read io pfc f offset len sp =
     (if offset \<ge> region_size f \<or> s32 (offset + len) > region_size f then Some (sp, - EFAULT, [])
      else addr_command io pfc f CMD_READ_BYTES offset len 0 sp)"

text \<open>What is stored through the pointers that are not NULL, and the result.\<close>

definition peridot_spi_flash_get_info :: "flash_dev \<Rightarrow> flash_dev \<times> int \<times> int" where
  "peridot_spi_flash_get_info f = (f, number_of_regions f, 0)"

section \<open>Erasing and writing\<close>

partial_function (option) peridot_spi_flash_wait_busy :: "'d io \<Rightarrow> u32 \<Rightarrow> 'd spi \<Rightarrow> ('d spi \<times> int) option" where
  "peridot_spi_flash_wait_busy io pfc sp =
     do { (sp, result, status) \<leftarrow> peridot_spi_flash_command io pfc 1 [CMD_READ_STATUS] 1 0 sp;
          if result < 0 then Some (sp, result)
          else if status ! 0 AND 1 = 0 then Some (sp, 0)
          else peridot_spi_flash_wait_busy io pfc sp }"

definition peridot_spi_flash_erase_block :: "'d io \<Rightarrow> u32 \<Rightarrow> flash_dev \<Rightarrow> int \<Rightarrow> 'd spi \<Rightarrow> ('d spi \<times> int) option" where
  "peridot_spi_flash_erase_block io pfc f block_offset sp =
     (if block_offset \<ge> dev_length f then Some (sp, - EFAULT)
      else if block_offset AND (block_size f - 1) \<noteq> 0 then Some (sp, - EINVAL)
      else
        do { (sp, result, _) \<leftarrow> peridot_spi_flash_command io pfc 1 [CMD_WRITE_ENABLE] 0 0 sp;
             if result < 0 then Some (sp, result)
             else
               do { (sp, result, _) \<leftarrow> addr_command io pfc f (erase_inst f) block_offset 0 0 sp;
                    if result < 0 then Some (sp, result) else peridot_spi_flash_wait_busy io pfc sp } })"

text \<open>One turn of \<open>write_block\<close>: a page, or the rest of one.\<close>

definition write_page :: "'d io \<Rightarrow> u32 \<Rightarrow> flash_dev \<Rightarrow> int \<Rightarrow> int \<Rightarrow> byte list \<Rightarrow> 'd spi \<Rightarrow> ('d spi \<times> int) option" where
  "write_page io pfc f data_offset page_length data sp =
     do { (sp, result, _) \<leftarrow> peridot_spi_flash_command io pfc 1 [CMD_WRITE_ENABLE] 0 0 sp;
          if result < 0 then Some (sp, result)
          else
            do { (sp, result, _) \<leftarrow> addr_command io pfc f CMD_PAGE_PROGRAM data_offset 0 PERIDOT_SPI_FLASH_MERGE sp;
                 if result < 0 then Some (sp, result)
                 else
                   do { (sp, result, _) \<leftarrow> peridot_spi_flash_command io pfc (word_of_int page_length) data 0 0 sp;
                        if result < 0 then Some (sp, result) else peridot_spi_flash_wait_busy io pfc sp } } }"

partial_function (option) write_pages ::
    "'d io \<Rightarrow> u32 \<Rightarrow> flash_dev \<Rightarrow> int \<Rightarrow> byte list \<Rightarrow> int \<Rightarrow> 'd spi \<Rightarrow> ('d spi \<times> int) option" where
  "write_pages io pfc f data_offset data len sp =
     (if len \<le> 0 then Some (sp, 0)
      else
        let page_offset = data_offset AND (uint (page_size f) - 1);
            page_length = uint (page_size f) - page_offset in
        do { (sp, result) \<leftarrow> write_page io pfc f data_offset page_length data sp;
             if result < 0 then Some (sp, result)
             else write_pages io pfc f (s32 (data_offset + page_length)) (drop (nat page_length) data) (len - page_length) sp })"

definition peridot_spi_flash_write_block ::
    "'d io \<Rightarrow> u32 \<Rightarrow> flash_dev \<Rightarrow> int \<Rightarrow> int \<Rightarrow> byte list \<Rightarrow> int \<Rightarrow> 'd spi \<Rightarrow> ('d spi \<times> int) option" where
  "peridot_spi_flash_write_block io pfc f block_offset data_offset data len sp =
     (if data_offset \<ge> dev_length f \<or> s32 (data_offset + len) > dev_length f then Some (sp, - EFAULT)
      else write_pages io pfc f data_offset data len sp)"

text \<open>One turn of \<open>write\<close>: a block that differs is erased and written.\<close>

definition write_differing :: "'d io \<Rightarrow> u32 \<Rightarrow> flash_dev \<Rightarrow> int \<Rightarrow> int \<Rightarrow> byte list \<Rightarrow> int \<Rightarrow> 'd spi \<Rightarrow> ('d spi \<times> int) option" where
  "write_differing io pfc f block_offset offset src_addr page_length sp =
     do { (sp, result) \<leftarrow> peridot_spi_flash_compare io pfc f offset src_addr page_length sp;
          if result = 0 then Some (sp, 0)
          else
            do { (sp, result) \<leftarrow> peridot_spi_flash_erase_block io pfc f block_offset sp;
                 if result < 0 then Some (sp, result)
                 else peridot_spi_flash_write_block io pfc f block_offset offset src_addr page_length sp } }"

partial_function (option) write_blocks ::
    "'d io \<Rightarrow> u32 \<Rightarrow> flash_dev \<Rightarrow> int \<Rightarrow> byte list \<Rightarrow> int \<Rightarrow> 'd spi \<Rightarrow> ('d spi \<times> int) option" where
  "write_blocks io pfc f offset src_addr len sp =
     (if len \<le> 0 then Some (sp, 0)
      else
        let block_offset = offset AND NOT (block_size f - 1);
            page_offset = offset AND (block_size f - 1);
            page_length = min len (block_size f - page_offset) in
        do { (sp, result) \<leftarrow> write_differing io pfc f block_offset offset src_addr page_length sp;
             if result < 0 then Some (sp, result)
             else write_blocks io pfc f (s32 (offset + page_length)) (drop (nat page_length) src_addr) (len - page_length) sp })"

definition peridot_spi_flash_write :: "'d io \<Rightarrow> u32 \<Rightarrow> flash_dev \<Rightarrow> int \<Rightarrow> byte list \<Rightarrow> int \<Rightarrow> 'd spi \<Rightarrow> ('d spi \<times> int) option" where
  "peridot_spi_flash_write io pfc f offset src_addr len sp =
     (if offset \<ge> region_size f \<or> s32 (offset + len) > region_size f then Some (sp, - EFAULT)
      else write_blocks io pfc f offset src_addr len sp)"

text \<open>The chip has one region, so the length of the device is the size of it.\<close>

definition peridot_spi_flash_init :: "'d io \<Rightarrow> u32 \<Rightarrow> flash_dev \<Rightarrow> 'd spi \<Rightarrow> ('d spi \<times> flash_dev) option" where
  "peridot_spi_flash_init io pfc f sp =
     do { (sp, f, result) \<leftarrow> peridot_spi_flash_query io pfc f sp;
          Some (sp, if result \<noteq> 0 then f else f\<lparr>dev_length := region_size f, registered := True\<rparr>) }"

end
