(* ===== verification/Spi_Flash_Props.thy ===== *)
theory Spi_Flash_Props
  imports Spi_Flash
begin

text \<open>
  Properties of the flash device: reading, comparing and writing on a chip that keeps to its data sheet, the
  bytes a write reads beyond its source, and the query.
\<close>

section \<open>The device of a chip\<close>

definition pow2 :: "nat \<Rightarrow> bool" where "pow2 n \<longleftrightarrow> (\<exists>k. n = 2 ^ k)"

definition dev_ok :: "('d, 'b) board \<Rightarrow> flash_dev \<Rightarrow> bool" where
  "dev_ok R f \<longleftrightarrow> (let c = b_chip R in
     addr_len c = (if four_bytes_mode f then 4 else 3) \<and> chip_page c = unat (page_size f) \<and> erase_size c = nat (block_size f) \<and>
     erase_op c = erase_inst f \<and> chip_size c = nat (region_size f) \<and> dev_length f = region_size f \<and>
     pow2 (chip_page c) \<and> pow2 (erase_size c) \<and> chip_page c dvd erase_size c \<and> erase_size c dvd chip_size c \<and>
     region_size f < 2 ^ 31 \<and> (\<not> four_bytes_mode f \<longrightarrow> region_size f \<le> 2 ^ 24))"

lemma dev_okD:
  assumes "dev_ok R f"
  shows "addr_len (b_chip R) = (if four_bytes_mode f then 4 else 3)" "chip_page (b_chip R) = unat (page_size f)"
    "erase_size (b_chip R) = nat (block_size f)" "erase_op (b_chip R) = erase_inst f" "chip_size (b_chip R) = nat (region_size f)"
    "dev_length f = region_size f" "pow2 (chip_page (b_chip R))" "pow2 (erase_size (b_chip R))"
    "chip_page (b_chip R) dvd erase_size (b_chip R)" "erase_size (b_chip R) dvd chip_size (b_chip R)" "region_size f < 2 ^ 31"
    "\<not> four_bytes_mode f \<Longrightarrow> region_size f \<le> 2 ^ 24"
  using assms unfolding dev_ok_def Let_def by blast+

lemma pow2_masks:
  assumes "pow2 n"
  shows "int a AND (int n - 1) = int (a mod n)" "int a AND NOT (int n - 1) = int (a - a mod n)" "n > 0"
proof -
  from assms obtain k where k: "n = 2 ^ k" by (auto simp: pow2_def)
  have m: "int n - 1 = mask k" by (simp add: k mask_eq_exp_minus_1)
  have t: "int a AND mask k = int (a mod n)" by (simp add: take_bit_eq_mask [symmetric] take_bit_eq_mod k zmod_int)
  show "int a AND (int n - 1) = int (a mod n)" unfolding m by (rule t)
  have "int a AND NOT (mask k) = push_bit k (drop_bit k (int a))" by (rule bit_eqI) (auto simp: bit_simps)
  also have "\<dots> = int a - (int a AND mask k)" 
    using bits_ident [of k "int a"] unfolding take_bit_eq_mask [symmetric] by linarith
  finally show "int a AND NOT (int n - 1) = int (a - a mod n)" unfolding m t by (simp add: of_nat_diff)
  show "n > 0" by (simp add: k)
qed

lemma be_addr_4:
  "be_addr [ucast (shr a 24), ucast (shr a 16), ucast (shr a 8), ucast a] = unat (a :: u32)"
proof -
  let ?x = "unat a"
  have m: "?x = 256 * (?x div 256) + ?x mod 256" "?x div 256 = 256 * (?x div 65536) + ?x div 256 mod 256"
    "?x div 65536 = 256 * (?x div 16777216) + ?x div 65536 mod 256"
    using div_mult2_eq [of ?x 256 256] div_mult2_eq [of ?x 65536 256] by simp_all
  have "?x div 16777216 < 256" using unsigned_less [of a] by (intro div_less_iff_less_mult [THEN iffD2]) simp_all
  then have "be_addr [ucast (shr a 24), ucast (shr a 16), ucast (shr a 8), ucast a] =
      256 * (256 * (256 * (?x div 16777216) + ?x div 65536 mod 256) + ?x div 256 mod 256) + ?x mod 256"
    by (simp add: be_addr_def unat_ucast_byte unat_shr)
  with m show ?thesis by presburger
qed

lemma set_addr_ok:
  assumes "dev_ok R f" "int a < region_size f"
  shows "length (peridot_spi_flash_set_addr f (int a)) = addr_len (b_chip R)" "be_addr (peridot_spi_flash_set_addr f (int a)) = a"
proof -
  note D = dev_okD [OF assms(1)]
  show "length (peridot_spi_flash_set_addr f (int a)) = addr_len (b_chip R)" by (simp add: peridot_spi_flash_set_addr_def Let_def D(1))
  have u: "unat (word_of_int (int a) :: u32) = a" using assms(2) D(11) by (simp add: unsigned_of_nat take_bit_nat_eq_self)
  show "be_addr (peridot_spi_flash_set_addr f (int a)) = a"
  proof (cases "four_bytes_mode f")
    case True
    then show ?thesis using u by (simp add: peridot_spi_flash_set_addr_def Let_def be_addr_4)
  next
    case False
    with assms(2) D(12) u show ?thesis by (simp add: peridot_spi_flash_set_addr_def Let_def be_addr_3)
  qed
qed

lemma unat_addr_len: "dev_ok R f \<Longrightarrow> unat (word_of_nat (addr_len (b_chip R) + 1) :: u32) = addr_len (b_chip R) + 1"
  by (simp add: dev_okD(1))

lemma s32_off: "dev_ok R f \<Longrightarrow> int a + int n \<le> region_size f \<Longrightarrow> s32 (int a + int n) = int a + int n"
  using dev_okD(11) [of R f] by (intro s32_id) (simp add: is_s32_def)

section \<open>Reading and comparing\<close>

lemma read_ok:
  assumes "flash_ready R img sp" "dev_ok R f" "int a + int n \<le> region_size f" "int a < region_size f"
  shows "\<exists>d. addr_command (b_io R) (b_pfc R) f CMD_READ_BYTES (int a) (int n) 0 sp = Some (sp\<lparr>dev := d\<rparr>, 0, map img [a..<a + n]) \<and>
    flash_ready R img (sp\<lparr>dev := d\<rparr>)"
proof -
  note A = set_addr_ok [OF assms(2,4)] and D = dev_okD [OF assms(2)]
  have n: "unat (word_of_int (int n) :: u32) = n" using assms(3) D(11) by (simp add: unsigned_of_nat take_bit_nat_eq_self)
  have "a + n \<le> chip_size (b_chip R)" using assms(3) D(5) by linarith
  with send_read(1) [OF assms(1) A(1), of "word_of_int (int n)" "word_of_nat (addr_len (b_chip R) + 1)"] A n unat_addr_len [OF assms(2)]
  show ?thesis by (simp add: addr_command_def Let_def CMD_READ_BYTES_def)
qed

lemma memcmp_eq: "length bs = length cs \<Longrightarrow> memcmp bs cs = 0 \<longleftrightarrow> bs = cs"
  by (induction bs cs rule: list_induct2) auto

lemma memcmp_append: "length bs = length cs \<Longrightarrow> memcmp (bs @ bs') (cs @ cs') = (if memcmp bs cs = 0 then memcmp bs' cs' else memcmp bs cs)"
  by (induction bs cs rule: list_induct2) auto

lemma memcmp_cases: "memcmp bs cs = -1 \<or> memcmp bs cs = 0 \<or> memcmp bs cs = 1"
  by (induction bs cs rule: memcmp.induct) auto

lemma compare_loop_ok:
  assumes "dev_ok R f"
  shows "flash_ready R img sp \<Longrightarrow> int a + int n \<le> region_size f \<Longrightarrow> n \<le> length data \<Longrightarrow>
    \<exists>d. compare_loop (b_io R) (b_pfc R) f (int a) data (int n) sp = Some (sp\<lparr>dev := d\<rparr>, memcmp (map img [a..<a + n]) (take n data)) \<and>
      flash_ready R img (sp\<lparr>dev := d\<rparr>)"
proof (induction n arbitrary: a data sp rule: less_induct)
  case (less n)
  show ?case
  proof (cases "n = 0")
    case True
    with less.prems show ?thesis by (intro exI [of _ "dev sp"]) (simp add: compare_loop.simps)
  next
    case False
    define k where "k = min 256 n"
    have k: "min 256 (int n) = int k" by (simp add: k_def)
    have le: "int a + int k \<le> region_size f" "int a < region_size f" "k \<le> n" "n - k < n"
      using less.prems(2) False by (auto simp: k_def)
    from read_ok [OF less.prems(1) assms le(1,2)] obtain d1 where
      1: "addr_command (b_io R) (b_pfc R) f CMD_READ_BYTES (int a) (int k) 0 sp = Some (sp\<lparr>dev := d1\<rparr>, 0, map img [a..<a + k])"
        "flash_ready R img (sp\<lparr>dev := d1\<rparr>)" by auto
    have p: "int (a + k) + int (n - k) \<le> region_size f" "n - k \<le> length (drop k data)" "a + k + (n - k) = a + n"
      using less.prems(2,3) le(3) by simp_all
    from less.IH [OF le(4) 1(2) p(1,2)] obtain d2 where
      2: "compare_loop (b_io R) (b_pfc R) f (int (a + k)) (drop k data) (int (n - k)) (sp\<lparr>dev := d1\<rparr>) =
          Some (sp\<lparr>dev := d2\<rparr>, memcmp (map img [a + k..<a + n]) (take (n - k) (drop k data)))"
        "flash_ready R img (sp\<lparr>dev := d2\<rparr>)"
      unfolding p(3) by auto
    have sp: "map img [a..<a + n] = map img [a..<a + k] @ map img [a + k..<a + n]"
      using upt_add_eq_append [of a "a + k" "n - k"] by (simp add: p(3))
    have td: "take n data = take k data @ take (n - k) (drop k data)" using le(3) take_add [of k "n - k" data] by simp
    have m: "memcmp (map img [a..<a + n]) (take n data) = (if memcmp (map img [a..<a + k]) (take k data) = 0
        then memcmp (map img [a + k..<a + n]) (take (n - k) (drop k data)) else memcmp (map img [a..<a + k]) (take k data))"
      unfolding sp td using less.prems(3) le(3) by (intro memcmp_append) simp
    have s: "s32 (int a + int k) = int (a + k)" using s32_off [OF assms le(1)] by simp
    have nk: "nat (int k) = k" "int n - int k = int (n - k)" using le(3) by simp_all
    have st: "compare_loop (b_io R) (b_pfc R) f (int a) data (int n) sp =
      (let result = memcmp (map img [a..<a + k]) (take k data) in
       if result < 0 then Some (sp\<lparr>dev := d1\<rparr>, -1) else if result > 0 then Some (sp\<lparr>dev := d1\<rparr>, 1)
       else compare_loop (b_io R) (b_pfc R) f (int (a + k)) (drop k data) (int (n - k)) (sp\<lparr>dev := d1\<rparr>))"
      using False 1(1) less.prems(3) le(3) by (subst compare_loop.simps) (simp only: k Let_def s nk, simp)
    show ?thesis
      using memcmp_cases [of "map img [a..<a + k]" "take k data"] 1(2) 2 unfolding st m Let_def by auto
  qed
qed

section \<open>Erasing and writing\<close>

lemma wait_busy_ok:
  "flash_holds R img sp \<Longrightarrow> \<exists>d. peridot_spi_flash_wait_busy (b_io R) (b_pfc R) sp = Some (sp\<lparr>dev := d\<rparr>, 0) \<and> flash_ready R img (sp\<lparr>dev := d\<rparr>)"
proof (induction "busy (b_chip R) (b_bus R (dev sp))" arbitrary: sp rule: less_induct)
  case less
  from send_status [OF less.prems, of 1] obtain d rs where
    1: "command R 1 [0x05] 1 0 sp = Some (sp\<lparr>dev := d\<rparr>, 0, rs)" "flash_holds R img (sp\<lparr>dev := d\<rparr>)" "length rs = 1"
      "busy (b_chip R) (b_bus R d) \<le> busy (b_chip R) (b_bus R (dev sp)) - 1" "last rs AND 1 = 0 \<longleftrightarrow> busy (b_chip R) (b_bus R d) = 0"
    by auto
  have l: "last rs = rs ! 0" using 1(3) by (cases rs) simp_all
  show ?case
  proof (cases "busy (b_chip R) (b_bus R d) = 0")
    case True
    with 1 l show ?thesis by (auto simp: peridot_spi_flash_wait_busy.simps [of _ _ sp] CMD_READ_STATUS_def flash_ready_def)
  next
    case False
    with 1(4) have "busy (b_chip R) (b_bus R (dev (sp\<lparr>dev := d\<rparr>))) < busy (b_chip R) (b_bus R (dev sp))" by simp
    from less.hyps [OF this 1(2)] 1 l False show ?thesis
      by (auto simp: peridot_spi_flash_wait_busy.simps [of _ _ sp] CMD_READ_STATUS_def)
  qed
qed

lemma erase_ok:
  assumes "flash_ready R img sp" "dev_ok R f" "int a < region_size f" "a mod erase_size (b_chip R) = 0"
  shows "\<exists>d. peridot_spi_flash_erase_block (b_io R) (b_pfc R) f (int a) sp = Some (sp\<lparr>dev := d\<rparr>, 0) \<and>
    flash_ready R (erased (erase_size (b_chip R)) a img) (sp\<lparr>dev := d\<rparr>)"
proof -
  note A = set_addr_ok [OF assms(2,3)] and D = dev_okD [OF assms(2)]
  from send_enable [OF assms(1)] obtain d1 bs where
    1: "command R 1 [0x06] 0 0 sp = Some (sp\<lparr>dev := d1\<rparr>, 0, bs)" "flash_ready R img (sp\<lparr>dev := d1\<rparr>)" "enabled (b_chip R) (b_bus R d1)" by auto
  have "a < chip_size (b_chip R)" using assms(3) D(5) by linarith
  with send_erase [OF 1(2) _ A(1), of "word_of_nat (addr_len (b_chip R) + 1)" "erase_inst f"] 1(3) A D(4) unat_addr_len [OF assms(2)] obtain d2 rs where
    2: "addr_command (b_io R) (b_pfc R) f (erase_inst f) (int a) 0 0 (sp\<lparr>dev := d1\<rparr>) = Some (sp\<lparr>dev := d2\<rparr>, 0, rs)"
      "flash_holds R (erased (erase_size (b_chip R)) a img) (sp\<lparr>dev := d2\<rparr>)"
    by (auto simp: addr_command_def Let_def)
  have "block_size f = int (erase_size (b_chip R))" using pow2_masks(3) [OF D(8)] D(3) by simp
  then have "int a AND (block_size f - 1) = 0" using pow2_masks(1) [OF D(8), of a] assms(4) by simp
  with wait_busy_ok [OF 2(2)] 1(1) 2(1) assms(3) D(6) show ?thesis
    by (auto simp: peridot_spi_flash_erase_block_def CMD_WRITE_ENABLE_def)
qed

lemma page_ok:
  assumes "flash_ready R img sp" "dev_ok R f" "int a < region_size f" "0 < n" "a mod chip_page (b_chip R) + n \<le> chip_page (b_chip R)" "n \<le> length data"
  shows "\<exists>d. Spi_Flash.write_page (b_io R) (b_pfc R) f (int a) (int n) data sp = Some (sp\<lparr>dev := d\<rparr>, 0) \<and>
    flash_ready R (programmed a (take n data) img) (sp\<lparr>dev := d\<rparr>)"
proof -
  note A = set_addr_ok [OF assms(2,3)] and D = dev_okD [OF assms(2)]
  from send_enable [OF assms(1)] obtain d1 bs where
    1: "command R 1 [0x06] 0 0 sp = Some (sp\<lparr>dev := d1\<rparr>, 0, bs)" "flash_ready R img (sp\<lparr>dev := d1\<rparr>)" "enabled (b_chip R) (b_bus R d1)" by auto
  have a: "a < chip_size (b_chip R)" using assms(3) D(5) by linarith
  have "unat (page_size f) < 2 ^ 16" using unsigned_less [of "page_size f"] by simp
  with assms(5) D(2) have "n < 2 ^ 32" by simp
  then have n: "unat (word_of_nat n :: u32) = n" by (simp add: unsigned_of_nat take_bit_nat_eq_self)
  then have n0: "(word_of_nat n :: u32) \<noteq> 0" using assms(4) by (metis less_irrefl unat_0)
  from send_program [OF 1(2) _ A(1), of "word_of_nat (addr_len (b_chip R) + 1)" "word_of_nat n" data] 1(3) A a n n0 assms(5,6) unat_addr_len [OF assms(2)]
  obtain sp' d2 rs1 rs2 where
    2: "addr_command (b_io R) (b_pfc R) f CMD_PAGE_PROGRAM (int a) 0 PERIDOT_SPI_FLASH_MERGE (sp\<lparr>dev := d1\<rparr>) = Some (sp', 0, rs1)"
      "command R (word_of_nat n) data 0 0 sp' = Some (sp\<lparr>dev := d2\<rparr>, 0, rs2)" "flash_holds R (programmed a (take n data) img) (sp\<lparr>dev := d2\<rparr>)"
    by (auto simp: addr_command_def Let_def CMD_PAGE_PROGRAM_def)
  with wait_busy_ok [OF 2(3)] 1(1) show ?thesis by (auto simp: write_page_def CMD_WRITE_ENABLE_def)
qed

lemma next_page:
  fixes a n p :: nat
  assumes "(a + n) mod p = 0" "n > 0" "p > 0"
  shows "p - a mod p \<le> n" "(a + (p - a mod p)) mod p = 0"
proof -
  obtain q where q: "a + n = p * q" using assms(1) by auto
  have a: "a = p * (a div p) + a mod p" by simp
  have "p * (a div p) < p * q" using q assms(2) a by linarith
  then have "a div p + 1 \<le> q" by simp
  then have "p * (a div p + 1) \<le> p * q" by (rule mult_le_mono2)
  then have "p * (a div p) + p \<le> a + n" using q by simp
  then show "p - a mod p \<le> n" using a by linarith
  have "p - a mod p + a mod p = p" using mod_less_divisor [OF assms(3), of a] by simp
  with a have "a + (p - a mod p) = p * (a div p + 1)" unfolding distrib_left by linarith
  then show "(a + (p - a mod p)) mod p = 0" by simp
qed

lemma page_words:
  assumes "dev_ok R f"
  shows "int a AND (uint (page_size f) - 1) = int (a mod chip_page (b_chip R))"
    "uint (page_size f) - int (a mod chip_page (b_chip R)) = int (chip_page (b_chip R) - a mod chip_page (b_chip R))"
proof -
  note D = dev_okD [OF assms] and P = pow2_masks [OF dev_okD(7) [OF assms]]
  have u: "uint (page_size f) = int (chip_page (b_chip R))" by (simp add: D(2))
  show "int a AND (uint (page_size f) - 1) = int (a mod chip_page (b_chip R))" unfolding u by (rule P(1))
  have "a mod chip_page (b_chip R) \<le> chip_page (b_chip R)" using mod_less_divisor [OF P(3), of a] by simp
  then show "uint (page_size f) - int (a mod chip_page (b_chip R)) = int (chip_page (b_chip R) - a mod chip_page (b_chip R))"
    unfolding u by (simp add: of_nat_diff)
qed

text \<open>One turn of the loop over pages.\<close>

lemma write_pages_step:
  assumes "flash_ready R img sp" "dev_ok R f" "int a + int n \<le> region_size f" "n > 0" "k = chip_page (b_chip R) - a mod chip_page (b_chip R)"
    "k \<le> n" "k \<le> length data"
  shows "\<exists>d. write_pages (b_io R) (b_pfc R) f (int a) data (int n) sp =
      write_pages (b_io R) (b_pfc R) f (int (a + k)) (drop k data) (int (n - k)) (sp\<lparr>dev := d\<rparr>) \<and>
    flash_ready R (programmed a (take k data) img) (sp\<lparr>dev := d\<rparr>)"
proof -
  note D = dev_okD [OF assms(2)]
  have m: "a mod chip_page (b_chip R) < chip_page (b_chip R)" using pow2_masks(3) [OF D(7)] by simp
  then have k: "0 < k" "a mod chip_page (b_chip R) + k \<le> chip_page (b_chip R)" using assms(5) by simp_all
  have a: "int a < region_size f" using assms(3,4) by simp
  from page_ok [OF assms(1,2) a k assms(7)] obtain d where
    d: "Spi_Flash.write_page (b_io R) (b_pfc R) f (int a) (int k) data sp = Some (sp\<lparr>dev := d\<rparr>, 0)"
      "flash_ready R (programmed a (take k data) img) (sp\<lparr>dev := d\<rparr>)" by auto
  have s: "s32 (int a + int k) = int (a + k)" "int n - int k = int (n - k)"
    using s32_off [OF assms(2), of a k] assms(3,6) by (simp_all add: of_nat_diff)
  show ?thesis
    using d assms(4) by (intro exI [of _ d]) (subst write_pages.simps, simp add: Let_def page_words [OF assms(2)] assms(5) [symmetric] s)
qed

lemma write_pages_ok:
  assumes "dev_ok R f"
  shows "flash_ready R img sp \<Longrightarrow> int a + int n \<le> region_size f \<Longrightarrow> n \<le> length data \<Longrightarrow> (a + n) mod chip_page (b_chip R) = 0 \<Longrightarrow>
    \<exists>d. write_pages (b_io R) (b_pfc R) f (int a) data (int n) sp = Some (sp\<lparr>dev := d\<rparr>, 0) \<and>
      flash_ready R (programmed a (take n data) img) (sp\<lparr>dev := d\<rparr>)"
proof (induction n arbitrary: a data sp img rule: less_induct)
  case (less n)
  show ?case
  proof (cases "n = 0")
    case True
    with less.prems show ?thesis by (intro exI [of _ "dev sp"]) (simp add: write_pages.simps)
  next
    case False
    note P = pow2_masks(3) [OF dev_okD(7) [OF assms]]
    define k where "k = chip_page (b_chip R) - a mod chip_page (b_chip R)"
    have n0: "n > 0" using False by simp
    have k: "k \<le> n" "k > 0" using next_page(1) [OF less.prems(4) n0 P] mod_less_divisor [OF P, of a] by (simp_all add: k_def)
    with write_pages_step [OF less.prems(1) assms less.prems(2) n0 k_def k(1), of data] less.prems(3) obtain d1 where
      1: "write_pages (b_io R) (b_pfc R) f (int a) data (int n) sp =
          write_pages (b_io R) (b_pfc R) f (int (a + k)) (drop k data) (int (n - k)) (sp\<lparr>dev := d1\<rparr>)"
        "flash_ready R (programmed a (take k data) img) (sp\<lparr>dev := d1\<rparr>)" by auto
    have p: "n - k < n" "int (a + k) + int (n - k) \<le> region_size f" "n - k \<le> length (drop k data)" "(a + k + (n - k)) mod chip_page (b_chip R) = 0"
      using less.prems(2-4) k by simp_all
    from less.IH [OF p(1) 1(2) p(2-4)] obtain d2 where
      2: "write_pages (b_io R) (b_pfc R) f (int (a + k)) (drop k data) (int (n - k)) (sp\<lparr>dev := d1\<rparr>) = Some (sp\<lparr>dev := d2\<rparr>, 0)"
        "flash_ready R (programmed (a + k) (take (n - k) (drop k data)) (programmed a (take k data) img)) (sp\<lparr>dev := d2\<rparr>)" by auto
    have "programmed (a + k) (take (n - k) (drop k data)) (programmed a (take k data) img) = programmed a (take n data) img"
      using programmed_append [of a "take k data" "take (n - k) (drop k data)" img] k(1) less.prems(3) take_add [of k "n - k" data] by simp
    with 1(1) 2 show ?thesis by auto
  qed
qed

text \<open>With no more data than asked for, a write that does not end at the end of a page reads past the data.\<close>

lemma spi_write_short: "length bs < k \<Longrightarrow> spi_write io k bs skip n s = None"
proof (induction k arbitrary: bs skip n s)
  case (Suc k)
  then show ?case by (cases bs) (auto split: Option.bind_split)
qed simp

lemma command_short: "length bs < unat k \<Longrightarrow> slave_locked sp \<le> 0 \<Longrightarrow> ss_n_pfc_map sp = None \<Longrightarrow> peridot_spi_flash_command io pfc k bs n flags sp = None"
  by (auto simp: peridot_spi_flash_command_def peridot_spi_master_transfer_def spi_transfer_def Let_def PERIDOT_SPI_FLASH_SLAVE_NUMBER_def
      spi_write_short split: Option.bind_split)

lemma page_short:
  assumes "flash_ready R img sp" "dev_ok R f" "int a < region_size f" "length data < k" "k \<le> chip_page (b_chip R)"
  shows "Spi_Flash.write_page (b_io R) (b_pfc R) f (int a) (int k) data sp = None"
proof -
  note A = set_addr_ok [OF assms(2,3)] and D = dev_okD [OF assms(2)]
  from send_enable [OF assms(1)] obtain d1 bs where
    1: "command R 1 [0x06] 0 0 sp = Some (sp\<lparr>dev := d1\<rparr>, 0, bs)" "flash_ready R img (sp\<lparr>dev := d1\<rparr>)" by auto
  from 1(2) have m: "spi_controller (b_io R) (b_pfc R) (b_idle R) (b_bus R) (b_slave R) (sp\<lparr>dev := d1\<rparr>)" "ss_n_pfc_map sp = None" "slave_locked sp = -1"
    by (simp_all add: flash_ready_def flash_holds_def flash_master_def)
  let ?as = "peridot_spi_flash_set_addr f (int a)" and ?k = "word_of_nat (addr_len (b_chip R) + 1) :: u32"
  obtain b rs where e: "exchanges (b_slave R) (take (unat ?k) (0x02 # ?as) @ replicate (unat (0 :: u32)) 0) (select (b_slave R) True (b_bus R (dev (sp\<lparr>dev := d1\<rparr>)))) = (b, rs)"
    by fastforce
  have l: "unat ?k \<le> length ((0x02 :: byte) # ?as)" using A(1) unat_addr_len [OF assms(2)] by simp
  from command_exchanges [OF m(1) _ _ l e, of PERIDOT_SPI_FLASH_MERGE] m(2,3) A(1) obtain d2 rs' where
    2: "addr_command (b_io R) (b_pfc R) f CMD_PAGE_PROGRAM (int a) 0 PERIDOT_SPI_FLASH_MERGE (sp\<lparr>dev := d1\<rparr>) =
        Some (sp\<lparr>dev := d2, slave_locked := 0\<rparr>, 0, rs')"
    by (auto simp: addr_command_def Let_def CMD_PAGE_PROGRAM_def PERIDOT_SPI_FLASH_MERGE_def)
  have "unat (page_size f) < 2 ^ 16" using unsigned_less [of "page_size f"] by simp
  with assms(5) D(2) have "k < 2 ^ 32" by simp
  then have "unat (word_of_nat k :: u32) = k" by (simp add: unsigned_of_nat take_bit_nat_eq_self)
  then have "command R (word_of_nat k) data 0 0 (sp\<lparr>dev := d2, slave_locked := 0\<rparr>) = None"
    using assms(4) m(2) by (intro command_short) simp_all
  with 1(1) 2 show ?thesis by (simp add: write_page_def CMD_WRITE_ENABLE_def)
qed

lemma write_pages_short:
  assumes "dev_ok R f"
  shows "flash_ready R img sp \<Longrightarrow> int a + int n \<le> region_size f \<Longrightarrow> length data = n \<Longrightarrow> (a + n) mod chip_page (b_chip R) \<noteq> 0 \<Longrightarrow> n > 0 \<Longrightarrow>
    write_pages (b_io R) (b_pfc R) f (int a) data (int n) sp = None"
proof (induction n arbitrary: a data sp img rule: less_induct)
  case (less n)
  note P = pow2_masks(3) [OF dev_okD(7) [OF assms]]
  define k where "k = chip_page (b_chip R) - a mod chip_page (b_chip R)"
  have k0: "k > 0" "k \<le> chip_page (b_chip R)" using mod_less_divisor [OF P, of a] by (simp_all add: k_def)
  have a: "int a < region_size f" using less.prems(2,5) by simp
  show ?case
  proof (cases "k \<le> n")
    case False
    with page_short [OF less.prems(1) assms a, of data k] less.prems(3,5) k0(2) show ?thesis
      by (subst write_pages.simps) (simp add: Let_def page_words [OF assms] k_def [symmetric])
  next
    case True
    with write_pages_step [OF less.prems(1) assms less.prems(2,5) k_def True, of data] less.prems(3) obtain d1 where
      1: "write_pages (b_io R) (b_pfc R) f (int a) data (int n) sp =
          write_pages (b_io R) (b_pfc R) f (int (a + k)) (drop k data) (int (n - k)) (sp\<lparr>dev := d1\<rparr>)"
        "flash_ready R (programmed a (take k data) img) (sp\<lparr>dev := d1\<rparr>)" by auto
    have "k - chip_page (b_chip R) = 0" using k0(2) by simp
    have "(a + k) mod chip_page (b_chip R) = 0"
    proof -
      have "a + k = chip_page (b_chip R) * (a div chip_page (b_chip R)) + (a mod chip_page (b_chip R) + k)" by simp
      also have "a mod chip_page (b_chip R) + k = chip_page (b_chip R)" using mod_less_divisor [OF P, of a] by (simp add: k_def)
      finally show ?thesis by simp
    qed
    with less.prems(4) True have ne: "n \<noteq> k" by auto
    have p: "n - k < n" "int (a + k) + int (n - k) \<le> region_size f" "length (drop k data) = n - k" "(a + k + (n - k)) mod chip_page (b_chip R) \<noteq> 0" "n - k > 0"
      using less.prems(2-5) True k0 ne by simp_all
    from less.IH [OF p(1) 1(2) p(2-5)] 1(1) show ?thesis by simp
  qed
qed

section \<open>Whole blocks\<close>

text \<open>A block of which some bytes are written: the others are erased.\<close>

definition rewritten :: "nat \<Rightarrow> nat \<Rightarrow> byte list \<Rightarrow> (nat \<Rightarrow> byte) \<Rightarrow> nat \<Rightarrow> byte" where
  "rewritten sz a bs img i = (if a \<le> i \<and> i < a + length bs then bs ! (i - a) else if i div sz = a div sz then 0xff else img i)"

lemma programmed_block:
  assumes "a mod sz + length bs \<le> sz"
  shows "programmed a bs (erased sz (a - a mod sz) img) = rewritten sz a bs img"
proof
  fix i
  have q: "(a - a mod sz) div sz = a div sz" by (metis div_mult_self1_is_m minus_mod_eq_mult_div nonzero_mult_div_cancel_left div_by_0 gr0I)
  have "i div sz = a div sz" if "a \<le> i" "i < a + length bs"
  proof -
    have a: "a = sz * (a div sz) + a mod sz" by simp
    with that assms have "sz * (a div sz) \<le> i" "i < sz * Suc (a div sz)" by (simp_all, linarith+)
    then show ?thesis by (rule div_nat_eqI)
  qed
  moreover have "(0xff :: byte) AND x = x" for x :: byte by (rule bit_eqI) (simp add: bit_simps bit_ff)
  ultimately show "programmed a bs (erased sz (a - a mod sz) img) i = rewritten sz a bs img i"
    by (auto simp: programmed_def erased_def rewritten_def q)
qed

lemma differing_ok:
  assumes "flash_ready R img sp" "dev_ok R f" "int a + int n \<le> region_size f" "n > 0" "a mod erase_size (b_chip R) + n \<le> erase_size (b_chip R)"
    "(a + n) mod chip_page (b_chip R) = 0" "n \<le> length data"
  shows "\<exists>d. write_differing (b_io R) (b_pfc R) f (int (a - a mod erase_size (b_chip R))) (int a) data (int n) sp = Some (sp\<lparr>dev := d\<rparr>, 0) \<and>
    flash_ready R (if map img [a..<a + n] = take n data then img else rewritten (erase_size (b_chip R)) a (take n data) img) (sp\<lparr>dev := d\<rparr>)"
proof -
  note D = dev_okD [OF assms(2)]
  have s: "\<not> (int a \<ge> region_size f \<or> s32 (int a + int n) > region_size f)" using s32_off [OF assms(2,3)] assms(3,4) by simp
  let ?m = "memcmp (map img [a..<a + n]) (take n data)"
  from compare_loop_ok [OF assms(2,1,3,7)] s obtain d1 where
    1: "peridot_spi_flash_compare (b_io R) (b_pfc R) f (int a) data (int n) sp = Some (sp\<lparr>dev := d1\<rparr>, ?m)" "flash_ready R img (sp\<lparr>dev := d1\<rparr>)"
    by (auto simp: peridot_spi_flash_compare_def)
  have m: "?m = 0 \<longleftrightarrow> map img [a..<a + n] = take n data" using assms(7) by (intro memcmp_eq) simp
  show ?thesis
  proof (cases "?m = 0")
    case True
    with 1 m show ?thesis by (auto simp: write_differing_def)
  next
    case False
    let ?b = "a - a mod erase_size (b_chip R)"
    have b: "int ?b < region_size f" "?b mod erase_size (b_chip R) = 0" using assms(3,4) by simp_all
    from erase_ok [OF 1(2) assms(2) b] obtain d2 where
      2: "peridot_spi_flash_erase_block (b_io R) (b_pfc R) f (int ?b) (sp\<lparr>dev := d1\<rparr>) = Some (sp\<lparr>dev := d2\<rparr>, 0)"
        "flash_ready R (erased (erase_size (b_chip R)) ?b img) (sp\<lparr>dev := d2\<rparr>)" by auto
    from write_pages_ok [OF assms(2) 2(2) assms(3,7,6)] s D(6) obtain d3 where
      3: "peridot_spi_flash_write_block (b_io R) (b_pfc R) f (int ?b) (int a) data (int n) (sp\<lparr>dev := d2\<rparr>) = Some (sp\<lparr>dev := d3\<rparr>, 0)"
        "flash_ready R (programmed a (take n data) (erased (erase_size (b_chip R)) ?b img)) (sp\<lparr>dev := d3\<rparr>)"
      by (auto simp: peridot_spi_flash_write_block_def)
    have "programmed a (take n data) (erased (erase_size (b_chip R)) ?b img) = rewritten (erase_size (b_chip R)) a (take n data) img"
      using assms(5,7) by (intro programmed_block) simp
    with 1(1) 2(1) 3 False m show ?thesis by (auto simp: write_differing_def simp del: of_nat_diff)
  qed
qed

text \<open>What a write does: the bytes are there, and another byte is as before or, in a block that was touched, erased.\<close>

definition written :: "nat \<Rightarrow> nat \<Rightarrow> byte list \<Rightarrow> (nat \<Rightarrow> byte) \<Rightarrow> (nat \<Rightarrow> byte) \<Rightarrow> bool" where
  "written sz a bs img img' \<longleftrightarrow> (\<forall>i. if a \<le> i \<and> i < a + length bs then img' i = bs ! (i - a)
     else img' i = img i \<or> img' i = 0xff \<and> (\<exists>j. a \<le> j \<and> j < a + length bs \<and> i div sz = j div sz))"

lemma written_Nil [simp]: "written sz a [] img img"
  by (auto simp: written_def)

lemma written_block:
  "bs \<noteq> [] \<Longrightarrow> written sz a bs img (if map img [a..<a + length bs] = bs then img else rewritten sz a bs img)"
proof -
  assume ne: "bs \<noteq> []"
  show ?thesis
  proof (cases "map img [a..<a + length bs] = bs")
    case True
    have "img i = bs ! (i - a)" if "a \<le> i" "i < a + length bs" for i
    proof -
      have "map img [a..<a + length bs] ! (i - a) = img i" using that by simp
      with True show ?thesis by simp
    qed
    with True show ?thesis by (simp add: written_def)
  next
    case False
    have "\<exists>j. a \<le> j \<and> j < a + length bs \<and> a div sz = j div sz" using ne by (intro exI [of _ a]) simp
    with False show ?thesis by (simp add: written_def rewritten_def)
  qed
qed

lemma written_append:
  assumes "written sz a bs img img1" "written sz (a + length bs) cs img1 img2" "(a + length bs) mod sz = 0 \<or> cs = []" "sz > 0"
  shows "written sz a (bs @ cs) img img2"
proof -
  have keep: "i div sz \<noteq> j div sz" if l: "i < a + length bs" "a + length bs \<le> j" "cs \<noteq> []" for i j
  proof -
    obtain q where q: "a + length bs = sz * q" using assms(3) l(3) by auto
    have "i < sz * q" using l(1) q by simp
    then have "i div sz < q" using assms(4) by (metis div_less_iff_less_mult mult.commute)
    moreover have "q \<le> j div sz" using l(2) q assms(4) by (simp add: less_eq_div_iff_mult_less_eq mult.commute)
    ultimately show ?thesis by simp
  qed
  show ?thesis unfolding written_def
  proof
    fix i
    note 1 = assms(1) [unfolded written_def, THEN spec, of i] and 2 = assms(2) [unfolded written_def, THEN spec, of i]
    consider (in_bs) "a \<le> i" "i < a + length bs" | (in_cs) "a + length bs \<le> i" "i < a + length bs + length cs" |
      (out) "i < a \<or> a + length bs + length cs \<le> i" by linarith
    then show "if a \<le> i \<and> i < a + length (bs @ cs) then img2 i = (bs @ cs) ! (i - a)
      else img2 i = img i \<or> img2 i = 0xff \<and> (\<exists>j. a \<le> j \<and> j < a + length (bs @ cs) \<and> i div sz = j div sz)"
    proof cases
      case in_bs
      then have "img1 i = bs ! (i - a)" using 1 by simp
      moreover have "\<not> (\<exists>j. a + length bs \<le> j \<and> j < a + length bs + length cs \<and> i div sz = j div sz)" using keep [OF in_bs(2)] by fastforce
      ultimately show ?thesis using 2 in_bs by (auto simp: nth_append)
    next
      case in_cs
      have "\<not> i - a < length bs" using in_cs(1) by (simp add: not_less le_diff_conv2)
      with in_cs 2 show ?thesis by (simp add: nth_append)
    next
      case out
      then have n: "\<not> (a \<le> i \<and> i < a + length bs)" "\<not> (a + length bs \<le> i \<and> i < a + length bs + length cs)"
        "\<not> (a \<le> i \<and> i < a + length (bs @ cs))" by auto
      have w: "\<exists>j. a \<le> j \<and> j < a + length (bs @ cs) \<and> i div sz = j div sz"
        if "(\<exists>j. a \<le> j \<and> j < a + length bs \<and> i div sz = j div sz) \<or> (\<exists>j. a + length bs \<le> j \<and> j < a + length bs + length cs \<and> i div sz = j div sz)"
      proof -
        from that obtain j where "(a \<le> j \<and> j < a + length bs) \<or> (a + length bs \<le> j \<and> j < a + length bs + length cs)" "i div sz = j div sz" by blast
        then show ?thesis by (intro exI [of _ j]) auto
      qed
      from 1 2 show ?thesis unfolding if_not_P [OF n(1)] if_not_P [OF n(2)] if_not_P [OF n(3)] using w by argo
    qed
  qed
qed

lemma block_words:
  assumes "dev_ok R f"
  shows "int a AND (block_size f - 1) = int (a mod erase_size (b_chip R))"
    "int a AND NOT (block_size f - 1) = int (a - a mod erase_size (b_chip R))"
    "block_size f - int (a mod erase_size (b_chip R)) = int (erase_size (b_chip R) - a mod erase_size (b_chip R))"
proof -
  note D = dev_okD [OF assms] and P = pow2_masks [OF dev_okD(8) [OF assms]]
  have u: "block_size f = int (erase_size (b_chip R))" using P(3) D(3) by simp
  show "int a AND (block_size f - 1) = int (a mod erase_size (b_chip R))"
    "int a AND NOT (block_size f - 1) = int (a - a mod erase_size (b_chip R))" unfolding u by (rule P(1), rule P(2))
  have "a mod erase_size (b_chip R) \<le> erase_size (b_chip R)" using mod_less_divisor [OF P(3), of a] by simp
  then show "block_size f - int (a mod erase_size (b_chip R)) = int (erase_size (b_chip R) - a mod erase_size (b_chip R))"
    unfolding u by (simp add: of_nat_diff)
qed

lemma write_blocks_ok:
  assumes "dev_ok R f"
  shows "flash_ready R img sp \<Longrightarrow> int a + int n \<le> region_size f \<Longrightarrow> n \<le> length src \<Longrightarrow> (a + n) mod chip_page (b_chip R) = 0 \<Longrightarrow>
    \<exists>d img'. write_blocks (b_io R) (b_pfc R) f (int a) src (int n) sp = Some (sp\<lparr>dev := d\<rparr>, 0) \<and>
      flash_ready R img' (sp\<lparr>dev := d\<rparr>) \<and> written (erase_size (b_chip R)) a (take n src) img img'"
proof (induction n arbitrary: a src sp img rule: less_induct)
  case (less n)
  show ?case
  proof (cases "n = 0")
    case True
    with less.prems show ?thesis by (intro exI [of _ "dev sp"] exI [of _ img]) (simp add: write_blocks.simps)
  next
    case False
    let ?B = "erase_size (b_chip R)"
    note B = pow2_masks(3) [OF dev_okD(8) [OF assms]] and D = dev_okD [OF assms]
    define k where "k = min n (?B - a mod ?B)"
    have m: "a mod ?B < ?B" using B by simp
    have k: "k \<le> n" "k > 0" "a mod ?B + k \<le> ?B" "k \<le> length src" using m False less.prems(3) by (auto simp: k_def)
    have al: "k = n \<or> (a + k) mod ?B = 0"
    proof (cases "k = n")
      case ne: False
      then have "a + k = ?B * (a div ?B) + (a mod ?B + k)" "a mod ?B + k = ?B" using m by (auto simp: k_def min_def split: if_splits)
      then have "a + k = ?B * (a div ?B) + ?B" by (simp only:)
      then show ?thesis by simp
    qed simp
    have pg: "(a + k) mod chip_page (b_chip R) = 0"
      using al less.prems(4) D(9) by (metis dvd_trans mod_eq_0_iff_dvd)
    have r: "int a + int k \<le> region_size f" using less.prems(2) k(1) by simp
    from differing_ok [OF less.prems(1) assms r k(2,3) pg k(4)] obtain d1 img1 where
      1: "write_differing (b_io R) (b_pfc R) f (int (a - a mod ?B)) (int a) src (int k) sp = Some (sp\<lparr>dev := d1\<rparr>, 0)"
        "flash_ready R img1 (sp\<lparr>dev := d1\<rparr>)" "img1 = (if map img [a..<a + k] = take k src then img else rewritten ?B a (take k src) img)"
      by blast
    have w1: "written ?B a (take k src) img img1"
    proof -
      have "length (take k src) = k" "take k src \<noteq> []" using k(2,4) by auto
      with written_block [of "take k src" ?B a img] 1(3) show ?thesis by simp
    qed
    have p: "n - k < n" "int (a + k) + int (n - k) \<le> region_size f" "n - k \<le> length (drop k src)" "(a + k + (n - k)) mod chip_page (b_chip R) = 0"
      using less.prems(2-4) k by simp_all
    from less.IH [OF p(1) 1(2) p(2-4)] obtain d2 img2 where
      2: "write_blocks (b_io R) (b_pfc R) f (int (a + k)) (drop k src) (int (n - k)) (sp\<lparr>dev := d1\<rparr>) = Some (sp\<lparr>dev := d2\<rparr>, 0)"
        "flash_ready R img2 (sp\<lparr>dev := d2\<rparr>)" "written ?B (a + k) (take (n - k) (drop k src)) img1 img2"
      by auto
    have lk: "length (take k src) = k" using k(4) by simp
    have "written ?B a (take k src @ take (n - k) (drop k src)) img img2"
      using w1 2(3) al lk B by (intro written_append [of ?B a "take k src" img img1]) auto
    moreover have "take k src @ take (n - k) (drop k src) = take n src" using k(1) take_add [of k "n - k" src] by simp
    moreover have "write_blocks (b_io R) (b_pfc R) f (int a) src (int n) sp = Some (sp\<lparr>dev := d2\<rparr>, 0)"
    proof -
      have s: "s32 (int a + int k) = int (a + k)" "int n - int k = int (n - k)" "min (int n) (int (?B - a mod ?B)) = int k"
        using s32_off [OF assms r] k(1) by (simp_all add: of_nat_diff k_def of_nat_min)
      show ?thesis using 1(1) 2(1) False
        by (subst write_blocks.simps) (simp add: Let_def block_words [OF assms] s del: of_nat_diff)
    qed
    ultimately show ?thesis using 2(2) by auto
  qed
qed

section \<open>Properties\<close>


text \<open>\<open>write_block\<close> always programs up to the end of the page. Given exactly the bytes it is asked to write, it
  reads past their end as soon as the range ends within a page.\<close>

theorem spi_flash_write_over_reads:
  assumes "flash_ready R img sp" "dev_ok R f" "int a + int (length data) \<le> region_size f" "(a + length data) mod chip_page (b_chip R) \<noteq> 0"
    "data \<noteq> []"
  shows "peridot_spi_flash_write_block (b_io R) (b_pfc R) f block (int a) data (int (length data)) sp = None"
proof -
  have l: "length data > 0" using assms(5) by simp
  have "\<not> (int a \<ge> dev_length f \<or> s32 (int a + int (length data)) > dev_length f)"
    unfolding s32_off [OF assms(2,3)] dev_okD(6) [OF assms(2)] using assms(3) l by linarith
  with write_pages_short [OF assms(2,1,3) refl assms(4) l] show ?thesis by (simp add: peridot_spi_flash_write_block_def)
qed

definition ex_dev :: flash_dev where
  "ex_dev = \<lparr>region_offset = 0, region_size = 0x200000, number_of_blocks = 512, block_size = 4096, number_of_regions = 1,
     dev_length = 0x200000, registered = True, erase_inst = 0x20, four_bytes_mode = False, page_size = 256\<rparr>"

lemma ex_dev_ok: "dev_ok nor_board ex_dev"
proof -
  have "pow2 256" "pow2 4096" unfolding pow2_def by (rule exI [of _ 8], simp, rule exI [of _ 12], simp)
  moreover have "(256 :: nat) dvd 4096" "(4096 :: nat) dvd 0x200000" by (simp_all add: dvd_eq_mod_eq_0)
  ultimately show ?thesis by (simp add: dev_ok_def nor_board_def nor_chip_def ex_dev_def)
qed


theorem spi_flash_write_over_reads_witness:
  "peridot_spi_flash_write_block (b_io nor_board) (b_pfc nor_board) ex_dev 4096 4350 [1] 1 (nor_spi (\<lambda>i. 5)) = None"
proof -
  have "(4350 + length [1 :: byte]) mod chip_page (b_chip nor_board) \<noteq> 0" "region_size ex_dev = 0x200000"
    by (simp_all add: nor_board_def nor_chip_def ex_dev_def)
  with spi_flash_write_over_reads [OF nor_ready ex_dev_ok, where data = "[1]" and a = 4350 and block = 4096 and img = "\<lambda>i. 5"]
  show ?thesis by simp
qed

section \<open>The query\<close>

text \<open>Halving towards zero as often as the denominator is even.\<close>

lemma div_loop_pow2: "div_loop n (2 ^ k) = sgn n * (\<bar>n\<bar> div 2 ^ k)"
proof (induction k arbitrary: n)
  case 0
  show ?case by (subst div_loop.simps) (simp add: sgn_mult_abs)
next
  case (Suc k)
  let ?h = "if n < 0 then - (- n div 2) else n div 2"
  have "div_loop n (2 ^ Suc k) = div_loop ?h (2 ^ k)" by (subst div_loop.simps) simp
  also have "\<dots> = sgn ?h * (\<bar>?h\<bar> div 2 ^ k)" by (rule Suc.IH)
  also have "\<bar>?h\<bar> = \<bar>n\<bar> div 2" by auto
  also have "sgn ?h * (\<bar>n\<bar> div 2 div 2 ^ k) = sgn n * (\<bar>n\<bar> div 2 div 2 ^ k)"
  proof (cases "\<bar>n\<bar> div 2 = 0")
    case False
    then have "sgn ?h = sgn n" by (auto simp: sgn_if)
    then show ?thesis by simp
  qed simp
  also have "\<bar>n\<bar> div 2 div 2 ^ k = \<bar>n\<bar> div 2 ^ Suc k" by (simp add: zdiv_zmult2_eq [symmetric])
  finally show ?case .
qed

text \<open>The erase type chosen: the smallest size that is not 1, or none.\<close>

definition block_ok :: "flash_dev \<Rightarrow> bool" where
  "block_ok f \<longleftrightarrow> (\<exists>k. 0 < k \<and> k < 31 \<and> block_size f = 2 ^ k)"

lemma smallest_erase_ok:
  "smallest_erase types f = Some f' \<Longrightarrow> block_size f = INT_MAX \<or> block_ok f \<Longrightarrow>
   (block_size f' = INT_MAX \<or> block_ok f') \<and> block_size f' \<le> block_size f \<and>
   (\<forall>t \<in> set types. 0 < t AND 0xff \<longrightarrow> block_size f' \<le> 2 ^ unat (t AND 0xff)) \<and>
   number_of_regions f' = number_of_regions f \<and> region_offset f' = region_offset f \<and> region_size f' = region_size f \<and> page_size f' = page_size f"
proof (induction types arbitrary: f)
  case (Cons t types)
  let ?s = "t AND 0xff"
  let ?f = "if ?s > 0 \<and> shl 1 (unat ?s) < word_of_int (block_size f)
             then f\<lparr>block_size := sint (shl 1 (unat ?s) :: u32), erase_inst := ucast (shr t 8)\<rparr> else f"
  from Cons.prems(1) have s: "?s < 32" and r: "smallest_erase types ?f = Some f'" by (auto simp: shift_left_1_def Let_def split: if_splits)
  define k where "k = unat ?s"
  have k: "k < 32" "?s > 0 \<longleftrightarrow> k > 0" using s by (simp_all add: k_def word_less_nat_alt)
  have u: "uint (shl 1 k :: u32) = 2 ^ k"
  proof -
    have "uint (shl 1 k :: u32) = take_bit 32 (push_bit k 1)" by (subst unsigned_push_bit_eq) simp
    then show ?thesis using k(1) by (simp add: push_bit_eq_mult take_bit_int_eq_self)
  qed
  have b: "0 \<le> block_size f" "block_size f \<le> INT_MAX"
  proof -
    have j: "(2 :: int) ^ j \<le> 0x7fffffff" if "j < 31" for j
    proof -
      have "(2 :: int) ^ j \<le> 2 ^ 30" using that by (intro power_increasing) simp_all
      then show ?thesis by simp
    qed
    from Cons.prems(2) j show "0 \<le> block_size f" "block_size f \<le> INT_MAX" by (auto simp: block_ok_def INT_MAX_def)
  qed
  then have ub: "uint (word_of_int (block_size f) :: u32) = block_size f" by (simp add: INT_MAX_def uint_word_of_int take_bit_int_eq_self)
  have lt: "shl 1 k < (word_of_int (block_size f) :: u32) \<longleftrightarrow> 2 ^ k < block_size f" by (simp only: word_less_alt u ub)
  have sk: "k < 31 \<and> sint (shl 1 k :: u32) = 2 ^ k" if "2 ^ k < block_size f"
  proof -
    have k31: "k < 31" using that b(2) k(1) by (cases "k = 31") (auto simp: INT_MAX_def)
    then have "(2 :: int) ^ k \<le> 2 ^ 30" by (intro power_increasing) simp_all
    then have "signed_take_bit 31 ((2 :: int) ^ k) = 2 ^ k"
      by (intro signed_take_bit_int_eq_self) (simp_all add: order_trans [of _ 0])
    then show ?thesis using u k31 by (simp add: sint_uint)
  qed
  have f: "(block_size ?f = INT_MAX \<or> block_ok ?f) \<and> block_size ?f \<le> block_size f \<and> (k > 0 \<longrightarrow> block_size ?f \<le> 2 ^ k)"
    using Cons.prems(2) sk k lt unfolding k_def [symmetric] by (auto simp: block_ok_def not_less)
  have rest: "number_of_regions ?f = number_of_regions f" "region_offset ?f = region_offset f" "region_size ?f = region_size f" "page_size ?f = page_size f"
    by auto
  from Cons.IH [OF r] f have "(block_size f' = INT_MAX \<or> block_ok f') \<and> block_size f' \<le> block_size ?f \<and>
     (\<forall>t \<in> set types. 0 < t AND 0xff \<longrightarrow> block_size f' \<le> 2 ^ unat (t AND 0xff)) \<and>
     number_of_regions f' = number_of_regions ?f \<and> region_offset f' = region_offset ?f \<and> region_size f' = region_size ?f \<and> page_size f' = page_size ?f"
    by blast
  with f k(2) rest show ?case unfolding k_def by auto
qed simp

lemma sfdp_device:
  assumes "peridot_spi_flash_query_sfdp io pfc f sp = Some (sp', f', 0)"
  shows "number_of_regions f' = 1 \<and> region_offset f' = 0 \<and> block_ok f' \<and>
    number_of_blocks f' = sgn (region_size f') * (\<bar>region_size f'\<bar> div block_size f')"
proof -
  from assms obtain sp0 r where "peridot_spi_flash_search_sfdp_table io pfc 0x00 0xff sp = Some (sp0, r)" "\<not> r < 0"
    by (auto simp: peridot_spi_flash_query_sfdp_def split: Option.bind_splits if_splits)
  with assms obtain sp1 q basic where "peridot_spi_flash_read_sfdp io pfc (word_of_int r) 64 sp0 = Some (sp1, q, basic)" "\<not> q < 0"
    by (auto simp: peridot_spi_flash_query_sfdp_def split: Option.bind_splits if_splits)
  note 1 = \<open>peridot_spi_flash_search_sfdp_table io pfc 0x00 0xff sp = Some (sp0, r)\<close> \<open>\<not> r < 0\<close> this
  let ?types = "[le32 basic 7 AND 0xffff, shr (le32 basic 7) 16, le32 basic 8 AND 0xffff, shr (le32 basic 8) 16]"
  let ?f0 = "\<lambda>size. f\<lparr>region_offset := 0, four_bytes_mode := (shr (le32 basic 0) 17 AND 3 = 2),
    page_size := ucast (shl 1 (unat (shr (le32 basic 10) 4 AND 0xf)) :: u32), region_size := sint (size :: u32), block_size := INT_MAX\<rparr>"
  from assms obtain size f1 where f: "smallest_erase ?types (?f0 size) = Some f1"
    "(if block_size f1 = INT_MAX then Some (sp1, f1, - ENOTSUP)
      else Some (sp1, f1\<lparr>number_of_blocks := div_power2 (region_size f1) (word_of_int (block_size f1)), number_of_regions := 1\<rparr>, 0)) = Some (sp', f', 0)"
    unfolding peridot_spi_flash_query_sfdp_def 1(1) bind.simps prod.case if_not_P [OF 1(2)] 1(3) if_not_P [OF 1(4)] Let_def
    by (simp only: Option.bind_eq_Some_conv) blast
  have f': "block_size f1 \<noteq> INT_MAX"
    "f' = f1\<lparr>number_of_blocks := div_power2 (region_size f1) (word_of_int (block_size f1)), number_of_regions := 1\<rparr>"
    using f(2) by (auto simp: ENOTSUP_def split: if_splits)
  from smallest_erase_ok [OF f(1)] f'(1) obtain k where k: "region_offset f1 = 0" "0 < k" "k < 31" "block_size f1 = 2 ^ k"
    by (auto simp: block_ok_def)
  have u: "unat (2 ^ k :: u32) = 2 ^ k"
  proof -
    have "unat (word_of_nat (2 ^ k) :: u32) = 2 ^ k" using k(3) by (subst unsigned_of_nat) (simp add: take_bit_nat_eq_self)
    then show ?thesis by simp
  qed
  then have "(2 ^ k :: u32) \<noteq> 0" by (metis power_not_zero unat_0 zero_neq_numeral)
  with u have "div_power2 (region_size f1) (word_of_int (block_size f1)) = sgn (region_size f1) * (\<bar>region_size f1\<bar> div block_size f1)"
    by (simp add: div_power2_def k(4) div_loop_pow2)
  with f'(2) k show ?thesis by (auto simp: block_ok_def)
qed

lemma devid_device:
  assumes "peridot_spi_flash_query_devid io pfc f sp = Some (sp', f', 0)"
  shows "number_of_regions f' = 1 \<and> region_offset f' = 0 \<and> block_ok f' \<and>
    number_of_blocks f' = sgn (region_size f') * (\<bar>region_size f'\<bar> div block_size f')"
proof -
  have b: "block_ok (f\<lparr>block_size := 4096\<rparr>)" "block_ok (f\<lparr>block_size := 65536\<rparr>)" "block_ok (f\<lparr>block_size := 32768\<rparr>)" for f
    unfolding block_ok_def by (rule exI [of _ 12], simp, rule exI [of _ 16], simp, rule exI [of _ 15], simp)
  from assms obtain did j sz n where t: "devid_table did j = Some (sz, n)" and
    f: "f' = f\<lparr>page_size := 256, four_bytes_mode := False, block_size := sz, number_of_blocks := n, erase_inst := (if sz = 4096 then 0x20 else 0xd8),
      region_offset := 0, region_size := n * sz, number_of_regions := 1\<rparr>"
    by (auto simp: peridot_spi_flash_query_devid_def Let_def ENOTSUP_def split: Option.bind_splits if_splits option.splits)
  from t have "(sz = 4096 \<or> sz = 65536 \<or> sz = 32768) \<and> n > 0" by (auto simp: devid_table_def split: if_splits)
  then have "\<exists>k. 0 < k \<and> k < 31 \<and> sz = 2 ^ k" using b(1) b(2) b(3) by (auto simp: block_ok_def)
  moreover have "n = sgn (n * sz) * (\<bar>n * sz\<bar> div sz)"
    using \<open>(sz = 4096 \<or> sz = 65536 \<or> sz = 32768) \<and> n > 0\<close> by (auto simp: abs_mult sgn_mult)
  ultimately show ?thesis by (simp add: f block_ok_def)
qed

text \<open>Whatever the chip answers to the query, a device the query accepts has one region from offset 0 whose
  blocks have a size of a power of two between 2 and 2^30, and as many of them as fit into the region; of the
  erase types of an SFDP table the smallest one is taken; otherwise the result is \<open>-ENODEV\<close>.\<close>

theorem spi_flash_query_device:
  assumes "peridot_spi_flash_query io pfc f sp = Some (sp', f', r)"
  shows "(r = 0 \<or> r = - ENODEV) \<and> (r = 0 \<longrightarrow> number_of_regions f' = 1 \<and> region_offset f' = 0 \<and> block_ok f' \<and>
      number_of_blocks f' = sgn (region_size f') * (\<bar>region_size f'\<bar> div block_size f')) \<and>
    (\<forall>types g g'. block_size g = INT_MAX \<and> smallest_erase types g = Some g' \<longrightarrow>
      (\<forall>t \<in> set types. 0 < t AND 0xff \<longrightarrow> block_size g' \<le> 2 ^ unat (t AND 0xff)))"
proof (intro conjI allI impI)
  from assms show "r = 0 \<or> r = - ENODEV"
    by (auto simp: peridot_spi_flash_query_def split: Option.bind_splits if_splits)
  show "\<forall>t \<in> set types. 0 < t AND 0xff \<longrightarrow> block_size g' \<le> 2 ^ unat (t AND 0xff)"
    if "block_size g = INT_MAX \<and> smallest_erase types g = Some g'" for types g g'
    using smallest_erase_ok that by blast
  assume r: "r = 0"
  have d: "number_of_regions f' = 1 \<and> region_offset f' = 0 \<and> block_ok f' \<and>
      number_of_blocks f' = sgn (region_size f') * (\<bar>region_size f'\<bar> div block_size f')"
  proof -
    have "(\<exists>a. peridot_spi_flash_query_sfdp io pfc f a = Some (sp', f', 0)) \<or> (\<exists>g a. peridot_spi_flash_query_devid io pfc g a = Some (sp', f', 0))"
      using assms unfolding r
      by (auto simp: peridot_spi_flash_query_def ENODEV_def Option.bind_eq_Some_conv split: if_splits)
    then show ?thesis using sfdp_device devid_device by blast
  qed
  from d show "number_of_regions f' = 1" "region_offset f' = 0" "block_ok f'"
    "number_of_blocks f' = sgn (region_size f') * (\<bar>region_size f'\<bar> div block_size f')" by simp_all
qed

text \<open>A chip that answers everything with 16, which is the device id of 64 Mbit.\<close>

definition const_slave :: "nat slave" where
  "const_slave = \<lparr>select = (\<lambda>on b. b), exchange = (\<lambda>c b. (b, 0x16))\<rparr>"

lemma const_exchanges: "exchanges const_slave bs b = (b, replicate (length bs) 0x16)"
  by (induction bs) (simp_all add: const_slave_def)

lemma select_const: "select const_slave on b = b"
  by (simp add: const_slave_def)

lemma const_command:
  assumes "flash_master io pfc idle bus const_slave sp" "length bs = unat k"
  shows "\<exists>d. peridot_spi_flash_command io pfc k bs n 0 sp = Some (sp\<lparr>dev := d\<rparr>, 0, replicate (unat n) 0x16) \<and>
    flash_master io pfc idle bus const_slave (sp\<lparr>dev := d\<rparr>)"
proof -
  have "transaction const_slave (bs @ replicate (unat n) 0) (bus (dev sp)) = (bus (dev sp), replicate (unat k + unat n) 0x16)"
    using assms(2) by (simp add: transaction_def const_exchanges select_const)
  from command_transaction [OF assms this] show ?thesis by auto
qed

lemma const_query:
  assumes "flash_master io pfc idle bus const_slave sp"
  shows "\<exists>sp' f'. peridot_spi_flash_query io pfc f sp = Some (sp', f', 0) \<and> block_size f' = 65536 \<and> number_of_blocks f' = 128"
proof -
  from const_command [OF assms, of "[CMD_READ_STATUS, 0]" 2 0] obtain d1 where
    1: "peridot_spi_flash_command io pfc 2 [CMD_READ_STATUS, 0] 0 0 sp = Some (sp\<lparr>dev := d1\<rparr>, 0, [])"
      "flash_master io pfc idle bus const_slave (sp\<lparr>dev := d1\<rparr>)" by auto
  from const_command [OF 1(2), of "[CMD_READ_SFDP, 0, 0, 0, 0]" 5 8] obtain d2 where
    2: "peridot_spi_flash_command io pfc 5 [CMD_READ_SFDP, 0, 0, 0, 0] 8 0 (sp\<lparr>dev := d1\<rparr>) = Some (sp\<lparr>dev := d2\<rparr>, 0, replicate 8 0x16)"
      "flash_master io pfc idle bus const_slave (sp\<lparr>dev := d2\<rparr>)" by auto
  from const_command [OF 2(2), of "[CMD_READ_DEVID, 0, 0]" 3 1] obtain d3 where
    3: "peridot_spi_flash_command io pfc 3 [CMD_READ_DEVID, 0, 0] 1 0 (sp\<lparr>dev := d2\<rparr>) = Some (sp\<lparr>dev := d3\<rparr>, 0, [0x16])"
      "flash_master io pfc idle bus const_slave (sp\<lparr>dev := d3\<rparr>)" by auto
  have r3: "replicate 3 (0x16 :: byte) = [0x16, 0x16, 0x16]" by (simp add: numeral_3_eq_3)
  from const_command [OF 3(2), of "[CMD_READ_JEDECID]" 1 3] obtain d4 where
    4: "peridot_spi_flash_command io pfc 1 [CMD_READ_JEDECID] 3 0 (sp\<lparr>dev := d3\<rparr>) = Some (sp\<lparr>dev := d4\<rparr>, 0, [0x16, 0x16, 0x16])"
    by (auto simp: r3)
  have m: "le32 (replicate 8 0x16) 0 \<noteq> 0x50444653" by (simp add: le32_def)
  have s: "peridot_spi_flash_query_sfdp io pfc f (sp\<lparr>dev := d1\<rparr>) = Some (sp\<lparr>dev := d2\<rparr>, f, - ENOTSUP)"
    using 2(1) m by (simp add: peridot_spi_flash_query_sfdp_def peridot_spi_flash_search_sfdp_table_def peridot_spi_flash_read_sfdp_def ENOTSUP_def)
  show ?thesis
    using 1(1) s 3(1) 4 by (simp add: peridot_spi_flash_query_def peridot_spi_flash_query_devid_def devid_table_def Let_def ENOTSUP_def)
qed

definition const_spi :: "(nat \<times> u32) spi" where
  "const_spi = \<lparr>m_base = 0x100000c0, m_freq = 40000000, m_irq = 4, m_done = 0, m_irq_on = False, dev = (0, 0),
     slave_locked = -1, ss_n_pfc_map = None\<rparr>"

theorem spi_flash_query_device_witness:
  "\<exists>sp' f'. peridot_spi_flash_query (prompt_io 0x100000c0 (spi_act const_slave) (spi_lines const_slave)) 0x10000080 ex_dev const_spi =
      Some (sp', f', 0) \<and> block_size f' = 65536 \<and> block_ok f'"
proof -
  have "spi_controller (prompt_io 0x100000c0 (spi_act const_slave) (spi_lines const_slave)) 0x10000080 (\<lambda>_. True) fst const_slave const_spi"
    by (rule prompt_spi) (simp_all add: at_rest_def const_spi_def)
  then have "flash_master (prompt_io 0x100000c0 (spi_act const_slave) (spi_lines const_slave)) 0x10000080 (\<lambda>_. True) fst const_slave const_spi"
    by (simp add: flash_master_def const_spi_def)
  from const_query [OF this, of ex_dev] obtain sp' f' where
    q: "peridot_spi_flash_query (prompt_io 0x100000c0 (spi_act const_slave) (spi_lines const_slave)) 0x10000080 ex_dev const_spi = Some (sp', f', 0)"
      "block_size f' = 65536" by blast
  from spi_flash_query_device [OF q(1)] q show ?thesis by auto
qed

end
