(* ===== verification/Epcs_Fatfs.thy ===== *)
theory Epcs_Fatfs
  imports Prelude "HOL-Library.Signed_Division"
begin

text \<open>
  The file system of the flash as the C library sees it (\<open>epcs_fatfs.c\<close>), as configured by \<open>system.h\<close>: the
  open, close, read, write, lseek and fstat functions of the HAL device over the file objects of FatFs.

  \<^item> FatFs is the parameter \<open>ff\<close>: functions on the volume \<open>'v\<close> and a file object \<open>'fil\<close> (the \<open>FIL\<close> that the
    caller owns), which answer the result code and the new file object. What theorems rely on is
    \<open>fatfs_laws\<close>.
  \<^item> \<open>fils\<close> are the blocks that \<open>malloc\<close> has handed out for file objects, in the order of the calls; a freed
    one is \<open>None\<close>, and an access to it is undefined behaviour. \<open>malloc n\<close> says whether the n-th call succeeds.
  \<^item> \<open>privs\<close> is the field \<open>priv\<close> of the descriptors of the HAL: NULL or the number of a block.
  \<^item> The value \<open>None\<close> of a function is undefined behaviour.
\<close>

section \<open>Types and constants\<close>

datatype fresult = FR_OK | FR_DISK_ERR | FR_INT_ERR | FR_NOT_READY | FR_NO_FILE | FR_NO_PATH | FR_INVALID_NAME
  | FR_DENIED | FR_EXIST | FR_INVALID_OBJECT | FR_WRITE_PROTECTED | FR_INVALID_DRIVE | FR_NOT_ENABLED
  | FR_NO_FILESYSTEM | FR_MKFS_ABORTED | FR_TIMEOUT | FR_LOCKED | FR_NOT_ENOUGH_CORE | FR_TOO_MANY_OPEN_FILES
  | FR_INVALID_PARAMETER

definition FA_READ :: byte where "FA_READ = 0x01"
definition FA_OPEN_EXISTING :: byte where "FA_OPEN_EXISTING = 0x00"
definition FA_WRITE :: byte where "FA_WRITE = 0x02"
definition FA_CREATE_NEW :: byte where "FA_CREATE_NEW = 0x04"
definition FA_CREATE_ALWAYS :: byte where "FA_CREATE_ALWAYS = 0x08"
definition FA_OPEN_ALWAYS :: byte where "FA_OPEN_ALWAYS = 0x10"

text \<open>Flags and error numbers of newlib.\<close>

definition FREAD :: int where "FREAD = 1"
definition FWRITE :: int where "FWRITE = 2"
definition O_APPEND :: int where "O_APPEND = 0x0008"
definition O_CREAT :: int where "O_CREAT = 0x0200"
definition O_TRUNC :: int where "O_TRUNC = 0x0400"
definition O_EXCL :: int where "O_EXCL = 0x0800"

definition ENOENT :: int where "ENOENT = 2"
definition EFAULT :: int where "EFAULT = 14"
definition ENODEV :: int where "ENODEV = 19"
definition ENOSPC :: int where "ENOSPC = 28"

definition SEEK_SET :: int where "SEEK_SET = 0"
definition SEEK_CUR :: int where "SEEK_CUR = 1"
definition SEEK_END :: int where "SEEK_END = 2"

definition S_IFREG :: int where "S_IFREG = 0x8000"

definition EPCS_FATFS_FLASH_SECTOR :: int where "EPCS_FATFS_FLASH_SECTOR = 4096"

lemmas fa_defs = FA_READ_def FA_OPEN_EXISTING_def FA_WRITE_def FA_CREATE_NEW_def FA_CREATE_ALWAYS_def FA_OPEN_ALWAYS_def
lemmas o_defs = FREAD_def FWRITE_def O_APPEND_def O_CREAT_def O_TRUNC_def O_EXCL_def O_RDONLY_def O_WRONLY_def O_RDWR_def
lemmas fat_errors = EPERM_def EIO_def EBADF_def ENOMEM_def EBUSY_def EEXIST_def EINVAL_def ENOENT_def EFAULT_def
  ENODEV_def ENOSPC_def

record ('v, 'fil) fatfs =
  f_mount :: "'v \<Rightarrow> 'v"
  f_mkfs :: "byte list \<Rightarrow> byte \<Rightarrow> u32 \<Rightarrow> 'v \<Rightarrow> 'v \<times> fresult"
  f_open :: "byte list \<Rightarrow> byte \<Rightarrow> 'v \<Rightarrow> 'v \<times> fresult \<times> 'fil"
  f_close :: "'fil \<Rightarrow> 'v \<Rightarrow> 'v \<times> fresult \<times> 'fil"
  f_read :: "'fil \<Rightarrow> u32 \<Rightarrow> 'v \<Rightarrow> 'v \<times> fresult \<times> 'fil \<times> byte list"
  f_write :: "'fil \<Rightarrow> byte list \<Rightarrow> 'v \<Rightarrow> 'v \<times> fresult \<times> 'fil \<times> u32"
  f_lseek :: "'fil \<Rightarrow> u32 \<Rightarrow> 'v \<Rightarrow> 'v \<times> fresult \<times> 'fil"
  f_tell :: "'fil \<Rightarrow> u32"
  f_size :: "'fil \<Rightarrow> u32"

record epcs_fatfs_dev =
  fs_name :: "byte list"
  prefix_len :: nat
  has_fatfs :: bool

record ('v, 'fil) fat =
  target_dev :: "epcs_fatfs_dev option"
  fat_mallocs :: nat
  fils :: "'fil option list"
  privs :: "nat option list"
  volume :: 'v

text \<open>The fields of \<open>struct stat\<close> that are set.\<close>

record fstat =
  st_mode :: int
  st_size :: int
  st_blksize :: int
  st_blocks :: int

section \<open>The functions\<close>

definition epcs_fatfs_init ::
  "('v, 'fil) fatfs \<Rightarrow> (nat \<Rightarrow> bool) \<Rightarrow> epcs_fatfs_dev \<Rightarrow> ('v, 'fil) fat \<Rightarrow> ('v, 'fil) fat \<times> epcs_fatfs_dev \<times> int" where
  "epcs_fatfs_init ff malloc dev s =
     (let ok = malloc (fat_mallocs s); s = s\<lparr>fat_mallocs := fat_mallocs s + 1\<rparr>; dev = dev\<lparr>has_fatfs := ok\<rparr> in
      if \<not> has_fatfs dev then (s, dev, - ENOMEM)
      else
        let dev = dev\<lparr>prefix_len := length (fs_name dev) + 1\<rparr> in
        (s\<lparr>volume := f_mount ff (volume s), target_dev := Some dev\<rparr>, dev, 0))"

definition epcs_fatfs_format :: "('v, 'fil) fatfs \<Rightarrow> ('v, 'fil) fat \<Rightarrow> ('v, 'fil) fat \<times> int" where
  "epcs_fatfs_format ff s =
     (if target_dev s = None then (s, - ENODEV)
      else
        case f_mkfs ff [] 1 (word_of_int EPCS_FATFS_FLASH_SECTOR) (volume s) of
          (v, result) \<Rightarrow>
            (s\<lparr>volume := v\<rparr>,
             case result of
               FR_DISK_ERR \<Rightarrow> - EIO
             | FR_NOT_READY \<Rightarrow> - EBUSY
             | FR_MKFS_ABORTED \<Rightarrow> - ENOSPC
             | FR_INVALID_PARAMETER \<Rightarrow> - EINVAL
             | _ \<Rightarrow> 0))"

definition open_flags :: "int \<Rightarrow> byte" where
  "open_flags flags =
     (if (flags + 1) AND FREAD \<noteq> 0 then FA_READ else 0) OR
     (if (flags + 1) AND FWRITE \<noteq> 0 then FA_WRITE else 0) OR
     (if flags AND O_CREAT \<noteq> 0 then
        (if flags AND O_APPEND \<noteq> 0 then FA_OPEN_ALWAYS
         else if flags AND O_EXCL \<noteq> 0 then FA_CREATE_NEW
         else if flags AND O_TRUNC \<noteq> 0 then FA_CREATE_ALWAYS
         else FA_OPEN_ALWAYS)
      else FA_OPEN_EXISTING)"

fun open_errno :: "fresult \<Rightarrow> int" where
  "open_errno FR_NO_FILE = - ENOENT"
| "open_errno FR_NO_PATH = - ENOENT"
| "open_errno FR_EXIST = - EEXIST"
| "open_errno FR_DENIED = - EPERM"
| "open_errno FR_INT_ERR = - EFAULT"
| "open_errno _ = - EIO"

text \<open>\<open>name\<close> is a C string: a pointer behind its terminating NUL is outside the object.\<close>

definition epcs_fatfs_open ::
  "('v, 'fil) fatfs \<Rightarrow> (nat \<Rightarrow> bool) \<Rightarrow> nat \<Rightarrow> byte list \<Rightarrow> int \<Rightarrow> ('v, 'fil) fat \<Rightarrow> (('v, 'fil) fat \<times> int) option" where
  "epcs_fatfs_open ff malloc fd name flags s =
     (case target_dev s of
        None \<Rightarrow> Some (s, - ENODEV)
      | Some dev \<Rightarrow>
          let ok = malloc (fat_mallocs s); s = s\<lparr>fat_mallocs := fat_mallocs s + 1\<rparr> in
          if \<not> ok then Some (s, - ENOMEM)
          else if length name < prefix_len dev \<or> length (privs s) \<le> fd then None
          else
            let (v, f_result, fil) = f_open ff (drop (prefix_len dev) name) (open_flags flags) (volume s);
                (v, f_result, fil) =
                  (if f_result = FR_OK \<and> flags AND O_CREAT \<noteq> 0 \<and> flags AND O_APPEND \<noteq> 0
                   then f_lseek ff fil (f_size ff fil) v else (v, f_result, fil))
            in
              if f_result = FR_OK
              then Some (s\<lparr>volume := v, fils := fils s @ [Some fil], privs := (privs s)[fd := Some (length (fils s))]\<rparr>, 0)
              else Some (s\<lparr>volume := v, fils := fils s @ [None]\<rparr>, open_errno f_result))"

text \<open>The checks every function on a descriptor starts with; \<open>err\<close> makes its answer from an error.\<close>

definition with_file :: "(int \<Rightarrow> 'a) \<Rightarrow> nat \<Rightarrow> ('v, 'fil) fat \<Rightarrow> (nat \<Rightarrow> 'fil \<Rightarrow> 'a) \<Rightarrow> 'a option" where
  "with_file err fd s k =
     (if target_dev s = None then Some (err (- ENODEV))
      else if length (privs s) \<le> fd then None
      else
        case privs s ! fd of
          None \<Rightarrow> Some (err (- EBADF))
        | Some fp \<Rightarrow> if length (fils s) \<le> fp then None else map_option (k fp) (fils s ! fp))"

definition put_file :: "nat \<Rightarrow> 'fil \<Rightarrow> 'v \<Rightarrow> ('v, 'fil) fat \<Rightarrow> ('v, 'fil) fat" where
  "put_file fp fil v s = s\<lparr>volume := v, fils := (fils s)[fp := Some fil]\<rparr>"

definition epcs_fatfs_close ::
  "('v, 'fil) fatfs \<Rightarrow> nat \<Rightarrow> ('v, 'fil) fat \<Rightarrow> (('v, 'fil) fat \<times> int) option" where
  "epcs_fatfs_close ff fd s = with_file (Pair s) fd s (\<lambda>fp fil.
     case f_close ff fil (volume s) of
       (v, f_result, fil) \<Rightarrow>
         if f_result = FR_OK
         then (s\<lparr>volume := v, fils := (fils s)[fp := None], privs := (privs s)[fd := None]\<rparr>, 0)
         else (put_file fp fil v s, - EIO))"

text \<open>The last result is what was stored through \<open>ptr\<close>.\<close>

definition epcs_fatfs_read ::
  "('v, 'fil) fatfs \<Rightarrow> nat \<Rightarrow> int \<Rightarrow> ('v, 'fil) fat \<Rightarrow> (('v, 'fil) fat \<times> int \<times> byte list) option" where
  "epcs_fatfs_read ff fd len s = with_file (\<lambda>e. (s, e, [])) fd s (\<lambda>fp fil.
     case f_read ff fil (word_of_int len) (volume s) of
       (v, f_result, fil, bytes) \<Rightarrow>
         (put_file fp fil v s, if f_result = FR_OK then s32 (int (length bytes)) else - EIO, bytes))"

definition epcs_fatfs_write ::
  "('v, 'fil) fatfs \<Rightarrow> nat \<Rightarrow> byte list \<Rightarrow> ('v, 'fil) fat \<Rightarrow> (('v, 'fil) fat \<times> int) option" where
  "epcs_fatfs_write ff fd bytes s = with_file (Pair s) fd s (\<lambda>fp fil.
     case f_write ff fil bytes (volume s) of
       (v, f_result, fil, written) \<Rightarrow>
         (put_file fp fil v s, if f_result = FR_OK then s32 (uint written) else - EIO))"

text \<open>The sums are computed in \<open>DWORD\<close> and stored in a \<open>LONG\<close>.\<close>

definition seek_target :: "('v, 'fil) fatfs \<Rightarrow> 'fil \<Rightarrow> int \<Rightarrow> int \<Rightarrow> int option" where
  "seek_target ff fil ptr dir =
     (if dir = SEEK_CUR then Some (sint (f_tell ff fil + word_of_int ptr))
      else if dir = SEEK_SET then Some ptr
      else if dir = SEEK_END then Some (sint (f_size ff fil + word_of_int ptr))
      else None)"

definition epcs_fatfs_lseek ::
  "('v, 'fil) fatfs \<Rightarrow> nat \<Rightarrow> int \<Rightarrow> int \<Rightarrow> ('v, 'fil) fat \<Rightarrow> (('v, 'fil) fat \<times> int) option" where
  "epcs_fatfs_lseek ff fd ptr dir s = with_file (Pair s) fd s (\<lambda>fp fil.
     case seek_target ff fil ptr dir of
       None \<Rightarrow> (s, - EINVAL)
     | Some ofs \<Rightarrow>
         if ofs < 0 \<or> word_of_int ofs > f_size ff fil then (s, - EINVAL)
         else
           case f_lseek ff fil (word_of_int ofs) (volume s) of
             (v, f_result, fil) \<Rightarrow>
               (put_file fp fil v s, if f_result = FR_OK then sint (f_tell ff fil) else - EIO))"

definition epcs_fatfs_fstat ::
  "('v, 'fil) fatfs \<Rightarrow> nat \<Rightarrow> ('v, 'fil) fat \<Rightarrow> (fstat option \<times> int) option" where
  "epcs_fatfs_fstat ff fd s = with_file (Pair None) fd s (\<lambda>fp fil.
     let size = sint (f_size ff fil) in
     (Some \<lparr>st_mode = S_IFREG, st_size = size, st_blksize = EPCS_FATFS_FLASH_SECTOR,
        st_blocks = s32 (size + EPCS_FATFS_FLASH_SECTOR + 1) sdiv EPCS_FATFS_FLASH_SECTOR\<rparr>, 0))"

end
