(* ===== verification/Epcs_Fatfs_Props.thy ===== *)
theory Epcs_Fatfs_Props
  imports Epcs_Fatfs
begin

text \<open>
  Properties of the file system glue: the descriptors own the blocks of the file objects, what a failed close
  leaks, where a seek ends, and what a file holds after text was appended through a descriptor.
\<close>

section \<open>Calls and the blocks of the descriptors\<close>

datatype file_call = Format | Open nat "byte list" int | Close nat | Read nat int | Write nat "byte list"
  | Lseek nat int int | Fstat nat

fun do_call :: "('v, 'fil) fatfs \<Rightarrow> (nat \<Rightarrow> bool) \<Rightarrow> file_call \<Rightarrow> ('v, 'fil) fat \<Rightarrow> (('v, 'fil) fat \<times> int) option" where
  "do_call ff malloc Format s = Some (epcs_fatfs_format ff s)"
| "do_call ff malloc (Open fd name flags) s = epcs_fatfs_open ff malloc fd name flags s"
| "do_call ff malloc (Close fd) s = epcs_fatfs_close ff fd s"
| "do_call ff malloc (Read fd len) s = map_option (\<lambda>(s, r, _). (s, r)) (epcs_fatfs_read ff fd len s)"
| "do_call ff malloc (Write fd bytes) s = epcs_fatfs_write ff fd bytes s"
| "do_call ff malloc (Lseek fd ptr dir) s = epcs_fatfs_lseek ff fd ptr dir s"
| "do_call ff malloc (Fstat fd) s = map_option (\<lambda>(_, r). (s, r)) (epcs_fatfs_fstat ff fd s)"

text \<open>What the HAL passes: descriptors of its table, for an open one without a file object, and a path below
  the mount point.\<close>

fun proper :: "('v, 'fil) fat \<Rightarrow> file_call \<Rightarrow> bool" where
  "proper s Format \<longleftrightarrow> True"
| "proper s (Open fd name flags) \<longleftrightarrow> fd < length (privs s) \<and> privs s ! fd = None \<and>
     (case target_dev s of None \<Rightarrow> True | Some dev \<Rightarrow> prefix_len dev \<le> length name)"
| "proper s (Close fd) \<longleftrightarrow> fd < length (privs s)"
| "proper s (Read fd len) \<longleftrightarrow> fd < length (privs s)"
| "proper s (Write fd bytes) \<longleftrightarrow> fd < length (privs s)"
| "proper s (Lseek fd ptr dir) \<longleftrightarrow> fd < length (privs s)"
| "proper s (Fstat fd) \<longleftrightarrow> fd < length (privs s)"

inductive fat_step :: "('v, 'fil) fatfs \<Rightarrow> (nat \<Rightarrow> bool) \<Rightarrow> ('v, 'fil) fat \<Rightarrow> ('v, 'fil) fat \<Rightarrow> bool" for ff malloc where
  call: "proper s c \<Longrightarrow> do_call ff malloc c s = Some (s', r) \<Longrightarrow> fat_step ff malloc s s'"

inductive_cases fat_stepE: "fat_step ff malloc s s'"

definition in_use :: "('v, 'fil) fat \<Rightarrow> nat \<Rightarrow> bool" where
  "in_use s fp \<longleftrightarrow> fp < length (fils s) \<and> fils s ! fp \<noteq> None"

definition holds :: "('v, 'fil) fat \<Rightarrow> nat \<Rightarrow> nat \<Rightarrow> bool" where
  "holds s fd fp \<longleftrightarrow> fd < length (privs s) \<and> privs s ! fd = Some fp"

text \<open>Every block in use is held by exactly one descriptor, and every descriptor holds one in use or none.\<close>

definition owned :: "('v, 'fil) fat \<Rightarrow> bool" where
  "owned s \<longleftrightarrow> (\<forall>fd fp. holds s fd fp \<longrightarrow> in_use s fp) \<and> (\<forall>fp. in_use s fp \<longrightarrow> (\<exists>!fd. holds s fd fp))"

lemma in_use_put_file [simp]: "in_use s fp \<Longrightarrow> in_use (put_file fp fil v s) = in_use s"
  by (auto simp: in_use_def put_file_def nth_list_update fun_eq_iff)

lemma holds_put_file [simp]: "holds (put_file fp fil v s) = holds s"
  by (simp add: holds_def put_file_def fun_eq_iff)

lemma owned_put_file: "owned s \<Longrightarrow> in_use s fp \<Longrightarrow> owned (put_file fp fil v s)"
  by (simp add: owned_def)

lemma with_file_SomeE:
  assumes "with_file err fd s k = Some a"
  obtains (error) e where "a = err e" "e < 0" | (found) fp fil where "holds s fd fp" "in_use s fp" "fils s ! fp = Some fil" "a = k fp fil"
  using assms by (auto simp: with_file_def holds_def in_use_def ENODEV_def EBADF_def split: if_splits option.splits)

lemma with_file_defined:
  assumes "owned s" "fd < length (privs s)"
  shows "with_file err fd s k \<noteq> None"
proof (cases "privs s ! fd")
  case (Some fp)
  then have "in_use s fp" using assms by (auto simp: owned_def holds_def)
  then show ?thesis using assms(2) Some by (auto simp: with_file_def in_use_def)
qed (use assms in \<open>simp add: with_file_def\<close>)

lemma with_file_holds:
  assumes "holds s fd fp" "in_use s fp" "target_dev s \<noteq> None"
  shows "with_file err fd s k = Some (k fp (the (fils s ! fp)))"
  using assms by (auto simp: with_file_def holds_def in_use_def)

lemma owned_unique: "owned s \<Longrightarrow> holds s fd fp \<Longrightarrow> holds s e fp \<Longrightarrow> e = fd"
  unfolding owned_def by metis

lemma close_owned:
  assumes o: "owned s" and h: "holds s fd fp"
  shows "owned (s\<lparr>volume := v, fils := (fils s)[fp := None], privs := (privs s)[fd := None]\<rparr>)" (is "owned ?s")
proof -
  have l: "in_use s fp" using o h by (auto simp: owned_def)
  have in_use: "in_use ?s q \<longleftrightarrow> in_use s q \<and> q \<noteq> fp" for q
    by (cases "q = fp") (auto simp: in_use_def)
  have holds: "holds ?s e q \<longleftrightarrow> holds s e q \<and> e \<noteq> fd" for e q
    by (cases "e = fd") (auto simp: holds_def)
  have only: "holds s e fp \<longleftrightarrow> e = fd" for e
    using owned_unique [OF o h] h by blast
  have same: "holds s fd q \<longleftrightarrow> q = fp" for q
    using h by (auto simp: holds_def)
  show ?thesis
    using o unfolding owned_def in_use holds by (metis only same)
qed

lemma open_owned:
  assumes o: "owned s" and fd: "fd < length (privs s)" "privs s ! fd = None"
  shows "owned (s\<lparr>fat_mallocs := n, volume := v, fils := fils s @ [Some fil], privs := (privs s)[fd := Some (length (fils s))]\<rparr>)"
    (is "owned ?s")
proof -
  have in_use: "in_use ?s q \<longleftrightarrow> in_use s q \<or> q = length (fils s)" for q
    by (auto simp: in_use_def nth_append)
  have holds: "holds ?s e q \<longleftrightarrow> holds s e q \<or> e = fd \<and> q = length (fils s)" for e q
    using fd by (auto simp: holds_def nth_list_update)
  have none: "\<not> holds s fd q" for q
    using fd by (simp add: holds_def)
  have new: "\<not> in_use s (length (fils s))"
    by (simp add: in_use_def)
  show ?thesis
    using o unfolding owned_def in_use holds by (metis none new)
qed

lemma owned_cong:
  assumes "owned s" "privs t = privs s" "fils t = fils s \<or> fils t = fils s @ [None]"
  shows "owned t"
proof -
  have "in_use t fp = in_use s fp" for fp
    using assms(3) by (auto simp: in_use_def nth_append less_Suc_eq)
  then have "in_use t = in_use s" by blast
  moreover have "holds t = holds s" using assms(2) by (simp add: holds_def fun_eq_iff)
  ultimately show ?thesis using assms(1) by (simp add: owned_def)
qed

lemma open_keeps_owned:
  assumes "epcs_fatfs_open ff malloc fd name flags s = Some (s', r)" "owned s" "fd < length (privs s)" "privs s ! fd = None"
  shows "owned s'"
proof (cases "s' = s")
  case False
  then consider fil v n where "s' = s\<lparr>fat_mallocs := n, volume := v, fils := fils s @ [Some fil], privs := (privs s)[fd := Some (length (fils s))]\<rparr>"
    | "privs s' = privs s" "fils s' = fils s \<or> fils s' = fils s @ [None]"
    using assms(1) by (auto simp: epcs_fatfs_open_def Let_def split: if_splits option.splits prod.splits)
  then show ?thesis
    using open_owned [OF assms(2-4)] owned_cong [OF assms(2)] by cases auto
qed (use assms in simp)

lemma call_keeps_owned:
  assumes "do_call ff malloc c s = Some (s', r)" "proper s c" "owned s"
  shows "owned s'"
proof (cases c)
  case Format
  then show ?thesis using assms by (auto simp: epcs_fatfs_format_def intro: owned_cong split: if_splits prod.splits)
next
  case (Open fd name flags)
  then show ?thesis using assms open_keeps_owned by auto
next
  case (Close fd)
  then show ?thesis using assms
    by (auto simp: epcs_fatfs_close_def elim!: with_file_SomeE split: prod.splits if_splits
        intro: close_owned owned_put_file)
next
  case (Read fd len)
  then show ?thesis using assms
    by (auto simp: epcs_fatfs_read_def elim!: with_file_SomeE split: prod.splits intro: owned_put_file)
next
  case (Write fd bytes)
  then show ?thesis using assms
    by (auto simp: epcs_fatfs_write_def elim!: with_file_SomeE split: prod.splits intro: owned_put_file)
next
  case (Lseek fd ptr dir)
  then show ?thesis using assms
    by (auto simp: epcs_fatfs_lseek_def elim!: with_file_SomeE split: prod.splits option.splits if_splits intro: owned_put_file)
qed (use assms in auto)

lemma call_defined:
  assumes "owned s" "proper s c"
  shows "do_call ff malloc c s \<noteq> None"
proof (cases c)
  case (Open fd name flags)
  then show ?thesis using assms(2)
    by (auto simp: epcs_fatfs_open_def Let_def split: option.split prod.split)
qed (use assms in \<open>auto simp: epcs_fatfs_close_def epcs_fatfs_read_def epcs_fatfs_write_def
  epcs_fatfs_lseek_def epcs_fatfs_fstat_def with_file_defined simp del: not_None_eq\<close>)

lemma reachable_owned:
  assumes "(fat_step ff malloc)\<^sup>*\<^sup>* s s'" "owned s"
  shows "owned s'"
  using assms by induction (auto elim: fat_stepE intro: call_keeps_owned)

lemma start_owned: "fils s = [] \<Longrightarrow> privs s = replicate n None \<Longrightarrow> owned s"
  by (simp add: owned_def in_use_def holds_def)

section \<open>A failed close\<close>

text \<open>The HAL gives the descriptor free whatever \<open>close\<close> answers. After a failed close the next open on
  it overwrites the only pointer to the block of the file object.\<close>

lemma failed_close_leaks:
  assumes "owned s" "holds s fd fp" "epcs_fatfs_close ff fd s = Some (s1, - EIO)"
    "epcs_fatfs_open ff malloc fd name flags s1 = Some (s2, 0)"
  shows "in_use s2 fp \<and> (\<forall>e. \<not> holds s2 e fp)"
proof -
  have s1: "privs s1 = privs s \<and> in_use s1 fp \<and> owned s1"
    using assms(3) unfolding epcs_fatfs_close_def
  proof (cases rule: with_file_SomeE)
    case (error e)
    then show ?thesis using assms(1,2) by (auto simp: owned_def)
  next
    case (found q fil)
    then have "q = fp" using assms(2) by (simp add: holds_def)
    with found assms(1) owned_put_file show ?thesis
      by (auto simp: EIO_def split: prod.splits if_splits) (simp_all add: put_file_def)
  qed
  have h: "holds s1 fd fp" using assms(2) s1 by (simp add: holds_def)
  with s1 have only: "holds s1 e fp \<Longrightarrow> e = fd" for e by (auto simp: owned_def)
  obtain fil v n where s2: "s2 = s1\<lparr>fat_mallocs := n, volume := v, fils := fils s1 @ [Some fil], privs := (privs s1)[fd := Some (length (fils s1))]\<rparr>"
    using assms(4)
    by (auto simp: epcs_fatfs_open_def Let_def fat_errors elim: open_errno.elims split: if_splits option.splits prod.splits)
  have "in_use s2 fp" using s1 by (simp add: s2 in_use_def nth_append)
  moreover have "\<not> holds s2 e fp" for e
    using only [of e] h s1 by (auto simp: s2 holds_def in_use_def nth_list_update split: if_splits)
  ultimately show ?thesis by blast
qed

section \<open>Names, flags and the number of blocks\<close>

text \<open>\<open>prefix_len\<close> counts the slash behind the mount point, which the mount point itself does not have.\<close>

lemma mount_point_out_of_bounds:
  assumes "epcs_fatfs_init ff malloc dev s = (s1, dev', 0)" "malloc (fat_mallocs s1)"
  shows "epcs_fatfs_open ff malloc fd (fs_name dev) flags s1 = None"
  using assms by (auto simp: epcs_fatfs_init_def epcs_fatfs_open_def Let_def ENOMEM_def split: if_splits)

text \<open>A file of \<open>k\<close> full sectors has \<open>k\<close> blocks.\<close>

lemma fat_stat_blocks:
  assumes "holds s fd fp" "in_use s fp" "target_dev s \<noteq> None" "f_size ff (the (fils s ! fp)) = of_nat (4096 * k)" "k < 524287"
  shows "\<exists>st. epcs_fatfs_fstat ff fd s = Some (Some st, 0) \<and> st_size st = 4096 * int k \<and> st_blocks st = int k + 1"
proof -
  have size: "sint (of_nat (4096 * k) :: u32) = 4096 * int k"
    using sint_word_of_int_s32 [of "4096 * int k"] assms(5) by (simp add: s32_nonneg)
  have "s32 (4096 * int k + 4096 + 1) = (int k + 1) * 4096 + 1" using assms(5) by (simp add: s32_nonneg)
  moreover have "((int k + 1) * 4096 + 1) sdiv 4096 = int k + 1"
    by (simp add: signed_divide_int_def)
  ultimately show ?thesis
    using size by (simp add: epcs_fatfs_fstat_def with_file_holds [OF assms(1-3)] assms(4) EPCS_FATFS_FLASH_SECTOR_def Let_def)
qed

text \<open>Without \<open>O_CREAT\<close>, \<open>O_TRUNC\<close> and \<open>O_APPEND\<close> have no effect.\<close>

lemma flags_without_create:
  assumes "acc = O_RDONLY \<or> acc = O_WRONLY \<or> acc = O_RDWR" "extra = O_TRUNC \<or> extra = O_APPEND"
  shows "epcs_fatfs_open ff malloc fd name (acc OR extra) s = epcs_fatfs_open ff malloc fd name acc s"
proof -
  have "open_flags (acc OR extra) = open_flags acc \<and> (acc OR extra) AND O_CREAT = 0 \<and> acc AND O_CREAT = 0"
    using assms by (elim disjE) (simp_all add: open_flags_def o_defs fa_defs)
  then show ?thesis by (simp add: epcs_fatfs_open_def Let_def split: option.split)
qed

section \<open>Files\<close>

text \<open>
  What the documentation of FatFs says of the functions, for an observer who sees \<open>disk v p\<close>, the closed file
  of path \<open>p\<close>, and \<open>data v fil\<close>, the file as the file object has it; \<open>owner\<close> is the path a file object was
  opened with.
\<close>

definition sized :: "('v, 'fil) fatfs \<Rightarrow> ('v \<Rightarrow> 'fil \<Rightarrow> byte list) \<Rightarrow> 'v \<Rightarrow> 'fil \<Rightarrow> bool" where
  "sized ff data v fil \<longleftrightarrow> unat (f_size ff fil) = length (data v fil)"

definition overwrite :: "byte list \<Rightarrow> nat \<Rightarrow> byte list \<Rightarrow> byte list" where
  "overwrite d t bs = take t d @ bs @ drop (t + length bs) d"

definition fatfs_laws :: "('v, 'fil) fatfs \<Rightarrow> ('v \<Rightarrow> byte list \<Rightarrow> byte list option) \<Rightarrow> ('v \<Rightarrow> 'fil \<Rightarrow> byte list) \<Rightarrow>
    ('fil \<Rightarrow> byte list) \<Rightarrow> bool" where
  "fatfs_laws ff disk data owner \<longleftrightarrow>
     (\<forall>p fl v v' fil. f_open ff p fl v = (v', FR_OK, fil) \<longrightarrow>
        owner fil = p \<and> f_tell ff fil = 0 \<and> sized ff data v' fil \<and>
        data v' fil = (if fl AND (FA_CREATE_NEW OR FA_CREATE_ALWAYS) \<noteq> 0 then []
                       else case disk v p of None \<Rightarrow> [] | Some d \<Rightarrow> d)) \<and>
     (\<forall>fil ofs v v' fil'. f_lseek ff fil ofs v = (v', FR_OK, fil') \<and> ofs \<le> f_size ff fil \<longrightarrow>
        owner fil' = owner fil \<and> f_tell ff fil' = ofs \<and> f_size ff fil' = f_size ff fil \<and> data v' fil' = data v fil) \<and>
     (\<forall>fil bs v v' fil' n. f_write ff fil bs v = (v', FR_OK, fil', n) \<longrightarrow>
        owner fil' = owner fil \<and> unat n \<le> length bs \<and> unat (f_tell ff fil') = unat (f_tell ff fil) + unat n \<and>
        sized ff data v' fil' \<and> data v' fil' = overwrite (data v fil) (unat (f_tell ff fil)) (take (unat n) bs)) \<and>
     (\<forall>fil len v v' fil' bs. f_read ff fil len v = (v', FR_OK, fil', bs) \<longrightarrow>
        owner fil' = owner fil \<and> bs = take (unat len) (drop (unat (f_tell ff fil)) (data v fil)) \<and>
        unat (f_tell ff fil') = unat (f_tell ff fil) + length bs \<and>
        f_size ff fil' = f_size ff fil \<and> data v' fil' = data v fil) \<and>
     (\<forall>fil v v' fil'. f_close ff fil v = (v', FR_OK, fil') \<longrightarrow> disk v' (owner fil) = Some (data v fil))"

lemma law_open:
  assumes "fatfs_laws ff disk data owner" "f_open ff p fl v = (v', FR_OK, fil)"
  shows "owner fil = p" "f_tell ff fil = 0" "sized ff data v' fil"
    "data v' fil = (if fl AND (FA_CREATE_NEW OR FA_CREATE_ALWAYS) \<noteq> 0 then []
                    else case disk v p of None \<Rightarrow> [] | Some d \<Rightarrow> d)"
  using assms unfolding fatfs_laws_def by simp_all

lemma law_lseek:
  assumes "fatfs_laws ff disk data owner" "f_lseek ff fil ofs v = (v', FR_OK, fil')" "ofs \<le> f_size ff fil"
  shows "owner fil' = owner fil" "f_tell ff fil' = ofs" "f_size ff fil' = f_size ff fil" "data v' fil' = data v fil"
  using assms unfolding fatfs_laws_def by metis+

lemma law_write:
  assumes "fatfs_laws ff disk data owner" "f_write ff fil bs v = (v', FR_OK, fil', n)"
  shows "owner fil' = owner fil" "unat n \<le> length bs" "unat (f_tell ff fil') = unat (f_tell ff fil) + unat n"
    "sized ff data v' fil'" "data v' fil' = overwrite (data v fil) (unat (f_tell ff fil)) (take (unat n) bs)"
  using assms unfolding fatfs_laws_def by blast+

lemma law_read:
  assumes "fatfs_laws ff disk data owner" "f_read ff fil len v = (v', FR_OK, fil', bs)"
  shows "owner fil' = owner fil" "bs = take (unat len) (drop (unat (f_tell ff fil)) (data v fil))"
    "unat (f_tell ff fil') = unat (f_tell ff fil) + length bs" "f_size ff fil' = f_size ff fil" "data v' fil' = data v fil"
  using assms unfolding fatfs_laws_def by blast+

lemma law_close:
  assumes "fatfs_laws ff disk data owner" "f_close ff fil v = (v', FR_OK, fil')"
  shows "disk v' (owner fil) = Some (data v fil)"
  using assms unfolding fatfs_laws_def by blast

text \<open>The abstract state of a descriptor: the path, the contents and the position.\<close>

definition file_at :: "('v, 'fil) fatfs \<Rightarrow> ('v \<Rightarrow> 'fil \<Rightarrow> byte list) \<Rightarrow> ('fil \<Rightarrow> byte list) \<Rightarrow> ('v, 'fil) fat \<Rightarrow> nat \<Rightarrow>
    byte list \<Rightarrow> byte list \<Rightarrow> nat \<Rightarrow> bool" where
  "file_at ff data owner s fd p d t \<longleftrightarrow>
     (\<exists>fp fil. target_dev s \<noteq> None \<and> holds s fd fp \<and> fp < length (fils s) \<and> fils s ! fp = Some fil \<and>
       owner fil = p \<and> data (volume s) fil = d \<and> unat (f_tell ff fil) = t \<and> t \<le> length d \<and> sized ff data (volume s) fil)"

text \<open>What is left alone: the device and the size of the table of descriptors.\<close>

definition same_table :: "('v, 'fil) fat \<Rightarrow> ('v, 'fil) fat \<Rightarrow> bool" where
  "same_table s s' \<longleftrightarrow> target_dev s' = target_dev s \<and> length (privs s') = length (privs s)"

lemma file_at_with_file:
  assumes "file_at ff data owner s fd p d t" "with_file err fd s k = Some a"
  obtains fp fil where "a = k fp fil" "target_dev s \<noteq> None" "holds s fd fp" "fp < length (fils s)" "fils s ! fp = Some fil"
    "owner fil = p" "data (volume s) fil = d" "unat (f_tell ff fil) = t" "t \<le> length d" "sized ff data (volume s) fil"
proof -
  obtain fp fil where *: "target_dev s \<noteq> None" "holds s fd fp" "fp < length (fils s)" "fils s ! fp = Some fil"
    "owner fil = p" "data (volume s) fil = d" "unat (f_tell ff fil) = t" "t \<le> length d" "sized ff data (volume s) fil"
    using assms(1) by (auto simp: file_at_def)
  have "a = k fp fil"
    using assms(2) with_file_holds [OF *(2) _ *(1), of err k] *(3,4) by (simp add: in_use_def)
  with * that show ?thesis by blast
qed

lemma file_at_put:
  assumes "target_dev s \<noteq> None" "holds s fd fp" "fp < length (fils s)"
    "owner fil = p" "data v fil = d" "unat (f_tell ff fil) = t" "t \<le> length d" "sized ff data v fil"
  shows "file_at ff data owner (put_file fp fil v s) fd p d t"
  using assms by (auto simp: file_at_def holds_def put_file_def)

lemma same_table_put [simp]: "same_table s (put_file fp fil v s)"
  by (simp add: same_table_def put_file_def)

lemma s32_not_negative: "0 \<le> s32 x \<Longrightarrow> 0 \<le> x \<Longrightarrow> x < 4294967296 \<Longrightarrow> s32 x = x"
proof (cases "x < 2147483648")
  case False
  assume x: "0 \<le> s32 x" "x < 4294967296"
  have "s32 x = (x - 2147483648) mod 4294967296 - 2147483648"
    unfolding s32_def using mod_add_self2 [of "x - 2147483648" 4294967296] by (simp add: algebra_simps)
  with False x show ?thesis by simp
qed (simp add: s32_nonneg)

section \<open>The operations on the abstract state\<close>

lemma at_open:
  assumes laws: "fatfs_laws ff disk data owner" and dev: "target_dev s = Some dev" and ok: "epcs_fatfs_open ff malloc fd name flags s = Some (s', 0)"
    and flags: "open_flags flags AND (FA_CREATE_NEW OR FA_CREATE_ALWAYS) = 0"
    and d: "d = (case disk (volume s) (drop (prefix_len dev) name) of None \<Rightarrow> [] | Some d \<Rightarrow> d)"
  shows "file_at ff data owner s' fd (drop (prefix_len dev) name) d
      (if flags AND O_CREAT \<noteq> 0 \<and> flags AND O_APPEND \<noteq> 0 then length d else 0) \<and> same_table s s'"
proof -
  let ?p = "drop (prefix_len dev) name"
  have fd: "fd < length (privs s)" using ok dev
    by (auto simp: epcs_fatfs_open_def Let_def fat_errors split: if_splits)
  obtain v fil where o: "f_open ff ?p (open_flags flags) (volume s) = (v, FR_OK, fil)"
    using ok dev by (auto simp: epcs_fatfs_open_def Let_def fat_errors elim: open_errno.elims split: if_splits prod.splits)
  have l: "owner fil = ?p" "f_tell ff fil = 0" "sized ff data v fil" "data v fil = d"
    using law_open [OF laws o] flags d by auto
  show ?thesis
  proof (cases "flags AND O_CREAT \<noteq> 0 \<and> flags AND O_APPEND \<noteq> 0")
    case True
    obtain v' fil' where k: "f_lseek ff fil (f_size ff fil) v = (v', FR_OK, fil')"
      using ok dev o True by (auto simp: epcs_fatfs_open_def Let_def fat_errors elim: open_errno.elims split: if_splits prod.splits)
    have "owner fil' = ?p" "f_tell ff fil' = f_size ff fil" "f_size ff fil' = f_size ff fil" "data v' fil' = d"
      using law_lseek [OF laws k] l by auto
    then show ?thesis using ok dev o k True fd l(3,4)
      by (auto simp: epcs_fatfs_open_def Let_def file_at_def holds_def same_table_def sized_def nth_append fat_errors split: if_splits)
  next
    case False
    then show ?thesis using ok dev o fd l
      by (auto simp: epcs_fatfs_open_def Let_def file_at_def holds_def same_table_def nth_append fat_errors split: if_splits)
  qed
qed

lemma at_write:
  assumes laws: "fatfs_laws ff disk data owner" and at: "file_at ff data owner s fd p d t"
    and ok: "epcs_fatfs_write ff fd bs s = Some (s', r)" "0 \<le> r"
  shows "file_at ff data owner s' fd p (overwrite d t (take (nat r) bs)) (t + nat r) \<and> nat r \<le> length bs \<and> same_table s s'"
  using at ok(1) unfolding epcs_fatfs_write_def
proof (cases rule: file_at_with_file)
  case (1 fp fil)
  obtain v res fil' n where w: "f_write ff fil bs (volume s) = (v, res, fil', n)" by (metis prod_cases4)
  have res: "res = FR_OK" "s' = put_file fp fil' v s" "r = uint n"
    using 1(1) w ok(2) s32_not_negative [of "uint n"] uint_lt2p [of n] by (auto simp: EIO_def split: if_splits)
  then have n: "nat r = unat n" by (simp add: nat_uint_eq)
  have l: "owner fil' = p" "unat n \<le> length bs" "unat (f_tell ff fil') = t + unat n" "sized ff data v fil'"
    "data v fil' = overwrite d t (take (unat n) bs)"
    using law_write [OF laws w [unfolded res(1)]] 1(6-8) by simp_all
  have "t + unat n \<le> length (overwrite d t (take (unat n) bs))"
    using l(2) 1 by (simp add: overwrite_def)
  then have "file_at ff data owner s' fd p (overwrite d t (take (unat n) bs)) (t + unat n)"
    unfolding res(2) by (intro file_at_put 1 l)
  moreover have "same_table s s'" by (simp add: res(2))
  ultimately show ?thesis using l(2) by (simp add: n)
qed

lemma at_read:
  assumes laws: "fatfs_laws ff disk data owner" and at: "file_at ff data owner s fd p d t"
    and ok: "epcs_fatfs_read ff fd len s = Some (s', r, bs)" "0 \<le> r" and len: "0 \<le> len" "is_s32 len"
  shows "file_at ff data owner s' fd p d (t + length bs) \<and> bs = take (nat len) (drop t d) \<and> r = int (length bs) \<and> same_table s s'"
  using at ok(1) unfolding epcs_fatfs_read_def
proof (cases rule: file_at_with_file)
  case (1 fp fil)
  obtain v res fil' out where w: "f_read ff fil (word_of_int len) (volume s) = (v, res, fil', out)" by (metis prod_cases4)
  have res: "res = FR_OK" "s' = put_file fp fil' v s" "bs = out"
    using 1(1) w ok(2) by (auto simp: EIO_def split: if_splits)
  have n: "unat (word_of_int len :: u32) = nat len"
    using len by (simp add: is_s32_def unat_eq_nat_uint uint_word_of_int)
  have l: "owner fil' = p" "bs = take (nat len) (drop t d)" "unat (f_tell ff fil') = t + length bs"
    "f_size ff fil' = f_size ff fil" "data v fil' = d"
    using law_read [OF laws w [unfolded res(1)]] 1(6-8) by (simp_all add: n res(3))
  have s: "sized ff data v fil'" using l 1 by (simp add: sized_def)
  have b: "t + length bs \<le> length d" using l(2) 1 by simp
  have "int (length bs) < 2147483648" using len l(2) by (auto simp: is_s32_def min_def)
  then have "r = int (length bs)" using 1(1) w res by (simp add: s32_nonneg)
  moreover have "file_at ff data owner s' fd p d (t + length bs)"
    unfolding res(2) by (intro file_at_put 1 l b s)
  moreover have "same_table s s'" by (simp add: res(2))
  ultimately show ?thesis using l(2) by blast
qed

lemma at_close:
  assumes laws: "fatfs_laws ff disk data owner" and at: "file_at ff data owner s fd p d t"
    and ok: "epcs_fatfs_close ff fd s = Some (s', 0)"
  shows "disk (volume s') p = Some d \<and> same_table s s'"
  using at ok unfolding epcs_fatfs_close_def
proof (cases rule: file_at_with_file)
  case (1 fp fil)
  then show ?thesis using law_close [OF laws]
    by (auto simp: EIO_def same_table_def split: prod.splits if_splits)
qed

definition seek_base :: "int \<Rightarrow> byte list \<Rightarrow> nat \<Rightarrow> int" where
  "seek_base dir d t = (if dir = SEEK_CUR then int t else if dir = SEEK_END then int (length d) else 0)"

lemma sint_add_of_int: "sint (w + word_of_int ptr :: u32) = s32 (uint w + ptr)"
  by (simp flip: sint_word_of_int_s32)

lemma sized_uint: "sized ff data v fil \<Longrightarrow> uint (f_size ff fil) = int (length (data v fil))"
  by (simp add: sized_def uint_nat)

lemma seek_target_nonneg:
  assumes "seek_target ff fil ptr dir = Some ofs" "0 \<le> ofs" "is_s32 ptr" "sized ff data v fil" "data v fil = d"
    "unat (f_tell ff fil) = t" "t \<le> length d" "length d < 2147483648"
  shows "ofs = seek_base dir d t + ptr"
proof -
  have *: "0 \<le> s32 (int n + ptr) \<Longrightarrow> s32 (int n + ptr) = int n + ptr" if "n < 2147483648" for n
    using that assms(3) s32_not_negative [of "int n + ptr"] s32_id [of "int n + ptr"]
    by (cases "0 \<le> int n + ptr") (auto simp: is_s32_def)
  have size: "uint (f_size ff fil) = int (length d)" using sized_uint [OF assms(4)] by (simp only: assms(5))
  have tell: "uint (f_tell ff fil) = int t" by (rule trans [OF uint_nat]) (simp only: assms(6))
  have "t < 2147483648" using assms(7,8) by linarith
  then show ?thesis
    using assms(1,2) * [of t] * [OF assms(8)]
    by (simp add: seek_target_def seek_base_def SEEK_SET_def SEEK_CUR_def SEEK_END_def sint_add_of_int size tell split: if_splits)
qed

lemma at_lseek:
  assumes laws: "fatfs_laws ff disk data owner" and at: "file_at ff data owner s fd p d t"
    and ok: "epcs_fatfs_lseek ff fd ptr dir s = Some (s', r)" "0 \<le> r" and len: "length d < 2147483648" "is_s32 ptr"
  shows "file_at ff data owner s' fd p d (nat r) \<and> r = seek_base dir d t + ptr \<and> r \<le> int (length d) \<and> same_table s s'"
  using at ok(1) unfolding epcs_fatfs_lseek_def
proof (cases rule: file_at_with_file)
  case (1 fp fil)
  have size: "uint (f_size ff fil) = int (length d)" using 1(7) sized_uint [OF 1(10)] by simp
  obtain ofs where ofs: "seek_target ff fil ptr dir = Some ofs" "0 \<le> ofs" "word_of_int ofs \<le> f_size ff fil"
    using 1(1) ok(2) by (auto simp: EINVAL_def not_less split: option.splits if_splits)
  have eq: "ofs = seek_base dir d t + ptr"
    using seek_target_nonneg [OF ofs(1,2) len(2) 1(10,7,8,9) len(1)] .
  obtain v res fil' where w: "f_lseek ff fil (word_of_int ofs) (volume s) = (v, res, fil')" by (metis prod_cases3)
  have res: "res = FR_OK" "s' = put_file fp fil' v s" "r = sint (f_tell ff fil')"
    using 1(1) ofs w ok(2) by (auto simp: EIO_def not_less split: if_splits)
  have l: "owner fil' = p" "f_tell ff fil' = word_of_int ofs" "f_size ff fil' = f_size ff fil" "data v fil' = d"
    using law_lseek [OF laws w [unfolded res(1)] ofs(3)] 1(6,7) by simp_all
  have small: "ofs < 4294967296"
    using ofs(2) eq len 1(9) by (auto simp: seek_base_def is_s32_def split: if_splits)
  then have u: "uint (word_of_int ofs :: u32) = ofs" using ofs(2) by (simp add: uint_word_of_int)
  then have le: "ofs \<le> int (length d)" using ofs(3) size by (simp add: word_le_def)
  have r: "r = ofs" unfolding res(3) l(2) sint_word_of_int_s32 using le len(1) ofs(2) by (simp add: s32_nonneg)
  have t: "unat (f_tell ff fil') = nat r" by (simp add: l(2) u r flip: nat_uint_eq)
  have b: "nat r \<le> length d" using le r by simp
  have s: "sized ff data v fil'" using l 1(7,10) by (simp add: sized_def)
  have "file_at ff data owner s' fd p d (nat r)"
    unfolding res(2) by (intro file_at_put 1 l t b s)
  moreover have "same_table s s'" by (simp add: res(2))
  ultimately show ?thesis using eq le r by simp
qed

section \<open>A concrete FatFs\<close>

text \<open>A small FatFs: the volume is the list of the files that were closed, a file object is the path, the
  contents and the position.\<close>

type_synonym small_fil = "byte list \<times> byte list \<times> u32"

definition fits :: "byte list \<Rightarrow> bool" where
  "fits d \<longleftrightarrow> length d < 4294967296"

definition small_fat :: "((byte list \<times> byte list) list, small_fil) fatfs" where
  "small_fat =
     \<lparr>f_mount = id, f_mkfs = (\<lambda>_ _ _ _. ([], FR_OK)),
      f_open = (\<lambda>p fl v.
        let d = (if fl AND (FA_CREATE_NEW OR FA_CREATE_ALWAYS) \<noteq> 0 then [] else case map_of v p of None \<Rightarrow> [] | Some d \<Rightarrow> d) in
        (v, if fits d then FR_OK else FR_DENIED, p, d, 0)),
      f_close = (\<lambda>(p, d, t) v. ((p, d) # v, FR_OK, p, d, t)),
      f_read = (\<lambda>(p, d, t) len v.
        let bs = take (unat len) (drop (unat t) d) in
        (v, if fits d then FR_OK else FR_INT_ERR, (p, d, t + of_nat (length bs)), bs)),
      f_write = (\<lambda>(p, d, t) bs v.
        if unat t \<le> length d \<and> fits (d @ bs) then (v, FR_OK, (p, overwrite d (unat t) bs, t + of_nat (length bs)), of_nat (length bs))
        else (v, FR_DENIED, (p, d, t), 0)),
      f_lseek = (\<lambda>(p, d, t) ofs v. (v, FR_OK, p, d, ofs)),
      f_tell = (\<lambda>(p, d, t). t), f_size = (\<lambda>(p, d, t). of_nat (length d))\<rparr>"

lemma unat_of_small: "n < 4294967296 \<Longrightarrow> unat (of_nat n :: u32) = n"
  by (simp add: unat_of_nat)

lemma unat_add_small: "unat t + n < 4294967296 \<Longrightarrow> unat (t + of_nat n :: u32) = unat t + n"
  by (subst unat_plus_if') (simp add: unat_of_small)

lemma unat_add_min: "m < 4294967296 \<Longrightarrow>
    unat (t + of_nat (min (m - unat t) n) :: u32) = unat t + min (m - unat t) n"
  using unsigned_less [of t, where 'a = nat] by (intro unat_add_small) (auto simp: min_def)

lemma length_overwrite: "t \<le> length d \<Longrightarrow> length (overwrite d t bs) = max (length d) (t + length bs)"
  by (auto simp: overwrite_def)

lemma small_fat_laws: "fatfs_laws small_fat map_of (\<lambda>_ (_, d, _). d) fst"
  unfolding fatfs_laws_def
proof (intro conjI allI impI, goal_cases)
qed (auto simp: small_fat_def sized_def fits_def length_overwrite Let_def unat_add_min unat_of_small unat_add_small split: if_splits prod.splits)

text \<open>The file "/m/a" of the volume below "/m", which holds the bytes 1, 2, 3, and the states of the calls.\<close>

definition ex_dev :: epcs_fatfs_dev where
  "ex_dev = \<lparr>fs_name = [0x2f, 0x6d], prefix_len = 3, has_fatfs = True\<rparr>"

definition ex_name :: "byte list" where
  "ex_name = [0x2f, 0x6d, 0x2f, 0x61]"

definition ex_state :: "nat \<Rightarrow> small_fil option list \<Rightarrow> nat option \<Rightarrow> (byte list \<times> byte list) list \<Rightarrow>
    ((byte list \<times> byte list) list, small_fil) fat" where
  "ex_state n blocks p v =
     \<lparr>target_dev = Some ex_dev, fat_mallocs = n, fils = blocks, privs = [None, None, None, p], volume = v @ [([0x61], [1, 2, 3])]\<rparr>"

lemmas ex_defs = ex_state_def ex_dev_def ex_name_def small_fat_def with_file_def put_file_def open_flags_def o_defs fa_defs
  SEEK_SET_def SEEK_CUR_def fits_def overwrite_def Let_def

lemma ex_calls:
  "epcs_fatfs_open small_fat (\<lambda>_. True) 3 ex_name (O_WRONLY OR O_CREAT OR O_APPEND) (ex_state 1 [] None []) =
     Some (ex_state 2 [Some ([0x61], [1, 2, 3], 3)] (Some 0) [], 0)"
  "epcs_fatfs_write small_fat 3 [4, 5] (ex_state 2 [Some ([0x61], [1, 2, 3], 3)] (Some 0) []) =
     Some (ex_state 2 [Some ([0x61], [1, 2, 3, 4, 5], 5)] (Some 0) [], 2)"
  "epcs_fatfs_close small_fat 3 (ex_state 2 [Some ([0x61], [1, 2, 3, 4, 5], 5)] (Some 0) []) =
     Some (ex_state 2 [None] None [([0x61], [1, 2, 3, 4, 5])], 0)"
  "epcs_fatfs_open small_fat (\<lambda>_. True) 3 ex_name O_RDONLY (ex_state 2 [None] None [([0x61], [1, 2, 3, 4, 5])]) =
     Some (ex_state 3 [None, Some ([0x61], [1, 2, 3, 4, 5], 0)] (Some 1) [([0x61], [1, 2, 3, 4, 5])], 0)"
  "epcs_fatfs_lseek small_fat 3 2 SEEK_SET (ex_state 3 [None, Some ([0x61], [1, 2, 3, 4, 5], 0)] (Some 1) [([0x61], [1, 2, 3, 4, 5])]) =
     Some (ex_state 3 [None, Some ([0x61], [1, 2, 3, 4, 5], 2)] (Some 1) [([0x61], [1, 2, 3, 4, 5])], 2)"
  by (simp_all add: ex_defs epcs_fatfs_open_def epcs_fatfs_write_def epcs_fatfs_close_def epcs_fatfs_lseek_def
      seek_target_def s32_nonneg)

lemma ex_read:
  "\<exists>s r bs. epcs_fatfs_read small_fat 3 10 (ex_state 3 [None, Some ([0x61], [1, 2, 3, 4, 5], 2)] (Some 1) [([0x61], [1, 2, 3, 4, 5])]) =
     Some (s, r, bs) \<and> 0 \<le> r"
  by (simp add: ex_defs epcs_fatfs_read_def s32_nonneg)

section \<open>Properties\<close>





end
