(* ===== verification/Rubic_Methods.thy ===== *)
theory Rubic_Methods
  imports Client_Fs_Props
begin

text \<open>
  The Rubic agent (\<open>rubic_agent.c\<close>), the part without threads: the registered runtimes and storages, the
  RPC methods that describe them, and the programmer methods that hash and write flash blocks.

  \<^item> The callbacks of a programmer are the parameter \<open>pg\<close>: functions on the state \<open>'w\<close> of what they
    program. Its \<open>user_data\<close> is part of the functions.
  \<^item> A method answers the result document or NULL and \<open>errno\<close>, which the RPC server has set to 0.
  \<^item> \<open>rb_blocks\<close> counts the blocks the agent has allocated and neither freed nor handed over.
\<close>

section \<open>State\<close>

definition EILSEQ :: int where "EILSEQ = 138"
definition ENODEV :: int where "ENODEV = 19"
definition ENOSPC :: int where "ENOSPC = 28"
definition ESRCH :: int where "ESRCH = 3"

lemmas rubic_errors = EILSEQ_def ENODEV_def ENOSPC_def ESRCH_def EINVAL_def ENOMEM_def EIO_def

record runtime =
  rt_name :: "byte list"
  rt_version :: "byte list option"
  rt_runner :: u32

record storage =
  st_name :: "byte list"
  st_path :: "byte list"

record 'w rubic =
  rb_runtimes :: "runtime option list"
  rb_storages :: "storage option list"
  cached_info :: "mem option"
  rb_mallocs :: nat
  rb_blocks :: int
  rb_dev :: 'w

type_synonym 'w rubic_result = "(mem option \<times> int \<times> 'w rubic) option"

definition RUBIC_AGENT_MAX_RUNTIMES :: nat where "RUBIC_AGENT_MAX_RUNTIMES = 1"
definition RUBIC_AGENT_MAX_STORAGES :: nat where "RUBIC_AGENT_MAX_STORAGES = 1"
definition RUBIC_AGENT_WORKER_THREADS :: nat where "RUBIC_AGENT_WORKER_THREADS = 1"
definition RUBIC_AGENT_RUBIC_VERSION :: "byte list" where "RUBIC_AGENT_RUBIC_VERSION = cstr ''>=0.99.100''"

lemmas rubic_maxima = RUBIC_AGENT_MAX_RUNTIMES_def RUBIC_AGENT_MAX_STORAGES_def RUBIC_AGENT_WORKER_THREADS_def

definition rubic_malloc :: "allocator \<Rightarrow> int \<Rightarrow> 'w rubic \<Rightarrow> 'w rubic \<times> bool" where
  "rubic_malloc malloc sz s =
     (if malloc (rb_mallocs s) (word_of_int sz) then (s\<lparr>rb_mallocs := rb_mallocs s + 1, rb_blocks := rb_blocks s + 1\<rparr>, True)
      else (s\<lparr>rb_mallocs := rb_mallocs s + 1\<rparr>, False))"

definition rubic_free :: "mem option \<Rightarrow> 'w rubic \<Rightarrow> 'w rubic" where
  "rubic_free p s = (if p = None then s else s\<lparr>rb_blocks := rb_blocks s - 1\<rparr>)"

text \<open>What the methods have in common: an error, a block, and the result handed over to the caller.\<close>

definition rubic_fail :: "int \<Rightarrow> 'w rubic \<Rightarrow> 'w rubic_result" where
  "rubic_fail e s = Some (None, e, s)"

definition rubic_give :: "mem \<Rightarrow> 'w rubic \<Rightarrow> 'w rubic_result" where
  "rubic_give m s = Some (Some m, 0, rubic_free (Some m) s)"

definition with_rubic_block ::
    "allocator \<Rightarrow> int \<Rightarrow> int \<Rightarrow> 'w rubic \<Rightarrow> (mem \<Rightarrow> 'w rubic \<Rightarrow> 'w rubic_result) \<Rightarrow> 'w rubic_result" where
  "with_rubic_block malloc n e s k =
     (case rubic_malloc malloc n s of
        (s, False) \<Rightarrow> rubic_fail e s
      | (s, True) \<Rightarrow> k (replicate (unat (word_of_int n :: u32)) 0) s)"

section \<open>Runtimes and storages\<close>

fun find_runtime :: "runtime option list \<Rightarrow> byte list option \<Rightarrow> runtime option" where
  "find_runtime [] name = None"
| "find_runtime (None # rs) name = find_runtime rs name"
| "find_runtime (Some r # rs) name =
     (if name = None \<or> name = Some (rt_name r) then Some r else find_runtime rs name)"

fun first_slot :: "'a option list \<Rightarrow> 'a \<Rightarrow> 'a option list option" where
  "first_slot [] x = None"
| "first_slot (None # xs) x = Some (Some x # xs)"
| "first_slot (Some y # xs) x = map_option ((#) (Some y)) (first_slot xs x)"

definition rubic_agent_register_runtime :: "runtime \<Rightarrow> 'w rubic \<Rightarrow> 'w rubic \<times> int" where
  "rubic_agent_register_runtime r s =
     (case first_slot (rb_runtimes s) r of
        None \<Rightarrow> (s, - ENOSPC)
      | Some rs \<Rightarrow> (s\<lparr>rb_runtimes := rs\<rparr>, 0))"

definition rubic_agent_register_storage :: "storage \<Rightarrow> 'w rubic \<Rightarrow> 'w rubic \<times> int" where
  "rubic_agent_register_storage st s =
     (case first_slot (rb_storages s) st of
        None \<Rightarrow> (s, - ENOSPC)
      | Some sts \<Rightarrow> (s\<lparr>rb_storages := sts\<rparr>, 0))"

section \<open>\<open>rubic.info\<close>\<close>

text \<open>A call of a writer of \<open>bson.c\<close> through a pointer into the middle of a block.\<close>

definition at_offset :: "nat \<Rightarrow> (mem \<Rightarrow> mem option) \<Rightarrow> mem \<Rightarrow> mem option" where
  "at_offset n f m = do { m' \<leftarrow> f (drop n m); Some (take n m @ m') }"

definition set_str :: "byte list \<Rightarrow> byte list \<Rightarrow> mem \<Rightarrow> mem option" where
  "set_str k v m = do { (m, _) \<leftarrow> bson_set_string (Some m) k v; m }"

text \<open>The object \<open>temp\<close> of one runtime.\<close>

definition runtime_doc :: "runtime \<Rightarrow> mem option" where
  "runtime_doc r =
     do { temp \<leftarrow> bson_create_empty_document (replicate 64 0);
          temp \<leftarrow> set_str (cstr ''name'') (rt_name r) temp;
          case rt_version r of None \<Rightarrow> Some temp | Some v \<Rightarrow> set_str (cstr ''version'') v temp }"

fun add_runtimes :: "int \<Rightarrow> runtime option list \<Rightarrow> mem \<Rightarrow> mem option" where
  "add_runtimes i [] subdoc1 = Some subdoc1"
| "add_runtimes i (None # rs) subdoc1 = Some subdoc1"
| "add_runtimes i (Some r # rs) subdoc1 =
     do { temp \<leftarrow> runtime_doc r;
          let subscript = [word_of_int (i - 48)];
          (subdoc1, _) \<leftarrow> bson_set_subdocument (Some subdoc1) subscript temp;
          subdoc1 \<leftarrow> subdoc1;
          add_runtimes (i + 1) rs subdoc1 }"

fun add_storages :: "storage option list \<Rightarrow> mem \<Rightarrow> mem option" where
  "add_storages [] subdoc2 = Some subdoc2"
| "add_storages (None # sts) subdoc2 = Some subdoc2"
| "add_storages (Some st # sts) subdoc2 =
     do { subdoc2 \<leftarrow> set_str (st_name st) (st_path st) subdoc2; add_storages sts subdoc2 }"

definition info_parts :: "nat" where
  "info_parts = 64 * RUBIC_AGENT_MAX_RUNTIMES"

text \<open>Both documents in their block: the second one starts behind the room of the first.\<close>

definition info_subdocs :: "runtime option list \<Rightarrow> storage option list \<Rightarrow> mem \<Rightarrow> mem option" where
  "info_subdocs rs sts m =
     do { m \<leftarrow> bson_create_empty_document m;
          m \<leftarrow> at_offset info_parts bson_create_empty_document m;
          m \<leftarrow> add_runtimes 0 rs m;
          at_offset info_parts (add_storages sts) m }"

definition info_fill :: "mem \<Rightarrow> mem \<Rightarrow> mem \<Rightarrow> mem option" where
  "info_fill subdoc1 subdoc2 m =
     do { m \<leftarrow> bson_create_empty_document m;
          m \<leftarrow> set_str (cstr ''rubicVersion'') RUBIC_AGENT_RUBIC_VERSION m;
          (m, _) \<leftarrow> bson_set_array (Some m) (cstr ''runtimes'') subdoc1;
          (m, _) \<leftarrow> bson_set_subdocument m (cstr ''storages'') subdoc2;
          m }"

definition generate_info :: "allocator \<Rightarrow> 'w rubic \<Rightarrow> ('w rubic \<times> int) option" where
  "generate_info malloc s =
     (let s = rubic_free (cached_info s) s\<lparr>cached_info := None\<rparr>;
          n = 64 * (RUBIC_AGENT_MAX_RUNTIMES + RUBIC_AGENT_MAX_STORAGES) in
      case rubic_malloc malloc (int n) s of
        (s, False) \<Rightarrow> Some (s, - ENOMEM)
      | (s, True) \<Rightarrow>
          do { m \<leftarrow> info_subdocs (rb_runtimes s) (rb_storages s) (replicate n 0);
               let subdoc2 = drop info_parts m;
               a \<leftarrow> bson_measure_string (cstr ''rubicVersion'') RUBIC_AGENT_RUBIC_VERSION;
               b \<leftarrow> bson_measure_array (cstr ''runtimes'') m;
               c \<leftarrow> bson_measure_subdocument (cstr ''storages'') subdoc2;
               let len = bson_empty_size + a + b + c;
               case rubic_malloc malloc len s of
                 (s, False) \<Rightarrow> Some (rubic_free (Some m) s, - ENOMEM)
               | (s, True) \<Rightarrow>
                   do { output \<leftarrow> info_fill m subdoc2 (replicate (unat (word_of_int len :: u32)) 0);
                        Some (rubic_free (Some m) s\<lparr>cached_info := Some output\<rparr>, 0) } })"

definition info_copy :: "allocator \<Rightarrow> mem \<Rightarrow> 'w rubic \<Rightarrow> 'w rubic_result" where
  "info_copy malloc info s =
     do { len \<leftarrow> bson_measure_document info;
          with_rubic_block malloc len 0 s (\<lambda>result s.
            do { bytes \<leftarrow> rd_block info 0 len;
                 result \<leftarrow> wr_block result 0 bytes;
                 rubic_give result s }) }"

definition rubic_agent_method_info :: "allocator \<Rightarrow> mem option \<Rightarrow> 'w rubic \<Rightarrow> 'w rubic_result" where
  "rubic_agent_method_info malloc params s =
     (case cached_info s of
        Some info \<Rightarrow> info_copy malloc info s
      | None \<Rightarrow>
          do { (s, e) \<leftarrow> generate_info malloc s;
               if e \<noteq> 0 then rubic_fail e s
               else do { info \<leftarrow> cached_info s; info_copy malloc info s } })"

section \<open>The programmer\<close>

record 'w programmer =
  pg_blksize :: "byte list \<Rightarrow> 'w \<Rightarrow> ('w \<times> int) option"
  pg_reader :: "byte list \<Rightarrow> int \<Rightarrow> int \<Rightarrow> 'w \<Rightarrow> ('w \<times> byte list \<times> int) option"
  pg_writer :: "byte list \<Rightarrow> int \<Rightarrow> byte list \<Rightarrow> int \<Rightarrow> 'w \<Rightarrow> ('w \<times> int) option"

text \<open>What hash and write start with: the members of the parameters, the area, its block size and the offset.\<close>

definition with_rubic_props :: "byte list list \<Rightarrow> int \<Rightarrow> mem option \<Rightarrow> 'w rubic \<Rightarrow> (props \<Rightarrow> 'w rubic_result) \<Rightarrow> 'w rubic_result" where
  "with_rubic_props ks junk params s k =
     do { (n, ps) \<leftarrow> bson_get_props params (map (\<lambda>k. (k, junk)) ks);
          if n < 0 then rubic_fail EINVAL s else k ps }"

definition with_area ::
    "'w programmer \<Rightarrow> mem option \<Rightarrow> props \<Rightarrow> 'w rubic \<Rightarrow> (byte list \<Rightarrow> int \<Rightarrow> int \<Rightarrow> 'w rubic \<Rightarrow> 'w rubic_result) \<Rightarrow> 'w rubic_result" where
  "with_area pg params ps s k =
     do { area \<leftarrow> bson_get_string params (off_of (cstr ''area'') ps);
          case area of
            None \<Rightarrow> rubic_fail EINVAL s
          | Some p \<Rightarrow>
              do { area \<leftarrow> c_string (the params) p;
                   (w, block_size) \<leftarrow> pg_blksize pg area (rb_dev s);
                   let s = s\<lparr>rb_dev := w\<rparr>;
                   if block_size \<le> 0 then rubic_fail ENODEV s
                   else do {
                     offset \<leftarrow> bson_get_int32 params (off_of (cstr ''offset'') ps) (-1);
                     if offset < 0 \<or> offset AND (block_size - 1) \<noteq> 0 then rubic_fail EINVAL s
                     else k area block_size offset s } } }"

text \<open>The object \<open>hash\<close> as bytes.\<close>

definition digest_md5 :: "mem \<Rightarrow> int \<Rightarrow> int \<Rightarrow> byte list option" where
  "digest_md5 m p len = do { bytes \<leftarrow> rd_block m p len; ws \<leftarrow> digest_md5_calc bytes len; Some (md5_bytes ws) }"

definition prog_hash_result :: "byte list \<Rightarrow> int \<Rightarrow> mem \<Rightarrow> mem option" where
  "prog_hash_result hash block_size buf =
     do { buf \<leftarrow> bson_create_empty_document buf;
          (buf, _, hash_ptr) \<leftarrow> bson_set_binary_generic (Some buf) (cstr ''hash'') 16;
          buf \<leftarrow> buf; hash_ptr \<leftarrow> hash_ptr;
          buf \<leftarrow> wr_block buf hash_ptr hash;
          (buf, _) \<leftarrow> bson_set_int32 (Some buf) (cstr ''length'') block_size;
          buf }"

definition hash_block ::
    "'w programmer \<Rightarrow> allocator \<Rightarrow> byte list \<Rightarrow> int \<Rightarrow> int \<Rightarrow> 'w rubic \<Rightarrow> 'w rubic_result" where
  "hash_block pg malloc area block_size offset s =
     with_rubic_block malloc block_size ENOMEM s (\<lambda>buf s.
       do { (w, bytes, result) \<leftarrow> pg_reader pg area offset block_size (rb_dev s);
            let s = s\<lparr>rb_dev := w\<rparr>;
            buf \<leftarrow> wr_block buf 0 bytes;
            if result < 0 then rubic_fail EIO (rubic_free (Some buf) s)
            else do {
              hash \<leftarrow> digest_md5 buf 0 block_size;
              a \<leftarrow> bson_measure_binary (cstr ''hash'') 16;
              b \<leftarrow> bson_measure_int32 (cstr ''length'');
              with_rubic_block malloc (bson_empty_size + a + b) ENOMEM (rubic_free (Some buf) s) (\<lambda>buf s.
                do { buf \<leftarrow> prog_hash_result hash block_size buf; rubic_give buf s }) } })"

definition rubic_agent_method_prog_hash :: "'w programmer \<Rightarrow> allocator \<Rightarrow> int \<Rightarrow> mem option \<Rightarrow> 'w rubic \<Rightarrow> 'w rubic_result" where
  "rubic_agent_method_prog_hash pg malloc junk params s =
     with_rubic_props [cstr ''area'', cstr ''offset''] junk params s (\<lambda>ps.
     with_area pg params ps s (\<lambda>area block_size offset s. hash_block pg malloc area block_size offset s))"

definition write_data ::
    "'w programmer \<Rightarrow> mem option \<Rightarrow> props \<Rightarrow> byte list \<Rightarrow> int \<Rightarrow> int \<Rightarrow> 'w rubic \<Rightarrow> 'w rubic_result" where
  "write_data pg params ps area block_size offset s =
     do { data \<leftarrow> bson_get_binary params (off_of (cstr ''data'') ps);
          case data of
            None \<Rightarrow> rubic_fail EINVAL s
          | Some (data_ptr, data_len) \<Rightarrow>
              if data_len AND (block_size - 1) \<noteq> 0 then rubic_fail EINVAL s
              else do {
                hash \<leftarrow> bson_get_binary params (off_of (cstr ''hash'') ps);
                case hash of
                  None \<Rightarrow> rubic_fail EINVAL s
                | Some (hash_ptr, hash_len) \<Rightarrow>
                    if hash_len \<noteq> 16 then rubic_fail EINVAL s
                    else do {
                      hash \<leftarrow> digest_md5 (the params) data_ptr data_len;
                      given \<leftarrow> rd_block (the params) hash_ptr 16;
                      if hash \<noteq> given then rubic_fail EILSEQ s
                      else do {
                        bytes \<leftarrow> rd_block (the params) data_ptr data_len;
                        (w, result) \<leftarrow> pg_writer pg area offset bytes data_len (rb_dev s);
                        let s = s\<lparr>rb_dev := w\<rparr>;
                        if result < 0 then rubic_fail EIO s else rubic_fail 0 s } } } }"

definition rubic_agent_method_prog_write :: "'w programmer \<Rightarrow> int \<Rightarrow> mem option \<Rightarrow> 'w rubic \<Rightarrow> 'w rubic_result" where
  "rubic_agent_method_prog_write pg junk params s =
     with_rubic_props [cstr ''area'', cstr ''offset'', cstr ''data'', cstr ''hash''] junk params s (\<lambda>ps.
     with_area pg params ps s (\<lambda>area block_size offset s.
       write_data pg params ps area block_size offset s))"

text \<open>The reset ends in an endless loop: the value is the state of the hardware in which the processor
  halts, and \<open>None\<close> when the reconfiguration core stays busy.\<close>

partial_function (option) await_reconfiguration :: "(u32 \<Rightarrow> 'd \<Rightarrow> 'd \<times> u32) \<Rightarrow> 'd \<Rightarrow> 'd option" where
  "await_reconfiguration iord d =
     (case iord 3 d of (d, v) \<Rightarrow> if v AND 1 = 0 then Some d else await_reconfiguration iord d)"

definition rubic_agent_method_prog_reset ::
    "('d \<Rightarrow> 'd) \<Rightarrow> (u32 \<Rightarrow> 'd \<Rightarrow> 'd \<times> u32) \<Rightarrow> (u32 \<Rightarrow> u32 \<Rightarrow> 'd \<Rightarrow> 'd) \<Rightarrow> 'd \<Rightarrow> 'd option" where
  "rubic_agent_method_prog_reset alt_irq_disable_all iord iowr d =
     do { d \<leftarrow> await_reconfiguration iord (alt_irq_disable_all d); Some (iowr 0 1 d) }"

text \<open>The methods \<open>rubic_agent_register_programmer\<close> adds; a reset does not return.\<close>

definition rubic_agent_register_programmer ::
    "'w programmer \<Rightarrow> allocator \<Rightarrow> int \<Rightarrow> 'w rubic method_entry list \<Rightarrow> 'w rubic method_entry list" where
  "rubic_agent_register_programmer pg malloc junk ms =
     ms @ [(cstr ''rubic.prog.hash'', Sync (rubic_agent_method_prog_hash pg malloc junk)),
           (cstr ''rubic.prog.write'', Sync (rubic_agent_method_prog_write pg junk)),
           (cstr ''rubic.prog.reset'', Sync (\<lambda>params s. None))]"

end
