(* ===== verification/Rubic_Props.thy ===== *)
theory Rubic_Props
  imports Rubic_Methods
begin

text \<open>
  Properties of the methods of the Rubic agent: what the programmer methods check before they touch the
  flash and what they answer, and the description of the board.
\<close>

section \<open>The programmer\<close>

lemma rubic_names [simp]: "name_ok (cstr ''area'')" "name_ok (cstr ''hash'')" "name_ok (cstr ''rubicVersion'')"
  "name_ok (cstr ''runtimes'')" "name_ok (cstr ''storages'')" "name_ok (cstr ''name'')" "name_ok (cstr ''version'')"
  by (simp_all add: name_ok_def cstr_def)

definition used_rubic :: "'w rubic \<Rightarrow> 'w rubic" where
  "used_rubic s = s\<lparr>rb_mallocs := rb_mallocs s + 1\<rparr>"

definition got_rubic :: "'w rubic \<Rightarrow> 'w rubic" where
  "got_rubic s = s\<lparr>rb_mallocs := rb_mallocs s + 1, rb_blocks := rb_blocks s + 1\<rparr>"

lemma with_rubic_block_ok:
  assumes "0 \<le> n" "n < 4294967296"
  shows "with_rubic_block malloc n e s k =
    (if malloc (rb_mallocs s) (word_of_int n) then k (replicate (nat n) 0) (got_rubic s) else rubic_fail e (used_rubic s))"
  by (simp add: with_rubic_block_def rubic_malloc_def word_bound [OF assms] got_rubic_def used_rubic_def)

lemma rubic_simps [simp]:
  "rb_dev (used_rubic s) = rb_dev s" "rb_dev (got_rubic s) = rb_dev s" "rb_mallocs (used_rubic s) = rb_mallocs s + 1"
  "rb_mallocs (got_rubic s) = rb_mallocs s + 1" "rubic_free (Some m) (got_rubic s) = used_rubic s"
  "rubic_free (Some m) (got_rubic s\<lparr>rb_dev := w\<rparr>) = used_rubic s\<lparr>rb_dev := w\<rparr>"
  "rb_blocks (used_rubic s) = rb_blocks s"
  by (simp_all add: used_rubic_def got_rubic_def rubic_free_def)

text \<open>What the parameters say about the block: an error, or the area, its block size and the offset.\<close>

definition area_request ::
    "'w programmer \<Rightarrow> elem list \<Rightarrow> 'w \<Rightarrow> ('w \<times> (int + byte list \<times> int \<times> int)) option" where
  "area_request pg es w =
     (case string_member es (cstr ''area'') of
        None \<Rightarrow> Some (w, Inl EINVAL)
      | Some area \<Rightarrow>
          (case pg_blksize pg area w of
             None \<Rightarrow> None
           | Some (w, block_size) \<Rightarrow>
               let offset = int_member es (cstr ''offset'') (-1) in
               Some (w, if block_size \<le> 0 then Inl ENODEV
                 else if offset < 0 \<or> offset AND (block_size - 1) \<noteq> 0 then Inl EINVAL
                 else Inr (area, block_size, offset))))"

lemma with_area_ok:
  assumes "is_doc m es" "cstr ''area'' \<in> set ks" "cstr ''offset'' \<in> set ks"
  shows "with_area pg (Some m) (found_props es ks) s k =
    (case area_request pg es (rb_dev s) of
       None \<Rightarrow> None
     | Some (w, Inl e) \<Rightarrow> rubic_fail e (s\<lparr>rb_dev := w\<rparr>)
     | Some (w, Inr (area, block_size, offset)) \<Rightarrow> k area block_size offset (s\<lparr>rb_dev := w\<rparr>))"
proof -
  from get_string_total [OF assms(1), of "cstr ''area''"] obtain r where
    r: "bson_get_string (Some m) (first_off 4 es (cstr ''area'')) = Some r"
    "case r of None \<Rightarrow> string_member es (cstr ''area'') = None
     | Some p \<Rightarrow> \<exists>str. string_member es (cstr ''area'') = Some str \<and> c_string m p = Some str" by blast
  show ?thesis
  proof (cases r)
    case None
    with r show ?thesis by (simp add: with_area_def off_of_found [OF assms(2)] area_request_def)
  next
    case (Some p)
    with r show ?thesis
      by (auto simp: with_area_def off_of_found [OF assms(2)] off_of_found [OF assms(3)] area_request_def Let_def
          get_int32_member [OF assms(1)] split: Option.bind_split option.split)
  qed
qed

text \<open>What a request to write asks for, when it is in order.\<close>

definition write_request :: "elem list \<Rightarrow> int \<Rightarrow> (byte list \<times> byte list) option" where
  "write_request es block_size =
     (case (binary_member es (cstr ''data''), binary_member es (cstr ''hash'')) of
        (Some bytes, Some h) \<Rightarrow>
          if int (length bytes) AND (block_size - 1) = 0 \<and> length h = 16 then Some (bytes, h) else None
      | _ \<Rightarrow> None)"

lemma digest_md5_block:
  assumes "rd_block m p (int (length bytes)) = Some bytes" "length bytes < 268435456"
  shows "digest_md5 m p (int (length bytes)) = Some (md5_bytes (rfc_md5 bytes))"
  using assms md5_calc_rfc [of bytes "[]"] by (simp add: digest_md5_def)

lemma binary_doc_size:
  "is_doc m es \<Longrightarrow> binary_member es k = Some bs \<Longrightarrow> length bs < doc_size es"
  using get_binary_total [of m es k] by (auto split: option.splits)

lemma with_rubic_props_ok:
  assumes "is_doc m es" "distinct ks" "\<forall>k \<in> set ks. name_ok k"
  shows "with_rubic_props ks junk (Some m) s k = k (found_props es ks)"
  using get_props_members [OF assms] by (simp add: with_rubic_props_def found_props_def)

lemma write_data_ok:
  assumes "is_doc m es" "doc_size es < 268435456" "cstr ''data'' \<in> set ks" "cstr ''hash'' \<in> set ks"
  shows "write_data pg (Some m) (found_props es ks) area block_size offset s =
    (case write_request es block_size of
       None \<Rightarrow> rubic_fail EINVAL s
     | Some (bytes, h) \<Rightarrow>
         if h \<noteq> md5_bytes (rfc_md5 bytes) then rubic_fail EILSEQ s
         else (case pg_writer pg area offset bytes (int (length bytes)) (rb_dev s) of
             None \<Rightarrow> None
           | Some (w, result) \<Rightarrow> rubic_fail (if result < 0 then EIO else 0) (s\<lparr>rb_dev := w\<rparr>)))"
proof -
  note o1 = off_of_found [OF assms(3)] off_of_found [OF assms(4)]
  from get_binary_total [OF assms(1), of "cstr ''data''"] obtain d where
    d: "bson_get_binary (Some m) (first_off 4 es (cstr ''data'')) = Some d"
    "case d of None \<Rightarrow> binary_member es (cstr ''data'') = None
     | Some (p, n) \<Rightarrow> \<exists>bs. binary_member es (cstr ''data'') = Some bs \<and> n = int (length bs) \<and> bs \<noteq> [] \<and>
         length bs < doc_size es \<and> rd_block m p n = Some bs" by blast
  from get_binary_total [OF assms(1), of "cstr ''hash''"] obtain h where
    h: "bson_get_binary (Some m) (first_off 4 es (cstr ''hash'')) = Some h"
    "case h of None \<Rightarrow> binary_member es (cstr ''hash'') = None
     | Some (p, n) \<Rightarrow> \<exists>bs. binary_member es (cstr ''hash'') = Some bs \<and> n = int (length bs) \<and> bs \<noteq> [] \<and>
         length bs < doc_size es \<and> rd_block m p n = Some bs" by blast
  show ?thesis
  proof (cases d)
    case None
    with d show ?thesis by (simp add: write_request_def write_data_def o1)
  next
    case (Some pn)
    with d(2) obtain p bs where D: "d = Some (p, int (length bs))" "binary_member es (cstr ''data'') = Some bs"
      "length bs < doc_size es" "rd_block m p (int (length bs)) = Some bs" by (cases pn) auto
    have dg: "digest_md5 m p (int (length bs)) = Some (md5_bytes (rfc_md5 bs))"
      using digest_md5_block [OF D(4)] D(3) assms(2) by simp
    show ?thesis
    proof (cases h)
      case None
      with d h D show ?thesis by (simp add: write_request_def write_data_def o1)
    next
      case (Some qn)
      with h(2) obtain q hs where H: "h = Some (q, int (length hs))" "binary_member es (cstr ''hash'') = Some hs"
        "rd_block m q (int (length hs)) = Some hs" by (cases qn) auto
      have "rd_block m q 16 = Some hs" if "length hs = 16" using H(3) that by simp
      then show ?thesis
        using d(1) h(1) D H(1,2) dg
        by (auto simp: write_request_def write_data_def o1 Let_def split: Option.bind_split option.split)
    qed
  qed
qed

text \<open>The whole of \<open>rubic.prog.write\<close>.\<close>

definition write_answer :: "'w programmer \<Rightarrow> elem list \<Rightarrow> 'w rubic \<Rightarrow> 'w rubic_result" where
  "write_answer pg es s =
    (case area_request pg es (rb_dev s) of
       None \<Rightarrow> None
     | Some (w, Inl e) \<Rightarrow> rubic_fail e (s\<lparr>rb_dev := w\<rparr>)
     | Some (w, Inr (area, block_size, offset)) \<Rightarrow>
         (case write_request es block_size of
            None \<Rightarrow> rubic_fail EINVAL (s\<lparr>rb_dev := w\<rparr>)
          | Some (bytes, h) \<Rightarrow>
              if h \<noteq> md5_bytes (rfc_md5 bytes) then rubic_fail EILSEQ (s\<lparr>rb_dev := w\<rparr>)
              else (case pg_writer pg area offset bytes (int (length bytes)) w of
                  None \<Rightarrow> None
                | Some (w, result) \<Rightarrow> rubic_fail (if result < 0 then EIO else 0) (s\<lparr>rb_dev := w\<rparr>))))"

lemma write_run:
  assumes "is_doc m es" "doc_size es < 268435456"
  shows "rubic_agent_method_prog_write pg junk (Some m) s = write_answer pg es s"
proof -
  let ?ks = "[cstr ''area'', cstr ''offset'', cstr ''data'', cstr ''hash'']"
  have d: "distinct ?ks" "\<forall>k \<in> set ?ks. name_ok k" by (simp_all add: cstr_def del: cstr_eq) (simp_all add: name_ok_def)
  have a: "cstr ''area'' \<in> set ?ks" "cstr ''offset'' \<in> set ?ks" "cstr ''data'' \<in> set ?ks" "cstr ''hash'' \<in> set ?ks" by simp_all
  show ?thesis
    by (simp only: rubic_agent_method_prog_write_def with_rubic_props_ok [OF assms(1) d] with_area_ok [OF assms(1) a(1,2)]
        write_data_ok [OF assms a(3,4)] write_answer_def) (auto split: option.split sum.split)
qed

text \<open>What the programmer does for a request to hash: the block size is a C integer; the read stores no more than
  it was asked for and, when it succeeds, exactly that.\<close>

definition reads_ok :: "'w programmer \<Rightarrow> elem list \<Rightarrow> 'w \<Rightarrow> bool" where
  "reads_ok pg es w \<longleftrightarrow>
     (\<forall>w' area block_size offset. area_request pg es w = Some (w', Inr (area, block_size, offset)) \<longrightarrow>
        is_s32 block_size \<and>
        (\<forall>w'' bytes r. pg_reader pg area offset block_size w' = Some (w'', bytes, r) \<longrightarrow>
           int (length bytes) \<le> block_size \<and> (0 \<le> r \<longrightarrow> int (length bytes) = block_size)))"

definition digest_doc :: "byte list \<Rightarrow> elem list" where
  "digest_doc bytes = [(0x05, cstr ''hash'', binary_value 0 (md5_bytes (rfc_md5 bytes))),
     (0x10, cstr ''length'', int_object (int (length bytes)))]"

lemma hash_result_ok:
  "prog_hash_result (md5_bytes (rfc_md5 bytes)) (int (length bytes)) (replicate 44 0) = Some (enc_doc (digest_doc bytes))"
proof -
  let ?z = "replicate 16 0 :: byte list"
  from create_in_block [of 44] obtain m1 where
    1: "bson_create_empty_document (replicate 44 0) = Some m1" "is_doc m1 []" "length m1 = 44" by auto
  have sz: "doc_size ([] @ [(0x05, cstr ''hash'', binary_value 0 ?z)]) \<le> length m1" "length m1 < 2147480000"
    using 1(3) by (simp_all add: doc_size_def binary_value_def)
  from set_binary_last [OF 1(2) rubic_names(2) sz] obtain m2 r where
    2: "bson_set_binary_generic (Some m1) (cstr ''hash'') 16 = Some (Some m2, r, Some 15)"
      "is_doc m2 ([] @ [(0x05, cstr ''hash'', binary_value 0 ?z)])" "length m2 = 44"
    using 1(3) by (auto simp: doc_size_def)
  from fill_last_binary [OF 2(2), of "md5_bytes (rfc_md5 bytes)"] obtain m3 where
    3: "wr_block m2 15 (md5_bytes (rfc_md5 bytes)) = Some m3"
      "is_doc m3 [(0x05, cstr ''hash'', binary_value 0 (md5_bytes (rfc_md5 bytes)))]" "length m3 = 44"
    using 2(3) by (auto simp: short_def doc_size_def)
  have "doc_size ([(0x05, cstr ''hash'', binary_value 0 (md5_bytes (rfc_md5 bytes)))] @
      [(0x10, cstr ''length'', int_object (int (length bytes)))]) \<le> length m3" "length m3 < 2147483648"
    using 3(3) by (simp_all add: doc_size_def binary_value_def)
  from set_int32_last [OF 3(2) fs_names(5) this] 3(3) obtain m4 q where
    4: "bson_set_int32 (Some m3) (cstr ''length'') (int (length bytes)) = Some (Some m4, q)" "is_doc m4 (digest_doc bytes)"
      "length m4 = 44" by (auto simp: digest_doc_def)
  have "m4 = enc_doc (digest_doc bytes)"
    by (rule exact_doc [OF 4(2)]) (simp add: 4(3) digest_doc_def doc_size_def binary_value_def)
  then show ?thesis by (simp add: prog_hash_result_def 1(1) 2(1) 3(1) 4(1))
qed

definition hash_block_answer ::
    "'w programmer \<Rightarrow> allocator \<Rightarrow> byte list \<Rightarrow> int \<Rightarrow> int \<Rightarrow> 'w rubic \<Rightarrow> 'w rubic_result" where
  "hash_block_answer pg malloc area block_size offset s =
     (if \<not> malloc (rb_mallocs s) (word_of_int block_size) then rubic_fail ENOMEM (used_rubic s)
      else (case pg_reader pg area offset block_size (rb_dev s) of
            None \<Rightarrow> None
          | Some (w, bytes, result) \<Rightarrow>
              let s = used_rubic s\<lparr>rb_dev := w\<rparr> in
              if result < 0 then rubic_fail EIO s
              else if \<not> malloc (rb_mallocs s) 44 then rubic_fail ENOMEM (used_rubic s)
              else Some (Some (enc_doc (digest_doc bytes)), 0, used_rubic s)))"

definition prog_hash_answer :: "'w programmer \<Rightarrow> allocator \<Rightarrow> elem list \<Rightarrow> 'w rubic \<Rightarrow> 'w rubic_result" where
  "prog_hash_answer pg malloc es s =
    (case area_request pg es (rb_dev s) of
       None \<Rightarrow> None
     | Some (w, Inl e) \<Rightarrow> rubic_fail e (s\<lparr>rb_dev := w\<rparr>)
     | Some (w, Inr (area, block_size, offset)) \<Rightarrow> hash_block_answer pg malloc area block_size offset (s\<lparr>rb_dev := w\<rparr>))"

lemma hash_block_ok:
  assumes "no_huge malloc" "0 < block_size" "is_s32 block_size"
    and r: "\<And>w'' bytes r. pg_reader pg area offset block_size (rb_dev s) = Some (w'', bytes, r) \<Longrightarrow>
      int (length bytes) \<le> block_size \<and> (0 \<le> r \<longrightarrow> int (length bytes) = block_size)"
  shows "hash_block pg malloc area block_size offset s = hash_block_answer pg malloc area block_size offset s"
proof (cases "malloc (rb_mallocs s) (word_of_int block_size)")
  case False
  with assms(2,3) show ?thesis by (simp add: hash_block_def hash_block_answer_def with_rubic_block_ok is_s32_def)
next
  case True
  with no_huge_size [OF assms(1) True] assms(2,3) have lt: "block_size < 268435456" by (simp add: is_s32_def)
  show ?thesis
  proof (cases "pg_reader pg area offset block_size (rb_dev s)")
    case None
    with assms(2,3) True show ?thesis by (simp add: hash_block_def hash_block_answer_def with_rubic_block_ok is_s32_def)
  next
    case (Some r)
    obtain w bytes result where tuple: "r = (w, bytes, result)" by (cases r)
    have len: "int (length bytes) \<le> block_size" "0 \<le> result \<Longrightarrow> int (length bytes) = block_size"
      using r [OF Some [unfolded tuple]] by simp_all
    define buf where "buf = bytes @ replicate (nat block_size - length bytes) 0"
    have wr: "wr_block (replicate (nat block_size) 0) 0 bytes = Some buf"
      using len(1) by (cases "bytes = []") (simp_all add: wr_block_def buf_def)
    have dg: "digest_md5 buf 0 block_size = Some (md5_bytes (rfc_md5 bytes))" if "0 \<le> result"
    proof -
      have "buf = bytes" using len(2) [OF that] by (simp add: buf_def)
      moreover have "rd_block bytes 0 (int (length bytes)) = Some bytes" by (simp add: rd_block_def)
      ultimately show ?thesis using digest_md5_block [of bytes 0 bytes] len(2) [OF that] lt by simp
    qed
    have w44: "with_rubic_block malloc 44 e t k =
        (if malloc (rb_mallocs t) 44 then k (replicate 44 0) (got_rubic t) else rubic_fail e (used_rubic t))"
      for e k t using with_rubic_block_ok [of 44 malloc e t k] by simp
    have bl: "with_rubic_block malloc block_size ENOMEM s k = k (replicate (nat block_size) 0) (got_rubic s)" for k
      using with_rubic_block_ok [of block_size malloc ENOMEM s k] assms(2,3) True by (simp add: is_s32_def)
    show ?thesis
      using True hash_result_ok [of bytes] dg len(2)
      by (cases "0 \<le> result") (simp_all add: hash_block_def hash_block_answer_def bl Some tuple wr measures(1,2,4) w44 Let_def rubic_give_def)
  qed
qed

lemma prog_hash_run:
  assumes "is_doc m es" "reads_ok pg es (rb_dev s)" "no_huge malloc"
  shows "rubic_agent_method_prog_hash pg malloc junk (Some m) s = prog_hash_answer pg malloc es s"
proof -
  let ?ks = "[cstr ''area'', cstr ''offset'']"
  have d: "distinct ?ks" "\<forall>k \<in> set ?ks. name_ok k" by (simp_all add: cstr_def del: cstr_eq) (simp_all add: name_ok_def)
  have a: "cstr ''area'' \<in> set ?ks" "cstr ''offset'' \<in> set ?ks" by simp_all
  have step: "hash_block pg malloc area block_size offset (s\<lparr>rb_dev := w\<rparr>) = hash_block_answer pg malloc area block_size offset (s\<lparr>rb_dev := w\<rparr>)"
    if r: "area_request pg es (rb_dev s) = Some (w, Inr (area, block_size, offset))" for w area block_size offset
  proof (rule hash_block_ok [OF assms(3)])
    show "0 < block_size" using r by (auto simp: area_request_def Let_def split: option.splits if_splits)
  qed (use assms(2) r in \<open>auto simp: reads_ok_def\<close>)
  show ?thesis
    unfolding rubic_agent_method_prog_hash_def with_rubic_props_ok [OF assms(1) d] with_area_ok [OF assms(1) a] prog_hash_answer_def
    using step by (auto split: option.split sum.split)
qed

text \<open>An example: an area of bytes in blocks of four.\<close>

definition ex_pg :: "byte list programmer" where
  "ex_pg = \<lparr>pg_blksize = (\<lambda>area w. Some (w, if area = cstr ''ram'' then 4 else -1)),
     pg_reader = (\<lambda>area off len w. Some (w, take (nat len) (drop (nat off) w), 0)),
     pg_writer = (\<lambda>area off bytes len w. Some (take (nat off) w @ bytes @ drop (nat off + length bytes) w, 0))\<rparr>"

definition ex_write :: "int \<Rightarrow> elem list" where
  "ex_write off = [(0x02, cstr ''area'', string_value (cstr ''ram'')), (0x10, cstr ''offset'', int_object off),
     (0x05, cstr ''data'', binary_value 0 (cstr ''abcd'')), (0x05, cstr ''hash'', binary_value 0 (md5_bytes (rfc_md5 (cstr ''abcd''))))]"

definition ex_rubic :: "byte list rubic" where
  "ex_rubic = \<lparr>rb_runtimes = [None], rb_storages = [None], cached_info = None, rb_mallocs = 0, rb_blocks = 0, rb_dev = replicate 8 0\<rparr>"

lemma ex_write_doc: "is_doc (enc_doc (ex_write off)) (ex_write off)" "doc_size (ex_write off) = 73"
proof -
  have "value_ok 0x02 (string_value (cstr ''ram''))" "value_ok 0x05 (binary_value 0 (cstr ''abcd''))"
    "value_ok 0x05 (binary_value 0 (md5_bytes (rfc_md5 (cstr ''abcd''))))" "value_ok 0x10 (int_object off)"
    by (simp_all add: value_ok_string value_ok_binary) (simp add: value_ok_def)
  moreover show sz: "doc_size (ex_write off) = 73" by (simp add: ex_write_def doc_size_def string_value_def binary_value_def)
  ultimately have "doc_ok (ex_write off)" unfolding doc_ok_def sz by (simp add: ex_write_def)
  then show "is_doc (enc_doc (ex_write off)) (ex_write off)" by (rule is_doc_enc)
qed

lemma ex_write_members:
  "is_s32 off \<Longrightarrow> area_request ex_pg (ex_write off) w =
     Some (w, if off < 0 \<or> off AND 3 \<noteq> 0 then Inl EINVAL else Inr (cstr ''ram'', 4, off))"
  "write_request (ex_write off) 4 = Some (cstr ''abcd'', md5_bytes (rfc_md5 (cstr ''abcd'')))"
proof -
  have k: "cstr ''area'' \<noteq> cstr ''offset''" "cstr ''area'' \<noteq> cstr ''data''" "cstr ''offset'' \<noteq> cstr ''data''"
    "cstr ''area'' \<noteq> cstr ''hash''" "cstr ''offset'' \<noteq> cstr ''hash''" "cstr ''data'' \<noteq> cstr ''hash''" by simp_all
  note ne = k k [symmetric]
  have a: "string_member (ex_write off) (cstr ''area'') = Some (cstr ''ram'')"
    using ne by (simp add: ex_write_def string_member_def string_value_def del: cstr_eq) (simp add: cstr_def)
  have o1: "int_member (ex_write off) (cstr ''offset'') (-1) = off" if "is_s32 off"
    using ne read_int_object_0 [of off "[]"] that by (simp add: ex_write_def int_member_def cint_simps del: cstr_eq)
  show "area_request ex_pg (ex_write off) w =
      Some (w, if off < 0 \<or> off AND 3 \<noteq> 0 then Inl EINVAL else Inr (cstr ''ram'', 4, off))" if "is_s32 off"
    using that by (simp add: area_request_def a o1 ex_pg_def)
  have l: "length (cstr ''abcd'') = 4" by simp
  show "write_request (ex_write off) 4 = Some (cstr ''abcd'', md5_bytes (rfc_md5 (cstr ''abcd'')))"
    using ne l by (simp add: ex_write_def write_request_def binary_member_def binary_value_def del: cstr_eq cstr_length)
qed

text \<open>C37: \<open>rubic.prog.write\<close> writes only what it has checked, for any programmer and any parameter document: a known
  area, an offset and a length that are multiples of the block size and a digest that is the MD5 digest of
  the data; then the writer gets exactly the data. Each failure has its error number and writes nothing.\<close>

theorem prog_write_checked:
  assumes "is_doc m es" "doc_size es < 268435456"
  shows "rubic_agent_method_prog_write pg junk (Some m) s =
    (case area_request pg es (rb_dev s) of
       None \<Rightarrow> None
     | Some (w, Inl e) \<Rightarrow> Some (None, e, s\<lparr>rb_dev := w\<rparr>)
     | Some (w, Inr (area, block_size, offset)) \<Rightarrow>
         (case (binary_member es (cstr ''data''), binary_member es (cstr ''hash'')) of
            (Some bytes, Some h) \<Rightarrow>
              if int (length bytes) AND (block_size - 1) \<noteq> 0 \<or> length h \<noteq> 16 then Some (None, EINVAL, s\<lparr>rb_dev := w\<rparr>)
              else if h \<noteq> md5_bytes (rfc_md5 bytes) then Some (None, EILSEQ, s\<lparr>rb_dev := w\<rparr>)
              else (case pg_writer pg area offset bytes (int (length bytes)) w of
                  None \<Rightarrow> None
                | Some (w, result) \<Rightarrow> Some (None, if result < 0 then EIO else 0, s\<lparr>rb_dev := w\<rparr>))
          | _ \<Rightarrow> Some (None, EINVAL, s\<lparr>rb_dev := w\<rparr>)))"
  unfolding write_run [OF assms] write_answer_def rubic_fail_def write_request_def by (auto split: option.split sum.split)

theorem prog_write_checked_witness:
  "rubic_agent_method_prog_write ex_pg 0 (Some (enc_doc (ex_write 4))) ex_rubic =
     Some (None, 0, ex_rubic\<lparr>rb_dev := replicate 4 0 @ cstr ''abcd''\<rparr>) \<and>
   rubic_agent_method_prog_write ex_pg 0 (Some (enc_doc (ex_write 2))) ex_rubic = Some (None, EINVAL, ex_rubic)"
proof -
  have "is_s32 4" "is_s32 2" by (simp_all add: is_s32_def)
  note req = this [THEN ex_write_members(1)]
  have b: "binary_member (ex_write 4) (cstr ''data'') = Some (cstr ''abcd'')"
    "binary_member (ex_write 4) (cstr ''hash'') = Some (md5_bytes (rfc_md5 (cstr ''abcd'')))"
    using ex_write_members(2) [of 4] by (auto simp: write_request_def split: option.splits if_splits)
  have "doc_size (ex_write off) < 268435456" for off using ex_write_doc(2) by simp
  note run = prog_write_checked [OF ex_write_doc(1) this, of ex_pg 0 _ ex_rubic]
  have w: "pg_writer ex_pg (cstr ''ram'') 4 (cstr ''abcd'') 4 (replicate 8 0) = Some (replicate 4 0 @ cstr ''abcd'', 0)"
    by (simp add: ex_pg_def numeral_eq_Suc)
  show ?thesis
    unfolding run req b using w by (simp add: ex_rubic_def)
qed

end
