(* ===== verification/Programmer.thy ===== *)
theory Programmer
  imports Rubic_Props Epcs_Disk_Props
begin

text \<open>
  The programmer behind the Rubic agent (\<open>programmer.c\<close> of both script engines): the area \<open>spi\<close> is the
  whole SPI flash, \<open>cfg\<close> and \<open>ufm\<close> are sectors of the flash on the FPGA. The driver of the latter
  (\<open>alt_onchip_flash_read\<close> and \<open>_write\<close>) belongs to the HAL: it is the parameter \<open>ops\<close>. The last
  section is the composition with the agent and the flash.
\<close>

section \<open>The areas\<close>

record 'u ufm_ops =
  uf_read :: "int \<Rightarrow> int \<Rightarrow> 'u \<Rightarrow> 'u \<times> byte list \<times> int"
  uf_write :: "int \<Rightarrow> byte list \<Rightarrow> int \<Rightarrow> 'u \<Rightarrow> 'u \<times> int"

record 'u ufm =
  page_size :: int
  sector1_start_addr :: int
  sector3_start_addr :: int
  uf_dev :: 'u

record ('d, 'u) prog_state =
  ufm_dev :: "'u ufm option"
  spi_flash :: "'d spi"

definition UFM_DATA_NAME :: "byte list" where "UFM_DATA_NAME = cstr ''/dev/ufm_data''"

definition prog_init :: "(byte list \<Rightarrow> 'u ufm option) \<Rightarrow> ('d, 'u) prog_state \<Rightarrow> ('d, 'u) prog_state" where
  "prog_init alt_flash_open_dev w = w\<lparr>ufm_dev := alt_flash_open_dev UFM_DATA_NAME\<rparr>"

definition prog_blocksize :: "byte list \<Rightarrow> ('d, 'u) prog_state \<Rightarrow> (('d, 'u) prog_state \<times> int) option" where
  "prog_blocksize area w =
     (if area = cstr ''spi'' then Some (w, uint epcs_fatfs_raw_get_sectsize)
      else if area = cstr ''cfg'' then do { u \<leftarrow> ufm_dev w; Some (w, page_size u) }
      else if area = cstr ''ufm'' then do { u \<leftarrow> ufm_dev w; Some (w, page_size u) }
      else Some (w, -1))"

definition ufm_reading :: "'u ufm_ops \<Rightarrow> ('u ufm \<Rightarrow> int) \<Rightarrow> int \<Rightarrow> int \<Rightarrow> ('d, 'u) prog_state \<Rightarrow> (('d, 'u) prog_state \<times> byte list \<times> int) option" where
  "ufm_reading ops start offset len w =
     do { u \<leftarrow> ufm_dev w;
          case uf_read ops (s32 (offset + start u)) len (uf_dev u) of (v, bytes, r) \<Rightarrow>
            Some (w\<lparr>ufm_dev := Some (u\<lparr>uf_dev := v\<rparr>)\<rparr>, bytes, r) }"

definition ufm_writing :: "'u ufm_ops \<Rightarrow> ('u ufm \<Rightarrow> int) \<Rightarrow> int \<Rightarrow> byte list \<Rightarrow> int \<Rightarrow> ('d, 'u) prog_state \<Rightarrow> (('d, 'u) prog_state \<times> int) option" where
  "ufm_writing ops start offset bytes len w =
     do { u \<leftarrow> ufm_dev w;
          case uf_write ops (s32 (offset + start u)) bytes len (uf_dev u) of (v, r) \<Rightarrow>
            Some (w\<lparr>ufm_dev := Some (u\<lparr>uf_dev := v\<rparr>)\<rparr>, r) }"

definition prog_reader ::
    "'d io \<Rightarrow> u32 \<Rightarrow> 'u ufm_ops \<Rightarrow> byte list \<Rightarrow> int \<Rightarrow> int \<Rightarrow> ('d, 'u) prog_state \<Rightarrow> (('d, 'u) prog_state \<times> byte list \<times> int) option" where
  "prog_reader io pfc ops area offset len w =
     (if area = cstr ''spi'' then
        do { (sp, r, bytes) \<leftarrow> epcs_fatfs_raw_read io pfc (word_of_int offset) (word_of_int len) (spi_flash w);
             Some (w\<lparr>spi_flash := sp\<rparr>, bytes, r) }
      else if area = cstr ''cfg'' then ufm_reading ops sector3_start_addr offset len w
      else if area = cstr ''ufm'' then ufm_reading ops sector1_start_addr offset len w
      else Some (w, [], -1))"

definition prog_writer ::
    "'d io \<Rightarrow> u32 \<Rightarrow> 'u ufm_ops \<Rightarrow> byte list \<Rightarrow> int \<Rightarrow> byte list \<Rightarrow> int \<Rightarrow> ('d, 'u) prog_state \<Rightarrow> (('d, 'u) prog_state \<times> int) option" where
  "prog_writer io pfc ops area offset bytes len w =
     (if area = cstr ''spi'' then
        do { (sp, r) \<leftarrow> epcs_fatfs_raw_write io pfc (word_of_int offset) bytes (word_of_int len) (spi_flash w);
             Some (w\<lparr>spi_flash := sp\<rparr>, r) }
      else if area = cstr ''cfg'' then ufm_writing ops sector3_start_addr offset bytes len w
      else if area = cstr ''ufm'' then ufm_writing ops sector1_start_addr offset bytes len w
      else Some (w, -1))"

definition piccolo_programmer :: "'d io \<Rightarrow> u32 \<Rightarrow> 'u ufm_ops \<Rightarrow> ('d, 'u) prog_state programmer" where
  "piccolo_programmer io pfc ops = \<lparr>pg_blksize = prog_blocksize, pg_reader = prog_reader io pfc ops, pg_writer = prog_writer io pfc ops\<rparr>"

section \<open>What is written is what is hashed\<close>

lemma programmer_selectors [simp]:
  "pg_blksize (piccolo_programmer io pfc ops) = prog_blocksize" "pg_reader (piccolo_programmer io pfc ops) = prog_reader io pfc ops"
  "pg_writer (piccolo_programmer io pfc ops) = prog_writer io pfc ops"
  by (simp_all add: piccolo_programmer_def)

lemma spi_blocksize: "prog_blocksize (cstr ''spi'') w = Some (w, 4096)"
  by (simp add: prog_blocksize_def epcs_fatfs_raw_get_sectsize_def SECT_SIZE_def)

lemma and_4095: "(x :: int) AND 4095 = x mod 4096"
  using take_bit_eq_mask [of 12 x] by (simp add: take_bit_eq_mod mask_eq_exp_minus_1)

lemma unat_offset: "0 \<le> x \<Longrightarrow> x < 4294967296 \<Longrightarrow> unat (word_of_int x :: u32) = nat x"
  by (rule word_bound)

text \<open>The commands carry 24 bits of an address.\<close>

lemma addr_bytes_low:
  assumes "take_bit 24 a = take_bit 24 b"
  shows "addr_bytes a = addr_bytes b"
proof -
  have eq: "bit a i = bit b i" if "i < 24" for i using assms that by (metis bit_take_bit_iff)
  have byte: "bit (ucast (shr w k) :: byte) i \<longleftrightarrow> i < 8 \<and> bit w (k + i)" for w :: u32 and k i
    by (simp add: bit_ucast_iff bit_drop_bit_eq)
  have "ucast (shr a k) = (ucast (shr b k) :: byte)" if "k \<le> 16" for k
    by (rule bit_word_eqI) (use that in \<open>auto simp: byte intro!: eq\<close>)
  from this [of 16] this [of 8] this [of 0] show ?thesis by (simp add: addr_bytes_def)
qed

lemma low_add:
  fixes a b c :: u32
  assumes "take_bit 24 a = take_bit 24 b"
  shows "take_bit 24 (a + c) = take_bit 24 (b + c)"
proof -
  have m: "uint (take_bit 24 x) = uint x mod 2 ^ 24" for x :: u32 by (rule trans [OF unsigned_take_bit_eq take_bit_eq_mod])
  have u: "uint (take_bit 24 (x + c)) = (uint (take_bit 24 x) + uint c) mod 2 ^ 24" for x :: u32
    unfolding m by (simp add: uint_word_ariths(1) mod_mod_cancel mod_add_left_eq)
  from assms have "uint (take_bit 24 (a + c)) = uint (take_bit 24 (b + c))" by (simp add: u)
  then show ?thesis by (simp only: word_uint_eq_iff)
qed

text \<open>Two results of the write loops at addresses that agree in these bits.\<close>

definition turn_rel :: "('s \<times> int \<times> u32 \<times> byte list) option \<Rightarrow> ('s \<times> int \<times> u32 \<times> byte list) option \<Rightarrow> bool" where
  "turn_rel x y \<longleftrightarrow> rel_option (\<lambda>(sp, r, a, bs) (sp', r', a', bs'). sp = sp' \<and> r = r' \<and> take_bit 24 a = take_bit 24 a' \<and> bs = bs') x y"

lemma turn_rel_intros [intro]:
  "turn_rel None None" "take_bit 24 a = take_bit 24 a' \<Longrightarrow> turn_rel (Some (sp, r, a, bs)) (Some (sp, r, a', bs))"
  by (simp_all add: turn_rel_def)

lemma turn_relE:
  assumes "turn_rel x y"
  obtains "x = None" "y = None"
    | sp r a bs a' where "x = Some (sp, r, a, bs)" "y = Some (sp, r, a', bs)" "take_bit 24 a = take_bit 24 a'"
  using assms by (cases x; cases y) (auto simp: turn_rel_def)

lemma write_turn_low:
  assumes "take_bit 24 a = take_bit 24 b"
  shows "turn_rel (write_turn io pfc page a buff sp) (write_turn io pfc page b buff sp)"
  using assms low_add [OF assms, of PAGE_SIZE] addr_bytes_low [OF assms]
  by (auto simp: write_turn_def erase_sector_def program_page_def split: Option.bind_split)

lemma write_turns_low:
  "take_bit 24 a = take_bit 24 b \<Longrightarrow> turn_rel (write_turns io pfc pages a buff sp) (write_turns io pfc pages b buff sp)"
proof (induction pages arbitrary: a b buff sp)
  case (Cons page pages)
  from write_turn_low [OF Cons.prems, of io pfc page buff sp] show ?case
    by (rule turn_relE) (auto intro: Cons.IH)
qed auto

lemma write_sectors_low:
  "take_bit 24 a = take_bit 24 b \<Longrightarrow> write_sectors io pfc n a buff sp = write_sectors io pfc n b buff sp"
proof (induction n arbitrary: a b buff sp)
  case (Suc n)
  from write_turns_low [OF Suc.prems, of io pfc "[-1..uint (SECT_SIZE div PAGE_SIZE) - 1]" buff sp] show ?case
    by (rule turn_relE) (auto dest: Suc.IH)
qed simp

lemma low_offset: "take_bit 24 (word_of_int x :: u32) = take_bit 24 (word_of_int (x mod 2 ^ 24))"
  unfolding take_bit_eq_mod [symmetric] by (rule bit_word_eqI) (simp add: bit_simps)

lemma spi_write:
  assumes "flash_ready R img (spi_flash w)" "disk_chip R" "length bytes = 4096 * n" "offset mod 4096 = 0"
    "a = nat (offset mod 2 ^ 24)" "a + 4096 * n \<le> 2 ^ 24" "a + 4096 * n \<le> chip_size (b_chip R)"
  shows "\<exists>d. prog_writer (b_io R) (b_pfc R) ops (cstr ''spi'') offset bytes (int (length bytes)) w =
      Some (w\<lparr>spi_flash := (spi_flash w)\<lparr>dev := d\<rparr>\<rparr>, 0) \<and>
    flash_ready R (overwrite a bytes img) ((spi_flash w)\<lparr>dev := d\<rparr>)"
proof -
  have n: "n \<le> 4096" "unat (word_of_nat n :: u32) = n" using assms(6) by (simp_all add: unsigned_of_nat take_bit_nat_eq_self)
  have "(word_of_int (int (length bytes)) :: u32) = shl (word_of_nat n) SECT_SHIFT"
    by (simp add: assms(3) SECT_SHIFT_def push_bit_eq_mult mult.commute)
  with write_count [of "word_of_nat n"] n have c: "unat (signed_drop_bit SECT_SHIFT (word_of_int (int (length bytes)) :: u32)) = n"
    by simp
  have a: "word_of_int (offset mod 2 ^ 24) = (word_of_int (int a) :: u32)" using assms(5) by simp
  have o1: "unat (word_of_int (int a) :: u32) = a" using assms(6) unat_offset [of "int a"] by simp
  have "int a mod 4096 = offset mod 4096" using assms(5) by (simp add: mod_mod_cancel)
  then have "int (a mod 4096) = 0" using assms(4) by (simp add: zmod_int)
  then have m: "a mod 4096 = 0" by simp
  have "write_sectors (b_io R) (b_pfc R) n (word_of_int offset) bytes (spi_flash w) =
      write_sectors (b_io R) (b_pfc R) n (word_of_int (int a)) bytes (spi_flash w)"
    by (rule write_sectors_low) (simp only: low_offset [of offset] a)
  with sectors_ok [OF assms(2,1), of "word_of_int (int a)" n bytes] assms(3,6,7) m o1 c show ?thesis
    by (auto simp: prog_writer_def epcs_fatfs_raw_write_def)
qed

lemma spi_read:
  assumes "flash_ready R img (spi_flash w)" "disk_chip R" "a = nat (offset mod 2 ^ 24)" "a + 4096 \<le> 2 ^ 24"
    "a + 4096 \<le> chip_size (b_chip R)"
  shows "\<exists>d. prog_reader (b_io R) (b_pfc R) ops (cstr ''spi'') offset 4096 w =
      Some (w\<lparr>spi_flash := (spi_flash w)\<lparr>dev := d\<rparr>\<rparr>, map img [a..<a + 4096], 0) \<and>
    flash_ready R img ((spi_flash w)\<lparr>dev := d\<rparr>)"
proof -
  have a: "word_of_int (offset mod 2 ^ 24) = (word_of_int (int a) :: u32)" using assms(3) by simp
  have o1: "unat (word_of_int (int a) :: u32) = a" using assms(4) unat_offset [of "int a"] by simp
  have "addr_bytes (word_of_int offset) = addr_bytes (word_of_int (int a))"
    by (rule addr_bytes_low) (simp only: low_offset [of offset] a)
  with raw_read_ok [OF assms(1,2), of "word_of_int (int a)" 4096] assms(4,5) o1 show ?thesis
    by (auto simp: prog_reader_def epcs_fatfs_raw_read_def)
qed

lemma overwrite_block:
  assumes "offset = o1 + 4096 * i" "length bytes = 4096 * n" "i < n"
  shows "map (overwrite o1 bytes img) [offset..<offset + 4096] = take 4096 (drop (4096 * i) bytes)"
  using assms by (intro nth_equalityI) (auto simp: overwrite_def)

lemma area_spi:
  assumes "string_member es (cstr ''area'') = Some (cstr ''spi'')" "offset = int_member es (cstr ''offset'') (-1)"
  shows "area_request (piccolo_programmer io pfc ops) es w =
    Some (w, if 0 \<le> offset \<and> offset mod 4096 = 0 then Inr (cstr ''spi'', 4096, offset) else Inl EINVAL)"
  using assms by (auto simp: area_request_def spi_blocksize and_4095 Let_def)

lemma block_length:
  assumes "write_request es 4096 = Some (bytes, h)"
  shows "\<exists>n. length bytes = 4096 * n"
proof -
  have "int (length bytes mod 4096) = 0"
    using assms by (auto simp: write_request_def and_4095 zmod_int split: option.splits if_splits)
  then have "length bytes mod 4096 = 0" by simp
  then show ?thesis by (simp add: dvd_eq_mod_eq_0 [symmetric] dvd_def)
qed

text \<open>C38: Blocks written through the programmer are the blocks that are hashed: after \<open>rubic.prog.write\<close> of whole
  blocks in the area \<open>spi\<close>, with the right digest, the flash holds the data at the offset and nothing else has
  changed, and \<open>rubic.prog.hash\<close> of each of the blocks answers with the MD5 digest of that part of the data.
  Offsets count modulo 16 MiB: one past the end is not refused, it names a block at the start of the flash.\<close>

theorem prog_write_then_hash:
  assumes "flash_ready R img (spi_flash (rb_dev s))" "disk_chip R" "is_doc m es" "doc_size es < 268435456"
    "string_member es (cstr ''area'') = Some (cstr ''spi'')" "offset = int_member es (cstr ''offset'') (-1)"
    "0 \<le> offset" "offset mod 4096 = 0" "write_request es 4096 = Some (bytes, md5_bytes (rfc_md5 bytes))"
    "a = nat (offset mod 2 ^ 24)" "a + length bytes \<le> 2 ^ 24" "a + length bytes \<le> chip_size (b_chip R)"
    "no_huge malloc"
  shows "\<exists>s1. rubic_agent_method_prog_write (piccolo_programmer (b_io R) (b_pfc R) ops) junk (Some m) s = Some (None, 0, s1) \<and>
    rb_blocks s1 = rb_blocks s \<and> flash_ready R (overwrite a bytes img) (spi_flash (rb_dev s1)) \<and>
    (\<forall>i hm hes. 4096 * i < length bytes \<longrightarrow> is_doc hm hes \<longrightarrow>
       string_member hes (cstr ''area'') = Some (cstr ''spi'') \<longrightarrow> int_member hes (cstr ''offset'') (-1) = offset + 4096 * int i \<longrightarrow>
       malloc (rb_mallocs s1) 4096 \<longrightarrow> malloc (rb_mallocs s1 + 1) 44 \<longrightarrow>
       (\<exists>s2. rubic_agent_method_prog_hash (piccolo_programmer (b_io R) (b_pfc R) ops) malloc junk (Some hm) s1 =
          Some (Some (enc_doc (digest_doc (take 4096 (drop (4096 * i) bytes)))), 0, s2) \<and> rb_blocks s2 = rb_blocks s1))"
proof -
  let ?pg = "piccolo_programmer (b_io R) (b_pfc R) ops"
  from block_length [OF assms(9)] obtain n where n: "length bytes = 4096 * n" by blast
  from spi_write [OF assms(1,2) n assms(8,10)] n assms(11,12) obtain d where
    d: "prog_writer (b_io R) (b_pfc R) ops (cstr ''spi'') offset bytes (int (length bytes)) (rb_dev s) =
      Some (rb_dev s\<lparr>spi_flash := (spi_flash (rb_dev s))\<lparr>dev := d\<rparr>\<rparr>, 0)"
    "flash_ready R (overwrite a bytes img) ((spi_flash (rb_dev s))\<lparr>dev := d\<rparr>)" by auto
  define s1 where "s1 = s\<lparr>rb_dev := rb_dev s\<lparr>spi_flash := (spi_flash (rb_dev s))\<lparr>dev := d\<rparr>\<rparr>\<rparr>"
  have w: "rubic_agent_method_prog_write ?pg junk (Some m) s = Some (None, 0, s1)"
    using d(1) assms(7,8,9) by (simp add: write_run [OF assms(3,4)] write_answer_def area_spi [OF assms(5,6)] rubic_fail_def s1_def)
  have rdy: "flash_ready R (overwrite a bytes img) (spi_flash (rb_dev s1))" using d(2) by (simp add: s1_def)
  have h: "\<exists>s2. rubic_agent_method_prog_hash ?pg malloc junk (Some hm) s1 =
          Some (Some (enc_doc (digest_doc (take 4096 (drop (4096 * i) bytes)))), 0, s2) \<and> rb_blocks s2 = rb_blocks s1"
    if i: "4096 * i < length bytes" and hd: "is_doc hm hes" "string_member hes (cstr ''area'') = Some (cstr ''spi'')"
      "int_member hes (cstr ''offset'') (-1) = offset + 4096 * int i"
      and al: "malloc (rb_mallocs s1) 4096" "malloc (rb_mallocs s1 + 1) 44" for i hm hes
  proof -
    have i': "i < n" "a + 4096 * i + 4096 \<le> a + length bytes" using i n by auto
    have "(offset + 4096 * int i) mod 2 ^ 24 = (int a + 4096 * int i) mod 2 ^ 24"
      using assms(10) by (simp add: mod_add_left_eq)
    also have "\<dots> = int (a + 4096 * i)" using i'(2) assms(11) by simp
    finally have o1: "a + 4096 * i = nat ((offset + 4096 * int i) mod 2 ^ 24)" by simp
    from spi_read [OF rdy assms(2) o1] i'(2) assms(11,12) obtain d2 where
      d2: "prog_reader (b_io R) (b_pfc R) ops (cstr ''spi'') (offset + 4096 * int i) 4096 (rb_dev s1) =
        Some (rb_dev s1\<lparr>spi_flash := (spi_flash (rb_dev s1))\<lparr>dev := d2\<rparr>\<rparr>,
          map (overwrite a bytes img) [a + 4096 * i..<a + 4096 * i + 4096], 0)" by auto
    have "(offset + 4096 * int i) mod 4096 = 0" using assms(8) by simp
    with d2 assms(7) area_spi [OF hd(2) hd(3) [symmetric]]
    have r: "area_request ?pg hes (rb_dev s1) = Some (rb_dev s1, Inr (cstr ''spi'', 4096, offset + 4096 * int i))" by simp
    then have ok: "reads_ok ?pg hes (rb_dev s1)" using d2 by (simp add: reads_ok_def is_s32_def)
    from r d2 al overwrite_block [OF refl n i'(1), of a img] show ?thesis
      by (simp add: prog_hash_run [OF hd(1) ok assms(13)] prog_hash_answer_def hash_block_answer_def)
  qed
  show ?thesis
    by (rule exI [of _ s1]) (use w rdy h in \<open>auto simp: s1_def\<close>)
qed

text \<open>An example: one block at the offset 16 MiB + 4096, which is the block at 4096.\<close>

definition ex_block :: "elem list" where
  "ex_block = [(0x02, cstr ''area'', string_value (cstr ''spi'')), (0x10, cstr ''offset'', int_object 0x1001000),
     (0x05, cstr ''data'', binary_value 0 (ex_sectors 1)), (0x05, cstr ''hash'', binary_value 0 (md5_bytes (rfc_md5 (ex_sectors 1))))]"

definition ex_prog :: "(nor \<times> u32, nat) prog_state rubic" where
  "ex_prog = \<lparr>rb_runtimes = [None], rb_storages = [None], cached_info = None, rb_mallocs = 0, rb_blocks = 0,
     rb_dev = \<lparr>ufm_dev = None, spi_flash = nor_spi (\<lambda>i. word_of_nat i)\<rparr>\<rparr>"

definition ex_ufm_ops :: "nat ufm_ops" where
  "ex_ufm_ops = \<lparr>uf_read = (\<lambda>off len u. (u, [], -1)), uf_write = (\<lambda>off bytes len u. (u, -1))\<rparr>"

lemma ex_block_doc: "is_doc (enc_doc ex_block) ex_block" "doc_size ex_block = 4165"
proof -
  have l: "length (ex_sectors 1) = 4096" by simp
  then have "value_ok 0x02 (string_value (cstr ''spi''))" "value_ok 0x05 (binary_value 0 (ex_sectors 1))"
    "value_ok 0x05 (binary_value 0 (md5_bytes (rfc_md5 (ex_sectors 1))))" "value_ok 0x10 (int_object 0x1001000)"
    by (simp_all add: value_ok_string value_ok_binary) (simp add: value_ok_def)
  moreover show sz: "doc_size ex_block = 4165" by (simp add: ex_block_def doc_size_def string_value_def binary_value_def)
  ultimately have "doc_ok ex_block" unfolding doc_ok_def sz by (simp add: ex_block_def)
  then show "is_doc (enc_doc ex_block) ex_block" by (rule is_doc_enc)
qed

lemma ex_block_members:
  "string_member ex_block (cstr ''area'') = Some (cstr ''spi'')" "int_member ex_block (cstr ''offset'') (-1) = 0x1001000"
  "write_request ex_block 4096 = Some (ex_sectors 1, md5_bytes (rfc_md5 (ex_sectors 1)))"
proof -
  have k: "cstr ''area'' \<noteq> cstr ''offset''" "cstr ''area'' \<noteq> cstr ''data''" "cstr ''offset'' \<noteq> cstr ''data''"
    "cstr ''area'' \<noteq> cstr ''hash''" "cstr ''offset'' \<noteq> cstr ''hash''" "cstr ''data'' \<noteq> cstr ''hash''" by simp_all
  note ne = k k [symmetric]
  have l: "length (ex_sectors 1) = 4096" by simp
  show "string_member ex_block (cstr ''area'') = Some (cstr ''spi'')"
    using ne by (simp add: ex_block_def string_member_def string_value_def del: cstr_eq) (simp add: cstr_def)
  show "int_member ex_block (cstr ''offset'') (-1) = 0x1001000"
    using ne read_int_object_0 [of "0x1001000" "[]"] by (simp add: ex_block_def int_member_def cint_simps is_s32_def del: cstr_eq)
  show "write_request ex_block 4096 = Some (ex_sectors 1, md5_bytes (rfc_md5 (ex_sectors 1)))"
    using ne l by (simp add: ex_block_def write_request_def binary_member_def binary_value_def and_4095 del: cstr_eq cstr_length)
qed

theorem prog_write_then_hash_witness:
  "\<exists>s1 s2. rubic_agent_method_prog_write (piccolo_programmer (b_io nor_board) (b_pfc nor_board) ex_ufm_ops) 0 (Some (enc_doc ex_block)) ex_prog =
      Some (None, 0, s1) \<and>
    flash_ready nor_board (overwrite 4096 (ex_sectors 1) (\<lambda>i. word_of_nat i)) (spi_flash (rb_dev s1)) \<and>
    rubic_agent_method_prog_hash (piccolo_programmer (b_io nor_board) (b_pfc nor_board) ex_ufm_ops) (\<lambda>n sz. unat sz < 5000) 0
      (Some (enc_doc ex_block)) s1 = Some (Some (enc_doc (digest_doc (ex_sectors 1))), 0, s2)"
proof -
  have l: "length (ex_sectors 1) = 4096" by simp
  have r: "flash_ready nor_board (\<lambda>i. word_of_nat i) (spi_flash (rb_dev ex_prog))" using nor_ready by (simp add: ex_prog_def)
  have c: "chip_size (b_chip nor_board) = 2 ^ 21" by (simp add: nor_board_def nor_chip_def)
  have h: "no_huge (\<lambda>n sz. unat sz < 5000)" by (auto simp: no_huge_def)
  have sz: "doc_size ex_block < 268435456" using ex_block_doc(2) by simp
  have "(4096 :: nat) = nat (0x1001000 mod 2 ^ 24)" by simp
  from prog_write_then_hash [where s = ex_prog and ops = ex_ufm_ops and junk = 0, OF r nor_disk_chip ex_block_doc(1) sz ex_block_members(1)
      ex_block_members(2) [symmetric] _ _ ex_block_members(3) this _ _ h] l c obtain s1 where
    s1: "rubic_agent_method_prog_write (piccolo_programmer (b_io nor_board) (b_pfc nor_board) ex_ufm_ops) 0 (Some (enc_doc ex_block)) ex_prog =
      Some (None, 0, s1)" "flash_ready nor_board (overwrite 4096 (ex_sectors 1) (\<lambda>i. word_of_nat i)) (spi_flash (rb_dev s1))"
    and hash: "\<And>hm hes. is_doc hm hes \<Longrightarrow> string_member hes (cstr ''area'') = Some (cstr ''spi'') \<Longrightarrow>
      int_member hes (cstr ''offset'') (-1) = 0x1001000 \<Longrightarrow>
      \<exists>s2. rubic_agent_method_prog_hash (piccolo_programmer (b_io nor_board) (b_pfc nor_board) ex_ufm_ops) (\<lambda>n sz. unat sz < 5000) 0 (Some hm) s1 =
        Some (Some (enc_doc (digest_doc (ex_sectors 1))), 0, s2)"
    by fastforce
  from hash [OF ex_block_doc(1) ex_block_members(1,2)] s1 show ?thesis by auto
qed

end
