(* ===== verification/Rubic_Boot.thy ===== *)
theory Rubic_Boot
  imports Rubic_Methods
begin

text \<open>
  The boot options of the Rubic agent (\<open>parse_boot_json\<close> in \<open>rubic_agent.c\<close>): the file \<open>boot.json\<close> of the
  storage named internal is read into a buffer of 256 bytes and scanned in place with the string functions
  of the C library. A pointer is an offset into the buffer and NULL is \<open>None\<close>; the outer \<open>None\<close> is an access
  outside the buffer or a loop that does not end.
\<close>

section \<open>String functions\<close>

text \<open>The first position from \<open>p\<close> on whose byte satisfies \<open>stop\<close>, as the string functions walk.\<close>

function c_scan :: "(byte \<Rightarrow> bool) \<Rightarrow> mem \<Rightarrow> int \<Rightarrow> int option" where
  "c_scan stop m p =
     (if p < 0 \<or> int (length m) \<le> p then None else if stop (m ! nat p) then Some p else c_scan stop m (p + 1))"
  by pat_completeness auto
termination
  by (relation "measure (\<lambda>(stop, m, p). nat (int (length m) - p))") auto

declare c_scan.simps [simp del]

definition c_strpbrk :: "mem \<Rightarrow> int \<Rightarrow> byte list \<Rightarrow> int option option" where
  "c_strpbrk m s accept =
     do { q \<leftarrow> c_scan (\<lambda>b. b = 0 \<or> b \<in> set accept) m s; b \<leftarrow> rd m q; Some (if b = 0 then None else Some q) }"

definition c_strspn :: "mem \<Rightarrow> int \<Rightarrow> byte list \<Rightarrow> int option" where
  "c_strspn m s accept = do { q \<leftarrow> c_scan (\<lambda>b. b \<notin> set accept) m s; Some (q - s) }"

definition c_strchr :: "mem \<Rightarrow> int \<Rightarrow> byte \<Rightarrow> int option option" where
  "c_strchr m s c = c_strpbrk m s [c]"

definition strskip :: "mem \<Rightarrow> int \<Rightarrow> byte list \<Rightarrow> int option" where
  "strskip m s skip =
     do { r \<leftarrow> c_strpbrk m s skip;
          if r = Some s then do { n \<leftarrow> c_strspn m s skip; Some (s + n) } else Some s }"

section \<open>The scanner\<close>

definition json_spaces :: "byte list" where "json_spaces = [0x09, 0x0d, 0x0a, 0x20]"
definition QUOTE :: byte where "QUOTE = 0x22"
definition BACKSLASH :: byte where "BACKSLASH = 0x5c"
definition LBRACE :: byte where "LBRACE = 0x7b"
definition RBRACE :: byte where "RBRACE = 0x7d"
definition COMMA :: byte where "COMMA = 0x2c"

lemmas json_chars = json_spaces_def QUOTE_def BACKSLASH_def LBRACE_def RBRACE_def COMMA_def COLON_def SLASH_def

text \<open>The quote that ends a string; a backslash and the byte after it are passed over.\<close>

partial_function (option) string_end :: "mem \<Rightarrow> int \<Rightarrow> int option option" where
  "string_end m input =
     do { r \<leftarrow> c_strpbrk m input [BACKSLASH, QUOTE];
          case r of
            None \<Rightarrow> Some None
          | Some q \<Rightarrow> do { b \<leftarrow> rd m q; if b = QUOTE then Some (Some q) else string_end m (q + 2) } }"

text \<open>The value behind a name: a string is terminated in place and used when the name is known, the rest is
  skipped up to a bracket or comma. The results are the buffer, the position, the file and the runtime;
  the inner \<open>None\<close> is a syntax error.\<close>

definition json_value ::
    "runtime option list \<Rightarrow> int \<Rightarrow> mem \<Rightarrow> int \<Rightarrow> int option \<Rightarrow> runtime option \<Rightarrow> (mem \<times> int \<times> int option \<times> runtime option) option option" where
  "json_value rts key m input file rt =
     do { b \<leftarrow> rd m input;
          if b \<noteq> QUOTE then
            do { r \<leftarrow> c_strpbrk m (input + 1) [LBRACE, RBRACE, 0x5b, 0x5d, COMMA];
                 Some (map_option (\<lambda>q. (m, q, file, rt)) r) }
          else
            do { let val = input + 1;
                 r \<leftarrow> string_end m val;
                 case r of
                   None \<Rightarrow> Some None
                 | Some q \<Rightarrow>
                     do { m \<leftarrow> wr m q 0;
                          input \<leftarrow> strskip m (q + 1) json_spaces;
                          is_runtime \<leftarrow> c_streq m key (cstr ''runtime'');
                          if is_runtime then
                            do { name \<leftarrow> c_string m val; Some (Some (m, input, file, find_runtime rts (Some name))) }
                          else
                            do { is_file \<leftarrow> c_streq m key (cstr ''file'');
                                 Some (Some (m, input, if is_file then Some val else file, rt)) } } } }"

definition json_member ::
    "runtime option list \<Rightarrow> mem \<Rightarrow> int \<Rightarrow> int option \<Rightarrow> runtime option \<Rightarrow> (mem \<times> int \<times> int option \<times> runtime option) option option" where
  "json_member rts m input file rt =
     do { input \<leftarrow> strskip m input json_spaces;
          b \<leftarrow> rd m input;
          if b \<noteq> QUOTE then Some None
          else
            do { let key = input + 1;
                 r \<leftarrow> c_strchr m key QUOTE;
                 case r of
                   None \<Rightarrow> Some None
                 | Some q \<Rightarrow>
                     do { m \<leftarrow> wr m q 0;
                          input \<leftarrow> strskip m (q + 1) json_spaces;
                          b \<leftarrow> rd m input;
                          if b \<noteq> COLON then Some None
                          else do { input \<leftarrow> strskip m (input + 1) json_spaces; json_value rts key m input file rt } } } }"

partial_function (option) json_members ::
    "runtime option list \<Rightarrow> mem \<Rightarrow> int \<Rightarrow> int option \<Rightarrow> runtime option \<Rightarrow> (mem \<times> int option \<times> runtime option) option option" where
  "json_members rts m input file rt =
     do { r \<leftarrow> json_member rts m input file rt;
          case r of
            None \<Rightarrow> Some None
          | Some (m, input, file, rt) \<Rightarrow>
              do { b \<leftarrow> rd m input;
                   if b = RBRACE then Some (Some (m, file, rt))
                   else do { b \<leftarrow> rd m (input + 1);
                             if b \<noteq> COMMA then Some None else json_members rts m (input + 2) file rt } } }"

text \<open>The file and the runtime the buffer names.\<close>

definition parse_buffer :: "runtime option list \<Rightarrow> mem \<Rightarrow> (byte list \<times> runtime option) option option" where
  "parse_buffer rts m =
     do { input \<leftarrow> strskip m 0 json_spaces;
          b \<leftarrow> rd m input;
          if b \<noteq> LBRACE then Some None
          else
            do { r \<leftarrow> json_members rts m (input + 1) None (find_runtime rts None);
                 case r of
                   Some (m, Some file, rt) \<Rightarrow> do { f \<leftarrow> c_string m file; Some (Some (f, rt)) }
                 | _ \<Rightarrow> Some None } }"

section \<open>Reading the file\<close>

text \<open>\<open>strncpy\<close> of the path, which fills up with zeros, and \<open>strncat\<close> of the name.\<close>

definition boot_path :: "byte list \<Rightarrow> mem option" where
  "boot_path path =
     (let dir = take 255 path in
      wr_block (dir @ replicate (256 - length dir) 0) (int (length dir)) (cstr ''/boot.json'' @ [0]))"

partial_function (option) read_boot :: "'f posix \<Rightarrow> int \<Rightarrow> mem \<Rightarrow> int \<Rightarrow> 'f \<Rightarrow> ('f \<times> mem option) option" where
  "read_boot px fd buf i f =
     (case px_read px fd (255 - i) f of (f, bytes, bytes_read, e) \<Rightarrow>
      do { buf \<leftarrow> wr_block buf i bytes;
           if bytes_read < 0 then Some (f, None)
           else if bytes_read = 0 then Some (f, Some buf)
           else read_boot px fd buf (i + bytes_read) f })"

definition internal_storage :: "storage option list \<Rightarrow> storage option" where
  "internal_storage sts =
     (case takeWhile (\<lambda>st. st \<noteq> None) sts of
        sts \<Rightarrow> (case filter (\<lambda>st. st_name st = cstr ''internal'') (map the sts) of [] \<Rightarrow> None | st # _ \<Rightarrow> Some st))"

text \<open>The path of the file to run, when it can be allocated.\<close>

definition boot_file :: "allocator \<Rightarrow> byte list \<Rightarrow> byte list \<Rightarrow> 'w rubic \<Rightarrow> 'w rubic \<times> byte list option" where
  "boot_file malloc path file s =
     (let full = (if take 1 file = [SLASH] then file else path @ SLASH # file) in
      case rubic_malloc malloc (int (length full + 1)) s of
        (s, ok) \<Rightarrow> (s, if ok then Some full else None))"

definition parse_boot_json ::
    "'f posix \<Rightarrow> allocator \<Rightarrow> 'f rubic \<Rightarrow> ('f rubic \<times> (byte list \<times> runtime option) option) option" where
  "parse_boot_json px malloc s =
     (case internal_storage (rb_storages s) of
        None \<Rightarrow> Some (s, None)
      | Some st \<Rightarrow>
          do { buf \<leftarrow> boot_path (st_path st);
               name \<leftarrow> c_string buf 0;
               case px_open px name O_RDONLY 0 (rb_dev s) of (f, fd, e) \<Rightarrow>
               let s = s\<lparr>rb_dev := f\<rparr> in
               if fd < 0 then Some (s, None)
               else do {
                 (f, r) \<leftarrow> read_boot px fd buf 0 (rb_dev s);
                 case px_close px fd f of (f, _, _) \<Rightarrow>
                 let s = s\<lparr>rb_dev := f\<rparr> in
                 case r of
                   None \<Rightarrow> Some (s, None)
                 | Some buf \<Rightarrow>
                     do { r \<leftarrow> parse_buffer (rb_runtimes s) buf;
                          case r of
                            None \<Rightarrow> Some (s, None)
                          | Some (file, rt) \<Rightarrow>
                              (case boot_file malloc (st_path st) file s of (s, full) \<Rightarrow>
                                 Some (s, map_option (\<lambda>p. (p, rt)) full)) } } })"

end
