(* ===== verification/Rubic_Info.thy ===== *)
theory Rubic_Info
  imports Rubic_Props
begin

text \<open>
  \<open>rubic.info\<close>: the description of the runtimes and storages, built once in a block for two documents and
  one for the answer, kept, and copied for each request.
\<close>

section \<open>Appending to one of two documents in a block\<close>

lemma is_doc_take: "doc_size es \<le> n \<Longrightarrow> take n m = take n m' \<Longrightarrow> is_doc m es \<longleftrightarrow> is_doc m' es"
  unfolding is_doc_def by (metis min.absorb1 take_take)

lemma drop_more: "drop k m = drop k m' \<Longrightarrow> k \<le> n \<Longrightarrow> drop n m = drop n m'"
  by (metis drop_drop le_add_diff_inverse2)

lemma set_str_last:
  assumes "is_doc m es" "name_ok k" "doc_size (es @ [(0x02, k, string_value v)]) \<le> n" "n \<le> length m" "length m < 2147480000"
  shows "\<exists>m'. set_str k v m = Some m' \<and> is_doc m' (es @ [(0x02, k, string_value v)]) \<and> length m' = length m \<and> drop n m' = drop n m"
proof -
  have "fits m es (0x02, k, string_value v)" "short v"
    using assms(3-5) by (simp_all add: fits_iff short_def doc_size_simps string_value_def)
  from str.appends [OF this(2) assms(2,1) this(1)] drop_more [OF _ assms(3)] show ?thesis
    by (auto simp: set_str_def appended_def)
qed

text \<open>The subdocument \<open>d\<close>, as it is stored.\<close>

lemma sub_doc_ok:
  assumes "is_doc d fs" "doc_size fs < 2147483000"
  shows "sub_ok d" "sub_value d = enc_doc fs"
  using is_doc_read_size [OF assms(1)] is_doc_length [OF assms(1)] assms
  by (auto simp: sub_ok_def sub_value_def is_doc_def) (auto simp: doc_size_def)

lemma set_sub_last:
  assumes "is_doc m es" "name_ok k" "is_doc d fs" "doc_size (es @ [(t, k, enc_doc fs)]) \<le> n" "n \<le> length m" "length m < 2147480000"
    "t = 0x03 \<and> put = bson_set_subdocument \<or> t = 0x04 \<and> put = bson_set_array"
  shows "\<exists>m' r. put (Some m) k d = Some (Some m', r) \<and> is_doc m' (es @ [(t, k, enc_doc fs)]) \<and> length m' = length m \<and> drop n m' = drop n m"
proof -
  have "length (enc_doc fs) = doc_size fs" by (simp add: enc_doc_def doc_size_def)
  with assms(4-6) have "doc_size fs < 2147483000" by (simp add: doc_size_simps)
  note sub = sub_doc_ok [OF assms(3) this]
  have "fits m es (t, k, sub_value d)" using assms(4-6) sub by (simp add: fits_iff)
  with sub.appends [OF sub(1) assms(2,1)] arr.appends [OF sub(1) assms(2,1)] sub(2) assms(7) drop_more [OF _ assms(4)] show ?thesis
    by (auto simp: appended_def)
qed

section \<open>The two parts\<close>

definition runtime_elems :: "runtime \<Rightarrow> elem list" where
  "runtime_elems r = (0x02, cstr ''name'', string_value (rt_name r)) #
     (case rt_version r of None \<Rightarrow> [] | Some v \<Rightarrow> [(0x02, cstr ''version'', string_value v)])"

definition storage_elem :: "storage \<Rightarrow> elem" where
  "storage_elem st = (0x02, st_name st, string_value (st_path st))"

text \<open>The runtimes as the code stores them: the first one under the name of the byte 208, which is 0 minus the
  character 0.\<close>

definition runtimes_elems :: "runtime \<Rightarrow> elem list" where
  "runtimes_elems r = [(0x03, [0xd0], enc_doc (runtime_elems r))]"

definition info_elems :: "runtime \<Rightarrow> storage \<Rightarrow> elem list" where
  "info_elems r st = [(0x02, cstr ''rubicVersion'', string_value RUBIC_AGENT_RUBIC_VERSION),
     (0x04, cstr ''runtimes'', enc_doc (runtimes_elems r)), (0x03, cstr ''storages'', enc_doc [storage_elem st])]"

text \<open>What fits into the room the code has.\<close>

definition info_room :: "runtime \<Rightarrow> storage \<Rightarrow> bool" where
  "info_room r st \<longleftrightarrow> doc_size (runtimes_elems r) \<le> 64 \<and> doc_size [storage_elem st] \<le> 64 \<and> name_ok (st_name st)"

lemma runtime_size: "doc_size (runtimes_elems r) = doc_size (runtime_elems r) + 8"
  by (simp add: runtimes_elems_def doc_size_def enc_doc_def)

lemma runtime_doc_ok:
  assumes "info_room r st"
  shows "\<exists>d. runtime_doc r = Some d \<and> is_doc d (runtime_elems r)"
proof -
  from create_in_block [of 64] obtain m1 where
    1: "bson_create_empty_document (replicate 64 0) = Some m1" "is_doc m1 []" "length m1 = 64" by auto
  let ?n = "(0x02, cstr ''name'', string_value (rt_name r)) :: elem"
  have sz: "doc_size (runtime_elems r) \<le> 56" using assms by (simp add: info_room_def runtime_size)
  have "doc_size ([] @ [?n]) \<le> doc_size (runtime_elems r)"
    by (simp add: runtime_elems_def doc_size_def split: option.split)
  then have "doc_size ([] @ [?n]) \<le> 64" using sz by simp
  from set_str_last [OF 1(2) rubic_names(6) this] 1(3) obtain m2 where
    2: "set_str (cstr ''name'') (rt_name r) m1 = Some m2" "is_doc m2 [?n]" "length m2 = 64" by auto
  show ?thesis
  proof (cases "rt_version r")
    case None
    with 1 2 show ?thesis by (simp add: runtime_doc_def runtime_elems_def)
  next
    case (Some v)
    then have "doc_size ([?n] @ [(0x02, cstr ''version'', string_value v)]) \<le> 64"
      using sz by (simp add: runtime_elems_def)
    from set_str_last [OF 2(2) rubic_names(7) this] 2(3) Some 1 2 show ?thesis
      by (auto simp: runtime_doc_def runtime_elems_def)
  qed
qed

lemma info_subdocs_ok:
  assumes "info_room r st"
  shows "\<exists>m. info_subdocs [Some r] [Some st] (replicate 128 0) = Some m \<and> is_doc m (runtimes_elems r) \<and>
    is_doc (drop 64 m) [storage_elem st]"
proof -
  have p: "info_parts = 64" by (simp add: info_parts_def rubic_maxima)
  from create_in_block [of 128] obtain m1 where
    1: "bson_create_empty_document (replicate 128 0) = Some m1" "is_doc m1 []" "length m1 = 128" by auto
  have "bson_create_empty_document (drop 64 m1) = Some (bson_empty_document @ drop 5 (drop 64 m1))"
    by (rule empty_document) (use 1(3) in simp)
  then obtain d where d: "bson_create_empty_document (drop 64 m1) = Some d" "is_doc d []" "length d = 64"
    using is_doc_empty 1(3) by (auto simp: bson_empty_document_def)
  define m2 where "m2 = take 64 m1 @ d"
  have 2: "is_doc m2 []" "drop 64 m2 = d" "length m2 = 128"
    using 1 d(3) is_doc_take [of "[]" 64 m2 m1] by (simp_all add: m2_def doc_size_def)
  from runtime_doc_ok [OF assms] obtain t where t: "runtime_doc r = Some t" "is_doc t (runtime_elems r)" by blast
  have "doc_size ([] @ [(0x03, [0xd0], enc_doc (runtime_elems r))]) \<le> 64"
    using assms by (simp add: info_room_def runtimes_elems_def)
  from set_sub_last [OF 2(1) _ t(2) this, of bson_set_subdocument] 2(2,3) obtain m3 q where
    3: "bson_set_subdocument (Some m2) [0xd0] t = Some (Some m3, q)" "is_doc m3 (runtimes_elems r)" "length m3 = 128" "drop 64 m3 = d"
    by (auto simp: runtimes_elems_def name_ok_def)
  have "doc_size ([] @ [(0x02, st_name st, string_value (st_path st))]) \<le> 64" "name_ok (st_name st)"
    using assms by (simp_all add: info_room_def storage_elem_def)
  from set_str_last [OF d(2) this(2,1)] d(3) obtain d2 where
    d2: "set_str (st_name st) (st_path st) d = Some d2" "is_doc d2 [storage_elem st]" "length d2 = 64" by (auto simp: storage_elem_def)
  let ?m = "take 64 m3 @ d2"
  have "is_doc ?m (runtimes_elems r)"
    using is_doc_take [of "runtimes_elems r" 64 ?m m3] 3(2,3) assms by (simp add: info_room_def)
  moreover have "(word_of_int (0 - 48) :: byte) = 0xd0" by simp
  then have "info_subdocs [Some r] [Some st] (replicate 128 0) = Some ?m"
    using 1(1) d(1) 3(1,4) t(1) d2(1)
    by (simp only: info_subdocs_def at_offset_def p m2_def [symmetric] 2(2) add_runtimes.simps add_storages.simps bind.simps Let_def prod.case)
  ultimately show ?thesis using d2(2) 3(3) by auto
qed

section \<open>The description\<close>

lemma info_size: "info_room r st \<Longrightarrow> doc_size (info_elems r st) < 200"
  using runtime_size [of r]
  by (auto simp: info_room_def info_elems_def doc_size_def enc_doc_def string_value_def RUBIC_AGENT_RUBIC_VERSION_def)

lemma info_measures:
  assumes "info_room r st" "is_doc d1 (runtimes_elems r)" "is_doc d2 [storage_elem st]"
  shows "\<exists>a b c. bson_measure_string (cstr ''rubicVersion'') RUBIC_AGENT_RUBIC_VERSION = Some a \<and>
    bson_measure_array (cstr ''runtimes'') d1 = Some b \<and> bson_measure_subdocument (cstr ''storages'') d2 = Some c \<and>
    bson_empty_size + a + b + c = int (doc_size (info_elems r st))"
proof -
  have "doc_size (runtimes_elems r) < 2147483000" "doc_size [storage_elem st] < 2147483000"
    using assms(1) by (simp_all add: info_room_def)
  note s1 = sub_doc_ok [OF assms(2) this(1)] and s2 = sub_doc_ok [OF assms(3) this(2)]
  have "short RUBIC_AGENT_RUBIC_VERSION" by (simp add: short_def RUBIC_AGENT_RUBIC_VERSION_def)
  from str.measures [OF this, of "cstr ''rubicVersion''"] arr.measures [OF s1(1), of "cstr ''runtimes''"]
    sub.measures [OF s2(1), of "cstr ''storages''"] s1(2) s2(2)
  show ?thesis
    by (simp add: bson_measure_string_def bson_measure_array_def bson_measure_subdocument_def bson_set_array_def
        bson_set_subdocument_def info_elems_def doc_size_def measures(4))
qed

lemma info_fill_ok:
  assumes "info_room r st" "is_doc d1 (runtimes_elems r)" "is_doc d2 [storage_elem st]"
  shows "info_fill d1 d2 (replicate (doc_size (info_elems r st)) 0) = Some (enc_doc (info_elems r st))"
proof -
  define n where "n = doc_size (info_elems r st)"
  define e1 where "e1 = (0x02 :: byte, cstr ''rubicVersion'', string_value RUBIC_AGENT_RUBIC_VERSION)"
  define e2 where "e2 = (0x04 :: byte, cstr ''runtimes'', enc_doc (runtimes_elems r))"
  define e3 where "e3 = (0x03 :: byte, cstr ''storages'', enc_doc [storage_elem st])"
  have es: "info_elems r st = [e1, e2, e3]" by (simp add: info_elems_def e1_def e2_def e3_def)
  have n: "n = doc_size [e1, e2, e3]" "n < 200" using info_size [OF assms(1)] by (simp_all add: n_def es)
  have le: "doc_size ([] @ [e1]) \<le> n" "doc_size ([e1] @ [e2]) \<le> n" "doc_size ([e1, e2] @ [e3]) \<le> n" "5 \<le> n"
    unfolding n(1) by (simp_all add: doc_size_def)
  from create_in_block [OF le(4)] obtain m1 where
    1: "bson_create_empty_document (replicate n 0) = Some m1" "is_doc m1 []" "length m1 = n" by auto
  from set_str_last [OF 1(2) rubic_names(3) le(1) [unfolded e1_def]] 1(3) n(2) obtain m2 where
    2: "set_str (cstr ''rubicVersion'') RUBIC_AGENT_RUBIC_VERSION m1 = Some m2" "is_doc m2 [e1]" "length m2 = n" by (auto simp: e1_def)
  from set_sub_last [OF 2(2) rubic_names(4) assms(2) le(2) [unfolded e2_def], of bson_set_array] 2(3) n(2) obtain m3 q where
    3: "bson_set_array (Some m2) (cstr ''runtimes'') d1 = Some (Some m3, q)" "is_doc m3 [e1, e2]" "length m3 = n" by (auto simp: e2_def)
  from set_sub_last [OF 3(2) rubic_names(5) assms(3) le(3) [unfolded e3_def], of bson_set_subdocument] 3(3) n(2) obtain m4 q2 where
    4: "bson_set_subdocument (Some m3) (cstr ''storages'') d2 = Some (Some m4, q2)" "is_doc m4 [e1, e2, e3]" "length m4 = n"
    by (auto simp: e3_def)
  from exact_doc [OF 4(2)] 4(3) n(1) have "m4 = enc_doc (info_elems r st)" by (simp add: es)
  then show ?thesis by (simp add: info_fill_def 1(1) 2(1) 3(1) 4(1) flip: n_def)
qed

text \<open>The state after the description has been built.\<close>

definition with_info :: "runtime \<Rightarrow> storage \<Rightarrow> 'w rubic \<Rightarrow> 'w rubic" where
  "with_info r st s =
     (if cached_info s = None
      then s\<lparr>cached_info := Some (enc_doc (info_elems r st)), rb_mallocs := rb_mallocs s + 2, rb_blocks := rb_blocks s + 1\<rparr> else s)"

lemma generate_ok:
  assumes "rb_runtimes s = [Some r]" "rb_storages s = [Some st]" "info_room r st" "cached_info s = None"
  shows "generate_info malloc s =
    Some (if \<not> malloc (rb_mallocs s) 128 then (used_rubic s, - ENOMEM)
      else if \<not> malloc (rb_mallocs s + 1) (word_of_nat (doc_size (info_elems r st))) then (used_rubic (used_rubic s), - ENOMEM)
      else (with_info r st s, 0))"
proof -
  define n where "n = doc_size (info_elems r st)"
  have n: "n < 200" using info_size [OF assms(3)] by (simp add: n_def)
  from info_subdocs_ok [OF assms(3)] obtain m where
    m: "info_subdocs [Some r] [Some st] (replicate 128 0) = Some m" "is_doc m (runtimes_elems r)" "is_doc (drop 64 m) [storage_elem st]"
    by blast
  from info_measures [OF assms(3) m(2,3)] obtain a b c where
    abc: "bson_measure_string (cstr ''rubicVersion'') RUBIC_AGENT_RUBIC_VERSION = Some a"
    "bson_measure_array (cstr ''runtimes'') m = Some b" "bson_measure_subdocument (cstr ''storages'') (drop 64 m) = Some c"
    "bson_empty_size + a + b + c = int n" by (auto simp: n_def)
  have fill: "info_fill m (drop 64 m) (replicate n 0) = Some (enc_doc (info_elems r st))"
    using info_fill_ok [OF assms(3) m(2,3)] by (simp add: n_def)
  have un: "unat (word_of_int (int n) :: u32) = n" using n word_bound [of "int n"] by simp
  have p: "info_parts = 64" by (simp add: info_parts_def rubic_maxima)
  have c0: "s\<lparr>cached_info := None\<rparr> = s" using assms(4) by (cases s) simp
  show ?thesis
    using m(1) abc(1-3) fill un assms
    by (simp add: generate_info_def p c0 abc(4) rubic_maxima Let_def rubic_malloc_def rubic_free_def used_rubic_def with_info_def
        del: of_int_add flip: n_def)
qed

lemma copy_ok:
  assumes "info_room r st"
  shows "info_copy malloc (enc_doc (info_elems r st)) s =
    (if malloc (rb_mallocs s) (word_of_nat (doc_size (info_elems r st))) then Some (Some (enc_doc (info_elems r st)), 0, used_rubic s)
     else Some (None, 0, used_rubic s))"
proof -
  define d where "d = enc_doc (info_elems r st)"
  have l: "length d = doc_size (info_elems r st)" by (simp add: d_def enc_doc_def doc_size_def)
  have "doc_size (info_elems r st) < 200" by (rule info_size [OF assms])
  moreover from this have "bson_measure_document d = Some (int (length d))"
    by (simp add: bson_measure_document_def d_def enc_doc_def read_int_object_0 cint_simps) (simp add: doc_size_def)
  ultimately show ?thesis
    using with_rubic_block_ok [of "int (length d)" malloc 0 s] rd_block_split [of "[]" d "[]"] wr_block_split [of "replicate (length d) 0" d "[]" "[]"]
    by (simp add: info_copy_def rubic_fail_def rubic_give_def l flip: d_def)
qed

text \<open>C39: \<open>rubic.info\<close> describes the board: the version, the runtime and the storage, in a document that is built for
  the first request, kept, and copied for every request; one block stays allocated for it. The runtime stands
  in the array under the name of the byte 208. Want of memory is answered by minus \<open>ENOMEM\<close> while the
  document is built, and by an empty result without an error when it is copied.\<close>

theorem rubic_info_describes:
  assumes "rb_runtimes s = [Some r]" "rb_storages s = [Some st]" "info_room r st"
    "cached_info s = None \<or> cached_info s = Some (enc_doc (info_elems r st))"
  shows "rubic_agent_method_info malloc params s =
    (if cached_info s = None \<and> \<not> malloc (rb_mallocs s) 128 then Some (None, - ENOMEM, used_rubic s)
     else if cached_info s = None \<and> \<not> malloc (rb_mallocs s + 1) (word_of_nat (doc_size (info_elems r st)))
     then Some (None, - ENOMEM, used_rubic (used_rubic s))
     else if \<not> malloc (rb_mallocs (with_info r st s)) (word_of_nat (doc_size (info_elems r st)))
     then Some (None, 0, used_rubic (with_info r st s))
     else Some (Some (enc_doc (info_elems r st)), 0, used_rubic (with_info r st s)))"
proof (cases "cached_info s")
  case None
  with generate_ok [OF assms(1-3), of malloc] show ?thesis
    by (simp add: rubic_agent_method_info_def copy_ok [OF assms(3)] rubic_fail_def ENOMEM_def) (simp add: with_info_def copy_ok [OF assms(3)])
next
  case (Some d)
  with assms(4) show ?thesis by (simp add: rubic_agent_method_info_def copy_ok [OF assms(3)] with_info_def)
qed

definition ex_runtime :: runtime where
  "ex_runtime = \<lparr>rt_name = cstr ''lua'', rt_version = Some (cstr ''5.3''), rt_runner = 0x1000\<rparr>"

definition ex_storage :: storage where
  "ex_storage = \<lparr>st_name = cstr ''internal'', st_path = cstr ''/mnt/epcs''\<rparr>"

theorem rubic_info_describes_witness:
  "\<exists>s1. rubic_agent_method_info ex_alloc None (ex_rubic\<lparr>rb_runtimes := [Some ex_runtime], rb_storages := [Some ex_storage]\<rparr>) =
     Some (Some (enc_doc (info_elems ex_runtime ex_storage)), 0, s1) \<and> rb_blocks s1 = 1 \<and>
     runtimes_elems ex_runtime = [(0x03, [0xd0], enc_doc [(0x02, cstr ''name'', string_value (cstr ''lua'')),
       (0x02, cstr ''version'', string_value (cstr ''5.3''))])]"
proof -
  let ?s = "ex_rubic\<lparr>rb_runtimes := [Some ex_runtime], rb_storages := [Some ex_storage]\<rparr>"
  have room: "info_room ex_runtime ex_storage"
    by (simp add: info_room_def runtime_size) (simp add: runtime_elems_def storage_elem_def ex_runtime_def ex_storage_def
        doc_size_def string_value_def name_ok_def, simp add: cstr_def)
  have "unat (word_of_nat (doc_size (info_elems ex_runtime ex_storage)) :: u32) < 1000"
    using info_size [OF room] by (simp add: unsigned_of_nat take_bit_nat_eq_self)
  then have "ex_alloc n (word_of_nat (doc_size (info_elems ex_runtime ex_storage)))" "ex_alloc n 128" for n by (simp_all add: ex_alloc_def)
  with rubic_info_describes [OF _ _ room, where s = ?s and malloc = ex_alloc and params = None] show ?thesis
    by (simp add: ex_rubic_def with_info_def used_rubic_def runtimes_elems_def) (simp add: runtime_elems_def ex_runtime_def)
qed

end
