(* ===== verification/Rubic_Boot_Props.thy ===== *)
theory Rubic_Boot_Props
  imports Rubic_Boot Rubic_Info
begin

text \<open>
  What the reader of the boot options does: it stays in its buffer and ends for files of up to 254 bytes,
  and the one form of file it takes.
\<close>

section \<open>Staying in the buffer\<close>

text \<open>A buffer whose last two bytes are zero.\<close>

definition ends_twice :: "mem \<Rightarrow> bool" where
  "ends_twice m \<longleftrightarrow> length m = 256 \<and> m ! 254 = 0 \<and> m ! 255 = 0"

lemma ends_rd: "ends_twice m \<Longrightarrow> 0 \<le> p \<Longrightarrow> p \<le> 255 \<Longrightarrow> rd m p = Some (m ! nat p)"
  by (simp add: rd_def ends_twice_def)

lemma ends_nonzero:
  assumes "ends_twice m" "0 \<le> p" "p \<le> 255" "m ! nat p \<noteq> 0"
  shows "p \<le> 253"
proof (rule ccontr)
  assume "\<not> p \<le> 253"
  with assms(3) have "p = 254 \<or> p = 255" by auto
  with assms(1,4) show False by (auto simp: ends_twice_def)
qed

lemma ends_wr:
  assumes "ends_twice m" "0 \<le> p" "p \<le> 253"
  shows "\<exists>m'. wr m p b = Some m' \<and> ends_twice m'"
  using assms by (auto simp: wr_def ends_twice_def nth_list_update)

lemma scan_stops:
  assumes "0 \<le> p" "p \<le> z" "z < int (length m)" "stop (m ! nat z)"
  shows "\<exists>q. c_scan stop m p = Some q \<and> p \<le> q \<and> q \<le> z \<and> stop (m ! nat q)"
  using assms
proof (induction "nat (z - p)" arbitrary: p rule: less_induct)
  case less
  show ?case
  proof (cases "stop (m ! nat p)")
    case True
    with less.prems show ?thesis by (subst c_scan.simps) auto
  next
    case False
    with less.prems have "p \<noteq> z" by auto
    with less.prems less.hyps [of "p + 1"] False show ?thesis by (subst c_scan.simps) auto
  qed
qed

text \<open>\<open>z\<close> is 254 or 255: where a walk that starts at or before it ends at the latest.\<close>

lemma ends_zero: "ends_twice m \<Longrightarrow> z = 254 \<or> z = 255 \<Longrightarrow> z < int (length m) \<and> m ! nat z = 0"
  by (auto simp: ends_twice_def)

lemma strpbrk_ok:
  assumes "ends_twice m" "0 \<le> p" "p \<le> 255"
  shows "\<exists>r. c_strpbrk m p cs = Some r \<and> (\<forall>q. r = Some q \<longrightarrow> p \<le> q \<and> q \<le> 253 \<and> m ! nat q \<in> set cs)"
proof -
  from scan_stops [of p 255 m "\<lambda>b. b = 0 \<or> b \<in> set cs"] ends_zero [OF assms(1), of 255] assms obtain q where
    q: "c_scan (\<lambda>b. b = 0 \<or> b \<in> set cs) m p = Some q" "p \<le> q" "q \<le> 255" "m ! nat q = 0 \<or> m ! nat q \<in> set cs" by auto
  with ends_rd [OF assms(1), of q] ends_nonzero [OF assms(1), of q] assms(2) show ?thesis
    by (auto simp: c_strpbrk_def)
qed

lemma strskip_ok:
  assumes "ends_twice m" "0 \<le> p" "p \<le> 254" "0 \<notin> set cs"
  shows "\<exists>q. strskip m p cs = Some q \<and> p \<le> q \<and> q \<le> 254"
proof -
  from strpbrk_ok [OF assms(1,2)] assms(3) obtain r where "c_strpbrk m p cs = Some r" by fastforce
  moreover from scan_stops [of p 254 m "\<lambda>b. b \<notin> set cs"] ends_zero [OF assms(1), of 254] assms obtain q where
    "c_scan (\<lambda>b. b \<notin> set cs) m p = Some q" "p \<le> q" "q \<le> 254" by auto
  ultimately show ?thesis using assms(3) by (auto simp: strskip_def c_strspn_def)
qed

lemma string_end_ok:
  assumes "ends_twice m" "0 \<le> p" "p \<le> 255"
  shows "\<exists>r. string_end m p = Some r \<and> (\<forall>q. r = Some q \<longrightarrow> p \<le> q \<and> q \<le> 253)"
  using assms(2,3)
proof (induction "nat (256 - p)" arbitrary: p rule: less_induct)
  case less
  from strpbrk_ok [OF assms(1) less.prems, of "[BACKSLASH, QUOTE]"] obtain r where
    r: "c_strpbrk m p [BACKSLASH, QUOTE] = Some r" "\<forall>q. r = Some q \<longrightarrow> p \<le> q \<and> q \<le> 253" by auto
  show ?case
  proof (cases r)
    case None
    with r show ?thesis by (subst string_end.simps) simp
  next
    case (Some q)
    with r(2) less.prems have q: "p \<le> q" "q \<le> 253" "rd m q = Some (m ! nat q)" using ends_rd [OF assms(1), of q] by auto
    from less.hyps [of "q + 2"] q less.prems obtain r' where
      "string_end m (q + 2) = Some r'" "\<forall>x. r' = Some x \<longrightarrow> q + 2 \<le> x \<and> x \<le> 253" by auto
    with r Some q show ?thesis by (subst string_end.simps) force
  qed
qed

lemma streq_ok: "ends_twice m \<Longrightarrow> 0 \<le> p \<Longrightarrow> p \<le> 254 \<Longrightarrow> 0 \<notin> set key \<Longrightarrow> \<exists>r. c_streq m p key = Some r"
  using ends_rd [of m 254] by (auto intro!: c_streq_defined [where q = 254] simp: ends_twice_def)

lemma c_string_ok:
  assumes "ends_twice m" "0 \<le> p" "p \<le> 254"
  shows "\<exists>s. c_string m p = Some s"
proof -
  have "drop (nat p) m ! (254 - nat p) = 0" using assms by (simp add: ends_twice_def)
  moreover have "254 - nat p < length (drop (nat p) m)" using assms by (simp add: ends_twice_def)
  ultimately have "0 \<in> set (drop (nat p) m)" by (metis nth_mem)
  with assms show ?thesis by (simp add: c_string_def)
qed

lemma json_spaces_nz: "0 \<notin> set json_spaces" and key_names_nz: "0 \<notin> set (cstr ''runtime'')" "0 \<notin> set (cstr ''file'')"
  by (simp_all add: json_spaces_def cstr_def)

lemma json_value_ok:
  assumes "ends_twice m" "0 \<le> key" "key \<le> 254" "0 \<le> p" "p \<le> 254"
  shows "\<exists>r. json_value rts key m p file rt = Some r \<and>
    (\<forall>m' q file' rt'. r = Some (m', q, file', rt') \<longrightarrow>
       ends_twice m' \<and> p < q \<and> q \<le> 254 \<and> (file' = file \<or> (\<exists>v. file' = Some v \<and> 0 \<le> v \<and> v \<le> 254)))"
proof (cases "m ! nat p = QUOTE")
  case False
  from strpbrk_ok [OF assms(1), of "p + 1" "[LBRACE, RBRACE, 0x5b, 0x5d, COMMA]"] assms(4,5) obtain r where
    "c_strpbrk m (p + 1) [LBRACE, RBRACE, 0x5b, 0x5d, COMMA] = Some r" "\<forall>q. r = Some q \<longrightarrow> p + 1 \<le> q \<and> q \<le> 253" by auto
  with False assms(1,4,5) ends_rd [OF assms(1,4)] show ?thesis by (cases r) (auto simp: json_value_def)
next
  case True
  have "p \<le> 253" using ends_nonzero [OF assms(1,4)] assms(5) True by (simp add: QUOTE_def)
  with string_end_ok [OF assms(1), of "p + 1"] assms(4) obtain r where
    r: "string_end m (p + 1) = Some r" "\<forall>q. r = Some q \<longrightarrow> p + 1 \<le> q \<and> q \<le> 253" by auto
  show ?thesis
  proof (cases r)
    case None
    with r True assms(5) ends_rd [OF assms(1,4)] show ?thesis by (simp add: json_value_def Let_def)
  next
    case (Some q)
    with r have q: "p + 1 \<le> q" "q \<le> 253" by auto
    with ends_wr [OF assms(1), of q 0] assms(4) obtain m2 where m2: "wr m q 0 = Some m2" "ends_twice m2" by auto
    from strskip_ok [OF m2(2), of "q + 1"] q assms(4) json_spaces_nz obtain i where
      i: "strskip m2 (q + 1) json_spaces = Some i" "q + 1 \<le> i" "i \<le> 254" by auto
    from streq_ok [OF m2(2) assms(2,3) key_names_nz(1)] streq_ok [OF m2(2) assms(2,3) key_names_nz(2)] obtain b1 b2 where
      b: "c_streq m2 key (cstr ''runtime'') = Some b1" "c_streq m2 key (cstr ''file'') = Some b2" by blast
    from c_string_ok [OF m2(2), of "p + 1"] assms(4) \<open>p \<le> 253\<close> obtain s where "c_string m2 (p + 1) = Some s" by auto
    with r(1) Some True m2 i b q assms(4) \<open>p \<le> 253\<close> ends_rd [OF assms(1,4)] show ?thesis
      by (auto simp: json_value_def Let_def)
  qed
qed

lemma json_member_ok:
  assumes "ends_twice m" "0 \<le> p" "p \<le> 254"
  shows "\<exists>r. json_member rts m p file rt = Some r \<and>
    (\<forall>m' q file' rt'. r = Some (m', q, file', rt') \<longrightarrow>
       ends_twice m' \<and> p < q \<and> q \<le> 254 \<and> (file' = file \<or> (\<exists>v. file' = Some v \<and> 0 \<le> v \<and> v \<le> 254)))"
proof -
  from strskip_ok [OF assms json_spaces_nz] obtain i where i: "strskip m p json_spaces = Some i" "p \<le> i" "i \<le> 254" by auto
  note rdi = ends_rd [OF assms(1), of i]
  show ?thesis
  proof (cases "m ! nat i = QUOTE")
    case False
    with i rdi assms(2) show ?thesis by (simp add: json_member_def)
  next
    case True
    have i3: "i \<le> 253" using ends_nonzero [OF assms(1), of i] True i assms(2) by (simp add: QUOTE_def)
    with strpbrk_ok [OF assms(1), of "i + 1" "[QUOTE]"] i assms(2) obtain r where
      r: "c_strchr m (i + 1) QUOTE = Some r" "\<forall>q. r = Some q \<longrightarrow> i + 1 \<le> q \<and> q \<le> 253" by (auto simp: c_strchr_def)
    show ?thesis
    proof (cases r)
      case None
      with i rdi assms(2) True r(1) show ?thesis by (simp add: json_member_def Let_def)
    next
      case (Some q)
      with r(2) have q: "i + 1 \<le> q" "q \<le> 253" by auto
      with ends_wr [OF assms(1), of q 0] i assms(2) obtain m2 where m2: "wr m q 0 = Some m2" "ends_twice m2" by auto
      from strskip_ok [OF m2(2), of "q + 1"] q i assms(2) json_spaces_nz obtain j where
        j: "strskip m2 (q + 1) json_spaces = Some j" "q + 1 \<le> j" "j \<le> 254" by auto
      note rdj = ends_rd [OF m2(2), of j]
      show ?thesis
      proof (cases "m2 ! nat j = COLON")
        case False
        with i rdi assms(2) True r(1) Some m2 j q rdj show ?thesis by (simp add: json_member_def Let_def)
      next
        case colon: True
        have "j \<le> 253" using ends_nonzero [OF m2(2), of j] colon i j q assms(2) by (simp add: COLON_def)
        with strskip_ok [OF m2(2), of "j + 1"] i j q assms(2) json_spaces_nz obtain k where
          k: "strskip m2 (j + 1) json_spaces = Some k" "j + 1 \<le> k" "k \<le> 254" by auto
        have v: "\<exists>r. json_value rts (i + 1) m2 k file rt = Some r \<and>
          (\<forall>m' q file' rt'. r = Some (m', q, file', rt') \<longrightarrow>
             ends_twice m' \<and> k < q \<and> q \<le> 254 \<and> (file' = file \<or> (\<exists>v. file' = Some v \<and> 0 \<le> v \<and> v \<le> 254)))"
          by (rule json_value_ok [OF m2(2)]) (use i3 i j k q assms(2) in auto)
        have "json_member rts m p file rt = json_value rts (i + 1) m2 k file rt"
          using i rdi assms(2) True r(1) Some m2 j q rdj colon k by (simp add: json_member_def Let_def)
        with v i j q k show ?thesis by fastforce
      qed
    qed
  qed
qed

lemma json_members_ok:
  assumes "ends_twice m" "0 \<le> p" "p \<le> 254" "file = None \<or> (\<exists>v. file = Some v \<and> 0 \<le> v \<and> v \<le> 254)"
  shows "\<exists>r. json_members rts m p file rt = Some r \<and>
    (\<forall>m' file' rt'. r = Some (m', file', rt') \<longrightarrow> ends_twice m' \<and> (file' = None \<or> (\<exists>v. file' = Some v \<and> 0 \<le> v \<and> v \<le> 254)))"
  using assms
proof (induction "nat (256 - p)" arbitrary: m p "file" rt rule: less_induct)
  case less
  from json_member_ok [OF less.prems(1-3), of rts "file" rt] obtain r where
    r: "json_member rts m p file rt = Some r"
    "\<forall>m' q file' rt'. r = Some (m', q, file', rt') \<longrightarrow>
       ends_twice m' \<and> p < q \<and> q \<le> 254 \<and> (file' = file \<or> (\<exists>v. file' = Some v \<and> 0 \<le> v \<and> v \<le> 254))" by blast
  show ?case
  proof (cases r)
    case None
    with r(1) show ?thesis by (subst json_members.simps) simp
  next
    case (Some x)
    obtain m2 q file2 rt2 where x: "x = (m2, q, file2, rt2)" by (cases x) auto
    with Some r(2) less.prems(4) have q: "ends_twice m2" "p < q" "q \<le> 254"
      "file2 = None \<or> (\<exists>v. file2 = Some v \<and> 0 \<le> v \<and> v \<le> 254)" by blast+
    from ends_rd [OF q(1), of q] ends_rd [OF q(1), of "q + 1"] q less.prems(2) have
      rd: "rd m2 q = Some (m2 ! nat q)" "rd m2 (q + 1) = Some (m2 ! nat (q + 1))" by auto
    show ?thesis
    proof (cases "m2 ! nat q = RBRACE \<or> m2 ! nat (q + 1) \<noteq> COMMA")
      case True
      with r(1) Some x rd q(1,4) show ?thesis by (subst json_members.simps) auto
    next
      case False
      then have "q + 1 \<le> 253"
        using ends_nonzero [OF q(1), of "q + 1"] q less.prems(2) by (simp add: COMMA_def)
      with less.hyps [OF _ q(1) _ _ q(4), of "q + 2"] q(2) less.prems(2) have
        "\<exists>r. json_members rts m2 (q + 2) file2 rt2 = Some r \<and> (\<forall>m' file' rt'. r = Some (m', file', rt') \<longrightarrow>
           ends_twice m' \<and> (file' = None \<or> (\<exists>v. file' = Some v \<and> 0 \<le> v \<and> v \<le> 254)))" by auto
      moreover have "json_members rts m p file rt = json_members rts m2 (q + 2) file2 rt2"
        using r(1) Some x rd False by (subst json_members.simps) simp
      ultimately show ?thesis by simp
    qed
  qed
qed

lemma parse_buffer_ok:
  assumes "ends_twice m"
  shows "\<exists>r. parse_buffer rts m = Some r"
proof -
  from strskip_ok [OF assms _ _ json_spaces_nz, of 0] obtain i where i: "strskip m 0 json_spaces = Some i" "0 \<le> i" "i \<le> 254" by auto
  note rdi = ends_rd [OF assms, of i]
  show ?thesis
  proof (cases "m ! nat i = LBRACE")
    case False
    with i rdi show ?thesis by (simp add: parse_buffer_def)
  next
    case True
    have "i \<le> 253" using ends_nonzero [OF assms, of i] True i by (simp add: LBRACE_def)
    with json_members_ok [OF assms, of "i + 1" None rts "find_runtime rts None"] i obtain r where
      r: "json_members rts m (i + 1) None (find_runtime rts None) = Some r"
      "\<forall>m' file' rt'. r = Some (m', file', rt') \<longrightarrow> ends_twice m' \<and> (file' = None \<or> (\<exists>v. file' = Some v \<and> 0 \<le> v \<and> v \<le> 254))"
      by auto
    show ?thesis
    proof (cases r)
      case None
      with i rdi True r(1) show ?thesis by (simp add: parse_buffer_def)
    next
      case (Some x)
      obtain m2 file2 rt2 where x: "x = (m2, file2, rt2)" by (cases x) auto
      from r(2) Some x have f: "ends_twice m2" "file2 = None \<or> (\<exists>v. file2 = Some v \<and> 0 \<le> v \<and> v \<le> 254)" by blast+
      then have "\<forall>v. file2 = Some v \<longrightarrow> (\<exists>str. c_string m2 v = Some str)" using c_string_ok [OF f(1)] by blast
      with i rdi True r(1) Some x show ?thesis by (cases file2) (auto simp: parse_buffer_def)
    qed
  qed
qed

section \<open>Reading the file\<close>

lemma wr_block_within:
  assumes "0 \<le> i" "i + int (length bs) \<le> n" "n < int (length m)"
  shows "\<exists>m'. wr_block m i bs = Some m' \<and> length m' = length m \<and> m' ! nat n = m ! nat n"
proof -
  have "wr_block m i bs = Some (take (nat i) m @ bs @ drop (nat i + length bs) m)"
    by (rule wr_block_ok) (use assms in auto)
  moreover have "(take (nat i) m @ bs @ drop (nat i + length bs) m) ! nat n = m ! nat n"
    using assms by (auto simp: nth_append min_def)
  moreover have "length (take (nat i) m @ bs @ drop (nat i + length bs) m) = length m" using assms by auto
  ultimately show ?thesis by auto
qed

lemma read_boot_ok:
  assumes "posix_ok px" "length buf = 256" "0 \<le> i" "i \<le> 255"
  shows "\<exists>f' r. read_boot px fd buf i f = Some (f', r) \<and> (\<forall>b. r = Some b \<longrightarrow> length b = 256 \<and> b ! 255 = buf ! 255)"
  using assms(2-4)
proof (induction "nat (255 - i)" arbitrary: buf i f rule: less_induct)
  case less
  obtain f2 bytes n e where rd: "px_read px fd (255 - i) f = (f2, bytes, n, e)" by (metis prod_cases4)
  note len = posix_read [OF assms(1) rd]
  have "i + int (length bytes) \<le> 255" using len(1) less.prems(3) by simp
  with wr_block_within [of i bytes 255 buf] less.prems obtain buf2 where
    w: "wr_block buf i bytes = Some buf2" "length buf2 = 256" "buf2 ! 255 = buf ! 255" by auto
  show ?case
  proof (cases "n \<le> 0")
    case True
    with rd w show ?thesis by (subst read_boot.simps) auto
  next
    case False
    with len less.prems have "0 < n" "i + n \<le> 255" by auto
    with less.hyps [of "i + n" buf2 f2] less.prems(2) w rd show ?thesis by (subst read_boot.simps) auto
  qed
qed

lemma boot_path_ok:
  assumes "length path \<le> 244" "0 \<notin> set path"
  shows "\<exists>b. boot_path path = Some b \<and> ends_twice b \<and> c_string b 0 = Some (path @ cstr ''/boot.json'')"
proof -
  define nm where "nm = cstr ''/boot.json''"
  have nm: "length nm = 10" "0 \<notin> set nm" by (simp_all add: nm_def) (simp add: cstr_def)
  define b where "b = path @ nm @ 0 # replicate (245 - length path) 0"
  have t: "take 255 path = path" using assms(1) by simp
  have "replicate (256 - length path) (0 :: byte) = replicate 11 0 @ replicate (245 - length path) 0"
    using assms(1) by (simp flip: replicate_add)
  with wr_block_split [of "replicate 11 0" "nm @ [0]" path "replicate (245 - length path) 0"] nm(1)
  have p: "boot_path path = Some b" by (simp add: boot_path_def t b_def del: replicate.simps flip: nm_def)
  have z: "b ! k = 0" if "254 \<le> k" "k < 256" for k
  proof -
    have "b = (path @ nm) @ replicate (246 - length path) 0"
      using assms(1) by (simp add: b_def Suc_diff_le flip: replicate_Suc)
    moreover have "\<not> k - length path < 10" "\<not> k < length path" using that assms(1) by auto
    ultimately show ?thesis using that nm(1) by (simp add: nth_append)
  qed
  have "length b = 256" using assms(1) nm(1) by (simp add: b_def)
  with z have e: "ends_twice b" by (simp add: ends_twice_def)
  have "takeWhile (\<lambda>x. x \<noteq> 0) ((path @ nm) @ 0 # replicate (245 - length path) 0) = path @ nm"
    by (subst takeWhile_append2) (use assms(2) nm(2) in auto)
  then have "takeWhile (\<lambda>x. x \<noteq> 0) b = path @ nm" by (simp add: b_def)
  moreover have "0 \<in> set b" by (simp add: b_def)
  ultimately show ?thesis using p e by (simp add: c_string_def nm_def)
qed

text \<open>The file has at most 254 bytes: reading it leaves the last but one byte of the buffer alone.\<close>

definition boot_short :: "'f posix \<Rightarrow> 'f rubic \<Rightarrow> bool" where
  "boot_short px s \<longleftrightarrow>
     (\<forall>st f fd e buf f' b. internal_storage (rb_storages s) = Some st \<longrightarrow>
        px_open px (st_path st @ cstr ''/boot.json'') O_RDONLY 0 (rb_dev s) = (f, fd, e) \<longrightarrow>
        length buf = 256 \<longrightarrow> buf ! 254 = 0 \<longrightarrow> read_boot px fd buf 0 f = Some (f', Some b) \<longrightarrow> b ! 254 = 0)"

lemma boot_file_blocks:
  "boot_file malloc path fl s = (s', r) \<Longrightarrow> rb_blocks s' = rb_blocks s + (if r = None then 0 else 1)"
  by (auto simp: boot_file_def Let_def rubic_malloc_def split: if_splits)

text \<open>A scan with its end given.\<close>

lemma scan_to:
  assumes "0 \<le> p" "p \<le> q" "q < int (length m)" "stop (m ! nat q)" "\<And>i. p \<le> i \<Longrightarrow> i < q \<Longrightarrow> \<not> stop (m ! nat i)"
  shows "c_scan stop m p = Some q"
proof -
  from scan_stops [of p q m stop, OF assms(1-4)] obtain r where r: "c_scan stop m p = Some r" "p \<le> r" "r \<le> q" "stop (m ! nat r)" by blast
  then have "r = q" using assms(5) [of r] by force
  with r show ?thesis by simp
qed

definition full_head :: mem where
  "full_head = [LBRACE, QUOTE, 0x61, QUOTE, COLON]"

definition full_file :: mem where
  "full_file = full_head @ replicate 250 0x20 @ [0]"

lemma full_nth:
  "length full_file = 256" "i < 5 \<Longrightarrow> full_file ! i = full_head ! i" "5 \<le> i \<Longrightarrow> i < 255 \<Longrightarrow> full_file ! i = 0x20" "full_file ! 255 = 0"
proof -
  have h: "length full_head = 5" by (simp add: full_head_def)
  then show "length full_file = 256" by (simp add: full_file_def del: replicate.simps)
  show "i < 5 \<Longrightarrow> full_file ! i = full_head ! i" using h by (simp add: full_file_def nth_append del: replicate.simps)
  show "5 \<le> i \<Longrightarrow> i < 255 \<Longrightarrow> full_file ! i = 0x20" "full_file ! 255 = 0"
    using h by (simp_all add: full_file_def nth_append del: replicate.simps)
qed

lemma full_parse: "parse_buffer rts full_file = None"
proof -
  have hd: "full_file ! 0 = LBRACE" "full_file ! 1 = QUOTE" "full_file ! 2 = 0x61" "full_file ! 3 = QUOTE" "full_file ! 4 = COLON"
    using full_nth(2) [of 0] full_nth(2) [of 1] full_nth(2) [of 2] full_nth(2) [of 3] full_nth(2) [of 4] by (simp_all add: full_head_def)
  define m where "m = full_file[3 := 0]"
  have m: "length m = 256" "m ! 4 = COLON" "m ! 255 = 0" "\<And>i. 5 \<le> i \<Longrightarrow> i < 255 \<Longrightarrow> m ! i = 0x20"
    using full_nth(1,3,4) hd by (simp_all add: m_def)
  have stay: "strskip xs p json_spaces = Some p" if "0 \<le> p" "p < 255" "length xs = 256" "xs ! 255 = 0" "xs ! nat p \<notin> set json_spaces" for xs p
  proof -
    from scan_stops [of p 255 xs "\<lambda>b. b = 0 \<or> b \<in> set json_spaces"] that obtain q where
      q: "c_scan (\<lambda>b. b = 0 \<or> b \<in> set json_spaces) xs p = Some q" "p \<le> q" "q \<le> 255" "xs ! nat q = 0 \<or> xs ! nat q \<in> set json_spaces" by auto
    then have "rd xs q = Some (xs ! nat q)" using that by (simp add: rd_def)
    with q that(5) show ?thesis by (auto simp: strskip_def c_strpbrk_def)
  qed
  have s0: "strskip full_file 0 json_spaces = Some 0" "strskip full_file 1 json_spaces = Some 1" "strskip m 4 json_spaces = Some 4"
    using stay [of 0 full_file] stay [of 1 full_file] stay [of 4 m] full_nth(1,4) hd m by (simp_all add: json_chars)
  have "c_scan (\<lambda>b. b = 0 \<or> b \<in> set [QUOTE]) full_file 2 = Some 3"
    by (rule scan_to) (use full_nth(1) hd in \<open>auto simp: QUOTE_def le_less zless_iff_Suc_zadd\<close>)
  then have q: "c_strchr full_file 2 QUOTE = Some (Some 3)" using full_nth(1) hd(4) by (simp add: c_strchr_def c_strpbrk_def rd_def QUOTE_def)
  have "c_scan (\<lambda>b. b = 0 \<or> b \<in> set json_spaces) m 5 = Some 5"
    by (rule scan_to) (use m in \<open>auto simp: json_spaces_def\<close>)
  moreover have "c_scan (\<lambda>b. b \<notin> set json_spaces) m 5 = Some 255"
    by (rule scan_to) (use m in \<open>auto simp: json_spaces_def nat_le_eq_zle\<close>)
  ultimately have s5: "strskip m 5 json_spaces = Some 255" using m by (simp add: strskip_def c_strpbrk_def c_strspn_def rd_def)
  have w: "wr full_file 3 0 = Some m" using full_nth(1) by (simp add: wr_def m_def)
  have "c_strpbrk m 256 cs = None" for cs unfolding c_strpbrk_def by (subst c_scan.simps) (simp add: m)
  then have "json_value rts 2 m 255 None rt = None" for rt using m by (simp add: json_value_def rd_def QUOTE_def)
  then have "json_member rts full_file 1 None rt = None" for rt
    using s0 q w s5 m hd full_nth(1) by (simp add: json_member_def Let_def rd_def)
  then have "json_members rts full_file 1 None rt = None" for rt by (subst json_members.simps) simp
  with s0 hd full_nth(1) show ?thesis by (simp add: parse_buffer_def rd_def)
qed

text \<open>C35: Reading the boot options stays in its buffer and ends, whatever the file holds, as long as it has at most
  254 bytes (and the path of the storage at most 244); a block stays allocated exactly when a file to run is
  found. A file of 255 bytes is too long: a brace, a name, a colon and spaces up to the end make the reader
  walk past the buffer.\<close>

theorem parse_boot_json_defined:
  assumes "posix_ok px" "boot_short px s"
    "\<forall>st. internal_storage (rb_storages s) = Some st \<longrightarrow> length (st_path st) \<le> 244 \<and> 0 \<notin> set (st_path st)"
  shows "(\<exists>s' r. parse_boot_json px malloc s = Some (s', r) \<and> rb_blocks s' = rb_blocks s + (if r = None then 0 else 1)) \<and>
    parse_buffer rts full_file = None"
proof
  show "parse_buffer rts full_file = None" by (rule full_parse)
  show "\<exists>s' r. parse_boot_json px malloc s = Some (s', r) \<and> rb_blocks s' = rb_blocks s + (if r = None then 0 else 1)"
  proof (cases "internal_storage (rb_storages s)")
    case None
    then show ?thesis by (simp add: parse_boot_json_def)
  next
    case (Some st)
    with boot_path_ok [of "st_path st"] assms(3) obtain b where
      b: "boot_path (st_path st) = Some b" "ends_twice b" "c_string b 0 = Some (st_path st @ cstr ''/boot.json'')" by blast
    obtain f fd e where o1: "px_open px (st_path st @ cstr ''/boot.json'') O_RDONLY 0 (rb_dev s) = (f, fd, e)" by (metis prod_cases3)
    have l: "length b = 256" "b ! 254 = 0" using b(2) by (simp_all add: ends_twice_def)
    from read_boot_ok [OF assms(1) l(1), of 0 fd f] obtain f2 r where
      r: "read_boot px fd b 0 f = Some (f2, r)" "\<forall>x. r = Some x \<longrightarrow> length x = 256 \<and> x ! 255 = b ! 255" by auto
    obtain f3 c1 c2 where cl: "px_close px fd f2 = (f3, c1, c2)" by (metis prod_cases3)
    note start = parse_boot_json_def Some option.case b(1,3) bind.simps o1 prod.case Let_def
    show ?thesis
    proof (cases "fd < 0")
      case True
      then show ?thesis by (simp add: start)
    next
      case False
      show ?thesis
      proof (cases r)
        case None
        with False r(1) cl show ?thesis by (simp add: start)
      next
        case (Some x)
        have "x ! 254 = 0" using assms(2) \<open>internal_storage (rb_storages s) = Some st\<close> o1 l r(1) Some unfolding boot_short_def by blast
        with r(2) Some b(2) have "ends_twice x" by (simp add: ends_twice_def)
        from parse_buffer_ok [OF this] obtain y where y: "parse_buffer (rb_runtimes s) x = Some y" by blast
        show ?thesis
        proof (cases y)
          case None
          with False r(1) cl Some y show ?thesis by (simp add: start)
        next
          case (Some z)
          obtain fl rt where z: "z = (fl, rt)" by (cases z)
          obtain s2 full where bf: "boot_file malloc (st_path st) fl (s\<lparr>rb_dev := f\<rparr>\<lparr>rb_dev := f3\<rparr>) = (s2, full)" by (cases "boot_file malloc (st_path st) fl (s\<lparr>rb_dev := f\<rparr>\<lparr>rb_dev := f3\<rparr>)")
          from boot_file_blocks [OF bf] False r(1) cl \<open>r = Some x\<close> y Some z bf show ?thesis
            by (auto simp: start)
        qed
      qed
    qed
  qed
qed

text \<open>An example: the file names \<open>/a.lua\<close>.\<close>

definition ex_boot_file :: mem where
  "ex_boot_file = [LBRACE, QUOTE] @ cstr ''file'' @ [QUOTE, COLON, QUOTE] @ cstr ''/a.lua'' @ [QUOTE, RBRACE]"

definition ex_boot :: "byte list rubic" where
  "ex_boot = \<lparr>rb_runtimes = [Some ex_runtime], rb_storages = [Some ex_storage], cached_info = None, rb_mallocs = 0, rb_blocks = 0,
     rb_dev = ex_boot_file\<rparr>"

lemma ex_boot_short: "boot_short ex_px ex_boot"
proof -
  have l: "length ex_boot_file = 17" by (simp add: ex_boot_file_def)
  have "read_boot ex_px 7 buf 0 ex_boot_file = Some ([], Some (ex_boot_file @ drop 17 buf))" if "length buf = 256" for buf
  proof -
    have w: "wr_block buf 0 ex_boot_file = Some (ex_boot_file @ drop 17 buf)" using l that by (subst wr_block_ok) simp_all
    have "read_boot ex_px 7 (ex_boot_file @ drop 17 buf) 17 [] = Some ([], Some (ex_boot_file @ drop 17 buf))"
      by (subst read_boot.simps) (simp add: ex_px_def wr_block_def)
    with w l show ?thesis by (subst read_boot.simps) (simp add: ex_px_def)
  qed
  with l show ?thesis by (auto simp: boot_short_def ex_boot_def ex_px_def nth_append)
qed

theorem parse_boot_json_defined_witness:
  "(\<exists>s' r. parse_boot_json ex_px ex_alloc ex_boot = Some (s', r) \<and> rb_blocks s' = (if r = None then 0 else 1)) \<and>
   parse_buffer [None] full_file = None"
proof -
  have "internal_storage (rb_storages ex_boot) = Some ex_storage" by (simp add: ex_boot_def internal_storage_def ex_storage_def)
  then have "\<forall>st. internal_storage (rb_storages ex_boot) = Some st \<longrightarrow> length (st_path st) \<le> 244 \<and> 0 \<notin> set (st_path st)"
    by (simp add: ex_storage_def) (simp add: cstr_def)
  from parse_boot_json_defined [OF ex_ok(1) ex_boot_short this, of ex_alloc "[None]"] show ?thesis by (simp add: ex_boot_def)
qed

section \<open>The form of the file\<close>

lemma scan_at:
  assumes "p = int (length A)" "\<forall>b \<in> set k. \<not> stop b" "stop x"
  shows "c_scan stop (A @ k @ x # B) p = Some (p + int (length k))"
proof (rule scan_to)
  show "stop ((A @ k @ x # B) ! nat (p + int (length k)))"
    using assms(1,3) by (simp add: nat_add_distrib nth_append)
  fix i assume "p \<le> i" "i < p + int (length k)"
  then have "(A @ k @ x # B) ! nat i = k ! (nat i - length A)" "nat i - length A < length k"
    using assms(1) by (auto simp: nth_append nat_less_iff)
  with assms(2) show "\<not> stop ((A @ k @ x # B) ! nat i)" by simp
qed (use assms(1) in auto)

lemma strpbrk_at:
  assumes "p = int (length A)" "\<forall>b \<in> set k. b \<noteq> 0 \<and> b \<notin> set cs" "x \<in> set cs" "x \<noteq> 0"
  shows "c_strpbrk (A @ k @ x # B) p cs = Some (Some (p + int (length k)))"
proof -
  have "c_scan (\<lambda>b. b = 0 \<or> b \<in> set cs) (A @ k @ x # B) p = Some (p + int (length k))"
    by (rule scan_at) (use assms in auto)
  moreover have "rd (A @ k @ x # B) (p + int (length k)) = Some x"
    using rd_at [of "p + int (length k)" "A @ k" x B] assms(1) by simp
  ultimately show ?thesis using assms(4) by (simp add: c_strpbrk_def)
qed

lemma strskip_at:
  assumes "p = int (length A)" "x \<notin> set cs" "0 \<in> set B"
  shows "strskip (A @ x # B) p cs = Some p"
proof -
  obtain C D where B: "B = C @ 0 # D" using assms(3) by (meson split_list)
  define z where "z = p + 1 + int (length C)"
  have "(A @ x # B) ! nat z = 0" using assms(1) by (simp add: z_def B nat_add_distrib nth_append)
  moreover have "z < int (length (A @ x # B))" using assms(1) by (simp add: z_def B)
  ultimately obtain q where q: "c_scan (\<lambda>b. b = 0 \<or> b \<in> set cs) (A @ x # B) p = Some q" "p \<le> q" "q \<le> z"
    "(A @ x # B) ! nat q = 0 \<or> (A @ x # B) ! nat q \<in> set cs" "z < int (length (A @ x # B))"
    using scan_stops [of p z "A @ x # B" "\<lambda>b. b = 0 \<or> b \<in> set cs"] assms(1) by (auto simp: z_def)
  then have "rd (A @ x # B) q = Some ((A @ x # B) ! nat q)" using assms(1) by (simp add: rd_def)
  moreover have "(A @ x # B) ! nat p = x" using assms(1) by simp
  ultimately show ?thesis using q assms(2) by (auto simp: strskip_def c_strpbrk_def)
qed

lemma c_string_split: "p = int (length A) \<Longrightarrow> 0 \<notin> set v \<Longrightarrow> c_string (A @ v @ 0 # B) p = Some v"
proof -
  assume "p = int (length A)" "0 \<notin> set v"
  moreover from this have "takeWhile (\<lambda>x. x \<noteq> 0) (v @ 0 # B) = v" by (subst takeWhile_append2) auto
  ultimately show ?thesis by (simp add: c_string_def)
qed

text \<open>A name or value that needs no escape.\<close>

definition plain :: "byte list \<Rightarrow> bool" where
  "plain k \<longleftrightarrow> set k \<inter> {0, QUOTE, BACKSLASH} = {}"

text \<open>The buffer with one member that is a string, before and after.\<close>

definition member_text :: "byte \<Rightarrow> byte list \<Rightarrow> byte list \<Rightarrow> mem \<Rightarrow> mem" where
  "member_text q k v rest = [LBRACE, QUOTE] @ k @ [q, COLON, QUOTE] @ v @ q # rest"

lemma json_member_string:
  assumes "plain k" "plain v" "c \<notin> set json_spaces" "0 \<in> set rest"
  shows "json_member rts (member_text QUOTE k v (c # rest)) 1 None rt =
    Some (Some (member_text 0 k v (c # rest), 6 + int (length k) + int (length v),
      if k = cstr ''file'' then Some (5 + int (length k)) else None,
      if k = cstr ''runtime'' then find_runtime rts (Some v) else rt))"
proof -
  define m0 where "m0 = member_text QUOTE k v (c # rest)"
  define m1 where "m1 = [LBRACE, QUOTE] @ k @ [0, COLON, QUOTE] @ v @ QUOTE # c # rest"
  define m2 where "m2 = member_text 0 k v (c # rest)"
  note d = m0_def m1_def m2_def member_text_def
  have ns: "QUOTE \<notin> set json_spaces" "COLON \<notin> set json_spaces" "QUOTE \<noteq> 0" by (simp_all add: json_chars)
  have pk: "\<forall>b \<in> set k. b \<noteq> 0 \<and> b \<notin> set [QUOTE]" "\<forall>b \<in> set v. b \<noteq> 0 \<and> b \<notin> set [BACKSLASH, QUOTE]"
    using assms(1,2) by (auto simp: plain_def)
  have s1: "strskip m0 1 json_spaces = Some 1" "rd m0 1 = Some QUOTE"
    using strskip_at [of 1 "[LBRACE]" QUOTE json_spaces "k @ [QUOTE, COLON, QUOTE] @ v @ QUOTE # c # rest"]
      rd_at [of 1 "[LBRACE]" QUOTE "k @ [QUOTE, COLON, QUOTE] @ v @ QUOTE # c # rest"] ns assms(4)
    by (simp_all add: d)
  have s2: "c_strchr m0 2 QUOTE = Some (Some (2 + int (length k)))"
    using strpbrk_at [of 2 "[LBRACE, QUOTE]" k "[QUOTE]" QUOTE "[COLON, QUOTE] @ v @ QUOTE # c # rest"] pk(1) ns
    by (simp add: c_strchr_def d)
  have s3: "wr m0 (2 + int (length k)) 0 = Some m1"
    using wr_at [of "2 + int (length k)" "[LBRACE, QUOTE] @ k" QUOTE "[COLON, QUOTE] @ v @ QUOTE # c # rest" 0] by (simp add: d)
  have s4: "strskip m1 (3 + int (length k)) json_spaces = Some (3 + int (length k))" "rd m1 (3 + int (length k)) = Some COLON"
    using strskip_at [of "3 + int (length k)" "[LBRACE, QUOTE] @ k @ [0]" COLON json_spaces "QUOTE # v @ QUOTE # c # rest"]
      rd_at [of "3 + int (length k)" "[LBRACE, QUOTE] @ k @ [0]" COLON "QUOTE # v @ QUOTE # c # rest"] ns assms(4)
    by (simp_all add: d)
  have s5: "strskip m1 (4 + int (length k)) json_spaces = Some (4 + int (length k))" "rd m1 (4 + int (length k)) = Some QUOTE"
    using strskip_at [of "4 + int (length k)" "[LBRACE, QUOTE] @ k @ [0, COLON]" QUOTE json_spaces "v @ QUOTE # c # rest"]
      rd_at [of "4 + int (length k)" "[LBRACE, QUOTE] @ k @ [0, COLON]" QUOTE "v @ QUOTE # c # rest"] ns assms(4)
    by (simp_all add: d)
  have "c_strpbrk m1 (5 + int (length k)) [BACKSLASH, QUOTE] = Some (Some (5 + int (length k) + int (length v)))"
    using strpbrk_at [of "5 + int (length k)" "[LBRACE, QUOTE] @ k @ [0, COLON, QUOTE]" v "[BACKSLASH, QUOTE]" QUOTE "c # rest"] pk(2) ns
    by (simp add: d)
  moreover have "rd m1 (5 + int (length k) + int (length v)) = Some QUOTE"
    using rd_at [of "5 + int (length k) + int (length v)" "[LBRACE, QUOTE] @ k @ [0, COLON, QUOTE] @ v" QUOTE "c # rest"] by (simp add: d)
  ultimately have s6: "string_end m1 (5 + int (length k)) = Some (Some (5 + int (length k) + int (length v)))"
    by (subst string_end.simps) simp
  have s7: "wr m1 (5 + int (length k) + int (length v)) 0 = Some m2"
    using wr_at [of "5 + int (length k) + int (length v)" "[LBRACE, QUOTE] @ k @ [0, COLON, QUOTE] @ v" QUOTE "c # rest" 0] by (simp add: d)
  have s8: "strskip m2 (6 + int (length k) + int (length v)) json_spaces = Some (6 + int (length k) + int (length v))"
    using strskip_at [of "6 + int (length k) + int (length v)" "[LBRACE, QUOTE] @ k @ [0, COLON, QUOTE] @ v @ [0]" c json_spaces rest] assms(3,4)
    by (simp add: d)
  have nz: "0 \<notin> set k" "0 \<notin> set v" using assms(1,2) by (auto simp: plain_def)
  have s9: "c_streq m2 2 key = Some (key = k)" if "0 \<notin> set key" for key
    using c_streq_iff [OF that nz(1), of 2 "[LBRACE, QUOTE]" "[COLON, QUOTE] @ v @ 0 # c # rest"] by (simp add: d)
  have s10: "c_string m2 (5 + int (length k)) = Some v"
    using c_string_split [of "5 + int (length k)" "[LBRACE, QUOTE] @ k @ [0, COLON, QUOTE]" v "c # rest"] nz(2) by (simp add: d)
  have ne: "cstr ''runtime'' \<noteq> cstr ''file''" by simp
  have "json_value rts 2 m1 (4 + int (length k)) None rt =
      Some (Some (m2, 6 + int (length k) + int (length v), if k = cstr ''file'' then Some (5 + int (length k)) else None,
        if k = cstr ''runtime'' then find_runtime rts (Some v) else rt))"
    using s5 s6 s7 s8 s9 [OF key_names_nz(1)] s9 [OF key_names_nz(2)] s10 ne
    by (auto simp: json_value_def Let_def add.commute add.left_commute simp del: cstr_eq)
  with s1 s2 s3 s4 s5(1) show ?thesis
    by (simp add: json_member_def Let_def add.commute flip: m0_def m2_def)
qed

text \<open>C36: The boot options are one member: a file that holds the name \<open>file\<close> and a string and then ends names that
  string and the first runtime; any other single member names no file. A comma and a second member are a
  syntax error, since the character after the comma is dropped and has to be a comma again: the runtime
  cannot be chosen together with the file.\<close>

theorem boot_json_one_member:
  assumes "plain k" "plain v" "c \<notin> set json_spaces" "0 \<in> set rest"
  shows "(c = RBRACE \<longrightarrow> parse_buffer rts (member_text QUOTE k v (c # rest)) =
      Some (if k = cstr ''file'' then Some (v, find_runtime rts None) else None)) \<and>
    (c \<noteq> RBRACE \<and> hd rest \<noteq> COMMA \<longrightarrow> parse_buffer rts (member_text QUOTE k v (c # rest)) = Some None)"
proof -
  let ?m = "member_text QUOTE k v (c # rest)"
  let ?m2 = "member_text 0 k v (c # rest)"
  let ?i = "6 + int (length k) + int (length v)"
  note d = member_text_def
  obtain x ys where rest: "rest = x # ys" using assms(4) by (cases rest) auto
  have start: "strskip ?m 0 json_spaces = Some 0" "rd ?m 0 = Some LBRACE"
    using strskip_at [of 0 "[]" LBRACE json_spaces "QUOTE # k @ [QUOTE, COLON, QUOTE] @ v @ QUOTE # c # rest"]
      rd_at [of 0 "[]" LBRACE "QUOTE # k @ [QUOTE, COLON, QUOTE] @ v @ QUOTE # c # rest"] assms(4)
    by (simp_all add: d json_chars)
  note mem = json_member_string [OF assms]
  have r: "rd ?m2 ?i = Some c" "rd ?m2 (?i + 1) = Some x"
    using rd_at [of ?i "[LBRACE, QUOTE] @ k @ [0, COLON, QUOTE] @ v @ [0]" c rest]
      rd_at [of "?i + 1" "[LBRACE, QUOTE] @ k @ [0, COLON, QUOTE] @ v @ [0, c]" x ys] by (simp_all add: d rest)
  have nz: "0 \<notin> set v" using assms(2) by (auto simp: plain_def)
  have str: "c_string ?m2 (5 + int (length k)) = Some v"
    using c_string_split [of "5 + int (length k)" "[LBRACE, QUOTE] @ k @ [0, COLON, QUOTE]" v "c # rest"] nz by (simp add: d)
  have ne: "cstr ''runtime'' \<noteq> cstr ''file''" by simp
  have "parse_buffer rts ?m = Some (if k = cstr ''file'' then Some (v, find_runtime rts None) else None)" if "c = RBRACE"
  proof -
    have "json_members rts ?m 1 None rt = Some (Some (?m2, if k = cstr ''file'' then Some (5 + int (length k)) else None,
        if k = cstr ''runtime'' then find_runtime rts (Some v) else rt))" for rt
      by (subst json_members.simps) (simp only: mem bind.simps option.case prod.case r, simp add: that)
    with start str ne show ?thesis by (auto simp: parse_buffer_def simp del: cstr_eq)
  qed
  moreover have "parse_buffer rts ?m = Some None" if "c \<noteq> RBRACE \<and> hd rest \<noteq> COMMA"
  proof -
    have "json_members rts ?m 1 None rt = Some None" for rt
      by (subst json_members.simps) (simp only: mem bind.simps option.case prod.case r, use that in \<open>simp add: rest\<close>)
    with start show ?thesis by (simp add: parse_buffer_def)
  qed
  ultimately show ?thesis by blast
qed

theorem boot_json_one_member_witness:
  "parse_buffer [Some ex_runtime] (member_text QUOTE (cstr ''file'') (cstr ''/a.lua'') (RBRACE # [0])) = Some (Some (cstr ''/a.lua'', Some ex_runtime)) \<and>
   parse_buffer [Some ex_runtime] (member_text QUOTE (cstr ''runtime'') (cstr ''lua'')
     (COMMA # [QUOTE] @ cstr ''file'' @ [QUOTE, COLON, QUOTE] @ cstr ''/a.lua'' @ [QUOTE, RBRACE, 0])) = Some None"
proof -
  have k: "plain (cstr ''file'')" "plain (cstr ''runtime'')" "plain (cstr ''/a.lua'')" "plain (cstr ''lua'')"
    by (simp_all add: plain_def cstr_def QUOTE_def BACKSLASH_def)
  have c: "RBRACE \<notin> set json_spaces" "COMMA \<notin> set json_spaces" "COMMA \<noteq> RBRACE" "QUOTE \<noteq> COMMA" by (simp_all add: json_chars)
  have f: "find_runtime [Some ex_runtime] None = Some ex_runtime" by simp
  from boot_json_one_member [OF k(1,3) c(1), of "[0]" "[Some ex_runtime]"] f
    boot_json_one_member [OF k(2,4) c(2), of "[QUOTE] @ cstr ''file'' @ [QUOTE, COLON, QUOTE] @ cstr ''/a.lua'' @ [QUOTE, RBRACE, 0]" "[Some ex_runtime]"] c(3,4)
  show ?thesis by (simp del: cstr_eq find_runtime.simps)
qed

end
