(* ===== verification/Rubic_Agent.thy ===== *)
theory Rubic_Agent
  imports Rubic_Boot_Props Rpc_Server
begin

text \<open>
  The worker of the Rubic agent (\<open>rubic_agent.c\<close>): the RPC server queues requests (\<open>rubic.queue\<close>), the worker
  thread takes them, runs a script engine and answers. The board has one worker.

  \<^item> An asynchronous request is the context the RPC server hands over: its parameters and an identity.
  \<^item> \<open>w_callbacks\<close> are the calls of \<open>peridot_rpc_server_async_callback\<close>, in order: the context (which may be
    NULL), the result document and the error number.
  \<^item> \<open>w_blocks\<close> counts the file names of the boot options that are allocated.
  \<^item> A part of the code between lock and unlock is one function; so is a stretch in which the worker writes
    only what the RPC thread does not look at in between. \<open>place\<close> says where the worker is.
\<close>

section \<open>State\<close>

datatype worker_state = WORKER_STATE_IDLE | WORKER_STATE_STARTING | WORKER_STATE_RUNNING | WORKER_STATE_ABORTING
  | WORKER_STATE_FAILED | WORKER_STATE_AUTOBOOT

record async_context =
  ac_id :: nat
  ac_params :: "mem option"

record worker =
  w_state :: worker_state
  w_sem :: nat
  w_context :: "async_context option"
  w_callback :: "async_context option"
  w_callbacks :: "(async_context option \<times> mem option \<times> int) list"
  w_blocks :: int

definition RUBIC_AGENT_RUNNER_FLAG_FILE :: int where "RUBIC_AGENT_RUNNER_FLAG_FILE = 1"
definition RUBIC_AGENT_RUNNER_FLAG_SOURCE :: int where "RUBIC_AGENT_RUNNER_FLAG_SOURCE = 2"
definition RUBIC_AGENT_RUNNER_FLAG_DEBUG :: int where "RUBIC_AGENT_RUNNER_FLAG_DEBUG = 4"
definition RUBIC_AGENT_RUNNER_FLAG_AUTOBOOT :: int where "RUBIC_AGENT_RUNNER_FLAG_AUTOBOOT = 8"

lemmas runner_flags = RUBIC_AGENT_RUNNER_FLAG_FILE_def RUBIC_AGENT_RUNNER_FLAG_SOURCE_def
  RUBIC_AGENT_RUNNER_FLAG_DEBUG_def RUBIC_AGENT_RUNNER_FLAG_AUTOBOOT_def

definition rubic_agent_init :: worker where
  "rubic_agent_init = \<lparr>w_state = WORKER_STATE_IDLE, w_sem = 0, w_context = None, w_callback = None, w_callbacks = [], w_blocks = 0\<rparr>"

definition rubic_agent_service :: "bool \<Rightarrow> worker \<Rightarrow> worker" where
  "rubic_agent_service disableAutoBoot w = (if disableAutoBoot then w else w\<lparr>w_state := WORKER_STATE_AUTOBOOT\<rparr>)"

definition call_back :: "async_context option \<Rightarrow> mem option \<Rightarrow> int \<Rightarrow> worker \<Rightarrow> worker" where
  "call_back c result e w = w\<lparr>w_callbacks := w_callbacks w @ [(c, result, e)]\<rparr>"

text \<open>\<open>strcmp\<close> of a string parameter, which defaults to the empty string, with a constant.\<close>

definition param_is :: "mem option \<Rightarrow> int option \<Rightarrow> byte list \<Rightarrow> bool option" where
  "param_is params p key = (case p of None \<Rightarrow> Some (key = []) | Some p \<Rightarrow> c_streq (the params) p key)"

section \<open>The RPC thread\<close>

text \<open>\<open>rubic.queue\<close> up to the unlock: whether a post follows, and the error number.\<close>

definition rubic_agent_method_queue :: "int \<Rightarrow> async_context \<Rightarrow> worker \<Rightarrow> (worker \<times> bool \<times> int) option" where
  "rubic_agent_method_queue junk c w =
     do { let params = ac_params c;
          (_, ps) \<leftarrow> bson_get_props params [(cstr ''tid'', junk)];
          tid \<leftarrow> bson_get_int32 params (off_of (cstr ''tid'') ps) (-1);
          if 0 \<le> tid \<and> tid < int RUBIC_AGENT_WORKER_THREADS then
            Some (if w_context w \<noteq> None then (w, False, - EBUSY) else (w\<lparr>w_context := Some c\<rparr>, True, 0))
          else do {
            (_, ps) \<leftarrow> bson_get_props params [(cstr ''name'', junk)];
            name \<leftarrow> bson_get_string params (off_of (cstr ''name'') ps);
            start \<leftarrow> param_is params name (cstr ''start'');
            Some (if \<not> start then (w, False, - ESRCH)
              else if w_state w = WORKER_STATE_IDLE
              then (w\<lparr>w_state := WORKER_STATE_STARTING, w_context := Some c\<rparr>, True, 0)
              else (w, False, - EBUSY)) } }"

definition sem_post_worker :: "worker \<Rightarrow> worker" where
  "sem_post_worker w = w\<lparr>w_sem := w_sem w + 1\<rparr>"

text \<open>\<open>rubic.status\<close>: the array of the threads in its own block, then the answer.\<close>

definition thread_doc :: "worker \<Rightarrow> mem option" where
  "thread_doc w =
     do { temp \<leftarrow> bson_create_empty_document (replicate 20 0);
          (temp, _) \<leftarrow> bson_set_boolean (Some temp) (cstr ''running'') (if w_state w \<noteq> WORKER_STATE_IDLE then 1 else 0);
          temp }"

definition threads_doc :: "worker \<Rightarrow> mem \<Rightarrow> mem option" where
  "threads_doc w subdoc =
     do { subdoc \<leftarrow> bson_create_empty_document subdoc;
          temp \<leftarrow> thread_doc w;
          (subdoc, _) \<leftarrow> bson_set_subdocument (Some subdoc) (cstr ''0'') temp;
          subdoc }"

definition rubic_agent_method_status :: "allocator \<Rightarrow> worker \<Rightarrow> 'w rubic \<Rightarrow> 'w rubic_result" where
  "rubic_agent_method_status malloc w s =
     do { n \<leftarrow> bson_measure_boolean (cstr ''running'');
          with_rubic_block malloc (bson_empty_size + (4 + bson_empty_size + n) * int RUBIC_AGENT_WORKER_THREADS) ENOMEM s (\<lambda>subdoc s.
            do { subdoc \<leftarrow> threads_doc w subdoc;
                 k \<leftarrow> bson_measure_array (cstr ''threads'') subdoc;
                 case rubic_malloc malloc (bson_empty_size + k) s of
                   (s, False) \<Rightarrow> rubic_fail ENOMEM (rubic_free (Some subdoc) s)
                 | (s, True) \<Rightarrow>
                     do { result \<leftarrow> bson_create_empty_document (replicate (unat (word_of_int (bson_empty_size + k) :: u32)) 0);
                          (result, _) \<leftarrow> bson_set_array (Some result) (cstr ''threads'') subdoc;
                          result \<leftarrow> result;
                          rubic_give result (rubic_free (Some subdoc) s) } }) }"

section \<open>What a runner calls\<close>

definition int_doc :: "nat \<Rightarrow> byte list \<Rightarrow> int \<Rightarrow> mem option" where
  "int_doc n key v =
     do { m \<leftarrow> bson_create_empty_document (replicate n 0); (m, _) \<leftarrow> bson_set_int32 (Some m) key v; m }"

text \<open>\<open>ok\<close> is whether the allocation succeeds. The index of the only worker is 0.\<close>

definition rubic_agent_runner_notify_init :: "bool \<Rightarrow> worker \<Rightarrow> (worker \<times> int) option" where
  "rubic_agent_runner_notify_init ok w =
     (if \<not> ok then
        Some ((call_back (w_context w) None (- ENOMEM) w)\<lparr>w_context := None, w_state := WORKER_STATE_FAILED\<rparr>, 1)
      else
        do { output \<leftarrow> int_doc 32 (cstr ''tid'') 0;
             Some ((call_back (w_context w) (Some output) 0 w)\<lparr>w_context := None, w_state := WORKER_STATE_RUNNING\<rparr>, 0) })"

definition rubic_agent_runner_cooperate :: "int \<Rightarrow> worker \<Rightarrow> worker option" where
  "rubic_agent_runner_cooperate junk w =
     (case w_context w of
        None \<Rightarrow> Some w
      | Some c \<Rightarrow>
          do { let w = w\<lparr>w_context := None\<rparr>;
               let params = ac_params c;
               (_, ps) \<leftarrow> bson_get_props params [(cstr ''name'', junk)];
               name \<leftarrow> bson_get_string params (off_of (cstr ''name'') ps);
               abort \<leftarrow> param_is params name (cstr ''abort'');
               if abort then Some (call_back (Some c) None 0 (w\<lparr>w_state := WORKER_STATE_ABORTING\<rparr>))
               else do {
                 callback \<leftarrow> param_is params name (cstr ''callback'');
                 Some (if callback
                   then (if w_callback w \<noteq> None then call_back (Some c) None EEXIST w else w\<lparr>w_callback := Some c\<rparr>)
                   else call_back (Some c) None (- ESRCH) w) } })"

definition rubic_agent_runner_query_abort :: "worker \<Rightarrow> int" where
  "rubic_agent_runner_query_abort w = (if w_state w = WORKER_STATE_ABORTING then 1 else 0)"

section \<open>The worker thread\<close>

text \<open>The request that was taken: runtime, file or source, and flags.\<close>

definition prepare_run :: "runtime option list \<Rightarrow> int \<Rightarrow> async_context \<Rightarrow> (runtime option \<times> byte list option \<times> int) option" where
  "prepare_run rts junk c =
     do { let params = ac_params c;
          let str = (\<lambda>p. case p of None \<Rightarrow> Some None | Some p \<Rightarrow> map_option Some (c_string (the params) p));
          (_, ps) \<leftarrow> bson_get_props params (map (\<lambda>k. (k, junk)) [cstr ''runtime'', cstr ''file'', cstr ''source'', cstr ''debug'']);
          name \<leftarrow> bson_get_string params (off_of (cstr ''runtime'') ps);
          name \<leftarrow> str name;
          fl \<leftarrow> bson_get_string params (off_of (cstr ''file'') ps);
          (p, flags) \<leftarrow> (if fl \<noteq> None then Some (fl, RUBIC_AGENT_RUNNER_FLAG_FILE)
            else do { src \<leftarrow> bson_get_string params (off_of (cstr ''source'') ps); Some (src, RUBIC_AGENT_RUNNER_FLAG_SOURCE) });
          file_or_source \<leftarrow> str p;
          debug \<leftarrow> bson_get_boolean params (off_of (cstr ''debug'') ps) 0;
          Some (find_runtime rts name, file_or_source, if debug \<noteq> 0 then flags OR RUBIC_AGENT_RUNNER_FLAG_DEBUG else flags) }"

text \<open>Where the worker is: at the top of its loop with or without the mutex, waiting, woken up, with a request in
  hand, about to call the runner, in it (\<open>inited\<close> is the result of \<open>notify_init\<close>) and behind it.\<close>

datatype place =
    Top bool
  | Waiting
  | Woken
  | Taken async_context
  | Invoke "async_context option" "runtime option" "byte list option" int
  | Running "async_context option" int "int option"
  | Returned "async_context option" int int

text \<open>The top of the loop with the outcome of \<open>parse_boot_json\<close>.\<close>

definition worker_top :: "bool \<Rightarrow> (byte list \<times> runtime option) option \<Rightarrow> worker \<Rightarrow> worker \<times> place" where
  "worker_top held boot w =
     (if w_state w = WORKER_STATE_AUTOBOOT then
        (case boot of
           None \<Rightarrow> (w\<lparr>w_state := WORKER_STATE_IDLE\<rparr>, Top held)
         | Some (file_or_source, rt) \<Rightarrow>
             (w\<lparr>w_state := WORKER_STATE_STARTING, w_blocks := w_blocks w + 1\<rparr>,
              Invoke None rt (Some file_or_source) (RUBIC_AGENT_RUNNER_FLAG_AUTOBOOT OR RUBIC_AGENT_RUNNER_FLAG_FILE)))
      else (w\<lparr>w_state := WORKER_STATE_IDLE\<rparr>, Waiting))"

definition worker_woken :: "worker \<Rightarrow> worker \<times> place" where
  "worker_woken w =
     (case w_context w of
        None \<Rightarrow> (w, Top False)
      | Some c \<Rightarrow> (w\<lparr>w_state := WORKER_STATE_STARTING\<rparr>, Taken c))"

text \<open>The answer to the request that started the run, and the answer to the request for a callback.\<close>

definition reply_start :: "async_context option \<Rightarrow> int \<Rightarrow> worker \<Rightarrow> worker" where
  "reply_start context result w =
     (let w = w\<lparr>w_context := None\<rparr> in if context = None then w else call_back context None result w)"

definition reply_callback :: "bool \<Rightarrow> int \<Rightarrow> worker \<Rightarrow> worker option" where
  "reply_callback ok result w =
     (case w_callback w of
        None \<Rightarrow> Some w
      | Some c \<Rightarrow>
          do { let w = w\<lparr>w_callback := None\<rparr>;
               n \<leftarrow> bson_measure_int32 (cstr ''result'');
               if ok then do { output \<leftarrow> int_doc (nat (bson_empty_size + n)) (cstr ''result'') result; Some (call_back (Some c) (Some output) 0 w) }
               else Some (call_back (Some c) None (- ENOMEM) w) })"

definition free_boot :: "int \<Rightarrow> worker \<Rightarrow> worker" where
  "free_boot flags w = (if flags AND RUBIC_AGENT_RUNNER_FLAG_AUTOBOOT \<noteq> 0 then w\<lparr>w_blocks := w_blocks w - 1\<rparr> else w)"

text \<open>An invalid request skips the runner and the lock; after a run the mutex is held.\<close>

definition worker_invalid :: "bool \<Rightarrow> async_context option \<Rightarrow> int \<Rightarrow> worker \<Rightarrow> (worker \<times> place) option" where
  "worker_invalid ok context flags w =
     do { w \<leftarrow> reply_callback ok (- ESRCH) (reply_start context (- ESRCH) w); Some (free_boot flags w, Top False) }"

definition worker_returned :: "bool \<Rightarrow> async_context option \<Rightarrow> int \<Rightarrow> int \<Rightarrow> worker \<Rightarrow> (worker \<times> place) option" where
  "worker_returned ok context flags result w =
     do { let w = (if w_state w = WORKER_STATE_STARTING then reply_start context result w else w);
          w \<leftarrow> reply_callback ok result w;
          Some (free_boot flags w, Top True) }"

end
