(* ===== verification/Rubic_Run.thy ===== *)
theory Rubic_Run
  imports Rubic_Agent "HOL-Library.Multiset"
begin

text \<open>
  The worker of the Rubic agent and the RPC thread as a transition system, and its properties: every request
  that was accepted is answered once, pending or lost, and when it gets lost.

  A runner is anything that calls \<open>notify_init\<close> at most once, and \<open>cooperate\<close> only after it succeeded, as
  the script engines do; it returns any result. Allocations succeed or fail, and the boot options are any.
\<close>

section \<open>Steps\<close>

record agent =
  ag_worker :: worker
  ag_place :: place
  ag_posting :: bool
  accepted :: "async_context list"
  lost :: "async_context list"

definition opt_list :: "'a option \<Rightarrow> 'a list" where
  "opt_list x = (case x of None \<Rightarrow> [] | Some y \<Rightarrow> [y])"

lemma opt_list_simps [simp]: "opt_list None = []" "opt_list (Some y) = [y]"
  by (simp_all add: opt_list_def)

text \<open>The agent when \<open>rubic_agent_service\<close> enters the worker, which locks the mutex first.\<close>

definition agent_start :: "bool \<Rightarrow> agent" where
  "agent_start disableAutoBoot =
     \<lparr>ag_worker = rubic_agent_service disableAutoBoot rubic_agent_init, ag_place = Top True, ag_posting = False,
      accepted = [], lost = []\<rparr>"

text \<open>\<open>lost\<close> collects the requests whose context is overwritten: by another request, or by a run that did
  not start from a request when it is over before its initialisation.\<close>

inductive agent_step :: "runtime option list \<Rightarrow> agent \<Rightarrow> agent \<Rightarrow> bool" for rts where
  queue: "\<not> ag_posting a \<Longrightarrow> ag_place a \<noteq> Top True \<Longrightarrow> ac_id c \<notin> ac_id ` set (accepted a) \<Longrightarrow>
    rubic_agent_method_queue junk c (ag_worker a) = Some (w, True, e) \<Longrightarrow>
    agent_step rts a (a\<lparr>ag_worker := w, ag_posting := True, accepted := accepted a @ [c],
      lost := lost a @ opt_list (w_context (ag_worker a))\<rparr>)"
| post: "ag_posting a \<Longrightarrow> agent_step rts a (a\<lparr>ag_worker := sem_post_worker (ag_worker a), ag_posting := False\<rparr>)"
| top: "ag_place a = Top held \<Longrightarrow> worker_top held boot (ag_worker a) = (w, p) \<Longrightarrow>
    agent_step rts a (a\<lparr>ag_worker := w, ag_place := p\<rparr>)"
| wait: "ag_place a = Waiting \<Longrightarrow> w_sem (ag_worker a) = Suc n \<Longrightarrow>
    agent_step rts a (a\<lparr>ag_worker := ag_worker a\<lparr>w_sem := n\<rparr>, ag_place := Woken\<rparr>)"
| woken: "ag_place a = Woken \<Longrightarrow> worker_woken (ag_worker a) = (w, p) \<Longrightarrow> agent_step rts a (a\<lparr>ag_worker := w, ag_place := p\<rparr>)"
| taken: "ag_place a = Taken c \<Longrightarrow> prepare_run rts junk c = Some (rt, data, flags) \<Longrightarrow>
    agent_step rts a (a\<lparr>ag_place := Invoke (Some c) rt data flags\<rparr>)"
| invalid: "ag_place a = Invoke c rt data flags \<Longrightarrow> rt = None \<or> data = None \<Longrightarrow>
    worker_invalid ok c flags (ag_worker a) = Some (w, p) \<Longrightarrow>
    agent_step rts a (a\<lparr>ag_worker := w, ag_place := p, lost := lost a @ (if c = None then opt_list (w_context (ag_worker a)) else [])\<rparr>)"
| invoke: "ag_place a = Invoke c (Some rt) (Some data) flags \<Longrightarrow> agent_step rts a (a\<lparr>ag_place := Running c flags None\<rparr>)"
| init: "ag_place a = Running c flags None \<Longrightarrow> rubic_agent_runner_notify_init ok (ag_worker a) = Some (w, r) \<Longrightarrow>
    agent_step rts a (a\<lparr>ag_worker := w, ag_place := Running c flags (Some r)\<rparr>)"
| cooperate: "ag_place a = Running c flags (Some 0) \<Longrightarrow> rubic_agent_runner_cooperate junk (ag_worker a) = Some w \<Longrightarrow>
    agent_step rts a (a\<lparr>ag_worker := w\<rparr>)"
| return: "ag_place a = Running c flags i \<Longrightarrow> agent_step rts a (a\<lparr>ag_place := Returned c flags result\<rparr>)"
| finish: "ag_place a = Returned c flags result \<Longrightarrow> worker_returned ok c flags result (ag_worker a) = Some (w, p) \<Longrightarrow>
    agent_step rts a (a\<lparr>ag_worker := w, ag_place := p, lost := lost a @
      (if c = None \<and> w_state (ag_worker a) = WORKER_STATE_STARTING then opt_list (w_context (ag_worker a)) else [])\<rparr>)"

inductive_cases agent_stepE: "agent_step rts a b"

definition agent_run :: "runtime option list \<Rightarrow> agent \<Rightarrow> agent \<Rightarrow> bool" where
  "agent_run rts = (agent_step rts)\<^sup>*\<^sup>*"

definition answered :: "agent \<Rightarrow> async_context list" where
  "answered a = concat (map (\<lambda>(c, _, _). opt_list c) (w_callbacks (ag_worker a)))"

definition pending :: "agent \<Rightarrow> async_context list" where
  "pending a = opt_list (w_context (ag_worker a)) @ opt_list (w_callback (ag_worker a))"

section \<open>What the operations do to the contexts\<close>

lemma queue_cases:
  assumes "rubic_agent_method_queue junk c w = Some (w', True, e)"
  obtains "w_context w = None" "w' = w\<lparr>w_context := Some c\<rparr>"
    | "w_state w = WORKER_STATE_IDLE" "w' = w\<lparr>w_state := WORKER_STATE_STARTING, w_context := Some c\<rparr>"
  using assms by (auto simp: rubic_agent_method_queue_def bind_eq_Some_conv Let_def split: if_splits)

lemma notify_cases:
  assumes "rubic_agent_runner_notify_init ok w = Some (w', r)"
  obtains d e st where "w' = call_back (w_context w) d e w\<lparr>w_context := None, w_state := st\<rparr>"
    "st = WORKER_STATE_FAILED \<or> st = WORKER_STATE_RUNNING"
  using assms by (auto simp: rubic_agent_runner_notify_init_def bind_eq_Some_conv split: if_splits)

lemma cooperate_cases:
  assumes "rubic_agent_runner_cooperate junk w = Some w'"
  obtains "w_context w = None" "w' = w"
    | c e st where "w_context w = Some c" "w' = call_back (Some c) None e (w\<lparr>w_context := None, w_state := st\<rparr>)"
        "st = w_state w \<or> st = WORKER_STATE_ABORTING"
    | c where "w_context w = Some c" "w_callback w = None" "w' = w\<lparr>w_context := None, w_callback := Some c\<rparr>"
proof (cases "w_context w")
  case None
  with assms have "w' = w" by (simp add: rubic_agent_runner_cooperate_def)
  with None that(1) show ?thesis by blast
next
  case (Some c)
  let ?w = "w\<lparr>w_context := None\<rparr>"
  from assms Some have "w' = call_back (Some c) None 0 (?w\<lparr>w_state := WORKER_STATE_ABORTING\<rparr>) \<or>
    w' = call_back (Some c) None EEXIST ?w \<or> w' = call_back (Some c) None (- ESRCH) ?w \<or>
    w_callback w = None \<and> w' = ?w\<lparr>w_callback := Some c\<rparr>"
    by (auto simp: rubic_agent_runner_cooperate_def bind_eq_Some_conv Let_def split: if_splits)
  then show ?thesis
  proof (elim disjE conjE)
    assume "w' = call_back (Some c) None 0 (?w\<lparr>w_state := WORKER_STATE_ABORTING\<rparr>)"
    with that(2) [OF Some] show ?thesis by simp
  next
    assume w': "w' = call_back (Some c) None EEXIST ?w"
    show ?thesis by (rule that(2) [OF Some, of EEXIST "w_state w"]) (simp_all add: w')
  next
    assume w': "w' = call_back (Some c) None (- ESRCH) ?w"
    show ?thesis by (rule that(2) [OF Some, of "- ESRCH" "w_state w"]) (simp_all add: w')
  next
    assume "w_callback w = None" "w' = ?w\<lparr>w_callback := Some c\<rparr>"
    with that(3) [OF Some] show ?thesis by simp
  qed
qed

lemma reply_callback_cases:
  assumes "reply_callback ok result w = Some w'"
  obtains "w_callback w = None" "w' = w"
    | c d e where "w_callback w = Some c" "w' = call_back (Some c) d e (w\<lparr>w_callback := None\<rparr>)"
  using assms by (auto simp: reply_callback_def bind_eq_Some_conv Let_def split: option.splits if_splits)

lemma free_boot_simps [simp]:
  "w_state (free_boot flags w) = w_state w" "w_context (free_boot flags w) = w_context w" "w_callback (free_boot flags w) = w_callback w"
  "w_callbacks (free_boot flags w) = w_callbacks w" "w_sem (free_boot flags w) = w_sem w"
  by (simp_all add: free_boot_def)

lemma call_back_simps [simp]:
  "w_state (call_back c d e w) = w_state w" "w_context (call_back c d e w) = w_context w" "w_callback (call_back c d e w) = w_callback w"
  "w_callbacks (call_back c d e w) = w_callbacks w @ [(c, d, e)]" "w_sem (call_back c d e w) = w_sem w"
  by (simp_all add: call_back_def)

section \<open>The invariant\<close>

text \<open>Where a run stands before its initialisation, \<open>c\<close> is the context it was started from.\<close>

definition starting :: "async_context option \<Rightarrow> worker \<Rightarrow> bool" where
  "starting c w \<longleftrightarrow> w_state w = WORKER_STATE_STARTING \<and> w_callback w = None \<and> (c \<noteq> None \<longrightarrow> w_context w = c)"

text \<open>A context that is not the one of the run has its post to come.\<close>

definition wakes :: "agent \<Rightarrow> bool" where
  "wakes a \<longleftrightarrow> (w_context (ag_worker a) \<noteq> None \<longrightarrow> w_sem (ag_worker a) > 0 \<or> ag_posting a)"

definition place_ok :: "agent \<Rightarrow> bool" where
  "place_ok a \<longleftrightarrow>
     (let w = ag_worker a; inited = w_state w \<in> {WORKER_STATE_RUNNING, WORKER_STATE_ABORTING, WORKER_STATE_FAILED} \<and> wakes a in
      case ag_place a of
        Top held \<Rightarrow> w_callback w = None \<and> wakes a
      | Waiting \<Rightarrow> w_callback w = None \<and> wakes a \<and> (w_context w = None \<longrightarrow> w_state w = WORKER_STATE_IDLE)
      | Woken \<Rightarrow> w_callback w = None \<and> (w_context w = None \<longrightarrow> w_state w = WORKER_STATE_IDLE)
      | Taken c \<Rightarrow> starting (Some c) w
      | Invoke c rt data flags \<Rightarrow> starting c w
      | Running c flags None \<Rightarrow> starting c w
      | Running c flags (Some r) \<Rightarrow> inited
      | Returned c flags result \<Rightarrow> starting c w \<or> inited)"

definition accounted :: "agent \<Rightarrow> bool" where
  "accounted a \<longleftrightarrow> mset (accepted a) = mset (answered a) + mset (pending a) + mset (lost a) \<and> distinct (map ac_id (accepted a))"

definition agent_inv :: "agent \<Rightarrow> bool" where
  "agent_inv a \<longleftrightarrow> accounted a \<and> place_ok a"

lemma agent_inv_start: "agent_inv (agent_start d)"
  by (simp add: agent_inv_def accounted_def place_ok_def agent_start_def answered_def pending_def wakes_def
      rubic_agent_service_def rubic_agent_init_def)

lemmas agent_defs = agent_inv_def accounted_def place_ok_def answered_def pending_def wakes_def starting_def Let_def

lemma worker_top_cases:
  assumes "worker_top held boot w = (w', p)"
  obtains "w' = w\<lparr>w_state := WORKER_STATE_IDLE\<rparr>" "p = Top held \<or> p = Waiting"
    | rt data flags n where "w' = w\<lparr>w_state := WORKER_STATE_STARTING, w_blocks := n\<rparr>" "p = Invoke None rt data flags"
  using assms by (auto simp: worker_top_def split: if_splits option.splits)

lemma agent_inv_step:
  assumes "agent_step rts a b" "agent_inv a"
  shows "agent_inv b"
  using assms
proof (cases rule: agent_step.cases)
  case (queue c junk w e)
  from queue(5) show ?thesis
    by (rule queue_cases) (use queue assms(2) in \<open>auto simp: agent_defs split: place.splits option.splits\<close>)
next
  case post
  with assms(2) show ?thesis by (auto simp: agent_defs sem_post_worker_def split: place.splits option.splits)
next
  case (top held boot w p)
  from top(3) show ?thesis
    by (rule worker_top_cases) (use top assms(2) in \<open>auto simp: agent_defs split: place.splits option.splits\<close>)
next
  case (wait n)
  with assms(2) show ?thesis by (auto simp: agent_defs split: place.splits option.splits)
next
  case (woken w p)
  with assms(2) show ?thesis by (auto simp: agent_defs worker_woken_def split: place.splits option.splits)
next
  case (taken c junk rt data flags)
  with assms(2) show ?thesis by (auto simp: agent_defs split: place.splits option.splits)
next
  case (invoke c rt data flags)
  with assms(2) show ?thesis by (auto simp: agent_defs split: place.splits option.splits)
next
  case (init c flags ok w r)
  from init(3) show ?thesis
    by (rule notify_cases) (use init assms(2) in \<open>auto simp: agent_defs split: place.splits option.splits\<close>)
next
  case (cooperate c flags junk w)
  from cooperate(3) show ?thesis
    by (rule cooperate_cases) (use cooperate assms(2) in \<open>auto simp: agent_defs split: place.splits option.splits\<close>)
next
  case (return c flags i result)
  with assms(2) show ?thesis by (auto simp: agent_defs split: place.splits option.splits)
next
  case (invalid c rt data flags ok w p)
  from invalid(4) obtain w2 where w2: "reply_callback ok (- ESRCH) (reply_start c (- ESRCH) (ag_worker a)) = Some w2"
    "w = free_boot flags w2" "p = Top False" by (auto simp: worker_invalid_def bind_eq_Some_conv)
  from w2(1) show ?thesis
    by (rule reply_callback_cases) (use invalid w2(2,3) assms(2) in \<open>auto simp: agent_defs reply_start_def split: place.splits option.splits if_splits\<close>)
next
  case (finish c flags result ok w p)
  from finish(3) obtain w2 where w2: "reply_callback ok result
      (if w_state (ag_worker a) = WORKER_STATE_STARTING then reply_start c result (ag_worker a) else ag_worker a) = Some w2"
    "w = free_boot flags w2" "p = Top True" by (auto simp: worker_returned_def bind_eq_Some_conv)
  from w2(1) show ?thesis
    by (rule reply_callback_cases) (use finish w2(2,3) assms(2) in \<open>auto simp: agent_defs reply_start_def split: place.splits option.splits if_splits\<close>)
qed

lemma agent_inv_run: "agent_run rts a b \<Longrightarrow> agent_inv a \<Longrightarrow> agent_inv b"
  unfolding agent_run_def by (induction rule: rtranclp_induct) (auto intro: agent_inv_step)

lemma lost_step: "agent_step rts a b \<Longrightarrow> set (lost a) \<subseteq> set (lost b)"
  by (cases rule: agent_step.cases) auto

lemma lost_run: "agent_run rts a b \<Longrightarrow> set (lost a) \<subseteq> set (lost b)"
  unfolding agent_run_def by (induction rule: rtranclp_induct) (auto dest: lost_step)

lemma run_trans: "agent_run rts a b \<Longrightarrow> agent_run rts b c \<Longrightarrow> agent_run rts a c"
  unfolding agent_run_def by simp

lemma run_step: "agent_run rts a b \<Longrightarrow> agent_step rts b c \<Longrightarrow> agent_run rts a c"
  unfolding agent_run_def by simp

lemma accounted_distinct:
  assumes "accounted a"
  shows "distinct (answered a)" "set (answered a) \<inter> set (lost a) = {}" "set (pending a) \<inter> set (lost a) = {}"
proof -
  from assms have "distinct (accepted a)" and m: "mset (accepted a) = mset (answered a @ pending a @ lost a)"
    by (auto simp: accounted_def distinct_map)
  then have "distinct (answered a @ pending a @ lost a)" by (metis mset_eq_imp_distinct_iff)
  then show "distinct (answered a)" "set (answered a) \<inter> set (lost a) = {}" "set (pending a) \<inter> set (lost a) = {}" by auto
qed

section \<open>Requests on the wire\<close>

lemma param_is_member:
  assumes "is_doc m es" "name_ok key" "key \<noteq> []"
  shows "\<exists>r. bson_get_string (Some m) (first_off 4 es k) = Some r \<and> param_is (Some m) r key = Some (string_member es k = Some key)"
proof -
  from get_string_total [OF assms(1), of k] obtain r where
    r: "bson_get_string (Some m) (first_off 4 es k) = Some r"
    "case r of None \<Rightarrow> string_member es k = None
     | Some p \<Rightarrow> \<exists>str. string_member es k = Some str \<and> c_string m p = Some str" by blast
  show ?thesis
  proof (cases r)
    case None
    with r assms(3) show ?thesis by (simp add: param_is_def)
  next
    case (Some p)
    with r(2) obtain str where str: "string_member es k = Some str" "c_string m p = Some str" by auto
    have "name_ok str" using string_member_no_nul [OF str(1)] by (simp add: name_ok_def)
    from c_streq_string [OF str(2) this assms(2)] r(1) Some str(1) show ?thesis by (auto simp: param_is_def)
  qed
qed

lemma agent_names [simp]: "name_ok (cstr ''tid'')" "name_ok (cstr ''start'')" "name_ok (cstr ''abort'')" "name_ok (cstr ''callback'')"
  "name_ok (cstr ''running'')" "name_ok (cstr ''threads'')" "name_ok (cstr ''0'')" "name_ok (cstr ''result'')"
  by (simp_all add: name_ok_def cstr_def)

lemma queue_doc:
  assumes "is_doc m es"
  shows "rubic_agent_method_queue junk \<lparr>ac_id = i, ac_params = Some m\<rparr> w = Some
    (if int_member es (cstr ''tid'') (-1) = 0 then
       (if w_context w \<noteq> None then (w, False, - EBUSY) else (w\<lparr>w_context := Some \<lparr>ac_id = i, ac_params = Some m\<rparr>\<rparr>, True, 0))
     else if string_member es (cstr ''name'') \<noteq> Some (cstr ''start'') then (w, False, - ESRCH)
     else if w_state w = WORKER_STATE_IDLE
     then (w\<lparr>w_state := WORKER_STATE_STARTING, w_context := Some \<lparr>ac_id = i, ac_params = Some m\<rparr>\<rparr>, True, 0)
     else (w, False, - EBUSY))"
proof -
  have p: "bson_get_props (Some m) [(cstr ''tid'', junk)] = Some (n, [(cstr ''tid'', first_off 4 es (cstr ''tid''))])"
    if "n = int (length (filter (\<lambda>k. member es k \<noteq> None) [cstr ''tid'']))" for n
    using get_props_members [OF assms, of "[cstr ''tid'']"] that by simp
  have q: "bson_get_props (Some m) [(cstr ''name'', junk)] = Some (n, [(cstr ''name'', first_off 4 es (cstr ''name''))])"
    if "n = int (length (filter (\<lambda>k. member es k \<noteq> None) [cstr ''name'']))" for n
    using get_props_members [OF assms, of "[cstr ''name'']"] that by simp
  have o1: "off_of k [(k, v)] = v" for k v by (simp add: off_of_def)
  from param_is_member [OF assms agent_names(2), of "cstr ''name''"] obtain r where
    r: "bson_get_string (Some m) (first_off 4 es (cstr ''name'')) = Some r"
    "param_is (Some m) r (cstr ''start'') = Some (string_member es (cstr ''name'') = Some (cstr ''start''))" by (auto simp: cstr_def)
  have t: "(0 \<le> x \<and> x < int RUBIC_AGENT_WORKER_THREADS) = (x = 0)" for x :: int by (auto simp: rubic_maxima)
  show ?thesis
    unfolding rubic_agent_method_queue_def Let_def async_context.simps p [OF refl] q [OF refl] bind.simps prod.case o1
      get_int32_member [OF assms] r t by simp
qed

lemma agent_param_names [simp]: "name_ok (cstr ''runtime'')" "name_ok (cstr ''file'')" "name_ok (cstr ''source'')" "name_ok (cstr ''debug'')"
  by (simp_all add: name_ok_def cstr_def)

lemma prepare_doc:
  assumes "is_doc m es" "member es (cstr ''debug'') = None"
  shows "prepare_run rts junk \<lparr>ac_id = i, ac_params = Some m\<rparr> = Some
    (find_runtime rts (string_member es (cstr ''runtime'')),
     if string_member es (cstr ''file'') \<noteq> None then string_member es (cstr ''file'') else string_member es (cstr ''source''),
     if string_member es (cstr ''file'') \<noteq> None then RUBIC_AGENT_RUNNER_FLAG_FILE else RUBIC_AGENT_RUNNER_FLAG_SOURCE)"
proof -
  let ?ks = "[cstr ''runtime'', cstr ''file'', cstr ''source'', cstr ''debug'']"
  let ?str = "\<lambda>p. case p of None \<Rightarrow> Some None | Some p \<Rightarrow> map_option Some (c_string m p)"
  have d: "distinct ?ks" "\<forall>k \<in> set ?ks. name_ok k" by (simp_all add: cstr_def del: cstr_eq) (simp_all add: name_ok_def)
  have p: "\<exists>n. bson_get_props (Some m) (map (\<lambda>k. (k, junk)) ?ks) = Some (n, found_props es ?ks)"
    using get_props_members [OF assms(1) d] by (auto simp: found_props_def)
  then obtain n where n: "bson_get_props (Some m) (map (\<lambda>k. (k, junk)) ?ks) = Some (n, found_props es ?ks)" by blast
  have o1: "off_of k (found_props es ?ks) = first_off 4 es k" if "k \<in> set ?ks" for k by (rule off_of_found [OF that])
  have g: "\<exists>r. bson_get_string (Some m) (first_off 4 es k) = Some r \<and> ?str r = Some (string_member es k) \<and> (r = None \<longleftrightarrow> string_member es k = None)" for k
  proof -
    from get_string_total [OF assms(1), of k] obtain r where
      "bson_get_string (Some m) (first_off 4 es k) = Some r"
      "case r of None \<Rightarrow> string_member es k = None
       | Some p \<Rightarrow> \<exists>str. string_member es k = Some str \<and> c_string m p = Some str" by blast
    then show ?thesis by (cases r) auto
  qed
  from g [of "cstr ''runtime''"] obtain a where
    a: "bson_get_string (Some m) (first_off 4 es (cstr ''runtime'')) = Some a" "?str a = Some (string_member es (cstr ''runtime''))" by auto
  from g [of "cstr ''file''"] obtain b where
    b: "bson_get_string (Some m) (first_off 4 es (cstr ''file'')) = Some b" "?str b = Some (string_member es (cstr ''file''))"
    "(b = None) = (string_member es (cstr ''file'') = None)" by auto
  from g [of "cstr ''source''"] obtain c where
    c: "bson_get_string (Some m) (first_off 4 es (cstr ''source'')) = Some c" "?str c = Some (string_member es (cstr ''source''))" by auto
  have db: "bson_get_boolean (Some m) (first_off 4 es (cstr ''debug'')) 0 = Some 0"
    by (simp add: bson_get_boolean_def seek_data_absent [OF assms(2)])
  have o2: "off_of (cstr ''runtime'') (found_props es ?ks) = first_off 4 es (cstr ''runtime'')"
    "off_of (cstr ''file'') (found_props es ?ks) = first_off 4 es (cstr ''file'')"
    "off_of (cstr ''source'') (found_props es ?ks) = first_off 4 es (cstr ''source'')"
    "off_of (cstr ''debug'') (found_props es ?ks) = first_off 4 es (cstr ''debug'')" by (rule o1; simp)+
  show ?thesis
    unfolding prepare_run_def Let_def async_context.simps n bind.simps prod.case o2 a(1) b(1) c(1) db option.sel a(2)
    using b(2,3) c(2) by (cases "b = None") (simp_all del: cstr_eq)
qed

text \<open>An example: an idle worker gets a request to start, and one that is queued for it by its number.\<close>

definition ex_start :: "elem list" where
  "ex_start = [(0x02, cstr ''name'', string_value (cstr ''start''))]"

definition ex_abort :: "elem list" where
  "ex_abort = [(0x10, cstr ''tid'', int_object 0)]"

definition ex_c1 :: async_context where "ex_c1 = \<lparr>ac_id = 1, ac_params = Some (enc_doc ex_start)\<rparr>"
definition ex_c2 :: async_context where "ex_c2 = \<lparr>ac_id = 2, ac_params = Some (enc_doc ex_abort)\<rparr>"

lemma ex_agent_docs: "is_doc (enc_doc ex_start) ex_start" "is_doc (enc_doc ex_abort) ex_abort"
  by (rule is_doc_enc; simp add: ex_start_def ex_abort_def doc_ok_def value_ok_string doc_size_def string_value_def value_ok_def name_ok_def
      read_int_object_0 cint_simps, simp add: cstr_def)+

lemma ex_agent_members:
  "int_member ex_start (cstr ''tid'') (-1) = -1" "string_member ex_start (cstr ''name'') = Some (cstr ''start'')"
  "string_member ex_start (cstr ''file'') = None" "string_member ex_start (cstr ''source'') = None" "member ex_start (cstr ''debug'') = None"
  "string_member ex_start (cstr ''runtime'') = None" "int_member ex_abort (cstr ''tid'') (-1) = 0"
  by (simp_all add: ex_start_def ex_abort_def int_member_def string_member_def string_value_def read_unaligned_int_def rd_def)
     (simp_all add: cstr_def int_object_def)

definition ex_agent :: "worker \<Rightarrow> place \<Rightarrow> bool \<Rightarrow> async_context list \<Rightarrow> async_context list \<Rightarrow> agent" where
  "ex_agent w p b acc los = \<lparr>ag_worker = w, ag_place = p, ag_posting = b, accepted = acc, lost = los\<rparr>"

lemma ex_agent_simps [simp]:
  "ag_worker (ex_agent w p b acc los) = w" "ag_place (ex_agent w p b acc los) = p" "ag_posting (ex_agent w p b acc los) = b"
  "accepted (ex_agent w p b acc los) = acc" "lost (ex_agent w p b acc los) = los"
  "ex_agent w p b acc los\<lparr>ag_worker := w'\<rparr> = ex_agent w' p b acc los" "ex_agent w p b acc los\<lparr>ag_place := p'\<rparr> = ex_agent w p' b acc los"
  "ex_agent w p b acc los\<lparr>ag_posting := b'\<rparr> = ex_agent w p b' acc los" "ex_agent w p b acc los\<lparr>accepted := acc'\<rparr> = ex_agent w p b acc' los"
  "ex_agent w p b acc los\<lparr>lost := los'\<rparr> = ex_agent w p b acc los'"
  by (simp_all add: ex_agent_def)

definition ex_worker :: "worker_state \<Rightarrow> nat \<Rightarrow> async_context option \<Rightarrow> (async_context option \<times> mem option \<times> int) list \<Rightarrow> worker" where
  "ex_worker st n c cbs = \<lparr>w_state = st, w_sem = n, w_context = c, w_callback = None, w_callbacks = cbs, w_blocks = 0\<rparr>"

lemma ex_idle: "agent_run rts (agent_start True) (ex_agent (ex_worker WORKER_STATE_IDLE 0 None []) Waiting False [] [])"
proof -
  have s: "agent_start True = ex_agent (ex_worker WORKER_STATE_IDLE 0 None []) (Top True) False [] []"
    by (simp add: agent_start_def ex_agent_def rubic_agent_service_def rubic_agent_init_def ex_worker_def)
  have "agent_step rts (agent_start True) (ex_agent (ex_worker WORKER_STATE_IDLE 0 None []) Waiting False [] [])"
    using agent_step.top [of "agent_start True" True None "ex_worker WORKER_STATE_IDLE 0 None []" Waiting rts]
    by (simp add: s worker_top_def ex_worker_def)
  then show ?thesis by (simp add: agent_run_def)
qed

text \<open>The request to start names no program, so the worker answers that it is invalid.\<close>

lemma ex_refused:
  "agent_run [None] (agent_start True)
     (ex_agent (ex_worker WORKER_STATE_STARTING 0 None [(Some ex_c1, None, - ESRCH)]) (Top False) False [ex_c1] [])"
proof -
  let ?W = "\<lambda>st n c. ex_worker st n c []"
  let ?a = "ex_agent (?W WORKER_STATE_IDLE 0 None) Waiting False [] []"
  let ?b = "ex_agent (?W WORKER_STATE_STARTING 0 (Some ex_c1)) Waiting True [ex_c1] []"
  let ?c = "ex_agent (?W WORKER_STATE_STARTING 1 (Some ex_c1)) Waiting False [ex_c1] []"
  let ?d = "\<lambda>p. ex_agent (?W WORKER_STATE_STARTING 0 (Some ex_c1)) p False [ex_c1] []"
  let ?e = "ex_agent (ex_worker WORKER_STATE_STARTING 0 None [(Some ex_c1, None, - ESRCH)]) (Top False) False [ex_c1] []"
  have "rubic_agent_method_queue 0 ex_c1 (?W WORKER_STATE_IDLE 0 None) = Some (?W WORKER_STATE_STARTING 0 (Some ex_c1), True, 0)"
    using queue_doc [OF ex_agent_docs(1)] ex_agent_members(1,2) by (simp add: ex_c1_def ex_worker_def)
  then have 1: "agent_step [None] ?a ?b" using agent_step.queue [of ?a ex_c1 0 _ 0 "[None]"] by (simp add: ex_worker_def)
  have 2: "agent_step [None] ?b ?c" using agent_step.post [of ?b "[None]"] by (simp add: sem_post_worker_def ex_worker_def)
  have 3: "agent_step [None] ?c (?d Woken)" using agent_step.wait [of ?c 0 "[None]"] by (simp add: ex_worker_def)
  have 4: "agent_step [None] (?d Woken) (?d (Taken ex_c1))"
    using agent_step.woken [of "?d Woken" "?W WORKER_STATE_STARTING 0 (Some ex_c1)" "Taken ex_c1" "[None]"] by (simp add: worker_woken_def ex_worker_def)
  have "prepare_run [None] 0 ex_c1 = Some (None, None, RUBIC_AGENT_RUNNER_FLAG_SOURCE)"
    using prepare_doc [OF ex_agent_docs(1) ex_agent_members(5)] ex_agent_members(3,4,6) by (simp add: ex_c1_def)
  then have 5: "agent_step [None] (?d (Taken ex_c1)) (?d (Invoke (Some ex_c1) None None RUBIC_AGENT_RUNNER_FLAG_SOURCE))"
    using agent_step.taken [of "?d (Taken ex_c1)" ex_c1 "[None]" 0] by simp
  have 6: "agent_step [None] (?d (Invoke (Some ex_c1) None None RUBIC_AGENT_RUNNER_FLAG_SOURCE)) ?e"
    using agent_step.invalid [of "?d (Invoke (Some ex_c1) None None RUBIC_AGENT_RUNNER_FLAG_SOURCE)" "Some ex_c1" None None
        RUBIC_AGENT_RUNNER_FLAG_SOURCE True _ _ "[None]"]
    by (simp add: worker_invalid_def reply_start_def reply_callback_def free_boot_def runner_flags call_back_def ex_worker_def)
  from ex_idle [of "[None]"] 1 2 3 4 5 6 show ?thesis by (meson run_step)
qed

text \<open>The request queued by number is still there when the start comes, since the state is idle.\<close>

lemma ex_overwritten:
  "agent_run rts (agent_start True)
     (ex_agent (ex_worker WORKER_STATE_STARTING 1 (Some ex_c1) []) Waiting True [ex_c2, ex_c1] [ex_c2])"
proof -
  let ?W = "\<lambda>st n c. ex_worker st n c []"
  let ?a = "ex_agent (?W WORKER_STATE_IDLE 0 None) Waiting False [] []"
  let ?b = "ex_agent (?W WORKER_STATE_IDLE 0 (Some ex_c2)) Waiting True [ex_c2] []"
  let ?c = "ex_agent (?W WORKER_STATE_IDLE 1 (Some ex_c2)) Waiting False [ex_c2] []"
  let ?d = "ex_agent (?W WORKER_STATE_STARTING 1 (Some ex_c1)) Waiting True [ex_c2, ex_c1] [ex_c2]"
  have "rubic_agent_method_queue 0 ex_c2 (?W WORKER_STATE_IDLE 0 None) = Some (?W WORKER_STATE_IDLE 0 (Some ex_c2), True, 0)"
    using queue_doc [OF ex_agent_docs(2)] ex_agent_members(7) by (simp add: ex_c2_def ex_worker_def)
  then have 1: "agent_step rts ?a ?b" using agent_step.queue [of ?a ex_c2 0 _ 0 rts] by (simp add: ex_worker_def)
  have 2: "agent_step rts ?b ?c" using agent_step.post [of ?b rts] by (simp add: sem_post_worker_def ex_worker_def)
  have "rubic_agent_method_queue 0 ex_c1 (?W WORKER_STATE_IDLE 1 (Some ex_c2)) = Some (?W WORKER_STATE_STARTING 1 (Some ex_c1), True, 0)"
    using queue_doc [OF ex_agent_docs(1)] ex_agent_members(1,2) by (simp add: ex_c1_def ex_worker_def)
  then have 3: "agent_step rts ?c ?d" using agent_step.queue [of ?c ex_c1 0 _ 0 rts] by (simp add: ex_worker_def ex_c1_def ex_c2_def)
  from ex_idle [of rts] 1 2 3 show ?thesis by (meson run_step)
qed

section \<open>The properties\<close>

text \<open>C34: Every request the agent has accepted is in exactly one place: answered, once; kept by the worker; or lost.
  And the worker never rests on one: when it waits and its semaphore is zero, nothing is pending, so all
  requests that were not lost have been answered, and the worker is ready for the next start.\<close>

theorem requests_accounted:
  assumes "agent_run rts (agent_start disableAutoBoot) a"
  shows "mset (accepted a) = mset (answered a) + mset (pending a) + mset (lost a) \<and>
    distinct (answered a) \<and> set (answered a) \<inter> set (lost a) = {} \<and>
    (ag_place a = Waiting \<and> w_sem (ag_worker a) = 0 \<and> \<not> ag_posting a \<longrightarrow>
       pending a = [] \<and> w_state (ag_worker a) = WORKER_STATE_IDLE)"
proof -
  have inv: "accounted a" "place_ok a" using agent_inv_run [OF assms agent_inv_start] by (simp_all add: agent_inv_def)
  have "mset (accepted a) = mset (answered a) + mset (pending a) + mset (lost a)" using inv(1) by (simp add: accounted_def)
  moreover have "ag_place a = Waiting \<and> w_sem (ag_worker a) = 0 \<and> \<not> ag_posting a \<longrightarrow>
       pending a = [] \<and> w_state (ag_worker a) = WORKER_STATE_IDLE"
    using inv(2) by (auto simp: place_ok_def wakes_def pending_def Let_def)
  ultimately show ?thesis using accounted_distinct [OF inv(1)] by blast
qed

theorem requests_accounted_witness:
  "\<exists>a. agent_run [None] (agent_start True) a \<and> accepted a = [ex_c1] \<and> answered a = [ex_c1] \<and>
     mset (accepted a) = mset (answered a) + mset (pending a) + mset (lost a)"
  using requests_accounted [OF ex_refused] ex_refused
  by (intro exI [of _ "ex_agent (ex_worker WORKER_STATE_STARTING 0 None [(Some ex_c1, None, - ESRCH)]) (Top False) False [ex_c1] []"])
     (simp add: answered_def ex_worker_def)

text \<open>A request that is overwritten is never answered: once it is lost it stays so, whatever the RPC thread, the
  worker and the runner do afterwards. It happens when a request queued by the number of an idle worker is
  followed by a start before the worker has taken it: both are accepted.\<close>

theorem overwritten_never_answered:
  assumes "agent_run rts (agent_start disableAutoBoot) a" "c \<in> set (lost a)" "agent_run rts a b"
  shows "c \<in> set (accepted b) \<and> c \<notin> set (answered b) \<and> c \<notin> set (pending b)"
proof -
  have "accounted b" using agent_inv_run [OF run_trans [OF assms(1,3)] agent_inv_start] by (simp add: agent_inv_def)
  note d = accounted_distinct [OF this]
  from \<open>accounted b\<close> have "mset (accepted b) = mset (answered b @ pending b @ lost b)" by (simp add: accounted_def)
  then have "set (accepted b) = set (answered b @ pending b @ lost b)" by (metis set_mset_mset)
  moreover have "c \<in> set (lost b)" using lost_run [OF assms(3)] assms(2) by blast
  ultimately show ?thesis using d by auto
qed

theorem overwritten_never_answered_witness:
  "\<exists>a. agent_run [None] (agent_start True) a \<and> (\<forall>b. agent_run [None] a b \<longrightarrow> ex_c2 \<in> set (accepted b) \<and> ex_c2 \<notin> set (answered b))"
proof -
  have "ex_c2 \<in> set (lost (ex_agent (ex_worker WORKER_STATE_STARTING 1 (Some ex_c1) []) Waiting True [ex_c2, ex_c1] [ex_c2]))" by simp
  from overwritten_never_answered [OF ex_overwritten this] ex_overwritten show ?thesis by blast
qed

text \<open>Runs of a worker that was not started for the boot options come from a request.\<close>

definition requested :: "agent \<Rightarrow> bool" where
  "requested a \<longleftrightarrow> w_state (ag_worker a) \<noteq> WORKER_STATE_AUTOBOOT \<and> (\<forall>x \<in> set (w_callbacks (ag_worker a)). fst x \<noteq> None) \<and>
     (case ag_place a of Invoke c rt data flags \<Rightarrow> c \<noteq> None | Running c flags None \<Rightarrow> c \<noteq> None | _ \<Rightarrow> True)"

lemmas requested_defs = requested_def place_ok_def starting_def Let_def

lemma requested_step:
  assumes "agent_step rts a b" "place_ok a" "requested a"
  shows "requested b"
  using assms(1)
proof (cases rule: agent_step.cases)
  case (queue c junk w e)
  from queue(5) show ?thesis
    by (rule queue_cases) (use queue assms(3) in \<open>auto simp: requested_def split: place.splits option.splits\<close>)
next
  case post
  with assms(3) show ?thesis by (auto simp: requested_def sem_post_worker_def split: place.splits option.splits)
next
  case (top held boot w p)
  with assms(3) show ?thesis by (auto simp: requested_def worker_top_def split: place.splits option.splits)
next
  case (wait n)
  with assms(3) show ?thesis by (auto simp: requested_def split: place.splits option.splits)
next
  case (woken w p)
  with assms(3) show ?thesis by (auto simp: requested_def worker_woken_def split: place.splits option.splits)
next
  case (taken c junk rt data flags)
  with assms(3) show ?thesis by (auto simp: requested_def split: place.splits option.splits)
next
  case (invoke c rt data flags)
  with assms(3) show ?thesis by (auto simp: requested_def split: place.splits option.splits)
next
  case (init c flags ok w r)
  from init(3) show ?thesis
    by (rule notify_cases) (use init assms(2,3) in \<open>auto simp: requested_defs split: place.splits option.splits\<close>)
next
  case (cooperate c flags junk w)
  from cooperate(3) show ?thesis
    by (rule cooperate_cases) (use cooperate assms(3) in \<open>auto simp: requested_def split: place.splits option.splits\<close>)
next
  case (return c flags i result)
  with assms(3) show ?thesis by (auto simp: requested_def split: place.splits option.splits)
next
  case (invalid c rt data flags ok w p)
  from invalid(4) obtain w2 where w2: "reply_callback ok (- ESRCH) (reply_start c (- ESRCH) (ag_worker a)) = Some w2"
    "w = free_boot flags w2" "p = Top False" by (auto simp: worker_invalid_def bind_eq_Some_conv)
  from w2(1) show ?thesis
    by (rule reply_callback_cases) (use invalid w2(2,3) assms(3) in \<open>auto simp: requested_def reply_start_def Let_def split: place.splits option.splits if_splits\<close>)
next
  case (finish c flags result ok w p)
  from finish(3) obtain w2 where w2: "reply_callback ok result
      (if w_state (ag_worker a) = WORKER_STATE_STARTING then reply_start c result (ag_worker a) else ag_worker a) = Some w2"
    "w = free_boot flags w2" "p = Top True" by (auto simp: worker_returned_def bind_eq_Some_conv)
  from w2(1) show ?thesis
    by (rule reply_callback_cases) (use finish w2(2,3) assms(3) in \<open>auto simp: requested_def reply_start_def Let_def split: place.splits option.splits if_splits\<close>)
qed

lemma requested_run: "agent_run rts a b \<Longrightarrow> agent_inv a \<Longrightarrow> requested a \<Longrightarrow> requested b"
  unfolding agent_run_def
proof (induction rule: rtranclp_induct)
  case (step b c)
  then have "agent_inv b" using agent_inv_run by (auto simp: agent_run_def)
  with step show ?case by (auto intro: requested_step simp: agent_inv_def)
qed

lemma int_doc_ok:
  assumes "name_ok k" "11 + length k \<le> n" "n < 2147483648"
  shows "\<exists>d. int_doc n k v = Some d \<and> is_doc d [(0x10, k, int_object v)]"
proof -
  from create_in_block [of n] assms(2) obtain m where
    m: "bson_create_empty_document (replicate n 0) = Some m" "is_doc m []" "length m = n" by auto
  have "doc_size ([] @ [(0x10, k, int_object v)]) \<le> n" using assms(2) by (simp add: doc_size_def)
  with set_int32_last [OF m(2) assms(1), of v] m(3) assms(3) obtain m' r where
    "bson_set_int32 (Some m) k v = Some (Some m', r)" "is_doc m' [(0x10, k, int_object v)]" by auto
  with m(1) show ?thesis by (simp add: int_doc_def)
qed

text \<open>A worker that was started without the boot options never calls back through a null pointer. One that was
  started with them does, as soon as the program in the boot options has been initialised: the run has no
  request, and the agent answers all the same.\<close>

theorem autoboot_calls_back_null:
  "(agent_run rts (agent_start True) a \<longrightarrow> (\<forall>x \<in> set (w_callbacks (ag_worker a)). fst x \<noteq> None)) \<and>
   (\<exists>b d. agent_run rts (agent_start False) b \<and> is_doc d [(0x10, cstr ''tid'', int_object 0)] \<and>
      (None, Some d, 0) \<in> set (w_callbacks (ag_worker b)))"
proof
  have "requested (agent_start True)"
    by (simp add: requested_def agent_start_def rubic_agent_service_def rubic_agent_init_def)
  then show "agent_run rts (agent_start True) a \<longrightarrow> (\<forall>x \<in> set (w_callbacks (ag_worker a)). fst x \<noteq> None)"
    using requested_run [OF _ agent_inv_start] by (auto simp: requested_def)
  let ?w = "\<lambda>st. rubic_agent_init\<lparr>w_state := st, w_blocks := 1\<rparr>"
  let ?a = "\<lambda>w p. ex_agent w p False [] []"
  have s: "agent_start False = ?a (rubic_agent_init\<lparr>w_state := WORKER_STATE_AUTOBOOT\<rparr>) (Top True)"
    by (simp add: agent_start_def ex_agent_def rubic_agent_service_def)
  have 1: "agent_step rts (agent_start False) (?a (?w WORKER_STATE_STARTING) (Invoke None (Some ex_runtime) (Some []) 9))"
    using agent_step.top [of "agent_start False" True "Some ([], Some ex_runtime)" _ _ rts]
    by (simp add: s worker_top_def runner_flags rubic_agent_init_def)
  have 2: "agent_step rts (?a (?w WORKER_STATE_STARTING) (Invoke None (Some ex_runtime) (Some []) 9)) (?a (?w WORKER_STATE_STARTING) (Running None 9 None))"
    using agent_step.invoke [of "?a (?w WORKER_STATE_STARTING) (Invoke None (Some ex_runtime) (Some []) 9)" None ex_runtime "[]" 9 rts] by simp
  from int_doc_ok [OF agent_names(1), of 32 0] obtain d where d: "int_doc 32 (cstr ''tid'') 0 = Some d" "is_doc d [(0x10, cstr ''tid'', int_object 0)]" by auto
  define w where "w = call_back None (Some d) 0 (?w WORKER_STATE_STARTING)\<lparr>w_context := None, w_state := WORKER_STATE_RUNNING\<rparr>"
  have "rubic_agent_runner_notify_init True (?w WORKER_STATE_STARTING) = Some (w, 0)"
    using d(1) by (simp add: rubic_agent_runner_notify_init_def w_def rubic_agent_init_def)
  then have 3: "agent_step rts (?a (?w WORKER_STATE_STARTING) (Running None 9 None)) (?a w (Running None 9 (Some 0)))"
    using agent_step.init [of "?a (?w WORKER_STATE_STARTING) (Running None 9 None)" None 9 True w 0 rts] by simp
  have "agent_run rts (agent_start False) (?a w (Running None 9 (Some 0)))"
    using 1 2 3 unfolding agent_run_def by (meson rtranclp.rtrancl_into_rtrancl rtranclp.rtrancl_refl)
  moreover have "(None, Some d, 0) \<in> set (w_callbacks w)" by (simp add: w_def)
  ultimately show "\<exists>b d. agent_run rts (agent_start False) b \<and> is_doc d [(0x10, cstr ''tid'', int_object 0)] \<and>
      (None, Some d, 0) \<in> set (w_callbacks (ag_worker b))" using d(2) by force
qed

theorem autoboot_calls_back_null_witness:
  "agent_run [None] (agent_start True)
     (ex_agent (ex_worker WORKER_STATE_STARTING 0 None [(Some ex_c1, None, - ESRCH)]) (Top False) False [ex_c1] []) \<and>
   None \<notin> fst ` set (w_callbacks (ex_worker WORKER_STATE_STARTING 0 None [(Some ex_c1, None, - ESRCH)]))"
  using autoboot_calls_back_null [of "[None]" "ex_agent (ex_worker WORKER_STATE_STARTING 0 None [(Some ex_c1, None, - ESRCH)]) (Top False) False [ex_c1] []"]
    ex_refused by force

section \<open>The status\<close>

definition running_elems :: "worker \<Rightarrow> elem list" where
  "running_elems w = [(0x08, cstr ''running'', bool_value (if w_state w \<noteq> WORKER_STATE_IDLE then 1 else 0))]"

definition status_elems :: "worker \<Rightarrow> elem list" where
  "status_elems w = [(0x04, cstr ''threads'', enc_doc [(0x03, cstr ''0'', enc_doc (running_elems w))])]"

lemma status_sizes: "doc_size (running_elems w) = 15" "doc_size [(0x03, cstr ''0'', enc_doc (running_elems w))] = 23"
  "doc_size (status_elems w) = 37"
  by (simp_all add: running_elems_def status_elems_def doc_size_def enc_doc_def bool_value_def)

lemma thread_doc_ok: "\<exists>d. thread_doc w = Some d \<and> is_doc d (running_elems w)"
proof -
  let ?b = "if w_state w \<noteq> WORKER_STATE_IDLE then 1 else 0 :: int"
  from create_in_block [of 20] obtain m where
    m: "bson_create_empty_document (replicate 20 0) = Some m" "is_doc m []" "length m = 20" by auto
  have "fits m [] (0x08, cstr ''running'', bool_value ?b)" using m(3) by (simp add: fits_iff doc_size_def bool_value_def)
  from bl.appends [OF TrueI agent_names(5) m(2) this] m(1) show ?thesis
    by (auto simp: thread_doc_def running_elems_def appended_def)
qed

lemma threads_doc_ok: "\<exists>d. threads_doc w (replicate 24 0) = Some d \<and> is_doc d [(0x03, cstr ''0'', enc_doc (running_elems w))]"
proof -
  from create_in_block [of 24] obtain m where
    m: "bson_create_empty_document (replicate 24 0) = Some m" "is_doc m []" "length m = 24" by auto
  from thread_doc_ok obtain t where t: "thread_doc w = Some t" "is_doc t (running_elems w)" by blast
  have "doc_size ([] @ [(0x03, cstr ''0'', enc_doc (running_elems w))]) \<le> 24" by (simp add: status_sizes)
  from set_sub_last [OF m(2) agent_names(7) t(2) this, of bson_set_subdocument] m(1,3) t(1) show ?thesis
    by (auto simp: threads_doc_def)
qed

text \<open>\<open>rubic.status\<close> reports the one worker as running exactly when its state is not idle, in a document of the
  size that was allocated for it; want of memory is an error and no block is left over.\<close>

lemma rubic_status_reports:
  "rubic_agent_method_status malloc w s =
    (if \<not> malloc (rb_mallocs s) 24 then Some (None, ENOMEM, used_rubic s)
     else if \<not> malloc (rb_mallocs s + 1) 37 then Some (None, ENOMEM, used_rubic (used_rubic s))
     else Some (Some (enc_doc [(0x04, cstr ''threads'', enc_doc [(0x03, cstr ''0'',
        enc_doc [(0x08, cstr ''running'', [if w_state w = WORKER_STATE_IDLE then 0 else 1])])])]), 0, used_rubic (used_rubic s)))"
proof -
  from threads_doc_ok [of w] obtain d where
    d: "threads_doc w (replicate 24 0) = Some d" "is_doc d [(0x03, cstr ''0'', enc_doc (running_elems w))]" by blast
  from sub_doc_ok [OF d(2)] have sub: "sub_ok d" "sub_value d = enc_doc [(0x03, cstr ''0'', enc_doc (running_elems w))]"
    by (simp_all add: status_sizes)
  have n: "bson_measure_boolean (cstr ''running'') = Some 10"
    using bl.measures [OF TrueI, of "cstr ''running''" 0] by (simp add: bson_measure_boolean_def bool_value_def)
  have k: "bson_measure_array (cstr ''threads'') d = Some 32"
    using arr.measures [OF sub(1), of "cstr ''threads''"] sub(2)
    by (simp add: bson_measure_array_def bson_set_array_def enc_doc_def running_elems_def bool_value_def)
  from create_in_block [of 37] obtain m where
    m: "bson_create_empty_document (replicate 37 0) = Some m" "is_doc m []" "length m = 37" by auto
  have "doc_size ([] @ [(0x04, cstr ''threads'', enc_doc [(0x03, cstr ''0'', enc_doc (running_elems w))])]) \<le> 37"
    using status_sizes(3) [of w] by (simp add: status_elems_def)
  from set_sub_last [OF m(2) agent_names(6) d(2) this, of bson_set_array] m(3) obtain m2 r where
    m2: "bson_set_array (Some m) (cstr ''threads'') d = Some (Some m2, r)" "is_doc m2 (status_elems w)" "length m2 = 37"
    by (auto simp: status_elems_def)
  have e: "m2 = enc_doc (status_elems w)" by (rule exact_doc [OF m2(2)]) (simp add: m2(3) status_sizes)
  have v: "status_elems w = [(0x04, cstr ''threads'', enc_doc [(0x03, cstr ''0'',
      enc_doc [(0x08, cstr ''running'', [if w_state w = WORKER_STATE_IDLE then 0 else 1])])])]"
    by (simp add: status_elems_def running_elems_def bool_value_def)
  show ?thesis
    unfolding v [symmetric]
    using with_rubic_block_ok [of 24 malloc ENOMEM s] d(1) k m(1) m2(1) e
    by (simp add: rubic_agent_method_status_def n measures(4) rubic_maxima rubic_malloc_def rubic_fail_def rubic_give_def
        got_rubic_def used_rubic_def rubic_free_def)
qed

end
