(* ===== verification/Runtimes.thy ===== *)
theory Runtimes
  imports Rubic_Run
begin

text \<open>
  The runners of the script engines (\<open>runtime_lua.c\<close>, \<open>runtime_duktape.c\<close>), and what the Duktape one gives
  its engine: the reader of files and the callbacks of the debug stream.

  \<^item> The engines are parameters: functions on their state \<open>'e\<close> and on the agent, because the RPC thread goes on
    while they run. \<open>engine_ok\<close> says that it is only the RPC thread that changes the agent.
  \<^item> A runner is the code between \<open>invoke\<close> and \<open>return\<close> of \<open>Rubic_Run\<close>; \<open>ok\<close> is whether the allocation of
    \<open>notify_init\<close> succeeds, \<open>junk\<close> the value of uninitialised variables.
\<close>

section \<open>The Duktape runner\<close>

definition DUK_EXEC_SUCCESS :: int where "DUK_EXEC_SUCCESS = 0"
definition AUTO_GC_CYCLES :: int where "AUTO_GC_CYCLES = 50"

record 'e duktape =
  duk_create_heap_default :: "'e \<times> agent \<Rightarrow> ('e \<times> agent) \<times> bool"
  dux_initialize :: "'e \<times> agent \<Rightarrow> ('e \<times> agent) \<times> int"
  duk_debugger_attach :: "'e \<times> agent \<Rightarrow> 'e \<times> agent"
  dux_peval_module_string :: "byte list \<Rightarrow> 'e \<times> agent \<Rightarrow> ('e \<times> agent) \<times> int"
  dux_peval_module_file :: "byte list \<Rightarrow> 'e \<times> agent \<Rightarrow> ('e \<times> agent) \<times> int"
  duk_pop :: "'e \<times> agent \<Rightarrow> 'e \<times> agent"
  dux_tick :: "'e \<times> agent \<Rightarrow> ('e \<times> agent) \<times> bool"
  duk_gc :: "'e \<times> agent \<Rightarrow> 'e \<times> agent"
  duk_report_error :: "'e \<times> agent \<Rightarrow> 'e \<times> agent"
  duk_destroy_heap :: "'e \<times> agent \<Rightarrow> 'e \<times> agent"

text \<open>The calls of a runner into the agent.\<close>

definition notify_init :: "bool \<Rightarrow> 'e \<times> agent \<Rightarrow> (('e \<times> agent) \<times> int) option" where
  "notify_init ok s =
     (case s of (e, a) \<Rightarrow>
        map_option (\<lambda>(w, r). ((e, a\<lparr>ag_worker := w\<rparr>), r)) (rubic_agent_runner_notify_init ok (ag_worker a)))"

definition cooperate :: "int \<Rightarrow> 'e \<times> agent \<Rightarrow> ('e \<times> agent) option" where
  "cooperate junk s =
     (case s of (e, a) \<Rightarrow> map_option (\<lambda>w. (e, a\<lparr>ag_worker := w\<rparr>)) (rubic_agent_runner_cooperate junk (ag_worker a)))"

definition query_abort :: "'e \<times> agent \<Rightarrow> int" where
  "query_abort s = rubic_agent_runner_query_abort (ag_worker (snd s))"

partial_function (option) tick_loop :: "'e duktape \<Rightarrow> int \<Rightarrow> int \<Rightarrow> 'e \<times> agent \<Rightarrow> ('e \<times> agent) option" where
  "tick_loop dk junk autoGc s =
     (case dux_tick dk s of
        (s, again) \<Rightarrow>
          if \<not> again then Some s
          else do { s \<leftarrow> cooperate junk s;
                    if query_abort s \<noteq> 0 then Some s
                    else if autoGc - 1 < 0 then tick_loop dk junk AUTO_GC_CYCLES (duk_gc dk s)
                    else tick_loop dk junk (autoGc - 1) s })"

definition duktape_runner ::
  "'e duktape \<Rightarrow> bool \<Rightarrow> int \<Rightarrow> int \<Rightarrow> byte list \<Rightarrow> int \<Rightarrow> 'e \<times> agent \<Rightarrow> (('e \<times> agent) \<times> int) option" where
  "duktape_runner dk ok junk debug_stream_fd data flags s =
     (case duk_create_heap_default dk s of
        (s, False) \<Rightarrow> Some (s, - ENOMEM)
      | (s, True) \<Rightarrow>
          (case dux_initialize dk s of
             (s, result) \<Rightarrow>
               if result \<noteq> 0 then Some (s, result)
               else
                 do { let s = (if flags AND RUBIC_AGENT_RUNNER_FLAG_DEBUG \<noteq> 0 \<and> debug_stream_fd \<ge> 0
                               then duk_debugger_attach dk s else s);
                      (s, inited) \<leftarrow> notify_init ok s;
                      if inited \<noteq> 0 then Some (duk_destroy_heap dk s, 0)
                      else
                        case (if flags AND RUBIC_AGENT_RUNNER_FLAG_SOURCE \<noteq> 0 then dux_peval_module_string dk data s
                              else dux_peval_module_file dk data s) of
                          (s, result) \<Rightarrow>
                            do { s \<leftarrow> (if result = DUK_EXEC_SUCCESS then tick_loop dk junk 0 (duk_pop dk s)
                                       else Some (duk_report_error dk s));
                                 Some (duk_destroy_heap dk s, result) } }))"

definition runtime_duktape_init :: "byte list \<Rightarrow> u32 \<Rightarrow> 'w rubic \<Rightarrow> 'w rubic \<times> int" where
  "runtime_duktape_init DUK_GIT_DESCRIBE runner =
     rubic_agent_register_runtime \<lparr>rt_name = cstr ''duktape'', rt_version = Some (drop 1 DUK_GIT_DESCRIBE), rt_runner = runner\<rparr>"

section \<open>The Lua runner\<close>

record 'e lua =
  lua_fdopen :: "'e \<times> agent \<Rightarrow> 'e \<times> agent"
  luaL_newstate :: "'e \<times> agent \<Rightarrow> ('e \<times> agent) \<times> bool"
  lua_no_state :: "'e \<times> agent \<Rightarrow> 'e \<times> agent"
  luaL_openlibs :: "'e \<times> agent \<Rightarrow> 'e \<times> agent"
  luaL_loadstring :: "byte list \<Rightarrow> 'e \<times> agent \<Rightarrow> ('e \<times> agent) \<times> int"
  luaL_loadfile :: "byte list \<Rightarrow> 'e \<times> agent \<Rightarrow> ('e \<times> agent) \<times> int"
  lua_report :: "'e \<times> agent \<Rightarrow> 'e \<times> agent"
  lua_test_pause :: "'e \<times> agent \<Rightarrow> 'e \<times> agent"
  lua_pcall :: "'e \<times> agent \<Rightarrow> ('e \<times> agent) \<times> int"
  lua_close :: "'e \<times> agent \<Rightarrow> 'e \<times> agent"
  lua_fclose :: "'e \<times> agent \<Rightarrow> 'e \<times> agent"

text \<open>The part between the creation of the state and the cleanup.\<close>

definition lua_script :: "'e lua \<Rightarrow> bool \<Rightarrow> byte list \<Rightarrow> int \<Rightarrow> 'e \<times> agent \<Rightarrow> (('e \<times> agent) \<times> int) option" where
  "lua_script lu ok data flags s =
     (let s = luaL_openlibs lu s;
          (s, result) = (if flags AND RUBIC_AGENT_RUNNER_FLAG_SOURCE \<noteq> 0 then luaL_loadstring lu data s else luaL_loadfile lu data s)
      in
        if result \<noteq> 0 then Some (lua_report lu s, result)
        else
          do { (s, result) \<leftarrow> notify_init ok s;
               if result \<noteq> 0 then Some (s, result)
               else
                 case lua_pcall lu (lua_test_pause lu s) of
                   (s, result) \<Rightarrow> Some (if result \<noteq> 0 then lua_report lu s else s, result) })"

definition lua_runner :: "'e lua \<Rightarrow> bool \<Rightarrow> byte list \<Rightarrow> int \<Rightarrow> 'e \<times> agent \<Rightarrow> (('e \<times> agent) \<times> int) option" where
  "lua_runner lu ok data flags s =
     (case luaL_newstate lu (lua_fdopen lu s) of
        (s, False) \<Rightarrow> Some (lua_fclose lu (lua_no_state lu s), - ENOMEM)
      | (s, True) \<Rightarrow> do { (s, result) \<leftarrow> lua_script lu ok data flags s; Some (lua_fclose lu (lua_close lu s), result) })"

definition runtime_lua_init :: "byte list \<Rightarrow> u32 \<Rightarrow> 'w rubic \<Rightarrow> 'w rubic \<times> int" where
  "runtime_lua_init LUA_RELEASE runner =
     rubic_agent_register_runtime \<lparr>rt_name = cstr ''lua'', rt_version = Some (drop 4 LUA_RELEASE), rt_runner = runner\<rparr>"

section \<open>The reader of files\<close>

text \<open>What \<open>file_reader\<close> leaves on the stack of the engine: the text of an error, or a string.\<close>

datatype pushed = File_not_found | Cannot_open_file | Cannot_seek_file | Cannot_read_file | File_string "byte list"

definition ENOENT :: int where "ENOENT = 2"
definition SEEK_SET :: int where "SEEK_SET = 0"
definition SEEK_END :: int where "SEEK_END = 2"

definition DUK_EXEC_ERROR :: int where "DUK_EXEC_ERROR = 1"

text \<open>The loop over \<open>read\<close>: the buffer, or NULL after an error.\<close>

partial_function (option) read_rest :: "'f posix \<Rightarrow> int \<Rightarrow> mem \<Rightarrow> int \<Rightarrow> int \<Rightarrow> 'f \<Rightarrow> ('f \<times> mem option) option" where
  "read_rest px fd buf next remainder f =
     (if remainder = 0 then Some (f, Some buf)
      else
        case px_read px fd remainder f of
          (f, bytes, done, _) \<Rightarrow>
            do { buf \<leftarrow> wr_block buf next bytes;
                 if done < 0 then Some (f, None)
                 else read_rest px fd buf (next + done) ((remainder - done) mod 4294967296) f })"

definition file_reader :: "'f posix \<Rightarrow> byte list \<Rightarrow> 'f \<Rightarrow> ('f \<times> pushed \<times> int) option" where
  "file_reader px path f =
     (case px_open px path O_RDONLY 0 f of
        (f, fd, e) \<Rightarrow>
          if fd < 0 then Some (f, if e = ENOENT then File_not_found else Cannot_open_file, DUK_EXEC_ERROR)
          else
            case px_lseek px fd 0 SEEK_END f of
              (f, file_len, _) \<Rightarrow>
                if file_len = -1 then Some (fst (px_close px fd f), Cannot_seek_file, DUK_EXEC_ERROR)
                else
                  let f = fst (px_lseek px fd 0 SEEK_SET f); file_len = file_len mod 4294967296 in
                  do { (f, buf) \<leftarrow> read_rest px fd (replicate (nat file_len) 0) 0 file_len f;
                       let f = fst (px_close px fd f);
                       Some (case buf of
                           None \<Rightarrow> (f, Cannot_read_file, DUK_EXEC_ERROR)
                         | Some buf \<Rightarrow> (f, File_string buf, DUK_EXEC_SUCCESS)) })"

section \<open>The debug stream\<close>

definition O_NONBLOCK :: int where "O_NONBLOCK = 0x4000"

text \<open>The read and write functions of the device, which depend on the flags of the descriptor.\<close>

record 'd stream_dev =
  sd_read :: "int \<Rightarrow> int \<Rightarrow> 'd \<Rightarrow> 'd \<times> int \<times> byte list"
  sd_write :: "int \<Rightarrow> byte list \<Rightarrow> 'd \<Rightarrow> 'd \<times> int"

record 'd debug =
  debug_has_push_back :: bool
  debug_push_back_value :: byte
  fd_flags :: int
  debug_dev :: 'd

definition debug_read_cb :: "'d stream_dev \<Rightarrow> int \<Rightarrow> 'd debug \<Rightarrow> 'd debug \<times> int \<times> byte list" where
  "debug_read_cb sd len s =
     (if len = 0 then (s, 0, [])
      else if debug_has_push_back s then (s\<lparr>debug_has_push_back := False\<rparr>, 1, [debug_push_back_value s])
      else
        case sd_read sd (fd_flags s) len (debug_dev s) of
          (d, result, bytes) \<Rightarrow> (s\<lparr>debug_dev := d\<rparr>, if result \<ge> 0 then result else 0, bytes))"

definition debug_write_cb :: "'d stream_dev \<Rightarrow> byte list \<Rightarrow> 'd debug \<Rightarrow> 'd debug \<times> int" where
  "debug_write_cb sd bytes s =
     (case sd_write sd (fd_flags s) bytes (debug_dev s) of
        (d, result) \<Rightarrow> (s\<lparr>debug_dev := d\<rparr>, if result \<ge> 0 then result else 0))"

definition debug_peek_cb :: "'d stream_dev \<Rightarrow> 'd debug \<Rightarrow> 'd debug \<times> int" where
  "debug_peek_cb sd s =
     (let s = (if debug_has_push_back s then s
               else
                 let s = s\<lparr>fd_flags := fd_flags s OR O_NONBLOCK\<rparr> in
                 case sd_read sd (fd_flags s) 1 (debug_dev s) of
                   (d, result, bytes) \<Rightarrow>
                     let s = s\<lparr>debug_dev := d,
                               debug_push_back_value := (case bytes of [] \<Rightarrow> debug_push_back_value s | b # _ \<Rightarrow> b)\<rparr>;
                         s = (if result = 1 then s\<lparr>debug_has_push_back := True\<rparr> else s)
                     in s\<lparr>fd_flags := fd_flags s AND NOT O_NONBLOCK\<rparr>)
      in (s, if debug_has_push_back s then 1 else 0))"

end
