(* ===== verification/Runtimes_Props.thy ===== *)
theory Runtimes_Props
  imports Runtimes
begin

text \<open>
  Properties of the runners: each of them is a run of the agent as \<open>Rubic_Run\<close> assumes of a runner. Of the
  parts Duktape uses: a file is read completely or not at all, where a shorter file than announced never ends,
  and the debug stream loses and repeats nothing.
\<close>

section \<open>Runners are runs of the agent\<close>

definition at_place :: "async_context option \<Rightarrow> int \<Rightarrow> int option \<Rightarrow> 'e \<times> agent \<Rightarrow> agent" where
  "at_place c flags i s = snd s\<lparr>ag_place := Running c flags i\<rparr>"

text \<open>While a function of the engine runs, the agent only moves on its own: the RPC thread.\<close>

definition engine_ok :: "runtime option list \<Rightarrow> ('e \<times> agent \<Rightarrow> 'e \<times> agent) \<Rightarrow> bool" where
  "engine_ok rts f \<longleftrightarrow> (\<forall>s c flags i. agent_run rts (at_place c flags i s) (at_place c flags i (f s)))"

definition duktape_ok :: "runtime option list \<Rightarrow> 'e duktape \<Rightarrow> bool" where
  "duktape_ok rts dk \<longleftrightarrow>
     engine_ok rts (fst \<circ> duk_create_heap_default dk) \<and> engine_ok rts (fst \<circ> dux_initialize dk) \<and>
     engine_ok rts (duk_debugger_attach dk) \<and> (\<forall>data. engine_ok rts (fst \<circ> dux_peval_module_string dk data)) \<and>
     (\<forall>data. engine_ok rts (fst \<circ> dux_peval_module_file dk data)) \<and> engine_ok rts (duk_pop dk) \<and>
     engine_ok rts (fst \<circ> dux_tick dk) \<and> engine_ok rts (duk_gc dk) \<and> engine_ok rts (duk_report_error dk) \<and>
     engine_ok rts (duk_destroy_heap dk)"

definition lua_ok :: "runtime option list \<Rightarrow> 'e lua \<Rightarrow> bool" where
  "lua_ok rts lu \<longleftrightarrow>
     engine_ok rts (lua_fdopen lu) \<and> engine_ok rts (fst \<circ> luaL_newstate lu) \<and> engine_ok rts (lua_no_state lu) \<and>
     engine_ok rts (luaL_openlibs lu) \<and> (\<forall>data. engine_ok rts (fst \<circ> luaL_loadstring lu data)) \<and>
     (\<forall>data. engine_ok rts (fst \<circ> luaL_loadfile lu data)) \<and> engine_ok rts (lua_report lu) \<and>
     engine_ok rts (lua_test_pause lu) \<and> engine_ok rts (fst \<circ> lua_pcall lu) \<and> engine_ok rts (lua_close lu) \<and>
     engine_ok rts (lua_fclose lu)"

text \<open>\<open>reaches i s i' s'\<close>: the agent gets from \<open>s\<close> to \<open>s'\<close> by steps of its own.\<close>

definition reaches :: "runtime option list \<Rightarrow> async_context option \<Rightarrow> int \<Rightarrow> int option \<Rightarrow> 'e \<times> agent \<Rightarrow> int option \<Rightarrow>
    'e \<times> agent \<Rightarrow> bool" where
  "reaches rts c flags i s i' s' \<longleftrightarrow> agent_run rts (at_place c flags i s) (at_place c flags i' s')"

lemma reaches_refl [intro]: "reaches rts c flags i s i s"
  by (simp add: reaches_def agent_run_def)

lemma reaches_trans [trans]: "reaches rts c flags i s j t \<Longrightarrow> reaches rts c flags j t k u \<Longrightarrow> reaches rts c flags i s k u"
  unfolding reaches_def by (rule run_trans)

lemma engine_reaches: "engine_ok rts f \<Longrightarrow> reaches rts c flags i s i (f s)"
  unfolding engine_ok_def reaches_def by blast

lemma engine_fst_reaches: "engine_ok rts (fst \<circ> f) \<Longrightarrow> f s = (s', r) \<Longrightarrow> reaches rts c flags i s i s'"
  using engine_reaches [of rts "fst \<circ> f" c flags i s] by simp

lemma notify_reaches:
  assumes "notify_init ok s = Some (s', r)"
  shows "reaches rts c flags None s (Some r) s'"
proof -
  obtain e a w where s: "s = (e, a)" "rubic_agent_runner_notify_init ok (ag_worker a) = Some (w, r)" "s' = (e, a\<lparr>ag_worker := w\<rparr>)"
    using assms by (cases s) (auto simp: notify_init_def)
  have "agent_step rts (at_place c flags None s) (at_place c flags (Some r) s')"
    using agent_step.init [of "at_place c flags None s" c flags ok w r rts] s by (simp add: at_place_def)
  then show ?thesis by (simp add: reaches_def agent_run_def)
qed

lemma cooperate_reaches:
  assumes "cooperate junk s = Some s'"
  shows "reaches rts c flags (Some 0) s (Some 0) s'"
proof -
  obtain e a w where s: "s = (e, a)" "rubic_agent_runner_cooperate junk (ag_worker a) = Some w" "s' = (e, a\<lparr>ag_worker := w\<rparr>)"
    using assms by (cases s) (auto simp: cooperate_def)
  have "agent_step rts (at_place c flags (Some 0) s) (at_place c flags (Some 0) s')"
    using agent_step.cooperate [of "at_place c flags (Some 0) s" c flags junk w rts] s by (cases a) (simp add: at_place_def)
  then show ?thesis by (simp add: reaches_def agent_run_def)
qed

lemma tick_loop_reaches:
  assumes ok: "duktape_ok rts dk" and run: "tick_loop dk junk autoGc s = Some s'"
  shows "reaches rts c flags (Some 0) s (Some 0) s'"
proof -
  note tick = engine_fst_reaches [where f = "dux_tick dk" and rts = rts and c = c and flags = flags and i = "Some 0"]
  have t: "engine_ok rts (fst \<circ> dux_tick dk)" "engine_ok rts (duk_gc dk)" using ok by (simp_all add: duktape_ok_def)
  have "dk = dk \<longrightarrow> reaches rts c flags (Some 0) s (Some 0) s'"
  proof (rule tick_loop.raw_induct [where P = "\<lambda>d _ _ s s'. d = dk \<longrightarrow> reaches rts c flags (Some 0) s (Some 0) s'", OF _ run], goal_cases)
    case (1 loop dk' junk autoGc s s')
    then show ?case
    proof (intro impI)
      assume dk': "dk' = dk"
      obtain s1 again where s1: "dux_tick dk s = (s1, again)" by (cases "dux_tick dk s")
      note r1 = tick [OF t(1) s1]
      show "reaches rts c flags (Some 0) s (Some 0) s'"
      proof (cases again)
        case False
        then show ?thesis using 1(2) r1 by (simp add: dk' s1)
      next
        case True
        then obtain s2 where s2: "cooperate junk s1 = Some s2"
          using 1(2) unfolding dk' s1 prod.case by (cases "cooperate junk s1") simp_all
        have r2: "reaches rts c flags (Some 0) s (Some 0) s2"
          by (rule reaches_trans [OF r1 cooperate_reaches [OF s2]])
        have "(if query_abort s2 \<noteq> 0 then Some s2 else if autoGc - 1 < 0 then loop dk junk AUTO_GC_CYCLES (duk_gc dk s2)
            else loop dk junk (autoGc - 1) s2) = Some s'"
          using 1(2) unfolding dk' s1 prod.case s2 bind.simps using True by simp
        then consider "s' = s2" | "loop dk junk AUTO_GC_CYCLES (duk_gc dk s2) = Some s'" | "loop dk junk (autoGc - 1) s2 = Some s'"
          by (metis option.inject)
        then show ?thesis
        proof cases
          assume "s' = s2"
          then show ?thesis using r2 by simp
        next
          assume "loop dk junk AUTO_GC_CYCLES (duk_gc dk s2) = Some s'"
          then show ?thesis
            using 1(1) [of dk junk AUTO_GC_CYCLES "duk_gc dk s2" s'] reaches_trans [OF r2 reaches_trans [OF engine_reaches [OF t(2)]]] by blast
        next
          assume "loop dk junk (autoGc - 1) s2 = Some s'"
          then show ?thesis using 1(1) [of dk junk "autoGc - 1" s2 s'] reaches_trans [OF r2] by blast
        qed
      qed
    qed
  qed
  then show ?thesis by simp
qed

lemma return_run:
  assumes "reaches rts c flags None (e, a) i (e', a')" "ag_place a = Running c flags None"
  shows "agent_run rts a (a'\<lparr>ag_place := Returned c flags result\<rparr>)"
proof -
  have "at_place c flags None (e, a) = a" using assms(2) by (cases a) (simp add: at_place_def)
  then have "agent_run rts a (at_place c flags i (e', a'))" using assms(1) by (simp add: reaches_def)
  moreover have "agent_step rts (at_place c flags i (e', a')) (a'\<lparr>ag_place := Returned c flags result\<rparr>)"
    using agent_step.return [of "at_place c flags i (e', a')" c flags i rts result] by (simp add: at_place_def)
  ultimately show ?thesis by (rule run_step)
qed

lemma duktape_reaches:
  assumes ok: "duktape_ok rts dk" and run: "duktape_runner dk al junk dbg data flags s = Some (s', r)"
  shows "\<exists>i. reaches rts c flags None s i s'"
proof -
  have e: "engine_ok rts (fst \<circ> duk_create_heap_default dk)" "engine_ok rts (fst \<circ> dux_initialize dk)"
    "engine_ok rts (duk_debugger_attach dk)" "engine_ok rts (fst \<circ> dux_peval_module_string dk data)"
    "engine_ok rts (fst \<circ> dux_peval_module_file dk data)" "engine_ok rts (duk_pop dk)" "engine_ok rts (duk_report_error dk)"
    "engine_ok rts (duk_destroy_heap dk)" using ok by (simp_all add: duktape_ok_def)
  obtain s1 made where s1: "duk_create_heap_default dk s = (s1, made)" by (cases "duk_create_heap_default dk s")
  note r1 = engine_fst_reaches [OF e(1) s1, of c flags None]
  obtain s2 res where s2: "dux_initialize dk s1 = (s2, res)" by (cases "dux_initialize dk s1")
  have r2: "reaches rts c flags None s None s2"
    by (rule reaches_trans [OF r1 engine_fst_reaches [OF e(2) s2]])
  define s3 where "s3 = (if flags AND RUBIC_AGENT_RUNNER_FLAG_DEBUG \<noteq> 0 \<and> dbg \<ge> 0 then duk_debugger_attach dk s2 else s2)"
  have r3: "reaches rts c flags None s None s3"
    using reaches_trans [OF r2 engine_reaches [OF e(3)]] r2 by (auto simp: s3_def)
  show ?thesis
  proof (cases "made \<and> res = 0")
    case False
    then show ?thesis using run r1 r2 by (auto simp: duktape_runner_def s1 s2 split: bool.splits)
  next
    case True
    then obtain s4 n where s4: "notify_init al s3 = Some (s4, n)"
      using run by (cases "notify_init al s3") (auto simp: duktape_runner_def s1 s2 s3_def [symmetric] Let_def)
    have r4: "reaches rts c flags None s (Some n) s4"
      by (rule reaches_trans [OF r3 notify_reaches [OF s4]])
    note done4 = reaches_trans [OF r4 engine_reaches [OF e(8)]]
    show ?thesis
    proof (cases "n = 0")
      case False
      then show ?thesis using run True s4 done4 by (auto simp: duktape_runner_def s1 s2 s3_def [symmetric] Let_def)
    next
      case n: True
      obtain s5 v where s5: "(if flags AND RUBIC_AGENT_RUNNER_FLAG_SOURCE \<noteq> 0 then dux_peval_module_string dk data s4
          else dux_peval_module_file dk data s4) = (s5, v)" by fastforce
      then have r5: "reaches rts c flags None s (Some 0) s5"
        using reaches_trans [OF r4 engine_fst_reaches [OF e(4)]] reaches_trans [OF r4 engine_fst_reaches [OF e(5)]] n
        by (auto split: if_splits)
      obtain s6 where s6: "(if v = DUK_EXEC_SUCCESS then tick_loop dk junk 0 (duk_pop dk s5) else Some (duk_report_error dk s5)) = Some s6"
        "s' = duk_destroy_heap dk s6"
        using run True unfolding duktape_runner_def s1 s2 prod.case s3_def [symmetric] Let_def
        by (auto simp: s4 n s5 bind_eq_Some_conv)
      have "reaches rts c flags None s (Some 0) s6"
      proof (cases "v = DUK_EXEC_SUCCESS")
        case True
        then have "tick_loop dk junk 0 (duk_pop dk s5) = Some s6" using s6(1) by simp
        from reaches_trans [OF reaches_trans [OF r5 engine_reaches [OF e(6)]] tick_loop_reaches [OF ok this]] show ?thesis .
      next
        case False
        then show ?thesis using s6(1) reaches_trans [OF r5 engine_reaches [OF e(7)]] by auto
      qed
      from reaches_trans [OF this engine_reaches [OF e(8)]] show ?thesis unfolding s6(2) by blast
    qed
  qed
qed

lemma lua_script_reaches:
  assumes ok: "lua_ok rts lu" and run: "lua_script lu al data flags s = Some (s', r)"
  shows "\<exists>i. reaches rts c flags None s i s'"
proof -
  have e: "engine_ok rts (luaL_openlibs lu)" "engine_ok rts (fst \<circ> luaL_loadstring lu data)"
    "engine_ok rts (fst \<circ> luaL_loadfile lu data)" "engine_ok rts (lua_report lu)" "engine_ok rts (lua_test_pause lu)"
    "engine_ok rts (fst \<circ> lua_pcall lu)" using ok by (simp_all add: lua_ok_def)
  define s1 where "s1 = luaL_openlibs lu s"
  have r1: "reaches rts c flags None s None s1" unfolding s1_def by (rule engine_reaches [OF e(1)])
  obtain s2 v where s2: "(if flags AND RUBIC_AGENT_RUNNER_FLAG_SOURCE \<noteq> 0 then luaL_loadstring lu data s1
      else luaL_loadfile lu data s1) = (s2, v)" by fastforce
  then have r2: "reaches rts c flags None s None s2"
    using reaches_trans [OF r1 engine_fst_reaches [OF e(2)]] reaches_trans [OF r1 engine_fst_reaches [OF e(3)]]
    by (auto split: if_splits)
  note run = run [unfolded lua_script_def Let_def, folded s1_def, unfolded s2 prod.case]
  show ?thesis
  proof (cases "v = 0")
    case False
    then show ?thesis using run reaches_trans [OF r2 engine_reaches [OF e(4)]] by auto
  next
    case True
    then obtain s3 n where s3: "notify_init al s2 = Some (s3, n)" using run by (cases "notify_init al s2") auto
    have r3: "reaches rts c flags None s (Some n) s3"
      by (rule reaches_trans [OF r2 notify_reaches [OF s3]])
    obtain s4 m where s4: "lua_pcall lu (lua_test_pause lu s3) = (s4, m)" by fastforce
    have r4: "reaches rts c flags None s (Some n) s4"
      by (rule reaches_trans [OF reaches_trans [OF r3 engine_reaches [OF e(5)]] engine_fst_reaches [OF e(6) s4]])
    show ?thesis
      using run True s3 s4 r3 r4 reaches_trans [OF r4 engine_reaches [OF e(4)]] by (auto split: if_splits)
  qed
qed

lemma lua_reaches:
  assumes ok: "lua_ok rts lu" and run: "lua_runner lu al data flags s = Some (s', r)"
  shows "\<exists>i. reaches rts c flags None s i s'"
proof -
  have e: "engine_ok rts (lua_fdopen lu)" "engine_ok rts (fst \<circ> luaL_newstate lu)" "engine_ok rts (lua_no_state lu)"
    "engine_ok rts (lua_close lu)" "engine_ok rts (lua_fclose lu)" using ok by (simp_all add: lua_ok_def)
  obtain s1 made where s1: "luaL_newstate lu (lua_fdopen lu s) = (s1, made)" by fastforce
  have r1: "reaches rts c flags None s None s1"
    by (rule reaches_trans [OF engine_reaches [OF e(1)] engine_fst_reaches [OF e(2) s1]])
  show ?thesis
  proof (cases made)
    case False
    then have "s' = lua_fclose lu (lua_no_state lu s1)" using run by (simp add: lua_runner_def s1)
    then show ?thesis
      using reaches_trans [OF reaches_trans [OF r1 engine_reaches [OF e(3)]] engine_reaches [OF e(5)]] by blast
  next
    case True
    then obtain s2 where s2: "lua_script lu al data flags s1 = Some (s2, r)" "s' = lua_fclose lu (lua_close lu s2)"
      using run by (auto simp: lua_runner_def s1 bind_eq_Some_conv)
    from lua_script_reaches [OF ok s2(1), of c] obtain i where "reaches rts c flags None s1 i s2" by blast
    from reaches_trans [OF reaches_trans [OF reaches_trans [OF r1 this] engine_reaches [OF e(4)]] engine_reaches [OF e(5)]]
    show ?thesis unfolding s2(2) by blast
  qed
qed

section \<open>The debug stream\<close>

text \<open>\<open>input d\<close> are the bytes the device has still to give; a read answers its count.\<close>

definition dev_ok :: "'d stream_dev \<Rightarrow> ('d \<Rightarrow> byte list) \<Rightarrow> bool" where
  "dev_ok sd input \<longleftrightarrow>
     (\<forall>fl n d d' r bs. sd_read sd fl n d = (d', r, bs) \<longrightarrow>
        input d = bs @ input d' \<and> (if 0 \<le> r then r = int (length bs) else bs = []))"

definition debug_input :: "('d \<Rightarrow> byte list) \<Rightarrow> 'd debug \<Rightarrow> byte list" where
  "debug_input input s = (if debug_has_push_back s then [debug_push_back_value s] else []) @ input (debug_dev s)"

lemma debug_read_takes:
  assumes "dev_ok sd input" "debug_read_cb sd len s = (s', r, bs)"
  shows "debug_input input s = bs @ debug_input input s' \<and> r = int (length bs)"
proof (cases "len = 0 \<or> debug_has_push_back s")
  case True
  then show ?thesis using assms(2) by (auto simp: debug_read_cb_def debug_input_def split: if_splits)
next
  case False
  obtain d r' bs' where *: "sd_read sd (fd_flags s) len (debug_dev s) = (d, r', bs')" by (metis prod_cases3)
  then have "input (debug_dev s) = bs' @ input d" "if 0 \<le> r' then r' = int (length bs') else bs' = []"
    using assms(1) unfolding dev_ok_def by blast+
  then show ?thesis using assms(2) False * by (auto simp: debug_read_cb_def debug_input_def split: if_splits)
qed

lemma debug_peek_input:
  assumes ok: "dev_ok sd input" and one: "\<And>fl d d' n bs. sd_read sd fl 1 d = (d', n, bs) \<Longrightarrow> n \<le> 1"
    and peek: "debug_peek_cb sd s = (s', r)"
  shows "debug_input input s' = debug_input input s \<and> (r = 1 \<longleftrightarrow> debug_has_push_back s')"
proof (cases "debug_has_push_back s")
  case True
  then show ?thesis using peek by (auto simp: debug_peek_cb_def)
next
  case False
  obtain d n bs where *: "sd_read sd (fd_flags s OR O_NONBLOCK) 1 (debug_dev s) = (d, n, bs)" by (metis prod_cases3)
  have "input (debug_dev s) = bs @ input d" "if 0 \<le> n then n = int (length bs) else bs = []" "n \<le> 1"
    using ok * one [OF *] unfolding dev_ok_def by blast+
  moreover from this(2,3) have "n = 1 \<and> length bs = 1 \<or> n \<noteq> 1 \<and> bs = []"
    by (cases bs) (auto split: if_splits)
  ultimately show ?thesis using peek False
    by (auto simp: debug_peek_cb_def Let_def * debug_input_def length_Suc_conv)
qed

section \<open>Reading a file\<close>

text \<open>\<open>rest fd f\<close> is what is left behind the position of a descriptor.\<close>

definition reads_ok :: "'f posix \<Rightarrow> (int \<Rightarrow> 'f \<Rightarrow> byte list) \<Rightarrow> bool" where
  "reads_ok px rest \<longleftrightarrow>
     (\<forall>fd n f f' bs r e. px_read px fd n f = (f', bs, r, e) \<and> 0 < n \<longrightarrow>
        (if r < 0 then bs = []
         else r = int (length bs) \<and> r \<le> n \<and> (rest fd f \<noteq> [] \<longrightarrow> bs \<noteq> []) \<and> rest fd f = bs @ rest fd f'))"

lemma reads_okD:
  assumes "reads_ok px rest" "px_read px fd n f = (f', bs, r, e)" "0 < n"
  shows "if r < 0 then bs = []
         else r = int (length bs) \<and> r \<le> n \<and> (rest fd f \<noteq> [] \<longrightarrow> bs \<noteq> []) \<and> rest fd f = bs @ rest fd f'"
  using assms unfolding reads_ok_def by blast

lemma read_rest_complete:
  assumes ok: "reads_ok px rest" and len: "int (length pre + length (rest fd f)) < 4294967296"
  shows "\<exists>f' r. read_rest px fd (pre @ replicate (length (rest fd f)) 0) (int (length pre)) (int (length (rest fd f))) f = Some (f', r) \<and>
    (r = None \<or> r = Some (pre @ rest fd f))"
  using len
proof (induction "length (rest fd f)" arbitrary: pre f rule: less_induct)
  case less
  show ?case
  proof (cases "rest fd f = []")
    case True
    then show ?thesis by (simp add: read_rest.simps)
  next
    case False
    let ?n = "int (length (rest fd f))"
    obtain f' bs r e where px: "px_read px fd ?n f = (f', bs, r, e)" by (metis prod_cases4)
    have nz: "?n \<noteq> 0" using False by simp
    have law: "if r < 0 then bs = [] else r = int (length bs) \<and> r \<le> ?n \<and> bs \<noteq> [] \<and> rest fd f = bs @ rest fd f'"
      using reads_okD [OF ok px] False by simp
    show ?thesis
    proof (cases "r < 0")
      case True
      then show ?thesis using law px False
        by (subst read_rest.simps) (simp add: wr_block_def)
    next
      case r: False
      with law have l: "r = int (length bs)" "bs \<noteq> []" "rest fd f = bs @ rest fd f'" by auto
      let ?z = "\<lambda>n. replicate n (0 :: byte)"
      have w: "wr_block (pre @ ?z (length (rest fd f))) (int (length pre)) bs = Some ((pre @ bs) @ ?z (length (rest fd f')))"
        using l(2,3) by (simp add: wr_block_def)
      have m: "(?n - r) mod 4294967296 = int (length (rest fd f'))"
        using l less(2) by simp
      have "\<exists>g v. read_rest px fd ((pre @ bs) @ ?z (length (rest fd f'))) (int (length (pre @ bs))) (int (length (rest fd f'))) f' = Some (g, v) \<and>
          (v = None \<or> v = Some ((pre @ bs) @ rest fd f'))"
        by (rule less(1)) (use l less(2) in auto)
      then show ?thesis
        unfolding read_rest.simps [of px fd "pre @ _"] if_not_P [OF nz] px prod.case w bind.simps if_not_P [OF r] m
        by (simp add: l(1,3))
    qed
  qed
qed

text \<open>When the file has become shorter than its announced length, \<open>read\<close> answers 0 at the end: the loop
  does not end.\<close>

lemma read_rest_stuck:
  assumes "\<And>n. px_read px fd n f = (f, [], 0, e)" "0 < n" "n < 4294967296"
  shows "read_rest px fd buf p n f = None"
proof (rule ccontr)
  assume "read_rest px fd buf p n f \<noteq> None"
  then obtain y where y: "read_rest px fd buf p n f = Some y" by blast
  have "\<not> (px = px \<and> fd = fd \<and> n = n \<and> f = f)"
  proof (rule read_rest.raw_induct [where P = "\<lambda>px' fd' _ _ n' f' _. \<not> (px' = px \<and> fd' = fd \<and> n' = n \<and> f' = f)", OF _ y], goal_cases)
    case (1 loop px' fd' buf p n' f' y)
    show ?case
    proof (intro notI, elim conjE)
      assume eq: "px' = px" "fd' = fd" "n' = n" "f' = f"
      have m: "n mod 4294967296 = n" using assms(2,3) by simp
      have nz: "n \<noteq> 0" using assms(2) by simp
      have w: "wr_block buf p [] = Some buf" by (simp add: wr_block_def)
      have "loop px fd buf (p + 0) ((n - 0) mod 4294967296) f = Some y"
        using 1(2) unfolding eq assms(1) prod.case w bind.simps if_not_P [OF nz] by simp
      from 1(1) [OF this] show False using m by simp
    qed
  qed
  then show False by simp
qed

lemma file_reader_complete:
  assumes "reads_ok px rest" "px_open px path O_RDONLY 0 f = (f1, fd, e)" "0 \<le> fd"
    "px_lseek px fd 0 SEEK_END f1 = (f2, int (length (rest fd f3)), e2)" "px_lseek px fd 0 SEEK_SET f2 = (f3, p)"
    "length (rest fd f3) < 4294967296"
  shows "\<exists>f'. file_reader px path f = Some (f', Cannot_read_file, DUK_EXEC_ERROR) \<or>
    file_reader px path f = Some (f', File_string (rest fd f3), DUK_EXEC_SUCCESS)"
proof -
  have m: "int (length (rest fd f3)) mod 4294967296 = int (length (rest fd f3))" using assms(6) by simp
  from read_rest_complete [OF assms(1), of "[]" fd f3] assms(6) obtain g v where
    "read_rest px fd (replicate (length (rest fd f3)) 0) 0 (int (length (rest fd f3))) f3 = Some (g, v)"
    "v = None \<or> v = Some (rest fd f3)" by auto
  then show ?thesis
    unfolding file_reader_def assms(2) prod.case assms(4) Let_def assms(5) fst_conv m nat_int
    using assms(3) by auto
qed

section \<open>Property\<close>


text \<open>An engine that compiles and runs any program at once, started from the boot options.\<close>

definition ex_lua :: "unit lua" where
  "ex_lua = \<lparr>lua_fdopen = id, luaL_newstate = (\<lambda>s. (s, True)), lua_no_state = id, luaL_openlibs = id,
     luaL_loadstring = (\<lambda>_ s. (s, 0)), luaL_loadfile = (\<lambda>_ s. (s, 0)), lua_report = id, lua_test_pause = id,
     lua_pcall = (\<lambda>s. (s, 0)), lua_close = id, lua_fclose = id\<rparr>"

lemma ex_lua_ok: "lua_ok rts ex_lua"
  by (simp add: lua_ok_def ex_lua_def engine_ok_def agent_run_def)

definition ex_boot :: agent where
  "ex_boot = ex_agent (rubic_agent_init\<lparr>w_state := WORKER_STATE_STARTING, w_blocks := 1\<rparr>) (Running None 9 None) False [] []"

lemma ex_boot_run: "agent_run rts (agent_start False) ex_boot"
proof -
  let ?w = "rubic_agent_init\<lparr>w_state := WORKER_STATE_STARTING, w_blocks := 1\<rparr>"
  let ?a = "\<lambda>w p. ex_agent w p False [] []"
  have s: "agent_start False = ?a (rubic_agent_init\<lparr>w_state := WORKER_STATE_AUTOBOOT\<rparr>) (Top True)"
    by (simp add: agent_start_def ex_agent_def rubic_agent_service_def)
  have 1: "agent_step rts (agent_start False) (?a ?w (Invoke None (Some ex_runtime) (Some []) 9))"
    using agent_step.top [of "agent_start False" True "Some ([], Some ex_runtime)" _ _ rts]
    by (simp add: s worker_top_def runner_flags rubic_agent_init_def)
  have 2: "agent_step rts (?a ?w (Invoke None (Some ex_runtime) (Some []) 9)) ex_boot"
    using agent_step.invoke [of "?a ?w (Invoke None (Some ex_runtime) (Some []) 9)" None ex_runtime "[]" 9 rts]
    by (simp add: ex_boot_def)
  show ?thesis using 1 2 unfolding agent_run_def by (meson rtranclp.rtrancl_into_rtrancl rtranclp.rtrancl_refl)
qed


end
