(* ===== verification/Spec2Isabelle.thy ===== *)
theory Spec2Isabelle
  imports Bson_Props Crc32 Md5 Tth_Attr Tth_Props Buart Pipe_Props Avm Rpc_Reply Client_Fs_Props Pfc_Props I2c_Master Epcs_Disk_Props Spi_Flash_Props Epcs_Fatfs_Props Programmer Runtimes_Props
begin

text \<open>
  Verification of the firmware of PERIDOT Piccolo (\<open>olive-piccolo\<close>): the C code of the project itself
  under \<open>software/olive_rubic_bsp\<close>.

  \<^bold>\<open>The program.\<close> A host talks to the board over one serial line. The buffered UART driver
  (\<open>drivers/src/buffered_uart.c\<close>) moves the bytes; the software hostbridge
  (\<open>services/src/peridot_sw_hostbridge_gen2.c\<close>) splits what comes in by channel and frames and escapes
  what goes out. Channel 0 reads memory (\<open>..._avm.c\<close>), channel 1 is the RPC server
  (\<open>peridot_rpc_server.c\<close>), the others are pipes (\<open>..._pipe.c\<close>). RPC messages are BSON documents
  (\<open>bson.c\<close>); the Rubic agent (\<open>rubic_agent.c\<close>) runs programs in a worker thread and programs the flash, the file
  service (\<open>peridot_client_fs.c\<close>) registers methods that reach the files, with the
  digests of \<open>md5.c\<close> and \<open>crc32.c\<close>. Everything runs in threads of TinyThreads (\<open>TINYTH/\<close>).
  Below are the drivers of the board's own cores (\<open>drivers/src\<close>): the pin function controller with the pin
  maps of the script engines (\<open>resources.c\<close>), the servo, the I2C and SPI masters, the SPI flash over
  an SPI master and the disk in the configuration flash.

  \<^bold>\<open>The theories\<close>, in the order of the imports:
  \<^item> \<open>Prelude\<close>: words, C strings, blocks of memory with checked access, error numbers.
  \<^item> \<open>Bson\<close> is the code of \<open>bson.c\<close>; \<open>Bson_Doc\<close> says what a document is and what the readers find in it,
    \<open>Bson_Build\<close> that the writers append elements (locale with one interpretation per type of value),
    \<open>Bson_Safety\<close> what the readers do on arbitrary bytes, \<open>Bson_Members\<close> the view the clients have
    (\<open>member es k\<close>), \<open>Bson_Props\<close> the properties.
  \<^item> \<open>Crc32\<close> and \<open>Md5\<close>: the digests, against the bit-serial division and RFC 1321.
  \<^item> \<open>Tth_Core\<close> is \<open>priv/tth_core.h\<close> (thread objects, lists, switch), \<open>Tth_Api\<close> the operations of
    \<open>tth_sched.c\<close>, \<open>tth_thread.c\<close>, \<open>tth_mutex.c\<close>, \<open>tth_sem.c\<close>, \<open>tth_cond.c\<close> and \<open>tth_sleep.c\<close>; \<open>Tth_Sched\<close>
    the scheduler invariant and the locale \<open>wait_queue\<close>; \<open>Tth_Ops\<close>, \<open>Tth_Time\<close> and \<open>Tth_Life\<close> its
    preservation by each operation; \<open>Tth_Run\<close> the step relation of a whole program; \<open>Tth_Props\<close> and
    \<open>Tth_Attr\<close> (attributes, newlib locks) the properties.
  \<^item> \<open>Buart\<close>: the UART driver and the properties of \<open>read\<close> and \<open>write\<close>.
  \<^item> \<open>Hostbridge\<close> and \<open>Hostbridge_Props\<close>: \<open>source\<close> sends the specified frame, \<open>service\<close> splits by channel.
    The locale \<open>accepting\<close> is the contract of what bytes are written to, \<open>live\<close> that of one that always
    goes on; the UART and the pipes are the interpretations.
  \<^item> \<open>Pipe\<close> and \<open>Pipe_Props\<close>: the ring buffer as whole calls, where it refines a bounded queue,
    and as interleaved steps of a reader and a writer.
  \<^item> \<open>Avm\<close>: channel 0.
  \<^item> \<open>Rpc_Server\<close> is the code of the RPC server, \<open>Rpc_Props\<close> its sink and \<open>Rpc_Reply\<close> the service.
  \<^item> \<open>Client_Fs\<close> is the code of the file service, \<open>Client_Fs_Props\<close> its properties.
  \<^item> \<open>Pfc\<close> and \<open>Pfc_Props\<close>: the pin function controller (\<open>peridot_pfc_interface.c\<close>) and the pin maps;
    \<open>Servo\<close>: \<open>peridot_servo.c\<close>.
  \<^item> \<open>Master\<close>: the list of registered masters, shared by \<open>I2c_Master\<close> and \<open>Spi_Master\<close>, the code of
    \<open>peridot_i2c_master.c\<close> and \<open>peridot_spi_master.c\<close> with their properties.
  \<^item> \<open>Flash_Chip\<close>: one command on the SPI bus and the contract of a NOR flash behind it;
    \<open>Spi_Flash\<close> and \<open>Spi_Flash_Props\<close>: \<open>peridot_spi_flash.c\<close>, what is written is read back;
    \<open>Epcs_Disk\<close> and \<open>Epcs_Disk_Props\<close>: \<open>epcs_fatfs_diskio.c\<close>, which refines an array of sectors.
    \<open>Epcs_Fatfs\<close> and \<open>Epcs_Fatfs_Props\<close>: \<open>epcs_fatfs.c\<close>, the file functions of the HAL over FatFs, whose
    descriptors own their file objects (a step relation) and act as a file with a position (\<open>file_at\<close>)
    where FatFs keeps \<open>fatfs_laws\<close>, what its documentation says.
  \<^item> \<open>Rubic_Methods\<close>: the RPC methods of the Rubic agent (\<open>rubic_agent.c\<close>) that describe the board and
    program its flash; \<open>Rubic_Props\<close> and \<open>Rubic_Info\<close> their properties; \<open>Programmer\<close>: \<open>programmer.c\<close>, with what
    is written over RPC being what is hashed.
  \<^item> \<open>Rubic_Boot\<close> and \<open>Rubic_Boot_Props\<close>: the reader of the boot options, which stays in its buffer for short files.
  \<^item> \<open>Rubic_Agent\<close>: the worker of the agent, and \<open>Rubic_Run\<close>: the worker and the RPC thread as a step relation,
    where each request is answered, pending or lost.
  \<^item> \<open>Runtimes\<close> and \<open>Runtimes_Props\<close>: the runners of \<open>runtime_lua.c\<close> and \<open>runtime_duktape.c\<close> over their engines,
    which are runs of that step relation, and the file reader and debug stream of the Duktape one.
  \<^item> This theory: the host, the RPC server and the file service together.

  \<^bold>\<open>Conventions.\<close> A function keeps the name it has in the code. A C block is the list of its bytes and a
  pointer an offset into it; an access outside is \<open>None\<close>, so a definition of type \<open>option\<close> that yields
  \<open>Some\<close> has shown that the code leaves no block. State is a record per component, passed and
  returned. A loop over the bytes of an argument is a structural recursion; a loop that
  follows pointers or waits for a device is a \<open>partial_function\<close>, where \<open>None\<close> is also the value of not
  returning, so the properties that name a result show that it ends (\<open>uart_write_read\<close>,
  \<open>calls_are_defined\<close>); no definition has fuel. \<open>malloc\<close>, the C library, FatFs and the script
  engines are parameters; the values of uninitialised variables are too (\<open>junk\<close>). A register access of a driver
  is a function \<open>io\<close> of the state of the hardware, a parameter as well; what a driver relies on is a
  predicate on it (\<open>controller\<close> for the pin controller, \<open>flash_chip\<close> for a NOR flash on its SPI
  bus), which a concrete device satisfies in the witnesses. The mutexes around whole driver calls are left
  out: they order the calls, and the models are of one call after another.

  \<^bold>\<open>Not modelled.\<close> Vendor and third-party code (the Altera HAL and drivers, FatFs), generated files,
  hardware descriptions and assembly; the script engines, which are submodules that are not in the tree;
  \<open>main.c\<close> of the two images, a sequence of calls of the components above; \<open>tth_once.c\<close>, which the
  configuration leaves out.
\<close>

section \<open>The file service behind the RPC server\<close>

text \<open>What the host does: it sends a request as one packet and the worker serves it.\<close>

fun host_requests :: "allocator \<Rightarrow> int \<Rightarrow> byte list list \<Rightarrow> 'w rpc \<Rightarrow> 'w rpc option" where
  "host_requests alloc junk [] s = Some s"
| "host_requests alloc junk (doc # docs) s =
     do { (s, n) \<leftarrow> peridot_rpc_server_sink alloc (frame doc) s;
          s \<leftarrow> peridot_rpc_server_service alloc junk s;
          if n = int (length (frame doc)) then host_requests alloc junk docs s else None }"

definition file_methods :: "'f posix \<Rightarrow> allocator \<Rightarrow> int \<Rightarrow> 'f cfs method_entry list" where
  "file_methods px malloc junk = map (\<lambda>(nm, f). (nm, Sync f)) (fs_methods True px malloc junk)"

text \<open>The server between two requests; \<open>p\<close> and \<open>b\<close> are the paths and the blocks of the file service.\<close>

definition serving :: "'f posix \<Rightarrow> allocator \<Rightarrow> int \<Rightarrow> path_entry list \<Rightarrow> int \<Rightarrow> 'f cfs rpc \<Rightarrow> bool" where
  "serving px malloc junk p b s \<longleftrightarrow> rpc_idle s \<and> r_sem s = 0 \<and> methods s = file_methods px malloc junk \<and>
     fs_ok (world s) \<and> path_list (world s) = p \<and> fs_blocks (world s) = b"

text \<open>A request with parameters: the bytes and the members of the document.\<close>

definition well_formed :: "(byte list \<times> elem list) set" where
  "well_formed = {(doc, es). length doc = doc_size es \<and> (\<exists>nm fs. request doc es nm (Some fs))}"

text \<open>The ids of the requests that have one, in order.\<close>

definition ids_of :: "(byte list \<times> elem list) list \<Rightarrow> (byte \<times> byte list) list" where
  "ids_of reqs = List.map_filter (\<lambda>(doc, es). member es (cstr ''id'')) reqs"

definition answers :: "(byte \<times> byte list) list \<Rightarrow> outcome list \<Rightarrow> (byte list \<times> u32) list" where
  "answers ids outs = map2 (\<lambda>i out. (reply_doc (Some i) out, SOURCE_PACKETIZED)) ids outs"

lemma well_formed_request_ok:
  assumes "is_doc doc es" "doc_size es \<le> 65536" "length doc = doc_size es"
  shows "request_ok doc"
proof -
  have "doc = enc_doc es" by (rule exact_doc [OF assms(1,3)])
  with assms(2,3) show ?thesis by (simp add: request_ok_def enc_doc_def doc_size_def)
qed

lemma file_call:
  assumes "is_doc m fs" "fs_ok w" "posix_ok px" "no_huge malloc"
  shows "call_ok (map_of (file_methods px malloc junk) nm) (Some m) w \<and>
    (\<forall>w' out. apply_method (map_of (file_methods px malloc junk) nm) (Some m) w = Some (w', out) \<longrightarrow>
      out \<noteq> None \<and> fs_ok w' \<and> path_list w' = path_list w \<and> fs_blocks w' = fs_blocks w)"
proof (cases "map_of (fs_methods True px malloc junk) nm")
  case None
  then have "map_of (file_methods px malloc junk) nm = None"
    by (auto simp: file_methods_def map_of_eq_None_iff image_iff split: prod.splits)
  with assms(2) show ?thesis by (simp add: call_ok_def JSONRPC_ERR_METHOD_NOT_FOUND_def)
next
  case (Some f)
  then have "map_of (file_methods px malloc junk) nm = Some (Sync f)"
    by (simp add: file_methods_def map_of_map)
  moreover from methods_safe [OF assms(1-4) map_of_SomeD [OF Some]] obtain r e w' where
    "f (Some m) w = Some (r, e, w')" "fs_ok w'" "fs_blocks w' = fs_blocks w" "path_list w' = path_list w"
    "\<forall>d. r = Some d \<longrightarrow> outcome_ok (Inr (Some d))" by (auto simp: safe_def)
  ultimately show ?thesis by (cases r) (auto simp: call_ok_def)
qed

lemma file_names_ok: "method_names_ok (file_methods px malloc junk)"
  by (simp add: method_names_ok_def file_methods_def fs_methods_def name_ok_def cstr_def)

lemma delivered_simps [simp]:
  "r_sem (delivered doc s) = r_sem s + 1" "pending_job (delivered doc s) = Some doc"
  "methods (delivered doc s) = methods s" "world (delivered doc s) = world s"
  by (simp_all add: delivered_def)

text \<open>One request, from its packet to its answer.\<close>

lemma one_request:
  assumes "serving px malloc junk p b s" "(doc, es) \<in> well_formed" "\<forall>n sz. alloc n sz" "posix_ok px" "no_huge malloc"
  shows "\<exists>s' out. host_requests alloc junk' [doc] s = Some s' \<and> serving px malloc junk p b s' \<and> blocks s' = blocks s \<and>
    sent s' = sent s @ (case member es (cstr ''id'') of None \<Rightarrow> [] | Some i \<Rightarrow> answers [i] [out])"
proof -
  from assms(2) obtain nm fs where r: "request doc es nm (Some fs)" and l: "length doc = doc_size es"
    by (auto simp: well_formed_def)
  note sv = assms(1) [unfolded serving_def]
  from r have d: "is_doc doc es" "doc_size es \<le> 65536" by (simp_all add: request_def)
  note ok = well_formed_request_ok [OF d l]
  from sink_frame [of s doc alloc] sv ok assms(3)
  have sink: "peridot_rpc_server_sink alloc (frame doc) s = Some (delivered doc s, int (length (frame doc)))" by simp
  have call: "call_ok (map_of (methods (delivered doc s)) nm) q (world (delivered doc s)) \<and>
    (\<forall>w' out. apply_method (map_of (methods (delivered doc s)) nm) q (world (delivered doc s)) = Some (w', out) \<longrightarrow>
      out \<noteq> None \<and> fs_ok w' \<and> path_list w' = p \<and> fs_blocks w' = b)" if "params_are (Some fs) q" for q
    using file_call [of _ fs "world s" px malloc junk nm] that sv assms(4,5) by (auto simp: params_are_def)
  have pre: "r_sem (delivered doc s) > 0" "pending_job (delivered doc s) = Some doc"
    "method_names_ok (methods (delivered doc s))" using sv file_names_ok by simp_all
  have ok': "call_ok (map_of (methods (delivered doc s)) nm) q (world (delivered doc s))" if "params_are (Some fs) q" for q
    using call [OF that] by blast
  from service_request [where junk = junk', OF pre(1,2) r pre(3) assms(3) ok'] obtain q w out where q: "params_are (Some fs) q"
    "apply_method (map_of (methods (delivered doc s)) nm) q (world (delivered doc s)) = Some (w, out)"
    "peridot_rpc_server_service alloc junk' (delivered doc s) = Some
      (case out of
         None \<Rightarrow> taken_job (delivered doc s)\<lparr>world := w, async_jobs := async_jobs (delivered doc s) @ [doc]\<rparr>
       | Some out \<Rightarrow>
           (case member es (cstr ''id'') of
              None \<Rightarrow> taken_job (delivered doc s)\<lparr>world := w, blocks := blocks (delivered doc s) - 1\<rparr>
            | Some i \<Rightarrow> after_reply 1 1 [reply_doc (Some i) out] (taken_job (delivered doc s)\<lparr>world := w\<rparr>)))"
    by blast
  from call [OF q(1)] q(2) obtain o' where w: "out = Some o'" "fs_ok w" "path_list w = p" "fs_blocks w = b" by auto
  have len: "4 \<le> length doc" using l by (simp add: doc_size_def)
  show ?thesis
  proof (cases "member es (cstr ''id'')")
    case None
    let ?s = "taken_job (delivered doc s)\<lparr>world := w, blocks := blocks (delivered doc s) - 1\<rparr>"
    have "host_requests alloc junk' [doc] s = Some ?s" using sink q(3) w(1) None by simp
    moreover have "serving px malloc junk p b ?s" "blocks ?s = blocks s" "sent ?s = sent s"
      using sv w(2-4) len by (simp_all add: serving_def taken_job_def delivered_def rpc_idle_def)
    ultimately show ?thesis unfolding None by auto
  next
    case (Some i)
    let ?s = "after_reply 1 1 [reply_doc (Some i) o'] (taken_job (delivered doc s)\<lparr>world := w\<rparr>)"
    have "host_requests alloc junk' [doc] s = Some ?s" using sink q(3) w(1) Some by simp
    moreover have "serving px malloc junk p b ?s" "blocks ?s = blocks s" "sent ?s = sent s @ answers [i] [o']"
      using sv w(2-4) len by (simp_all add: serving_def taken_job_def delivered_def rpc_idle_def after_reply_def answers_def)
    ultimately show ?thesis unfolding Some by auto
  qed
qed

lemma host_requests_Cons:
  "host_requests alloc junk (doc # docs) s = Option.bind (host_requests alloc junk [doc] s) (host_requests alloc junk docs)"
  by (auto split: Option.bind_split)

lemma host_requests_serve:
  assumes "\<forall>n sz. alloc n sz" "posix_ok px" "no_huge malloc"
  shows "serving px malloc junk p b s \<Longrightarrow> set reqs \<subseteq> well_formed \<Longrightarrow>
    \<exists>s' outs. host_requests alloc junk' (map fst reqs) s = Some s' \<and> serving px malloc junk p b s' \<and>
      blocks s' = blocks s \<and> length outs = length (ids_of reqs) \<and> sent s' = sent s @ answers (ids_of reqs) outs"
proof (induction reqs arbitrary: s)
  case Nil
  then show ?case by (simp add: ids_of_def answers_def)
next
  case (Cons r reqs)
  obtain doc es where req: "r = (doc, es)" by (cases r)
  from one_request [OF Cons.prems(1) _ assms, of doc es junk'] Cons.prems(2) req obtain s1 out where
    1: "host_requests alloc junk' [doc] s = Some s1" "serving px malloc junk p b s1" "blocks s1 = blocks s"
    "sent s1 = sent s @ (case member es (cstr ''id'') of None \<Rightarrow> [] | Some i \<Rightarrow> answers [i] [out])" by auto
  from Cons.IH [OF 1(2)] Cons.prems(2) obtain s2 outs where
    2: "host_requests alloc junk' (map fst reqs) s1 = Some s2" "serving px malloc junk p b s2" "blocks s2 = blocks s1"
    "length outs = length (ids_of reqs)" "sent s2 = sent s1 @ answers (ids_of reqs) outs" by auto
  have h: "host_requests alloc junk' (map fst (r # reqs)) s = Some s2"
    unfolding req list.map fst_conv by (subst host_requests_Cons) (simp only: 1(1) 2(1) bind.simps)
  show ?case
  proof (cases "member es (cstr ''id'')")
    case None
    with h 1 2 show ?thesis by (intro exI [of _ s2] exI [of _ outs]) (simp add: ids_of_def req map_filter_simps)
  next
    case (Some i)
    with h 1 2 show ?thesis
      by (intro exI [of _ s2] exI [of _ "out # outs"]) (simp add: ids_of_def req map_filter_simps answers_def)
  qed
qed



end
